(* ===== verification/LW_Prelude.thy ===== *)
theory LW_Prelude
  imports Complex_Main "HOL-Library.Word" "HOL-Library.Char_ord" "HOL-Library.List_Lexorder"
    "HOL-Library.Code_Target_Nat"
begin

text \<open>
  Shared vocabulary of the Local-WEB development: Go's byte slices, strings, fixed-width
  integers and time values, the parts of \<open>encoding/binary\<close>, \<open>bytes.Buffer\<close> and \<open>io\<close> that the
  sources use, and the generic facts about them. The collection \<open>wire_simps\<close> gathers the
  equations that carry the encode/decode proofs of every component.
\<close>

named_theorems wire_simps \<open>evaluation of readers over encoded bytes\<close>

section \<open>Bytes and strings\<close>

type_synonym byte = "8 word"
type_synonym bytes = "8 word list"
type_synonym u16 = "16 word"
type_synonym u32 = "32 word"
type_synonym u64 = "64 word"

text \<open>
  \<open>int64\<close> values are kept as 64-bit words and compared through \<open>sint\<close>. A \<open>time.Time\<close> is the
  number of nanoseconds since Go's zero time, so \<open>IsZero\<close> is \<open>t = 0\<close>; a \<open>time.Duration\<close> is a
  number of nanoseconds.
\<close>

type_synonym int64 = "64 word"
type_synonym gotime = int
type_synonym duration = int

text \<open>\<open>Time.Sub\<close> saturates at the range of \<open>int64\<close>.\<close>

definition time_sub :: "gotime \<Rightarrow> gotime \<Rightarrow> duration" where
  "time_sub t u = max (- (2 ^ 63)) (min (2 ^ 63 - 1) (t - u))"

lemma time_sub_less_iff: "- (2 ^ 63) < d \<Longrightarrow> d < 2 ^ 63 \<Longrightarrow> time_sub t u < d \<longleftrightarrow> t - u < d"
  and time_sub_le_iff: "- (2 ^ 63) \<le> d \<Longrightarrow> d < 2 ^ 63 - 1 \<Longrightarrow> time_sub t u \<le> d \<longleftrightarrow> t - u \<le> d"
  and time_sub_ge_iff: "- (2 ^ 63) < d \<Longrightarrow> d < 2 ^ 63 \<Longrightarrow> d \<le> time_sub t u \<longleftrightarrow> d \<le> t - u"
  by (auto simp: time_sub_def)

text \<open>Go's integer division and remainder, and conversion of a float, truncate towards zero.\<close>

definition quot :: "int \<Rightarrow> int \<Rightarrow> int" where
  "quot a b = sgn a * sgn b * (\<bar>a\<bar> div \<bar>b\<bar>)"

definition trunc :: "real \<Rightarrow> int" where
  "trunc x = (if x < 0 then \<lceil>x\<rceil> else \<lfloor>x\<rfloor>)"

text \<open>\<open>Duration.Seconds\<close>.\<close>

definition seconds :: "(real \<Rightarrow> real) \<Rightarrow> duration \<Rightarrow> real" where
  "seconds fl d =
     (let sec = quot d 1000000000; nsec = d - sec * 1000000000
      in fl (fl (real_of_int sec) + fl (fl (real_of_int nsec) / 1000000000)))"

text \<open>An \<open>int64\<close> result of arithmetic that may overflow.\<close>

definition wrap64 :: "int \<Rightarrow> int" where
  "wrap64 i = sint (word_of_int i :: int64)"

text \<open>A Go string is a byte sequence; \<open>[]byte(s)\<close> and \<open>string(b)\<close> are mutually inverse.\<close>

definition str_bytes :: "string \<Rightarrow> bytes" where
  "str_bytes s = map (\<lambda>c. word_of_nat (of_char c)) s"

definition bytes_str :: "bytes \<Rightarrow> string" where
  "bytes_str bs = map (\<lambda>b. char_of (unat b)) bs"

lemma length_str_bytes [simp]: "length (str_bytes s) = length s"
  by (simp add: str_bytes_def)

lemma length_bytes_str [simp]: "length (bytes_str bs) = length bs"
  by (simp add: bytes_str_def)

lemma unat_byte_less: "unat (b :: byte) < 256"
  using unsigned_less [of b] by simp

lemma byte_char_inverse: "char_of (unat (word_of_nat (of_char c) :: byte)) = c"
proof -
  have "of_char c < (256 :: nat)" by (simp add: of_char_def split: char.split)
  then have "unat (word_of_nat (of_char c) :: byte) = of_char c"
    by (simp add: unat_of_nat)
  then show ?thesis by simp
qed

lemma char_byte_inverse: "(word_of_nat (of_char (char_of (unat b))) :: byte) = b"
  using unat_byte_less [of b] by simp

lemma bytes_str_str_bytes [simp]: "bytes_str (str_bytes s) = s"
  by (simp add: bytes_str_def str_bytes_def byte_char_inverse comp_def)

lemma str_bytes_bytes_str [simp]: "str_bytes (bytes_str bs) = bs"
  unfolding bytes_str_def str_bytes_def map_map comp_def char_byte_inverse by simp

lemma str_bytes_eq_iff [simp]: "str_bytes s = str_bytes t \<longleftrightarrow> s = t"
  by (metis bytes_str_str_bytes)

lemma bytes_str_eq_iff [simp]: "bytes_str s = bytes_str t \<longleftrightarrow> s = t"
  by (metis str_bytes_bytes_str)

lemma str_bytes_Nil [simp]: "str_bytes [] = []" and bytes_str_Nil [simp]: "bytes_str [] = []"
  by (simp_all add: str_bytes_def bytes_str_def)

lemma str_bytes_empty_iff [simp]: "str_bytes s = [] \<longleftrightarrow> s = []"
  by (simp add: str_bytes_def)

section \<open>Fixed-width integers on the wire\<close>

text \<open>
  \<open>binary.BigEndian.PutUint\<close> and \<open>Uint\<close> at any width: the low \<open>n\<close> bytes of a number, most
  significant first, and the number a byte string denotes. \<open>LittleEndian\<close> is the reverse.
\<close>

fun be_bytes :: "nat \<Rightarrow> nat \<Rightarrow> bytes" where
  "be_bytes 0 v = []"
| "be_bytes (Suc n) v = be_bytes n (v div 256) @ [word_of_nat v]"

definition be_val :: "bytes \<Rightarrow> nat" where
  "be_val bs = foldl (\<lambda>a b. a * 256 + unat b) 0 bs"

definition le_bytes :: "nat \<Rightarrow> nat \<Rightarrow> bytes" where
  "le_bytes n v = rev (be_bytes n v)"

lemma length_be_bytes [simp]: "length (be_bytes n v) = n"
  by (induction n arbitrary: v) auto

lemma length_le_bytes [simp]: "length (le_bytes n v) = n"
  by (simp add: le_bytes_def)

lemma be_val_snoc [simp]: "be_val (bs @ [b]) = be_val bs * 256 + unat b"
  by (simp add: be_val_def)

lemma be_val_Nil [simp]: "be_val [] = 0"
  by (simp add: be_val_def)

lemma be_val_Cons: "be_val (b # bs) = unat b * 256 ^ length bs + be_val bs"
proof (induction bs rule: rev_induct)
  case (snoc c bs)
  have "be_val ((b # bs) @ [c]) = be_val (b # bs) * 256 + unat c" by (rule be_val_snoc)
  with snoc show ?case by (simp add: algebra_simps)
qed (simp add: be_val_def)

lemma be_val_be_bytes: "be_val (be_bytes n v) = v mod 256 ^ n"
proof (induction n arbitrary: v)
  case (Suc n)
  have "v mod 256 ^ Suc n = v mod 256 + 256 * (v div 256 mod 256 ^ n)"
    by (simp add: mod_mult2_eq)
  with Suc show ?case by (simp add: unat_of_nat)
qed simp

lemma be_val_less: "be_val bs < 256 ^ length bs"
proof (induction bs rule: rev_induct)
  case (snoc b bs)
  have "be_val bs * 256 + unat b < (be_val bs + 1) * 256"
    using unat_byte_less [of b] by simp
  also have "\<dots> \<le> 256 ^ length bs * 256"
    using snoc by (intro mult_le_mono1) simp
  finally show ?case by (simp add: mult.commute)
qed simp

lemma be_bytes_be_val: "length bs = n \<Longrightarrow> be_bytes n (be_val bs) = bs"
proof (induction n arbitrary: bs)
  case (Suc n)
  then obtain cs b where bs: "bs = cs @ [b]" and len: "length cs = n"
    by (metis length_Suc_conv_rev)
  have b: "(be_val cs * 256 + unat b) div 256 = be_val cs"
    using unat_byte_less [of b] by simp
  have z: "(256 :: byte) = 0" by (rule word_uint_eqI) simp
  from Suc.IH [OF len] show ?case by (simp add: bs b z)
qed simp

lemma be_bytes_inj: "be_bytes n v = be_bytes n w \<Longrightarrow> v < 256 ^ n \<Longrightarrow> w < 256 ^ n \<Longrightarrow> v = w"
  by (metis be_val_be_bytes mod_less)

definition put_u16 :: "u16 \<Rightarrow> bytes" where "put_u16 w = be_bytes 2 (unat w)"
definition put_u32 :: "u32 \<Rightarrow> bytes" where "put_u32 w = be_bytes 4 (unat w)"
definition put_u64 :: "u64 \<Rightarrow> bytes" where "put_u64 w = be_bytes 8 (unat w)"

definition get_u16 :: "bytes \<Rightarrow> u16" where "get_u16 bs = word_of_nat (be_val bs)"
definition get_u32 :: "bytes \<Rightarrow> u32" where "get_u32 bs = word_of_nat (be_val bs)"
definition get_u64 :: "bytes \<Rightarrow> u64" where "get_u64 bs = word_of_nat (be_val bs)"

lemma length_put [simp]:
  "length (put_u16 a) = 2" "length (put_u32 b) = 4" "length (put_u64 c) = 8"
  by (simp_all add: put_u16_def put_u32_def put_u64_def)

lemma get_put_u16 [simp]: "get_u16 (put_u16 w) = w"
  using unsigned_less [of w, where 'a = nat] by (simp add: get_u16_def put_u16_def be_val_be_bytes)

lemma get_put_u32 [simp]: "get_u32 (put_u32 w) = w"
  using unsigned_less [of w, where 'a = nat] by (simp add: get_u32_def put_u32_def be_val_be_bytes)

lemma get_put_u64 [simp]: "get_u64 (put_u64 w) = w"
  using unsigned_less [of w, where 'a = nat] by (simp add: get_u64_def put_u64_def be_val_be_bytes)

lemma unat_word_of_nat_16: "n < 65536 \<Longrightarrow> unat (word_of_nat n :: u16) = n"
  and unat_word_of_nat_32: "n < 4294967296 \<Longrightarrow> unat (word_of_nat n :: u32) = n"
  and unat_word_of_nat_64: "n < 18446744073709551616 \<Longrightarrow> unat (word_of_nat n :: u64) = n"
  by (simp_all add: unat_of_nat)

lemmas unat_cast = unat_word_of_nat_16 unat_word_of_nat_32 unat_word_of_nat_64

section \<open>Readers over a byte buffer\<close>

text \<open>
  A reader consumes a buffer and returns a value or an I/O error together with what is left
  of the buffer. \<open>io.ReadFull\<close> (which \<open>binary.Read\<close> uses) fails on a short buffer after
  draining it; \<open>bytes.Buffer.Read\<close> fails only on an empty buffer and otherwise returns what
  there is, so that the rest of the destination keeps its zero bytes.
\<close>

datatype io_error = EOF | UnexpectedEOF

type_synonym 'a reader = "bytes \<Rightarrow> (io_error + 'a) \<times> bytes"

definition rreturn :: "'a \<Rightarrow> 'a reader" where
  "rreturn x bs = (Inr x, bs)"

definition rbind :: "'a reader \<Rightarrow> ('a \<Rightarrow> 'b reader) \<Rightarrow> 'b reader" where
  "rbind m f bs = (case m bs of (Inl e, r) \<Rightarrow> (Inl e, r) | (Inr x, r) \<Rightarrow> f x r)"

definition read_full :: "nat \<Rightarrow> bytes reader" where
  "read_full n bs =
     (if n \<le> length bs then (Inr (take n bs), drop n bs)
      else (Inl (if bs = [] then EOF else UnexpectedEOF), []))"

definition buffer_read :: "nat \<Rightarrow> bytes reader" where
  "buffer_read n bs =
     (if bs = [] then (if n = 0 then (Inr [], []) else (Inl EOF, []))
      else (Inr (take n bs @ replicate (n - length bs) 0), drop n bs))"

definition read_u16 :: "u16 reader" where
  "read_u16 = rbind (read_full 2) (\<lambda>bs. rreturn (get_u16 bs))"

definition read_u32 :: "u32 reader" where
  "read_u32 = rbind (read_full 4) (\<lambda>bs. rreturn (get_u32 bs))"

definition read_u64 :: "u64 reader" where
  "read_u64 = rbind (read_full 8) (\<lambda>bs. rreturn (get_u64 bs))"

text \<open>A counted loop \<open>for i := 0; i < n; i++\<close> whose body reads one item and returns on error.\<close>

fun read_n :: "nat \<Rightarrow> 'a reader \<Rightarrow> 'a list reader" where
  "read_n 0 m = rreturn []"
| "read_n (Suc n) m = rbind m (\<lambda>x. rbind (read_n n m) (\<lambda>xs. rreturn (x # xs)))"

declare rbind_def [wire_simps]

lemma rreturn_apply [wire_simps]: "rreturn x bs = (Inr x, bs)"
  by (simp add: rreturn_def)

lemma read_full_append [wire_simps]: "length bs = n \<Longrightarrow> read_full n (bs @ r) = (Inr bs, r)"
  by (auto simp: read_full_def)

lemma buffer_read_append [wire_simps]: "length bs = n \<Longrightarrow> buffer_read n (bs @ r) = (Inr bs, r)"
  by (auto simp: buffer_read_def)

lemma read_u16_put [wire_simps]: "read_u16 (put_u16 w @ r) = (Inr w, r)"
  by (simp add: read_u16_def wire_simps)

lemma read_u32_put [wire_simps]: "read_u32 (put_u32 w @ r) = (Inr w, r)"
  by (simp add: read_u32_def wire_simps)

lemma read_u64_put [wire_simps]: "read_u64 (put_u64 w @ r) = (Inr w, r)"
  by (simp add: read_u64_def wire_simps)

section \<open>The contract of a wire codec\<close>

text \<open>
  Every message format of the program is a pair of an encoder and a reader such that the
  reader, run on an encoded value followed by anything, returns the value and leaves exactly
  what followed. The contract is stated once; the components interpret it on their own
  encoders, and the counted-list and prefix-freeness facts come with the interpretation.
\<close>

locale wire_codec =
  fixes enc :: "'a \<Rightarrow> bytes"
    and dec :: "'a reader"
    and ok :: "'a \<Rightarrow> bool"
  assumes dec_enc: "ok x \<Longrightarrow> dec (enc x @ r) = (Inr x, r)"
begin

lemma dec_enc_end: "ok x \<Longrightarrow> dec (enc x) = (Inr x, [])"
  using dec_enc [of x "[]"] by simp

lemma read_n_enc:
  "list_all ok xs \<Longrightarrow> n = length xs \<Longrightarrow> read_n n dec (concat (map enc xs) @ r) = (Inr xs, r)"
proof (induction xs arbitrary: n)
  case Nil
  then show ?case by (simp add: wire_simps)
next
  case (Cons x xs)
  then obtain m where n: "n = Suc m" and m: "m = length xs" by auto
  from Cons.prems have "dec (enc x @ concat (map enc xs) @ r) = (Inr x, concat (map enc xs) @ r)"
    by (simp add: dec_enc)
  moreover from Cons.IH [OF _ m] Cons.prems
  have "read_n m dec (concat (map enc xs) @ r) = (Inr xs, r)" by simp
  ultimately show ?case by (simp add: n wire_simps)
qed

lemma enc_prefix_free: "ok x \<Longrightarrow> ok y \<Longrightarrow> enc x @ r = enc y @ r' \<Longrightarrow> x = y \<and> r = r'"
  by (metis dec_enc prod.inject sum.inject(2))

end

interpretation u16_codec: wire_codec put_u16 read_u16 "\<lambda>_. True"
  by unfold_locales (simp add: wire_simps)

interpretation u32_codec: wire_codec put_u32 read_u32 "\<lambda>_. True"
  by unfold_locales (simp add: wire_simps)

interpretation u64_codec: wire_codec put_u64 read_u64 "\<lambda>_. True"
  by unfold_locales (simp add: wire_simps)

text \<open>
  A string written as a \<open>uint16\<close> length and its bytes. The cast \<open>uint16(len(s))\<close> wraps, so the
  format is a codec only for strings shorter than 65536 bytes.
\<close>

definition put_str16 :: "string \<Rightarrow> bytes" where
  "put_str16 s = put_u16 (word_of_nat (length s)) @ str_bytes s"

definition read_str16 :: "string reader" where
  "read_str16 = rbind read_u16 (\<lambda>k. rbind (buffer_read (unat k)) (\<lambda>bs. rreturn (bytes_str bs)))"

definition short16 :: "'a list \<Rightarrow> bool" where
  "short16 s \<longleftrightarrow> length s < 65536"

lemma unat_length_short16 [wire_simps]:
  "short16 s \<Longrightarrow> unat (word_of_nat (length s) :: u16) = length s"
  by (simp add: short16_def unat_cast)

lemma read_str16_put [wire_simps]: "short16 s \<Longrightarrow> read_str16 (put_str16 s @ r) = (Inr s, r)"
  by (simp add: read_str16_def put_str16_def wire_simps)

interpretation str16_codec: wire_codec put_str16 read_str16 short16
  by unfold_locales (simp add: wire_simps)

section \<open>Sequences of operations\<close>

lemma map_update_same: "f y = f (xs ! i) \<Longrightarrow> map f (xs[i := y]) = map f xs"
  by (cases "i < length xs") (simp_all add: map_update list_update_same_conv list_update_beyond)

text \<open>
  The interface of a component that is driven by a sequence of calls: one transition per call,
  an invariant every call keeps, and a property of states that no call takes away. A component
  interprets it on its own operations and gets the statements about every call sequence.
\<close>

locale operations =
  fixes step :: "'s \<Rightarrow> 'o \<Rightarrow> 's"
    and inv :: "'s \<Rightarrow> bool"
  assumes step_inv: "inv s \<Longrightarrow> inv (step s c)"
begin

lemma run_inv: "inv s \<Longrightarrow> inv (foldl step s cs)"
  by (induction cs arbitrary: s) (auto intro: step_inv)

end

locale absorbing_operations = operations step inv
  for step :: "'s \<Rightarrow> 'o \<Rightarrow> 's" and inv :: "'s \<Rightarrow> bool" +
  fixes stable :: "'s \<Rightarrow> bool"
  assumes step_stable: "inv s \<Longrightarrow> stable s \<Longrightarrow> stable (step s c)"
begin

lemma run_stable: "inv s \<Longrightarrow> stable s \<Longrightarrow> stable (foldl step s cs)"
  by (induction cs arbitrary: s) (auto intro: step_inv step_stable)

lemma stable_from: "inv s \<Longrightarrow> stable (foldl step s cs) \<Longrightarrow> stable (foldl step s (cs @ ds))"
  using run_stable [of "foldl step s cs" ds] run_inv [of s cs] by simp

end

text \<open>
  Functional refinement: every call of a component acts on the abstraction of its state as the
  specification's call does, on the states that satisfy the invariant.
\<close>

locale refinement = operations step inv
  for step :: "'s \<Rightarrow> 'o \<Rightarrow> 's" and inv :: "'s \<Rightarrow> bool" +
  fixes abs :: "'s \<Rightarrow> 'a"
    and spec :: "'a \<Rightarrow> 'o \<Rightarrow> 'a"
  assumes step_refines: "inv s \<Longrightarrow> abs (step s c) = spec (abs s) c"
begin

lemma run_refines: "inv s \<Longrightarrow> abs (foldl step s cs) = foldl spec (abs s) cs"
  by (induction cs arbitrary: s) (simp_all add: step_refines step_inv)

end

end
