(* ===== verification/State_Crdt.thy ===== *)
theory State_Crdt
  imports LW_Prelude
begin

text \<open>
  The contract of a state-based replicated data type: merging two replica states is
  idempotent, commutative and associative on the states the program can build. The locale
  derives strong eventual consistency from it once: two replicas that have merged the same
  set of states, in any order and any number of times, are equal. \<open>pkg/crdt\<close> provides two
  instances, the OR-Set and the last-writer-wins register.
\<close>

locale state_crdt =
  fixes merge :: "'s \<Rightarrow> 's \<Rightarrow> 's"
    and inv :: "'s \<Rightarrow> bool"
  assumes merge_inv: "inv a \<Longrightarrow> inv b \<Longrightarrow> inv (merge a b)"
    and merge_idem: "inv a \<Longrightarrow> merge a a = a"
    and merge_comm: "inv a \<Longrightarrow> inv b \<Longrightarrow> merge a b = merge b a"
    and merge_assoc: "inv a \<Longrightarrow> inv b \<Longrightarrow> inv c \<Longrightarrow> merge (merge a b) c = merge a (merge b c)"
begin

definition le :: "'s \<Rightarrow> 's \<Rightarrow> bool" where
  "le a b \<longleftrightarrow> merge a b = b"

definition deliver :: "'s list \<Rightarrow> 's \<Rightarrow> 's" where
  "deliver xs s = fold (\<lambda>x a. merge a x) xs s"

lemma le_antisym: "inv a \<Longrightarrow> inv b \<Longrightarrow> le a b \<Longrightarrow> le b a \<Longrightarrow> a = b"
  by (metis le_def merge_comm)

lemma le_trans: "inv a \<Longrightarrow> inv b \<Longrightarrow> inv c \<Longrightarrow> le a b \<Longrightarrow> le b c \<Longrightarrow> le a c"
  by (metis le_def merge_assoc)

lemma le_merge1: "inv a \<Longrightarrow> inv b \<Longrightarrow> le a (merge a b)"
  by (metis le_def merge_assoc merge_idem)

lemma le_merge2: "inv a \<Longrightarrow> inv b \<Longrightarrow> le b (merge a b)"
  by (metis le_merge1 merge_comm)

lemma merge_least: "inv a \<Longrightarrow> inv b \<Longrightarrow> inv u \<Longrightarrow> le a u \<Longrightarrow> le b u \<Longrightarrow> le (merge a b) u"
  by (metis le_def merge_assoc)

lemma deliver_Cons: "deliver (x # xs) s = deliver xs (merge s x)"
  by (simp add: deliver_def)

lemma deliver_Nil: "deliver [] s = s"
  by (simp add: deliver_def)

lemma deliver_inv: "inv s \<Longrightarrow> list_all inv xs \<Longrightarrow> inv (deliver xs s)"
  by (induction xs arbitrary: s) (auto simp: deliver_Cons deliver_Nil merge_inv)

lemma deliver_upper:
  "inv s \<Longrightarrow> list_all inv xs \<Longrightarrow> le s (deliver xs s) \<and> (\<forall>x\<in>set xs. le x (deliver xs s))"
proof (induction xs arbitrary: s)
  case Nil
  then show ?case by (simp add: deliver_Nil le_def merge_idem)
next
  case (Cons x xs)
  then have x: "inv x" and xs: "list_all inv xs" and m: "inv (merge s x)" by (auto intro: merge_inv)
  let ?d = "deliver xs (merge s x)"
  have d: "inv ?d" using m xs by (rule deliver_inv)
  from Cons.IH [OF m xs] have up: "le (merge s x) ?d" and rest: "\<forall>y\<in>set xs. le y ?d" by auto
  have "le s ?d" "le x ?d"
    using le_trans [OF _ m d _ up] le_merge1 le_merge2 Cons.prems(1) x by blast+
  with rest show ?case by (simp add: deliver_Cons)
qed

lemma deliver_least:
  "inv s \<Longrightarrow> list_all inv xs \<Longrightarrow> inv u \<Longrightarrow> le s u \<Longrightarrow> \<forall>x\<in>set xs. le x u \<Longrightarrow> le (deliver xs s) u"
  by (induction xs arbitrary: s) (auto simp: deliver_Cons deliver_Nil merge_inv merge_least)

theorem convergence:
  assumes "inv s" "list_all inv xs" "list_all inv ys" "set xs = set ys"
  shows "deliver xs s = deliver ys s"
proof (rule le_antisym)
  show "le (deliver xs s) (deliver ys s)"
    using assms deliver_upper [of s ys] by (intro deliver_least) (auto intro: deliver_inv)
  show "le (deliver ys s) (deliver xs s)"
    using assms deliver_upper [of s xs] by (intro deliver_least) (auto intro: deliver_inv)
qed (use assms in \<open>auto intro: deliver_inv\<close>)

lemma exchange_converges: "inv a \<Longrightarrow> inv b \<Longrightarrow> merge a b = merge b (merge a b)"
  by (metis merge_assoc merge_comm merge_idem)

lemma merge_again: "inv a \<Longrightarrow> inv b \<Longrightarrow> merge (merge a b) b = merge a b"
  by (metis merge_assoc merge_idem)

end

end
