(* ===== verification/Crdt_ORSet.thy ===== *)
theory Crdt_ORSet
  imports State_Crdt
begin

text \<open>
  The observed-remove set of \<open>pkg/crdt/crdt.go\<close>: the type \<open>ORSet\<close>, its operations, the tag
  generator and the wire format of \<open>encodeEntries\<close> and \<open>decodeEntries\<close>. A Go map used as a set
  is a set; a map of maps is a partial function. Where the code ranges over a map, the
  enumeration order Go chooses is an explicit list argument, and the theorems quantify over
  every such order (\<open>ranges\<close>).
\<close>

record orset =
  adds :: "string \<rightharpoonup> string set"
  removes :: "string set"

definition ranges :: "'k list \<Rightarrow> 'k set \<Rightarrow> bool" where
  "ranges order ks \<longleftrightarrow> distinct order \<and> set order = ks"

section \<open>Operations\<close>

definition NewORSet :: orset where
  "NewORSet = \<lparr>adds = Map.empty, removes = {}\<rparr>"

text \<open>\<open>uniqueTag\<close> hashes the wall clock and a process-wide counter; it returns the new counter.\<close>

definition uniqueTag :: "(bytes \<Rightarrow> bytes) \<Rightarrow> int \<Rightarrow> u32 \<Rightarrow> string \<times> u32" where
  "uniqueTag sha3 nanos tagCounter =
     (let c = tagCounter + 1;
          b = le_bytes 8 (unat (word_of_int nanos :: u64)) @ le_bytes 4 (unat c)
      in (bytes_str (sha3 b), c))"

definition add_tag :: "orset \<Rightarrow> string \<Rightarrow> string \<Rightarrow> orset" where
  "add_tag s elem tag =
     (let base = (case adds s elem of None \<Rightarrow> {} | Some tags \<Rightarrow> tags)
      in s\<lparr>adds := (adds s)(elem \<mapsto> insert tag base)\<rparr>)"

definition ORSet_Add :: "(bytes \<Rightarrow> bytes) \<Rightarrow> int \<Rightarrow> u32 \<Rightarrow> orset \<Rightarrow> string \<Rightarrow> orset \<times> u32" where
  "ORSet_Add sha3 nanos tagCounter s elem =
     (let (tag, c) = uniqueTag sha3 nanos tagCounter in (add_tag s elem tag, c))"

definition ORSet_Remove :: "orset \<Rightarrow> string \<Rightarrow> orset" where
  "ORSet_Remove s elem =
     (case adds s elem of None \<Rightarrow> s | Some tags \<Rightarrow> s\<lparr>removes := removes s \<union> tags\<rparr>)"

definition ORSet_Contains :: "orset \<Rightarrow> string \<Rightarrow> bool" where
  "ORSet_Contains s elem =
     (case adds s elem of None \<Rightarrow> False | Some tags \<Rightarrow> (\<exists>tag\<in>tags. tag \<notin> removes s))"

definition ORSet_Items :: "string list \<Rightarrow> orset \<Rightarrow> string list" where
  "ORSet_Items order s =
     sort (filter (\<lambda>elem. \<exists>tag\<in>the (adds s elem). tag \<notin> removes s) order)"

fun merge_adds :: "string list \<Rightarrow> orset \<Rightarrow> orset \<Rightarrow> orset" where
  "merge_adds [] other s = s"
| "merge_adds (elem # order) other s =
     (let base = (case adds s elem of None \<Rightarrow> {} | Some tags \<Rightarrow> tags)
      in merge_adds order other (s\<lparr>adds := (adds s)(elem \<mapsto> base \<union> the (adds other elem))\<rparr>))"

definition ORSet_Merge :: "string list \<Rightarrow> orset \<Rightarrow> orset \<Rightarrow> orset" where
  "ORSet_Merge order s other =
     (let s' = merge_adds order other s in s'\<lparr>removes := removes s' \<union> removes other\<rparr>)"

section \<open>Wire format\<close>

definition encodeEntry :: "string \<times> string list \<Rightarrow> bytes" where
  "encodeEntry e = put_str16 (fst e) @ put_u16 (word_of_nat (length (snd e)))
     @ concat (map put_str16 (snd e))"

definition encodeEntries :: "(string \<times> string list) list \<Rightarrow> string list \<Rightarrow> bytes" where
  "encodeEntries entries removed =
     put_u32 (word_of_nat (length entries)) @ concat (map encodeEntry entries)
     @ put_u32 (word_of_nat (length removed)) @ concat (map put_str16 removed)"

definition decodeEntry :: "(string \<times> string list) reader" where
  "decodeEntry = rbind read_str16 (\<lambda>elem. rbind read_u16 (\<lambda>tCount.
     rbind (read_n (unat tCount) read_str16) (\<lambda>tags. rreturn (elem, tags))))"

definition decodeEntries :: "((string \<times> string list) list \<times> string set) reader" where
  "decodeEntries = rbind read_u32 (\<lambda>elemCount. rbind (read_n (unat elemCount) decodeEntry) (\<lambda>entries.
     rbind read_u32 (\<lambda>rmCount. rbind (read_n (unat rmCount) read_str16) (\<lambda>rs.
       rreturn (entries, set rs)))))"

text \<open>
  \<open>Marshal\<close> ranges over \<open>adds\<close>, over each tag set and over \<open>removes\<close>: \<open>order\<close>, \<open>tagOrder\<close> and
  \<open>rmOrder\<close> are those enumerations.
\<close>

definition ORSet_Marshal :: "string list \<Rightarrow> (string \<Rightarrow> string list) \<Rightarrow> string list \<Rightarrow> orset \<Rightarrow> bytes" where
  "ORSet_Marshal order tagOrder rmOrder s =
     encodeEntries (map (\<lambda>elem. (elem, tagOrder elem)) order) rmOrder"

definition install_entries :: "(string \<times> string list) list \<Rightarrow> (string \<rightharpoonup> string set)" where
  "install_entries entries = fold (\<lambda>e m. m(fst e \<mapsto> set (snd e))) entries Map.empty"

definition ORSet_Unmarshal :: "bytes \<Rightarrow> orset \<Rightarrow> io_error + orset" where
  "ORSet_Unmarshal data s =
     (case decodeEntries data of
        (Inl err, _) \<Rightarrow> Inl err
      | (Inr (entries, rs), _) \<Rightarrow> Inr (s\<lparr>adds := install_entries entries, removes := rs\<rparr>))"

section \<open>Specification: the join of two states\<close>

text \<open>
  What a merge promises: the pointwise union of the tag sets and of the tombstones. It does
  not mention the iteration order.
\<close>

definition join_tags :: "string set option \<Rightarrow> string set option \<Rightarrow> string set option" where
  "join_tags a b = (case (a, b) of (None, x) \<Rightarrow> x | (x, None) \<Rightarrow> x | (Some p, Some q) \<Rightarrow> Some (p \<union> q))"

definition orset_join :: "orset \<Rightarrow> orset \<Rightarrow> orset" where
  "orset_join s t = s\<lparr>adds := (\<lambda>e. join_tags (adds s e) (adds t e)), removes := removes s \<union> removes t\<rparr>"

definition tags_of :: "orset \<Rightarrow> string \<Rightarrow> string set" where
  "tags_of s e = (case adds s e of None \<Rightarrow> {} | Some p \<Rightarrow> p)"

definition all_tags :: "orset \<Rightarrow> string set" where
  "all_tags s = (\<Union>e. tags_of s e)"

text \<open>
  The invariant of every state the operations build: finite maps, no tag recorded for two
  elements, tombstones only for tags that were added. \<open>tags_agree\<close> says that two replicas
  never attached one tag to different elements.
\<close>

definition orset_wf :: "orset \<Rightarrow> bool" where
  "orset_wf s \<longleftrightarrow> finite (dom (adds s)) \<and> finite (all_tags s) \<and> removes s \<subseteq> all_tags s
     \<and> (\<forall>e e'. e \<noteq> e' \<longrightarrow> tags_of s e \<inter> tags_of s e' = {})"

definition tags_agree :: "orset \<Rightarrow> orset \<Rightarrow> bool" where
  "tags_agree s t \<longleftrightarrow> (\<forall>e e'. e \<noteq> e' \<longrightarrow> tags_of s e \<inter> tags_of t e' = {})"

lemma Contains_iff: "ORSet_Contains s e \<longleftrightarrow> \<not> tags_of s e \<subseteq> removes s"
  by (auto simp: ORSet_Contains_def tags_of_def split: option.splits)

lemma add_tag_adds: "adds (add_tag s e t) = (adds s)(e \<mapsto> insert t (tags_of s e))"
  by (simp add: add_tag_def tags_of_def Let_def)

lemma tags_of_add_tag [simp]:
  "tags_of (add_tag s e t) e' = (if e' = e then insert t (tags_of s e) else tags_of s e')"
  by (simp add: tags_of_def [of "add_tag s e t"] add_tag_adds) (simp add: tags_of_def)

lemma removes_add_tag [simp]: "removes (add_tag s e t) = removes s"
  by (simp add: add_tag_def Let_def)

lemma adds_Remove [simp]: "adds (ORSet_Remove s e) = adds s"
  by (simp add: ORSet_Remove_def split: option.splits)

lemma tags_of_Remove [simp]: "tags_of (ORSet_Remove s e) = tags_of s"
  by (simp add: tags_of_def fun_eq_iff)

lemma removes_Remove [simp]: "removes (ORSet_Remove s e) = removes s \<union> tags_of s e"
  by (simp add: ORSet_Remove_def tags_of_def split: option.splits)

lemma removes_join [simp]: "removes (orset_join s t) = removes s \<union> removes t"
  by (simp add: orset_join_def)

lemma tags_of_join [simp]: "tags_of (orset_join s t) e = tags_of s e \<union> tags_of t e"
  by (simp add: orset_join_def tags_of_def join_tags_def split: option.splits)

lemma dom_join: "dom (adds (orset_join s t)) = dom (adds s) \<union> dom (adds t)"
  by (auto simp: orset_join_def join_tags_def dom_def split: option.splits)

lemma all_tags_add_tag [simp]: "all_tags (add_tag s e t) = insert t (all_tags s)"
  by (auto simp: all_tags_def split: if_splits)

lemma all_tags_Remove [simp]: "all_tags (ORSet_Remove s e) = all_tags s"
  by (simp add: all_tags_def)

lemma all_tags_join [simp]: "all_tags (orset_join s t) = all_tags s \<union> all_tags t"
  by (auto simp: all_tags_def)

lemma tags_of_all: "x \<in> tags_of s e \<Longrightarrow> x \<in> all_tags s"
  by (auto simp: all_tags_def)

lemma NewORSet_tags [simp]: "tags_of NewORSet e = {}" "all_tags NewORSet = {}"
  by (simp_all add: NewORSet_def all_tags_def tags_of_def)

lemma wf_NewORSet: "orset_wf NewORSet"
  by (simp add: orset_wf_def) (simp add: NewORSet_def)

lemma Add_add_tag:
  "fst (ORSet_Add sha3 nanos c s elem) = add_tag s elem (fst (uniqueTag sha3 nanos c))"
  by (simp add: ORSet_Add_def split: prod.splits)

lemma wf_add_tag: "orset_wf s \<Longrightarrow> t \<notin> all_tags s \<Longrightarrow> orset_wf (add_tag s e t)"
  by (auto simp: orset_wf_def add_tag_adds dest: tags_of_all)

lemma wf_Remove: "orset_wf s \<Longrightarrow> orset_wf (ORSet_Remove s e)"
  by (auto simp: orset_wf_def dest: tags_of_all)

lemma wf_join:
  assumes "orset_wf s" "orset_wf t" "tags_agree s t"
  shows "orset_wf (orset_join s t)"
proof -
  have "tags_of (orset_join s t) e \<inter> tags_of (orset_join s t) e' = {}" if "e \<noteq> e'" for e e'
  proof -
    from that assms have "tags_of s e \<inter> tags_of s e' = {}" "tags_of t e \<inter> tags_of t e' = {}"
      "tags_of s e \<inter> tags_of t e' = {}" "tags_of s e' \<inter> tags_of t e = {}"
      by (simp_all add: orset_wf_def tags_agree_def)
    then show ?thesis by auto
  qed
  with assms show ?thesis unfolding orset_wf_def dom_join by auto
qed

section \<open>The merge loop computes the join\<close>

lemma merge_adds_spec:
  "distinct order \<Longrightarrow> set order \<subseteq> dom (adds other) \<Longrightarrow>
   merge_adds order other s =
     s\<lparr>adds := (\<lambda>e. if e \<in> set order then join_tags (adds s e) (adds other e) else adds s e)\<rparr>"
proof (induction order arbitrary: s)
  case Nil
  then show ?case by simp
next
  case (Cons x order)
  then obtain p where p: "adds other x = Some p" by auto
  let ?s = "s\<lparr>adds := (adds s)(x \<mapsto> (case adds s x of None \<Rightarrow> {} | Some t \<Rightarrow> t) \<union> p)\<rparr>"
  have "merge_adds order other ?s =
      ?s\<lparr>adds := (\<lambda>e. if e \<in> set order then join_tags (adds ?s e) (adds other e) else adds ?s e)\<rparr>"
    using Cons by simp
  then show ?case
    using Cons.prems by (auto simp: p join_tags_def fun_eq_iff split: option.splits)
qed

lemma ORSet_Merge_join:
  "ranges order (dom (adds other)) \<Longrightarrow> ORSet_Merge order s other = orset_join s other"
  by (auto simp: ORSet_Merge_def Let_def ranges_def merge_adds_spec orset_join_def fun_eq_iff
      join_tags_def dom_def split: option.splits)

lemma join_tags_laws:
  "join_tags a a = a"
  "join_tags a b = join_tags b a"
  "join_tags (join_tags a b) c = join_tags a (join_tags b c)"
  by (auto simp: join_tags_def split: option.splits)

interpretation orset_crdt: state_crdt orset_join "\<lambda>_. True"
proof unfold_locales
  fix a b c :: orset
  show "orset_join a a = a"
    by (cases a) (simp add: orset_join_def join_tags_laws(1))
  show "orset_join a b = orset_join b a"
    by (cases a, cases b) (simp add: orset_join_def join_tags_laws(2) Un_commute)
  show "orset_join (orset_join a b) c = orset_join a (orset_join b c)"
    by (simp add: orset_join_def join_tags_laws(3) Un_assoc)
qed simp

text \<open>A replica that merges a sequence of received states, each in the order Go ranges over it.\<close>

definition merge_all :: "(string list \<times> orset) list \<Rightarrow> orset \<Rightarrow> orset" where
  "merge_all ms s = fold (\<lambda>m a. ORSet_Merge (fst m) a (snd m)) ms s"

definition deliverable :: "string list \<times> orset \<Rightarrow> bool" where
  "deliverable m \<longleftrightarrow> ranges (fst m) (dom (adds (snd m)))"

lemma merge_all_deliver:
  "list_all deliverable ms \<Longrightarrow> merge_all ms s = orset_crdt.deliver (map snd ms) s"
  by (induction ms arbitrary: s)
    (auto simp: merge_all_def deliverable_def ORSet_Merge_join orset_crdt.deliver_Cons
      orset_crdt.deliver_Nil)

section \<open>Properties\<close>

text \<open>
  C23: strong eventual consistency of the OR-Set. Two replicas that start equal and merge the
  same set of states, in any order, any number of times, and whatever order Go ranges over the
  maps, end in the same state.
\<close>

theorem orset_convergence:
  assumes "list_all deliverable xs" "list_all deliverable ys"
    and "snd ` set xs = snd ` set ys"
  shows "merge_all xs s = merge_all ys s"
proof -
  have "orset_crdt.deliver (map snd xs) s = orset_crdt.deliver (map snd ys) s"
    using assms(3) by (intro orset_crdt.convergence) (simp_all add: list_all_iff)
  with assms(1,2) show ?thesis by (simp add: merge_all_deliver)
qed

theorem orset_convergence_witness:
  "merge_all [([''a''], add_tag NewORSet ''a'' ''t1''), ([''b''], add_tag NewORSet ''b'' ''t2'')] NewORSet =
   merge_all [([''b''], add_tag NewORSet ''b'' ''t2''), ([''a''], add_tag NewORSet ''a'' ''t1''),
     ([''b''], add_tag NewORSet ''b'' ''t2'')] NewORSet"
  by (rule orset_convergence)
    (auto simp: deliverable_def ranges_def add_tag_adds NewORSet_def)

text \<open>
  Add wins. The element just added is still contained after merging any concurrent state,
  whatever that state removed, provided the generated tag is new to both replicas.
\<close>

theorem orset_add_wins:
  assumes "orset_wf s" "orset_wf other" "ranges order (dom (adds other))"
    and "fst (uniqueTag sha3 nanos c) \<notin> all_tags s" "fst (uniqueTag sha3 nanos c) \<notin> all_tags other"
  shows "ORSet_Contains (ORSet_Merge order (fst (ORSet_Add sha3 nanos c s elem)) other) elem"
proof -
  have "fst (uniqueTag sha3 nanos c) \<notin> removes s \<union> removes other"
    using assms by (auto simp: orset_wf_def)
  with assms(3) show ?thesis
    by (auto simp: ORSet_Merge_join Contains_iff Add_add_tag)
qed

lemma uniqueTag_id_length: "length (fst (uniqueTag id n c)) = 12"
  by (simp add: uniqueTag_def Let_def)

theorem orset_add_wins_witness:
  "ORSet_Contains (ORSet_Merge [''x'']
      (fst (ORSet_Add id 7 0 (add_tag NewORSet ''x'' ''old'') ''x''))
      (ORSet_Remove (add_tag NewORSet ''x'' ''old'') ''x'')) ''x''"
proof (rule orset_add_wins)
  show "orset_wf (add_tag NewORSet ''x'' ''old'')"
    by (rule wf_add_tag [OF wf_NewORSet]) simp
  then show "orset_wf (ORSet_Remove (add_tag NewORSet ''x'' ''old'') ''x'')" by (rule wf_Remove)
  show "fst (uniqueTag id 7 0) \<notin> all_tags (add_tag NewORSet ''x'' ''old'')"
    "fst (uniqueTag id 7 0) \<notin> all_tags (ORSet_Remove (add_tag NewORSet ''x'' ''old'') ''x'')"
    using uniqueTag_id_length [of 7 0] by auto
qed (simp add: ranges_def add_tag_adds NewORSet_def)

text \<open>
  Membership after a local operation. Adding (with a new tag) adds exactly the element and
  removing removes exactly the element: no other element appears or disappears.
\<close>

theorem orset_ops_exact:
  assumes "orset_wf s" and "fst (uniqueTag sha3 nanos c) \<notin> all_tags s"
  shows "(ORSet_Contains (fst (ORSet_Add sha3 nanos c s elem)) e \<longleftrightarrow> e = elem \<or> ORSet_Contains s e)
    \<and> (ORSet_Contains (ORSet_Remove s elem) e \<longleftrightarrow> ORSet_Contains s e \<and> e \<noteq> elem)"
proof
  have "fst (uniqueTag sha3 nanos c) \<notin> removes s" using assms by (auto simp: orset_wf_def)
  then show "ORSet_Contains (fst (ORSet_Add sha3 nanos c s elem)) e \<longleftrightarrow> e = elem \<or> ORSet_Contains s e"
    by (auto simp: Add_add_tag Contains_iff)
  have "tags_of s e \<inter> tags_of s elem = {}" if "e \<noteq> elem"
    using assms(1) that by (simp add: orset_wf_def)
  then show "ORSet_Contains (ORSet_Remove s elem) e \<longleftrightarrow> ORSet_Contains s e \<and> e \<noteq> elem"
    by (cases "e = elem") (auto simp: Contains_iff)
qed

theorem orset_ops_exact_witness:
  "ORSet_Contains (ORSet_Remove (add_tag NewORSet ''x'' ''t'') ''y'') ''x''"
proof -
  have wf: "orset_wf (add_tag NewORSet ''x'' ''t'')"
    by (rule wf_add_tag [OF wf_NewORSet]) simp
  have fresh: "fst (uniqueTag id 7 0) \<notin> all_tags (add_tag NewORSet ''x'' ''t'')"
    using uniqueTag_id_length [of 7 0] by auto
  have "ORSet_Contains (add_tag NewORSet ''x'' ''t'') ''x''"
    by (simp add: Contains_iff) (simp add: NewORSet_def)
  with orset_ops_exact [OF wf fresh, of "''y''" "''x''"] show ?thesis by simp
qed

text \<open>
  The listing. Whatever order Go ranges over the map, \<open>Items\<close> returns the contained
  elements, each once, in ascending order.
\<close>

theorem orset_items:
  assumes "ranges order (dom (adds s))"
  shows "ORSet_Items order s = sorted_list_of_set {e. ORSet_Contains s e}"
proof -
  let ?live = "\<lambda>e. \<exists>tag\<in>the (adds s e). tag \<notin> removes s"
  have live: "set (filter ?live order) = {e. ORSet_Contains s e}"
    using assms by (auto simp: ranges_def ORSet_Contains_def dom_def split: option.splits)
  have "ORSet_Items order s = sort (remdups (filter ?live order))"
    using assms by (simp add: ORSet_Items_def ranges_def distinct_remdups_id)
  also have "\<dots> = sorted_list_of_set (set (filter ?live order))"
    by (rule sorted_list_of_set_sort_remdups [symmetric])
  finally show ?thesis by (simp only: live)
qed

theorem orset_items_witness:
  "ORSet_Items [''b'', ''a''] (ORSet_Remove (add_tag (add_tag NewORSet ''a'' ''t1'') ''b'' ''t2'') ''a'')
     = sorted_list_of_set {e. ORSet_Contains
         (ORSet_Remove (add_tag (add_tag NewORSet ''a'' ''t1'') ''b'' ''t2'') ''a'') e}"
  by (rule orset_items) (auto simp: ranges_def add_tag_adds NewORSet_def)

text \<open>
  The wire format is a codec for entries whose lengths fit the \<open>uint16\<close> fields.
\<close>

definition entry_ok :: "string \<times> string list \<Rightarrow> bool" where
  "entry_ok e \<longleftrightarrow> short16 (fst e) \<and> short16 (snd e) \<and> list_all short16 (snd e)"

interpretation entry_codec: wire_codec encodeEntry decodeEntry entry_ok
  by unfold_locales
    (auto simp: encodeEntry_def decodeEntry_def entry_ok_def wire_simps str16_codec.read_n_enc)

lemma decodeEntries_encodeEntries:
  assumes "list_all entry_ok es" "list_all short16 rs" "length es < 2 ^ 32" "length rs < 2 ^ 32"
  shows "decodeEntries (encodeEntries es rs) = (Inr (es, set rs), [])"
  using assms str16_codec.read_n_enc [of rs _ "[]"]
  by (simp add: decodeEntries_def encodeEntries_def wire_simps entry_codec.read_n_enc unat_cast)

lemma install_entries_map:
  "distinct order \<Longrightarrow> install_entries (map (\<lambda>e. (e, f e)) order) =
     (\<lambda>e. if e \<in> set order then Some (set (f e)) else None)"
proof (induction order rule: rev_induct)
  case Nil
  then show ?case by (simp add: install_entries_def fun_eq_iff)
next
  case (snoc x order)
  then show ?case by (auto simp: install_entries_def fun_eq_iff)
qed

text \<open>
  The OR-Set survives the wire. Unmarshalling what \<open>Marshal\<close> wrote, in whatever order it
  ranged over the maps, restores the state exactly, when every length and count fits its field
  on the wire (elements and tags below 64 KiB, at most 65535 tags per element).
\<close>

theorem orset_roundtrip:
  assumes "ranges order (dom (adds s))" "\<forall>e\<in>set order. ranges (tagOrder e) (tags_of s e)"
    and "ranges rmOrder (removes s)"
    and "\<forall>e\<in>set order. entry_ok (e, tagOrder e)" "\<forall>t\<in>set rmOrder. short16 t"
    and "length order < 2 ^ 32" "length rmOrder < 2 ^ 32"
  shows "ORSet_Unmarshal (ORSet_Marshal order tagOrder rmOrder s) s0 = Inr s"
proof -
  let ?es = "map (\<lambda>e. (e, tagOrder e)) order"
  have "decodeEntries (ORSet_Marshal order tagOrder rmOrder s) = (Inr (?es, set rmOrder), [])"
    unfolding ORSet_Marshal_def using assms
    by (intro decodeEntries_encodeEntries) (auto simp: list_all_iff)
  moreover have "install_entries ?es = adds s"
    using assms(1,2) by (auto simp: install_entries_map ranges_def tags_of_def fun_eq_iff
        split: option.splits)
  ultimately show ?thesis
    using assms(3) by (simp add: ORSet_Unmarshal_def ranges_def)
qed

theorem orset_roundtrip_witness:
  "ORSet_Unmarshal (ORSet_Marshal [''a''] (\<lambda>_. [''t'']) [''t''] (ORSet_Remove (add_tag NewORSet ''a'' ''t'') ''a''))
     NewORSet = Inr (ORSet_Remove (add_tag NewORSet ''a'' ''t'') ''a'')"
  by (rule orset_roundtrip)
    (simp_all add: ranges_def add_tag_adds entry_ok_def short16_def, simp_all add: NewORSet_def)

text \<open>
  Tags are not unique across replicas. The tag depends only on the clock reading and on a
  counter private to the process, so two replicas whose clock and counter agree generate one
  tag for different elements. Removing the element at one replica then erases the other
  replica's element on merge, although nobody removed it: add does not win.
\<close>

theorem orset_tag_collision:
  fixes sha3 :: "bytes \<Rightarrow> bytes" and nanos :: int and c :: u32
  defines "A \<equiv> ORSet_Remove (fst (ORSet_Add sha3 nanos c NewORSet ''x'')) ''x''"
    and "B \<equiv> fst (ORSet_Add sha3 nanos c NewORSet ''y'')"
  shows "ORSet_Contains B ''y'' \<and> \<not> ORSet_Contains (ORSet_Merge [''x''] B A) ''y''"
proof -
  have "ranges [''x''] (dom (adds A))"
    by (simp add: A_def Add_add_tag ranges_def add_tag_adds) (simp add: NewORSet_def)
  then show ?thesis
    by (simp add: ORSet_Merge_join Contains_iff A_def B_def Add_add_tag) (simp add: NewORSet_def)
qed

text \<open>
  Within one process the generated tags are distinct: a hash without collisions on the
  12-byte inputs gives different tags to different clock readings or counter values.
\<close>

theorem uniqueTag_distinct:
  assumes "inj_on sha3 {bs. length bs = 12}"
    and "(word_of_int n1 :: u64, c1) \<noteq> (word_of_int n2, c2)"
  shows "fst (uniqueTag sha3 n1 c1) \<noteq> fst (uniqueTag sha3 n2 c2)"
proof
  assume eq: "fst (uniqueTag sha3 n1 c1) = fst (uniqueTag sha3 n2 c2)"
  let ?b = "\<lambda>n c. le_bytes 8 (unat (word_of_int n :: u64)) @ le_bytes 4 (unat (c + 1 :: u32))"
  from eq have "sha3 (?b n1 c1) = sha3 (?b n2 c2)" by (simp add: uniqueTag_def Let_def)
  then have "?b n1 c1 = ?b n2 c2" by (rule inj_onD [OF assms(1)]) simp_all
  then have "put_u64 (word_of_int n1) = put_u64 (word_of_int n2)" "put_u32 (c1 + 1) = put_u32 (c2 + 1)"
    by (simp_all add: le_bytes_def put_u64_def put_u32_def)
  then have "(word_of_int n1 :: u64) = word_of_int n2" "c1 + 1 = c2 + 1"
    by (metis get_put_u64, metis get_put_u32)
  with assms(2) show False by simp
qed

theorem uniqueTag_distinct_witness: "fst (uniqueTag id 5 0) \<noteq> fst (uniqueTag id 5 1)"
  by (rule uniqueTag_distinct) (simp_all add: inj_on_def)

end
