(* ===== verification/Crdt_LWW.thy ===== *)
theory Crdt_LWW
  imports State_Crdt "HOL-Library.Product_Lexorder"
begin

text \<open>
  The last-writer-wins register of \<open>pkg/crdt/crdt.go\<close>: \<open>LWWRegister\<close> with \<open>Set\<close>, \<open>Get\<close>, \<open>Merge\<close>,
  \<open>Marshal\<close> and \<open>Unmarshal\<close>. The wall clock of \<open>Set\<close> is an argument.
\<close>

record lww_register =
  lwwValue :: bytes
  lwwTimestamp :: int64
  lwwAuthor :: string

datatype lww_error = DataTooShort

definition NewLWWRegister :: "string \<Rightarrow> lww_register" where
  "NewLWWRegister author = \<lparr>lwwValue = [], lwwTimestamp = 0, lwwAuthor = author\<rparr>"

definition LWWRegister_Set :: "int \<Rightarrow> lww_register \<Rightarrow> bytes \<Rightarrow> lww_register" where
  "LWWRegister_Set nanos r value = r\<lparr>lwwValue := value, lwwTimestamp := word_of_int nanos\<rparr>"

definition LWWRegister_Get :: "lww_register \<Rightarrow> bytes \<times> int64 \<times> string" where
  "LWWRegister_Get r = (lwwValue r, lwwTimestamp r, lwwAuthor r)"

definition LWWRegister_Merge :: "lww_register \<Rightarrow> lww_register \<Rightarrow> lww_register" where
  "LWWRegister_Merge r other =
     (if sint (lwwTimestamp other) > sint (lwwTimestamp r)
         \<or> (lwwTimestamp other = lwwTimestamp r \<and> lwwAuthor other > lwwAuthor r)
      then r\<lparr>lwwValue := lwwValue other, lwwTimestamp := lwwTimestamp other,
             lwwAuthor := lwwAuthor other\<rparr>
      else r)"

definition LWWRegister_Marshal :: "lww_register \<Rightarrow> bytes" where
  "LWWRegister_Marshal r =
     put_u64 (lwwTimestamp r) @ put_u32 (word_of_nat (length (lwwValue r))) @ lwwValue r"

text \<open>\<open>Unmarshal\<close> writes the timestamp before it has checked the value's length.\<close>

definition LWWRegister_Unmarshal :: "lww_register \<Rightarrow> bytes \<Rightarrow> lww_error option \<times> lww_register" where
  "LWWRegister_Unmarshal r data =
     (if length data < 12 then (Some DataTooShort, r)
      else let r' = r\<lparr>lwwTimestamp := get_u64 (take 8 data)\<rparr>;
               vLen = unat (get_u32 (take 4 (drop 8 data)))
           in if length data < 12 + vLen then (Some DataTooShort, r')
              else (None, r'\<lparr>lwwValue := take vLen (drop 12 data)\<rparr>))"

section \<open>Merging keeps the write with the greatest stamp\<close>

definition stamp :: "lww_register \<Rightarrow> int \<times> string" where
  "stamp r = (sint (lwwTimestamp r), lwwAuthor r)"

text \<open>
  The registers in circulation agree on the history: a stamp identifies the value written
  with it. \<open>W\<close> is the value every stamp was used for.
\<close>

definition written :: "(int \<times> string \<Rightarrow> bytes) \<Rightarrow> lww_register \<Rightarrow> bool" where
  "written W r \<longleftrightarrow> lwwValue r = W (stamp r)"

lemma Merge_stamp: "LWWRegister_Merge r other = (if stamp r < stamp other then other else r)"
  by (cases r, cases other) (auto simp: LWWRegister_Merge_def stamp_def dest: signed_word_eqI)

lemma stamp_eqD: "written W a \<Longrightarrow> written W b \<Longrightarrow> stamp a = stamp b \<Longrightarrow> a = b"
  by (cases a, cases b) (auto simp: written_def stamp_def dest: signed_word_eqI)

interpretation lww_crdt: state_crdt LWWRegister_Merge "written W" for W
proof unfold_locales
  fix a b c
  assume a: "written W a" and b: "written W b"
  show "written W (LWWRegister_Merge a b)" using a b by (simp add: Merge_stamp)
  show "LWWRegister_Merge a b = LWWRegister_Merge b a"
    using stamp_eqD [OF a b] by (auto simp: Merge_stamp)
  assume c: "written W c"
  show "LWWRegister_Merge (LWWRegister_Merge a b) c = LWWRegister_Merge a (LWWRegister_Merge b c)"
    by (auto simp: Merge_stamp)
qed (simp add: Merge_stamp)

definition merge_writes :: "lww_register list \<Rightarrow> lww_register \<Rightarrow> lww_register" where
  "merge_writes rs r = fold (\<lambda>x a. LWWRegister_Merge a x) rs r"

lemma merge_writes_deliver: "merge_writes rs r = lww_crdt.deliver rs r"
  by (simp add: merge_writes_def lww_crdt.deliver_def)

section \<open>Properties\<close>

text \<open>
  Replicas of the register converge. Merging the same registers in any order and any
  number of times gives the same register, when no author stamped two different values alike.
\<close>

theorem lww_convergence:
  assumes "written W r" "list_all (written W) xs" "list_all (written W) ys" "set xs = set ys"
  shows "merge_writes xs r = merge_writes ys r"
  unfolding merge_writes_deliver using assms by (rule lww_crdt.convergence)

theorem lww_convergence_witness:
  "merge_writes [LWWRegister_Set 5 (NewLWWRegister ''a'') [1], LWWRegister_Set 9 (NewLWWRegister ''b'') [2]]
     (NewLWWRegister ''c'')
   = merge_writes [LWWRegister_Set 9 (NewLWWRegister ''b'') [2], LWWRegister_Set 5 (NewLWWRegister ''a'') [1]]
     (NewLWWRegister ''c'')"
  by (rule lww_convergence [where W = "(\<lambda>_. [])((5, ''a'') := [1], (9, ''b'') := [2])"])
    (auto simp: written_def stamp_def LWWRegister_Set_def NewLWWRegister_def)

text \<open>
  The last writer wins. After any sequence of merges the register is one of those merged
  (or the original), and no merged register has a later stamp.
\<close>

theorem lww_last_writer_wins:
  "merge_writes rs r \<in> insert r (set rs) \<and> (\<forall>x \<in> insert r (set rs). stamp x \<le> stamp (merge_writes rs r))"
proof (induction rs arbitrary: r)
  case Nil
  then show ?case by (simp add: merge_writes_def)
next
  case (Cons x rs)
  let ?m = "LWWRegister_Merge r x"
  have m: "?m \<in> {r, x}" "stamp r \<le> stamp ?m" "stamp x \<le> stamp ?m"
    by (auto simp: Merge_stamp)
  have "merge_writes (x # rs) r = merge_writes rs ?m" by (simp add: merge_writes_def)
  with Cons [of ?m] m show ?case by auto
qed

theorem lww_last_writer_wins_witness:
  "\<forall>x \<in> {NewLWWRegister ''c'', LWWRegister_Set 5 (NewLWWRegister ''a'') [1]}.
     stamp x \<le> stamp (merge_writes [LWWRegister_Set 5 (NewLWWRegister ''a'') [1]] (NewLWWRegister ''c''))"
  using lww_last_writer_wins [of "[LWWRegister_Set 5 (NewLWWRegister ''a'') [1]]" "NewLWWRegister ''c''"]
  by simp

text \<open>
  The wire format drops the author. Unmarshalling a marshalled register restores value and
  timestamp but keeps the receiver's author, so the tie-break of a later merge uses it.
\<close>

theorem lww_roundtrip_keeps_receiver_author:
  assumes "length (lwwValue r) < 2 ^ 32"
  shows "LWWRegister_Unmarshal r0 (LWWRegister_Marshal r) = (None, r\<lparr>lwwAuthor := lwwAuthor r0\<rparr>)"
proof -
  let ?d = "LWWRegister_Marshal r"
  have "take 8 ?d = put_u64 (lwwTimestamp r)" "drop 12 ?d = lwwValue r"
    "take 4 (drop 8 ?d) = put_u32 (word_of_nat (length (lwwValue r)))"
    "length ?d = 12 + length (lwwValue r)"
    by (simp_all add: LWWRegister_Marshal_def)
  then show ?thesis
    using assms by (cases r, cases r0) (simp add: LWWRegister_Unmarshal_def Let_def unat_cast)
qed

theorem lww_roundtrip_keeps_receiver_author_witness:
  "LWWRegister_Unmarshal (NewLWWRegister ''b'')
      (LWWRegister_Marshal \<lparr>lwwValue = [1, 2], lwwTimestamp = 7, lwwAuthor = ''a''\<rparr>)
    = (None, \<lparr>lwwValue = [1, 2], lwwTimestamp = 7, lwwAuthor = ''b''\<rparr>)"
  using lww_roundtrip_keeps_receiver_author
    [of "\<lparr>lwwValue = [1, 2], lwwTimestamp = 7, lwwAuthor = ''a''\<rparr>" "NewLWWRegister ''b''"]
  by (simp add: NewLWWRegister_def)

text \<open>
  A failed unmarshal is not atomic. When the header promises more value bytes than there
  are, \<open>Unmarshal\<close> reports an error but the register has already taken the new timestamp.
\<close>

theorem lww_unmarshal_error_keeps_timestamp:
  assumes "12 \<le> length data" "length data < 12 + unat (get_u32 (take 4 (drop 8 data)))"
  shows "LWWRegister_Unmarshal r data = (Some DataTooShort, r\<lparr>lwwTimestamp := get_u64 (take 8 data)\<rparr>)"
  using assms by (simp add: LWWRegister_Unmarshal_def Let_def)

theorem lww_unmarshal_error_keeps_timestamp_witness:
  "LWWRegister_Unmarshal (NewLWWRegister ''a'') (put_u64 9 @ put_u32 1) =
     (Some DataTooShort, (NewLWWRegister ''a'')\<lparr>lwwTimestamp := 9\<rparr>)"
  using lww_unmarshal_error_keeps_timestamp [of "put_u64 9 @ put_u32 1" "NewLWWRegister ''a''"]
  by simp

end
