(* ===== verification/Crdt_Merkle.thy ===== *)
theory Crdt_Merkle
  imports LW_Prelude
begin

text \<open>
  The Merkle trees: \<open>NewMerkleTree\<close>, \<open>computeRoot\<close>, \<open>hashPair\<close> and \<open>DiffMerkle\<close> of
  \<open>pkg/crdt/crdt.go\<close>, used for anti-entropy between replicas, and the proof checker
  \<open>VerifyMerkleProof\<close> of \<open>pkg/dht/server.go\<close>. SHA3-256 is the argument \<open>sha3\<close>.
\<close>

record merkle_tree =
  Leaves :: "bytes list"
  Root :: bytes

record merkle_proof =
  mpRoot :: bytes
  Branch :: "bytes list"
  mpLeaf :: bytes

definition zero32 :: bytes where
  "zero32 = replicate 32 0"

definition hashPair :: "(bytes \<Rightarrow> bytes) \<Rightarrow> bytes \<Rightarrow> bytes \<Rightarrow> bytes" where
  "hashPair sha3 a b = sha3 (if a < b then a @ b else b @ a)"

fun next_level :: "(bytes \<Rightarrow> bytes) \<Rightarrow> bytes list \<Rightarrow> bytes list" where
  "next_level sha3 [] = []"
| "next_level sha3 [a] = [a]"
| "next_level sha3 (a # b # rest) = hashPair sha3 a b # next_level sha3 rest"

lemma length_next_level [simp]: "length (next_level sha3 xs) = (length xs + 1) div 2"
  by (induction sha3 xs rule: next_level.induct) auto

lemma next_level_shrinks: "xs \<noteq> [] \<Longrightarrow> length xs \<noteq> Suc 0 \<Longrightarrow> Suc (length xs) div 2 < length xs"
  by (cases xs) (auto simp: neq_Nil_conv)

function computeRoot :: "(bytes \<Rightarrow> bytes) \<Rightarrow> bytes list \<Rightarrow> bytes" where
  "computeRoot sha3 leaves =
     (if length leaves = 0 then zero32
      else if length leaves = 1 then leaves ! 0
      else computeRoot sha3 (next_level sha3 leaves))"
  by pat_completeness auto
termination
  by (relation "measure (\<lambda>(_, leaves). length leaves)") (auto intro: next_level_shrinks)

declare computeRoot.simps [simp del]

definition NewMerkleTree :: "(bytes \<Rightarrow> bytes) \<Rightarrow> string list \<Rightarrow> merkle_tree" where
  "NewMerkleTree sha3 data =
     (let leaves = map (\<lambda>d. sha3 (str_bytes d)) data
      in \<lparr>Leaves = leaves, Root = computeRoot sha3 leaves\<rparr>)"

text \<open>\<open>orderA\<close> and \<open>orderB\<close> are the orders in which Go ranges over the two leaf maps.\<close>

definition DiffMerkle ::
  "bytes list \<Rightarrow> bytes list \<Rightarrow> merkle_tree \<Rightarrow> merkle_tree \<Rightarrow> bytes list \<times> bytes list" where
  "DiffMerkle orderA orderB a b =
     (if Root a = Root b then ([], [])
      else (filter (\<lambda>leaf. leaf \<notin> set (Leaves b)) orderA, filter (\<lambda>leaf. leaf \<notin> set (Leaves a)) orderB))"

definition ComputeMerkleRoot :: "(bytes \<Rightarrow> bytes) \<Rightarrow> bytes \<Rightarrow> bytes" where
  "ComputeMerkleRoot sha3 data = sha3 data"

definition ComputeMerkleRoots :: "(bytes \<Rightarrow> bytes) \<Rightarrow> string list \<Rightarrow> bytes list" where
  "ComputeMerkleRoots sha3 entries = map (\<lambda>e. ComputeMerkleRoot sha3 (str_bytes e)) entries"

fun climb :: "(bytes \<Rightarrow> bytes) \<Rightarrow> bytes \<Rightarrow> bytes list \<Rightarrow> bytes" where
  "climb sha3 current [] = current"
| "climb sha3 current (sibling # branch) =
     climb sha3 (sha3 (if current < sibling then current @ sibling else sibling @ current)) branch"

definition VerifyMerkleProof :: "(bytes \<Rightarrow> bytes) \<Rightarrow> bytes \<Rightarrow> merkle_proof \<Rightarrow> bool" where
  "VerifyMerkleProof sha3 rootHash proof =
     (climb sha3 (ComputeMerkleRoot sha3 (mpLeaf proof)) (Branch proof) = rootHash)"

section \<open>Positions in the tree\<close>

lemma hashPair_commute: "hashPair sha3 a b = hashPair sha3 b a"
  by (auto simp: hashPair_def)

lemma climb_Cons: "climb sha3 c (s # bs) = climb sha3 (hashPair sha3 c s) bs"
  by (simp add: hashPair_def)

lemma next_level_nth:
  "j < (length xs + 1) div 2 \<Longrightarrow> next_level sha3 xs ! j =
     (if 2 * j + 1 < length xs then hashPair sha3 (xs ! (2 * j)) (xs ! (2 * j + 1)) else xs ! (2 * j))"
proof (induction sha3 xs arbitrary: j rule: next_level.induct)
  case (3 sha3 a b rest)
  then show ?case by (cases j) auto
qed auto

text \<open>The audit path of leaf \<open>i\<close>: the sibling at every level where there is one.\<close>

function merkle_branch :: "(bytes \<Rightarrow> bytes) \<Rightarrow> nat \<Rightarrow> bytes list \<Rightarrow> bytes list" where
  "merkle_branch sha3 i leaves =
     (if length leaves \<le> 1 then []
      else let sib = (if even i then i + 1 else i - 1)
           in (if sib < length leaves then [leaves ! sib] else [])
              @ merkle_branch sha3 (i div 2) (next_level sha3 leaves))"
  by pat_completeness auto
termination
  by (relation "measure (\<lambda>(_, _, leaves). length leaves)") auto

declare merkle_branch.simps [simp del]

lemma climb_step:
  assumes "i < length xs" "1 < length xs"
  shows "climb sha3 (xs ! i) ((if (if even i then i + 1 else i - 1) < length xs
           then [xs ! (if even i then i + 1 else i - 1)] else []) @ bs)
         = climb sha3 (next_level sha3 xs ! (i div 2)) bs"
proof -
  from assms have j: "i div 2 < (length xs + 1) div 2" by arith
  show ?thesis
  proof (cases "even i")
    case True
    then have "2 * (i div 2) = i" by simp
    with True assms j show ?thesis
      by (auto simp: next_level_nth climb_Cons simp del: climb.simps(2))
  next
    case False
    then have "2 * (i div 2) = i - 1" "2 * (i div 2) + 1 = i" by presburger+
    with False assms j show ?thesis
      by (auto simp: next_level_nth climb_Cons hashPair_commute [of sha3 "xs ! i"]
          simp del: climb.simps(2))
  qed
qed

lemma climb_branch:
  "i < length xs \<Longrightarrow> climb sha3 (xs ! i) (merkle_branch sha3 i xs) = computeRoot sha3 xs"
proof (induction sha3 i xs rule: merkle_branch.induct)
  case (1 sha3 i xs)
  show ?case
  proof (cases "length xs \<le> 1")
    case True
    with "1.prems" have "length xs = 1" "i = 0" by auto
    then show ?thesis by (simp add: merkle_branch.simps [of sha3 0 xs] computeRoot.simps [of sha3 xs])
  next
    case False
    with "1.prems" have "i div 2 < length (next_level sha3 xs)" by simp
    with "1.IH" [OF False] False
    have ih: "climb sha3 (next_level sha3 xs ! (i div 2)) (merkle_branch sha3 (i div 2) (next_level sha3 xs))
        = computeRoot sha3 (next_level sha3 xs)" by simp
    have "climb sha3 (xs ! i) (merkle_branch sha3 i xs) =
        climb sha3 (next_level sha3 xs ! (i div 2)) (merkle_branch sha3 (i div 2) (next_level sha3 xs))"
      using climb_step [OF "1.prems", of sha3] False
      by (simp add: merkle_branch.simps [of sha3 i xs] Let_def)
    with ih False show ?thesis by (auto simp: computeRoot.simps [of sha3 xs])
  qed
qed

section \<open>Properties\<close>

text \<open>
  Audit paths verify. For every tree built by the anti-entropy code and every entry of it,
  the path of siblings from that entry to the root is accepted by the DHT's proof checker.
\<close>

theorem merkle_proof_complete:
  assumes "i < length data"
  shows "VerifyMerkleProof sha3 (Root (NewMerkleTree sha3 data))
     \<lparr>mpRoot = r, Branch = merkle_branch sha3 i (Leaves (NewMerkleTree sha3 data)),
      mpLeaf = str_bytes (data ! i)\<rparr>"
  using assms climb_branch [of i "map (\<lambda>d. sha3 (str_bytes d)) data" sha3]
  by (simp add: VerifyMerkleProof_def ComputeMerkleRoot_def NewMerkleTree_def Let_def)

theorem merkle_proof_complete_witness:
  "VerifyMerkleProof id (Root (NewMerkleTree id [''a'', ''b'', ''c'']))
     \<lparr>mpRoot = [], Branch = merkle_branch id 2 (Leaves (NewMerkleTree id [''a'', ''b'', ''c''])),
      mpLeaf = str_bytes ''c''\<rparr>"
  using merkle_proof_complete [of 2 "[''a'', ''b'', ''c'']" id "[]"] by simp

text \<open>
  When the roots differ, \<open>DiffMerkle\<close> reports exactly the leaves each side has and the
  other lacks, each once, whatever order Go ranges over the leaf maps.
\<close>

theorem diffMerkle_exact:
  assumes "Root a \<noteq> Root b"
    and "distinct orderA" "set orderA = set (Leaves a)" "distinct orderB" "set orderB = set (Leaves b)"
  shows "set (fst (DiffMerkle orderA orderB a b)) = set (Leaves a) - set (Leaves b)
    \<and> set (snd (DiffMerkle orderA orderB a b)) = set (Leaves b) - set (Leaves a)
    \<and> distinct (fst (DiffMerkle orderA orderB a b)) \<and> distinct (snd (DiffMerkle orderA orderB a b))"
  using assms by (auto simp: DiffMerkle_def)

theorem diffMerkle_exact_witness:
  "set (fst (DiffMerkle [[1]] [[2]] \<lparr>Leaves = [[1], [1]], Root = [1]\<rparr> \<lparr>Leaves = [[2]], Root = [2]\<rparr>))
     = {[1 :: byte]}"
  using diffMerkle_exact [of "\<lparr>Leaves = [[1], [1]], Root = [1]\<rparr>" "\<lparr>Leaves = [[2]], Root = [2]\<rparr>" "[[1]]" "[[2]]"]
  by simp

text \<open>
  The tree does not separate leaves from inner nodes. For any hash and any two entries,
  the one-entry tree over the 64 bytes that the pair's parent hashes has the same root as the
  two-entry tree, so \<open>DiffMerkle\<close> reports no difference between two different replicas.
\<close>

theorem merkle_second_preimage:
  fixes sha3 :: "bytes \<Rightarrow> bytes" and x y :: string
  defines "p \<equiv> sha3 (str_bytes x)" and "q \<equiv> sha3 (str_bytes y)"
  defines "forged \<equiv> bytes_str (if p < q then p @ q else q @ p)"
  shows "Root (NewMerkleTree sha3 [x, y]) = Root (NewMerkleTree sha3 [forged])
    \<and> DiffMerkle orderA orderB (NewMerkleTree sha3 [x, y]) (NewMerkleTree sha3 [forged]) = ([], [])"
proof -
  have "Root (NewMerkleTree sha3 [x, y]) = hashPair sha3 p q"
    by (simp add: NewMerkleTree_def Let_def computeRoot.simps p_def q_def)
  moreover have "Root (NewMerkleTree sha3 [forged]) = hashPair sha3 p q"
    by (simp add: NewMerkleTree_def Let_def computeRoot.simps forged_def hashPair_def)
  ultimately show ?thesis by (simp add: DiffMerkle_def)
qed

end
