(* ===== verification/Go_Format.thy ===== *)
theory Go_Format
  imports LW_Prelude
begin

text \<open>
  The textual encodings the sources use from Go's library: decimal integers (\<open>%d\<close>), lower-case
  hexadecimal (\<open>encoding/hex\<close>) and the output of \<open>encoding/json\<close> for strings, integers, byte
  arrays, slices and structs. JSON strings follow the encoder's rules: the characters that HTML
  could misread are escaped, invalid UTF-8 becomes the replacement character, and the line
  separators U+2028 and U+2029 are escaped.
\<close>

section \<open>Decimal\<close>

fun nat_dec :: "nat \<Rightarrow> string" where
  "nat_dec n = (if n < 10 then [char_of (48 + n)] else nat_dec (n div 10) @ [char_of (48 + n mod 10)])"

declare nat_dec.simps [simp del]

definition int_dec :: "int \<Rightarrow> string" where
  "int_dec i = (if i < 0 then ''-'' @ nat_dec (nat (- i)) else nat_dec (nat i))"

lemma digit_code: "n < 10 \<Longrightarrow> of_char (char_of (48 + n :: nat)) = 48 + n"
  by simp

definition dec_val :: "string \<Rightarrow> nat" where
  "dec_val s = foldl (\<lambda>a c. a * 10 + (of_char c - 48)) 0 s"

lemma dec_val_nat_dec: "dec_val (nat_dec n) = n"
proof (induction n rule: nat_dec.induct)
  case (1 n)
  then show ?case by (subst nat_dec.simps) (auto simp: dec_val_def)
qed

lemma nat_dec_digits: "c \<in> set (nat_dec n) \<Longrightarrow> 48 \<le> (of_char c :: nat) \<and> of_char c < (58 :: nat)"
proof (induction n rule: nat_dec.induct)
  case (1 n)
  have "n mod 10 < 10" by simp
  with 1 show ?case by (subst (asm) nat_dec.simps) (auto split: if_splits)
qed

lemma nat_dec_chars: "CHR '':'' \<notin> set (nat_dec n)" "CHR ''-'' \<notin> set (nat_dec n)"
  by (auto dest: nat_dec_digits)

lemma int_dec_inj: "int_dec i = int_dec j \<Longrightarrow> i = j"
proof -
  assume eq: "int_dec i = int_dec j"
  have nn: "nat_dec a = nat_dec b \<Longrightarrow> a = b" for a b by (metis dec_val_nat_dec)
  have minus: "nat_dec a \<noteq> CHR ''-'' # x" for a x using nat_dec_chars(2) [of a] by auto
  from eq show "i = j"
    using minus minus [symmetric] by (auto simp: int_dec_def dest!: nn split: if_splits)
qed

lemma int_dec_no_colon: "CHR '':'' \<notin> set (int_dec i)"
  by (auto simp: int_dec_def nat_dec_chars)

section \<open>Hexadecimal\<close>

definition hex_digit :: "nat \<Rightarrow> char" where
  "hex_digit n = (if n < 10 then char_of (48 + n) else char_of (87 + n))"

definition hex_encode :: "bytes \<Rightarrow> string" where
  "hex_encode bs = concat (map (\<lambda>b. [hex_digit (unat b div 16), hex_digit (unat b mod 16)]) bs)"

definition hex_val :: "char \<Rightarrow> nat" where
  "hex_val c = (if of_char c < (58 :: nat) then of_char c - 48 else of_char c - 87)"

lemma hex_val_digit: "n < 16 \<Longrightarrow> hex_val (hex_digit n) = n"
  by (auto simp: hex_val_def hex_digit_def)

lemma hex_encode_inj: "hex_encode a = hex_encode b \<longleftrightarrow> a = b"
proof (induction a arbitrary: b)
  case Nil
  then show ?case by (cases b) (auto simp: hex_encode_def)
next
  case (Cons x a)
  have nib: "hex_digit m = hex_digit n \<Longrightarrow> m < 16 \<Longrightarrow> n < 16 \<Longrightarrow> m = n" for m n by (metis hex_val_digit)
  have two: "unat x div 16 = unat y div 16 \<Longrightarrow> unat x mod 16 = unat y mod 16 \<Longrightarrow> x = y" for y
    by (metis div_mult_mod_eq word_unat_eq_iff)
  have lt: "unat w div 16 < 16" for w :: byte using unat_byte_less [of w] by simp
  show ?case
  proof (cases b)
    case (Cons y b')
    then show ?thesis
      using Cons.IH [of b'] nib [OF _ lt lt, of x y] nib [of "unat x mod 16" "unat y mod 16"] two [of y]
      by (auto simp: hex_encode_def)
  qed (simp add: hex_encode_def)
qed

section \<open>JSON\<close>

text \<open>The length of the UTF-8 sequence a string starts with, 0 when it is not well formed.\<close>

definition utf8_cont :: "byte \<Rightarrow> bool" where
  "utf8_cont b \<longleftrightarrow> 0x80 \<le> b \<and> b \<le> 0xBF"

fun utf8_width :: "bytes \<Rightarrow> nat" where
  "utf8_width [] = 0"
| "utf8_width (b # rest) =
     (if b < 0x80 then 1
      else if 0xC2 \<le> b \<and> b \<le> 0xDF
      then (case rest of b1 # _ \<Rightarrow> if utf8_cont b1 then 2 else 0 | _ \<Rightarrow> 0)
      else if 0xE0 \<le> b \<and> b \<le> 0xEF
      then (case rest of
              b1 # b2 # _ \<Rightarrow> if (if b = 0xE0 then 0xA0 else 0x80) \<le> b1 \<and> b1 \<le> (if b = 0xED then 0x9F else 0xBF)
                                \<and> utf8_cont b2 then 3 else 0
            | _ \<Rightarrow> 0)
      else if 0xF0 \<le> b \<and> b \<le> 0xF4
      then (case rest of
              b1 # b2 # b3 # _ \<Rightarrow> if (if b = 0xF0 then 0x90 else 0x80) \<le> b1 \<and> b1 \<le> (if b = 0xF4 then 0x8F else 0xBF)
                                     \<and> utf8_cont b2 \<and> utf8_cont b3 then 4 else 0
            | _ \<Rightarrow> 0)
      else 0)"

definition json_ascii :: "byte \<Rightarrow> bytes" where
  "json_ascii b =
     (if b = 0x22 \<or> b = 0x5C then [0x5C, b]
      else if b = 0x08 then [0x5C, 0x62] else if b = 0x0C then [0x5C, 0x66]
      else if b = 0x0A then [0x5C, 0x6E] else if b = 0x0D then [0x5C, 0x72]
      else if b = 0x09 then [0x5C, 0x74]
      else if b < 0x20 \<or> b = 0x3C \<or> b = 0x3E \<or> b = 0x26
      then [0x5C, 0x75, 0x30, 0x30] @ str_bytes (hex_encode [b])
      else [b])"

function json_escape :: "bytes \<Rightarrow> bytes" where
  "json_escape [] = []"
| "json_escape (b # bs) =
     (if b < 0x80 then json_ascii b @ json_escape bs
      else if utf8_width (b # bs) = 0 then [0x5C, 0x75, 0x66, 0x66, 0x66, 0x64] @ json_escape bs
      else (if b = 0xE2 \<and> take 2 bs = [0x80, 0xA8] then [0x5C, 0x75, 0x32, 0x30, 0x32, 0x38]
            else if b = 0xE2 \<and> take 2 bs = [0x80, 0xA9] then [0x5C, 0x75, 0x32, 0x30, 0x32, 0x39]
            else take (utf8_width (b # bs)) (b # bs))
           @ json_escape (drop (utf8_width (b # bs) - 1) bs))"
  by pat_completeness auto
termination by (relation "measure length") auto

definition json_string :: "string \<Rightarrow> bytes" where
  "json_string s = [0x22] @ json_escape (str_bytes s) @ [0x22]"

definition json_int :: "int \<Rightarrow> bytes" where
  "json_int i = str_bytes (int_dec i)"

fun comma_sep :: "bytes list \<Rightarrow> bytes" where
  "comma_sep [] = []"
| "comma_sep [x] = x"
| "comma_sep (x # y # ys) = x @ [0x2C] @ comma_sep (y # ys)"

definition json_array :: "bytes list \<Rightarrow> bytes" where
  "json_array xs = [0x5B] @ comma_sep xs @ [0x5D]"

text \<open>A Go array of bytes is an array of numbers, a nil slice is \<open>null\<close>.\<close>

definition json_byte_array :: "bytes \<Rightarrow> bytes" where
  "json_byte_array bs = json_array (map (\<lambda>b. json_int (uint b)) bs)"

definition json_strings :: "string list \<Rightarrow> bytes" where
  "json_strings ss = (if ss = [] then str_bytes ''null'' else json_array (map json_string ss))"

definition json_object :: "(string \<times> bytes) list \<Rightarrow> bytes" where
  "json_object fields = [0x7B] @ comma_sep (map (\<lambda>(n, v). json_string n @ [0x3A] @ v) fields) @ [0x7D]"

end
