(* ===== verification/Crdt_RGA.thy ===== *)
theory Crdt_RGA
  imports Go_Format "HOL-Library.Sublist" "HOL-Library.Product_Lexorder"
begin

text \<open>
  The replicated growable array of \<open>pkg/crdt/crdt.go\<close> (types \<open>RGANode\<close> and \<open>RGA\<close>), the sequence
  type behind the collaborative documents. The doubly linked list between the two sentinels
  is a list: \<open>Next\<close> and \<open>Prev\<close> are the neighbours, and a node pointer is a position, 0 for the
  head sentinel and \<open>i + 1\<close> for the \<open>i\<close>-th node. The tail sentinel is the end of the list.
\<close>

record rga_node =
  nID :: string
  nValue :: string
  nTimestamp :: int64
  nAuthor :: string
  nDeleted :: bool
  nOriginID :: string

record rga =
  rgaHead :: rga_node
  rgaNodes :: "rga_node list"
  rgaLength :: int
  rgaClock :: int64
  rgaNodeID :: string

datatype rga_error = IndexOutOfBounds

section \<open>Node identifiers\<close>

text \<open>\<open>fmt.Sprintf("%d:%s:%s", clock, nodeID, value)\<close>.\<close>

definition node_id :: "int64 \<Rightarrow> string \<Rightarrow> string \<Rightarrow> string" where
  "node_id c nodeID value = int_dec (sint c) @ '':'' @ nodeID @ '':'' @ value"

section \<open>Operations\<close>

definition headID :: string where "headID = ''head''"
definition tailID :: string where "tailID = ''tail''"

definition NewRGA :: "string \<Rightarrow> rga" where
  "NewRGA nodeID =
     \<lparr>rgaHead = \<lparr>nID = headID, nValue = [], nTimestamp = 0, nAuthor = [], nDeleted = False, nOriginID = []\<rparr>,
      rgaNodes = [], rgaLength = 0, rgaClock = 0, rgaNodeID = nodeID\<rparr>"

fun find_pos :: "string \<Rightarrow> rga_node list \<Rightarrow> nat option" where
  "find_pos i [] = None"
| "find_pos i (n # ns) = (if nID n = i then Some 0 else map_option Suc (find_pos i ns))"

definition findNode :: "rga \<Rightarrow> string \<Rightarrow> nat option" where
  "findNode r i = (if i = nID (rgaHead r) then Some 0 else map_option Suc (find_pos i (rgaNodes r)))"

definition node_at :: "rga \<Rightarrow> nat \<Rightarrow> rga_node" where
  "node_at r p = (rgaHead r # rgaNodes r) ! p"

definition beforeNode :: "rga_node \<Rightarrow> rga_node \<Rightarrow> bool" where
  "beforeNode a b =
     (if nTimestamp a \<noteq> nTimestamp b then sint (nTimestamp a) < sint (nTimestamp b)
      else nAuthor a < nAuthor b)"

text \<open>
  The loop of \<open>insertOrdered\<close> over the nodes that follow \<open>afterNode\<close>: it stops at the first node
  that is not a child of \<open>afterNode\<close> or that does not sort before the new node, and otherwise
  skips that node and every following node that is not a child of \<open>afterNode\<close>.
\<close>

function splice_child :: "string \<Rightarrow> rga_node \<Rightarrow> rga_node list \<Rightarrow> rga_node list" where
  "splice_child afterID node [] = [node]"
| "splice_child afterID node (cur # rest) =
     (if nOriginID cur \<noteq> afterID then node # cur # rest
      else if \<not> beforeNode cur node then node # cur # rest
      else cur # takeWhile (\<lambda>n. nOriginID n \<noteq> afterID) rest
             @ splice_child afterID node (dropWhile (\<lambda>n. nOriginID n \<noteq> afterID) rest))"
  by pat_completeness auto
termination
  by (relation "measure (\<lambda>(_, _, ns). length ns)") (auto simp: le_imp_less_Suc length_dropWhile_le)

definition insertOrdered :: "rga \<Rightarrow> nat \<Rightarrow> rga_node \<Rightarrow> rga" where
  "insertOrdered r after node =
     r\<lparr>rgaNodes := take after (rgaNodes r)
         @ splice_child (nID (node_at r after)) node (drop after (rgaNodes r))\<rparr>"

definition RGA_Insert :: "rga \<Rightarrow> string \<Rightarrow> string \<Rightarrow> rga" where
  "RGA_Insert r afterID value =
     (let c = rgaClock r + 1;
          after = (case findNode r afterID of Some p \<Rightarrow> p | None \<Rightarrow> length (rgaNodes r));
          node = \<lparr>nID = node_id c (rgaNodeID r) value, nValue = value, nTimestamp = c,
                  nAuthor = rgaNodeID r, nDeleted = False, nOriginID = nID (node_at r after)\<rparr>;
          r' = insertOrdered (r\<lparr>rgaClock := c\<rparr>) after node
      in r'\<lparr>rgaLength := rgaLength r' + 1\<rparr>)"

definition mark_deleted :: "rga \<Rightarrow> nat \<Rightarrow> rga" where
  "mark_deleted r p =
     (case p of 0 \<Rightarrow> r\<lparr>rgaHead := (rgaHead r)\<lparr>nDeleted := True\<rparr>\<rparr>
      | Suc i \<Rightarrow> r\<lparr>rgaNodes := (rgaNodes r)[i := (rgaNodes r ! i)\<lparr>nDeleted := True\<rparr>]\<rparr>)"

definition RGA_Delete :: "rga \<Rightarrow> string \<Rightarrow> rga" where
  "RGA_Delete r i = (case findNode r i of None \<Rightarrow> r | Some p \<Rightarrow> mark_deleted r p)"

definition RGA_Get :: "rga \<Rightarrow> int \<Rightarrow> rga_error + string" where
  "RGA_Get r index =
     (if index < 0 \<or> index \<ge> rgaLength r then Inl IndexOutOfBounds
      else if nat index < length (rgaNodes r) then Inr (nValue (rgaNodes r ! nat index))
      else Inl IndexOutOfBounds)"

definition RGA_String :: "rga \<Rightarrow> string" where
  "RGA_String r = concat (map nValue (filter (\<lambda>n. \<not> nDeleted n) (rgaNodes r)))"

definition RGA_HeadNextID :: "rga \<Rightarrow> string" where
  "RGA_HeadNextID r = (case rgaNodes r of [] \<Rightarrow> [] | n # _ \<Rightarrow> nID n)"

definition RGA_IDs :: "rga \<Rightarrow> string list" where
  "RGA_IDs r = map nID (filter (\<lambda>n. \<not> nDeleted n) (rgaNodes r))"

section \<open>Merge\<close>

definition indexIDs :: "rga \<Rightarrow> string set" where
  "indexIDs r = insert (nID (rgaHead r)) (insert tailID (nID ` set (rgaNodes r)))"

definition isDeleted :: "rga \<Rightarrow> string \<Rightarrow> bool" where
  "isDeleted r i = (case findNode r i of None \<Rightarrow> False | Some p \<Rightarrow> nDeleted (node_at r p))"

definition applyDeleteLocked :: "rga \<Rightarrow> string \<Rightarrow> rga" where
  "applyDeleteLocked r i =
     (case findNode r i of None \<Rightarrow> r
      | Some p \<Rightarrow> if nDeleted (node_at r p) then r else mark_deleted r p)"

type_synonym pending = "rga_node \<times> string"

text \<open>The scan of \<open>other\<close>: \<open>prv\<close> is the identifier of the node ahead of the current one.\<close>

fun merge_scan :: "string set \<Rightarrow> string \<Rightarrow> rga_node list \<Rightarrow> rga \<Rightarrow> rga \<times> pending list" where
  "merge_scan localIDs prv [] r = (r, [])"
| "merge_scan localIDs prv (cur # rest) r =
     (if nID cur \<in> localIDs
      then merge_scan localIDs (nID cur) rest
             (if nDeleted cur \<and> \<not> isDeleted r (nID cur) then applyDeleteLocked r (nID cur) else r)
      else let prevID = (if prv \<noteq> [] then prv else nID (rgaHead r));
               (r', missing) = merge_scan localIDs (nID cur) rest r
           in (r', (cur, prevID) # missing))"

text \<open>One pass over the nodes still to place; the third component is what could not be anchored.\<close>

fun merge_pass :: "pending list \<Rightarrow> string set \<Rightarrow> rga \<Rightarrow> rga \<times> string set \<times> pending list \<times> bool" where
  "merge_pass [] placed r = (r, placed, [], False)"
| "merge_pass ((node, prevID) # ps) placed r =
     (if nID node \<in> placed then merge_pass ps placed r
      else case findNode r prevID of
             None \<Rightarrow> (let (r', placed', deferred, progress) = merge_pass ps placed r
                      in (r', placed', (node, prevID) # deferred, progress))
           | Some after \<Rightarrow>
               let r1 = insertOrdered r after (node\<lparr>nOriginID := prevID\<rparr>);
                   (r', placed', deferred, _) =
                     merge_pass ps (insert (nID node) placed) (r1\<lparr>rgaLength := rgaLength r1 + 1\<rparr>)
               in (r', placed', deferred, True))"

lemma merge_pass_length:
  "merge_pass ps placed r = (r', placed', deferred, progress) \<Longrightarrow>
     length deferred \<le> length ps \<and> (progress \<longrightarrow> length deferred < length ps)"
  by (induction ps placed r arbitrary: r' placed' deferred progress rule: merge_pass.induct)
    (fastforce split: if_splits option.splits prod.splits simp: Let_def)+

text \<open>The sweep: it returns the merged replica and the orphans it reports in the log.\<close>

function merge_sweep :: "pending list \<Rightarrow> string set \<Rightarrow> rga \<Rightarrow> rga \<times> pending list" where
  "merge_sweep remaining placed r =
     (case merge_pass remaining placed r of (r', placed', deferred, progress) \<Rightarrow>
        if deferred = [] then (r', [])
        else if \<not> progress then (r', deferred)
        else merge_sweep deferred placed' r')"
  by pat_completeness auto
termination
  by (relation "measure (\<lambda>(remaining, _, _). length remaining)") (auto dest: merge_pass_length [OF sym])

declare merge_sweep.simps [simp del]

definition RGA_Merge :: "rga \<Rightarrow> rga \<Rightarrow> rga \<times> pending list" where
  "RGA_Merge r other =
     (let (r', missing) = merge_scan (indexIDs r) (nID (rgaHead other)) (rgaNodes other) r
      in if missing = [] then (r', []) else merge_sweep missing {} r')"

section \<open>Where a node is found and where it is spliced\<close>

definition chain :: "rga \<Rightarrow> rga_node list" where
  "chain r = rgaHead r # rgaNodes r"

definition ids :: "rga \<Rightarrow> string set" where
  "ids r = nID ` set (chain r)"

lemma node_at_chain: "node_at r p = chain r ! p"
  by (simp add: node_at_def chain_def)

lemma find_pos_Some: "find_pos i ns = Some p \<Longrightarrow> p < length ns \<and> nID (ns ! p) = i"
  by (induction ns arbitrary: p) (auto split: if_splits)

lemma find_pos_None: "find_pos i ns = None \<longleftrightarrow> i \<notin> nID ` set ns"
  by (induction ns) auto

lemma findNode_Some: "findNode r i = Some p \<Longrightarrow> p < length (chain r) \<and> nID (chain r ! p) = i"
  by (auto simp: findNode_def chain_def split: if_splits dest: find_pos_Some)

lemma findNode_None: "findNode r i = None \<longleftrightarrow> i \<notin> ids r"
  by (auto simp: findNode_def ids_def chain_def find_pos_None split: if_splits)

lemma findNode_le: "findNode r i = Some p \<Longrightarrow> p \<le> length (rgaNodes r)"
  by (drule findNode_Some) (simp add: chain_def)

lemma splice_child_split: "\<exists>xs ys. ns = xs @ ys \<and> splice_child a n ns = xs @ n # ys"
proof (induction a n ns rule: splice_child.induct)
  case (1 a n)
  then show ?case by simp
next
  case (2 a n c rest)
  let ?P = "\<lambda>m. nOriginID m \<noteq> a"
  show ?case
  proof (cases "nOriginID c \<noteq> a \<or> \<not> beforeNode c n")
    case True
    then have "splice_child a n (c # rest) = [] @ n # c # rest" by auto
    then show ?thesis by (metis append_Nil)
  next
    case False
    with "2.IH" obtain xs ys where IH: "dropWhile ?P rest = xs @ ys"
      "splice_child a n (dropWhile ?P rest) = xs @ n # ys" by auto
    have "c # rest = (c # takeWhile ?P rest @ xs) @ ys"
      using IH(1) by (metis append.assoc append_Cons takeWhile_dropWhile_id)
    moreover have "splice_child a n (c # rest) = (c # takeWhile ?P rest @ xs) @ n # ys"
      using False IH(2) by simp
    ultimately show ?thesis by blast
  qed
qed

lemma insertOrdered_split:
  assumes "p \<le> length (rgaNodes r)"
  obtains xs ys where "rgaNodes r = xs @ ys" "p \<le> length xs"
    "insertOrdered r p n = r\<lparr>rgaNodes := xs @ n # ys\<rparr>"
proof -
  from splice_child_split [of "drop p (rgaNodes r)" "nID (node_at r p)" n]
  obtain xs ys where sp: "drop p (rgaNodes r) = xs @ ys"
    "splice_child (nID (node_at r p)) n (drop p (rgaNodes r)) = xs @ n # ys" by blast
  have "rgaNodes r = (take p (rgaNodes r) @ xs) @ ys"
    using sp(1) by (metis append.assoc append_take_drop_id)
  moreover have "insertOrdered r p n = r\<lparr>rgaNodes := (take p (rgaNodes r) @ xs) @ n # ys\<rparr>"
    using sp(2) by (simp add: insertOrdered_def)
  moreover have "p \<le> length (take p (rgaNodes r) @ xs)" using assms by simp
  ultimately show thesis using that by blast
qed

definition live_text :: "rga_node list \<Rightarrow> string" where
  "live_text ns = concat (map nValue (filter (\<lambda>n. \<not> nDeleted n) ns))"

lemma live_text_append [simp]: "live_text (xs @ ys) = live_text xs @ live_text ys"
  and live_text_Cons [simp]:
    "live_text (n # ns) = (if nDeleted n then live_text ns else nValue n @ live_text ns)"
  by (simp_all add: live_text_def)

lemma RGA_String_live: "RGA_String r = live_text (rgaNodes r)"
  by (simp add: RGA_String_def live_text_def)

lemma mark_deleted_chain:
  "p < length (chain r) \<Longrightarrow> chain (mark_deleted r p) = (chain r)[p := (chain r ! p)\<lparr>nDeleted := True\<rparr>]"
  by (cases p) (auto simp: mark_deleted_def chain_def)

lemma mark_deleted_frame [simp]:
  "rgaLength (mark_deleted r p) = rgaLength r" "rgaClock (mark_deleted r p) = rgaClock r"
  "rgaNodeID (mark_deleted r p) = rgaNodeID r"
  by (simp_all add: mark_deleted_def split: nat.splits)

lemma map_nID_mark: "p < length (chain r) \<Longrightarrow> map nID (chain (mark_deleted r p)) = map nID (chain r)"
  by (simp add: mark_deleted_chain map_update list_update_same_conv)

section \<open>Properties of local edits\<close>

definition new_node :: "rga \<Rightarrow> string \<Rightarrow> string \<Rightarrow> rga_node" where
  "new_node r origin value =
     \<lparr>nID = node_id (rgaClock r + 1) (rgaNodeID r) value, nValue = value, nTimestamp = rgaClock r + 1,
      nAuthor = rgaNodeID r, nDeleted = False, nOriginID = origin\<rparr>"

lemma RGA_Insert_shape:
  obtains xs ys origin where "rgaNodes r = xs @ ys"
    "RGA_Insert r afterID value =
       r\<lparr>rgaClock := rgaClock r + 1, rgaNodes := xs @ new_node r origin value # ys,
         rgaLength := rgaLength r + 1\<rparr>"
    "case findNode r afterID of Some p \<Rightarrow> p \<le> length xs | None \<Rightarrow> ys = []"
proof -
  let ?c = "rgaClock r + 1"
  let ?p = "case findNode r afterID of Some p \<Rightarrow> p | None \<Rightarrow> length (rgaNodes r)"
  let ?n = "new_node r (nID (node_at r ?p)) value"
  have "?p \<le> length (rgaNodes (r\<lparr>rgaClock := ?c\<rparr>))"
    by (auto split: option.splits dest: findNode_le)
  then obtain xs ys where sp: "rgaNodes (r\<lparr>rgaClock := ?c\<rparr>) = xs @ ys" "?p \<le> length xs"
    "insertOrdered (r\<lparr>rgaClock := ?c\<rparr>) ?p ?n = r\<lparr>rgaClock := ?c, rgaNodes := xs @ ?n # ys\<rparr>"
    by (rule insertOrdered_split)
  have "RGA_Insert r afterID value =
      r\<lparr>rgaClock := ?c, rgaNodes := xs @ ?n # ys, rgaLength := rgaLength r + 1\<rparr>"
    using sp(3) by (simp add: RGA_Insert_def Let_def new_node_def)
  moreover have "case findNode r afterID of Some p \<Rightarrow> p \<le> length xs | None \<Rightarrow> ys = []"
    using sp(1,2) by (auto split: option.splits)
  ultimately show thesis using that sp(1) by simp
qed

text \<open>
  An insert never reorders the document. The new node is spliced somewhere behind the node
  it was inserted after, every other node keeps its place, and the visible text is the old
  text with the value inserted at that point; with an unknown anchor it is appended.
\<close>

theorem rga_insert_splices:
  "\<exists>xs ys new. rgaNodes r = xs @ ys \<and> rgaNodes (RGA_Insert r afterID value) = xs @ new # ys
     \<and> nValue new = value \<and> \<not> nDeleted new
     \<and> (case findNode r afterID of Some p \<Rightarrow> p \<le> length xs | None \<Rightarrow> ys = [])
     \<and> RGA_String (RGA_Insert r afterID value) = live_text xs @ value @ live_text ys"
proof -
  obtain xs ys origin where sp: "rgaNodes r = xs @ ys"
    "RGA_Insert r afterID value =
       r\<lparr>rgaClock := rgaClock r + 1, rgaNodes := xs @ new_node r origin value # ys,
         rgaLength := rgaLength r + 1\<rparr>"
    "case findNode r afterID of Some p \<Rightarrow> p \<le> length xs | None \<Rightarrow> ys = []"
    by (rule RGA_Insert_shape)
  then show ?thesis
    by (intro exI [of _ xs] exI [of _ ys] exI [of _ "new_node r origin value"])
      (simp add: RGA_String_live new_node_def)
qed

text \<open>
  A delete is a tombstone. Deleting a node of a document with distinct identifiers removes
  exactly its value from the visible text, keeps the length counter, and is idempotent.
\<close>

theorem rga_delete_exact:
  assumes "rgaNodes r = xs @ n # ys" and "distinct (map nID (chain r))"
  shows "RGA_String (RGA_Delete r (nID n)) = live_text xs @ live_text ys
    \<and> rgaLength (RGA_Delete r (nID n)) = rgaLength r
    \<and> RGA_Delete (RGA_Delete r (nID n)) (nID n) = RGA_Delete r (nID n)"
proof -
  have len: "length xs < length (rgaNodes r)" by (simp add: assms(1))
  have ne: "nID n \<noteq> nID (rgaHead r)" "nID n \<notin> nID ` set xs"
    using assms by (auto simp: chain_def)
  have find_pos: "find_pos (nID n) (xs @ m # zs) = Some (length xs)" if "nID m = nID n" for m zs
    using ne(2) that by (induction xs) auto
  let ?d = "r\<lparr>rgaNodes := xs @ n\<lparr>nDeleted := True\<rparr> # ys\<rparr>"
  have del: "RGA_Delete r (nID n) = ?d"
    using ne by (simp add: RGA_Delete_def findNode_def find_pos assms(1) mark_deleted_def list_update_append)
  have "RGA_Delete ?d (nID n) = ?d"
    using ne by (simp add: RGA_Delete_def findNode_def find_pos mark_deleted_def list_update_append)
  with del show ?thesis by (simp add: RGA_String_live)
qed

theorem rga_delete_exact_witness:
  "RGA_String (RGA_Delete (RGA_Insert (RGA_Insert (NewRGA ''n'') ''head'' ''A'') ''1:n:A'' ''B'') ''1:n:A'') = ''B''"
proof -
  let ?r = "RGA_Insert (RGA_Insert (NewRGA ''n'') ''head'' ''A'') ''1:n:A'' ''B''"
  let ?n = "\<lambda>c v p. \<lparr>nID = c @ '':n:'' @ v, nValue = v, nTimestamp = (if c = ''1'' then 1 else 2),
                nAuthor = ''n'', nDeleted = False, nOriginID = p\<rparr>"
  have nodes: "rgaNodes ?r = [] @ ?n ''1'' ''A'' ''head'' # [?n ''2'' ''B'' ''1:n:A'']" by code_simp
  moreover have "distinct (map nID (chain ?r))" by code_simp
  ultimately have "RGA_String (RGA_Delete ?r (nID (?n ''1'' ''A'' ''head'')))
      = live_text [] @ live_text [?n ''2'' ''B'' ''1:n:A'']"
    using rga_delete_exact [of ?r "[]"] by blast
  then show ?thesis by (simp add: live_text_def)
qed

text \<open>
  A child can leave its parent's run. The loop that skips a sibling's subtree skips every
  node that is not a child of the anchor, so it runs through the rest of the document: the
  second insert after \<open>A\<close> lands behind \<open>B\<close>, which is not a descendant of \<open>A\<close>.
\<close>

theorem rga_insert_escapes_subtree:
  "let r = RGA_Insert (RGA_Insert (NewRGA ''n'') ''head'' ''A'') ''head'' ''B'';
       r1 = RGA_Insert r ''1:n:A'' ''X'';
       r2 = RGA_Insert r1 ''1:n:A'' ''Y''
   in RGA_String r = ''AB'' \<and> RGA_String r1 = ''AXB'' \<and> RGA_String r2 = ''AXBY''"
  by code_simp

text \<open>
  Merge does not converge. Three replicas insert one character each at the head. Two of them
  collect all three characters over different routes: both hold the same set of operations,
  their texts differ, and merging again in either direction changes nothing.
\<close>

theorem rga_merge_diverges:
  "let a = RGA_Insert (NewRGA ''A'') ''head'' ''a'';
       b = RGA_Insert (NewRGA ''B'') ''head'' ''b'';
       c = RGA_Insert (NewRGA ''C'') ''head'' ''c'';
       p = fst (RGA_Merge c (fst (RGA_Merge a b)));
       q = fst (RGA_Merge b (fst (RGA_Merge a c)))
   in ids p = ids q \<and> RGA_String p = ''abc'' \<and> RGA_String q = ''acb''
      \<and> fst (RGA_Merge p q) = p \<and> fst (RGA_Merge q p) = q"
  by code_simp

section \<open>When concurrent siblings do commute\<close>

definition node_key :: "rga_node \<Rightarrow> int \<times> string" where
  "node_key n = (sint (nTimestamp n), nAuthor n)"

lemma beforeNode_key: "beforeNode a b \<longleftrightarrow> node_key a < node_key b"
proof (cases "nTimestamp a = nTimestamp b")
  case False
  then have "sint (nTimestamp a) \<noteq> sint (nTimestamp b)" by (auto dest: signed_word_eqI)
  then show ?thesis by (auto simp: beforeNode_def node_key_def)
qed (simp add: beforeNode_def node_key_def)

lemma splice_child_hd:
  "nOriginID n = a \<Longrightarrow> ns = [] \<or> nOriginID (hd ns) = a \<Longrightarrow>
     splice_child a n ns \<noteq> [] \<and> nOriginID (hd (splice_child a n ns)) = a"
  by (cases ns) auto

lemma takeWhile_child:
  assumes "\<forall>d\<in>set ds. nOriginID d \<noteq> a" "xs \<noteq> []" "nOriginID (hd xs) = a"
  shows "takeWhile (\<lambda>n. nOriginID n \<noteq> a) (ds @ xs) = ds"
    "dropWhile (\<lambda>n. nOriginID n \<noteq> a) (ds @ xs) = xs"
  using assms by (cases xs; simp)+

lemma splice_child_skip:
  assumes "beforeNode c n" "nOriginID c = a" "\<forall>d\<in>set ds. nOriginID d \<noteq> a"
    and "xs \<noteq> []" "nOriginID (hd xs) = a"
  shows "splice_child a n (c # ds @ xs) = c # ds @ splice_child a n xs"
  unfolding splice_child.simps(2) takeWhile_child [OF assms(3-5)] using assms(1,2) by simp

lemma dropWhile_child:
  "dropWhile (\<lambda>n. nOriginID n \<noteq> a) rest = [] \<or> nOriginID (hd (dropWhile (\<lambda>n. nOriginID n \<noteq> a) rest)) = a"
  by (metis (mono_tags, lifting) hd_dropWhile)

lemma splice_child_ordered:
  assumes "node_key m < node_key n" "nOriginID m = a" "nOriginID n = a"
  shows "ns = [] \<or> nOriginID (hd ns) = a \<Longrightarrow>
    splice_child a m (splice_child a n ns) = splice_child a n (splice_child a m ns)"
  using assms
proof (induction a n ns rule: splice_child.induct)
  case (1 a n)
  then show ?case by (auto simp: beforeNode_key)
next
  case (2 a n c rest)
  let ?P = "\<lambda>n. nOriginID n \<noteq> a"
  let ?D = "takeWhile ?P rest" and ?E = "dropWhile ?P rest"
  have c: "nOriginID c = a" using "2.prems"(1) by simp
  have D: "\<forall>d\<in>set ?D. nOriginID d \<noteq> a" by (auto dest: set_takeWhileD)
  note E = dropWhile_child [of a rest]
  have hd: "splice_child a x ?E \<noteq> [] \<and> nOriginID (hd (splice_child a x ?E)) = a"
    if "nOriginID x = a" for x using splice_child_hd [OF that E] .
  consider "node_key c < node_key m" | "\<not> node_key c < node_key m" "node_key c < node_key n"
    | "\<not> node_key c < node_key n" by blast
  then show ?case
  proof cases
    case 1
    then have cn: "beforeNode c n" "beforeNode c m" using "2.prems" by (auto simp: beforeNode_key)
    have "splice_child a m (splice_child a n ?E) = splice_child a n (splice_child a m ?E)"
      using "2.IH" [OF _ _ E] "2.prems" c cn by simp
    moreover have "splice_child a x (c # rest) = c # ?D @ splice_child a x ?E"
      if "beforeNode c x" for x using that c by simp
    moreover have "splice_child a x (c # ?D @ splice_child a y ?E)
        = c # ?D @ splice_child a x (splice_child a y ?E)"
      if "beforeNode c x" "nOriginID y = a" for x y
      using splice_child_skip [OF that(1) c D] hd [OF that(2)] by blast
    ultimately show ?thesis using cn "2.prems" by simp
  next
    case 2
    with "2.prems" c show ?thesis by (simp add: beforeNode_key)
  next
    case 3
    with "2.prems" c show ?thesis by (auto simp: beforeNode_key)
  qed
qed

text \<open>
  Concurrent siblings commute at a run of siblings. Two nodes inserted after the same anchor
  with different stamps end up in the same places whichever arrives first, when the anchor is
  at the end of the document or is already followed by one of its children.
\<close>

theorem rga_sibling_inserts_commute:
  assumes "nOriginID m = nID (node_at r p)" "nOriginID n = nID (node_at r p)"
    and "node_key m \<noteq> node_key n" "p \<le> length (rgaNodes r)"
    and "p = length (rgaNodes r) \<or> nOriginID (rgaNodes r ! p) = nID (node_at r p)"
  shows "insertOrdered (insertOrdered r p n) p m = insertOrdered (insertOrdered r p m) p n"
proof -
  let ?a = "nID (node_at r p)"
  have ns: "drop p (rgaNodes r) = [] \<or> nOriginID (hd (drop p (rgaNodes r))) = ?a"
    using assms(4,5) by (cases "p = length (rgaNodes r)") (auto simp: hd_drop_conv_nth)
  have "splice_child ?a m (splice_child ?a n (drop p (rgaNodes r)))
      = splice_child ?a n (splice_child ?a m (drop p (rgaNodes r)))"
  proof (cases "node_key m < node_key n")
    case True
    then show ?thesis using splice_child_ordered [OF True assms(1,2) ns] by simp
  next
    case False
    with assms(3) have "node_key n < node_key m" by auto
    then show ?thesis using splice_child_ordered [OF _ assms(2,1) ns] by simp
  qed
  moreover have "node_at (r\<lparr>rgaNodes := take p (rgaNodes r) @ xs\<rparr>) p = node_at r p" for xs
    using assms(4) by (cases p) (auto simp: node_at_def nth_append)
  ultimately show ?thesis using assms(4) by (simp add: insertOrdered_def)
qed

theorem rga_sibling_inserts_commute_witness:
  "let m = \<lparr>nID = ''1:a:x'', nValue = ''x'', nTimestamp = 1, nAuthor = ''a'', nDeleted = False, nOriginID = ''head''\<rparr>;
       n = \<lparr>nID = ''1:b:y'', nValue = ''y'', nTimestamp = 1, nAuthor = ''b'', nDeleted = False, nOriginID = ''head''\<rparr>
   in insertOrdered (insertOrdered (NewRGA ''n'') 0 n) 0 m = insertOrdered (insertOrdered (NewRGA ''n'') 0 m) 0 n"
  unfolding Let_def
  by (rule rga_sibling_inserts_commute)
    (simp_all add: NewRGA_def node_at_def headID_def node_key_def)

end
