(* ===== verification/Crdt_RGA_Merge.thy ===== *)
theory Crdt_RGA_Merge
  imports Crdt_RGA
begin

text \<open>
  What \<open>RGA.Merge\<close> does guarantee: the well-formedness invariant of a replica, that local edits
  and merges keep it, and that a merge takes over every node and every tombstone of the other
  replica, leaves no orphan and keeps the order of the nodes that were already there.
\<close>

section \<open>Identifiers are unambiguous\<close>

lemma split_at_first:
  "x \<notin> set a \<Longrightarrow> x \<notin> set b \<Longrightarrow> a @ x # c = b @ x # d \<Longrightarrow> a = b \<and> c = d"
proof (induction a arbitrary: b)
  case Nil
  then show ?case by (cases b) auto
next
  case (Cons y a)
  then show ?case by (cases b) auto
qed

lemma node_id_inj:
  assumes "CHR '':'' \<notin> set n" "CHR '':'' \<notin> set n'" "node_id c n v = node_id c' n' v'"
  shows "c = c' \<and> n = n' \<and> v = v'"
proof -
  from assms(3) have "int_dec (sint c) @ CHR '':'' # (n @ CHR '':'' # v) = int_dec (sint c') @ CHR '':'' # (n' @ CHR '':'' # v')"
    by (simp add: node_id_def)
  then have "int_dec (sint c) = int_dec (sint c')" "n @ CHR '':'' # v = n' @ CHR '':'' # v'"
    using split_at_first [OF int_dec_no_colon int_dec_no_colon] by blast+
  moreover from this(2) have "n = n' \<and> v = v'"
    by (rule split_at_first [OF assms(1,2)])
  ultimately show ?thesis using int_dec_inj signed_word_eqI by blast
qed

lemma node_id_not_sentinel: "node_id c n v \<noteq> headID" "node_id c n v \<noteq> tailID"
proof -
  have "CHR '':'' \<in> set (node_id c n v)" by (simp add: node_id_def)
  moreover have "CHR '':'' \<notin> set headID" "CHR '':'' \<notin> set tailID" by (simp_all add: headID_def tailID_def)
  ultimately show "node_id c n v \<noteq> headID" "node_id c n v \<noteq> tailID" by metis+
qed

section \<open>The invariant of a replica\<close>

definition rga_node_ok :: "rga_node \<Rightarrow> bool" where
  "rga_node_ok n \<longleftrightarrow> nID n = node_id (nTimestamp n) (nAuthor n) (nValue n) \<and> CHR '':'' \<notin> set (nAuthor n)"

text \<open>
  A replica is well formed when its identifiers are distinct and were made by
  \<open>fmt.Sprintf\<close>, its length counter counts the list, and its own nodes are not ahead of its clock.
\<close>

definition rga_wf :: "rga \<Rightarrow> bool" where
  "rga_wf r \<longleftrightarrow> nID (rgaHead r) = headID \<and> distinct (map nID (rgaNodes r))
     \<and> (\<forall>n\<in>set (rgaNodes r). rga_node_ok n)
     \<and> (\<forall>n\<in>set (rgaNodes r). nAuthor n = rgaNodeID r \<longrightarrow> sint (nTimestamp n) \<le> sint (rgaClock r))
     \<and> rgaLength r = int (length (rgaNodes r)) \<and> CHR '':'' \<notin> set (rgaNodeID r)"

lemma node_ok_not_sentinel: "rga_node_ok n \<Longrightarrow> nID n \<noteq> headID \<and> nID n \<noteq> tailID"
  by (metis rga_node_ok_def node_id_not_sentinel)

lemma rga_wf_chain: "rga_wf r \<Longrightarrow> distinct (map nID (chain r)) \<and> tailID \<notin> ids r"
  by (fastforce simp: rga_wf_def chain_def ids_def headID_def tailID_def dest: node_ok_not_sentinel)

lemma rga_wf_new: "CHR '':'' \<notin> set nodeID \<Longrightarrow> rga_wf (NewRGA nodeID)"
  by (simp add: rga_wf_def NewRGA_def)

lemma sint_succ: "sint (c :: int64) < 2 ^ 63 - 1 \<Longrightarrow> sint (c + 1) = sint c + 1"
  using sint_ge [of c] by (simp add: signed_take_bit_int_eq_self sint_word_ariths)

text \<open>Tombstones do not matter for well-formedness.\<close>

definition untomb :: "rga_node \<Rightarrow> rga_node" where
  "untomb n = n\<lparr>nDeleted := False\<rparr>"

definition same_nodes :: "rga \<Rightarrow> rga \<Rightarrow> bool" where
  "same_nodes r r' \<longleftrightarrow> map untomb (chain r') = map untomb (chain r)
     \<and> rgaLength r' = rgaLength r \<and> rgaClock r' = rgaClock r \<and> rgaNodeID r' = rgaNodeID r"

lemma untomb_simps [simp]: "nID (untomb n) = nID n" "nAuthor (untomb n) = nAuthor n"
  "nTimestamp (untomb n) = nTimestamp n" "nValue (untomb n) = nValue n"
  "untomb (n\<lparr>nDeleted := b\<rparr>) = untomb n" "rga_node_ok (untomb n) = rga_node_ok n"
  by (simp_all add: untomb_def rga_node_ok_def)

lemma same_nodes_trans: "same_nodes a b \<Longrightarrow> same_nodes b c \<Longrightarrow> same_nodes a c"
  by (simp add: same_nodes_def)

lemma same_nodes_refl [simp]: "same_nodes r r"
  by (simp add: same_nodes_def)

lemma same_nodes_map: "same_nodes r r' \<Longrightarrow> map nID (chain r') = map nID (chain r)"
  by (metis (no_types, lifting) list.map_comp comp_apply map_cong same_nodes_def untomb_simps(1))

lemma same_nodes_ids: "same_nodes r r' \<Longrightarrow> ids r' = ids r"
  by (metis ids_def image_set same_nodes_map)

lemma same_nodes_ball:
  assumes "same_nodes r r'" "\<And>n. P (untomb n) = P n"
  shows "(\<forall>n\<in>set (rgaNodes r'). P n) = (\<forall>n\<in>set (rgaNodes r). P n)"
proof -
  have "(\<forall>n\<in>set (map untomb (rgaNodes r')). P n) = (\<forall>n\<in>set (map untomb (rgaNodes r)). P n)"
    using assms(1) by (simp add: same_nodes_def chain_def)
  then show ?thesis using assms(2) by simp
qed

lemma same_nodes_wf: "same_nodes r r' \<Longrightarrow> rga_wf r' = rga_wf r"
proof -
  assume same: "same_nodes r r'"
  then have m: "map nID (rgaNodes r') = map nID (rgaNodes r)" "nID (rgaHead r') = nID (rgaHead r)"
    using same_nodes_map by (fastforce simp: chain_def)+
  then have "length (rgaNodes r') = length (rgaNodes r)" by (metis length_map)
  with m same same_nodes_ball [OF same, of rga_node_ok]
    same_nodes_ball [OF same, of "\<lambda>n. nAuthor n = rgaNodeID r \<longrightarrow> sint (nTimestamp n) \<le> sint (rgaClock r)"]
  show ?thesis by (simp add: rga_wf_def same_nodes_def)
qed

lemma mark_deleted_same: "p < length (chain r) \<Longrightarrow> same_nodes r (mark_deleted r p)"
  by (simp add: same_nodes_def mark_deleted_chain map_update list_update_same_conv)

lemma Delete_same: "same_nodes r (RGA_Delete r i)"
  by (auto simp: RGA_Delete_def split: option.splits dest!: findNode_Some intro: mark_deleted_same)

lemma fresh_id:
  assumes "rga_wf r" "sint (rgaClock r) < 2 ^ 63 - 1" "m \<in> set (rgaNodes r)"
  shows "nID m \<noteq> nID (new_node r origin value)"
proof
  assume eq: "nID m = nID (new_node r origin value)"
  from assms(1,3) have m: "nID m = node_id (nTimestamp m) (nAuthor m) (nValue m)"
    "CHR '':'' \<notin> set (nAuthor m)" "CHR '':'' \<notin> set (rgaNodeID r)"
    by (auto simp: rga_wf_def rga_node_ok_def)
  with eq have "nTimestamp m = rgaClock r + 1 \<and> nAuthor m = rgaNodeID r"
    by (auto simp: new_node_def dest: node_id_inj)
  with assms show False by (auto simp: rga_wf_def sint_succ)
qed

lemma wf_insert_node:
  assumes "rga_wf r" "rgaNodes r = xs @ ys" "nID n \<notin> nID ` set (rgaNodes r)" "rga_node_ok n"
    and "nAuthor n = rgaNodeID r \<longrightarrow> sint (nTimestamp n) \<le> sint c" "sint (rgaClock r) \<le> sint c"
  shows "rga_wf (r\<lparr>rgaClock := c, rgaNodes := xs @ n # ys, rgaLength := rgaLength r + 1\<rparr>)"
proof -
  have "sint (nTimestamp m) \<le> sint c" if "m \<in> set xs \<union> set ys" "nAuthor m = rgaNodeID r" for m
    using that assms(1,2,6) by (fastforce simp: rga_wf_def)
  moreover have "distinct (map nID (xs @ n # ys))"
    using assms(1-3) by (auto simp: rga_wf_def)
  ultimately show ?thesis using assms by (auto simp: rga_wf_def)
qed

lemma Insert_keeps_wf:
  assumes "rga_wf r" "sint (rgaClock r) < 2 ^ 63 - 1"
  shows "rga_wf (RGA_Insert r afterID value)"
proof -
  obtain xs ys origin where sp: "rgaNodes r = xs @ ys"
    "RGA_Insert r afterID value =
       r\<lparr>rgaClock := rgaClock r + 1, rgaNodes := xs @ new_node r origin value # ys,
         rgaLength := rgaLength r + 1\<rparr>"
    by (rule RGA_Insert_shape)
  have "nID (new_node r origin value) \<notin> nID ` set (rgaNodes r)"
    using fresh_id [OF assms, of _ origin "value"] by (metis imageE)
  with assms sp show ?thesis
    by (auto intro!: wf_insert_node simp: new_node_def rga_node_ok_def rga_wf_def sint_succ)
qed

text \<open>
  Local edits keep a replica well formed. As long as the 64-bit clock has not run out, an
  insert makes a node with a new identifier, counts it, and leaves all identifiers distinct;
  a delete changes neither.
\<close>

theorem rga_edit_keeps_wf:
  assumes "rga_wf r" "sint (rgaClock r) < 2 ^ 63 - 1"
  shows "rga_wf (RGA_Insert r afterID value) \<and> rga_wf (RGA_Delete r i)"
  using Insert_keeps_wf [OF assms] assms(1) same_nodes_wf [OF Delete_same] by blast

theorem rga_edit_keeps_wf_witness:
  "rga_wf (RGA_Insert (NewRGA ''n'') ''head'' ''A'') \<and> rga_wf (RGA_Delete (NewRGA ''n'') ''x'')"
  by (rule rga_edit_keeps_wf) (simp_all add: rga_wf_new, simp add: NewRGA_def)

section \<open>Merging\<close>

lemma isDeleted_iff:
  assumes "distinct (map nID (chain r))"
  shows "isDeleted r i \<longleftrightarrow> (\<exists>m\<in>set (chain r). nID m = i \<and> nDeleted m)"
proof (cases "findNode r i")
  case None
  then have "i \<notin> ids r" by (simp add: findNode_None)
  with None show ?thesis by (auto simp: isDeleted_def ids_def)
next
  case (Some p)
  then have p: "p < length (chain r)" "nID (chain r ! p) = i" by (auto dest: findNode_Some)
  have "m = chain r ! p" if "m \<in> set (chain r)" "nID m = i" for m
    using that p assms by (metis in_set_conv_nth length_map nth_eq_iff_index_eq nth_map)
  with p Some show ?thesis by (auto simp: isDeleted_def node_at_chain)
qed

lemma applyDelete_same: "same_nodes r (applyDeleteLocked r i)"
  by (auto simp: applyDeleteLocked_def split: option.splits dest!: findNode_Some intro: mark_deleted_same)

lemma applyDelete_deletes:
  assumes "distinct (map nID (chain r))"
  shows "isDeleted (applyDeleteLocked r i) j \<longleftrightarrow> isDeleted r j \<or> (j = i \<and> i \<in> ids r)"
proof (cases "findNode r i")
  case None
  then have "i \<notin> ids r" by (simp add: findNode_None)
  with None show ?thesis by (auto simp: applyDeleteLocked_def)
next
  case (Some p)
  then have p: "p < length (chain r)" "nID (chain r ! p) = i" and i: "i \<in> ids r"
    by (auto dest: findNode_Some simp: ids_def)
  let ?r = "mark_deleted r p"
  have ch: "chain ?r = (chain r)[p := (chain r ! p)\<lparr>nDeleted := True\<rparr>]"
    using p(1) by (rule mark_deleted_chain)
  have "distinct (map nID (chain ?r))" using assms p(1) by (simp add: map_nID_mark)
  then have "isDeleted ?r j \<longleftrightarrow> (\<exists>q<length (chain r). nID (chain ?r ! q) = j \<and> nDeleted (chain ?r ! q))"
    by (simp add: isDeleted_iff in_set_conv_nth ch Bex_def) (metis (no_types, lifting))
  also have "\<dots> \<longleftrightarrow> j = i \<or> (\<exists>q<length (chain r). nID (chain r ! q) = j \<and> nDeleted (chain r ! q))"
    using p by (auto simp: ch nth_list_update)
  also have "\<dots> \<longleftrightarrow> j = i \<or> isDeleted r j"
    by (simp add: isDeleted_iff [OF assms] in_set_conv_nth Bex_def) (metis (no_types, lifting))
  finally have mark: "isDeleted ?r j \<longleftrightarrow> j = i \<or> isDeleted r j" .
  have "nDeleted (node_at r p) \<longleftrightarrow> isDeleted r i" using Some by (simp add: isDeleted_def)
  with mark Some i show ?thesis by (auto simp: applyDeleteLocked_def)
qed

fun anchored :: "string set \<Rightarrow> pending list \<Rightarrow> bool" where
  "anchored S [] = True"
| "anchored S ((n, p) # ps) = (p \<in> S \<and> anchored (insert (nID n) S) ps)"

lemma merge_scan_missing:
  "map fst (snd (merge_scan L prv ns r)) = filter (\<lambda>n. nID n \<notin> L) ns"
  by (induction L prv ns r rule: merge_scan.induct) (auto simp: Let_def split: prod.splits)

lemma merge_scan_same: "same_nodes r (fst (merge_scan L prv ns r))"
proof (induction L prv ns r rule: merge_scan.induct)
  case (2 L prv c rest r)
  then show ?case
    using same_nodes_trans applyDelete_same by (auto simp: Let_def split: prod.splits) blast+
qed simp

lemma same_nodes_head: "same_nodes r r' \<Longrightarrow> nID (rgaHead r') = nID (rgaHead r)"
  using same_nodes_map [of r r'] by (simp add: chain_def)

lemma merge_scan_anchored:
  "L \<subseteq> insert tailID S \<Longrightarrow> tailID \<notin> nID ` set ns \<Longrightarrow> prv \<in> S \<Longrightarrow> nID (rgaHead r) \<in> S \<Longrightarrow>
     anchored S (snd (merge_scan L prv ns r))"
proof (induction L prv ns r arbitrary: S rule: merge_scan.induct)
  case (2 L prv c rest r)
  show ?case
  proof (cases "nID c \<in> L")
    case True
    with "2.prems" have "nID c \<in> S" by auto
    with True "2.prems" "2.IH"(1) [OF True, of S] same_nodes_head [OF applyDelete_same, of r "nID c"]
    show ?thesis by simp
  next
    case False
    have "L \<subseteq> insert tailID (insert (nID c) S)" using "2.prems"(1) by blast
    with False "2.prems" "2.IH"(2) [OF False refl, of "insert (nID c) S"]
    show ?thesis by (auto simp: Let_def split: prod.splits)
  qed
qed simp

lemma merge_scan_deleted:
  "distinct (map nID (chain r)) \<Longrightarrow> isDeleted (fst (merge_scan L prv ns r)) j \<longleftrightarrow>
     isDeleted r j \<or> (j \<in> ids r \<and> j \<in> L \<and> (\<exists>n\<in>set ns. nID n = j \<and> nDeleted n))"
proof (induction L prv ns r rule: merge_scan.induct)
  case (2 L prv c rest r)
  show ?case
  proof (cases "nID c \<in> L")
    case True
    let ?r = "if nDeleted c \<and> \<not> isDeleted r (nID c) then applyDeleteLocked r (nID c) else r"
    have same: "same_nodes r ?r" using applyDelete_same by simp
    then have "distinct (map nID (chain ?r))" "ids ?r = ids r"
      using "2.prems" same_nodes_map same_nodes_ids by metis+
    with "2.IH"(1) [OF True] True 2(3) show ?thesis
      by (auto simp: applyDelete_deletes split: if_splits)
  next
    case False
    with 2 show ?thesis by (auto simp: Let_def split: prod.splits)
  qed
qed simp

lemma merge_scan_idle:
  "(\<forall>n\<in>set ns. nID n \<in> L \<and> (nDeleted n \<longrightarrow> isDeleted r (nID n))) \<Longrightarrow> merge_scan L prv ns r = (r, [])"
  by (induction L prv ns r rule: merge_scan.induct) auto

definition placed_node :: "pending \<Rightarrow> rga_node" where
  "placed_node p = (fst p)\<lparr>nOriginID := snd p\<rparr>"

lemma placed_node_simps [simp]: "nID (placed_node p) = nID (fst p)" "nDeleted (placed_node p) = nDeleted (fst p)"
  "nAuthor (placed_node p) = nAuthor (fst p)" "nTimestamp (placed_node p) = nTimestamp (fst p)"
  "rga_node_ok (placed_node p) = rga_node_ok (fst p)"
  by (simp_all add: placed_node_def rga_node_ok_def)

definition placeable :: "rga \<Rightarrow> pending list \<Rightarrow> string set \<Rightarrow> bool" where
  "placeable r ps placed \<longleftrightarrow> anchored (ids r) ps \<and> distinct (map (nID \<circ> fst) ps)
     \<and> (\<forall>p\<in>set ps. nID (fst p) \<notin> ids r \<and> nID (fst p) \<notin> placed \<and> rga_node_ok (fst p)
          \<and> (nAuthor (fst p) = rgaNodeID r \<longrightarrow> sint (nTimestamp (fst p)) \<le> sint (rgaClock r)))"

lemma subseq_insert: "subseq (xs @ ys) (xs @ z # ys)"
  by (induction xs) auto

text \<open>What one pass over nodes that can all be anchored achieves.\<close>

lemma merge_pass_places:
  assumes "rga_wf r" "placeable r ps placed" "merge_pass ps placed r = (r', placed', deferred, progress)"
  shows "deferred = [] \<and> rga_wf r' \<and> subseq (rgaNodes r) (rgaNodes r')
    \<and> set (chain r') = set (chain r) \<union> placed_node ` set ps"
  using assms
proof (induction ps arbitrary: r placed placed' r' deferred progress)
  case Nil
  then show ?case by simp
next
  case (Cons p ps)
  obtain n q where p: "p = (n, q)" by (cases p)
  from Cons.prems(2) have q: "q \<in> ids r" and n: "nID n \<notin> placed" "nID n \<notin> ids r" "rga_node_ok n"
    "nAuthor n = rgaNodeID r \<longrightarrow> sint (nTimestamp n) \<le> sint (rgaClock r)"
    by (auto simp: placeable_def p)
  from q obtain after where after: "findNode r q = Some after" by (meson findNode_None option.exhaust)
  then have "after \<le> length (rgaNodes r)" by (rule findNode_le)
  then obtain xs ys where sp: "rgaNodes r = xs @ ys"
    "insertOrdered r after (placed_node p) = r\<lparr>rgaNodes := xs @ placed_node p # ys\<rparr>"
    by (rule insertOrdered_split)
  define r1 where "r1 = r\<lparr>rgaNodes := xs @ placed_node p # ys, rgaLength := rgaLength r + 1\<rparr>"
  have "rga_wf (r\<lparr>rgaClock := rgaClock r, rgaNodes := xs @ placed_node p # ys, rgaLength := rgaLength r + 1\<rparr>)"
    using n by (intro wf_insert_node [OF Cons.prems(1) sp(1)]) (auto simp: p ids_def chain_def)
  then have wf1: "rga_wf r1" by (simp add: r1_def)
  have ch1: "set (chain r1) = insert (placed_node p) (set (chain r))"
    by (auto simp: r1_def chain_def sp(1))
  then have ids1: "ids r1 = insert (nID n) (ids r)" by (simp add: ids_def p)
  have frame: "rgaNodeID r1 = rgaNodeID r" "rgaClock r1 = rgaClock r" by (simp_all add: r1_def)
  have "nID n \<noteq> nID (fst x)" if "x \<in> set ps" for x
    using Cons.prems(2) that by (force simp: placeable_def p)
  then have pl1: "placeable r1 ps (insert (nID n) placed)"
    using Cons.prems(2) by (simp add: placeable_def p ids1 frame) metis
  obtain pr where rest: "merge_pass ps (insert (nID n) placed) r1 = (r', placed', deferred, pr)"
    using Cons.prems(3) n(1) after sp(2)
    by (auto simp: p r1_def Let_def placed_node_def split: prod.splits)
  have "subseq (rgaNodes r) (rgaNodes r1)" by (simp add: r1_def sp(1) subseq_insert)
  with Cons.IH [OF wf1 pl1 rest] ch1 show ?case
    by (auto intro: subseq_order.trans)
qed

text \<open>The scan of a well-formed peer leaves work that one pass can always place.\<close>

lemma merge_scan_placeable:
  assumes "rga_wf r" "rga_wf other"
    and "\<forall>n\<in>set (rgaNodes other). nAuthor n = rgaNodeID r \<longrightarrow> sint (nTimestamp n) \<le> sint (rgaClock r)"
    and scan: "merge_scan (indexIDs r) (nID (rgaHead other)) (rgaNodes other) r = (r', missing)"
  shows "rga_wf r' \<and> placeable r' missing {}"
proof -
  have same: "same_nodes r r'" using merge_scan_same scan by (metis fst_conv)
  have idx: "indexIDs r = insert tailID (ids r)" by (auto simp: indexIDs_def ids_def chain_def)
  have ids: "ids r' = ids r" using same by (rule same_nodes_ids)
  have miss: "map fst missing = filter (\<lambda>n. nID n \<notin> indexIDs r) (rgaNodes other)"
    using merge_scan_missing [of "indexIDs r" "nID (rgaHead other)" "rgaNodes other" r] scan by simp
  then have mem: "fst p \<in> set (rgaNodes other) \<and> nID (fst p) \<notin> indexIDs r" if "p \<in> set missing" for p
  proof -
    have "fst p \<in> set (map fst missing)" using that by simp
    then show ?thesis unfolding miss by simp
  qed
  have "tailID \<notin> nID ` set (rgaNodes other)"
    using rga_wf_chain [OF assms(2)] by (auto simp: ids_def chain_def)
  moreover have "nID (rgaHead other) \<in> ids r" "nID (rgaHead r) \<in> ids r"
    using assms(1,2) by (auto simp: rga_wf_def ids_def chain_def)
  ultimately have "anchored (ids r) missing"
    using merge_scan_anchored [of "indexIDs r" "ids r" "rgaNodes other" "nID (rgaHead other)" r] scan idx
    by simp
  moreover have "distinct (map (nID \<circ> fst) missing)"
  proof -
    have "map (nID \<circ> fst) missing = map nID (filter (\<lambda>n. nID n \<notin> indexIDs r) (rgaNodes other))"
      by (metis map_map miss)
    then show ?thesis using assms(2) by (simp add: rga_wf_def distinct_map_filter)
  qed
  moreover have "rgaNodeID r' = rgaNodeID r" "rgaClock r' = rgaClock r"
    using same by (simp_all add: same_nodes_def)
  ultimately have "placeable r' missing {}"
    using mem assms(2,3) by (auto simp: placeable_def ids idx rga_wf_def)
  with same_nodes_wf [OF same] assms(1) show ?thesis by simp
qed

lemma RGA_Merge_result:
  assumes "rga_wf r" "rga_wf other"
    and "\<forall>n\<in>set (rgaNodes other). nAuthor n = rgaNodeID r \<longrightarrow> sint (nTimestamp n) \<le> sint (rgaClock r)"
    and scan: "merge_scan (indexIDs r) (nID (rgaHead other)) (rgaNodes other) r = (r1, missing)"
  obtains r' where "RGA_Merge r other = (r', [])" "rga_wf r'" "subseq (rgaNodes r1) (rgaNodes r')"
    "set (chain r') = set (chain r1) \<union> placed_node ` set missing"
proof (cases "missing = []")
  case True
  with scan merge_scan_placeable [OF assms] that [of r1] show thesis
    by (simp add: RGA_Merge_def)
next
  case False
  obtain r' placed' deferred progress
    where pass: "merge_pass missing {} r1 = (r', placed', deferred, progress)" by (metis prod_cases4)
  with merge_scan_placeable [OF assms] merge_pass_places
  have res: "deferred = [] \<and> rga_wf r' \<and> subseq (rgaNodes r1) (rgaNodes r')
      \<and> set (chain r') = set (chain r1) \<union> placed_node ` set missing" by blast
  with False scan pass have "RGA_Merge r other = (r', [])"
    by (simp add: RGA_Merge_def merge_sweep.simps [of missing])
  with res that show thesis by blast
qed

lemma RGA_Merge_spec:
  assumes "rga_wf r" "rga_wf other"
    and "\<forall>n\<in>set (rgaNodes other). nAuthor n = rgaNodeID r \<longrightarrow> sint (nTimestamp n) \<le> sint (rgaClock r)"
  shows "case RGA_Merge r other of (r', orphans) \<Rightarrow>
    orphans = [] \<and> rga_wf r' \<and> ids r' = ids r \<union> ids other
    \<and> subseq (map nID (rgaNodes r)) (map nID (rgaNodes r'))
    \<and> (\<forall>i. i \<noteq> headID \<longrightarrow> isDeleted r' i = (isDeleted r i \<or> isDeleted other i))"
proof -
  obtain r1 missing
    where scan: "merge_scan (indexIDs r) (nID (rgaHead other)) (rgaNodes other) r = (r1, missing)"
    by fastforce
  obtain r' where m: "RGA_Merge r other = (r', [])" and wf: "rga_wf r'"
    and sub: "subseq (rgaNodes r1) (rgaNodes r')"
    and ch: "set (chain r') = set (chain r1) \<union> placed_node ` set missing"
    using RGA_Merge_result [OF assms scan] by blast
  have same: "same_nodes r r1" using merge_scan_same scan by (metis fst_conv)
  have wf1: "rga_wf r1" using same_nodes_wf [OF same] assms(1) by simp
  note dist = rga_wf_chain [OF assms(1)] rga_wf_chain [OF assms(2)] rga_wf_chain [OF wf] rga_wf_chain [OF wf1]
  have idx: "indexIDs r = insert tailID (ids r)" by (auto simp: indexIDs_def ids_def chain_def)
  have heads: "nID (rgaHead r) = headID" "nID (rgaHead other) = headID" "headID \<in> ids r"
    using assms(1,2) by (auto simp: rga_wf_def ids_def chain_def)
  have "map fst missing = filter (\<lambda>n. nID n \<notin> indexIDs r) (rgaNodes other)"
    using merge_scan_missing [of "indexIDs r" "nID (rgaHead other)" "rgaNodes other" r] scan by simp
  from arg_cong [OF this, of set]
  have miss: "fst ` set missing = {n \<in> set (rgaNodes other). nID n \<notin> indexIDs r}" by simp
  have other: "ids other = insert headID (nID ` set (rgaNodes other))" "tailID \<notin> ids other"
    using heads dist by (auto simp: ids_def chain_def)
  have "ids r' = ids r1 \<union> nID ` fst ` set missing"
    by (simp add: ids_def ch image_Un image_image)
  also have "\<dots> = ids r \<union> ids other"
  proof -
    have "nID n \<noteq> tailID" if "n \<in> set (rgaNodes other)" for n using other that by (metis image_eqI insertCI)
    then have "nID ` fst ` set missing = nID ` set (rgaNodes other) - ids r"
      unfolding miss idx by blast
    then show ?thesis using same_nodes_ids [OF same] heads other(1) by auto
  qed
  finally have ids: "ids r' = ids r \<union> ids other" .
  have "isDeleted r' i = (isDeleted r i \<or> isDeleted other i)" if "i \<noteq> headID" for i
  proof -
    have "isDeleted r' i \<longleftrightarrow> isDeleted r1 i \<or> (\<exists>n\<in>fst ` set missing. nID n = i \<and> nDeleted n)"
      using dist by (simp add: isDeleted_iff ch bex_Un)
    moreover have "isDeleted r1 i \<longleftrightarrow> isDeleted r i
        \<or> (i \<in> ids r \<and> i \<in> indexIDs r \<and> (\<exists>n\<in>set (rgaNodes other). nID n = i \<and> nDeleted n))"
      using merge_scan_deleted [of r "indexIDs r" "nID (rgaHead other)" "rgaNodes other" i] scan dist by simp
    moreover have "isDeleted other i \<longleftrightarrow> (\<exists>n\<in>set (rgaNodes other). nID n = i \<and> nDeleted n)"
      using dist heads that by (auto simp: isDeleted_iff chain_def)
    ultimately show ?thesis using other by (auto simp: miss idx)
  qed
  moreover have "subseq (map nID (rgaNodes r)) (map nID (rgaNodes r'))"
    using subseq_map [OF sub, of nID] same_nodes_map [OF same] by (simp add: chain_def)
  ultimately show ?thesis using m wf ids by simp
qed

text \<open>
  C37: a merge is complete. Merging a well-formed replica into another leaves no orphan, keeps the
  invariant, takes over every node and every tombstone, and keeps the nodes that were already
  there in their order. (Own nodes that come back from the peer are not ahead of the clock.)
\<close>

theorem rga_merge_complete:
  assumes "rga_wf r" "rga_wf other"
    and "\<forall>n\<in>set (rgaNodes other). nAuthor n = rgaNodeID r \<longrightarrow> sint (nTimestamp n) \<le> sint (rgaClock r)"
  shows "case RGA_Merge r other of (r', orphans) \<Rightarrow>
    orphans = [] \<and> rga_wf r' \<and> ids r' = ids r \<union> ids other
    \<and> subseq (map nID (rgaNodes r)) (map nID (rgaNodes r'))
    \<and> (\<forall>i. i \<noteq> headID \<longrightarrow> isDeleted r' i = (isDeleted r i \<or> isDeleted other i))"
  using assms by (rule RGA_Merge_spec)

lemma wf_single: "CHR '':'' \<notin> set n \<Longrightarrow> rga_wf (RGA_Insert (NewRGA n) ''head'' v)"
proof -
  assume "CHR '':'' \<notin> set n"
  then have wf: "rga_wf (NewRGA n)" by (rule rga_wf_new)
  have "nID (new_node (NewRGA n) origin v) \<notin> nID ` set (rgaNodes (NewRGA n))" for origin
    by (simp add: NewRGA_def)
  then show ?thesis
    using wf RGA_Insert_shape [of "NewRGA n" "''head''" v "rga_wf (RGA_Insert (NewRGA n) ''head'' v)"]
      wf_insert_node [OF wf, where c = "rgaClock (NewRGA n) + 1"] \<open>CHR '':'' \<notin> set n\<close>
    by (simp add: new_node_def rga_node_ok_def NewRGA_def)
qed

theorem rga_merge_complete_witness:
  "ids (fst (RGA_Merge (RGA_Insert (NewRGA ''A'') ''head'' ''a'') (RGA_Insert (NewRGA ''B'') ''head'' ''b'')))
     = ids (RGA_Insert (NewRGA ''A'') ''head'' ''a'') \<union> ids (RGA_Insert (NewRGA ''B'') ''head'' ''b'')"
proof -
  have "\<forall>n\<in>set (rgaNodes (RGA_Insert (NewRGA ''B'') ''head'' ''b'')).
      nAuthor n = rgaNodeID (RGA_Insert (NewRGA ''A'') ''head'' ''a'') \<longrightarrow>
      sint (nTimestamp n) \<le> sint (rgaClock (RGA_Insert (NewRGA ''A'') ''head'' ''a''))" by code_simp
  from rga_merge_complete [OF wf_single wf_single this] show ?thesis by (auto split: prod.splits)
qed

text \<open>
  Merging the same replica again changes nothing.
\<close>

theorem rga_merge_idempotent:
  assumes "rga_wf r" "rga_wf other"
    and "\<forall>n\<in>set (rgaNodes other). nAuthor n = rgaNodeID r \<longrightarrow> sint (nTimestamp n) \<le> sint (rgaClock r)"
  shows "RGA_Merge (fst (RGA_Merge r other)) other = (fst (RGA_Merge r other), [])"
proof -
  let ?r = "fst (RGA_Merge r other)"
  from RGA_Merge_spec [OF assms] have ids: "ids ?r = ids r \<union> ids other"
    and del: "\<forall>i. i \<noteq> headID \<longrightarrow> isDeleted ?r i = (isDeleted r i \<or> isDeleted other i)"
    by (auto split: prod.splits)
  have "nID n \<in> indexIDs ?r \<and> (nDeleted n \<longrightarrow> isDeleted ?r (nID n))" if n: "n \<in> set (rgaNodes other)" for n
  proof -
    have "n \<in> set (chain other)" using n by (simp add: chain_def)
    then have "nID n \<in> ids ?r" "nDeleted n \<longrightarrow> isDeleted other (nID n)"
      using ids rga_wf_chain [OF assms(2)] by (auto simp: ids_def isDeleted_iff)
    moreover have "nID n \<noteq> headID" using assms(2) n node_ok_not_sentinel by (auto simp: rga_wf_def)
    moreover have "ids ?r \<subseteq> indexIDs ?r" by (auto simp: indexIDs_def ids_def chain_def)
    ultimately show ?thesis using del by auto
  qed
  then show ?thesis by (simp add: RGA_Merge_def merge_scan_idle)
qed

theorem rga_merge_idempotent_witness:
  "let a = RGA_Insert (NewRGA ''A'') ''head'' ''a''; b = RGA_Insert (NewRGA ''B'') ''head'' ''b''
   in RGA_Merge (fst (RGA_Merge a b)) b = (fst (RGA_Merge a b), [])"
  unfolding Let_def by (rule rga_merge_idempotent) (simp_all add: wf_single, code_simp)

end
