(* ===== verification/Crdt_RGA_Wire.thy ===== *)
theory Crdt_RGA_Wire
  imports Crdt_RGA_Merge
begin

text \<open>
  The wire format of the replicated array: \<open>encodeRGAList\<close>, \<open>decodeRGAList\<close>, \<open>RGA.Marshal\<close> and
  \<open>RGA.Unmarshal\<close> of \<open>pkg/crdt/crdt.go\<close>. The origin of a node is an optional trailing field, read
  only while bytes are left.
\<close>

definition encodeRGANode :: "rga_node \<Rightarrow> bytes" where
  "encodeRGANode n = put_str16 (nID n) @ put_str16 (nValue n) @ put_u64 (nTimestamp n)
     @ put_str16 (nAuthor n) @ [if nDeleted n then 1 else 0]
     @ (if nOriginID n \<noteq> [] then put_str16 (nOriginID n) else [])"

definition encodeRGAList :: "rga_node list \<Rightarrow> bytes" where
  "encodeRGAList nodes = put_u16 (word_of_nat (length nodes)) @ concat (map encodeRGANode nodes)"

text \<open>\<open>deleted, _ := buf.ReadByte()\<close> ignores the error of an empty buffer.\<close>

definition read_byte0 :: "byte reader" where
  "read_byte0 bs = (case bs of [] \<Rightarrow> (Inr 0, []) | b # r \<Rightarrow> (Inr b, r))"

definition read_origin :: "string reader" where
  "read_origin bs =
     (if bs = [] then (Inr [], [])
      else case read_u16 bs of
             (Inl _, r) \<Rightarrow> (Inr [], r)
           | (Inr originLen, r) \<Rightarrow>
               if unat originLen > 0
               then (case buffer_read (unat originLen) r of
                       (Inl _, r') \<Rightarrow> (Inr [], r')
                     | (Inr ob, r') \<Rightarrow> (Inr (bytes_str ob), r'))
               else (Inr [], r))"

definition decodeRGANode :: "rga_node reader" where
  "decodeRGANode = rbind read_str16 (\<lambda>i. rbind read_str16 (\<lambda>v. rbind read_u64 (\<lambda>ts.
     rbind read_str16 (\<lambda>auth. rbind read_byte0 (\<lambda>deleted. rbind read_origin (\<lambda>origin.
       rreturn \<lparr>nID = i, nValue = v, nTimestamp = ts, nAuthor = auth, nDeleted = (deleted = 1),
                nOriginID = origin\<rparr>))))))"

definition decodeRGAList :: "rga_node list reader" where
  "decodeRGAList = rbind read_u16 (\<lambda>count. read_n (unat count) decodeRGANode)"

definition RGA_Marshal :: "rga \<Rightarrow> bytes" where
  "RGA_Marshal r = encodeRGAList (rgaNodes r)"

fun relink :: "string \<Rightarrow> rga_node list \<Rightarrow> rga_node list" where
  "relink prv [] = []"
| "relink prv (n # ns) =
     n\<lparr>nOriginID := (if nOriginID n = [] then prv else nOriginID n)\<rparr> # relink (nID n) ns"

definition RGA_Unmarshal :: "rga \<Rightarrow> bytes \<Rightarrow> io_error + rga" where
  "RGA_Unmarshal r data =
     (case fst (decodeRGAList data) of
        Inl err \<Rightarrow> Inl err
      | Inr nodes \<Rightarrow>
          Inr (r\<lparr>rgaNodes := relink (nID (rgaHead r)) nodes,
                 rgaLength := int (length (filter (\<lambda>n. \<not> nDeleted n) nodes))\<rparr>))"

section \<open>The node format is a codec\<close>

definition wire_node :: "rga_node \<Rightarrow> bool" where
  "wire_node n \<longleftrightarrow> short16 (nID n) \<and> short16 (nValue n) \<and> short16 (nAuthor n)
     \<and> short16 (nOriginID n) \<and> nOriginID n \<noteq> []"

lemma read_origin_put [wire_simps]:
  "short16 s \<Longrightarrow> s \<noteq> [] \<Longrightarrow> read_origin (put_str16 s @ r) = (Inr s, r)"
  by (simp add: read_origin_def put_str16_def wire_simps)

lemma read_byte0_Cons [wire_simps]: "read_byte0 (b # r) = (Inr b, r)"
  by (simp add: read_byte0_def)

interpretation rga_node_codec: wire_codec encodeRGANode decodeRGANode wire_node
  by unfold_locales (simp add: encodeRGANode_def decodeRGANode_def wire_node_def wire_simps)

lemma relink_id: "\<forall>n\<in>set ns. nOriginID n \<noteq> [] \<Longrightarrow> relink prv ns = ns"
  by (induction ns arbitrary: prv) auto

lemma decodeRGAList_encode:
  assumes "list_all wire_node ns" "length ns < 65536"
  shows "decodeRGAList (encodeRGAList ns) = (Inr ns, [])"
  using rga_node_codec.read_n_enc [OF assms(1), of "length ns" "[]"] assms(2)
  by (simp add: decodeRGAList_def encodeRGAList_def wire_simps unat_cast)

text \<open>
  The document survives the wire. For nodes whose fields fit the 16-bit lengths and that
  carry an origin, unmarshalling a marshalled document restores every node, in order.
\<close>

theorem rga_wire_roundtrip:
  assumes "list_all wire_node (rgaNodes r)" "length (rgaNodes r) < 65536"
  shows "\<exists>r'. RGA_Unmarshal r0 (RGA_Marshal r) = Inr r' \<and> rgaNodes r' = rgaNodes r
    \<and> RGA_String r' = RGA_String r \<and> RGA_IDs r' = RGA_IDs r"
proof -
  have "relink (nID (rgaHead r0)) (rgaNodes r) = rgaNodes r"
    using assms(1) by (intro relink_id) (auto simp: list_all_iff wire_node_def)
  then show ?thesis
    by (simp add: RGA_Unmarshal_def RGA_Marshal_def decodeRGAList_encode [OF assms] RGA_String_def RGA_IDs_def)
qed

theorem rga_wire_roundtrip_witness:
  "\<exists>r'. RGA_Unmarshal (NewRGA ''m'') (RGA_Marshal (RGA_Insert (NewRGA ''n'') ''head'' ''A'')) = Inr r'
     \<and> rgaNodes r' = rgaNodes (RGA_Insert (NewRGA ''n'') ''head'' ''A'')"
proof -
  have "list_all wire_node (rgaNodes (RGA_Insert (NewRGA ''n'') ''head'' ''A''))"
    "length (rgaNodes (RGA_Insert (NewRGA ''n'') ''head'' ''A'')) < 65536" by code_simp+
  from rga_wire_roundtrip [OF this, of "NewRGA ''m''"] show ?thesis by blast
qed

text \<open>
  The length counter does not survive the wire. \<open>Length\<close> and \<open>Get\<close> count tombstones, but
  \<open>Unmarshal\<close> counts live nodes only: after deleting one of two characters, the position that
  \<open>Get\<close> answered before the round trip is out of bounds after it.
\<close>

theorem rga_length_lost_on_wire:
  "let r = RGA_Delete (RGA_Insert (RGA_Insert (NewRGA ''n'') ''head'' ''A'') ''1:n:A'' ''B'') ''1:n:A''
   in case RGA_Unmarshal (NewRGA ''n'') (RGA_Marshal r) of
        Inr r' \<Rightarrow> rgaNodes r' = rgaNodes r \<and> rgaLength r = 2 \<and> rgaLength r' = 1
          \<and> RGA_Get r 1 = Inr ''B'' \<and> RGA_Get r' 1 = Inl IndexOutOfBounds
      | Inl _ \<Rightarrow> False"
  by code_simp

text \<open>
  The clock does not survive the wire. A replica restored from its own bytes starts counting
  at one again, and its next insert reuses the identifier of a node it already holds.
\<close>

theorem rga_clock_lost_on_wire:
  "case RGA_Unmarshal (NewRGA ''n'') (RGA_Marshal (RGA_Insert (NewRGA ''n'') ''head'' ''A'')) of
     Inr r' \<Rightarrow> map nID (rgaNodes (RGA_Insert r' ''1:n:A'' ''A'')) = [''1:n:A'', ''1:n:A'']
   | Inl _ \<Rightarrow> False"
  by code_simp

text \<open>
  Payloads without origins do not decode. The origin is read whenever bytes are left, so in a
  payload of two nodes written without origins the second node's length is taken for the
  first node's origin and decoding fails.
\<close>

theorem rga_legacy_payload_fails:
  "let n = \<lparr>nID = ''1:n:A'', nValue = ''A'', nTimestamp = 1, nAuthor = ''n'', nDeleted = False, nOriginID = []\<rparr>;
       m = \<lparr>nID = ''2:n:B'', nValue = ''B'', nTimestamp = 2, nAuthor = ''n'', nDeleted = False, nOriginID = []\<rparr>
   in \<exists>err. RGA_Unmarshal (NewRGA ''n'') (encodeRGAList [n, m]) = Inl err"
proof -
  let ?n = "\<lparr>nID = ''1:n:A'', nValue = ''A'', nTimestamp = 1, nAuthor = ''n'', nDeleted = False, nOriginID = []\<rparr>"
  let ?m = "\<lparr>nID = ''2:n:B'', nValue = ''B'', nTimestamp = 2, nAuthor = ''n'', nDeleted = False, nOriginID = []\<rparr>"
  have "(case RGA_Unmarshal (NewRGA ''n'') (encodeRGAList [?n, ?m]) of Inl _ \<Rightarrow> True | Inr _ \<Rightarrow> False)"
    by code_simp
  then show ?thesis by (simp split: sum.splits)
qed

end
