(* ===== verification/Sec_PoW.thy ===== *)
theory Sec_PoW
  imports LW_Prelude "HOL-Library.Multiset"
begin

unbundle bit_operations_syntax

text \<open>
  The proof-of-work subsystem of \<open>pkg/security/pow.go\<close>: challenges and their clamped cost, the
  nonce search, verification with and without freshness, the difficulty adjuster and the
  validator with its replay cache. SHA3-256 (\<open>sha3\<close>) and Argon2id (\<open>argon2\<close>, from
  \<open>golang.org/x/crypto\<close>) are arguments, and so are the clock readings and the answers of
  \<open>ctx.Err()\<close>.
\<close>

section \<open>Challenges\<close>

record pow_challenge =
  pcAlgorithm :: string
  pcDifficulty :: byte
  pcMemory :: u32
  pcTimeCost :: u32
  pcParallelism :: byte
  pcTimestamp :: gotime
  pcService :: string
  pcSalt :: bytes

record pow_solution =
  psNonce :: bytes
  psHash :: bytes
  psTime :: gotime
  psDuration :: int64

datatype pow_error = CtxErr string | DifficultyAboveMaximum | NonceSpaceExhausted
  | InvalidProofOfWork | ProofOfWorkReplayed

definition MaxPoWMemoryKiB :: u32 where "MaxPoWMemoryKiB = 64 * 1024"
definition MaxPoWTimeCost :: u32 where "MaxPoWTimeCost = 4"
definition MaxPoWParallelism :: byte where "MaxPoWParallelism = 4"
definition MinDifficulty :: byte where "MinDifficulty = 8"
definition MaxDifficulty :: byte where "MaxDifficulty = 24"
definition PowReplayWindow :: duration where "PowReplayWindow = 5 * 60 * 1000000000"
definition powNonceSearchLimit :: nat where "powNonceSearchLimit = 2 ^ 32"

text \<open>\<open>Time.UnixNano\<close>: nanoseconds since 1970, from nanoseconds since Go's zero time.\<close>

definition unixNano :: "gotime \<Rightarrow> int64" where
  "unixNano t = word_of_int (t - 62135596800000000000)"

definition MarshalChallenge :: "pow_challenge \<Rightarrow> bytes" where
  "MarshalChallenge c = str_bytes (pcAlgorithm c) @ [pcDifficulty c] @ put_u32 (pcMemory c)
     @ put_u32 (pcTimeCost c) @ [pcParallelism c] @ put_u64 (unixNano (pcTimestamp c))
     @ str_bytes (pcService c) @ pcSalt c"

definition clamp :: "pow_challenge \<Rightarrow> u32 \<times> u32 \<times> byte" where
  "clamp c =
     (let memory = (if pcMemory c = 0 \<or> pcMemory c > MaxPoWMemoryKiB then MaxPoWMemoryKiB else pcMemory c);
          timeCost = (if pcTimeCost c = 0 \<or> pcTimeCost c > MaxPoWTimeCost then MaxPoWTimeCost else pcTimeCost c);
          parallelism = (if pcParallelism c = 0 \<or> pcParallelism c > MaxPoWParallelism
                         then MaxPoWParallelism else pcParallelism c);
          mn = 8 * ucast parallelism
      in (if memory < mn then mn else memory, timeCost, parallelism))"

type_synonym argon2id = "bytes \<Rightarrow> bytes \<Rightarrow> u32 \<Rightarrow> u32 \<Rightarrow> byte \<Rightarrow> bytes"

text \<open>\<open>copy\<close> into a zeroed array of 32 bytes.\<close>

definition copy32 :: "bytes \<Rightarrow> bytes" where
  "copy32 h = take 32 (h @ replicate 32 0)"

definition workSeed :: "argon2id \<Rightarrow> pow_challenge \<Rightarrow> bytes" where
  "workSeed argon2 c =
     (let (memory, timeCost, parallelism) = clamp c
      in copy32 (argon2 (MarshalChallenge c) (pcSalt c) timeCost memory parallelism))"

definition candidateHash :: "(bytes \<Rightarrow> bytes) \<Rightarrow> bytes \<Rightarrow> bytes \<Rightarrow> bytes" where
  "candidateHash sha3 seed nonce = sha3 (seed @ put_u64 (get_u64 nonce))"

fun zero_bits_from :: "nat \<Rightarrow> byte \<Rightarrow> nat" where
  "zero_bits_from 0 b = 0"
| "zero_bits_from (Suc i) b = (if b AND push_bit i 1 = 0 then Suc (zero_bits_from i b) else 0)"

fun leadingZeroBits :: "bytes \<Rightarrow> nat" where
  "leadingZeroBits [] = 0"
| "leadingZeroBits (b # bs) = (if b = 0 then 8 + leadingZeroBits bs else zero_bits_from 8 b)"

definition GenerateChallenge :: "gotime \<Rightarrow> bytes \<Rightarrow> byte \<Rightarrow> string \<Rightarrow> pow_challenge" where
  "GenerateChallenge now salt difficulty svc =
     (let d1 = (if difficulty < MinDifficulty then MinDifficulty else difficulty);
          d2 = (if d1 > MaxDifficulty then MaxDifficulty else d1)
      in \<lparr>pcAlgorithm = ''argon2id-sha3'', pcDifficulty = d2, pcMemory = 64 * 1024, pcTimeCost = 1,
          pcParallelism = 1, pcTimestamp = now, pcService = svc, pcSalt = salt\<rparr>)"

section \<open>Solving and verifying\<close>

text \<open>
  The nonce loop: \<open>ctxErr k\<close> is what \<open>ctx.Err()\<close> answers at the \<open>k\<close>-th poll (poll 0 is the one
  before the loop; the loop polls every 65536 nonces). \<open>good\<close> is the test of one nonce.
\<close>

function nonce_search :: "nat \<Rightarrow> (nat \<Rightarrow> string option) \<Rightarrow> (nat \<Rightarrow> bool) \<Rightarrow> nat \<Rightarrow> pow_error + nat" where
  "nonce_search limit ctxErr good nonce =
     (if nonce < limit then
        (case (if nonce mod 65536 = 0 then ctxErr (1 + nonce div 65536) else None) of
           Some e \<Rightarrow> Inl (CtxErr e)
         | None \<Rightarrow> if good nonce then Inr nonce else nonce_search limit ctxErr good (Suc nonce))
      else Inl NonceSpaceExhausted)"
  by pat_completeness auto
termination
  by (relation "measure (\<lambda>(limit, _, _, nonce). limit - nonce)") auto

declare nonce_search.simps [simp del]

definition nonce_good :: "(bytes \<Rightarrow> bytes) \<Rightarrow> bytes \<Rightarrow> byte \<Rightarrow> nat \<Rightarrow> bool" where
  "nonce_good sha3 seed difficulty nonce =
     (leadingZeroBits (candidateHash sha3 seed (be_bytes 8 nonce)) \<ge> unat difficulty)"

definition SolvePoWContext ::
  "(bytes \<Rightarrow> bytes) \<Rightarrow> argon2id \<Rightarrow> (nat \<Rightarrow> string option) \<Rightarrow> gotime \<Rightarrow> gotime \<Rightarrow> gotime \<Rightarrow> pow_challenge
     \<Rightarrow> pow_error + pow_solution" where
  "SolvePoWContext sha3 argon2 ctxErr start finish finish' c =
     (case ctxErr 0 of Some e \<Rightarrow> Inl (CtxErr e)
      | None \<Rightarrow>
          if pcDifficulty c > MaxDifficulty then Inl DifficultyAboveMaximum
          else let seed = workSeed argon2 c
               in (case nonce_search powNonceSearchLimit ctxErr (nonce_good sha3 seed (pcDifficulty c)) 0 of
                     Inl e \<Rightarrow> Inl e
                   | Inr nonce \<Rightarrow>
                       Inr \<lparr>psNonce = be_bytes 8 nonce, psHash = candidateHash sha3 seed (be_bytes 8 nonce),
                            psTime = finish, psDuration = word_of_int (time_sub finish' start)\<rparr>))"

definition SolvePoW ::
  "(bytes \<Rightarrow> bytes) \<Rightarrow> argon2id \<Rightarrow> gotime \<Rightarrow> gotime \<Rightarrow> gotime \<Rightarrow> pow_challenge \<Rightarrow> pow_error + pow_solution" where
  "SolvePoW sha3 argon2 start finish finish' c =
     SolvePoWContext sha3 argon2 (\<lambda>_. None) start finish finish' c"

definition VerifyPoW :: "(bytes \<Rightarrow> bytes) \<Rightarrow> argon2id \<Rightarrow> pow_challenge \<Rightarrow> pow_solution \<Rightarrow> bool" where
  "VerifyPoW sha3 argon2 c sol =
     (let computed = candidateHash sha3 (workSeed argon2 c) (psNonce sol)
      in if computed \<noteq> psHash sol then False else leadingZeroBits computed \<ge> unat (pcDifficulty c))"

definition VerifyPoWWithTime ::
  "(bytes \<Rightarrow> bytes) \<Rightarrow> argon2id \<Rightarrow> pow_challenge \<Rightarrow> pow_solution \<Rightarrow> gotime \<Rightarrow> bool" where
  "VerifyPoWWithTime sha3 argon2 c sol now =
     (if \<not> VerifyPoW sha3 argon2 c sol then False
      else let age = time_sub now (pcTimestamp c) in age \<le> PowReplayWindow \<and> age \<ge> - PowReplayWindow)"

section \<open>Difficulty adjustment\<close>

record pow_config =
  BaseDifficulty :: byte
  cfgMinDifficulty :: byte
  cfgMaxDifficulty :: byte
  TargetSolveTime :: duration
  AdjustmentInterval :: duration
  MaxAdjustmentFactor :: real
  cfgMemory :: u32
  cfgTimeCost :: u32
  cfgParallelism :: byte

definition DefaultPoWConfig :: pow_config where
  "DefaultPoWConfig =
     \<lparr>BaseDifficulty = 16, cfgMinDifficulty = MinDifficulty, cfgMaxDifficulty = MaxDifficulty,
      TargetSolveTime = 100 * 1000000, AdjustmentInterval = 5 * 60 * 1000000000,
      MaxAdjustmentFactor = 2, cfgMemory = 64 * 1024, cfgTimeCost = 1, cfgParallelism = 1\<rparr>"

record difficulty_adjuster =
  daConfig :: pow_config
  daDifficulty :: byte
  daLastAdjust :: gotime
  daHistory :: "int64 list"

definition NewDifficultyAdjuster :: "pow_config \<Rightarrow> difficulty_adjuster" where
  "NewDifficultyAdjuster cfg =
     (let d = BaseDifficulty cfg;
          d1 = (if d < cfgMinDifficulty cfg then cfgMinDifficulty cfg else d);
          d2 = (if d1 > cfgMaxDifficulty cfg then cfgMaxDifficulty cfg else d1)
      in \<lparr>daConfig = cfg, daDifficulty = d2, daLastAdjust = 0, daHistory = []\<rparr>)"

text \<open>\<open>int64\<close> sum (it wraps) and Go's division, which truncates towards zero.\<close>

definition averageDuration :: "int64 list \<Rightarrow> int" where
  "averageDuration ds =
     (if ds = [] then 0
      else let total = sint (sum_list ds) in sgn total * (\<bar>total\<bar> div int (length ds)))"

text \<open>
  The floating-point part: \<open>log2\<close> stands for \<open>math.Log2\<close> and \<open>fl\<close> for the rounding of a
  \<open>float64\<close> operation, both arbitrary. Every intermediate value is finite when the configured
  factor is. \<open>math.Round\<close> rounds half away from zero, which on the non-negative clamped value is
  \<open>round\<close>. \<open>now\<close> is the reading of \<open>time.Since\<close> and \<open>stamp\<close> the later one of \<open>time.Now\<close>.
\<close>

definition bound_diff :: "pow_config \<Rightarrow> real \<Rightarrow> real" where
  "bound_diff cfg newDiff =
     (let n1 = (if newDiff < real (unat (cfgMinDifficulty cfg))
                then real (unat (cfgMinDifficulty cfg)) else newDiff)
      in if n1 > real (unat (cfgMaxDifficulty cfg)) then real (unat (cfgMaxDifficulty cfg)) else n1)"

definition RecordSolve ::
  "(real \<Rightarrow> real) \<Rightarrow> (real \<Rightarrow> real) \<Rightarrow> gotime \<Rightarrow> gotime \<Rightarrow> difficulty_adjuster \<Rightarrow> int64
     \<Rightarrow> difficulty_adjuster \<times> byte" where
  "RecordSolve fl log2 now stamp a d =
     (let cfg = daConfig a;
          h0 = daHistory a @ [d];
          h = (if length h0 > 100 then drop (length h0 - 100) h0 else h0);
          a1 = a\<lparr>daHistory := h\<rparr>
      in if TargetSolveTime cfg \<le> 0 then (a1, daDifficulty a1)
         else if daLastAdjust a1 \<noteq> 0 \<and> time_sub now (daLastAdjust a1) < AdjustmentInterval cfg
         then (a1, daDifficulty a1)
         else let avg = averageDuration h
              in if avg \<le> 0 then (a1, daDifficulty a1)
                 else let ratio0 = fl (fl (real_of_int (TargetSolveTime cfg)) / fl (real_of_int avg));
                          f = MaxAdjustmentFactor cfg;
                          ratio = (if f > 0
                                   then (let lo = fl (1 / f);
                                             r1 = (if ratio0 < lo then lo else ratio0)
                                         in if r1 > f then f else r1)
                                   else ratio0);
                          n0 = fl (real (unat (daDifficulty a1)) + log2 ratio);
                          a2 = a1\<lparr>daDifficulty := word_of_int (round (bound_diff cfg n0)),
                                  daLastAdjust := stamp\<rparr>
                      in (a2, daDifficulty a2))"

definition CurrentDifficulty :: "difficulty_adjuster \<Rightarrow> byte" where
  "CurrentDifficulty a = daDifficulty a"

section \<open>The validator and its replay cache\<close>

text \<open>
  The map \<open>seen\<close> is an association list with distinct keys. Each \<open>range\<close> over it visits the
  entries in the order \<open>rng\<close> gives, any permutation of them.
\<close>

type_synonym seen_map = "(string \<times> gotime) list"

record pow_validator =
  pvAdjuster :: difficulty_adjuster
  pvSeen :: seen_map

definition NewPoWValidator :: "difficulty_adjuster \<Rightarrow> pow_validator" where
  "NewPoWValidator a = \<lparr>pvAdjuster = a, pvSeen = []\<rparr>"

definition del_key :: "string \<Rightarrow> seen_map \<Rightarrow> seen_map" where
  "del_key k m = filter (\<lambda>e. fst e \<noteq> k) m"

fun oldest_key :: "string \<times> gotime \<Rightarrow> seen_map \<Rightarrow> string \<times> gotime" where
  "oldest_key acc [] = acc"
| "oldest_key (k0, t0) ((k, t) # m) =
     oldest_key (if k0 = [] \<or> t < t0 then (k, t) else (k0, t0)) m"

text \<open>The eviction loop; every round deletes one entry, so \<open>length\<close> many rounds are enough.\<close>

fun evict :: "(seen_map \<Rightarrow> seen_map) \<Rightarrow> nat \<Rightarrow> seen_map \<Rightarrow> seen_map" where
  "evict rng 0 m = m"
| "evict rng (Suc fuel) m =
     (if length m > 1024
      then (let k = fst (oldest_key ([], 0) (rng m))
            in if k = [] then m else evict rng fuel (del_key k m))
      else m)"

definition remember :: "(seen_map \<Rightarrow> seen_map) \<Rightarrow> gotime \<Rightarrow> string \<Rightarrow> seen_map \<Rightarrow> seen_map" where
  "remember rng now key m =
     (let m1 = (key, now) # del_key key m
      in if length m1 > 1024
         then let cutoff = now - PowReplayWindow;
                  m2 = filter (\<lambda>e. \<not> snd e < cutoff) m1
              in evict rng (length m2) m2
         else m1)"

text \<open>\<open>record_solve\<close> is \<open>RecordSolve fl log2 now' stamp\<close> at the readings the adjuster makes.\<close>

definition Validate ::
  "(bytes \<Rightarrow> bytes) \<Rightarrow> argon2id \<Rightarrow> (difficulty_adjuster \<Rightarrow> int64 \<Rightarrow> difficulty_adjuster \<times> byte)
     \<Rightarrow> (seen_map \<Rightarrow> seen_map) \<Rightarrow> gotime \<Rightarrow> pow_validator \<Rightarrow> pow_challenge \<Rightarrow> pow_solution
     \<Rightarrow> pow_error option \<times> pow_validator" where
  "Validate sha3 argon2 record_solve rng now v c sol =
     (if \<not> VerifyPoWWithTime sha3 argon2 c sol now then (Some InvalidProofOfWork, v)
      else let key = bytes_str (sha3 (MarshalChallenge c))
           in if (case map_of (pvSeen v) key of Some prev \<Rightarrow> time_sub now prev < PowReplayWindow
                  | None \<Rightarrow> False)
              then (Some ProofOfWorkReplayed, v)
              else (None, v\<lparr>pvSeen := remember rng now key (pvSeen v),
                            pvAdjuster := fst (record_solve (pvAdjuster v) (psDuration sol))\<rparr>))"

section \<open>Leading zero bits are a numeric bound\<close>

lemma zero_bits_from_iff:
  "d \<le> i \<Longrightarrow> d \<le> zero_bits_from i b \<longleftrightarrow> take_bit i (unat b) < 2 ^ (i - d)"
proof (induction i arbitrary: d)
  case 0
  then show ?case by simp
next
  case (Suc i)
  have bit: "b AND 2 ^ i = 0 \<longleftrightarrow> \<not> bit (unat b) i"
    by (simp add: and_exp_eq_0_iff_not_bit bit_unsigned_iff)
  have tb: "take_bit (Suc i) (unat b) = take_bit i (unat b) + (if bit (unat b) i then 2 ^ i else 0)"
    by (simp add: take_bit_Suc_from_most)
  show ?case
  proof (cases d)
    case 0
    then show ?thesis using take_bit_nat_less_exp [of "Suc i" "unat b"] by simp
  next
    case (Suc e)
    then have "e \<le> i" using Suc.prems by simp
    have "2 ^ (i - e) \<le> (2 :: nat) ^ i" by (rule power_increasing) simp_all
    then have "\<not> take_bit i (unat b) + 2 ^ i < 2 ^ (i - e)" by linarith
    with Suc.IH [OF \<open>e \<le> i\<close>] Suc show ?thesis by (auto simp: bit tb)
  qed
qed

lemma byte_zero_bits: "d \<le> 8 \<Longrightarrow> d \<le> zero_bits_from 8 b \<longleftrightarrow> unat b < 2 ^ (8 - d)"
proof -
  assume "d \<le> 8"
  moreover have "take_bit 8 (unat b) = unat b"
    using unat_byte_less [of b] by (simp add: take_bit_nat_eq_self)
  ultimately show ?thesis by (simp add: zero_bits_from_iff)
qed

lemma zero_bits_le: "zero_bits_from i b \<le> i"
  by (induction i) auto

lemma leading_byte_bound:
  fixes u v n e :: nat
  assumes "v < 2 ^ n"
  shows "u * 2 ^ n + v < 2 ^ (n + e) \<longleftrightarrow> u < 2 ^ e"
proof
  assume "u * 2 ^ n + v < 2 ^ (n + e)"
  then have "u * 2 ^ n < 2 ^ (n + e)" by linarith
  then have "2 ^ n * u < 2 ^ n * 2 ^ e" by (simp only: power_add mult.commute)
  then show "u < 2 ^ e" by simp
next
  assume "u < 2 ^ e"
  then have "(u + 1) * 2 ^ n \<le> 2 ^ e * 2 ^ n" by (intro mult_right_mono) simp_all
  with assms show "u * 2 ^ n + v < 2 ^ (n + e)" by (simp add: power_add mult.commute)
qed

lemma be_val_less_bits: "be_val h < 2 ^ (8 * length h)"
  using be_val_less [of h] by (simp add: power_mult)

lemma leadingZeroBits_iff:
  "d \<le> 8 * length h \<Longrightarrow> d \<le> leadingZeroBits h \<longleftrightarrow> be_val h < 2 ^ (8 * length h - d)"
proof (induction h arbitrary: d)
  case Nil
  then show ?case by simp
next
  case (Cons b h)
  let ?n = "8 * length h"
  have val: "be_val (b # h) = unat b * 2 ^ ?n + be_val h"
    by (simp add: be_val_Cons power_mult)
  have small: "be_val h < 2 ^ ?n" by (rule be_val_less_bits)
  show ?case
  proof (cases "d \<le> 8")
    case True
    then have e: "8 * length (b # h) - d = ?n + (8 - d)" by simp
    show ?thesis
      unfolding e val leading_byte_bound [OF small]
      using byte_zero_bits [OF True, of b] True by auto
  next
    case False
    then have e: "8 * length (b # h) - d = ?n - (d - 8)" and le: "d - 8 \<le> ?n"
      using Cons.prems by simp_all
    have "(2 :: nat) ^ (?n - (d - 8)) \<le> 2 ^ ?n" by (rule power_increasing) simp_all
    moreover have "b \<noteq> 0 \<Longrightarrow> 2 ^ ?n \<le> unat b * 2 ^ ?n" using unat_eq_0 [of b] by simp
    ultimately have "b \<noteq> 0 \<Longrightarrow> \<not> be_val (b # h) < 2 ^ (?n - (d - 8))" unfolding val by linarith
    with Cons.IH [OF le] False zero_bits_le [of 8 b] show ?thesis
      unfolding e by (cases "b = 0") (auto simp: be_val_Cons)
  qed
qed

section \<open>The nonce search\<close>

lemma nonce_search_cases:
  obtains (exhausted) "limit \<le> n" "nonce_search limit ctxErr good n = Inl NonceSpaceExhausted"
  | (cancelled) i e where "n < limit" "ctxErr i = Some e" "nonce_search limit ctxErr good n = Inl (CtxErr e)"
  | (found) "n < limit" "good n" "nonce_search limit ctxErr good n = Inr n"
  | (further) "n < limit" "\<not> good n"
      "nonce_search limit ctxErr good n = nonce_search limit ctxErr good (Suc n)"
proof (cases "if n mod 65536 = 0 then ctxErr (1 + n div 65536) else None")
  case None
  then have "n < limit \<Longrightarrow> nonce_search limit ctxErr good n =
      (if good n then Inr n else nonce_search limit ctxErr good (Suc n))"
    by (subst nonce_search.simps) simp
  moreover have "\<not> n < limit \<Longrightarrow> nonce_search limit ctxErr good n = Inl NonceSpaceExhausted"
    by (subst nonce_search.simps) simp
  ultimately show ?thesis
    by (cases "n < limit"; cases "good n") (use exhausted found further in auto)
next
  case (Some e)
  then have "n < limit \<Longrightarrow> nonce_search limit ctxErr good n = Inl (CtxErr e)"
    by (subst nonce_search.simps) simp
  moreover have "\<not> n < limit \<Longrightarrow> nonce_search limit ctxErr good n = Inl NonceSpaceExhausted"
    by (subst nonce_search.simps) simp
  moreover have "\<exists>i. ctxErr i = Some e" using Some by (auto split: if_splits)
  ultimately show ?thesis by (cases "n < limit") (use exhausted cancelled in auto)
qed

text \<open>What the loop returns, on each of its exits.\<close>

definition search_result :: "nat \<Rightarrow> (nat \<Rightarrow> string option) \<Rightarrow> (nat \<Rightarrow> bool) \<Rightarrow> nat \<Rightarrow> pow_error + nat \<Rightarrow> bool" where
  "search_result limit ctxErr good n r \<longleftrightarrow>
     (case r of
        Inr k \<Rightarrow> n \<le> k \<and> k < limit \<and> good k \<and> (\<forall>j. n \<le> j \<and> j < k \<longrightarrow> \<not> good j)
      | Inl e \<Rightarrow> (e = NonceSpaceExhausted \<and> (\<forall>j. n \<le> j \<and> j < limit \<longrightarrow> \<not> good j))
                 \<or> (\<exists>i s. ctxErr i = Some s \<and> e = CtxErr s))"

lemma search_result_further:
  "search_result limit ctxErr good (Suc n) r \<Longrightarrow> \<not> good n \<Longrightarrow> search_result limit ctxErr good n r"
proof -
  have "n \<le> j \<longleftrightarrow> j = n \<or> Suc n \<le> j" for j by auto
  then show "search_result limit ctxErr good (Suc n) r \<Longrightarrow> \<not> good n \<Longrightarrow> ?thesis"
    by (cases r) (auto simp: search_result_def)
qed

lemma nonce_search_spec: "search_result limit ctxErr good n (nonce_search limit ctxErr good n)"
proof (induction "limit - n" arbitrary: n)
  case 0
  show ?case
    by (rule nonce_search_cases [of limit n ctxErr good]) (use 0 in \<open>auto simp: search_result_def\<close>)
next
  case (Suc m)
  show ?case
  proof (rule nonce_search_cases [of limit n ctxErr good])
    assume "\<not> good n" "nonce_search limit ctxErr good n = nonce_search limit ctxErr good (Suc n)"
    moreover have "m = limit - Suc n" using Suc(2) by simp
    ultimately show ?thesis using Suc(1) search_result_further by metis
  qed (auto simp: search_result_def)
qed

text \<open>
  The bit count is the numeric test. A hash has at least \<open>d\<close> leading zero bits exactly when
  it is below \<open>2 ^ (n - d)\<close> as an \<open>n\<close>-bit big-endian number, which is how the DHT states the
  same requirement.
\<close>

theorem leadingZeroBits_numeric:
  assumes "d \<le> 8 * length h"
  shows "d \<le> leadingZeroBits h \<longleftrightarrow> be_val h < 2 ^ (8 * length h - d)"
  using assms by (rule leadingZeroBits_iff)

theorem leadingZeroBits_numeric_witness:
  "12 \<le> leadingZeroBits [0, 15, 255] \<and> \<not> be_val [0, 16, 0] < 2 ^ (8 * 3 - 12)"
  using leadingZeroBits_numeric [of 12 "[0, 15, 255]"] leadingZeroBits_numeric [of 12 "[0, 16, 0]"]
  by (simp add: be_val_def)

lemma nonce_good_iff_VerifyPoW:
  "nonce_good sha3 (workSeed argon2 c) (pcDifficulty c) n \<longleftrightarrow>
     (\<exists>sol. psNonce sol = be_bytes 8 n \<and> VerifyPoW sha3 argon2 c sol)"
proof
  assume "nonce_good sha3 (workSeed argon2 c) (pcDifficulty c) n"
  then have "VerifyPoW sha3 argon2 c
      \<lparr>psNonce = be_bytes 8 n, psHash = candidateHash sha3 (workSeed argon2 c) (be_bytes 8 n),
       psTime = 0, psDuration = 0\<rparr>"
    by (simp add: VerifyPoW_def nonce_good_def)
  then show "\<exists>sol. psNonce sol = be_bytes 8 n \<and> VerifyPoW sha3 argon2 c sol"
    by (metis pow_solution.select_convs(1))
qed (auto simp: VerifyPoW_def nonce_good_def Let_def split: if_splits)

text \<open>
  C36: \<open>SolvePoW\<close> is exact. A returned solution verifies and carries the least nonce any
  verifying solution has; an error is the difficulty guard, or a proof that no nonce below
  \<open>2 ^ 32\<close> verifies with any hash. The search always returns.
\<close>

theorem pow_solve_exact:
  "case SolvePoW sha3 argon2 start finish finish' c of
     Inr sol \<Rightarrow> VerifyPoW sha3 argon2 c sol \<and> psTime sol = finish
       \<and> (\<exists>k < 2 ^ 32. psNonce sol = be_bytes 8 k
            \<and> (\<forall>j < k. \<forall>s. psNonce s = be_bytes 8 j \<longrightarrow> \<not> VerifyPoW sha3 argon2 c s))
   | Inl e \<Rightarrow> (e = DifficultyAboveMaximum \<and> pcDifficulty c > MaxDifficulty)
       \<or> (e = NonceSpaceExhausted
          \<and> (\<forall>j < 2 ^ 32. \<forall>s. psNonce s = be_bytes 8 j \<longrightarrow> \<not> VerifyPoW sha3 argon2 c s))"
proof -
  let ?good = "nonce_good sha3 (workSeed argon2 c) (pcDifficulty c)"
  have "search_result powNonceSearchLimit (\<lambda>_. None) ?good 0
      (nonce_search powNonceSearchLimit (\<lambda>_. None) ?good 0)"
    by (rule nonce_search_spec)
  then show ?thesis
    by (auto simp: SolvePoW_def SolvePoWContext_def search_result_def powNonceSearchLimit_def
        Let_def nonce_good_iff_VerifyPoW split: sum.splits)
      (auto simp: VerifyPoW_def nonce_good_def Let_def split: if_splits)
qed

theorem pow_solve_exact_witness:
  "\<exists>sol. SolvePoW (\<lambda>_. replicate 32 0) (\<lambda>_ _ _ _ _. []) 5 7 9
       (GenerateChallenge 5 (replicate 16 1) 3 ''dht'') = Inr sol
     \<and> VerifyPoW (\<lambda>_. replicate 32 0) (\<lambda>_ _ _ _ _. []) (GenerateChallenge 5 (replicate 16 1) 3 ''dht'') sol"
proof -
  let ?sha = "\<lambda>_ :: bytes. replicate 32 (0 :: byte)" and ?arg = "\<lambda>_ _ _ _ _. [] :: bytes"
  let ?c = "GenerateChallenge 5 (replicate 16 1) 3 ''dht''"
  have "SolvePoW ?sha ?arg 5 7 9 ?c =
      Inr \<lparr>psNonce = replicate 8 0, psHash = replicate 32 0, psTime = 7, psDuration = 4\<rparr>"
    by code_simp
  with pow_solve_exact [of ?c ?sha ?arg 7 5 9] show ?thesis by simp
qed

section \<open>The difficulty stays in the configured range\<close>

definition adjuster_ok :: "difficulty_adjuster \<Rightarrow> bool" where
  "adjuster_ok a \<longleftrightarrow> cfgMinDifficulty (daConfig a) \<le> daDifficulty a
     \<and> daDifficulty a \<le> cfgMaxDifficulty (daConfig a) \<and> length (daHistory a) \<le> 100"

lemma round_between:
  fixes n :: real and a b :: nat
  assumes "a \<le> b"
  shows "let n1 = (if n < real a then real a else n); n2 = (if n1 > real b then real b else n1)
         in int a \<le> round n2 \<and> round n2 \<le> int b"
proof -
  have "int a \<le> round x \<and> round x \<le> int b" if "real a \<le> x" "x \<le> real b" for x
    using round_mono [OF that(1)] round_mono [OF that(2)] by simp
  moreover have "real a \<le> real b" using assms by simp
  ultimately show ?thesis by (auto simp: Let_def)
qed

lemma bound_diff_range:
  assumes "cfgMinDifficulty cfg \<le> cfgMaxDifficulty cfg"
  shows "cfgMinDifficulty cfg \<le> word_of_int (round (bound_diff cfg n))
       \<and> word_of_int (round (bound_diff cfg n)) \<le> cfgMaxDifficulty cfg"
proof -
  let ?r = "round (bound_diff cfg n)" and ?hi = "unat (cfgMaxDifficulty cfg)"
  have r: "int (unat (cfgMinDifficulty cfg)) \<le> ?r \<and> ?r \<le> int ?hi"
    using round_between [of "unat (cfgMinDifficulty cfg)" ?hi n] assms
    unfolding bound_diff_def Let_def by (simp only: word_le_nat_alt)
  moreover have "int ?hi < 2 ^ 8"
    using unsigned_less [of "cfgMaxDifficulty cfg", where 'a = int] by simp
  ultimately have "0 \<le> ?r" "?r < 2 ^ 8" by linarith+
  then have "uint (word_of_int ?r :: byte) = ?r"
    by (simp add: unsigned_of_int take_bit_int_eq_self)
  with r show ?thesis by (simp add: word_le_def)
qed

lemma RecordSolve_config [simp]: "daConfig (fst (RecordSolve fl log2 now stamp a d)) = daConfig a"
  by (simp add: RecordSolve_def Let_def)

lemma RecordSolve_history: "length (daHistory (fst (RecordSolve fl log2 now stamp a d))) \<le> 100"
  by (simp add: RecordSolve_def Let_def)

lemma RecordSolve_difficulty:
  "daDifficulty (fst (RecordSolve fl log2 now stamp a d)) = daDifficulty a \<or>
   (\<exists>n. daDifficulty (fst (RecordSolve fl log2 now stamp a d)) = word_of_int (round (bound_diff (daConfig a) n)))"
  unfolding RecordSolve_def Let_def by auto

interpretation adjuster: operations "\<lambda>a (fl, log2, now, stamp, d). fst (RecordSolve fl log2 now stamp a d)"
  "\<lambda>a. cfgMinDifficulty (daConfig a) \<le> cfgMaxDifficulty (daConfig a) \<and> adjuster_ok a"
proof
  fix a :: difficulty_adjuster and c :: "(real \<Rightarrow> real) \<times> (real \<Rightarrow> real) \<times> gotime \<times> gotime \<times> int64"
  assume a: "cfgMinDifficulty (daConfig a) \<le> cfgMaxDifficulty (daConfig a) \<and> adjuster_ok a"
  obtain fl log2 now stamp d where c: "c = (fl, log2, now, stamp, d)" by (cases c) auto
  let ?a = "fst (RecordSolve fl log2 now stamp a d)"
  have "cfgMinDifficulty (daConfig a) \<le> daDifficulty ?a \<and> daDifficulty ?a \<le> cfgMaxDifficulty (daConfig a)"
    using a RecordSolve_difficulty [of fl log2 now stamp a d]
    by (auto simp: adjuster_ok_def bound_diff_range)
  with a c show "cfgMinDifficulty (daConfig (case c of (fl, log2, now, stamp, d) \<Rightarrow> fst (RecordSolve fl log2 now stamp a d)))
      \<le> cfgMaxDifficulty (daConfig (case c of (fl, log2, now, stamp, d) \<Rightarrow> fst (RecordSolve fl log2 now stamp a d)))
      \<and> adjuster_ok (case c of (fl, log2, now, stamp, d) \<Rightarrow> fst (RecordSolve fl log2 now stamp a d))"
    by (simp add: adjuster_ok_def RecordSolve_history)
qed

text \<open>An adjuster and the solves recorded with it, each with its clock readings and rounding.\<close>

definition record_solves ::
  "pow_config \<Rightarrow> ((real \<Rightarrow> real) \<times> (real \<Rightarrow> real) \<times> gotime \<times> gotime \<times> int64) list \<Rightarrow> difficulty_adjuster" where
  "record_solves cfg solves =
     foldl (\<lambda>a (fl, log2, now, stamp, d). fst (RecordSolve fl log2 now stamp a d)) (NewDifficultyAdjuster cfg) solves"

lemma record_solves_config: "daConfig (record_solves cfg solves) = cfg"
  unfolding record_solves_def
proof (induction solves rule: rev_induct)
  case Nil
  then show ?case by (simp add: NewDifficultyAdjuster_def Let_def)
next
  case (snoc c cs)
  then show ?case by (cases c) simp
qed

lemma NewDifficultyAdjuster_ok:
  "cfgMinDifficulty cfg \<le> cfgMaxDifficulty cfg \<Longrightarrow> adjuster_ok (NewDifficultyAdjuster cfg)"
  by (auto simp: NewDifficultyAdjuster_def adjuster_ok_def Let_def)

text \<open>
  For a configuration with \<open>MinDifficulty\<close> at most \<open>MaxDifficulty\<close>, the difficulty an
  adjuster reports after any sequence of recorded solves lies in that range, whatever the
  rounding of floating point, the logarithm, the clock and the reported durations, and the
  history never holds more than 100 samples.
\<close>

theorem pow_difficulty_bounds:
  assumes "cfgMinDifficulty cfg \<le> cfgMaxDifficulty cfg"
  shows "cfgMinDifficulty cfg \<le> CurrentDifficulty (record_solves cfg solves)
       \<and> CurrentDifficulty (record_solves cfg solves) \<le> cfgMaxDifficulty cfg
       \<and> length (daHistory (record_solves cfg solves)) \<le> 100"
proof -
  have "adjuster_ok (record_solves cfg solves)"
    using adjuster.run_inv [of "NewDifficultyAdjuster cfg" solves] assms(1)
      NewDifficultyAdjuster_ok [OF assms(1)]
    unfolding record_solves_def by (simp add: NewDifficultyAdjuster_def Let_def)
  then show ?thesis by (simp add: adjuster_ok_def CurrentDifficulty_def record_solves_config)
qed

theorem pow_difficulty_bounds_witness:
  "cfgMinDifficulty DefaultPoWConfig \<le> cfgMaxDifficulty DefaultPoWConfig \<and>
   CurrentDifficulty (record_solves DefaultPoWConfig [(id, \<lambda>r. r, 10, 11, 50000000)]) \<le> 24"
proof -
  have le: "cfgMinDifficulty DefaultPoWConfig \<le> cfgMaxDifficulty DefaultPoWConfig"
    by (simp add: DefaultPoWConfig_def MinDifficulty_def MaxDifficulty_def)
  show ?thesis
    using pow_difficulty_bounds [OF le, of "[(id, \<lambda>r. r, 10, 11, 50000000)]"] le
    by (simp add: DefaultPoWConfig_def MaxDifficulty_def)
qed

section \<open>The replay cache\<close>

definition cache_ok :: "pow_validator \<Rightarrow> bool" where
  "cache_ok v \<longleftrightarrow> distinct (map fst (pvSeen v)) \<and> [] \<notin> fst ` set (pvSeen v) \<and> length (pvSeen v) \<le> 1024"

lemma oldest_key_min:
  assumes "[] \<notin> fst ` set m" "m \<noteq> []"
  shows "oldest_key ([], 0) m \<in> set m \<and> (\<forall>e\<in>set m. snd (oldest_key ([], 0) m) \<le> snd e)"
proof -
  have gen: "k \<noteq> [] \<Longrightarrow> [] \<notin> fst ` set m \<Longrightarrow>
      oldest_key (k, t) m \<in> insert (k, t) (set m)
      \<and> (\<forall>e\<in>insert (k, t) (set m). snd (oldest_key (k, t) m) \<le> snd e)" for k t
  proof (induction m arbitrary: k t)
    case (Cons e m)
    obtain k' t' where e: "e = (k', t')" by (cases e)
    with Cons.prems have "k' \<noteq> []" "[] \<notin> fst ` set m" by auto
    with Cons.IH [of k t] Cons.IH [of k' t'] Cons.prems(1) e show ?case by auto
  qed simp
  obtain k t m' where m: "m = (k, t) # m'" using assms(2) by (cases m) auto
  with gen [of k t] gen assms show ?thesis by (auto simp: image_iff)
qed

lemma length_del_key:
  assumes "distinct (map fst m)" "k \<in> fst ` set m"
  shows "Suc (length (del_key k m)) = length m"
proof -
  have same: "k \<notin> fst ` set m \<Longrightarrow> del_key k m = m" for m :: seen_map
    by (auto simp: del_key_def filter_id_conv)
  show ?thesis using assms
  proof (induction m)
    case (Cons e m)
    then show ?case by (cases "fst e = k") (use same [of m] in \<open>auto simp: del_key_def\<close>)
  qed simp
qed

lemma distinct_map_fst_filter: "distinct (map fst m) \<Longrightarrow> distinct (map fst (filter P m))"
  by (induction m) auto

lemma del_key_keeps:
  "distinct (map fst m) \<Longrightarrow> distinct (map fst (del_key k m))" "[] \<notin> fst ` set m \<Longrightarrow> [] \<notin> fst ` set (del_key k m)"
  by (auto simp: del_key_def distinct_map_fst_filter)

lemma evict_subset: "set (evict rng fuel m) \<subseteq> set m"
proof (induction rng fuel m rule: evict.induct)
  case (2 rng fuel m)
  show ?case
  proof (cases "length m > 1024 \<and> fst (oldest_key ([], 0) (rng m)) \<noteq> []")
    case True
    then have "set (evict rng (Suc fuel) m) \<subseteq> set (del_key (fst (oldest_key ([], 0) (rng m))) m)"
      using 2 by (simp add: Let_def)
    then show ?thesis by (auto simp: del_key_def)
  qed (auto simp: Let_def)
qed simp

lemma evict_distinct: "distinct (map fst m) \<Longrightarrow> distinct (map fst (evict rng fuel m))"
  by (induction rng fuel m rule: evict.induct) (simp_all add: Let_def del_key_def distinct_map_fst_filter)

lemma rng_oldest:
  assumes "\<And>m. mset (rng m) = mset m" "[] \<notin> fst ` set m" "m \<noteq> []"
  shows "oldest_key ([], 0) (rng m) \<in> set m \<and> (\<forall>e\<in>set m. snd (oldest_key ([], 0) (rng m)) \<le> snd e)"
proof -
  have "set (rng m) = set m" by (metis assms(1) mset_eq_setD)
  with oldest_key_min [of "rng m"] assms show ?thesis by (metis set_empty)
qed

lemma evict_bounded:
  assumes rng: "\<And>m. mset (rng m) = mset m"
  shows "distinct (map fst m) \<Longrightarrow> [] \<notin> fst ` set m \<Longrightarrow> length m \<le> fuel + 1024 \<Longrightarrow> length (evict rng fuel m) \<le> 1024"
proof (induction fuel arbitrary: m)
  case (Suc fuel)
  show ?case
  proof (cases "length m > 1024")
    case True
    let ?e = "oldest_key ([], 0) (rng m)"
    have e: "?e \<in> set m" using rng_oldest [OF rng Suc.prems(2)] True by (cases m) simp_all
    then have k: "fst ?e \<in> fst ` set m" "fst ?e \<noteq> []" using Suc.prems(2) by (auto simp: image_iff)
    have "length (evict rng fuel (del_key (fst ?e) m)) \<le> 1024"
      using Suc.prems length_del_key [OF Suc.prems(1) k(1)] by (intro Suc.IH del_key_keeps) simp_all
    with True k show ?thesis by (simp add: Let_def)
  qed simp
qed simp

lemma remember_ok:
  assumes rng: "\<And>m. mset (rng m) = mset m" and "cache_ok v" "key \<noteq> []"
  shows "cache_ok (v\<lparr>pvSeen := remember rng now key (pvSeen v)\<rparr>)"
proof -
  let ?m = "(key, now) # del_key key (pvSeen v)"
  let ?f = "filter (\<lambda>e. \<not> snd e < now - PowReplayWindow) ?m"
  have m: "distinct (map fst ?m)" "[] \<notin> fst ` set ?m"
    using assms(2,3) by (auto simp: cache_ok_def del_key_def distinct_map_fst_filter)
  then have f: "distinct (map fst ?f)" "[] \<notin> fst ` set ?f"
    using distinct_map_fst_filter [OF m(1)] by (blast, auto)
  have "length (evict rng (length ?f) ?f) \<le> 1024" by (rule evict_bounded [OF rng f]) simp
  moreover have "[] \<notin> fst ` set (evict rng (length ?f) ?f)" using evict_subset f(2) by blast
  ultimately show ?thesis
    using m evict_distinct [OF f(1)] by (auto simp: cache_ok_def remember_def Let_def simp del: filter.simps)
qed

interpretation validator: operations
  "\<lambda>v (record_solve, now, c, sol). snd (Validate sha3 argon2 record_solve rng now v c sol)"
  "\<lambda>v. (\<forall>x. sha3 x \<noteq> []) \<longrightarrow> (\<forall>m. mset (rng m) = mset m) \<longrightarrow> cache_ok v"
  for sha3 argon2 rng
proof
  fix v and c :: "(difficulty_adjuster \<Rightarrow> int64 \<Rightarrow> difficulty_adjuster \<times> byte) \<times> gotime \<times> pow_challenge \<times> pow_solution"
  assume inv: "(\<forall>x. sha3 x \<noteq> []) \<longrightarrow> (\<forall>m. mset (rng m) = mset m) \<longrightarrow> cache_ok v"
  obtain rs now ch sol where c: "c = (rs, now, ch, sol)" by (cases c) auto
  have "cache_ok (snd (Validate sha3 argon2 rs rng now v ch sol))"
    if "\<forall>x. sha3 x \<noteq> []" "\<forall>m. mset (rng m) = mset m"
    using inv that remember_ok [of rng v "bytes_str (sha3 (MarshalChallenge ch))" now]
    by (simp add: Validate_def Let_def cache_ok_def bytes_str_def)
  with c show "(\<forall>x. sha3 x \<noteq> []) \<longrightarrow> (\<forall>m. mset (rng m) = mset m) \<longrightarrow>
      cache_ok (case c of (rs, now, ch, sol) \<Rightarrow> snd (Validate sha3 argon2 rs rng now v ch sol))"
    by simp
qed

text \<open>
  The replay cache of a validator never holds more than 1024 digests, after any sequence of
  validations and whatever order the map iterates in; digests are the output of a hash that is
  never empty.
\<close>

theorem pow_cache_bounded:
  assumes "\<And>x. sha3 x \<noteq> []" "\<And>m. mset (rng m) = mset m"
  shows "length (pvSeen (foldl (\<lambda>v (record_solve, now, c, sol). snd (Validate sha3 argon2 record_solve rng now v c sol))
            (NewPoWValidator a) calls)) \<le> 1024"
  using validator.run_inv [of sha3 rng "NewPoWValidator a" argon2 calls] assms
  by (simp add: cache_ok_def NewPoWValidator_def)

lemma evict_keeps_newest:
  assumes rng: "\<And>m. mset (rng m) = mset m"
  shows "distinct (map fst m) \<Longrightarrow> [] \<notin> fst ` set m \<Longrightarrow> (key, now) \<in> set m \<Longrightarrow> \<forall>e\<in>set m. fst e \<noteq> key \<longrightarrow> snd e < now
    \<Longrightarrow> (key, now) \<in> set (evict rng fuel m)"
proof (induction fuel arbitrary: m)
  case (Suc fuel)
  show ?case
  proof (cases "length m > 1024")
    case True
    let ?e = "oldest_key ([], 0) (rng m)"
    have e: "?e \<in> set m" "\<forall>x\<in>set m. snd ?e \<le> snd x"
      using rng_oldest [OF rng Suc.prems(2)] True by (cases m, simp_all)+
    obtain x where x: "x \<in> set m" "fst x \<noteq> key"
    proof (rule ccontr)
      assume "\<not> thesis"
      with that have "fst ` set m \<subseteq> {key}" by auto
      then have "card (fst ` set m) \<le> 1" by (metis card.empty card_insert_disjoint card_mono empty_iff finite.emptyI finite_insert One_nat_def)
      then show False using Suc.prems(1) True distinct_card [of "map fst m"] by simp
    qed
    have "fst ?e \<noteq> key"
    proof
      assume "fst ?e = key"
      then have "map_of m key = Some (snd ?e)" using e(1) Suc.prems(1) by (metis map_of_eq_Some_iff prod.collapse)
      then have "snd ?e = now" using Suc.prems(1,3) by simp
      then show False using e(2) x Suc.prems(4) by force
    qed
    then have "(key, now) \<in> set (evict rng fuel (del_key (fst ?e) m))"
      using Suc.prems by (intro Suc.IH del_key_keeps) (auto simp: del_key_def)
    with True Suc.prems show ?thesis by (simp add: Let_def)
  qed (use Suc.prems in simp)
qed simp

lemma remember_lookup:
  assumes rng: "\<And>m. mset (rng m) = mset m" and ok: "cache_ok v" and "key \<noteq> []"
    and old: "\<forall>e\<in>set (pvSeen v). snd e < now"
  shows "map_of (remember rng now key (pvSeen v)) key = Some now"
proof -
  let ?m = "(key, now) # del_key key (pvSeen v)"
  let ?f = "filter (\<lambda>e. \<not> snd e < now - PowReplayWindow) ?m"
  have m: "distinct (map fst ?m)" "[] \<notin> fst ` set ?m"
    using assms(2,3) by (auto simp: cache_ok_def del_key_def distinct_map_fst_filter)
  have "(key, now) \<in> set (evict rng (length ?f) ?f)"
  proof (rule evict_keeps_newest [OF rng])
    show "distinct (map fst ?f)" by (rule distinct_map_fst_filter [OF m(1)])
  qed (use m(2) old in \<open>auto simp: del_key_def PowReplayWindow_def\<close>)
  moreover have "distinct (map fst (evict rng (length ?f) ?f))"
    by (rule evict_distinct [OF distinct_map_fst_filter [OF m(1)]])
  ultimately show ?thesis by (simp add: remember_def Let_def del: filter.simps)
qed

text \<open>
  A challenge is accepted at most once per replay window. After a validation is accepted at
  \<open>now\<close> by a validator whose cached digests are all older, every further validation of the same
  challenge before \<open>now + PowReplayWindow\<close> is refused, with any solution, and leaves the
  validator as it was.
\<close>

theorem pow_replay_rejected:
  assumes "\<And>x. sha3 x \<noteq> []" "\<And>m. mset (rng m) = mset m" "cache_ok v"
    and "\<forall>e\<in>set (pvSeen v). snd e < now"
    and "Validate sha3 argon2 record_solve rng now v c sol = (None, v')"
    and "t < now + PowReplayWindow"
  shows "fst (Validate sha3 argon2 record_solve' rng t v' c sol') \<noteq> None
       \<and> snd (Validate sha3 argon2 record_solve' rng t v' c sol') = v'"
proof -
  let ?key = "bytes_str (sha3 (MarshalChallenge c))"
  have "?key \<noteq> []" using assms(1) by (simp add: bytes_str_def)
  then have "map_of (remember rng now ?key (pvSeen v)) ?key = Some now"
    using assms(2-4) by (intro remember_lookup) auto
  moreover have "pvSeen v' = remember rng now ?key (pvSeen v)"
    using assms(5) by (auto simp: Validate_def Let_def split: if_splits)
  ultimately have "map_of (pvSeen v') ?key = Some now" by simp
  moreover have "time_sub t now < PowReplayWindow"
    using assms(6) by (simp add: time_sub_less_iff PowReplayWindow_def)
  ultimately show ?thesis by (simp add: Validate_def Let_def)
qed

definition demo_challenge :: pow_challenge where
  "demo_challenge = GenerateChallenge 1000 (replicate 16 7) 8 ''dht''"

definition demo_solution :: pow_solution where
  "demo_solution = \<lparr>psNonce = replicate 8 0, psHash = replicate 32 0, psTime = 1000, psDuration = 5\<rparr>"

definition demo_validator :: pow_validator where
  "demo_validator = NewPoWValidator (NewDifficultyAdjuster DefaultPoWConfig)"

lemma demo_accepted:
  "Validate (\<lambda>_. replicate 32 0) (\<lambda>_ _ _ _ _. []) (\<lambda>a d. (a, 0)) (\<lambda>m. m) 2000
     demo_validator demo_challenge demo_solution
   = (None, demo_validator\<lparr>pvSeen := [(bytes_str (replicate 32 0), 2000)]\<rparr>)"
proof -
  have "VerifyPoWWithTime (\<lambda>_. replicate 32 0) (\<lambda>_ _ _ _ _. []) demo_challenge demo_solution 2000"
    by code_simp
  then show ?thesis
    by (simp add: Validate_def demo_validator_def NewPoWValidator_def remember_def del_key_def Let_def)
qed

theorem pow_replay_rejected_witness:
  "fst (Validate (\<lambda>_. replicate 32 0) (\<lambda>_ _ _ _ _. []) (\<lambda>a d. (a, 0)) (\<lambda>m. m) 3000
     (demo_validator\<lparr>pvSeen := [(bytes_str (replicate 32 0), 2000)]\<rparr>) demo_challenge demo_solution) \<noteq> None"
  using pow_replay_rejected [OF _ _ _ _ demo_accepted, of 3000 "\<lambda>a d. (a, 0)" demo_solution]
  by (simp add: cache_ok_def demo_validator_def NewPoWValidator_def PowReplayWindow_def)

theorem pow_cache_bounded_witness:
  "length (pvSeen (snd (Validate (\<lambda>_. replicate 32 0) (\<lambda>_ _ _ _ _. []) (\<lambda>a d. (a, 0)) (\<lambda>m. m) 2000
     demo_validator demo_challenge demo_solution))) \<le> 1024"
  using pow_cache_bounded [of "\<lambda>_. replicate 32 0" "\<lambda>m. m" "\<lambda>_ _ _ _ _. []"
      "NewDifficultyAdjuster DefaultPoWConfig" "[(\<lambda>a d. (a, 0), 2000, demo_challenge, demo_solution)]"]
  by (simp add: demo_validator_def)

text \<open>
  The validator takes the difficulty from the challenge, which the peer sends, and never
  compares it with the adjuster's or with \<open>MinDifficulty\<close>: a fresh unseen challenge of difficulty
  zero is accepted with any nonce, so no work is needed.
\<close>

theorem pow_zero_difficulty_accepted:
  assumes "pcDifficulty c = 0" "pcTimestamp c = now"
    and "map_of (pvSeen v) (bytes_str (sha3 (MarshalChallenge c))) = None"
  shows "\<exists>v'. Validate sha3 argon2 record_solve rng now v c
           \<lparr>psNonce = nonce, psHash = candidateHash sha3 (workSeed argon2 c) nonce, psTime = t, psDuration = d\<rparr>
         = (None, v')"
  using assms by (simp add: Validate_def VerifyPoWWithTime_def VerifyPoW_def Let_def time_sub_def
      PowReplayWindow_def)

theorem pow_zero_difficulty_accepted_witness:
  "\<exists>v'. Validate (\<lambda>_. replicate 32 255) (\<lambda>_ _ _ _ _. []) (\<lambda>a d. (a, 0)) (\<lambda>m. m) 1000 demo_validator
       (demo_challenge\<lparr>pcDifficulty := 0\<rparr>)
       \<lparr>psNonce = replicate 8 1,
        psHash = candidateHash (\<lambda>_. replicate 32 255) (workSeed (\<lambda>_ _ _ _ _. []) (demo_challenge\<lparr>pcDifficulty := 0\<rparr>))
                   (replicate 8 1), psTime = 0, psDuration = 0\<rparr> = (None, v')"
  by (rule pow_zero_difficulty_accepted)
    (simp_all add: demo_challenge_def demo_validator_def NewPoWValidator_def GenerateChallenge_def Let_def)

section \<open>The cost a challenge can demand\<close>

text \<open>
  Whatever cost a peer's challenge asks for, the parameters given to Argon2id are within
  the caps and valid for it: at least one pass and one lane, at most 4 of each, and between 8
  blocks per lane and 64 MiB of memory.
\<close>

theorem pow_clamp_bounds:
  "case clamp c of (memory, timeCost, parallelism) \<Rightarrow>
     8 * unat parallelism \<le> unat memory \<and> unat memory \<le> 65536 \<and> 1 \<le> unat timeCost \<and> unat timeCost \<le> 4
     \<and> 1 \<le> unat parallelism \<and> unat parallelism \<le> 4"
proof -
  have cast: "unat (8 * ucast p :: u32) = 8 * unat p" for p :: byte
  proof -
    have "8 * unat p < 2 ^ 32" using unat_byte_less [of p] by simp
    then show ?thesis by (simp add: unat_word_ariths unsigned_ucast_eq take_bit_nat_eq_self)
  qed
  have "pcTimeCost c \<noteq> 0 \<Longrightarrow> 1 \<le> unat (pcTimeCost c)" "pcParallelism c \<noteq> 0 \<Longrightarrow> 1 \<le> unat (pcParallelism c)"
    by (simp_all add: Suc_le_eq unat_gt_0)
  then show ?thesis
    by (auto simp: clamp_def Let_def MaxPoWMemoryKiB_def MaxPoWTimeCost_def MaxPoWParallelism_def
        word_le_nat_alt word_less_nat_alt cast)
qed

end
