(* ===== verification/Sec_Capability.thy ===== *)
theory Sec_Capability
  imports Go_Format "HOL-Library.Multiset"
begin

text \<open>
  Capability tokens and their manager, \<open>pkg/security/capability.go\<close>, with the Ed25519 wrappers of
  \<open>pkg/crypto/crypto.go\<close> they call. Ed25519 itself is a parameter: \<open>new_key\<close> is
  \<open>ed25519.NewKeyFromSeed\<close> (seed and public half), \<open>ed_sign\<close> and \<open>ed_verify\<close> are \<open>ed25519.Sign\<close> and
  \<open>ed25519.Verify\<close>. Clock readings and the answer of \<open>rand.Read\<close> are arguments. The maps
  \<open>tokens\<close>, \<open>revoked\<close> and \<open>services\<close> are functions, a missing key giving Go's zero value.
\<close>

section \<open>Signatures\<close>

definition computePubFromSeed :: "(bytes \<Rightarrow> bytes) \<Rightarrow> bytes \<Rightarrow> bytes" where
  "computePubFromSeed new_key seed = drop 32 (new_key seed)"

definition crypto_Sign :: "(bytes \<Rightarrow> bytes) \<Rightarrow> (bytes \<Rightarrow> bytes \<Rightarrow> bytes) \<Rightarrow> bytes \<Rightarrow> bytes \<Rightarrow> bytes" where
  "crypto_Sign new_key ed_sign priv msg = ed_sign (priv @ computePubFromSeed new_key priv) msg"

definition crypto_Verify :: "(bytes \<Rightarrow> bytes \<Rightarrow> bytes \<Rightarrow> bool) \<Rightarrow> bytes \<Rightarrow> bytes \<Rightarrow> bytes \<Rightarrow> bool" where
  "crypto_Verify ed_verify pub msg sig = ed_verify pub msg sig"

section \<open>Tokens\<close>

record capability_token =
  ctPeerID :: bytes
  ctServices :: "string list"
  ctIssuedAt :: gotime
  ctExpiresAt :: gotime
  ctNonce :: bytes
  ctSignature :: bytes

datatype cap_error = InvalidSignatureLength | ZeroPeerID | SignatureVerificationFailed | TokenExpired
  | NoServices | ServiceNotRegistered string | RandFailed string | NilToken

text \<open>\<open>Time.Unix\<close>: whole seconds since 1970, rounded down.\<close>

definition unixSec :: "gotime \<Rightarrow> int" where
  "unixSec t = t div 1000000000 - 62135596800"

definition CanonicalForm :: "capability_token \<Rightarrow> bytes" where
  "CanonicalForm t =
     json_object [(''PeerID'', json_byte_array (ctPeerID t)), (''Services'', json_strings (ctServices t)),
       (''IssuedAt'', json_int (unixSec (ctIssuedAt t))), (''ExpiresAt'', json_int (unixSec (ctExpiresAt t))),
       (''Nonce'', json_byte_array (ctNonce t))]"

definition Token_Sign ::
  "(bytes \<Rightarrow> bytes) \<Rightarrow> (bytes \<Rightarrow> bytes \<Rightarrow> bytes) \<Rightarrow> bytes \<Rightarrow> capability_token \<Rightarrow> capability_token" where
  "Token_Sign new_key ed_sign priv t = t\<lparr>ctSignature := crypto_Sign new_key ed_sign priv (CanonicalForm t)\<rparr>"

definition Token_Verify ::
  "(bytes \<Rightarrow> bytes \<Rightarrow> bytes \<Rightarrow> bool) \<Rightarrow> gotime \<Rightarrow> bytes \<Rightarrow> capability_token \<Rightarrow> cap_error option" where
  "Token_Verify ed_verify now issuerPub t =
     (if length (ctSignature t) \<noteq> 64 then Some InvalidSignatureLength
      else if ctPeerID t = replicate 32 0 then Some ZeroPeerID
      else if \<not> crypto_Verify ed_verify issuerPub (CanonicalForm t) (ctSignature t)
      then Some SignatureVerificationFailed
      else if ctExpiresAt t \<noteq> 0 \<and> now > ctExpiresAt t then Some TokenExpired
      else None)"

section \<open>The manager\<close>

record cap_manager =
  cmPrivKey :: bytes
  cmPubKey :: bytes
  cmTokens :: "bytes \<Rightarrow> capability_token list"
  cmRevoked :: "bytes \<Rightarrow> bool"
  cmServices :: "string \<Rightarrow> bool"

definition NewCapabilityManager :: "bytes \<Rightarrow> bytes \<Rightarrow> cap_manager" where
  "NewCapabilityManager pub priv =
     \<lparr>cmPrivKey = priv, cmPubKey = pub, cmTokens = (\<lambda>_. []), cmRevoked = (\<lambda>_. False),
      cmServices = (\<lambda>_. False)\<rparr>"

definition RegisterService :: "string \<Rightarrow> cap_manager \<Rightarrow> cap_manager" where
  "RegisterService svc m = m\<lparr>cmServices := (cmServices m)(svc := True)\<rparr>"

fun unregistered :: "cap_manager \<Rightarrow> string list \<Rightarrow> string option" where
  "unregistered m [] = None"
| "unregistered m (svc # svcs) = (if cmServices m svc then unregistered m svcs else Some svc)"

definition GrantCapability ::
  "(bytes \<Rightarrow> bytes) \<Rightarrow> (bytes \<Rightarrow> bytes \<Rightarrow> bytes) \<Rightarrow> (string + bytes) \<Rightarrow> gotime \<Rightarrow> bytes \<Rightarrow> string list \<Rightarrow> duration
     \<Rightarrow> cap_manager \<Rightarrow> (cap_error + capability_token) \<times> cap_manager" where
  "GrantCapability new_key ed_sign rand now peerID services ttl m =
     (if services = [] then (Inl NoServices, m)
      else case unregistered m services of
        Some svc \<Rightarrow> (Inl (ServiceNotRegistered svc), m)
      | None \<Rightarrow>
          (case rand of
             Inl e \<Rightarrow> (Inl (RandFailed e), m)
           | Inr nonce \<Rightarrow>
               let expiry = (if ttl \<le> 0 then 0 else now + ttl);
                   tok = Token_Sign new_key ed_sign (cmPrivKey m)
                     \<lparr>ctPeerID = peerID, ctServices = services, ctIssuedAt = now, ctExpiresAt = expiry,
                      ctNonce = nonce, ctSignature = []\<rparr>
               in (Inr tok, m\<lparr>cmTokens := (cmTokens m)(peerID := cmTokens m peerID @ [tok])\<rparr>)))"

definition RevokeCapability :: "bytes \<Rightarrow> cap_manager \<Rightarrow> cap_manager" where
  "RevokeCapability peerID m =
     m\<lparr>cmRevoked := (cmRevoked m)(peerID := True), cmTokens := (cmTokens m)(peerID := [])\<rparr>"

definition expired :: "gotime \<Rightarrow> capability_token \<Rightarrow> bool" where
  "expired now tok \<longleftrightarrow> ctExpiresAt tok \<noteq> 0 \<and> now > ctExpiresAt tok"

fun scan_tokens :: "gotime \<Rightarrow> string \<Rightarrow> capability_token list \<Rightarrow> bool" where
  "scan_tokens now svc [] = False"
| "scan_tokens now svc (tok # toks) =
     (if expired now tok then scan_tokens now svc toks
      else if svc \<in> set (ctServices tok) then True
      else scan_tokens now svc toks)"

definition CheckAccess :: "gotime \<Rightarrow> cap_manager \<Rightarrow> bytes \<Rightarrow> string \<Rightarrow> bool" where
  "CheckAccess now m peerID svc =
     (if cmRevoked m peerID then False else scan_tokens now svc (cmTokens m peerID))"

definition VerifyToken ::
  "(bytes \<Rightarrow> bytes \<Rightarrow> bytes \<Rightarrow> bool) \<Rightarrow> gotime \<Rightarrow> cap_manager \<Rightarrow> capability_token option \<Rightarrow> cap_error option" where
  "VerifyToken ed_verify now m tok =
     (case tok of None \<Rightarrow> Some NilToken | Some t \<Rightarrow> Token_Verify ed_verify now (cmPubKey m) t)"

definition PeerTokens :: "gotime \<Rightarrow> cap_manager \<Rightarrow> bytes \<Rightarrow> capability_token list" where
  "PeerTokens now m peerID = filter (\<lambda>t. \<not> expired now t) (cmTokens m peerID)"

definition PublicKey :: "cap_manager \<Rightarrow> bytes" where
  "PublicKey m = cmPubKey m"

definition formatPeerID :: "bytes \<Rightarrow> string" where
  "formatPeerID pid = hex_encode (take 8 pid)"

text \<open>\<open>ServiceIDsEqual\<close>: the counts of the first slice, then one decrement per element of the second.\<close>

fun count_down :: "(string \<Rightarrow> int) \<Rightarrow> string list \<Rightarrow> bool" where
  "count_down counts [] = True"
| "count_down counts (s # ss) =
     (if counts s = 0 then False else count_down (counts(s := counts s - 1)) ss)"

definition ServiceIDsEqual :: "string list \<Rightarrow> string list \<Rightarrow> bool" where
  "ServiceIDsEqual a b =
     (if length a \<noteq> length b then False
      else count_down (foldl (\<lambda>c s. c(s := c s + 1)) (\<lambda>_. 0) a) b)"

section \<open>Service lists\<close>

lemma counts_foldl: "foldl (\<lambda>c s. c(s := c s + 1)) c a = (\<lambda>x. c x + int (count (mset a) x))"
  by (induction a arbitrary: c) (auto simp: fun_eq_iff)

lemma count_down_iff: "count_down (\<lambda>x. int (count M x)) b \<longleftrightarrow> mset b \<subseteq># M"
proof (induction b arbitrary: M)
  case (Cons s b)
  show ?case
  proof (cases "s \<in># M")
    case True
    then have "(\<lambda>x. int (count M x))(s := int (count M s) - 1) = (\<lambda>x. int (count (M - {#s#}) x))"
      by (auto simp: fun_eq_iff)
    moreover have "count M s \<noteq> 0" using True by simp
    ultimately have "count_down (\<lambda>x. int (count M x)) (s # b) \<longleftrightarrow> count_down (\<lambda>x. int (count (M - {#s#}) x)) b"
      by (simp del: count_diff add: not_in_iff [symmetric])
    with True Cons.IH [of "M - {#s#}"] show ?thesis by (simp add: insert_subset_eq_iff)
  next
    case False
    then show ?thesis by (simp add: not_in_iff insert_subset_eq_iff)
  qed
qed simp

text \<open>
  \<open>ServiceIDsEqual\<close> decides equality up to order, multiplicities included.
\<close>

theorem serviceIDsEqual_multiset: "ServiceIDsEqual a b \<longleftrightarrow> mset a = mset b"
proof -
  have "mset b \<subseteq># mset a \<Longrightarrow> length a = length b \<Longrightarrow> mset a = mset b"
    by (metis mset_subset_size nat_less_le size_mset subset_mset.le_neq_trans)
  moreover have "mset a = mset b \<Longrightarrow> length a = length b" by (metis size_mset)
  ultimately show ?thesis
    using count_down_iff [of "mset a" b] by (auto simp: ServiceIDsEqual_def counts_foldl)
qed

section \<open>Access over a history of calls\<close>

datatype cap_call =
    CallRegister string
  | CallGrant bytes "string list" duration gotime "string + bytes"
  | CallRevoke bytes

fun cap_step :: "(bytes \<Rightarrow> bytes) \<Rightarrow> (bytes \<Rightarrow> bytes \<Rightarrow> bytes) \<Rightarrow> cap_manager \<Rightarrow> cap_call \<Rightarrow> cap_manager" where
  "cap_step new_key ed_sign m (CallRegister svc) = RegisterService svc m"
| "cap_step new_key ed_sign m (CallGrant p svcs ttl now rand) =
     snd (GrantCapability new_key ed_sign rand now p svcs ttl m)"
| "cap_step new_key ed_sign m (CallRevoke p) = RevokeCapability p m"

text \<open>The specification: the history holds an unexpired grant of the service, made when all the
  services it lists were registered.\<close>

definition grant_in_history :: "cap_call list \<Rightarrow> bytes \<Rightarrow> string \<Rightarrow> gotime \<Rightarrow> bool" where
  "grant_in_history cs p svc now \<longleftrightarrow>
     (\<exists>pre svcs ttl t nonce post. cs = pre @ CallGrant p svcs ttl t (Inr nonce) # post \<and> svc \<in> set svcs
        \<and> CallRegister ` set svcs \<subseteq> set pre \<and> (ttl \<le> 0 \<or> t + ttl = 0 \<or> now \<le> t + ttl))"

lemma unregistered_None: "unregistered m svcs = None \<longleftrightarrow> (\<forall>s\<in>set svcs. cmServices m s)"
  by (induction svcs) auto

lemma scan_tokens_iff: "scan_tokens now svc toks \<longleftrightarrow> (\<exists>t\<in>set toks. \<not> expired now t \<and> svc \<in> set (ctServices t))"
  by (induction toks) auto

lemma snoc_split: "cs @ [c] = pre @ x # post \<longleftrightarrow> (post = [] \<and> pre = cs \<and> x = c) \<or> (\<exists>post'. post = post' @ [c] \<and> cs = pre @ x # post')"
  by (cases post rule: rev_cases) auto

lemma grant_snoc:
  "grant_in_history (cs @ [c]) p svc now \<longleftrightarrow> grant_in_history cs p svc now \<or>
     (\<exists>svcs ttl t nonce. c = CallGrant p svcs ttl t (Inr nonce) \<and> svc \<in> set svcs
        \<and> CallRegister ` set svcs \<subseteq> set cs \<and> (ttl \<le> 0 \<or> t + ttl = 0 \<or> now \<le> t + ttl))"
  unfolding grant_in_history_def snoc_split by blast

lemma GrantCapability_effect:
  "snd (GrantCapability new_key ed_sign rand now p svcs ttl m) =
     (case rand of Inr nonce \<Rightarrow>
        if svcs \<noteq> [] \<and> (\<forall>s\<in>set svcs. cmServices m s)
        then m\<lparr>cmTokens := (cmTokens m)(p := cmTokens m p @ [Token_Sign new_key ed_sign (cmPrivKey m)
               \<lparr>ctPeerID = p, ctServices = svcs, ctIssuedAt = now,
                ctExpiresAt = (if ttl \<le> 0 then 0 else now + ttl), ctNonce = nonce, ctSignature = []\<rparr>])\<rparr>
        else m
      | Inl _ \<Rightarrow> m)"
  by (auto simp: GrantCapability_def unregistered_None [symmetric] Let_def split: option.splits sum.splits)

lemma Token_Sign_fields [simp]:
  "ctServices (Token_Sign nk es k t) = ctServices t" "ctExpiresAt (Token_Sign nk es k t) = ctExpiresAt t"
  "ctPeerID (Token_Sign nk es k t) = ctPeerID t"
  by (simp_all add: Token_Sign_def)

lemma run_services: "cmServices (foldl (cap_step nk es) (NewCapabilityManager pub priv) cs) s \<longleftrightarrow> CallRegister s \<in> set cs"
proof (induction cs rule: rev_induct)
  case (snoc c cs)
  then show ?case
    by (cases c) (auto simp: RegisterService_def RevokeCapability_def GrantCapability_effect split: sum.splits)
qed (simp add: NewCapabilityManager_def)

lemma run_revoked: "cmRevoked (foldl (cap_step nk es) (NewCapabilityManager pub priv) cs) p \<longleftrightarrow> CallRevoke p \<in> set cs"
proof (induction cs rule: rev_induct)
  case (snoc c cs)
  then show ?case
    by (cases c) (auto simp: RegisterService_def RevokeCapability_def GrantCapability_effect split: sum.splits)
qed (simp add: NewCapabilityManager_def)

lemma run_tokens:
  "CallRevoke p \<notin> set cs \<Longrightarrow>
   scan_tokens now svc (cmTokens (foldl (cap_step nk es) (NewCapabilityManager pub priv) cs) p)
     \<longleftrightarrow> grant_in_history cs p svc now"
proof (induction cs rule: rev_induct)
  case Nil
  then show ?case by (simp add: NewCapabilityManager_def grant_in_history_def)
next
  case (snoc c cs)
  let ?m = "foldl (cap_step nk es) (NewCapabilityManager pub priv) cs"
  note serv = run_services [of nk es pub priv cs]
  show ?case
  proof (cases c)
    case (CallGrant q svcs ttl t rand)
    with snoc serv show ?thesis
      by (cases rand) (auto simp: grant_snoc GrantCapability_effect scan_tokens_iff expired_def image_subset_iff)
  qed (use snoc in \<open>auto simp: grant_snoc RegisterService_def RevokeCapability_def\<close>)
qed

text \<open>
  C35: access is exactly what the history of calls grants. After any sequence of registrations,
  grants (failed ones included) and revocations, \<open>CheckAccess\<close> answers true for a peer and a
  service iff the peer was never revoked and some unexpired grant listed the service at a time
  when every service it listed was registered.
\<close>

theorem cap_access_exact:
  "CheckAccess now (foldl (cap_step new_key ed_sign) (NewCapabilityManager pub priv) cs) p svc \<longleftrightarrow>
     CallRevoke p \<notin> set cs \<and> grant_in_history cs p svc now"
  using run_tokens [of p cs now svc new_key ed_sign pub priv]
  by (auto simp: CheckAccess_def run_revoked)

section \<open>Issued tokens verify\<close>

text \<open>
  What the sources rely on from \<open>crypto/ed25519\<close>: signatures have 64 bytes, and a signature made
  with an expanded private key verifies under its public half.
\<close>

definition ed25519_correct ::
  "(bytes \<Rightarrow> bytes) \<Rightarrow> (bytes \<Rightarrow> bytes \<Rightarrow> bytes) \<Rightarrow> (bytes \<Rightarrow> bytes \<Rightarrow> bytes \<Rightarrow> bool) \<Rightarrow> bool" where
  "ed25519_correct new_key ed_sign ed_verify \<longleftrightarrow>
     (\<forall>k m. length (ed_sign k m) = 64) \<and>
     (\<forall>seed m. ed_verify (drop 32 (new_key seed)) m (ed_sign (seed @ drop 32 (new_key seed)) m))"

lemma granted_verifies:
  assumes "ed25519_correct new_key ed_sign ed_verify"
    and "cmPubKey m = computePubFromSeed new_key (cmPrivKey m)"
    and "GrantCapability new_key ed_sign rand t p svcs ttl m = (Inr tok, m')"
    and "p \<noteq> replicate 32 0" "now \<le> t + ttl \<or> ttl \<le> 0"
  shows "VerifyToken ed_verify now m' (Some tok) = None"
  using assms
  by (auto simp: GrantCapability_def VerifyToken_def Token_Verify_def Token_Sign_def crypto_Sign_def
      crypto_Verify_def computePubFromSeed_def ed25519_correct_def CanonicalForm_def Let_def
      split: if_splits option.splits sum.splits)

text \<open>
  A token issued by a manager whose public key belongs to its private key verifies under that
  manager until it expires, for every peer other than the zero ID.
\<close>

theorem cap_granted_token_verifies:
  assumes "ed25519_correct new_key ed_sign ed_verify"
    and "cmPubKey m = computePubFromSeed new_key (cmPrivKey m)"
    and "GrantCapability new_key ed_sign rand t p svcs ttl m = (Inr tok, m')"
    and "p \<noteq> replicate 32 0" "now \<le> t + ttl \<or> ttl \<le> 0"
  shows "VerifyToken ed_verify now m' (Some tok) = None"
  using assms by (rule granted_verifies)

text \<open>A stand-in for Ed25519 that satisfies \<open>ed25519_correct\<close>: the key is its own public half and
  a signature is accepted when it was made for the message.\<close>

definition toy_new_key :: "bytes \<Rightarrow> bytes" where "toy_new_key seed = replicate 32 0 @ seed"
definition toy_sign :: "bytes \<Rightarrow> bytes \<Rightarrow> bytes" where "toy_sign k m = take 64 (m @ replicate 64 0)"
definition toy_verify :: "bytes \<Rightarrow> bytes \<Rightarrow> bytes \<Rightarrow> bool" where "toy_verify pub m sig \<longleftrightarrow> sig = toy_sign pub m"

lemma toy_ed25519: "ed25519_correct toy_new_key toy_sign toy_verify"
  by (auto simp: ed25519_correct_def toy_sign_def toy_verify_def)

definition demo_manager :: cap_manager where
  "demo_manager = RegisterService ''dns'' (NewCapabilityManager (replicate 32 9) (replicate 32 9))"

definition demo_grant :: "(cap_error + capability_token) \<times> cap_manager" where
  "demo_grant = GrantCapability toy_new_key toy_sign (Inr (replicate 16 1)) 100 (replicate 32 2) [''dns''] 50 demo_manager"

lemma demo_grant_ok: "demo_grant = (Inr (projr (fst demo_grant)), snd demo_grant)"
  by (simp add: demo_grant_def GrantCapability_def demo_manager_def RegisterService_def Let_def)

theorem cap_granted_token_verifies_witness:
  "VerifyToken toy_verify 120 (snd demo_grant) (Some (projr (fst demo_grant))) = None"
  using cap_granted_token_verifies [OF toy_ed25519 _ demo_grant_ok [unfolded demo_grant_def], of 120]
  by (simp add: demo_grant_def demo_manager_def RegisterService_def NewCapabilityManager_def
      computePubFromSeed_def toy_new_key_def eval_nat_numeral)

text \<open>
  Revocation is invisible to token verification. After a peer is revoked, \<open>CheckAccess\<close>
  refuses it for every service, but a token granted before still passes \<open>VerifyToken\<close> on the same
  manager, although \<open>RevokeCapability\<close> is documented to invalidate all tokens of the peer.
\<close>

theorem cap_revoked_token_still_verifies:
  assumes "ed25519_correct new_key ed_sign ed_verify"
    and "cmPubKey m = computePubFromSeed new_key (cmPrivKey m)"
    and "GrantCapability new_key ed_sign rand t p svcs ttl m = (Inr tok, m')"
    and "p \<noteq> replicate 32 0" "now \<le> t + ttl \<or> ttl \<le> 0"
  shows "VerifyToken ed_verify now (RevokeCapability p m') (Some tok) = None
       \<and> \<not> CheckAccess now (RevokeCapability p m') p svc"
  using granted_verifies [OF assms]
  by (simp add: VerifyToken_def RevokeCapability_def CheckAccess_def)

theorem cap_revoked_token_still_verifies_witness:
  "VerifyToken toy_verify 120 (RevokeCapability (replicate 32 2) (snd demo_grant)) (Some (projr (fst demo_grant))) = None"
  using cap_revoked_token_still_verifies [OF toy_ed25519 _ demo_grant_ok [unfolded demo_grant_def], of 120]
  by (simp add: demo_grant_def demo_manager_def RegisterService_def NewCapabilityManager_def
      computePubFromSeed_def toy_new_key_def eval_nat_numeral)

interpretation revocation: absorbing_operations "cap_step new_key ed_sign" "\<lambda>_. True" "\<lambda>m. cmRevoked m p"
  for new_key ed_sign p
proof
  fix m :: cap_manager and c
  assume "cmRevoked m p"
  then show "cmRevoked (cap_step new_key ed_sign m c) p"
    by (cases c) (auto simp: RegisterService_def RevokeCapability_def GrantCapability_effect split: sum.splits)
qed simp

text \<open>
  Revocation is permanent. A grant made after a revocation succeeds and returns a token, and
  yet the peer is refused whatever is called afterwards.
\<close>

theorem cap_revocation_permanent:
  "\<not> CheckAccess now (foldl (cap_step new_key ed_sign) (RevokeCapability p m) cs) p svc"
  using revocation.run_stable [of "RevokeCapability p m" p new_key ed_sign cs]
  by (simp add: CheckAccess_def RevokeCapability_def)

end
