(* ===== verification/Sec_Audit.thy ===== *)
theory Sec_Audit
  imports Go_Format
begin

text \<open>
  The tamper-evident audit log, \<open>pkg/security/audit.go\<close>: a hash chain of events, its integrity
  check, its binary transport format and its JSON-lines export. SHA3-256 is the argument \<open>sha3\<close>.
  The JSON encoding of an event is spelled out; only the rendering of an instant depends on
  the time zone, so \<open>tfmt\<close> stands for \<open>Format(time.RFC3339Nano)\<close> and \<open>tok\<close> for the range check of
  \<open>Time.MarshalJSON\<close>. \<open>parse\<close> stands for the reflective \<open>json.Unmarshal\<close> into an event.
\<close>

section \<open>Events\<close>

text \<open>\<open>Details\<close> is a map, kept as an association list sorted by key; \<open>None\<close> is the nil map.\<close>

type_synonym details = "(string \<times> string) list"

record audit_event =
  aeType :: string
  aeTimestamp :: gotime
  aePeerID :: bytes
  aeSource :: string
  aeDetails :: "details option"

datatype audit_error = YearOutOfRange | MarshalAt nat | PrevMismatch nat | HashMismatch nat
  | Io io_error | BadJson string | MakeSlicePanic | WriteFailed string

record time_format =
  tfmt :: "gotime \<Rightarrow> string"
  tok :: "gotime \<Rightarrow> bool"

definition json_details :: "details option \<Rightarrow> bytes" where
  "json_details d =
     (case d of None \<Rightarrow> str_bytes ''null''
      | Some m \<Rightarrow> json_object (map (\<lambda>(k, v). (k, json_string v)) (sort_key fst m)))"

text \<open>
  \<open>AuditEvent.MarshalJSON\<close>: the two fields of the anonymous struct, then those of the embedded
  alias, whose \<open>Timestamp\<close> and \<open>PeerID\<close> have other JSON names and are therefore written too.
\<close>

definition Event_MarshalJSON :: "time_format \<Rightarrow> audit_event \<Rightarrow> audit_error + bytes" where
  "Event_MarshalJSON tf e =
     (if \<not> tok tf (aeTimestamp e) then Inl YearOutOfRange
      else Inr (json_object
        [(''timestamp'', json_string (tfmt tf (aeTimestamp e))), (''peer_id'', json_string (hex_encode (aePeerID e))),
         (''Type'', json_string (aeType e)), (''Timestamp'', json_string (tfmt tf (aeTimestamp e))),
         (''PeerID'', json_byte_array (aePeerID e)), (''Source'', json_string (aeSource e)),
         (''Details'', json_details (aeDetails e))]))"

section \<open>The hash chain\<close>

record audit_entry =
  enEvent :: audit_event
  enPrevHash :: bytes
  enHash :: bytes

record audit_log =
  alEntries :: "audit_entry list"
  alLastHash :: bytes

definition zeroHash :: bytes where "zeroHash = replicate 32 0"

definition NewAuditLog :: audit_log where
  "NewAuditLog = \<lparr>alEntries = [], alLastHash = zeroHash\<rparr>"

definition Log ::
  "(bytes \<Rightarrow> bytes) \<Rightarrow> time_format \<Rightarrow> gotime \<Rightarrow> audit_event \<Rightarrow> audit_log \<Rightarrow> audit_error option \<times> audit_log" where
  "Log sha3 tf now evt0 l =
     (let evt1 = (if aeTimestamp evt0 = 0 then evt0\<lparr>aeTimestamp := now\<rparr> else evt0);
          evt = (if aeDetails evt1 = None then evt1\<lparr>aeDetails := Some []\<rparr> else evt1)
      in case Event_MarshalJSON tf evt of
           Inl e \<Rightarrow> (Some e, l)
         | Inr b \<Rightarrow>
             let h = sha3 (alLastHash l @ b)
             in (None, l\<lparr>alEntries := alEntries l @ [\<lparr>enEvent = evt, enPrevHash = alLastHash l, enHash = h\<rparr>],
                        alLastHash := h\<rparr>))"

fun verify_from :: "(bytes \<Rightarrow> bytes) \<Rightarrow> time_format \<Rightarrow> nat \<Rightarrow> bytes \<Rightarrow> audit_entry list \<Rightarrow> audit_error option" where
  "verify_from sha3 tf i prev [] = None"
| "verify_from sha3 tf i prev (e # es) =
     (case Event_MarshalJSON tf (enEvent e) of
        Inl _ \<Rightarrow> Some (MarshalAt i)
      | Inr b \<Rightarrow>
          if enPrevHash e \<noteq> prev then Some (PrevMismatch i)
          else if enHash e \<noteq> sha3 (prev @ b) then Some (HashMismatch i)
          else verify_from sha3 tf (Suc i) (enHash e) es)"

definition VerifyIntegrity :: "(bytes \<Rightarrow> bytes) \<Rightarrow> time_format \<Rightarrow> audit_log \<Rightarrow> audit_error option" where
  "VerifyIntegrity sha3 tf l = verify_from sha3 tf 0 zeroHash (alEntries l)"

definition Len :: "audit_log \<Rightarrow> nat" where
  "Len l = length (alEntries l)"

text \<open>\<open>Export\<close>: what has been written to \<open>w\<close> and the error; \<open>werr i\<close> is the answer of the \<open>i\<close>-th write.\<close>

fun export_from :: "time_format \<Rightarrow> (nat \<Rightarrow> string option) \<Rightarrow> nat \<Rightarrow> audit_entry list \<Rightarrow> bytes \<times> audit_error option" where
  "export_from tf werr i [] = ([], None)"
| "export_from tf werr i (e # es) =
     (case Event_MarshalJSON tf (enEvent e) of
        Inl err \<Rightarrow> ([], Some err)
      | Inr b \<Rightarrow>
          let line = json_object [(''event'', b), (''prev_hash'', json_string (hex_encode (enPrevHash e))),
                                  (''hash'', json_string (hex_encode (enHash e)))] @ [0x0A]
          in (case werr i of
                Some err \<Rightarrow> ([], Some (WriteFailed err))
              | None \<Rightarrow> (let (rest, err) = export_from tf werr (Suc i) es in (line @ rest, err))))"

definition Export :: "time_format \<Rightarrow> (nat \<Rightarrow> string option) \<Rightarrow> audit_log \<Rightarrow> bytes \<times> audit_error option" where
  "Export tf werr l = export_from tf werr 0 (alEntries l)"

definition Entries :: "audit_log \<Rightarrow> audit_event list" where
  "Entries l = map enEvent (alEntries l)"

definition PeerEvents :: "audit_log \<Rightarrow> bytes \<Rightarrow> audit_event list" where
  "PeerEvents l peerID = map enEvent (filter (\<lambda>e. aePeerID (enEvent e) = peerID) (alEntries l))"

section \<open>The event helpers\<close>

fun joinStrings :: "string list \<Rightarrow> string" where
  "joinStrings [] = []"
| "joinStrings [s] = s"
| "joinStrings (s # t # ts) = s @ '','' @ joinStrings (t # ts)"

definition mk_event :: "string \<Rightarrow> bytes \<Rightarrow> string \<Rightarrow> details \<Rightarrow> audit_event" where
  "mk_event ty peerID src d =
     \<lparr>aeType = ty, aeTimestamp = 0, aePeerID = peerID, aeSource = src, aeDetails = Some d\<rparr>"

definition AuditAuthSuccess :: "(bytes \<Rightarrow> bytes) \<Rightarrow> time_format \<Rightarrow> gotime \<Rightarrow> bytes \<Rightarrow> string \<Rightarrow> audit_log \<Rightarrow> audit_log" where
  "AuditAuthSuccess sha3 tf now peerID src l =
     snd (Log sha3 tf now (mk_event ''auth_success'' peerID src [(''result'', ''success'')]) l)"

definition AuditAuthFailure :: "(bytes \<Rightarrow> bytes) \<Rightarrow> time_format \<Rightarrow> gotime \<Rightarrow> bytes \<Rightarrow> string \<Rightarrow> string \<Rightarrow> audit_log \<Rightarrow> audit_log" where
  "AuditAuthFailure sha3 tf now peerID src reason l =
     snd (Log sha3 tf now
       (mk_event ''auth_failure'' peerID src [(''reason'', reason), (''result'', ''failure'')]) l)"

definition AuditConnection :: "(bytes \<Rightarrow> bytes) \<Rightarrow> time_format \<Rightarrow> gotime \<Rightarrow> bytes \<Rightarrow> string \<Rightarrow> audit_log \<Rightarrow> audit_log" where
  "AuditConnection sha3 tf now peerID addr l =
     snd (Log sha3 tf now (mk_event ''connection'' peerID addr [(''addr'', addr)]) l)"

definition AuditDisconnection :: "(bytes \<Rightarrow> bytes) \<Rightarrow> time_format \<Rightarrow> gotime \<Rightarrow> bytes \<Rightarrow> string \<Rightarrow> audit_log \<Rightarrow> audit_log" where
  "AuditDisconnection sha3 tf now peerID addr l =
     snd (Log sha3 tf now (mk_event ''disconnection'' peerID addr [(''addr'', addr)]) l)"

definition AuditCapabilityGrant :: "(bytes \<Rightarrow> bytes) \<Rightarrow> time_format \<Rightarrow> gotime \<Rightarrow> bytes \<Rightarrow> bytes \<Rightarrow> string list \<Rightarrow> audit_log \<Rightarrow> audit_log" where
  "AuditCapabilityGrant sha3 tf now issuer peerID services l =
     snd (Log sha3 tf now
       (mk_event ''capability_grant'' peerID (hex_encode (take 8 issuer))
          [(''issuer'', hex_encode (take 8 issuer)), (''services'', joinStrings services)]) l)"

definition AuditRelayUse :: "(bytes \<Rightarrow> bytes) \<Rightarrow> time_format \<Rightarrow> gotime \<Rightarrow> bytes \<Rightarrow> bytes \<Rightarrow> audit_log \<Rightarrow> audit_log" where
  "AuditRelayUse sha3 tf now peerID relayID l =
     snd (Log sha3 tf now
       (mk_event ''relay_use'' peerID (hex_encode (take 8 relayID)) [(''relay_id'', hex_encode (take 8 relayID))]) l)"

definition det_put :: "string \<Rightarrow> string \<Rightarrow> details \<Rightarrow> details" where
  "det_put k v d = insort_key fst (k, v) (filter (\<lambda>e. fst e \<noteq> k) d)"

record audit_peer =
  apName :: string
  apAddrs :: "string list"
  apSource :: string

definition WithContext :: "audit_event \<Rightarrow> audit_peer option \<Rightarrow> audit_event" where
  "WithContext evt peer =
     (let d0 = (case aeDetails evt of None \<Rightarrow> [] | Some d \<Rightarrow> d)
      in case peer of
           None \<Rightarrow> evt\<lparr>aeDetails := Some d0\<rparr>
         | Some p \<Rightarrow>
             let d1 = (if apName p \<noteq> [] then det_put ''peer_name'' (apName p) d0 else d0);
                 d2 = (case apAddrs p of [] \<Rightarrow> d1 | a # _ \<Rightarrow> det_put ''peer_addr'' a d1)
             in evt\<lparr>aeDetails := Some d2, aeSource := apSource p\<rparr>)"

section \<open>Transport\<close>

fun marshal_entries :: "time_format \<Rightarrow> audit_entry list \<Rightarrow> audit_error + bytes" where
  "marshal_entries tf [] = Inr []"
| "marshal_entries tf (e # es) =
     (case Event_MarshalJSON tf (enEvent e) of
        Inl err \<Rightarrow> Inl err
      | Inr eb \<Rightarrow>
          (case marshal_entries tf es of
             Inl err \<Rightarrow> Inl err
           | Inr rest \<Rightarrow> Inr (put_u32 (word_of_nat (length eb)) @ eb @ enPrevHash e @ enHash e @ rest)))"

definition MarshalEntries :: "time_format \<Rightarrow> audit_log \<Rightarrow> audit_error + bytes" where
  "MarshalEntries tf l =
     (case marshal_entries tf (alEntries l) of
        Inl err \<Rightarrow> Inl err
      | Inr b \<Rightarrow> Inr (put_u64 (word_of_nat (length (alEntries l))) @ b))"

text \<open>
  One round of the loop reads an entry. The loop appends it before it checks the link, and
  returns the entries and the hash it has reached.
\<close>

definition read_entry :: "(bytes \<Rightarrow> string + audit_event) \<Rightarrow> bytes \<Rightarrow> (audit_error + audit_entry) \<times> bytes" where
  "read_entry parse bs =
     (case rbind read_u32 (\<lambda>n. read_full (unat n)) bs of
        (Inl e, r) \<Rightarrow> (Inl (Io e), r)
      | (Inr eb, r) \<Rightarrow>
          (case parse eb of
             Inl e \<Rightarrow> (Inl (BadJson e), r)
           | Inr evt \<Rightarrow>
               (case rbind (read_full 32) (\<lambda>p. rbind (read_full 32) (\<lambda>h. rreturn (p, h))) r of
                  (Inl e, r') \<Rightarrow> (Inl (Io e), r')
                | (Inr (p, h), r') \<Rightarrow> (Inr \<lparr>enEvent = evt, enPrevHash = p, enHash = h\<rparr>, r'))))"

fun unmarshal_loop ::
  "(bytes \<Rightarrow> string + audit_event) \<Rightarrow> nat \<Rightarrow> nat \<Rightarrow> bytes \<Rightarrow> audit_entry list \<Rightarrow> bytes
     \<Rightarrow> audit_error option \<times> audit_entry list \<times> bytes" where
  "unmarshal_loop parse i 0 lastHash acc bs = (None, acc, lastHash)"
| "unmarshal_loop parse i (Suc n) lastHash acc bs =
     (case read_entry parse bs of
        (Inl err, _) \<Rightarrow> (Some err, acc, lastHash)
      | (Inr e, r) \<Rightarrow>
          if enPrevHash e \<noteq> lastHash then (Some (PrevMismatch i), acc @ [e], lastHash)
          else unmarshal_loop parse (Suc i) n (enHash e) (acc @ [e]) r)"

text \<open>\<open>make([]entry, 0, count)\<close> panics when \<open>count\<close> exceeds what the runtime can address, \<open>maxCap\<close>.\<close>

definition UnmarshalEntries ::
  "nat \<Rightarrow> (bytes \<Rightarrow> string + audit_event) \<Rightarrow> bytes \<Rightarrow> audit_log \<Rightarrow> audit_error option \<times> audit_log" where
  "UnmarshalEntries maxCap parse data l =
     (case read_u64 data of
        (Inl e, _) \<Rightarrow> (Some (Io e), l)
      | (Inr count, r) \<Rightarrow>
          if unat count > maxCap then (Some MakeSlicePanic, l)
          else (case unmarshal_loop parse 0 (unat count) zeroHash [] r of
                  (Some err, es, _) \<Rightarrow> (Some err, l\<lparr>alEntries := es\<rparr>)
                | (None, es, h) \<Rightarrow> (None, \<lparr>alEntries = es, alLastHash = h\<rparr>)))"

section \<open>Logging keeps the chain intact\<close>

definition chain_end :: "bytes \<Rightarrow> audit_entry list \<Rightarrow> bytes" where
  "chain_end h es = (if es = [] then h else enHash (List.last es))"

definition log_ok :: "(bytes \<Rightarrow> bytes) \<Rightarrow> time_format \<Rightarrow> audit_log \<Rightarrow> bool" where
  "log_ok sha3 tf l \<longleftrightarrow> VerifyIntegrity sha3 tf l = None \<and> alLastHash l = chain_end zeroHash (alEntries l)"

lemma chain_end_Cons [simp]: "chain_end h (e # es) = chain_end (enHash e) es"
  and chain_end_Nil [simp]: "chain_end h [] = h"
  and chain_end_snoc [simp]: "chain_end h (es @ [e]) = enHash e"
  by (simp_all add: chain_end_def)

lemma verify_from_snoc:
  "verify_from sha3 tf i prev (es @ [e]) = None \<longleftrightarrow>
     verify_from sha3 tf i prev es = None \<and> verify_from sha3 tf (i + length es) (chain_end prev es) [e] = None"
  by (induction es arbitrary: i prev) (auto split: sum.splits)

interpretation audit: operations "\<lambda>l (now, evt). snd (Log sha3 tf now evt l)" "log_ok sha3 tf" for sha3 tf
proof
  fix l and c :: "gotime \<times> audit_event"
  assume l: "log_ok sha3 tf l"
  obtain now evt where c: "c = (now, evt)" by (cases c)
  from l show "log_ok sha3 tf (case c of (now, evt) \<Rightarrow> snd (Log sha3 tf now evt l))"
    by (auto simp: c log_ok_def VerifyIntegrity_def Log_def Let_def verify_from_snoc chain_end_def
        split: sum.splits)
qed

text \<open>
  A log built by any sequence of \<open>Log\<close> calls, rejected events included, passes
  \<open>VerifyIntegrity\<close>, and its last hash is the hash of its last entry.
\<close>

theorem audit_log_intact:
  "VerifyIntegrity sha3 tf (foldl (\<lambda>l (now, evt). snd (Log sha3 tf now evt l)) NewAuditLog calls) = None
   \<and> alLastHash (foldl (\<lambda>l (now, evt). snd (Log sha3 tf now evt l)) NewAuditLog calls)
     = chain_end zeroHash (alEntries (foldl (\<lambda>l (now, evt). snd (Log sha3 tf now evt l)) NewAuditLog calls))"
  using audit.run_inv [of sha3 tf NewAuditLog calls]
  by (simp add: log_ok_def NewAuditLog_def VerifyIntegrity_def)

section \<open>Tamper evidence\<close>

definition sealed :: "time_format \<Rightarrow> audit_entry \<Rightarrow> (audit_error + bytes) \<times> bytes \<times> bytes" where
  "sealed tf e = (Event_MarshalJSON tf (enEvent e), enPrevHash e, enHash e)"

lemma verify_single:
  "verify_from sha3 tf i prev [e] = None \<longleftrightarrow>
     enPrevHash e = prev \<and> (\<exists>b. Event_MarshalJSON tf (enEvent e) = Inr b \<and> enHash e = sha3 (prev @ b))"
  by (auto split: sum.splits)

lemma chain_end_length:
  assumes "\<And>x. length (sha3 x) = 32"
  shows "verify_from sha3 tf i prev es = None \<Longrightarrow> length prev = 32 \<Longrightarrow> length (chain_end prev es) = 32"
  by (induction es arbitrary: i prev) (auto simp: assms split: sum.splits if_splits)

lemma verify_snocE:
  assumes "verify_from sha3 tf i p (es @ [e]) = None"
  obtains b where "verify_from sha3 tf i p es = None" "Event_MarshalJSON tf (enEvent e) = Inr b"
    "enPrevHash e = chain_end p es" "enHash e = sha3 (chain_end p es @ b)"
  using assms that unfolding verify_from_snoc verify_single by blast

text \<open>The bytes an entry's hash is taken over.\<close>

definition sealed_bytes :: "time_format \<Rightarrow> audit_entry \<Rightarrow> bytes" where
  "sealed_bytes tf e = enPrevHash e @ (case Event_MarshalJSON tf (enEvent e) of Inl _ \<Rightarrow> [] | Inr b \<Rightarrow> b)"

lemma verify_snoc_sealed:
  assumes "verify_from sha3 tf i p (es @ [e]) = None"
  shows "verify_from sha3 tf i p es = None" "enHash e = sha3 (sealed_bytes tf e)" "enPrevHash e = chain_end p es"
    "\<exists>b. Event_MarshalJSON tf (enEvent e) = Inr b \<and> sealed_bytes tf e = chain_end p es @ b"
  using assms by (auto elim!: verify_snocE simp: sealed_bytes_def)

lemma chain_determines_entries:
  assumes len: "\<And>x. length (sha3 x) = 32"
  shows "verify_from sha3 tf 0 zeroHash es = None \<Longrightarrow> verify_from sha3 tf 0 zeroHash fs = None
     \<Longrightarrow> chain_end zeroHash es = chain_end zeroHash fs
     \<Longrightarrow> (\<forall>e\<in>set es. \<forall>f\<in>set fs. sha3 (sealed_bytes tf e) = sha3 (sealed_bytes tf f) \<longrightarrow> sealed_bytes tf e = sealed_bytes tf f)
     \<Longrightarrow> (\<forall>e\<in>set es \<union> set fs. sha3 (sealed_bytes tf e) \<noteq> zeroHash) \<Longrightarrow> map (sealed tf) es = map (sealed tf) fs"
proof (induction es arbitrary: fs rule: rev_induct)
  case Nil
  show ?case
  proof (cases fs rule: rev_cases)
    case (snoc ys y)
    with Nil.prems(2) have "enHash y = sha3 (sealed_bytes tf y)" by (metis verify_snoc_sealed(2))
    with Nil.prems(3,5) snoc show ?thesis by simp
  qed simp
next
  case (snoc e es)
  have z: "length zeroHash = 32" by (simp add: zeroHash_def)
  note e = verify_snoc_sealed [OF snoc.prems(1)]
  show ?case
  proof (cases fs rule: rev_cases)
    case Nil
    with snoc.prems(3,5) e(2) show ?thesis by simp
  next
    case fs: (snoc gs g)
    note f = verify_snoc_sealed [OF snoc.prems(2) [unfolded fs]]
    obtain b c where bc: "Event_MarshalJSON tf (enEvent e) = Inr b" "sealed_bytes tf e = chain_end zeroHash es @ b"
      "Event_MarshalJSON tf (enEvent g) = Inr c" "sealed_bytes tf g = chain_end zeroHash gs @ c" using e(4) f(4) by blast
    have hash: "enHash e = enHash g" using snoc.prems(3) fs by simp
    then have "sealed_bytes tf e = sealed_bytes tf g" using snoc.prems(4) fs e(2) f(2) by simp
    then have eq: "chain_end zeroHash es = chain_end zeroHash gs" "b = c"
      using bc chain_end_length [OF len e(1) z] chain_end_length [OF len f(1) z] by auto
    have "map (sealed tf) es = map (sealed tf) gs" using snoc.IH [OF e(1) f(1) eq(1)] snoc.prems(4,5) fs by simp
    moreover have "sealed tf e = sealed tf g" using e(3) f(3) eq bc hash by (simp add: sealed_def)
    ultimately show ?thesis using fs by simp
  qed
qed

definition demo_event :: audit_event where
  "demo_event = mk_event ''connection'' (replicate 32 3) ''10.0.0.1'' [(''addr'', ''10.0.0.1'')]\<lparr>aeTimestamp := 5\<rparr>"

definition demo_tf :: time_format where
  "demo_tf = \<lparr>tfmt = (\<lambda>_. ''0001-01-01T00:00:00Z''), tok = (\<lambda>_. True)\<rparr>"

definition demo_sha :: "bytes \<Rightarrow> bytes" where
  "demo_sha x = 1 # take 31 (x @ replicate 31 0)"

definition demo_log :: audit_log where
  "demo_log = snd (Log demo_sha demo_tf 7 demo_event NewAuditLog)"

lemma demo_log_ok: "log_ok demo_sha demo_tf demo_log"
  using audit.run_inv [of demo_sha demo_tf NewAuditLog "[(7, demo_event)]"]
  by (simp add: demo_log_def log_ok_def NewAuditLog_def VerifyIntegrity_def)

text \<open>
  C34: the chain is tamper evident. If two logs pass the integrity check and end in the same
  hash, then they hold the same events (as encoded) and the same hashes, unless the logs
  themselves exhibit a break of SHA3-256: an entry of one and an entry of the other that seal
  different bytes under the same digest, or an entry whose digest is the all-zero genesis hash.
\<close>

theorem audit_tamper_evident:
  assumes "\<And>x. length (sha3 x) = 32"
    and "VerifyIntegrity sha3 tf l = None" "VerifyIntegrity sha3 tf l' = None"
    and "chain_end zeroHash (alEntries l) = chain_end zeroHash (alEntries l')"
  shows "map (sealed tf) (alEntries l) = map (sealed tf) (alEntries l')
       \<or> (\<exists>e\<in>set (alEntries l). \<exists>f\<in>set (alEntries l').
            sealed_bytes tf e \<noteq> sealed_bytes tf f \<and> sha3 (sealed_bytes tf e) = sha3 (sealed_bytes tf f))
       \<or> (\<exists>e\<in>set (alEntries l) \<union> set (alEntries l'). sha3 (sealed_bytes tf e) = zeroHash)"
  using chain_determines_entries [of sha3 tf "alEntries l" "alEntries l'"] assms
  unfolding VerifyIntegrity_def by blast

theorem audit_tamper_evident_witness:
  "map (sealed demo_tf) (alEntries demo_log) = map (sealed demo_tf) (alEntries demo_log)
   \<or> (\<exists>e\<in>set (alEntries demo_log). \<exists>f\<in>set (alEntries demo_log). sealed_bytes demo_tf e \<noteq> sealed_bytes demo_tf f
        \<and> demo_sha (sealed_bytes demo_tf e) = demo_sha (sealed_bytes demo_tf f))
   \<or> (\<exists>e\<in>set (alEntries demo_log) \<union> set (alEntries demo_log). demo_sha (sealed_bytes demo_tf e) = zeroHash)"
  using audit_tamper_evident [of demo_sha demo_tf demo_log demo_log] demo_log_ok
  by (simp add: demo_sha_def log_ok_def)

section \<open>Transport round trip\<close>

definition transportable :: "time_format \<Rightarrow> (bytes \<Rightarrow> string + audit_event) \<Rightarrow> audit_entry \<Rightarrow> bool" where
  "transportable tf parse e \<longleftrightarrow> length (enPrevHash e) = 32 \<and> length (enHash e) = 32 \<and>
     (\<exists>b. Event_MarshalJSON tf (enEvent e) = Inr b \<and> length b < 2 ^ 32 \<and> parse b = Inr (enEvent e))"

lemma read_entry_put:
  assumes "length eb < 2 ^ 32" "parse eb = Inr (enEvent e)" "length (enPrevHash e) = 32" "length (enHash e) = 32"
  shows "read_entry parse (put_u32 (word_of_nat (length eb)) @ eb @ enPrevHash e @ enHash e @ r) = (Inr e, r)"
  using assms by (simp add: read_entry_def unat_cast wire_simps)

lemma unmarshal_marshal:
  "list_all (transportable tf parse) es \<Longrightarrow> verify_from sha3 tf i h es = None \<Longrightarrow>
     \<exists>b. marshal_entries tf es = Inr b \<and>
        unmarshal_loop parse i (length es) h acc b = (None, acc @ es, chain_end h es)"
proof (induction es arbitrary: i h acc)
  case (Cons e es)
  from Cons.prems(1) obtain eb where eb: "Event_MarshalJSON tf (enEvent e) = Inr eb" "length eb < 2 ^ 32"
      "parse eb = Inr (enEvent e)" "length (enPrevHash e) = 32" "length (enHash e) = 32"
    by (auto simp: transportable_def)
  with Cons.prems(2) have h: "enPrevHash e = h" "verify_from sha3 tf (Suc i) (enHash e) es = None"
    by (auto split: if_splits)
  from Cons.IH [OF _ h(2), of "acc @ [e]"] Cons.prems(1) obtain b where
    b: "marshal_entries tf es = Inr b"
      "unmarshal_loop parse (Suc i) (length es) (enHash e) (acc @ [e]) b = (None, acc @ e # es, chain_end (enHash e) es)"
    by auto
  from read_entry_put [of eb parse e b] eb b h(1) show ?case by simp
qed simp

text \<open>
  Transport round trip. Marshalling an intact log and unmarshalling the bytes into any log
  restores the same entries and the same last hash, for logs the runtime can allocate whose
  events encode to less than 4 GiB and are read back by the JSON decoder.
\<close>

theorem audit_transport_roundtrip:
  assumes "log_ok sha3 tf l" "list_all (transportable tf parse) (alEntries l)"
    and "length (alEntries l) < 2 ^ 64" "length (alEntries l) \<le> maxCap"
  shows "\<exists>b. MarshalEntries tf l = Inr b \<and> UnmarshalEntries maxCap parse b l0 = (None, l)"
proof -
  obtain b where "marshal_entries tf (alEntries l) = Inr b"
    "unmarshal_loop parse 0 (length (alEntries l)) zeroHash [] b = (None, alEntries l, chain_end zeroHash (alEntries l))"
    using unmarshal_marshal [OF assms(2), of sha3 0 zeroHash "[]"] assms(1)
    by (auto simp: log_ok_def VerifyIntegrity_def)
  with assms show ?thesis
    by (simp add: MarshalEntries_def UnmarshalEntries_def log_ok_def unat_cast wire_simps)
qed

text \<open>
  A failed restore corrupts the log. \<open>UnmarshalEntries\<close> replaces the entries before it reads
  them but sets the last hash only on success: after a truncated payload the entries are gone,
  the old last hash stays, and the next event logged breaks the integrity check.
\<close>

theorem audit_failed_restore_breaks_chain:
  assumes "alLastHash l \<noteq> zeroHash" "maxCap \<ge> 1"
    and "UnmarshalEntries maxCap parse (put_u64 1) l = (err, l1)" "Log sha3 tf now evt l1 = (None, l2)"
  shows "err = Some (Io EOF) \<and> alEntries l1 = [] \<and> VerifyIntegrity sha3 tf l2 = Some (PrevMismatch 0)"
proof -
  have "read_u64 (put_u64 1) = (Inr 1, [])" using read_u64_put [of 1 "[]"] by simp
  moreover have "unmarshal_loop parse 0 (Suc 0) zeroHash [] [] = (Some (Io EOF), [], zeroHash)"
    by (simp add: read_entry_def read_u32_def rbind_def read_full_def)
  ultimately have l1: "err = Some (Io EOF)" "l1 = l\<lparr>alEntries := []\<rparr>"
    using assms(2,3) by (auto simp: UnmarshalEntries_def)
  with assms(1,4) show ?thesis
    by (auto simp: Log_def VerifyIntegrity_def Let_def split: sum.splits)
qed

theorem audit_failed_restore_breaks_chain_witness:
  "VerifyIntegrity demo_sha demo_tf
     (snd (Log demo_sha demo_tf 9 demo_event (snd (UnmarshalEntries 10 (\<lambda>_. Inr demo_event) (put_u64 1) demo_log))))
   = Some (PrevMismatch 0)"
proof -
  let ?u = "UnmarshalEntries 10 (\<lambda>_. Inr demo_event) (put_u64 1) demo_log"
  have "alLastHash demo_log = demo_sha (zeroHash @ projr (Event_MarshalJSON demo_tf demo_event))"
    by (simp add: demo_log_def Log_def NewAuditLog_def demo_event_def mk_event_def demo_tf_def
        Event_MarshalJSON_def Let_def)
  then have "alLastHash demo_log \<noteq> zeroHash" by (simp add: demo_sha_def zeroHash_def Cons_replicate_eq)
  moreover have "fst (Log demo_sha demo_tf 9 demo_event (snd ?u)) = None"
    by (simp add: Log_def demo_tf_def Event_MarshalJSON_def Let_def)
  ultimately show ?thesis
    using audit_failed_restore_breaks_chain [of demo_log 10 "\<lambda>_. Inr demo_event" "fst ?u" "snd ?u" demo_sha
        demo_tf 9 demo_event "snd (Log demo_sha demo_tf 9 demo_event (snd ?u))"]
    by (metis (no_types, lifting) one_le_numeral prod.collapse)
qed

end
