(* ===== verification/Qos.thy ===== *)
theory Qos
  imports LW_Prelude
begin

text \<open>
  Traffic shaping, \<open>pkg/qos/qos.go\<close>: the token bucket, QoS classes, the manager that picks a class
  per message, and the HTB hierarchy. Tokens are \<open>int64\<close> values (64-bit words read with \<open>sint\<close>).
  The refill computes in \<open>float64\<close>: \<open>fl\<close> is the rounding applied after every operation. Classes
  are shared by pointer between the manager's maps, so they live in a heap and the maps hold
  references. The blocking \<open>Wait\<close> is driven by the list of its polls.
\<close>

section \<open>Token bucket\<close>

record token_bucket =
  tbCapacity :: int64
  tbTokens :: int64
  tbRefillRate :: int64
  tbLastRefill :: gotime

definition NewTokenBucket :: "gotime \<Rightarrow> int64 \<Rightarrow> int64 \<Rightarrow> token_bucket" where
  "NewTokenBucket now capacity refillRate =
     \<lparr>tbCapacity = capacity, tbTokens = capacity, tbRefillRate = refillRate, tbLastRefill = now\<rparr>"

text \<open>\<open>int64(elapsed * float64(refillRate))\<close>.\<close>

definition earned :: "(real \<Rightarrow> real) \<Rightarrow> duration \<Rightarrow> int64 \<Rightarrow> int64" where
  "earned fl d rate = word_of_int (trunc (fl (seconds fl d * fl (real_of_int (sint rate)))))"

definition min64 :: "int64 \<Rightarrow> int64 \<Rightarrow> int64" where
  "min64 a b = (if sint a < sint b then a else b)"

definition refill :: "(real \<Rightarrow> real) \<Rightarrow> gotime \<Rightarrow> token_bucket \<Rightarrow> token_bucket" where
  "refill fl now tb =
     tb\<lparr>tbTokens := min64 (tbCapacity tb) (tbTokens tb + earned fl (time_sub now (tbLastRefill tb)) (tbRefillRate tb)),
        tbLastRefill := now\<rparr>"

definition Take :: "(real \<Rightarrow> real) \<Rightarrow> gotime \<Rightarrow> int64 \<Rightarrow> token_bucket \<Rightarrow> bool \<times> token_bucket" where
  "Take fl now n tb0 =
     (let tb = refill fl now tb0
      in if sint (tbTokens tb) \<ge> sint n then (True, tb\<lparr>tbTokens := tbTokens tb - n\<rparr>) else (False, tb))"

definition Available :: "(real \<Rightarrow> real) \<Rightarrow> gotime \<Rightarrow> token_bucket \<Rightarrow> int64 \<times> token_bucket" where
  "Available fl now tb0 = (let tb = refill fl now tb0 in (tbTokens tb, tb))"

text \<open>
  \<open>Wait\<close>: each poll is the clock reading of its \<open>Take\<close> and what the \<open>select\<close> then chooses, the
  context's error or (\<open>None\<close>) the timer. \<open>Blocked\<close> is a call that has not returned after the
  polls given.
\<close>

datatype wait_result = Granted | Cancelled string | Blocked

fun Wait :: "(real \<Rightarrow> real) \<Rightarrow> (gotime \<times> string option) list \<Rightarrow> int64 \<Rightarrow> token_bucket \<Rightarrow> wait_result \<times> token_bucket" where
  "Wait fl [] n tb = (Blocked, tb)"
| "Wait fl ((now, ctx) # polls) n tb =
     (let (ok, tb1) = Take fl now n tb
      in if ok then (Granted, tb1)
         else case ctx of Some err \<Rightarrow> (Cancelled err, tb1) | None \<Rightarrow> Wait fl polls n tb1)"

section \<open>Classes\<close>

record qos_config =
  qcName :: string
  qcPriority :: int
  qcBandwidth :: int64
  qcBurst :: int64
  qcLatency :: duration
  qcJitter :: duration

record class_stats =
  BytesSent :: int64
  BytesDropped :: int64
  PacketsSent :: int64
  PacketsDropped :: int64
  AvgLatency :: duration
  MaxLatency :: duration

record qos_class =
  clConfig :: qos_config
  clBucket :: token_bucket
  clStats :: class_stats

definition zero_stats :: class_stats where
  "zero_stats = \<lparr>BytesSent = 0, BytesDropped = 0, PacketsSent = 0, PacketsDropped = 0, AvgLatency = 0, MaxLatency = 0\<rparr>"

definition NewQoSClass :: "gotime \<Rightarrow> qos_config \<Rightarrow> qos_class" where
  "NewQoSClass now cfg =
     \<lparr>clConfig = cfg, clBucket = NewTokenBucket now (qcBurst cfg) (qcBandwidth cfg), clStats = zero_stats\<rparr>"

definition QoSClass_Send ::
  "(real \<Rightarrow> real) \<Rightarrow> (gotime \<times> string option) list \<Rightarrow> bytes \<Rightarrow> qos_class \<Rightarrow> wait_result \<times> qos_class" where
  "QoSClass_Send fl polls data qc =
     (let n = word_of_nat (length data) :: int64;
          (res, tb) = Wait fl polls n (clBucket qc);
          qc1 = qc\<lparr>clBucket := tb\<rparr>
      in case res of
           Blocked \<Rightarrow> (Blocked, qc1)
         | Cancelled err \<Rightarrow>
             (Cancelled err, qc1\<lparr>clStats := (clStats qc1)\<lparr>PacketsDropped := PacketsDropped (clStats qc1) + 1,
                                                        BytesDropped := BytesDropped (clStats qc1) + n\<rparr>\<rparr>)
         | Granted \<Rightarrow>
             (Granted, qc1\<lparr>clStats := (clStats qc1)\<lparr>PacketsSent := PacketsSent (clStats qc1) + 1,
                                                  BytesSent := BytesSent (clStats qc1) + n\<rparr>\<rparr>))"

section \<open>Manager\<close>

datatype policy = PolicyFIFO | PolicyPriority | PolicyWFQ | PolicyHTB

record qos_manager =
  qmHeap :: "qos_class list"
  qmClasses :: "string \<Rightarrow> nat option"
  qmDefault :: nat
  qmService :: "string \<Rightarrow> nat option"
  qmPeer :: "string \<Rightarrow> nat option"
  qmPolicy :: policy

definition service_configs :: "qos_config list" where
  "service_configs =
     (let kb = 1024; mb = 1024 * 1024; ms = 1000000;
          cfg = (\<lambda>n p bw bu l. \<lparr>qcName = n, qcPriority = p, qcBandwidth = bw, qcBurst = bu, qcLatency = l, qcJitter = 0\<rparr>)
      in [cfg ''voice'' 10 (2 * mb) (256 * kb) (20 * ms), cfg ''vpn'' 9 (5 * mb) (512 * kb) (50 * ms),
          cfg ''files'' 5 (10 * mb) (2 * mb) 0, cfg ''messaging'' 7 (1 * mb) (128 * kb) (100 * ms),
          cfg ''email'' 3 (512 * kb) (64 * kb) 0, cfg ''dns'' 8 (128 * kb) (32 * kb) (10 * ms),
          cfg ''http'' 6 (5 * mb) (1024 * kb) 0, cfg ''registry'' 4 (2 * mb) (512 * kb) 0,
          cfg ''docs'' 5 (2 * mb) (512 * kb) 0])"

definition default_config :: qos_config where
  "default_config = \<lparr>qcName = ''default'', qcPriority = 0, qcBandwidth = 10 * 1024 * 1024, qcBurst = 1024 * 1024,
     qcLatency = 0, qcJitter = 0\<rparr>"

definition add_service :: "gotime \<Rightarrow> string \<Rightarrow> qos_config \<Rightarrow> qos_manager \<Rightarrow> qos_manager" where
  "add_service now name cfg qm =
     qm\<lparr>qmHeap := qmHeap qm @ [NewQoSClass now cfg], qmService := (qmService qm)(name \<mapsto> length (qmHeap qm))\<rparr>"

definition NewQoSManager :: "gotime \<Rightarrow> policy \<Rightarrow> qos_manager" where
  "NewQoSManager now pol =
     foldl (\<lambda>qm cfg. add_service now (qcName cfg) cfg qm)
       \<lparr>qmHeap = [NewQoSClass now default_config], qmClasses = [''default'' \<mapsto> 0], qmDefault = 0,
        qmService = Map.empty, qmPeer = Map.empty, qmPolicy = pol\<rparr> service_configs"

definition GetClass :: "qos_manager \<Rightarrow> string \<Rightarrow> nat" where
  "GetClass qm name =
     (case qmClasses qm name of Some c \<Rightarrow> c
      | None \<Rightarrow> (case qmService qm name of Some c \<Rightarrow> c
        | None \<Rightarrow> (case qmPeer qm name of Some c \<Rightarrow> c | None \<Rightarrow> qmDefault qm)))"

definition RegisterServiceClass :: "gotime \<Rightarrow> string \<Rightarrow> qos_config \<Rightarrow> qos_manager \<Rightarrow> qos_manager" where
  "RegisterServiceClass now name cfg qm0 =
     (let qm = add_service now name cfg qm0 in qm\<lparr>qmClasses := (qmClasses qm)(name := qmService qm name)\<rparr>)"

definition RegisterPeerClass :: "gotime \<Rightarrow> string \<Rightarrow> qos_config \<Rightarrow> qos_manager \<Rightarrow> qos_manager" where
  "RegisterPeerClass now peerID cfg qm =
     qm\<lparr>qmHeap := qmHeap qm @ [NewQoSClass now cfg],
        qmPeer := (qmPeer qm)(peerID \<mapsto> length (qmHeap qm)),
        qmClasses := (qmClasses qm)(peerID \<mapsto> length (qmHeap qm))\<rparr>"

definition pick_class :: "qos_manager \<Rightarrow> string \<Rightarrow> string \<Rightarrow> nat" where
  "pick_class qm service peerID =
     (let class0 = qmDefault qm;
          class1 = (if peerID \<noteq> [] \<and> GetClass qm peerID \<noteq> qmDefault qm then GetClass qm peerID else class0)
      in if class1 = qmDefault qm \<and> service \<noteq> [] \<and> GetClass qm service \<noteq> qmDefault qm
         then GetClass qm service else class1)"

definition QoSManager_Send ::
  "(real \<Rightarrow> real) \<Rightarrow> (gotime \<times> string option) list \<Rightarrow> string \<Rightarrow> string \<Rightarrow> bytes \<Rightarrow> qos_manager
     \<Rightarrow> wait_result \<times> qos_manager" where
  "QoSManager_Send fl polls service peerID data qm =
     (let c = pick_class qm service peerID;
          (res, qc) = QoSClass_Send fl polls data (qmHeap qm ! c)
      in (res, qm\<lparr>qmHeap := (qmHeap qm)[c := qc]\<rparr>))"

text \<open>\<open>GetStats\<close>: the later of the three loops overrides the earlier ones.\<close>

definition QoSManager_GetStats :: "qos_manager \<Rightarrow> string \<Rightarrow> class_stats option" where
  "QoSManager_GetStats qm name =
     map_option (\<lambda>c. clStats (qmHeap qm ! c)) ((qmClasses qm ++ qmService qm ++ qmPeer qm) name)"

definition SetPolicy :: "policy \<Rightarrow> qos_manager \<Rightarrow> qos_manager" where
  "SetPolicy pol qm = qm\<lparr>qmPolicy := pol\<rparr>"

text \<open>\<open>GetClass\<close> never returns nil, so the \<open>ErrClassNotFound\<close> branches cannot be taken.\<close>

definition SetBandwidth :: "gotime \<Rightarrow> string \<Rightarrow> int64 \<Rightarrow> qos_manager \<Rightarrow> qos_manager" where
  "SetBandwidth now name bandwidth qm =
     (let c = GetClass qm name; qc = qmHeap qm ! c
      in qm\<lparr>qmHeap := (qmHeap qm)[c := qc\<lparr>clConfig := (clConfig qc)\<lparr>qcBandwidth := bandwidth\<rparr>,
                                          clBucket := NewTokenBucket now (qcBurst (clConfig qc)) bandwidth\<rparr>]\<rparr>)"

definition SetPriority :: "string \<Rightarrow> int \<Rightarrow> qos_manager \<Rightarrow> qos_manager" where
  "SetPriority name priority qm =
     (let c = GetClass qm name; qc = qmHeap qm ! c
      in qm\<lparr>qmHeap := (qmHeap qm)[c := qc\<lparr>clConfig := (clConfig qc)\<lparr>qcPriority := priority\<rparr>\<rparr>]\<rparr>)"

section \<open>HTB hierarchy\<close>

record htb_node =
  hnName :: string
  hnParent :: "nat option"
  hnChildren :: "nat list"
  hnRate :: int64
  hnCeil :: int64
  hnBucket :: token_bucket
  hnLevel :: int

record htb_hierarchy =
  hhHeap :: "htb_node list"
  hhNodes :: "string \<Rightarrow> nat option"
  hhRoot :: nat

definition NewHTBHierarchy :: "gotime \<Rightarrow> htb_hierarchy" where
  "NewHTBHierarchy now =
     (let r = 100 * 1024 * 1024
      in \<lparr>hhHeap = [\<lparr>hnName = ''root'', hnParent = None, hnChildren = [], hnRate = r, hnCeil = r,
                    hnBucket = NewTokenBucket now r r, hnLevel = 0\<rparr>],
          hhNodes = [''root'' \<mapsto> 0], hhRoot = 0\<rparr>)"

definition AddClass :: "gotime \<Rightarrow> string \<Rightarrow> string \<Rightarrow> int64 \<Rightarrow> int64 \<Rightarrow> htb_hierarchy \<Rightarrow> nat \<times> htb_hierarchy" where
  "AddClass now name parent rate ceil h =
     (let p = (case hhNodes h parent of Some p \<Rightarrow> p | None \<Rightarrow> hhRoot h);
          a = length (hhHeap h);
          pn = hhHeap h ! p;
          node = \<lparr>hnName = name, hnParent = Some p, hnChildren = [], hnRate = rate, hnCeil = ceil,
                  hnBucket = NewTokenBucket now ceil rate, hnLevel = hnLevel pn + 1\<rparr>
      in (a, h\<lparr>hhHeap := (hhHeap h)[p := pn\<lparr>hnChildren := hnChildren pn @ [a]\<rparr>] @ [node],
               hhNodes := (hhNodes h)(name \<mapsto> a)\<rparr>))"

definition GetNode :: "htb_hierarchy \<Rightarrow> string \<Rightarrow> nat option" where
  "GetNode h name = hhNodes h name"

definition Borrow :: "(real \<Rightarrow> real) \<Rightarrow> gotime \<Rightarrow> nat \<Rightarrow> int64 \<Rightarrow> htb_hierarchy \<Rightarrow> bool \<times> htb_hierarchy" where
  "Borrow fl now a tokens h =
     (let n = hhHeap h ! a; (ok, tb) = Take fl now tokens (hnBucket n)
      in (ok, h\<lparr>hhHeap := (hhHeap h)[a := n\<lparr>hnBucket := tb\<rparr>]\<rparr>))"

section \<open>Arithmetic of the bucket\<close>

lemma sint_of_int_eq: "- (2 ^ 63) \<le> i \<Longrightarrow> i < 2 ^ 63 \<Longrightarrow> sint (word_of_int i :: int64) = i"
  by (simp add: signed_of_int signed_take_bit_int_eq_self)

lemma sint_add_eq:
  fixes a b :: int64
  shows "- (2 ^ 63) \<le> sint a + sint b \<Longrightarrow> sint a + sint b < 2 ^ 63 \<Longrightarrow> sint (a + b) = sint a + sint b"
  using sint_of_int_eq [of "sint a + sint b"] by simp

lemma sint_diff_eq:
  fixes a b :: int64
  shows "- (2 ^ 63) \<le> sint a - sint b \<Longrightarrow> sint a - sint b < 2 ^ 63 \<Longrightarrow> sint (a - b) = sint a - sint b"
  using sint_of_int_eq [of "sint a - sint b"] by simp

lemma sint64_range: "- (2 ^ 63) \<le> sint (w :: int64)" "sint (w :: int64) < 2 ^ 63"
  using sint_ge [of w] sint_lt [of w] by simp_all

text \<open>Rounding that enlarges a non-negative value by at most the factor \<open>1 + u\<close>.\<close>

definition rounding :: "real \<Rightarrow> (real \<Rightarrow> real) \<Rightarrow> bool" where
  "rounding u fl \<longleftrightarrow> 0 \<le> u \<and> (\<forall>x \<ge> 0. 0 \<le> fl x \<and> fl x \<le> x * (1 + u))"

lemma fl_bound: "rounding u fl \<Longrightarrow> 0 \<le> x \<Longrightarrow> x \<le> y \<Longrightarrow> 0 \<le> fl x \<and> fl x \<le> y * (1 + u)"
  unfolding rounding_def by (meson add_nonneg_nonneg mult_right_mono order_trans zero_le_one)

lemma seconds_bound:
  assumes fl: "rounding u fl" and d: "0 \<le> d"
  shows "0 \<le> seconds fl d \<and> seconds fl d \<le> real_of_int d / 1000000000 * (1 + u) ^ 3"
proof -
  have u: "0 \<le> u" using fl by (simp add: rounding_def)
  let ?s = "d div 1000000000" and ?n = "d mod 1000000000"
  have q: "quot d 1000000000 = ?s" using d by (cases "d = 0") (simp_all add: quot_def)
  have n: "d - ?s * 1000000000 = ?n" by (simp add: minus_div_mult_eq_mod)
  have s0: "0 \<le> fl ?s \<and> fl ?s \<le> ?s * (1 + u)" using fl_bound [OF fl, of ?s ?s] d by simp
  have n0: "0 \<le> fl ?n \<and> fl ?n \<le> ?n * (1 + u)" using fl_bound [OF fl, of ?n ?n] by simp
  have n1: "0 \<le> fl (fl ?n / 1000000000) \<and> fl (fl ?n / 1000000000) \<le> ?n * (1 + u) / 1000000000 * (1 + u)"
    using n0 by (intro fl_bound [OF fl]) (simp_all add: divide_right_mono)
  have "?s * (1 + u) \<le> ?s * (1 + u) * (1 + u)" 
    using mult_left_mono [of 1 "1 + u" "?s * (1 + u)"] u d by simp
  with s0 n1 have "0 \<le> fl ?s + fl (fl ?n / 1000000000)
      \<and> fl ?s + fl (fl ?n / 1000000000) \<le> ?s * (1 + u) * (1 + u) + ?n * (1 + u) / 1000000000 * (1 + u)"
    by linarith
  then have "0 \<le> fl (fl ?s + fl (fl ?n / 1000000000))
      \<and> fl (fl ?s + fl (fl ?n / 1000000000)) \<le> (?s * (1 + u) * (1 + u) + ?n * (1 + u) / 1000000000 * (1 + u)) * (1 + u)"
    using fl_bound [OF fl] by blast
  moreover have "real_of_int d = real_of_int ?s * 1000000000 + real_of_int ?n"
    by (metis div_mult_mod_eq of_int_add of_int_mult of_int_numeral)
  then have "real_of_int d / 1000000000 = real_of_int ?s + real_of_int ?n / 1000000000" by simp
  then have "(?s * (1 + u) * (1 + u) + ?n * (1 + u) / 1000000000 * (1 + u)) * (1 + u) = real_of_int d / 1000000000 * (1 + u) ^ 3"
    by (simp only: power3_eq_cube) (simp add: algebra_simps)
  ultimately show ?thesis by (simp only: seconds_def q n Let_def)
qed

text \<open>What one refill can add.\<close>

definition budget :: "real \<Rightarrow> int64 \<Rightarrow> duration \<Rightarrow> real" where
  "budget u rate d = real_of_int (sint rate) * real_of_int d / 1000000000 * (1 + u) ^ 5"

lemma budget_add: "budget u rate (a + b) = budget u rate a + budget u rate b"
  by (simp add: budget_def algebra_simps add_divide_distrib)

lemma earned_bound:
  assumes fl: "rounding u fl" and d: "0 \<le> d" and r: "0 \<le> sint rate" and small: "budget u rate d < 2 ^ 63"
  shows "0 \<le> sint (earned fl d rate) \<and> real_of_int (sint (earned fl d rate)) \<le> budget u rate d"
proof -
  obtain \<rho> where \<rho>: "sint rate = \<rho>" by blast
  let ?S = "real_of_int d / 1000000000 * (1 + u) ^ 3" and ?R = "real_of_int \<rho>"
  have u: "0 \<le> u" using fl by (simp add: rounding_def)
  note s = seconds_bound [OF fl d]
  have R: "0 \<le> fl ?R \<and> fl ?R \<le> ?R * (1 + u)" using fl_bound [OF fl, of ?R ?R] r \<rho> by simp
  have "seconds fl d * fl ?R \<le> ?S * (?R * (1 + u))" using s R by (intro mult_mono) auto
  then have "0 \<le> fl (seconds fl d * fl ?R) \<and> fl (seconds fl d * fl ?R) \<le> ?S * (?R * (1 + u)) * (1 + u)"
    using s R by (intro fl_bound [OF fl]) auto
  moreover have "?S * (?R * (1 + u)) * (1 + u) = budget u rate d"
    by (simp only: budget_def \<rho>) (simp add: power_numeral_reduce ac_simps)
  ultimately have x: "0 \<le> fl (seconds fl d * fl ?R)" "fl (seconds fl d * fl ?R) \<le> budget u rate d" by auto
  let ?t = "trunc (fl (seconds fl d * fl ?R))"
  have t: "0 \<le> ?t" "real_of_int ?t \<le> budget u rate d" using x by (auto simp: trunc_def intro: order_trans [OF of_int_floor_le])
  then have "real_of_int ?t < 2 ^ 63" using small by linarith
  then have "?t < 2 ^ 63" by simp
  with t show ?thesis by (simp only: earned_def \<rho>) (simp add: sint_of_int_eq)
qed

section \<open>The rate limit\<close>

definition tb_ok :: "token_bucket \<Rightarrow> bool" where
  "tb_ok tb \<longleftrightarrow> 0 \<le> sint (tbTokens tb) \<and> sint (tbTokens tb) \<le> sint (tbCapacity tb)"

text \<open>A run of \<open>Take\<close> calls at the given clock readings, and the sum of the amounts granted.\<close>

fun takes :: "(real \<Rightarrow> real) \<Rightarrow> (gotime \<times> int64) list \<Rightarrow> token_bucket \<Rightarrow> int \<times> token_bucket" where
  "takes fl [] tb = (0, tb)"
| "takes fl ((now, n) # calls) tb =
     (let (ok, tb1) = Take fl now n tb; (g, tb2) = takes fl calls tb1
      in ((if ok then sint n else 0) + g, tb2))"

fun clocked :: "gotime \<Rightarrow> (gotime \<times> int64) list \<Rightarrow> bool" where
  "clocked t [] = True"
| "clocked t ((now, n) # calls) \<longleftrightarrow> t \<le> now \<and> 0 \<le> sint n \<and> clocked now calls"

definition end_time :: "gotime \<Rightarrow> (gotime \<times> int64) list \<Rightarrow> gotime" where
  "end_time t calls = (if calls = [] then t else fst (last calls))"

lemma clocked_end: "clocked t calls \<Longrightarrow> t \<le> end_time t calls"
  by (induction t calls rule: clocked.induct) (auto simp: end_time_def)

lemma Take_tokens:
  assumes ok: "tb_ok tb" and n: "0 \<le> sint n"
    and e: "0 \<le> sint (earned fl (time_sub now (tbLastRefill tb)) (tbRefillRate tb))"
      "sint (tbTokens tb) + sint (earned fl (time_sub now (tbLastRefill tb)) (tbRefillRate tb)) < 2 ^ 63"
    and res: "Take fl now n tb = (granted, tb')"
  shows "tb_ok tb' \<and> tbLastRefill tb' = now \<and> tbCapacity tb' = tbCapacity tb \<and> tbRefillRate tb' = tbRefillRate tb
    \<and> sint (tbTokens tb') + (if granted then sint n else 0)
        \<le> sint (tbTokens tb) + sint (earned fl (time_sub now (tbLastRefill tb)) (tbRefillRate tb))"
proof -
  let ?e = "earned fl (time_sub now (tbLastRefill tb)) (tbRefillRate tb)"
  define w where "w = tbTokens (refill fl now tb)"
  have sum: "sint (tbTokens tb + ?e) = sint (tbTokens tb) + sint ?e"
    using ok e by (intro sint_add_eq) (auto simp: tb_ok_def)
  have w: "0 \<le> sint w" "sint w \<le> sint (tbCapacity tb)" "sint w \<le> sint (tbTokens tb) + sint ?e"
    using ok e(1) sum by (auto simp: w_def refill_def min64_def tb_ok_def)
  have "sint n \<le> sint w \<Longrightarrow> sint (w - n) = sint w - sint n"
    using n sint64_range(2) [of w] by (intro sint_diff_eq) simp_all
  with res w n show ?thesis
    by (auto simp: Take_def Let_def tb_ok_def w_def [symmetric] split: if_splits) (auto simp: refill_def)
qed

lemma Take_step:
  assumes fl: "rounding u fl" and ok: "tb_ok tb" and r: "0 \<le> sint (tbRefillRate tb)"
    and t: "tbLastRefill tb \<le> now" "now - tbLastRefill tb < 2 ^ 63" and n: "0 \<le> sint n"
    and small: "real_of_int (sint (tbCapacity tb)) + budget u (tbRefillRate tb) (now - tbLastRefill tb) < 2 ^ 63"
    and res: "Take fl now n tb = (granted, tb')"
  shows "tb_ok tb' \<and> tbLastRefill tb' = now \<and> tbCapacity tb' = tbCapacity tb \<and> tbRefillRate tb' = tbRefillRate tb
    \<and> real_of_int (sint (tbTokens tb') + (if granted then sint n else 0))
        \<le> real_of_int (sint (tbTokens tb)) + budget u (tbRefillRate tb) (now - tbLastRefill tb)"
proof -
  let ?d = "now - tbLastRefill tb"
  let ?B = "budget u (tbRefillRate tb) ?d"
  obtain T C E where T: "sint (tbTokens tb) = T" and C: "sint (tbCapacity tb) = C"
    and E: "sint (earned fl ?d (tbRefillRate tb)) = E" by blast
  have d: "time_sub now (tbLastRefill tb) = ?d" using t by (simp add: time_sub_def)
  have TC: "0 \<le> T" "T \<le> C" using ok T C by (simp_all add: tb_ok_def)
  have C': "real_of_int C + ?B < 2 ^ 63" using small C by (simp only:)
  have "0 \<le> real_of_int C" using TC by simp
  with C' have "?B < 2 ^ 63" by linarith
  then have E': "0 \<le> E" "real_of_int E \<le> ?B"
    using earned_bound [OF fl _ r, of ?d] t(1) by (simp_all only: E diff_ge_0_iff_ge)
  then have "real_of_int (T + E) < 2 ^ 63" using C' TC by linarith
  then have "T + E < 2 ^ 63" using of_int_less_iff [of "T + E" "2 ^ 63", where 'a = real] by simp
  then show ?thesis
    using Take_tokens [OF ok n _ _ res] E' unfolding d T E by (auto simp del: of_int_add intro: order_trans [of _ "real_of_int (T + E)"])
qed

lemma budget_nonneg: "0 \<le> u \<Longrightarrow> 0 \<le> sint rate \<Longrightarrow> 0 \<le> d \<Longrightarrow> 0 \<le> budget u rate d"
proof -
  assume u: "0 \<le> u" and "0 \<le> sint rate" and d: "0 \<le> d"
  then have "0 \<le> real_of_int (sint rate)" using of_int_0_le_iff by blast
  with u d show ?thesis unfolding budget_def by (intro mult_nonneg_nonneg divide_nonneg_nonneg) simp_all
qed

lemma takes_bound:
  assumes fl: "rounding u fl"
  shows "tb_ok tb \<Longrightarrow> 0 \<le> sint (tbRefillRate tb) \<Longrightarrow> clocked (tbLastRefill tb) calls
    \<Longrightarrow> end_time (tbLastRefill tb) calls - tbLastRefill tb < 2 ^ 63
    \<Longrightarrow> real_of_int (sint (tbCapacity tb))
          + budget u (tbRefillRate tb) (end_time (tbLastRefill tb) calls - tbLastRefill tb) < 2 ^ 63
    \<Longrightarrow> tb_ok (snd (takes fl calls tb)) \<and>
        real_of_int (fst (takes fl calls tb)) + real_of_int (sint (tbTokens (snd (takes fl calls tb))))
          \<le> real_of_int (sint (tbTokens tb))
            + budget u (tbRefillRate tb) (end_time (tbLastRefill tb) calls - tbLastRefill tb)"
proof (induction calls arbitrary: tb)
  case Nil
  then show ?case by (simp add: end_time_def budget_def)
next
  case (Cons c calls)
  obtain now n where c: "c = (now, n)" by (cases c)
  obtain granted tb1 where res: "Take fl now n tb = (granted, tb1)" by (cases "Take fl now n tb")
  let ?t0 = "tbLastRefill tb" and ?rate = "tbRefillRate tb"
  let ?stop = "end_time now calls"
  have u: "0 \<le> u" using fl by (simp add: rounding_def)
  have e: "end_time ?t0 (c # calls) = ?stop" by (simp add: end_time_def c)
  have times: "?t0 \<le> now" "now \<le> ?stop" "0 \<le> sint n" "clocked now calls"
    using Cons.prems(3) clocked_end by (auto simp: c)
  have split: "budget u ?rate (?stop - ?t0) = budget u ?rate (now - ?t0) + budget u ?rate (?stop - now)"
    using budget_add [of u ?rate "now - ?t0" "?stop - now"] by simp
  have pos: "0 \<le> budget u ?rate (now - ?t0)" "0 \<le> budget u ?rate (?stop - now)"
    using budget_nonneg [OF u Cons.prems(2)] times by simp_all
  have total: "real_of_int (sint (tbCapacity tb)) + budget u ?rate (?stop - ?t0) < 2 ^ 63" using Cons.prems(5) unfolding e .
  then have small: "real_of_int (sint (tbCapacity tb)) + budget u ?rate (now - ?t0) < 2 ^ 63"
    "real_of_int (sint (tbCapacity tb)) + budget u ?rate (?stop - now) < 2 ^ 63"
    using pos unfolding split by linarith+
  have short: "now - ?t0 < 2 ^ 63" "?stop - now < 2 ^ 63" using Cons.prems(4) times unfolding e by linarith+
  have step: "tb_ok tb1" "tbLastRefill tb1 = now" "tbCapacity tb1 = tbCapacity tb" "tbRefillRate tb1 = ?rate"
    "real_of_int (sint (tbTokens tb1) + (if granted then sint n else 0))
       \<le> real_of_int (sint (tbTokens tb)) + budget u ?rate (now - ?t0)"
    using Take_step [OF fl Cons.prems(1,2) times(1) short(1) times(3) small(1) res] by blast+
  have IH: "tb_ok (snd (takes fl calls tb1))"
    "real_of_int (fst (takes fl calls tb1)) + real_of_int (sint (tbTokens (snd (takes fl calls tb1))))
       \<le> real_of_int (sint (tbTokens tb1)) + budget u ?rate (?stop - now)"
    using Cons.IH [of tb1] step(1) Cons.prems(2) times(4) short(2) small(2) unfolding step(2-4) by blast+
  have "takes fl (c # calls) tb = ((if granted then sint n else 0) + fst (takes fl calls tb1), snd (takes fl calls tb1))"
    by (simp add: c res split_beta)
  with IH step(5) show ?case unfolding e split by (simp only: fst_conv snd_conv of_int_add simp_thms)
qed

text \<open>
  C30: the rate limit. However the calls are spread, the amounts a fresh bucket grants until time
  \<open>t\<close> sum up to at most the burst capacity plus rate times elapsed time, enlarged by five
  roundings of \<open>float64\<close>, and the token count stays between 0 and the capacity. The clock does
  not run backwards, requests are not negative and the total fits in an \<open>int64\<close>.
\<close>

theorem qos_rate_limit:
  assumes "rounding u fl" "0 \<le> sint capacity" "0 \<le> sint rate" "clocked t0 calls"
    and "end_time t0 calls - t0 < 2 ^ 63"
    and "real_of_int (sint capacity) + budget u rate (end_time t0 calls - t0) < 2 ^ 63"
  shows "real_of_int (fst (takes fl calls (NewTokenBucket t0 capacity rate)))
           \<le> real_of_int (sint capacity)
             + real_of_int (sint rate) * real_of_int (end_time t0 calls - t0) / 1000000000 * (1 + u) ^ 5
       \<and> tb_ok (snd (takes fl calls (NewTokenBucket t0 capacity rate)))"
proof -
  let ?tb = "NewTokenBucket t0 capacity rate"
  let ?T = "sint (tbTokens (snd (takes fl calls ?tb)))"
  have tb: "tb_ok ?tb" "tbRefillRate ?tb = rate" "tbLastRefill ?tb = t0" "tbCapacity ?tb = capacity"
    "tbTokens ?tb = capacity" using assms(2) by (simp_all add: NewTokenBucket_def tb_ok_def)
  have b: "tb_ok (snd (takes fl calls ?tb))"
    "real_of_int (fst (takes fl calls ?tb)) + real_of_int ?T
       \<le> real_of_int (sint capacity) + budget u rate (end_time t0 calls - t0)"
    using takes_bound [OF assms(1) tb(1), of calls] assms(3-6) unfolding tb(2-5) by blast+
  then have "0 \<le> real_of_int ?T" using of_int_0_le_iff unfolding tb_ok_def by blast
  with b show ?thesis unfolding budget_def by (intro conjI) linarith
qed

theorem qos_rate_limit_witness:
  "real_of_int (fst (takes id [(1000000000, 60), (1500000000, 60), (1600000000, 60)] (NewTokenBucket 1000000000 100 50))) \<le> 130"
proof -
  have "clocked 1000000000 [(1000000000, 60), (1500000000, 60), (1600000000, 60)]"
    "end_time 1000000000 [(1000000000, 60), (1500000000, 60), (1600000000, 60)] = 1600000000"
    by (simp_all add: end_time_def)
  then show ?thesis
    using qos_rate_limit [of 0 id 100 50 1000000000 "[(1000000000, 60), (1500000000, 60), (1600000000, 60)]"]
    by (simp add: rounding_def budget_def)
qed

section \<open>Requests that can never be served\<close>

lemma Take_fields:
  "tbCapacity (snd (Take fl now n tb)) = tbCapacity tb" "tbRefillRate (snd (Take fl now n tb)) = tbRefillRate tb"
  "tbLastRefill (snd (Take fl now n tb)) = now"
  by (simp_all add: Take_def refill_def Let_def)

lemma Take_oversize: "sint (tbCapacity tb) < sint n \<Longrightarrow> \<not> fst (Take fl now n tb)"
  by (auto simp: Take_def refill_def min64_def Let_def)

text \<open>
  A request larger than the bucket's capacity is never granted: \<open>Wait\<close> for more tokens than
  the burst size only returns when its context is cancelled, however long it polls, whatever
  the clock shows.
\<close>

theorem qos_oversize_never_granted:
  "sint (tbCapacity tb) < sint n \<Longrightarrow> fst (Wait fl polls n tb) \<noteq> Granted"
proof (induction polls arbitrary: tb)
  case (Cons p polls)
  obtain now ctx where p: "p = (now, ctx)" by (cases p)
  obtain ok tb1 where t: "Take fl now n tb = (ok, tb1)" by (cases "Take fl now n tb")
  have "\<not> ok" "tbCapacity tb1 = tbCapacity tb"
    using Take_oversize [OF Cons.prems, of fl now] Take_fields(1) [of fl now n tb] by (simp_all add: t)
  with Cons show ?case by (simp add: p t split: option.split)
qed simp

theorem qos_oversize_never_granted_witness:
  "fst (Wait id [(5, None), (1000000000, None), (2000000000, Some ''cancelled'')] 101 (NewTokenBucket 0 100 50)) \<noteq> Granted"
  by (rule qos_oversize_never_granted) (simp add: NewTokenBucket_def)

text \<open>The polls of a \<open>Wait\<close> that fall at most \<open>gap\<close> apart.\<close>

fun polled :: "duration \<Rightarrow> gotime \<Rightarrow> (gotime \<times> string option) list \<Rightarrow> bool" where
  "polled gap t [] = True"
| "polled gap t ((now, ctx) # polls) \<longleftrightarrow> t \<le> now \<and> now - t \<le> gap \<and> polled gap now polls"

lemma earned_nothing:
  assumes fl: "rounding u fl" and d: "0 \<le> d" and r: "0 \<le> sint rate" and "budget u rate d < 1"
  shows "earned fl d rate = 0"
proof -
  have "0 \<le> sint (earned fl d rate)" "real_of_int (sint (earned fl d rate)) \<le> budget u rate d"
    using earned_bound [OF fl d r] assms(4) by auto
  then have "real_of_int (sint (earned fl d rate)) < 1" using assms(4) by linarith
  then have "sint (earned fl d rate) < 1" using of_int_less_1_iff by blast
  with \<open>0 \<le> sint (earned fl d rate)\<close> have "sint (earned fl d rate) = sint (0 :: int64)" by simp
  then show ?thesis using signed_word_eqI by blast
qed

lemma budget_mono: "0 \<le> u \<Longrightarrow> 0 \<le> sint rate \<Longrightarrow> d \<le> e \<Longrightarrow> budget u rate d \<le> budget u rate e"
  using budget_add [of u rate d "e - d"] budget_nonneg [of u rate "e - d"] by simp

text \<open>
  Polling starves slow buckets. \<open>refill\<close> advances \<open>lastRefill\<close> on every call and drops the
  fraction of a token earned since, so when the rate earns less than one token per poll
  interval (below 100 tokens per second for the 10 ms polls of \<open>Wait\<close>) a request that exceeds
  the current tokens is never granted, although the bucket has the capacity.
\<close>

theorem qos_slow_bucket_starves:
  assumes "rounding u fl" "0 \<le> sint (tbRefillRate tb)" "budget u (tbRefillRate tb) gap < 1" "gap < 2 ^ 63"
    and "tb_ok tb" "sint (tbTokens tb) < sint n" "polled gap (tbLastRefill tb) polls"
  shows "fst (Wait fl polls n tb) \<noteq> Granted"
  using assms(2-7)
proof (induction polls arbitrary: tb)
  case (Cons p polls)
  obtain now ctx where p: "p = (now, ctx)" by (cases p)
  let ?d = "now - tbLastRefill tb"
  have u: "0 \<le> u" using assms(1) by (simp add: rounding_def)
  have d: "0 \<le> ?d" "?d \<le> gap" "polled gap now polls" using Cons.prems(6) by (simp_all add: p)
  then have "budget u (tbRefillRate tb) ?d < 1"
    using budget_mono [OF u Cons.prems(1) d(2)] Cons.prems(2) by linarith
  then have "earned fl ?d (tbRefillRate tb) = 0"
    using earned_nothing [OF assms(1) d(1) Cons.prems(1)] by blast
  moreover have "time_sub now (tbLastRefill tb) = ?d" using d Cons.prems(3) by (simp add: time_sub_def)
  ultimately have "tbTokens (refill fl now tb) = tbTokens tb"
    using Cons.prems(4) by (auto simp: refill_def min64_def tb_ok_def intro: signed_word_eqI)
  then have t: "Take fl now n tb = (False, refill fl now tb)" and ok: "tb_ok (refill fl now tb)"
    using Cons.prems(4,5) by (simp_all add: Take_def Let_def tb_ok_def) (simp add: refill_def)
  have "fst (Wait fl polls n (refill fl now tb)) \<noteq> Granted"
    using Cons.IH [of "refill fl now tb"] Cons.prems d(3) ok \<open>tbTokens (refill fl now tb) = tbTokens tb\<close>
    by (simp add: refill_def)
  then show ?case by (simp add: p t split: option.split)
qed simp

theorem qos_slow_bucket_starves_witness:
  "fst (Wait id [(10000000, None), (20000000, None), (30000000, Some ''cancelled'')] 5
     (NewTokenBucket 0 100 50\<lparr>tbTokens := 0\<rparr>)) \<noteq> Granted"
  by (rule qos_slow_bucket_starves [where u = 0 and gap = 10000000])
    (simp_all add: rounding_def budget_def NewTokenBucket_def tb_ok_def)

section \<open>The manager\<close>

text \<open>
  A configuration call with an unknown class name is not an error, as \<open>ErrClassNotFound\<close>
  announces, but silently reconfigures the default class: afterwards the traffic that has no
  class of its own runs at the bandwidth meant for the unknown class.
\<close>

theorem qos_unknown_class_hits_default:
  assumes "qmClasses qm name = None" "qmService qm name = None" "qmPeer qm name = None"
    and "qmDefault qm < length (qmHeap qm)"
  shows "qcBandwidth (clConfig (qmHeap (SetBandwidth now name bw qm) ! qmDefault qm)) = bw
       \<and> clBucket (qmHeap (SetBandwidth now name bw qm) ! qmDefault qm)
           = NewTokenBucket now (qcBurst (clConfig (qmHeap qm ! qmDefault qm))) bw"
  using assms by (simp add: SetBandwidth_def GetClass_def Let_def)

theorem qos_unknown_class_hits_default_witness:
  "qcBandwidth (clConfig (qmHeap (SetBandwidth 0 ''gaming'' 1 (NewQoSManager 0 PolicyPriority)) ! 0)) = 1"
  using qos_unknown_class_hits_default [of "NewQoSManager 0 PolicyPriority" "''gaming''" 0 1]
  by (simp add: NewQoSManager_def service_configs_def add_service_def Let_def)

end
