(* ===== verification/Dht_Routing.thy ===== *)
theory Dht_Routing
  imports Sec_PoW
begin

unbundle bit_operations_syntax

text \<open>
  Node identifiers, the XOR metric, k-buckets and the routing table of \<open>pkg/dht/dht.go\<close>, with
  \<open>PruneStale\<close> of \<open>pkg/dht/server.go\<close>. Peers are shared by pointer between the buckets and the
  node's peer map and are updated in place, so they live in a heap and a bucket is a list of
  references. A \<open>NodeID\<close> is a list of 32 bytes. A \<open>float64\<close> score is only copied and is kept as its
  bit pattern. \<open>sort.Slice\<close> and \<open>sort.SliceStable\<close> by distance are \<open>sort_key\<close>; the first one is not
  stable, but the distances of distinct identifiers differ.
\<close>

section \<open>Identifiers\<close>

definition NodeIDFromPub :: "(bytes \<Rightarrow> bytes) \<Rightarrow> bytes \<Rightarrow> bytes" where
  "NodeIDFromPub sha3 pub = sha3 pub"

definition NodeID_Xor :: "bytes \<Rightarrow> bytes \<Rightarrow> bytes" where
  "NodeID_Xor a b = map2 (XOR) a b"

text \<open>The inner loop of \<open>PrefixLen\<close>, from bit \<open>j - 1\<close> down; \<open>None\<close> when it falls through.\<close>

fun first_set_bit :: "nat \<Rightarrow> byte \<Rightarrow> nat option" where
  "first_set_bit 0 b = None"
| "first_set_bit (Suc j) b = (if b AND push_bit j 1 \<noteq> 0 then Some (7 - j) else first_set_bit j b)"

fun prefix_from :: "nat \<Rightarrow> bytes \<Rightarrow> nat" where
  "prefix_from i [] = 256"
| "prefix_from i (b # bs) =
     (if b = 0 then prefix_from (Suc i) bs
      else case first_set_bit 8 b of Some k \<Rightarrow> i * 8 + k | None \<Rightarrow> prefix_from (Suc i) bs)"

definition PrefixLen :: "bytes \<Rightarrow> nat" where
  "PrefixLen nid = prefix_from 0 nid"

definition BucketIndex :: "bytes \<Rightarrow> nat" where
  "BucketIndex nid = (let prefixLen = PrefixLen nid in if prefixLen > 255 then 0 else prefixLen)"

definition xorDist :: "bytes \<Rightarrow> bytes \<Rightarrow> bytes" where
  "xorDist a b = NodeID_Xor a b"

text \<open>\<open>bytes.Compare\<close>.\<close>

definition compareDist :: "bytes \<Rightarrow> bytes \<Rightarrow> int" where
  "compareDist a b = (if a < b then - 1 else if a = b then 0 else 1)"

section \<open>Peers and buckets\<close>

record peer_info =
  piID :: bytes
  piPublicKey :: bytes
  piName :: string
  piAddrs :: "string list"
  piServices :: "string list"
  piScore :: u64
  piLastSeen :: gotime
  piFirstSeen :: gotime
  piVersion :: string

type_synonym peer_heap = "peer_info list"

definition KBucketSize :: nat where "KBucketSize = 20"
definition Alpha :: nat where "Alpha = 3"
definition MaxHops :: nat where "MaxHops = 15"

fun find_ref :: "peer_heap \<Rightarrow> bytes \<Rightarrow> nat list \<Rightarrow> nat option" where
  "find_ref h i [] = None"
| "find_ref h i (r # rs) = (if piID (h ! r) = i then Some r else find_ref h i rs)"

definition KBucket_Add :: "gotime \<Rightarrow> peer_heap \<Rightarrow> nat list \<Rightarrow> nat \<Rightarrow> bool \<times> peer_heap \<times> nat list" where
  "KBucket_Add now h b p =
     (case find_ref h (piID (h ! p)) b of
        Some r \<Rightarrow> (False, h[r := (h ! r)\<lparr>piLastSeen := now, piScore := piScore (h ! p)\<rparr>], b)
      | None \<Rightarrow>
          if length b \<ge> KBucketSize then (False, h, b)
          else (True, h[p := (h ! p)\<lparr>piLastSeen := now\<rparr>], b @ [p]))"

fun KBucket_Remove :: "peer_heap \<Rightarrow> bytes \<Rightarrow> nat list \<Rightarrow> nat list" where
  "KBucket_Remove h i [] = []"
| "KBucket_Remove h i (r # rs) = (if piID (h ! r) = i then rs else r # KBucket_Remove h i rs)"

definition KBucket_GetClosest :: "peer_heap \<Rightarrow> nat \<Rightarrow> bytes \<Rightarrow> nat list \<Rightarrow> nat list" where
  "KBucket_GetClosest h n target b = take n (sort_key (\<lambda>r. xorDist (piID (h ! r)) target) b)"

section \<open>Routing table\<close>

record routing_table =
  rtLocalID :: bytes
  rtBuckets :: "nat list list"

definition NewRoutingTable :: "bytes \<Rightarrow> routing_table" where
  "NewRoutingTable localID = \<lparr>rtLocalID = localID, rtBuckets = replicate 256 []\<rparr>"

definition RoutingTable_Add :: "gotime \<Rightarrow> peer_heap \<Rightarrow> routing_table \<Rightarrow> nat \<Rightarrow> bool \<times> peer_heap \<times> routing_table" where
  "RoutingTable_Add now h rt p =
     (let i = BucketIndex (piID (h ! p)); (ok, h', b) = KBucket_Add now h (rtBuckets rt ! i) p
      in (ok, h', rt\<lparr>rtBuckets := (rtBuckets rt)[i := b]\<rparr>))"

definition RoutingTable_Remove :: "peer_heap \<Rightarrow> routing_table \<Rightarrow> bytes \<Rightarrow> routing_table" where
  "RoutingTable_Remove h rt nid =
     (let i = BucketIndex nid in rt\<lparr>rtBuckets := (rtBuckets rt)[i := KBucket_Remove h nid (rtBuckets rt ! i)]\<rparr>)"

definition AllPeers :: "routing_table \<Rightarrow> nat list" where
  "AllPeers rt = concat (rtBuckets rt)"

definition FindClosest :: "peer_heap \<Rightarrow> routing_table \<Rightarrow> bytes \<Rightarrow> nat \<Rightarrow> nat list" where
  "FindClosest h rt target n =
     (let result = concat (rtBuckets rt)
      in if length result = 0 then []
         else let sorted = sort_key (\<lambda>r. xorDist (piID (h ! r)) target) result
              in if length sorted > n then take n sorted else sorted)"

definition RoutingTable_Len :: "routing_table \<Rightarrow> nat" where
  "RoutingTable_Len rt = sum_list (map length (rtBuckets rt))"

text \<open>\<open>PruneStale\<close>: for each bucket a loop over a copy of it.\<close>

fun prune_bucket :: "peer_heap \<Rightarrow> gotime \<Rightarrow> nat list \<Rightarrow> nat list \<Rightarrow> nat list \<times> nat" where
  "prune_bucket h cutoff [] b = (b, 0)"
| "prune_bucket h cutoff (p # ps) b =
     (if piLastSeen (h ! p) < cutoff
      then (let (b', n) = prune_bucket h cutoff ps (KBucket_Remove h (piID (h ! p)) b) in (b', Suc n))
      else prune_bucket h cutoff ps b)"

definition PruneStale :: "gotime \<Rightarrow> peer_heap \<Rightarrow> duration \<Rightarrow> routing_table \<Rightarrow> nat \<times> routing_table" where
  "PruneStale now h ttl rt =
     (let cutoff = now - ttl; rs = map (\<lambda>b. prune_bucket h cutoff b b) (rtBuckets rt)
      in (sum_list (map snd rs), rt\<lparr>rtBuckets := map fst rs\<rparr>))"

section \<open>The metric\<close>

lemma length_Xor [simp]: "length (NodeID_Xor a b) = min (length a) (length b)"
  by (simp add: NodeID_Xor_def)

lemma Xor_Cons [simp]: "NodeID_Xor (x # a) (y # b) = (x XOR y) # NodeID_Xor a b"
  and Xor_Nil [simp]: "NodeID_Xor [] b = []"
  by (simp_all add: NodeID_Xor_def)

lemma xorDist_inj:
  "length a = length t \<Longrightarrow> length b = length t \<Longrightarrow> xorDist a t = xorDist b t \<longleftrightarrow> a = b"
proof (induction t arbitrary: a b)
  case (Cons y t)
  then obtain x a' x' b' where "a = x # a'" "b = x' # b'" by (metis length_Suc_conv)
  moreover have "x XOR y = x' XOR y \<longleftrightarrow> x = x'" for x x' :: byte
    by (metis xor.assoc xor.right_neutral xor_self_eq)
  ultimately show ?case using Cons by (auto simp: xorDist_def)
qed (simp add: xorDist_def)

lemma xorDist_sym: "xorDist a b = xorDist b a"
proof (induction a arbitrary: b)
  case (Cons x a)
  then show ?case by (cases b) (auto simp: xorDist_def NodeID_Xor_def xor.commute)
qed (simp add: xorDist_def NodeID_Xor_def)

text \<open>Lexicographic order of equally long byte strings is the order of the numbers they denote.\<close>

lemma bytes_less_iff_val: "length a = length b \<Longrightarrow> a < b \<longleftrightarrow> be_val a < be_val b"
proof (induction a arbitrary: b)
  case (Cons x a)
  then obtain y b' where b: "b = y # b'" and len: "length a = length b'" by (cases b) auto
  let ?n = "256 ^ length a :: nat"
  have ba: "be_val a < ?n" "be_val b' < ?n" using be_val_less [of a] be_val_less [of b'] len by simp_all
  have vals: "be_val (x # a) = unat x * ?n + be_val a" "be_val (y # b') = unat y * ?n + be_val b'"
    using len by (simp_all add: be_val_Cons)
  have gap: "unat u * ?n + p < unat v * ?n + q" if "unat u < unat v" "p < ?n" for u v :: byte and p q
  proof -
    have "Suc (unat u) * ?n \<le> unat v * ?n" using that(1) by (intro mult_le_mono1) simp
    with that(2) show ?thesis by simp
  qed
  consider "unat x < unat y" | "unat y < unat x" | "x = y" by (metis nat_neq_iff word_unat_eq_iff)
  then show ?case
  proof cases
    case 1
    with gap [of x y "be_val a" "be_val b'"] ba show ?thesis by (simp add: vals b word_less_nat_alt)
  next
    case 2
    with gap [of y x "be_val b'" "be_val a"] ba show ?thesis by (auto simp: vals b word_less_nat_alt)
  next
    case 3
    with Cons.IH [OF len] vals b show ?thesis by simp
  qed
qed simp

lemma first_set_bit_zero_bits:
  "j \<le> 8 \<Longrightarrow> first_set_bit j b = (if zero_bits_from j b = j then None else Some (8 - j + zero_bits_from j b))"
proof (induction j)
  case (Suc j)
  then show ?case using zero_bits_le [of j b] by auto
qed simp

lemma prefix_from_leadingZeroBits:
  "prefix_from i bs = (if set bs \<subseteq> {0} then 256 else i * 8 + leadingZeroBits bs)"
proof (induction bs arbitrary: i)
  case (Cons b bs)
  have "b \<noteq> 0 \<Longrightarrow> zero_bits_from 8 b \<noteq> 8"
    using byte_zero_bits [of 8 b] unat_eq_0 [of b] by auto
  with Cons show ?case by (auto simp: first_set_bit_zero_bits)
qed simp

lemma leadingZeroBits_zeros: "set bs \<subseteq> {0} \<Longrightarrow> leadingZeroBits bs = 8 * length bs"
  by (induction bs) auto

lemma PrefixLen_eq: "length nid = 32 \<Longrightarrow> PrefixLen nid = leadingZeroBits nid"
  by (simp add: PrefixLen_def prefix_from_leadingZeroBits leadingZeroBits_zeros)

lemma BucketIndex_less: "BucketIndex nid < 256"
  by (simp add: BucketIndex_def Let_def)

text \<open>
  A node identifier's bucket index is the length of its zero prefix: the identifier lies
  below \<open>2 ^ (256 - k)\<close> exactly for the \<open>k\<close> up to its prefix length. It is the prefix shared with
  the zero identifier and does not depend on the local node, against the Kademlia rule the
  comment quotes; the bit count agrees with the one the security package uses.
\<close>

theorem dht_prefixLen_numeric:
  assumes "length nid = 32" "k \<le> 256"
  shows "PrefixLen nid = leadingZeroBits nid \<and> (k \<le> PrefixLen nid \<longleftrightarrow> be_val nid < 2 ^ (256 - k))"
  using assms leadingZeroBits_iff [of k nid] by (simp add: PrefixLen_eq)

theorem dht_prefixLen_numeric_witness:
  "3 \<le> PrefixLen (0x1F # replicate 31 0) \<longleftrightarrow> be_val (0x1F # replicate 31 0) < 2 ^ (256 - 3)"
proof -
  have len: "length (0x1F # replicate 31 (0 :: byte)) = 32" and le: "(3 :: nat) \<le> 256" by simp_all
  show ?thesis by (rule conjunct2 [OF dht_prefixLen_numeric [OF len le]])
qed

section \<open>The invariant of the table\<close>

definition bucket_ok :: "peer_heap \<Rightarrow> nat \<Rightarrow> nat list \<Rightarrow> bool" where
  "bucket_ok h i b \<longleftrightarrow> length b \<le> KBucketSize \<and> distinct (map (\<lambda>r. piID (h ! r)) b)
     \<and> (\<forall>r\<in>set b. r < length h \<and> length (piID (h ! r)) = 32 \<and> BucketIndex (piID (h ! r)) = i)"

definition table_ok :: "peer_heap \<Rightarrow> routing_table \<Rightarrow> bool" where
  "table_ok h rt \<longleftrightarrow> length (rtBuckets rt) = 256 \<and> (\<forall>i<256. bucket_ok h i (rtBuckets rt ! i))"

lemma table_ok_New: "table_ok [] (NewRoutingTable localID)"
  by (simp add: table_ok_def NewRoutingTable_def bucket_ok_def)

text \<open>Updating peers in place keeps the invariant as long as no identifier changes.\<close>

definition same_ids :: "peer_heap \<Rightarrow> peer_heap \<Rightarrow> bool" where
  "same_ids h h' \<longleftrightarrow> length h \<le> length h' \<and> (\<forall>r < length h. piID (h' ! r) = piID (h ! r))"

lemma same_ids_refl [simp]: "same_ids h h" by (simp add: same_ids_def)

lemma same_ids_trans: "same_ids h h1 \<Longrightarrow> same_ids h1 h2 \<Longrightarrow> same_ids h h2"
  by (auto simp: same_ids_def)

lemma same_ids_update [simp]: "piID p = piID (h ! r) \<Longrightarrow> same_ids h (h[r := p])"
  by (cases "r < length h") (auto simp: same_ids_def nth_list_update)

lemma same_ids_append [simp]: "same_ids h (h @ h')"
  by (simp add: same_ids_def nth_append)

lemma bucket_ok_same_ids:
  assumes "bucket_ok h i b" "same_ids h h'"
  shows "bucket_ok h' i b"
proof -
  have "map (\<lambda>r. piID (h' ! r)) b = map (\<lambda>r. piID (h ! r)) b"
    using assms by (auto simp: bucket_ok_def same_ids_def)
  then have "distinct (map (\<lambda>r. piID (h' ! r)) b)" using assms(1) unfolding bucket_ok_def by metis
  with assms show ?thesis by (auto simp: bucket_ok_def same_ids_def)
qed

lemma table_ok_same_ids: "table_ok h rt \<Longrightarrow> same_ids h h' \<Longrightarrow> table_ok h' rt"
  by (auto simp: table_ok_def intro: bucket_ok_same_ids)

lemma find_ref_Some: "find_ref h i b = Some r \<Longrightarrow> r \<in> set b \<and> piID (h ! r) = i"
  by (induction b) (auto split: if_splits)

lemma find_ref_None: "find_ref h i b = None \<longleftrightarrow> i \<notin> (\<lambda>r. piID (h ! r)) ` set b"
  by (induction b) auto

lemma KBucket_Add_ids: "KBucket_Add now h b p = (ok, h', b') \<Longrightarrow> same_ids h h'"
  by (auto simp: KBucket_Add_def split: option.splits if_splits)

lemma KBucket_Add_ok:
  assumes "bucket_ok h i b" "p < length h" "length (piID (h ! p)) = 32" "BucketIndex (piID (h ! p)) = i"
    and "KBucket_Add now h b p = (ok, h', b')"
  shows "bucket_ok h' i b'"
proof -
  have ids: "same_ids h h'" using assms(5) by (rule KBucket_Add_ids)
  have "bucket_ok h i b'"
    using assms find_ref_None [of h "piID (h ! p)" b]
    by (auto simp: KBucket_Add_def bucket_ok_def split: option.splits if_splits)
  then show ?thesis using ids by (rule bucket_ok_same_ids)
qed

lemma RoutingTable_Add_ids: "RoutingTable_Add now h rt p = (ok, h', rt') \<Longrightarrow> same_ids h h'"
  by (auto simp: RoutingTable_Add_def Let_def split: prod.splits dest: KBucket_Add_ids)

lemma RoutingTable_Add_ok:
  assumes "table_ok h rt" "p < length h" "length (piID (h ! p)) = 32"
    and "RoutingTable_Add now h rt p = (ok, h', rt')"
  shows "table_ok h' rt'"
proof -
  let ?i = "BucketIndex (piID (h ! p))"
  obtain b where b: "KBucket_Add now h (rtBuckets rt ! ?i) p = (ok, h', b)"
    "rt' = rt\<lparr>rtBuckets := (rtBuckets rt)[?i := b]\<rparr>"
    using assms(4) by (auto simp: RoutingTable_Add_def Let_def split: prod.splits)
  have "bucket_ok h ?i (rtBuckets rt ! ?i)" using assms(1) BucketIndex_less by (simp add: table_ok_def)
  then have "bucket_ok h' ?i b" using KBucket_Add_ok [OF _ assms(2,3) refl b(1)] by blast
  moreover have "table_ok h' rt" using table_ok_same_ids [OF assms(1) KBucket_Add_ids [OF b(1)]] .
  ultimately show ?thesis unfolding table_ok_def b(2) by (auto simp: nth_list_update BucketIndex_less)
qed

lemma KBucket_Remove_subset: "set (KBucket_Remove h i b) \<subseteq> set b"
  by (induction b) auto

lemma KBucket_Remove_ok: "bucket_ok h i b \<Longrightarrow> bucket_ok h i (KBucket_Remove h j b)"
proof -
  have sub: "set (KBucket_Remove h j b) \<subseteq> set b" by (rule KBucket_Remove_subset)
  have "distinct (map (\<lambda>r. piID (h ! r)) b) \<Longrightarrow> distinct (map (\<lambda>r. piID (h ! r)) (KBucket_Remove h j b))"
    using KBucket_Remove_subset [of h j] by (induction b) auto
  moreover have "length (KBucket_Remove h j b) \<le> length b" by (induction b) auto
  ultimately show "bucket_ok h i b \<Longrightarrow> ?thesis" using sub unfolding bucket_ok_def by (meson order_trans subsetD)
qed

lemma ids_distinct:
  assumes "table_ok h rt"
  shows "distinct (map (\<lambda>r. piID (h ! r)) (AllPeers rt))"
proof -
  have "distinct (map (\<lambda>r. piID (h ! r)) (concat (map (\<lambda>i. rtBuckets rt ! i) [0..<n])))" if "n \<le> 256" for n
    using that
  proof (induction n)
    case (Suc n)
    have "bucket_ok h n (rtBuckets rt ! n)" using assms Suc.prems by (simp add: table_ok_def)
    moreover have "\<forall>i<n. bucket_ok h i (rtBuckets rt ! i)" using assms Suc.prems by (simp add: table_ok_def)
    ultimately show ?case using Suc by (fastforce simp: bucket_ok_def)
  qed simp
  moreover have "length (rtBuckets rt) = 256" using assms by (simp add: table_ok_def)
  ultimately show ?thesis by (metis AllPeers_def map_nth order_refl)
qed

lemma AllPeers_member: "table_ok h rt \<Longrightarrow> r \<in> set (AllPeers rt) \<Longrightarrow> r < length h \<and> length (piID (h ! r)) = 32"
proof -
  assume t: "table_ok h rt" and "r \<in> set (AllPeers rt)"
  then obtain i where "i < 256" "r \<in> set (rtBuckets rt ! i)"
    by (auto simp: AllPeers_def table_ok_def in_set_conv_nth [of _ "rtBuckets rt"])
  with t show ?thesis by (simp add: table_ok_def bucket_ok_def)
qed

section \<open>Closest peers\<close>

text \<open>The XOR distance of a stored peer as a number.\<close>

definition dist_val :: "peer_heap \<Rightarrow> bytes \<Rightarrow> nat \<Rightarrow> nat" where
  "dist_val h target r = be_val (xorDist (piID (h ! r)) target)"

lemma FindClosest_take:
  "FindClosest h rt target n = take n (sort_key (\<lambda>r. xorDist (piID (h ! r)) target) (AllPeers rt))"
proof (cases "AllPeers rt = []")
  case True
  then have "length (concat (rtBuckets rt)) = 0" by (simp only: AllPeers_def list.size)
  with True show ?thesis by (simp add: FindClosest_def)
next
  case False
  then have "length (concat (rtBuckets rt)) \<noteq> 0" unfolding AllPeers_def by (rule contrapos_nn) simp
  then show ?thesis unfolding FindClosest_def AllPeers_def Let_def by (simp only: if_False take_all_iff split: if_split) simp
qed

lemma sort_key_cong: "(\<And>x y. x \<in> set xs \<Longrightarrow> y \<in> set xs \<Longrightarrow> f x \<le> f y \<longleftrightarrow> g x \<le> g y) \<Longrightarrow> sort_key f xs = sort_key g xs"
proof -
  assume eq: "\<And>x y. x \<in> set xs \<Longrightarrow> y \<in> set xs \<Longrightarrow> f x \<le> f y \<longleftrightarrow> g x \<le> g y"
  have ins: "x \<in> set xs \<Longrightarrow> set ys \<subseteq> set xs \<Longrightarrow> insort_key f x ys = insort_key g x ys" for x ys
    by (induction ys) (auto simp: eq)
  have "set ys \<subseteq> set xs \<Longrightarrow> sort_key f ys = sort_key g ys" for ys
    by (induction ys) (auto simp: ins)
  then show ?thesis by simp
qed

lemma FindClosest_numeric:
  assumes "table_ok h rt" "length target = 32"
  shows "FindClosest h rt target n = take n (sort_key (dist_val h target) (AllPeers rt))"
proof -
  have "xorDist (piID (h ! r)) target \<le> xorDist (piID (h ! s)) target \<longleftrightarrow> dist_val h target r \<le> dist_val h target s"
    if "r \<in> set (AllPeers rt)" "s \<in> set (AllPeers rt)" for r s
  proof -
    have "length (xorDist (piID (h ! r)) target) = length (xorDist (piID (h ! s)) target)"
      using AllPeers_member [OF assms(1) that(1)] AllPeers_member [OF assms(1) that(2)] by (simp add: xorDist_def)
    then show ?thesis by (simp add: dist_val_def bytes_less_iff_val not_less [symmetric])
  qed
  then have "sort_key (\<lambda>r. xorDist (piID (h ! r)) target) (AllPeers rt) = sort_key (dist_val h target) (AllPeers rt)"
    by (rule sort_key_cong)
  then show ?thesis unfolding FindClosest_take by simp
qed

lemma dist_val_inj:
  assumes "table_ok h rt" "length target = 32"
  shows "inj_on (dist_val h target) (set (AllPeers rt))"
proof (rule inj_onI)
  fix r s
  assume r: "r \<in> set (AllPeers rt)" and s: "s \<in> set (AllPeers rt)" and eq: "dist_val h target r = dist_val h target s"
  let ?d = "\<lambda>r. xorDist (piID (h ! r)) target"
  have len: "length (piID (h ! r)) = 32" "length (piID (h ! s)) = 32"
    using AllPeers_member [OF assms(1)] r s by auto
  have "\<not> ?d r < ?d s" "\<not> ?d s < ?d r"
    using eq len assms(2) bytes_less_iff_val [of "?d r" "?d s"] bytes_less_iff_val [of "?d s" "?d r"]
    by (auto simp: dist_val_def xorDist_def)
  then have "?d r = ?d s" by simp
  then have "piID (h ! r) = piID (h ! s)" using len assms(2) by (simp add: xorDist_inj)
  then show "r = s" using ids_distinct [OF assms(1)] r s by (auto simp: distinct_map inj_on_def)
qed

lemma AllPeers_distinct: "table_ok h rt \<Longrightarrow> distinct (AllPeers rt)"
  using ids_distinct distinct_map by blast

text \<open>
  C21: \<open>FindClosest\<close> returns the closest peers. On a well-formed table it returns \<open>n\<close> peers, or all
  if there are fewer, in strictly increasing numeric XOR distance from the target, and every
  peer of the table it leaves out is farther away than every peer it returns.
\<close>

theorem dht_find_closest:
  assumes "table_ok h rt" "length target = 32"
  shows "length (FindClosest h rt target n) = min n (length (AllPeers rt))
       \<and> set (FindClosest h rt target n) \<subseteq> set (AllPeers rt)
       \<and> sorted_wrt (\<lambda>r s. dist_val h target r < dist_val h target s) (FindClosest h rt target n)
       \<and> (\<forall>r\<in>set (FindClosest h rt target n). \<forall>s\<in>set (AllPeers rt) - set (FindClosest h rt target n).
            dist_val h target r < dist_val h target s)"
proof -
  let ?S = "sort_key (dist_val h target) (AllPeers rt)"
  have inj: "inj_on (dist_val h target) (set ?S)" using dist_val_inj [OF assms] by simp
  have dist: "distinct ?S" using AllPeers_distinct [OF assms(1)] by simp
  have "sorted (map (dist_val h target) ?S)" "distinct (map (dist_val h target) ?S)"
    using inj dist by (simp_all add: distinct_map)
  then have strict: "sorted_wrt (\<lambda>r s. dist_val h target r < dist_val h target s) ?S"
    by (simp add: sorted_wrt_map strict_sorted_iff flip: sorted_wrt_map)
  have split: "set (AllPeers rt) = set (take n ?S) \<union> set (drop n ?S)"
    by (metis append_take_drop_id set_append set_sort)
  from strict have "sorted_wrt (\<lambda>r s. dist_val h target r < dist_val h target s) (take n ?S @ drop n ?S)" by simp
  then have "sorted_wrt (\<lambda>r s. dist_val h target r < dist_val h target s) (take n ?S)"
    "\<forall>r\<in>set (take n ?S). \<forall>s\<in>set (drop n ?S). dist_val h target r < dist_val h target s"
    unfolding sorted_wrt_append by blast+
  with split show ?thesis unfolding FindClosest_numeric [OF assms] by auto
qed

definition demo_peer :: "byte \<Rightarrow> peer_info" where
  "demo_peer x = \<lparr>piID = x # replicate 31 0, piPublicKey = replicate 32 x, piName = ''peer'', piAddrs = [''10.0.0.1:9094''],
     piServices = [], piScore = 0, piLastSeen = 50, piFirstSeen = 50, piVersion = []\<rparr>"

definition demo_heap :: peer_heap where "demo_heap = [demo_peer 0x81, demo_peer 0x82, demo_peer 0x42]"

definition demo_table :: routing_table where
  "demo_table = \<lparr>rtLocalID = replicate 32 0, rtBuckets = [[0, 1], [2]] @ replicate 254 []\<rparr>"

lemma demo_table_ok: "table_ok demo_heap demo_table"
proof -
  have b: "rtBuckets demo_table ! i = (if i = 0 then [0, 1] else if i = 1 then [2] else [])" if "i < 256" for i
    using that by (auto simp: demo_table_def nth_Cons split: nat.split)
  have "bucket_ok demo_heap 0 [0, 1]" "bucket_ok demo_heap 1 [2]" by code_simp+
  with b show ?thesis by (auto simp: table_ok_def bucket_ok_def demo_table_def)
qed

theorem dht_find_closest_witness:
  "length (FindClosest demo_heap demo_table (replicate 32 0) 2) = 2
   \<and> sorted_wrt (\<lambda>r s. dist_val demo_heap (replicate 32 0) r < dist_val demo_heap (replicate 32 0) s)
       (FindClosest demo_heap demo_table (replicate 32 0) 2)"
  using dht_find_closest [OF demo_table_ok, of "replicate 32 0" 2] by (simp add: AllPeers_def demo_table_def)

section \<open>Pruning\<close>

definition stale :: "peer_heap \<Rightarrow> gotime \<Rightarrow> nat \<Rightarrow> bool" where
  "stale h cutoff r \<longleftrightarrow> piLastSeen (h ! r) < cutoff"

lemma KBucket_Remove_filter:
  assumes "distinct (map (\<lambda>r. piID (h ! r)) b)" "p \<in> set b"
  shows "KBucket_Remove h (piID (h ! p)) b = filter (\<lambda>r. r \<noteq> p) b"
  using assms
proof (induction b)
  case (Cons r b)
  show ?case
  proof (cases "r = p")
    case True
    with Cons.prems(1) have "p \<notin> set b" by auto
    then have "filter (\<lambda>r. r \<noteq> p) b = b" by (auto simp: filter_id_conv)
    with True show ?thesis by simp
  next
    case False
    with Cons.prems have "p \<in> set b" "piID (h ! r) \<noteq> piID (h ! p)" by auto
    with False Cons show ?thesis by simp
  qed
qed simp

lemma prune_bucket_filter:
  "distinct (map (\<lambda>r. piID (h ! r)) b) \<Longrightarrow> set ps \<subseteq> set b \<Longrightarrow> distinct ps \<Longrightarrow>
   prune_bucket h c ps b = (filter (\<lambda>r. r \<notin> set ps \<or> \<not> stale h c r) b, length (filter (stale h c) ps))"
proof (induction ps arbitrary: b)
  case (Cons p ps)
  show ?case
  proof (cases "stale h c p")
    case True
    let ?b = "filter (\<lambda>r. r \<noteq> p) b"
    have r: "KBucket_Remove h (piID (h ! p)) b = ?b" using Cons.prems by (intro KBucket_Remove_filter) auto
    have d: "distinct (map (\<lambda>r. piID (h ! r)) ?b)" using Cons.prems(1) by (simp add: distinct_map_filter)
    have "set ps \<subseteq> set ?b" using Cons.prems by auto
    from Cons.IH [OF d this] Cons.prems(3) True r show ?thesis
      by (auto simp: stale_def intro!: filter_cong)
  next
    case False
    with Cons show ?thesis by (auto simp: stale_def intro!: filter_cong)
  qed
qed simp

lemma PruneStale_filter:
  assumes "table_ok h rt"
  shows "PruneStale now h ttl rt = (length (filter (stale h (now - ttl)) (AllPeers rt)),
     rt\<lparr>rtBuckets := map (filter (\<lambda>r. \<not> stale h (now - ttl) r)) (rtBuckets rt)\<rparr>)"
proof -
  have "prune_bucket h (now - ttl) b b = (filter (\<lambda>r. \<not> stale h (now - ttl) r) b, length (filter (stale h (now - ttl)) b))"
    if "b \<in> set (rtBuckets rt)" for b
  proof -
    have d: "distinct (map (\<lambda>r. piID (h ! r)) b)"
      using that assms by (auto simp: in_set_conv_nth table_ok_def bucket_ok_def)
    then have "distinct b" by (simp add: distinct_map)
    with prune_bucket_filter [OF d, of b "now - ttl"] show ?thesis by (auto intro!: filter_cong)
  qed
  then have "map (\<lambda>b. prune_bucket h (now - ttl) b b) (rtBuckets rt)
      = map (\<lambda>b. (filter (\<lambda>r. \<not> stale h (now - ttl) r) b, length (filter (stale h (now - ttl)) b))) (rtBuckets rt)"
    by simp
  then show ?thesis unfolding PruneStale_def Let_def
    by (simp only:) (simp add: AllPeers_def filter_concat length_concat comp_def)
qed

lemma PruneStale_ok: "table_ok h rt \<Longrightarrow> table_ok h (snd (PruneStale now h ttl rt))"
proof -
  assume t: "table_ok h rt"
  have "bucket_ok h i b \<Longrightarrow> bucket_ok h i (filter P b)" for i b and P :: "nat \<Rightarrow> bool"
    by (auto simp: bucket_ok_def distinct_map_filter intro: le_trans [OF length_filter_le])
  with t show ?thesis by (auto simp: PruneStale_filter table_ok_def)
qed

text \<open>
  Pruning is exact. \<open>PruneStale\<close> removes precisely the peers last seen before the cutoff,
  reports how many, and leaves a well-formed table with the others in their order.
\<close>

theorem dht_prune_exact:
  assumes "table_ok h rt"
  shows "AllPeers (snd (PruneStale now h ttl rt)) = filter (\<lambda>r. \<not> piLastSeen (h ! r) < now - ttl) (AllPeers rt)
       \<and> fst (PruneStale now h ttl rt) + length (AllPeers (snd (PruneStale now h ttl rt))) = length (AllPeers rt)
       \<and> table_ok h (snd (PruneStale now h ttl rt))"
  using PruneStale_ok [OF assms] sum_length_filter_compl [of "stale h (now - ttl)" "AllPeers rt"]
  by (simp add: PruneStale_filter [OF assms] AllPeers_def filter_concat stale_def)

theorem dht_prune_exact_witness: "AllPeers (snd (PruneStale 100 demo_heap 60 demo_table)) = [0, 1, 2]"
  using dht_prune_exact [OF demo_table_ok, of 100 60]
  by (simp add: AllPeers_def demo_table_def demo_heap_def demo_peer_def)

end
