(* ===== verification/Dht_Wire.thy ===== *)
theory Dht_Wire
  imports Dht_Routing
begin

text \<open>
  The DHT's wire formats, \<open>pkg/dht/dht.go\<close> and \<open>pkg/dht/server.go\<close>: the framing of requests and
  responses, the store and registration payloads, and the registration proof of work. The gob
  encoding of peer lists (\<open>encoding/gob\<close>, a self-describing stream) is a parameter of the
  components that use it.
\<close>

section \<open>Messages and framing\<close>

text \<open>\<open>MessageType\<close> is a byte, so unknown types exist.\<close>

definition MsgPing :: byte where "MsgPing = 1"
definition MsgPong :: byte where "MsgPong = 2"
definition MsgFindNode :: byte where "MsgFindNode = 3"
definition MsgFoundNode :: byte where "MsgFoundNode = 4"
definition MsgStore :: byte where "MsgStore = 5"
definition MsgFindValue :: byte where "MsgFindValue = 6"
definition MsgFoundValue :: byte where "MsgFoundValue = 7"
definition MsgRegisterNode :: byte where "MsgRegisterNode = 8"

lemmas msg_types = MsgPing_def MsgPong_def MsgFindNode_def MsgFoundNode_def MsgStore_def MsgFindValue_def
  MsgFoundValue_def MsgRegisterNode_def

record dht_message =
  mType :: byte
  mSrc :: bytes
  mDst :: bytes
  mPayload :: bytes

text \<open>What the client writes and, with the same layout, what the server answers.\<close>

definition write_message :: "dht_message \<Rightarrow> bytes" where
  "write_message m = [mType m] @ mSrc m @ mDst m @ put_u32 (word_of_nat (length (mPayload m))) @ mPayload m"

text \<open>The server's side of the connection: 65 bytes of header, a length it caps at 1 MiB, the payload.\<close>

definition server_read :: "bytes \<Rightarrow> dht_message option" where
  "server_read bs =
     (case read_full 65 bs of
        (Inl _, _) \<Rightarrow> None
      | (Inr hdr, r) \<Rightarrow>
          (case read_u32 r of
             (Inl _, _) \<Rightarrow> None
           | (Inr plLen, r') \<Rightarrow>
               if unat plLen > 2 ^ 20 then None
               else (case read_full (unat plLen) r' of
                       (Inl _, _) \<Rightarrow> None
                     | (Inr pl, _) \<Rightarrow>
                         Some \<lparr>mType = hd hdr, mSrc = take 32 (drop 1 hdr), mDst = take 32 (drop 33 hdr), mPayload = pl\<rparr>)))"

text \<open>The client's side: the fields are read one by one and the length is not capped.\<close>

definition client_read :: "dht_message reader" where
  "client_read =
     rbind (read_full 1) (\<lambda>ty. rbind (read_full 32) (\<lambda>src. rbind (read_full 32) (\<lambda>dst.
     rbind read_u32 (\<lambda>plLen. rbind (read_full (unat plLen)) (\<lambda>pl.
     rreturn \<lparr>mType = hd ty, mSrc = src, mDst = dst, mPayload = pl\<rparr>)))))"

definition message_ok :: "dht_message \<Rightarrow> bool" where
  "message_ok m \<longleftrightarrow> length (mSrc m) = 32 \<and> length (mDst m) = 32 \<and> length (mPayload m) < 2 ^ 32"

interpretation message_codec: wire_codec write_message client_read message_ok
  by unfold_locales
    (simp add: write_message_def client_read_def message_ok_def unat_cast wire_simps
      read_full_append [of "[_]", simplified])

lemma server_read_write:
  "message_ok m \<Longrightarrow> length (mPayload m) \<le> 2 ^ 20 \<Longrightarrow> server_read (write_message m @ r) = Some m"
proof -
  assume ok: "message_ok m" and le: "length (mPayload m) \<le> 2 ^ 20"
  let ?h = "mType m # mSrc m @ mDst m"
  let ?n = "put_u32 (word_of_nat (length (mPayload m)))"
  have w: "write_message m @ r = ?h @ ?n @ mPayload m @ r" by (simp add: write_message_def)
  have h: "read_full 65 (?h @ x) = (Inr ?h, x)" for x
    using ok by (intro read_full_append) (simp add: message_ok_def)
  have p: "read_full (length (mPayload m)) (mPayload m @ r) = (Inr (mPayload m), r)" by (rule read_full_append) simp
  have "take 32 (drop 1 ?h) = mSrc m" "take 32 (drop 33 ?h) = mDst m" using ok by (simp_all add: message_ok_def)
  with ok le show ?thesis
    unfolding server_read_def w h by (simp add: message_ok_def unat_cast read_u32_put p)
qed

lemma server_read_oversize:
  "message_ok m \<Longrightarrow> length (mPayload m) > 2 ^ 20 \<Longrightarrow> server_read (write_message m) = None"
proof -
  assume ok: "message_ok m" and gt: "length (mPayload m) > 2 ^ 20"
  let ?h = "mType m # mSrc m @ mDst m"
  have w: "write_message m = ?h @ put_u32 (word_of_nat (length (mPayload m))) @ mPayload m" by (simp add: write_message_def)
  have h: "read_full 65 (?h @ x) = (Inr ?h, x)" for x
    using ok by (intro read_full_append) (simp add: message_ok_def)
  from ok gt show ?thesis unfolding server_read_def w h by (simp add: message_ok_def unat_cast read_u32_put)
qed

section \<open>Store payloads\<close>

definition encodeStore :: "string \<Rightarrow> bytes \<Rightarrow> bytes" where
  "encodeStore key val = put_u16 (word_of_nat (length key)) @ str_bytes key @ val"

definition decodeStore :: "bytes \<Rightarrow> string \<times> bytes" where
  "decodeStore data =
     (if length data < 2 then ([], [])
      else let kLen = unat (get_u16 (take 2 data))
           in if length data < 2 + kLen then ([], [])
              else (bytes_str (take kLen (drop 2 data)), drop (2 + kLen) data))"

lemma decode_encodeStore: "short16 key \<Longrightarrow> decodeStore (encodeStore key val) = (key, val)"
  by (simp add: decodeStore_def encodeStore_def wire_simps)

section \<open>Registration payloads\<close>

definition registrationChallenge :: "bytes \<Rightarrow> string \<Rightarrow> string list \<Rightarrow> bytes" where
  "registrationChallenge pubKey name addrs =
     pubKey @ str_bytes name @ concat (map (\<lambda>a. word_of_nat (length a) # str_bytes a) addrs)"

text \<open>The loop over the addresses breaks at the second one, and at one that is too long.\<close>

definition addr_block :: "string list \<Rightarrow> bytes" where
  "addr_block addrs =
     (case addrs of [] \<Rightarrow> []
      | a # _ \<Rightarrow> if length a > 65535 then [] else put_u16 (word_of_nat (length a)) @ str_bytes a)"

text \<open>
  \<open>encodeRegister\<close>; \<open>copy\<close> of the nonce fills eight bytes. The block length is cast to 16 bits, so
  an address of 65534 or 65535 bytes makes it wrap.
\<close>

definition encodeRegister :: "peer_info \<Rightarrow> bytes \<Rightarrow> int \<Rightarrow> bytes" where
  "encodeRegister p nonce difficulty =
     (let name = take 65535 (str_bytes (piName p)); blk = addr_block (piAddrs p)
      in piPublicKey p @ take 8 (nonce @ replicate 8 0) @ [word_of_int difficulty]
         @ put_u16 (word_of_nat (length name)) @ name @ put_u16 (word_of_nat (length blk)) @ blk)"

function decode_addrs :: "bytes \<Rightarrow> string list option" where
  "decode_addrs blk =
     (if blk = [] then Some []
      else if length blk < 2 then None
      else let l = unat (get_u16 (take 2 blk)); rest = drop 2 blk
           in if l = 0 \<or> l > length rest then None
              else map_option (\<lambda>as. bytes_str (take l rest) # as) (decode_addrs (drop l rest)))"
  by pat_completeness auto
termination by (relation "measure length") auto

declare decode_addrs.simps [simp del]

record register_request =
  rrPubKey :: bytes
  rrNonce :: bytes
  rrDifficulty :: int
  rrName :: string
  rrAddrs :: "string list"

text \<open>\<open>decodeRegister\<close>: \<open>None\<close> is \<open>ok == false\<close>, on which the handler ignores the other results.\<close>

definition decodeRegister :: "bytes \<Rightarrow> register_request option" where
  "decodeRegister data =
     (if length data < 43 then None
      else let nameLen = unat (get_u16 (take 2 (drop 41 data)))
           in if length data < 43 + nameLen + 2 then None
              else let addrBase = 43 + nameLen; addrLen = unat (get_u16 (take 2 (drop addrBase data)))
                   in if length data < addrBase + 2 + addrLen then None
                      else map_option (\<lambda>addrs.
                             \<lparr>rrPubKey = take 32 data, rrNonce = take 8 (drop 32 data), rrDifficulty = uint (data ! 40),
                              rrName = bytes_str (take nameLen (drop 43 data)), rrAddrs = addrs\<rparr>)
                             (decode_addrs (take addrLen (drop (addrBase + 2) data))))"

section \<open>Registration proof of work\<close>

definition MinPoWDifficulty :: int where "MinPoWDifficulty = 8"
definition MaxPoWDifficulty :: int where "MaxPoWDifficulty = 24"
definition powNonceCeiling :: nat where "powNonceCeiling = 2 ^ 32"

datatype dht_pow_error = DifficultyOutOfRange | PowNonceSpaceExhausted

definition below_target :: "(bytes \<Rightarrow> bytes) \<Rightarrow> bytes \<Rightarrow> int \<Rightarrow> bytes \<Rightarrow> bool" where
  "below_target sha3 data difficulty nonce \<longleftrightarrow> be_val (sha3 (data @ nonce)) < 2 ^ nat (256 - difficulty)"

text \<open>The nonce loop has no cancellation, so it is the loop of the security package with none.\<close>

definition Dht_SolvePoW :: "(bytes \<Rightarrow> bytes) \<Rightarrow> bytes \<Rightarrow> int \<Rightarrow> dht_pow_error + bytes" where
  "Dht_SolvePoW sha3 data difficulty =
     (if difficulty < MinPoWDifficulty \<or> difficulty > MaxPoWDifficulty then Inl DifficultyOutOfRange
      else case nonce_search powNonceCeiling (\<lambda>_. None) (\<lambda>n. below_target sha3 data difficulty (be_bytes 8 n)) 0 of
             Inr n \<Rightarrow> Inr (be_bytes 8 n)
           | Inl _ \<Rightarrow> Inl PowNonceSpaceExhausted)"

definition Dht_VerifyPoW :: "(bytes \<Rightarrow> bytes) \<Rightarrow> bytes \<Rightarrow> bytes \<Rightarrow> int \<Rightarrow> bool" where
  "Dht_VerifyPoW sha3 data nonce difficulty =
     (if length nonce \<noteq> 8 then False
      else if difficulty < MinPoWDifficulty \<or> difficulty > MaxPoWDifficulty then False
      else below_target sha3 data difficulty nonce)"

section \<open>Round trips\<close>

text \<open>What a registration must satisfy to travel intact: its lengths fit their fields.\<close>

definition registrable :: "peer_info \<Rightarrow> bytes \<Rightarrow> int \<Rightarrow> bool" where
  "registrable p nonce difficulty \<longleftrightarrow> length (piPublicKey p) = 32 \<and> length nonce = 8 \<and> 0 \<le> difficulty \<and> difficulty < 256
     \<and> short16 (piName p) \<and> (case piAddrs p of [] \<Rightarrow> True | a # _ \<Rightarrow> a \<noteq> [] \<and> length a < 65534)"

lemma decode_addr_block:
  "(case addrs of [] \<Rightarrow> True | a # _ \<Rightarrow> a \<noteq> [] \<and> length a < 65534) \<Longrightarrow> decode_addrs (addr_block addrs) = Some (take 1 addrs)"
proof (cases addrs)
  case Nil
  then show ?thesis by (simp add: addr_block_def decode_addrs.simps)
next
  case (Cons a as)
  assume "case addrs of [] \<Rightarrow> True | a # _ \<Rightarrow> a \<noteq> [] \<and> length a < 65534"
  with Cons have a: "a \<noteq> []" "length a < 65534" by auto
  let ?blk = "put_u16 (word_of_nat (length a)) @ str_bytes a"
  have blk: "addr_block addrs = ?blk" using Cons a by (simp add: addr_block_def)
  have l: "unat (get_u16 (take 2 ?blk)) = length a" using a by (simp add: unat_cast)
  show ?thesis
    unfolding blk using a l Cons
    by (subst decode_addrs.simps) (simp add: Let_def decode_addrs.simps [of "[]"])
qed

lemma length_addr_block: "length (addr_block addrs) \<le> 65537"
  by (simp add: addr_block_def split: list.split)

lemma register_roundtrip:
  assumes "registrable p nonce difficulty"
  shows "decodeRegister (encodeRegister p nonce difficulty) =
    Some \<lparr>rrPubKey = piPublicKey p, rrNonce = nonce, rrDifficulty = difficulty, rrName = piName p,
          rrAddrs = take 1 (piAddrs p)\<rparr>"
proof -
  let ?L = "put_u16 (word_of_nat (length (piName p)))" and ?blk = "addr_block (piAddrs p)"
  let ?B = "put_u16 (word_of_nat (length ?blk))"
  define data where "data = encodeRegister p nonce difficulty"
  have len: "length (piPublicKey p) = 32" "length nonce = 8" "length (piName p) < 65536"
    and d: "0 \<le> difficulty" "difficulty < 256" using assms by (simp_all add: registrable_def short16_def)
  have data: "data = piPublicKey p @ nonce @ [word_of_int difficulty] @ ?L @ str_bytes (piName p) @ ?B @ ?blk"
    using len by (simp add: data_def encodeRegister_def Let_def)
  have blk: "length ?blk < 65536" using assms by (auto simp: registrable_def addr_block_def split: list.splits)
  have nameLen: "unat (get_u16 (take 2 (drop 41 data))) = length (piName p)"
    using len by (simp add: data unat_cast)
  define front where "front = piPublicKey p @ nonce @ [word_of_int difficulty] @ ?L @ str_bytes (piName p)"
  have tail: "drop (43 + length (piName p)) data = ?B @ ?blk"
  proof -
    have "data = front @ ?B @ ?blk" "length front = 43 + length (piName p)" using len by (simp_all add: data front_def)
    then show ?thesis by simp
  qed
  then have addrLen: "unat (get_u16 (take 2 (drop (43 + length (piName p)) data))) = length ?blk"
    using blk by (simp add: unat_cast)
  have "drop (43 + length (piName p) + 2) data = drop 2 (?B @ ?blk)" using tail by (simp only: drop_drop [symmetric] add.commute [of _ 2])
  then have rest: "take (length ?blk) (drop (43 + length (piName p) + 2) data) = ?blk" by simp
  have size: "length data = 45 + length (piName p) + length ?blk" using len by (simp add: data)
  have "uint (data ! 40) = difficulty"
    using len d by (simp add: data nth_append unsigned_of_int take_bit_int_eq_self)
  moreover have "take 32 data = piPublicKey p" "take 8 (drop 32 data) = nonce"
      "take (length (piName p)) (drop 43 data) = str_bytes (piName p)"
    using len by (simp_all add: data)
  moreover have "decode_addrs ?blk = Some (take 1 (piAddrs p))"
    using assms by (intro decode_addr_block) (simp add: registrable_def)
  ultimately show ?thesis
    unfolding data_def [symmetric] decodeRegister_def Let_def nameLen addrLen rest using size by simp
qed

text \<open>
  A registration announcement is read back as sent, except that only the first of the
  advertised addresses travels.
\<close>

theorem dht_register_roundtrip:
  assumes "registrable p nonce difficulty"
  shows "decodeRegister (encodeRegister p nonce difficulty) =
    Some \<lparr>rrPubKey = piPublicKey p, rrNonce = nonce, rrDifficulty = difficulty, rrName = piName p,
          rrAddrs = take 1 (piAddrs p)\<rparr>"
  using assms by (rule register_roundtrip)

theorem dht_register_roundtrip_witness:
  "rrAddrs (the (decodeRegister (encodeRegister (demo_peer 7) (replicate 8 1) 12))) = [''10.0.0.1:9094'']"
  using dht_register_roundtrip [of "demo_peer 7" "replicate 8 1" 12]
  by (simp add: registrable_def demo_peer_def short16_def)

text \<open>
  The challenge does not bind the address list. The name is not delimited in the pre-image,
  so a registration with a name and an address has the same pre-image as one whose name
  contains both and that has no address: work done for one is valid for the other.
\<close>

theorem dht_challenge_ambiguous:
  "length a < 256 \<Longrightarrow>
   registrationChallenge pub name (a # addrs) = registrationChallenge pub (name @ [char_of (length a)] @ a) addrs"
  by (simp add: registrationChallenge_def str_bytes_def)

theorem dht_challenge_ambiguous_witness:
  "registrationChallenge (replicate 32 1) ''alice'' [''10.0.0.1:9094'']
   = registrationChallenge (replicate 32 1) (''alice'' @ [char_of (length ''10.0.0.1:9094'')] @ ''10.0.0.1:9094'') []"
  using dht_challenge_ambiguous [of "''10.0.0.1:9094''" "replicate 32 1" "''alice''" "[]"] by (simp del: append_Cons append_Nil)

section \<open>The registration work is exact\<close>

lemma solved_nonce:
  assumes "Dht_SolvePoW sha3 data difficulty = Inr nonce"
  shows "Dht_VerifyPoW sha3 data nonce difficulty \<and> length nonce = 8 \<and> 8 \<le> difficulty \<and> difficulty \<le> 24"
proof -
  let ?good = "\<lambda>n. below_target sha3 data difficulty (be_bytes 8 n)"
  let ?r = "nonce_search powNonceCeiling (\<lambda>_. None) ?good 0"
  have range: "8 \<le> difficulty" "difficulty \<le> 24"
    using assms by (auto simp: Dht_SolvePoW_def MinPoWDifficulty_def MaxPoWDifficulty_def split: if_splits)
  then obtain k where k: "?r = Inr k" "nonce = be_bytes 8 k"
    using assms by (auto simp: Dht_SolvePoW_def MinPoWDifficulty_def MaxPoWDifficulty_def split: sum.splits)
  have "search_result powNonceCeiling (\<lambda>_. None) ?good 0 ?r" by (rule nonce_search_spec)
  with k range show ?thesis
    by (simp add: search_result_def Dht_VerifyPoW_def MinPoWDifficulty_def MaxPoWDifficulty_def)
qed

text \<open>
  Registration work. \<open>SolvePoW\<close> returns a nonce that \<open>VerifyPoW\<close> accepts for the same data
  and difficulty, the least one; it fails only for a difficulty outside 8 to 24 or when no nonce
  below \<open>2 ^ 32\<close> is accepted. For 256-bit hashes acceptance means \<open>difficulty\<close> leading zero bits.
\<close>

theorem dht_solve_exact:
  assumes "\<And>x. length (sha3 x) = 32"
  shows "case Dht_SolvePoW sha3 data difficulty of
     Inr nonce \<Rightarrow> Dht_VerifyPoW sha3 data nonce difficulty \<and> int (leadingZeroBits (sha3 (data @ nonce))) \<ge> difficulty
       \<and> (\<exists>k < 2 ^ 32. nonce = be_bytes 8 k \<and> (\<forall>j < k. \<not> Dht_VerifyPoW sha3 data (be_bytes 8 j) difficulty))
   | Inl e \<Rightarrow> (e = DifficultyOutOfRange \<and> \<not> (8 \<le> difficulty \<and> difficulty \<le> 24))
       \<or> (e = PowNonceSpaceExhausted \<and> (\<forall>j < 2 ^ 32. \<not> Dht_VerifyPoW sha3 data (be_bytes 8 j) difficulty))"
proof (cases "difficulty < MinPoWDifficulty \<or> difficulty > MaxPoWDifficulty")
  case True
  then show ?thesis by (auto simp: Dht_SolvePoW_def MinPoWDifficulty_def MaxPoWDifficulty_def)
next
  case False
  let ?good = "\<lambda>n. below_target sha3 data difficulty (be_bytes 8 n)"
  let ?r = "nonce_search powNonceCeiling (\<lambda>_. None) ?good 0"
  have verify: "Dht_VerifyPoW sha3 data (be_bytes 8 n) difficulty \<longleftrightarrow> ?good n" for n
    using False by (simp add: Dht_VerifyPoW_def)
  have range: "0 \<le> difficulty" "nat difficulty \<le> 256"
    using False by (simp_all add: MinPoWDifficulty_def MaxPoWDifficulty_def nat_le_iff)
  have lz: "?good n \<Longrightarrow> difficulty \<le> int (leadingZeroBits (sha3 (data @ be_bytes 8 n)))" for n
    using leadingZeroBits_iff [of "nat difficulty" "sha3 (data @ be_bytes 8 n)"] range assms
    by (simp add: below_target_def nat_diff_distrib)
  have spec: "search_result powNonceCeiling (\<lambda>_. None) ?good 0 ?r" by (rule nonce_search_spec)
  show ?thesis
  proof (cases ?r)
    case (Inl e)
    with spec False show ?thesis
      by (simp add: Dht_SolvePoW_def search_result_def powNonceCeiling_def verify)
  next
    case (Inr k)
    with spec False lz show ?thesis
      by (auto simp: Dht_SolvePoW_def search_result_def powNonceCeiling_def verify)
  qed
qed

theorem dht_solve_exact_witness:
  "\<exists>nonce. Dht_SolvePoW (\<lambda>_. replicate 32 0) [1, 2] 8 = Inr nonce \<and> Dht_VerifyPoW (\<lambda>_. replicate 32 0) [1, 2] nonce 8"
proof -
  have "Dht_SolvePoW (\<lambda>_. replicate 32 0) [1, 2] 8 = Inr (replicate 8 0)" by code_simp
  with dht_solve_exact [of "\<lambda>_. replicate 32 0" 8 "[1, 2]"] show ?thesis by simp
qed

end
