(* ===== verification/Dht_Node.thy ===== *)
theory Dht_Node
  imports Dht_Wire
begin

text \<open>
  A DHT node as a server: its state, the message handler and the connection handlers of
  \<open>pkg/dht/server.go\<close>, and the peer bookkeeping of \<open>pkg/dht/dht.go\<close>. The peers of the routing table
  and of the map \<open>peers\<close> are the same heap objects. \<open>gob\<close> stands for the gob encoding of a list of
  \<open>simplePeer\<close> values, \<open>ungob\<close> for its decoding.
\<close>

section \<open>Peer lists\<close>

record simple_peer =
  spID :: bytes
  spPublicKey :: bytes
  spName :: string
  spAddrs :: "string list"
  spServices :: "string list"
  spScore :: u64
  spVersion :: string

definition encodePeerList :: "(simple_peer list \<Rightarrow> bytes) \<Rightarrow> peer_info list \<Rightarrow> bytes" where
  "encodePeerList gob peers =
     gob (map (\<lambda>p. \<lparr>spID = piID p, spPublicKey = piPublicKey p, spName = piName p, spAddrs = piAddrs p,
                    spServices = piServices p, spScore = piScore p, spVersion = piVersion p\<rparr>) peers)"

definition decodePeerList :: "(bytes \<Rightarrow> string + simple_peer list) \<Rightarrow> gotime \<Rightarrow> bytes \<Rightarrow> string + peer_info list" where
  "decodePeerList ungob now data =
     (case ungob data of
        Inl e \<Rightarrow> Inl e
      | Inr ts \<Rightarrow> Inr (map (\<lambda>t. \<lparr>piID = spID t, piPublicKey = spPublicKey t, piName = spName t, piAddrs = spAddrs t,
                               piServices = spServices t, piScore = spScore t, piLastSeen = now, piFirstSeen = 0,
                               piVersion = spVersion t\<rparr>) ts))"

section \<open>Node state\<close>

record dht_node =
  ndID :: bytes
  ndPubKey :: bytes
  ndName :: string
  ndTable :: routing_table
  ndPeers :: "bytes \<Rightarrow> nat option"
  ndStore :: "string \<Rightarrow> bytes option"
  ndListenAddr :: string
  ndBootstrap :: "string list"
  ndHeap :: peer_heap

definition NewNode :: "bytes \<Rightarrow> bytes \<Rightarrow> string \<Rightarrow> dht_node" where
  "NewNode localID pubKey name =
     \<lparr>ndID = localID, ndPubKey = pubKey, ndName = name, ndTable = NewRoutingTable localID, ndPeers = Map.empty,
      ndStore = Map.empty, ndListenAddr = [], ndBootstrap = [], ndHeap = []\<rparr>"

definition selfInfo :: "gotime \<Rightarrow> dht_node \<Rightarrow> peer_info" where
  "selfInfo now n =
     \<lparr>piID = ndID n, piPublicKey = ndPubKey n, piName = ndName n,
      piAddrs = (if ndListenAddr n \<noteq> [] then [ndListenAddr n] else []), piServices = [], piScore = 0,
      piLastSeen = 0, piFirstSeen = now, piVersion = []\<rparr>"

definition localValue :: "dht_node \<Rightarrow> string \<Rightarrow> bytes option" where
  "localValue n key = ndStore n key"

definition setListenAddr :: "string \<Rightarrow> dht_node \<Rightarrow> dht_node" where
  "setListenAddr addr n = n\<lparr>ndListenAddr := addr\<rparr>"

text \<open>
  Recording a peer, the same code in \<open>storePeer\<close> and in the registration branch: a known peer is
  overwritten in place, a new one is allocated, entered in the map and offered to the table.
\<close>

definition put_peer :: "gotime \<Rightarrow> peer_info \<Rightarrow> dht_node \<Rightarrow> dht_node" where
  "put_peer now p n =
     (case ndPeers n (piID p) of
        Some r \<Rightarrow> n\<lparr>ndHeap := (ndHeap n)[r := p]\<rparr>
      | None \<Rightarrow>
          let r = length (ndHeap n);
              (_, h, rt) = RoutingTable_Add now (ndHeap n @ [p]) (ndTable n) r
          in n\<lparr>ndPeers := (ndPeers n)(piID p \<mapsto> r), ndHeap := h, ndTable := rt\<rparr>)"

definition storePeer :: "gotime \<Rightarrow> peer_info \<Rightarrow> dht_node \<Rightarrow> dht_node" where
  "storePeer now p n = put_peer now p n"

text \<open>The bit pattern of the \<open>float64\<close> 0.5.\<close>

definition half_score :: u64 where "half_score = 0x3FE0000000000000"

section \<open>The message handler\<close>

definition handleMessage ::
  "(bytes \<Rightarrow> bytes) \<Rightarrow> (simple_peer list \<Rightarrow> bytes) \<Rightarrow> gotime \<Rightarrow> gotime \<Rightarrow> dht_node \<Rightarrow> dht_message
     \<Rightarrow> dht_message \<times> dht_node" where
  "handleMessage sha3 gob now now' n msg =
     (let pong = \<lparr>mType = MsgPong, mSrc = ndID n, mDst = mSrc msg, mPayload = []\<rparr>
      in if mType msg = MsgPing then (pong, n)
         else if mType msg = MsgFindNode then
           (let target = copy32 (mPayload msg);
                peers = FindClosest (ndHeap n) (ndTable n) target KBucketSize;
                out = selfInfo now n # map (\<lambda>r. ndHeap n ! r) peers
            in (\<lparr>mType = MsgFoundNode, mSrc = ndID n, mDst = mSrc msg, mPayload = encodePeerList gob out\<rparr>, n))
         else if mType msg = MsgStore then
           (let (key, val) = decodeStore (mPayload msg)
            in (pong, if key \<noteq> [] then n\<lparr>ndStore := (ndStore n)(key \<mapsto> val)\<rparr> else n))
         else if mType msg = MsgFindValue then
           (let (key, _) = decodeStore (mPayload msg)
            in case ndStore n key of
                 Some val \<Rightarrow>
                   (\<lparr>mType = MsgFoundValue, mSrc = ndID n, mDst = mSrc msg, mPayload = encodeStore key val\<rparr>, n)
               | None \<Rightarrow>
                   (\<lparr>mType = MsgFoundNode, mSrc = ndID n, mDst = mSrc msg, mPayload = encodePeerList gob []\<rparr>, n))
         else if mType msg = MsgRegisterNode then
           (case decodeRegister (mPayload msg) of
              None \<Rightarrow> (pong, n)
            | Some q \<Rightarrow>
                if \<not> Dht_VerifyPoW sha3 (registrationChallenge (rrPubKey q) (rrName q) (rrAddrs q)) (rrNonce q) (rrDifficulty q)
                then (pong, n)
                else if mSrc msg \<noteq> NodeIDFromPub sha3 (rrPubKey q) then (pong, n)
                else (pong, put_peer now'
                        \<lparr>piID = mSrc msg, piPublicKey = rrPubKey q, piName = rrName q, piAddrs = rrAddrs q, piServices = [],
                         piScore = half_score, piLastSeen = 0, piFirstSeen = now, piVersion = []\<rparr> n))
         else (pong, n))"

text \<open>
  \<open>Server.handleConn\<close> and \<open>WireProtocol.Handle\<close> on the bytes received from a connection: the bytes
  written back and the new state.
\<close>

definition handleConn ::
  "(bytes \<Rightarrow> bytes) \<Rightarrow> (simple_peer list \<Rightarrow> bytes) \<Rightarrow> gotime \<Rightarrow> gotime \<Rightarrow> dht_node \<Rightarrow> bytes \<Rightarrow> bytes \<times> dht_node" where
  "handleConn sha3 gob now now' n bs =
     (case server_read bs of
        None \<Rightarrow> ([], n)
      | Some msg \<Rightarrow> (let (resp, n') = handleMessage sha3 gob now now' n msg in (write_message resp, n')))"

definition WireProtocol_Handle ::
  "(bytes \<Rightarrow> bytes) \<Rightarrow> (simple_peer list \<Rightarrow> bytes) \<Rightarrow> gotime \<Rightarrow> gotime \<Rightarrow> dht_node \<Rightarrow> bytes \<Rightarrow> bytes \<times> dht_node" where
  "WireProtocol_Handle sha3 gob now now' n bs =
     (case server_read bs of
        None \<Rightarrow> ([], n)
      | Some msg \<Rightarrow> (let (resp, n') = handleMessage sha3 gob now now' n msg in (write_message resp, n')))"

section \<open>The server object\<close>

text \<open>A listener is represented by the address it is bound to.\<close>

record dht_server =
  svListener :: "string option"
  svClosed :: bool
  svAdvertised :: string

datatype server_error = ServerClosed | ListenFailed string

definition NewServer :: dht_server where
  "NewServer = \<lparr>svListener = None, svClosed = False, svAdvertised = []\<rparr>"

definition Server_Start :: "(string \<Rightarrow> string + string) \<Rightarrow> string \<Rightarrow> dht_server \<Rightarrow> dht_node
     \<Rightarrow> server_error option \<times> dht_server \<times> dht_node" where
  "Server_Start listen addr s n =
     (if svClosed s then (Some ServerClosed, s, n)
      else case listen addr of
             Inl e \<Rightarrow> (Some (ListenFailed e), s, n)
           | Inr bound \<Rightarrow> (None, s\<lparr>svListener := Some bound\<rparr>, setListenAddr bound n))"

definition Server_Addr :: "dht_server \<Rightarrow> string" where
  "Server_Addr s = (case svListener s of None \<Rightarrow> [] | Some a \<Rightarrow> a)"

definition SetAdvertisedAddr :: "string \<Rightarrow> dht_server \<Rightarrow> dht_server" where
  "SetAdvertisedAddr addr s = s\<lparr>svAdvertised := addr\<rparr>"

definition AdvertisedAddr :: "dht_server \<Rightarrow> string" where
  "AdvertisedAddr s =
     (if svAdvertised s \<noteq> [] then svAdvertised s else case svListener s of None \<Rightarrow> [] | Some a \<Rightarrow> a)"

definition Server_Stop :: "dht_server \<Rightarrow> dht_server" where
  "Server_Stop s = s\<lparr>svClosed := True\<rparr>"

section \<open>The invariant of a node\<close>

definition node_ok :: "dht_node \<Rightarrow> bool" where
  "node_ok n \<longleftrightarrow> table_ok (ndHeap n) (ndTable n)
     \<and> (\<forall>i r. ndPeers n i = Some r \<longrightarrow> r < length (ndHeap n) \<and> piID (ndHeap n ! r) = i \<and> length i = 32)
     \<and> (\<forall>r\<in>set (AllPeers (ndTable n)). ndPeers n (piID (ndHeap n ! r)) = Some r)"

lemma node_ok_New: "node_ok (NewNode localID pubKey name)"
  using table_ok_New by (simp add: node_ok_def NewNode_def AllPeers_def NewRoutingTable_def)

lemma AllPeers_Add:
  "RoutingTable_Add now h rt p = (ok, h', rt') \<Longrightarrow> set (AllPeers rt') \<subseteq> insert p (set (AllPeers rt))"
proof -
  assume a: "RoutingTable_Add now h rt p = (ok, h', rt')"
  let ?i = "BucketIndex (piID (h ! p))"
  obtain b where b: "KBucket_Add now h (rtBuckets rt ! ?i) p = (ok, h', b)" "rt' = rt\<lparr>rtBuckets := (rtBuckets rt)[?i := b]\<rparr>"
    using a by (auto simp: RoutingTable_Add_def Let_def split: prod.splits)
  have sub: "set b \<subseteq> insert p (set (rtBuckets rt ! ?i))"
    using b(1) by (auto simp: KBucket_Add_def split: option.splits if_splits)
  show ?thesis
  proof (cases "?i < length (rtBuckets rt)")
    case True
    then have "set (rtBuckets rt ! ?i) \<subseteq> set (AllPeers rt)" by (auto simp: AllPeers_def intro: nth_mem)
    moreover have "set (rtBuckets rt') \<subseteq> insert b (set (rtBuckets rt))" by (simp add: b(2) set_update_subset_insert)
    ultimately show ?thesis using sub by (auto simp: AllPeers_def)
  next
    case False
    then have "rtBuckets rt' = rtBuckets rt" by (simp add: b(2) list_update_beyond)
    then show ?thesis by (auto simp: AllPeers_def)
  qed
qed

lemma put_peer_ok:
  assumes ok: "node_ok n" and len: "length (piID p) = 32"
  shows "node_ok (put_peer now p n)"
proof (cases "ndPeers n (piID p)")
  case (Some r)
  then have r: "r < length (ndHeap n)" "piID (ndHeap n ! r) = piID p" using ok by (auto simp: node_ok_def)
  then have ids: "same_ids (ndHeap n) ((ndHeap n)[r := p])" by simp
  then have same: "piID ((ndHeap n)[r := p] ! s) = piID (ndHeap n ! s)" if "s < length (ndHeap n)" for s
    using that by (simp add: same_ids_def)
  have "table_ok ((ndHeap n)[r := p]) (ndTable n)" using ok ids by (auto simp: node_ok_def intro: table_ok_same_ids)
  moreover have "s < length (ndHeap n)" if "s \<in> set (AllPeers (ndTable n))" for s
    using ok that AllPeers_member by (auto simp: node_ok_def)
  ultimately show ?thesis using ok same Some by (auto simp: node_ok_def put_peer_def)
next
  case None
  let ?h = "ndHeap n @ [p]" and ?r = "length (ndHeap n)"
  obtain b h rt where add: "RoutingTable_Add now ?h (ndTable n) ?r = (b, h, rt)"
    by (metis prod_cases3)
  have t: "table_ok ?h (ndTable n)" using ok by (auto simp: node_ok_def intro: table_ok_same_ids)
  have ids: "same_ids ?h h" using add by (rule RoutingTable_Add_ids)
  then have old: "s < length h \<and> piID (h ! s) = piID (ndHeap n ! s)" if "s < length (ndHeap n)" for s
    using that by (auto simp: same_ids_def nth_append dest: spec [of _ s])
  have new: "?r < length h" "piID (h ! ?r) = piID p" using ids by (auto simp: same_ids_def nth_append dest: spec [of _ ?r])
  have tab: "table_ok h rt" using RoutingTable_Add_ok [OF t _ _ add] len by simp
  have sub: "set (AllPeers rt) \<subseteq> insert ?r (set (AllPeers (ndTable n)))" using add by (rule AllPeers_Add)
  have bound: "s < length (ndHeap n)" if "s \<in> set (AllPeers (ndTable n))" for s
    using ok that AllPeers_member by (auto simp: node_ok_def)
  have map: "r < length h \<and> piID (h ! r) = i \<and> length i = 32" if "((ndPeers n)(piID p \<mapsto> ?r)) i = Some r" for i r
  proof (cases "i = piID p")
    case False
    with that ok have "r < length (ndHeap n) \<and> piID (ndHeap n ! r) = i \<and> length i = 32" by (auto simp: node_ok_def)
    with old [of r] show ?thesis by simp
  qed (use that new len in auto)
  have inverse: "((ndPeers n)(piID p \<mapsto> ?r)) (piID (h ! s)) = Some s" if "s \<in> set (AllPeers rt)" for s
  proof (cases "s = ?r")
    case False
    then have s: "s \<in> set (AllPeers (ndTable n))" using sub that by auto
    then have "ndPeers n (piID (ndHeap n ! s)) = Some s" using ok by (simp add: node_ok_def)
    with None old [OF bound [OF s]] show ?thesis by auto
  qed (simp add: new)
  from tab map inverse show ?thesis by (simp add: node_ok_def put_peer_def None add Let_def)
qed

section \<open>The handler\<close>

lemmas handler_simps = handleMessage_def Let_def msg_types

lemma handleMessage_register:
  assumes "mType msg = MsgRegisterNode" "decodeRegister (mPayload msg) = Some q"
    and "Dht_VerifyPoW sha3 (registrationChallenge (rrPubKey q) (rrName q) (rrAddrs q)) (rrNonce q) (rrDifficulty q)"
    and "mSrc msg = NodeIDFromPub sha3 (rrPubKey q)"
  shows "snd (handleMessage sha3 gob now now' n msg) = put_peer now'
    \<lparr>piID = mSrc msg, piPublicKey = rrPubKey q, piName = rrName q, piAddrs = rrAddrs q, piServices = [],
     piScore = half_score, piLastSeen = 0, piFirstSeen = now, piVersion = []\<rparr> n"
  using assms by (simp add: handler_simps)

lemma handleMessage_cases:
  obtains (kept) "ndPeers (snd (handleMessage sha3 gob now now' n msg)) = ndPeers n"
      "ndHeap (snd (handleMessage sha3 gob now now' n msg)) = ndHeap n"
      "ndTable (snd (handleMessage sha3 gob now now' n msg)) = ndTable n"
  | (registered) q where "mType msg = MsgRegisterNode" "decodeRegister (mPayload msg) = Some q"
      "Dht_VerifyPoW sha3 (registrationChallenge (rrPubKey q) (rrName q) (rrAddrs q)) (rrNonce q) (rrDifficulty q)"
      "mSrc msg = NodeIDFromPub sha3 (rrPubKey q)"
proof (cases "mType msg = MsgRegisterNode")
  case False
  have "ndPeers (snd (handleMessage sha3 gob now now' n msg)) = ndPeers n
      \<and> ndHeap (snd (handleMessage sha3 gob now now' n msg)) = ndHeap n
      \<and> ndTable (snd (handleMessage sha3 gob now now' n msg)) = ndTable n"
    using False by (simp add: handler_simps split: prod.splits option.splits)
  with kept show ?thesis by blast
next
  case True
  show ?thesis
  proof (cases "decodeRegister (mPayload msg)")
    case None
    with True kept show ?thesis by (simp add: handler_simps)
  next
    case (Some q)
    show ?thesis
    proof (cases "Dht_VerifyPoW sha3 (registrationChallenge (rrPubKey q) (rrName q) (rrAddrs q)) (rrNonce q) (rrDifficulty q)
        \<and> mSrc msg = NodeIDFromPub sha3 (rrPubKey q)")
      case valid: True
      with True Some registered [of q] show ?thesis by blast
    next
      case invalid: False
      then have "snd (handleMessage sha3 gob now now' n msg) = n"
        using True Some by (auto simp: handler_simps)
      with kept show ?thesis by simp
    qed
  qed
qed

interpretation node: operations "\<lambda>n (now, now', msg). snd (handleMessage sha3 gob now now' n msg)"
  "\<lambda>n. (\<forall>x. length (sha3 x) = 32) \<longrightarrow> node_ok n" for sha3 gob
proof
  fix n and c :: "gotime \<times> gotime \<times> dht_message"
  assume inv: "(\<forall>x. length (sha3 x) = 32) \<longrightarrow> node_ok n"
  obtain now now' msg where c: "c = (now, now', msg)" by (cases c) auto
  let ?n = "snd (handleMessage sha3 gob now now' n msg)"
  have "node_ok ?n" if len: "\<forall>x. length (sha3 x) = 32"
  proof (rule handleMessage_cases [of sha3 gob now now' n msg])
    assume "ndPeers ?n = ndPeers n" "ndHeap ?n = ndHeap n" "ndTable ?n = ndTable n"
    with inv len show ?thesis by (simp add: node_ok_def)
  next
    fix q
    assume "mType msg = MsgRegisterNode" "decodeRegister (mPayload msg) = Some q"
      "Dht_VerifyPoW sha3 (registrationChallenge (rrPubKey q) (rrName q) (rrAddrs q)) (rrNonce q) (rrDifficulty q)"
      "mSrc msg = NodeIDFromPub sha3 (rrPubKey q)"
    with inv len show ?thesis by (simp add: handleMessage_register put_peer_ok NodeIDFromPub_def)
  qed
  with c show "(\<forall>x. length (sha3 x) = 32) \<longrightarrow>
      node_ok (case c of (now, now', msg) \<Rightarrow> snd (handleMessage sha3 gob now now' n msg))" by simp
qed

text \<open>
  C22: a node serving any sequence of messages stays well formed: every bucket holds at most 20
  peers, in the bucket of their identifier and without duplicates, and the table and the peer
  map point to the same peers.
\<close>

theorem dht_node_wellformed:
  assumes "\<And>x. length (sha3 x) = 32"
  shows "node_ok (foldl (\<lambda>n (now, now', msg). snd (handleMessage sha3 gob now now' n msg)) (NewNode i pub name) msgs)"
  using node.run_inv [of sha3 "NewNode i pub name" gob msgs] assms by (simp add: node_ok_New)

theorem dht_node_wellformed_witness:
  "node_ok (snd (handleMessage (\<lambda>_. replicate 32 0) (\<lambda>_. []) 5 6 (NewNode (replicate 32 1) (replicate 32 2) ''n'')
     \<lparr>mType = 8, mSrc = replicate 32 0, mDst = replicate 32 1, mPayload = encodeRegister (demo_peer 7) (replicate 8 0) 8\<rparr>))"
  using dht_node_wellformed [of "\<lambda>_. replicate 32 0" "\<lambda>_. []" "replicate 32 1" "replicate 32 2" "''n''"
      "[(5, 6, \<lparr>mType = 8, mSrc = replicate 32 0, mDst = replicate 32 1,
                mPayload = encodeRegister (demo_peer 7) (replicate 8 0) 8\<rparr>)]"]
  by simp

text \<open>
  C1: the anti-Sybil gate. Handling a message changes the peers a node knows, its table or any
  peer's details only when the message is a registration whose payload decodes, whose proof of
  work verifies at the difficulty it names, between 8 and 24, and whose sender is the hash of
  the public key in it.
\<close>

theorem dht_register_gate:
  assumes "ndPeers n' \<noteq> ndPeers n \<or> ndTable n' \<noteq> ndTable n \<or> ndHeap n' \<noteq> ndHeap n"
    and "handleMessage sha3 gob now now' n msg = (resp, n')"
  shows "mType msg = MsgRegisterNode \<and>
    (\<exists>q. decodeRegister (mPayload msg) = Some q \<and> mSrc msg = NodeIDFromPub sha3 (rrPubKey q)
       \<and> 8 \<le> rrDifficulty q \<and> rrDifficulty q \<le> 24
       \<and> be_val (sha3 (registrationChallenge (rrPubKey q) (rrName q) (rrAddrs q) @ rrNonce q))
           < 2 ^ nat (256 - rrDifficulty q))"
proof (rule handleMessage_cases [of sha3 gob now now' n msg])
  assume "ndPeers (snd (handleMessage sha3 gob now now' n msg)) = ndPeers n"
    "ndHeap (snd (handleMessage sha3 gob now now' n msg)) = ndHeap n"
    "ndTable (snd (handleMessage sha3 gob now now' n msg)) = ndTable n"
  with assms show ?thesis by simp
qed (auto simp: Dht_VerifyPoW_def below_target_def MinPoWDifficulty_def MaxPoWDifficulty_def split: if_splits)

definition demo_node :: dht_node where
  "demo_node = NewNode (replicate 32 1) (replicate 32 2) ''node''"

definition demo_register :: dht_message where
  "demo_register = \<lparr>mType = 8, mSrc = replicate 32 0, mDst = replicate 32 1,
     mPayload = encodeRegister (demo_peer 7) (replicate 8 0) 8\<rparr>"

lemma demo_register_decoded:
  "decodeRegister (mPayload demo_register) = Some \<lparr>rrPubKey = replicate 32 7, rrNonce = replicate 8 0, rrDifficulty = 8,
     rrName = ''peer'', rrAddrs = [''10.0.0.1:9094'']\<rparr>"
  using register_roundtrip [of "demo_peer 7" "replicate 8 0" 8]
  by (simp add: demo_register_def registrable_def demo_peer_def short16_def)

lemma zero_hash_val: "be_val (replicate 32 0) = 0" by code_simp

lemma demo_registered:
  "snd (handleMessage (\<lambda>_. replicate 32 0) gob now now' n demo_register) = put_peer now'
     \<lparr>piID = replicate 32 0, piPublicKey = replicate 32 7, piName = ''peer'', piAddrs = [''10.0.0.1:9094''],
      piServices = [], piScore = half_score, piLastSeen = 0, piFirstSeen = now, piVersion = []\<rparr> n"
proof -
  have "snd (handleMessage (\<lambda>_. replicate 32 0) gob now now' n demo_register) = put_peer now'
     \<lparr>piID = mSrc demo_register, piPublicKey = replicate 32 7, piName = ''peer'', piAddrs = [''10.0.0.1:9094''],
      piServices = [], piScore = half_score, piLastSeen = 0, piFirstSeen = now, piVersion = []\<rparr> n"
    using handleMessage_register [OF _ demo_register_decoded, of "\<lambda>_. replicate 32 0" gob now now' n]
    by (simp add: demo_register_def msg_types Dht_VerifyPoW_def below_target_def MinPoWDifficulty_def
        MaxPoWDifficulty_def NodeIDFromPub_def zero_hash_val)
  then show ?thesis by (simp add: demo_register_def)
qed

theorem dht_register_gate_witness: "mType demo_register = MsgRegisterNode"
proof -
  let ?n = "snd (handleMessage (\<lambda>_. replicate 32 0) (\<lambda>_. []) 5 6 demo_node demo_register)"
  have "ndPeers ?n (replicate 32 0) = Some 0" "ndPeers demo_node (replicate 32 0) = None"
    by (simp_all add: demo_registered put_peer_def demo_node_def NewNode_def split: prod.split)
  then have "ndPeers ?n \<noteq> ndPeers demo_node" by force
  then show ?thesis
    using dht_register_gate [of ?n demo_node "\<lambda>_. replicate 32 0" "\<lambda>_. []" 5 6 demo_register
        "fst (handleMessage (\<lambda>_. replicate 32 0) (\<lambda>_. []) 5 6 demo_node demo_register)"] by simp
qed

section \<open>Values\<close>

lemma handle_store:
  "short16 key \<Longrightarrow> key \<noteq> [] \<Longrightarrow>
   snd (handleMessage sha3 gob now now' n \<lparr>mType = MsgStore, mSrc = s, mDst = d, mPayload = encodeStore key val\<rparr>)
     = n\<lparr>ndStore := (ndStore n)(key \<mapsto> val)\<rparr>"
  by (simp add: handler_simps decode_encodeStore)

lemma handle_find_value:
  "short16 key \<Longrightarrow>
   handleMessage sha3 gob now now' n \<lparr>mType = MsgFindValue, mSrc = s, mDst = d, mPayload = encodeStore key []\<rparr> =
     (case ndStore n key of
        Some val \<Rightarrow> (\<lparr>mType = MsgFoundValue, mSrc = ndID n, mDst = s, mPayload = encodeStore key val\<rparr>, n)
      | None \<Rightarrow> (\<lparr>mType = MsgFoundNode, mSrc = ndID n, mDst = s, mPayload = encodePeerList gob []\<rparr>, n))"
  by (simp add: handler_simps decode_encodeStore split: option.split)

text \<open>
  Over the wire, a store followed by a find-value returns the value. The bytes of the two
  requests are handled by the server's connection handler, and the client decodes the answer
  to the key and the value stored, for keys shorter than 64 KiB and payloads the framing
  admits.
\<close>

theorem dht_store_then_find:
  assumes "short16 key" "key \<noteq> []" "length s = 32" "length d = 32" "length (ndID n) = 32"
    and "length (encodeStore key val) \<le> 2 ^ 20"
    and "handleConn sha3 gob t0 t1 n (write_message \<lparr>mType = MsgStore, mSrc = s, mDst = d, mPayload = encodeStore key val\<rparr>)
         = (b1, n1)"
    and "handleConn sha3 gob t2 t3 n1 (write_message \<lparr>mType = MsgFindValue, mSrc = s, mDst = d, mPayload = encodeStore key []\<rparr>)
         = (b2, n2)"
  shows "\<exists>resp. client_read b2 = (Inr resp, []) \<and> mType resp = MsgFoundValue \<and> decodeStore (mPayload resp) = (key, val)"
proof -
  have small: "length (encodeStore key []) \<le> 2 ^ 20" using assms(6) by (simp add: encodeStore_def)
  have framed: "server_read (write_message \<lparr>mType = ty, mSrc = s, mDst = d, mPayload = x\<rparr>)
      = Some \<lparr>mType = ty, mSrc = s, mDst = d, mPayload = x\<rparr>" if "length x \<le> 2 ^ 20" for ty x
    using server_read_write [of "\<lparr>mType = ty, mSrc = s, mDst = d, mPayload = x\<rparr>" "[]"] that assms(3,4)
    by (simp add: message_ok_def)
  have n1: "n1 = n\<lparr>ndStore := (ndStore n)(key \<mapsto> val)\<rparr>"
    using assms(7) handle_store [OF assms(1,2), of sha3 gob t0 t1 n s d val]
    by (auto simp: handleConn_def framed [OF assms(6)] split: prod.splits)
  let ?resp = "\<lparr>mType = MsgFoundValue, mSrc = ndID n, mDst = s, mPayload = encodeStore key val\<rparr>"
  have "b2 = write_message ?resp"
    using assms(8) by (auto simp: handleConn_def framed [OF small] handle_find_value [OF assms(1)] n1)
  moreover have "message_ok ?resp" using assms(3,5,6) by (simp add: message_ok_def)
  ultimately show ?thesis
    using message_codec.dec_enc_end [of ?resp] decode_encodeStore [OF assms(1), of val] by auto
qed

theorem dht_store_then_find_witness:
  "\<exists>resp. client_read (fst (handleConn (\<lambda>_. []) (\<lambda>_. []) 3 4
       (snd (handleConn (\<lambda>_. []) (\<lambda>_. []) 1 2 demo_node
          (write_message \<lparr>mType = MsgStore, mSrc = replicate 32 5, mDst = replicate 32 1, mPayload = encodeStore ''pkg'' [1, 2, 3]\<rparr>)))
       (write_message \<lparr>mType = MsgFindValue, mSrc = replicate 32 5, mDst = replicate 32 1, mPayload = encodeStore ''pkg'' []\<rparr>)))
     = (Inr resp, []) \<and> mType resp = MsgFoundValue \<and> decodeStore (mPayload resp) = (''pkg'', [1, 2, 3])"
  by (rule dht_store_then_find [where n = demo_node and s = "replicate 32 5" and d = "replicate 32 1", OF _ _ _ _ _ _
        prod.collapse [symmetric] prod.collapse [symmetric]])
    (simp_all add: short16_def demo_node_def NewNode_def encodeStore_def)

section \<open>Registering again\<close>

text \<open>
  Registering again loses the peer. A known peer that registers a second time has its
  details overwritten by a record whose \<open>LastSeen\<close> is the zero time, so the next \<open>PruneStale\<close>
  drops it from the table although it has just been heard of; it stays in the peer map, so
  that no later registration enters it in the table again.
\<close>

theorem dht_reregistration_evicts:
  assumes "node_ok n" "ndPeers n (mSrc msg) = Some r" "mType msg = MsgRegisterNode"
    and "decodeRegister (mPayload msg) = Some q"
    and "Dht_VerifyPoW sha3 (registrationChallenge (rrPubKey q) (rrName q) (rrAddrs q)) (rrNonce q) (rrDifficulty q)"
    and "mSrc msg = NodeIDFromPub sha3 (rrPubKey q)" "0 < t - ttl"
    and "handleMessage sha3 gob now now' n msg = (resp, n')"
  shows "r \<notin> set (AllPeers (snd (PruneStale t (ndHeap n') ttl (ndTable n'))))
       \<and> ndPeers n' (mSrc msg) = Some r
       \<and> AllPeers (ndTable (snd (handleMessage sha3 gob now2 now2'
            (n'\<lparr>ndTable := snd (PruneStale t (ndHeap n') ttl (ndTable n'))\<rparr>) msg)))
         = AllPeers (snd (PruneStale t (ndHeap n') ttl (ndTable n')))"
proof -
  let ?p = "\<lambda>now. \<lparr>piID = mSrc msg, piPublicKey = rrPubKey q, piName = rrName q, piAddrs = rrAddrs q, piServices = [],
     piScore = half_score, piLastSeen = 0, piFirstSeen = now, piVersion = []\<rparr>"
  have n': "n' = put_peer now' (?p now) n"
    using handleMessage_register [OF assms(3-6), of gob now now' n] assms(8) by simp
  then have upd: "n' = n\<lparr>ndHeap := (ndHeap n)[r := ?p now]\<rparr>" using assms(2) by (simp add: put_peer_def)
  have r: "r < length (ndHeap n)" "length (mSrc msg) = 32" using assms(1,2) by (auto simp: node_ok_def)
  have "table_ok (ndHeap n') (ndTable n')" using put_peer_ok [OF assms(1), of "?p now" now'] r n' by (simp add: node_ok_def)
  then have "r \<notin> set (AllPeers (snd (PruneStale t (ndHeap n') ttl (ndTable n'))))"
    using r assms(7) by (auto simp: PruneStale_filter AllPeers_def stale_def upd)
  moreover have "ndTable (put_peer now2' (?p now2) (n'\<lparr>ndTable := x\<rparr>)) = x" for x
    using assms(2) upd by (simp add: put_peer_def)
  ultimately show ?thesis
    using handleMessage_register [OF assms(3-6), of gob now2 now2'] assms(2) upd by simp
qed

definition demo_joined :: dht_node where
  "demo_joined = snd (handleMessage (\<lambda>_. replicate 32 0) (\<lambda>_. []) 5 6 demo_node demo_register)"

lemma demo_joined_ok: "node_ok demo_joined" "ndPeers demo_joined (mSrc demo_register) = Some 0"
  by (simp_all add: demo_joined_def demo_registered put_peer_ok node_ok_New demo_node_def)
    (simp add: put_peer_def NewNode_def demo_register_def split: prod.split)

theorem dht_reregistration_evicts_witness:
  "0 \<notin> set (AllPeers (snd (PruneStale 100
     (ndHeap (snd (handleMessage (\<lambda>_. replicate 32 0) (\<lambda>_. []) 80 81 demo_joined demo_register))) 60
     (ndTable (snd (handleMessage (\<lambda>_. replicate 32 0) (\<lambda>_. []) 80 81 demo_joined demo_register))))))"
  using dht_reregistration_evicts [OF demo_joined_ok _ demo_register_decoded _ _ _ prod.collapse [symmetric],
      of "\<lambda>_. replicate 32 0" 100 60 "\<lambda>_. []" 80 81]
  by (simp add: demo_register_def msg_types Dht_VerifyPoW_def below_target_def MinPoWDifficulty_def
      MaxPoWDifficulty_def NodeIDFromPub_def zero_hash_val)

end
