(* ===== verification/Dht_Client.thy ===== *)
theory Dht_Client
  imports Dht_Node
begin

text \<open>
  The DHT as a client, type \<open>DHT\<close> of \<open>pkg/dht/dht.go\<close>: bootstrap, iterative lookup, reading and
  writing values, and announcing a node. The network is a parameter: \<open>net k addr\<close> is the outcome of
  the \<open>k\<close>-th dial, an error or a connection, and a connection is the function from the bytes the
  client writes to the bytes it then reads. \<open>clk k\<close> is the clock at the \<open>k\<close>-th call and \<open>ctxErr i\<close> the
  answer of the \<open>i\<close>-th \<open>ctx.Err()\<close>. Lookups work on detached copies, so their shortlists hold values.
\<close>

section \<open>Remote calls\<close>

type_synonym network = "nat \<Rightarrow> string \<Rightarrow> string + (bytes \<Rightarrow> bytes)"

datatype call_error = DialFailed string | CallIo io_error

definition Call :: "network \<Rightarrow> nat \<Rightarrow> string \<Rightarrow> dht_message \<Rightarrow> call_error + dht_message" where
  "Call net k addr msg =
     (case net k addr of
        Inl e \<Rightarrow> Inl (DialFailed e)
      | Inr conn \<Rightarrow>
          (case client_read (conn (write_message msg)) of
             (Inl e, _) \<Rightarrow> Inl (CallIo e)
           | (Inr resp, _) \<Rightarrow> Inr resp))"

datatype dht_error = ErrNodeRunning | ErrNotRunning | ErrNoPeers | ErrValueNotFound | ErrPoWFailed
  | CtxError string | IndexOutOfRange

record dht =
  dhLocalID :: bytes
  dhNode :: dht_node
  dhRunning :: bool

definition NewDHT :: "bytes \<Rightarrow> bytes \<Rightarrow> string \<Rightarrow> dht" where
  "NewDHT localID pubKey name = \<lparr>dhLocalID = localID, dhNode = NewNode localID pubKey name, dhRunning = False\<rparr>"

definition Dht_Stop :: "dht \<Rightarrow> dht" where
  "Dht_Stop d = d\<lparr>dhRunning := False\<rparr>"

definition PeerCount :: "dht \<Rightarrow> nat" where
  "PeerCount d = RoutingTable_Len (ndTable (dhNode d))"

section \<open>Bootstrap\<close>

definition found_peers ::
  "(bytes \<Rightarrow> string + simple_peer list) \<Rightarrow> gotime \<Rightarrow> call_error + dht_message \<Rightarrow> peer_info list" where
  "found_peers ungob now r =
     (case r of
        Inl _ \<Rightarrow> []
      | Inr resp \<Rightarrow>
          if mType resp = MsgFoundNode
          then (case decodePeerList ungob now (mPayload resp) of Inl _ \<Rightarrow> [] | Inr ps \<Rightarrow> ps)
          else [])"

fun boot_loop ::
  "network \<Rightarrow> (bytes \<Rightarrow> string + simple_peer list) \<Rightarrow> (nat \<Rightarrow> gotime) \<Rightarrow> bytes \<Rightarrow> nat \<Rightarrow> string list \<Rightarrow> dht_node \<Rightarrow> dht_node" where
  "boot_loop net ungob clk localID k [] n = n"
| "boot_loop net ungob clk localID k (addr # addrs) n =
     (let msg = \<lparr>mType = MsgFindNode, mSrc = localID, mDst = localID, mPayload = localID\<rparr>;
          ps = found_peers ungob (clk k) (Call net k addr msg)
      in boot_loop net ungob clk localID (Suc k) addrs (foldl (\<lambda>n p. storePeer (clk k) p n) n ps))"

definition Bootstrap ::
  "network \<Rightarrow> (bytes \<Rightarrow> string + simple_peer list) \<Rightarrow> (nat \<Rightarrow> gotime) \<Rightarrow> string list \<Rightarrow> dht \<Rightarrow> dht_error option \<times> dht" where
  "Bootstrap net ungob clk addrs d =
     (if dhRunning d then (Some ErrNodeRunning, d)
      else (None, d\<lparr>dhRunning := True,
                    dhNode := boot_loop net ungob clk (dhLocalID d) 0 addrs ((dhNode d)\<lparr>ndBootstrap := addrs\<rparr>)\<rparr>))"

section \<open>Lookup\<close>

definition detachPeers :: "peer_heap \<Rightarrow> nat list \<Rightarrow> peer_info list" where
  "detachPeers h rs = map (\<lambda>r. h ! r) rs"

definition sortPeersByDistance :: "bytes \<Rightarrow> peer_info list \<Rightarrow> peer_info list" where
  "sortPeersByDistance target ps = sort_key (\<lambda>p. xorDist (piID p) target) ps"

fun dedupe :: "nat \<Rightarrow> (bytes \<Rightarrow> bool) \<Rightarrow> peer_info list \<Rightarrow> peer_info list \<Rightarrow> peer_info list" where
  "dedupe n seen out [] = out"
| "dedupe n seen out (p # ps) =
     (if seen (piID p) then dedupe n seen out ps
      else if length (out @ [p]) = n then out @ [p]
      else dedupe n (seen(piID p := True)) (out @ [p]) ps)"

definition dedupeAndPrune :: "bytes \<Rightarrow> nat \<Rightarrow> peer_info list \<Rightarrow> peer_info list" where
  "dedupeAndPrune target n ps = dedupe n (\<lambda>_. False) [] (sortPeersByDistance target ps)"

fun pick_batch :: "(bytes \<Rightarrow> bool) \<Rightarrow> peer_info list \<Rightarrow> peer_info list \<Rightarrow> peer_info list \<times> (bytes \<Rightarrow> bool)" where
  "pick_batch queried batch [] = (batch, queried)"
| "pick_batch queried batch (p # ps) =
     (if length batch \<ge> Alpha then (batch, queried)
      else if queried (piID p) then pick_batch queried batch ps
      else if piAddrs p = [] then pick_batch (queried(piID p := True)) batch ps
      else pick_batch (queried(piID p := True)) (batch @ [p]) ps)"

record lookup_state =
  lsNode :: dht_node
  lsShortlist :: "peer_info list"
  lsProgressed :: bool
  lsCalls :: nat

definition absorb :: "gotime \<Rightarrow> lookup_state \<Rightarrow> peer_info \<Rightarrow> lookup_state" where
  "absorb now st fp =
     st\<lparr>lsProgressed := lsProgressed st \<or> ndPeers (lsNode st) (piID fp) = None,
        lsNode := storePeer now fp (lsNode st),
        lsShortlist := lsShortlist st @ [fp]\<rparr>"

fun query_batch ::
  "network \<Rightarrow> (bytes \<Rightarrow> string + simple_peer list) \<Rightarrow> (nat \<Rightarrow> gotime) \<Rightarrow> bytes \<Rightarrow> bytes \<Rightarrow> peer_info list
     \<Rightarrow> lookup_state \<Rightarrow> lookup_state" where
  "query_batch net ungob clk localID target [] st = st"
| "query_batch net ungob clk localID target (p # ps) st =
     (let k = lsCalls st;
          msg = \<lparr>mType = MsgFindNode, mSrc = localID, mDst = piID p, mPayload = target\<rparr>;
          found = found_peers ungob (clk k) (Call net k (hd (piAddrs p)) msg)
      in query_batch net ungob clk localID target ps
           (foldl (absorb (clk k)) (st\<lparr>lsCalls := Suc k\<rparr>) found))"

text \<open>The rounds; the first argument counts the hops that are left.\<close>

fun lookup_loop ::
  "nat \<Rightarrow> network \<Rightarrow> (bytes \<Rightarrow> string + simple_peer list) \<Rightarrow> (nat \<Rightarrow> gotime) \<Rightarrow> (nat \<Rightarrow> string option) \<Rightarrow> bytes \<Rightarrow> bytes
     \<Rightarrow> (bytes \<Rightarrow> bool) \<Rightarrow> lookup_state \<Rightarrow> dht_error option \<times> lookup_state" where
  "lookup_loop 0 net ungob clk ctxErr localID target queried st = (None, st)"
| "lookup_loop (Suc left) net ungob clk ctxErr localID target queried st =
     (case ctxErr (MaxHops - Suc left) of
        Some e \<Rightarrow> (Some (CtxError e), st)
      | None \<Rightarrow>
          let (batch, queried') = pick_batch queried [] (lsShortlist st)
          in if batch = [] then (None, st)
             else let st1 = query_batch net ungob clk localID target batch (st\<lparr>lsProgressed := False\<rparr>);
                      st2 = st1\<lparr>lsShortlist := dedupeAndPrune target KBucketSize (lsShortlist st1)\<rparr>
                  in if \<not> lsProgressed st2 then (None, st2)
                     else lookup_loop left net ungob clk ctxErr localID target queried' st2)"

definition Lookup ::
  "network \<Rightarrow> (bytes \<Rightarrow> string + simple_peer list) \<Rightarrow> (nat \<Rightarrow> gotime) \<Rightarrow> (nat \<Rightarrow> string option) \<Rightarrow> bytes \<Rightarrow> dht
     \<Rightarrow> (dht_error + peer_info list) \<times> nat \<times> dht" where
  "Lookup net ungob clk ctxErr target d =
     (if \<not> dhRunning d then (Inl ErrNotRunning, 0, d)
      else let n = dhNode d;
               seeds = detachPeers (ndHeap n) (FindClosest (ndHeap n) (ndTable n) target KBucketSize)
           in if length seeds = 0 then (Inl ErrNoPeers, 0, d)
              else let (err, st) = lookup_loop MaxHops net ungob clk ctxErr (dhLocalID d) target (\<lambda>_. False)
                         \<lparr>lsNode = n, lsShortlist = sortPeersByDistance target seeds, lsProgressed = False, lsCalls = 0\<rparr>
                   in (case err of Some e \<Rightarrow> Inl e | None \<Rightarrow> Inr (lsShortlist st), lsCalls st, d\<lparr>dhNode := lsNode st\<rparr>))"

section \<open>Values\<close>

fun get_loop ::
  "network \<Rightarrow> (nat \<Rightarrow> string option) \<Rightarrow> bytes \<Rightarrow> string \<Rightarrow> nat \<Rightarrow> peer_info list \<Rightarrow> dht_error + bytes" where
  "get_loop net ctxErr localID key k [] = Inl ErrValueNotFound"
| "get_loop net ctxErr localID key k (p # ps) =
     (if piAddrs p = [] then get_loop net ctxErr localID key k ps
      else case ctxErr k of
             Some e \<Rightarrow> Inl (CtxError e)
           | None \<Rightarrow>
               (case Call net k (hd (piAddrs p))
                       \<lparr>mType = MsgFindValue, mSrc = localID, mDst = piID p, mPayload = encodeStore key []\<rparr> of
                  Inl _ \<Rightarrow> get_loop net ctxErr localID key (Suc k) ps
                | Inr resp \<Rightarrow>
                    if mType resp \<noteq> MsgFoundValue then get_loop net ctxErr localID key (Suc k) ps
                    else (let (gotKey, val) = decodeStore (mPayload resp)
                          in if gotKey \<noteq> key then get_loop net ctxErr localID key (Suc k) ps else Inr val)))"

definition Dht_Get :: "(bytes \<Rightarrow> bytes) \<Rightarrow> network \<Rightarrow> (nat \<Rightarrow> string option) \<Rightarrow> string \<Rightarrow> dht \<Rightarrow> dht_error + bytes" where
  "Dht_Get sha3 net ctxErr key d =
     (if \<not> dhRunning d then Inl ErrNotRunning
      else case localValue (dhNode d) key of
             Some v \<Rightarrow> Inr v
           | None \<Rightarrow>
               (let n = dhNode d; target = sha3 (str_bytes key);
                    peers = detachPeers (ndHeap n) (FindClosest (ndHeap n) (ndTable n) target Alpha)
                in if length peers = 0 then Inl ErrValueNotFound
                   else get_loop net ctxErr (dhLocalID d) key 0 peers))"

text \<open>
  \<open>Store\<close>: the peers asked to store, as \<open>(address, message)\<close> in order, and how it ends. The
  address is taken with \<open>p.Info.Addrs[0]\<close>, which panics for a peer without addresses.
\<close>

fun store_loop :: "bytes \<Rightarrow> bytes \<Rightarrow> peer_info list \<Rightarrow> (string \<times> dht_message) list \<times> dht_error option" where
  "store_loop localID payload [] = ([], None)"
| "store_loop localID payload (p # ps) =
     (case piAddrs p of
        [] \<Rightarrow> ([], Some IndexOutOfRange)
      | a # _ \<Rightarrow>
          (let (calls, err) = store_loop localID payload ps
           in ((a, \<lparr>mType = MsgStore, mSrc = localID, mDst = piID p, mPayload = payload\<rparr>) # calls, err)))"

definition Dht_Store :: "(bytes \<Rightarrow> bytes) \<Rightarrow> string \<Rightarrow> bytes \<Rightarrow> dht \<Rightarrow> (string \<times> dht_message) list \<times> dht_error option" where
  "Dht_Store sha3 key val d =
     (if \<not> dhRunning d then ([], Some ErrNotRunning)
      else let n = dhNode d; target = sha3 (str_bytes key);
               peers = detachPeers (ndHeap n) (FindClosest (ndHeap n) (ndTable n) target Alpha)
           in store_loop (dhLocalID d) (encodeStore key val) peers)"

section \<open>Announcing a node\<close>

definition RegisterNode ::
  "(bytes \<Rightarrow> bytes) \<Rightarrow> gotime \<Rightarrow> gotime \<Rightarrow> bytes \<Rightarrow> string \<Rightarrow> string list \<Rightarrow> int \<Rightarrow> dht
     \<Rightarrow> dht_error option \<times> (string \<times> dht_message) list \<times> dht" where
  "RegisterNode sha3 now now' pubKey name addrs difficulty d =
     (case Dht_SolvePoW sha3 (registrationChallenge pubKey name addrs) difficulty of
        Inl _ \<Rightarrow> (Some ErrPoWFailed, [], d)
      | Inr nonce \<Rightarrow>
          let p = \<lparr>piID = NodeIDFromPub sha3 pubKey, piPublicKey = pubKey, piName = name, piAddrs = addrs, piServices = [],
                   piScore = half_score, piLastSeen = 0, piFirstSeen = now, piVersion = []\<rparr>;
              msg = \<lparr>mType = MsgRegisterNode, mSrc = dhLocalID d, mDst = dhLocalID d,
                     mPayload = encodeRegister p nonce difficulty\<rparr>;
              n = dhNode d;
              peers = detachPeers (ndHeap n) (FindClosest (ndHeap n) (ndTable n) (NodeIDFromPub sha3 pubKey) Alpha)
          in (None, map (\<lambda>q. (hd (piAddrs q), msg)) (filter (\<lambda>q. piAddrs q \<noteq> []) peers),
              d\<lparr>dhNode := storePeer now' p n\<rparr>))"

section \<open>Lookups are bounded and ordered\<close>

definition closer :: "bytes \<Rightarrow> peer_info \<Rightarrow> peer_info \<Rightarrow> bool" where
  "closer target p q \<longleftrightarrow> xorDist (piID p) target < xorDist (piID q) target"

lemma dedupe_spec:
  assumes "length target = 32"
  shows "length out < n \<Longrightarrow> seen = (\<lambda>i. i \<in> piID ` set out) \<Longrightarrow> sorted_wrt (closer target) out
    \<Longrightarrow> sorted (map (\<lambda>p. xorDist (piID p) target) ps)
    \<Longrightarrow> \<forall>q\<in>set out. \<forall>p\<in>set ps. xorDist (piID q) target \<le> xorDist (piID p) target
    \<Longrightarrow> \<forall>p\<in>set out \<union> set ps. length (piID p) = 32
    \<Longrightarrow> sorted_wrt (closer target) (dedupe n seen out ps) \<and> length (dedupe n seen out ps) \<le> n
      \<and> set (dedupe n seen out ps) \<subseteq> set out \<union> set ps"
proof (induction ps arbitrary: seen out)
  case (Cons p ps)
  show ?case
  proof (cases "seen (piID p)")
    case True
    with Cons.IH [of out seen] Cons.prems show ?thesis by auto
  next
    case False
    have lt: "closer target q p" if "q \<in> set out" for q
    proof -
      have "piID q \<noteq> piID p" using False Cons.prems(2) that image_eqI by metis
      then have "xorDist (piID q) target \<noteq> xorDist (piID p) target"
        using xorDist_inj [of "piID q" target "piID p"] Cons.prems(6) that assms by simp
      with Cons.prems(5) that show ?thesis by (auto simp: closer_def order.strict_iff_order)
    qed
    then have sorted': "sorted_wrt (closer target) (out @ [p])" using Cons.prems(3) by (simp add: sorted_wrt_append)
    show ?thesis
    proof (cases "length (out @ [p]) = n")
      case True
      with False sorted' show ?thesis by auto
    next
      case longer: False
      have IH: "sorted_wrt (closer target) (dedupe n (seen(piID p := True)) (out @ [p]) ps)
          \<and> length (dedupe n (seen(piID p := True)) (out @ [p]) ps) \<le> n
          \<and> set (dedupe n (seen(piID p := True)) (out @ [p]) ps) \<subseteq> set (out @ [p]) \<union> set ps"
        using Cons.prems longer sorted' by (intro Cons.IH) (auto simp: fun_eq_iff)
      with False longer show ?thesis by auto
    qed
  qed
qed auto

definition shortlist_ok :: "bytes \<Rightarrow> peer_info list \<Rightarrow> bool" where
  "shortlist_ok target ps \<longleftrightarrow> sorted_wrt (closer target) ps \<and> length ps \<le> KBucketSize"

lemma dedupeAndPrune_ok:
  assumes "length target = 32" "\<forall>p\<in>set ps. length (piID p) = 32"
  shows "shortlist_ok target (dedupeAndPrune target KBucketSize ps) \<and> set (dedupeAndPrune target KBucketSize ps) \<subseteq> set ps"
  using dedupe_spec [OF assms(1), of "[]" KBucketSize "\<lambda>_. False" "sortPeersByDistance target ps"] assms(2)
  by (auto simp: shortlist_ok_def dedupeAndPrune_def KBucketSize_def sortPeersByDistance_def)

lemma pick_batch_length:
  "length batch \<le> Alpha \<Longrightarrow> length (fst (pick_batch queried batch ps)) \<le> Alpha"
  by (induction ps arbitrary: queried batch) auto

text \<open>The invariant of a lookup.\<close>

definition lookup_ok :: "lookup_state \<Rightarrow> bool" where
  "lookup_ok st \<longleftrightarrow> node_ok (lsNode st)
     \<and> (\<forall>p\<in>set (lsShortlist st). length (piID p) = 32 \<and> ndPeers (lsNode st) (piID p) \<noteq> None)"

lemma put_peer_dom: "dom (ndPeers (put_peer now p n)) = insert (piID p) (dom (ndPeers n))"
  by (auto simp: put_peer_def Let_def split: option.split prod.split)

lemma absorb_ok: "lookup_ok st \<Longrightarrow> length (piID fp) = 32 \<Longrightarrow> lookup_ok (absorb now st fp)"
  using put_peer_dom [of now fp "lsNode st"]
  by (auto simp: lookup_ok_def absorb_def storePeer_def put_peer_ok domD)

definition ungob_ok :: "(bytes \<Rightarrow> string + simple_peer list) \<Rightarrow> bool" where
  "ungob_ok ungob \<longleftrightarrow> (\<forall>b ts. ungob b = Inr ts \<longrightarrow> (\<forall>t\<in>set ts. length (spID t) = 32))"

lemma found_peers_ids:
  assumes ok: "ungob_ok ungob" and p: "p \<in> set (found_peers ungob now r)"
  shows "length (piID p) = 32"
proof (cases r)
  case (Inl e)
  with p show ?thesis by (simp add: found_peers_def)
next
  case r: (Inr resp)
  have ty: "mType resp = MsgFoundNode"
  proof (rule ccontr)
    assume "mType resp \<noteq> MsgFoundNode"
    with p r show False by (simp add: found_peers_def)
  qed
  show ?thesis
  proof (cases "ungob (mPayload resp)")
    case (Inl e)
    with p r ty show ?thesis by (simp add: found_peers_def decodePeerList_def)
  next
    case (Inr ts)
    with p r ty obtain t where "t \<in> set ts" "piID p = spID t"
      by (auto simp: found_peers_def decodePeerList_def)
    with ok Inr show ?thesis by (simp add: ungob_ok_def)
  qed
qed

lemma foldl_absorb:
  "lookup_ok st \<Longrightarrow> \<forall>p\<in>set ps. length (piID p) = 32 \<Longrightarrow> lookup_ok (foldl (absorb now) st ps)"
  "lsCalls (foldl (absorb now) st ps) = lsCalls st"
proof (induction ps arbitrary: st)
  case (Cons p ps)
  {
    case 1
    then have "lookup_ok (absorb now st p)" by (simp add: absorb_ok)
    with Cons(1) [of "absorb now st p"] 1 show ?case by simp
  next
    case 2
    from Cons(2) [of "absorb now st p"] show ?case by (simp add: absorb_def)
  }
qed simp_all

lemma query_batch_ok:
  assumes "ungob_ok ungob"
  shows "lookup_ok st \<Longrightarrow> lookup_ok (query_batch net ungob clk localID target ps st)
    \<and> lsCalls (query_batch net ungob clk localID target ps st) = lsCalls st + length ps"
proof (induction ps arbitrary: st)
  case (Cons p ps)
  define k where "k = lsCalls st"
  define found where "found = found_peers ungob (clk k) (Call net k (hd (piAddrs p))
      \<lparr>mType = MsgFindNode, mSrc = localID, mDst = piID p, mPayload = target\<rparr>)"
  let ?st = "foldl (absorb (clk k)) (st\<lparr>lsCalls := Suc k\<rparr>) found"
  have "\<forall>p\<in>set found. length (piID p) = 32" using found_peers_ids [OF assms] by (simp add: found_def)
  moreover have "lookup_ok (st\<lparr>lsCalls := Suc k\<rparr>)" using Cons.prems by (simp add: lookup_ok_def)
  ultimately have "lookup_ok ?st" by (rule foldl_absorb(1) [rotated])
  moreover have "lsCalls ?st = Suc k" by (simp add: foldl_absorb(2))
  ultimately show ?case using Cons.IH [of ?st]
    by (simp add: Let_def k_def [symmetric] found_def [symmetric])
qed simp

lemma lookup_loop_ok:
  assumes "ungob_ok ungob" "length target = 32"
  shows "lookup_ok st \<Longrightarrow> shortlist_ok target (lsShortlist st) \<Longrightarrow>
    lookup_loop left net ungob clk ctxErr localID target queried st = (None, st') \<Longrightarrow>
    lookup_ok st' \<and> shortlist_ok target (lsShortlist st') \<and> lsCalls st' \<le> lsCalls st + Alpha * left"
proof (induction left arbitrary: queried st)
  case (Suc left)
  obtain batch queried' where b: "pick_batch queried [] (lsShortlist st) = (batch, queried')" by fastforce
  show ?case
  proof (cases "batch = []")
    case True
    with Suc.prems b show ?thesis by (simp split: option.splits)
  next
    case False
    define st1 where "st1 = query_batch net ungob clk localID target batch (st\<lparr>lsProgressed := False\<rparr>)"
    define st2 where "st2 = st1\<lparr>lsShortlist := dedupeAndPrune target KBucketSize (lsShortlist st1)\<rparr>"
    have len: "length batch \<le> Alpha" using pick_batch_length [of "[]" queried "lsShortlist st"] b by simp
    have "lookup_ok (st\<lparr>lsProgressed := False\<rparr>)" using Suc.prems(1) by (simp add: lookup_ok_def)
    from query_batch_ok [OF assms(1) this] have st1: "lookup_ok st1" "lsCalls st1 = lsCalls st + length batch"
      by (simp_all add: st1_def)
    then have "shortlist_ok target (lsShortlist st2) \<and> set (lsShortlist st2) \<subseteq> set (lsShortlist st1)"
      using dedupeAndPrune_ok [OF assms(2), of "lsShortlist st1"] by (simp add: st2_def lookup_ok_def)
    with st1 have st2: "lookup_ok st2" "shortlist_ok target (lsShortlist st2)" "lsCalls st2 \<le> lsCalls st + Alpha"
      using len by (auto simp: lookup_ok_def st2_def)
    have prog: "lsProgressed st2 = lsProgressed st1" by (simp add: st2_def)
    have "(\<not> lsProgressed st2 \<and> st' = st2)
        \<or> lookup_loop left net ungob clk ctxErr localID target queried' st2 = (None, st')"
      using Suc.prems(3) False b
      by (auto simp: Let_def prog st1_def [symmetric] st2_def [symmetric] split: option.splits if_splits)
    with st2 Suc.IH [of st2 queried'] show ?thesis by auto
  qed
qed simp

lemma seeds_ok:
  assumes "node_ok n" "length target = 32"
  defines "seeds \<equiv> detachPeers (ndHeap n) (FindClosest (ndHeap n) (ndTable n) target KBucketSize)"
  shows "shortlist_ok target (sortPeersByDistance target seeds)
       \<and> (\<forall>p\<in>set seeds. length (piID p) = 32 \<and> ndPeers n (piID p) \<noteq> None)"
proof -
  let ?key = "\<lambda>p. xorDist (piID p) target"
  let ?F = "FindClosest (ndHeap n) (ndTable n) target KBucketSize"
  have t: "table_ok (ndHeap n) (ndTable n)" using assms(1) by (simp add: node_ok_def)
  have F: "?F = take KBucketSize (sort_key (\<lambda>r. ?key (ndHeap n ! r)) (AllPeers (ndTable n)))" by (rule FindClosest_take)
  have sub: "set ?F \<subseteq> set (AllPeers (ndTable n))" unfolding F by (metis set_sort set_take_subset)
  have mem: "length (piID p) = 32 \<and> ndPeers n (piID p) \<noteq> None" if "p \<in> set seeds" for p
    using that sub assms(1) AllPeers_member [OF t] by (auto simp: seeds_def detachPeers_def node_ok_def)
  have "distinct (map (\<lambda>r. piID (ndHeap n ! r)) ?F)"
    unfolding F using ids_distinct [OF t] by (simp add: take_map [symmetric] distinct_map)
  then have ids: "distinct (map piID seeds)" by (simp add: seeds_def detachPeers_def comp_def)
  let ?S = "sortPeersByDistance target seeds"
  have "inj_on ?key (set seeds)"
  proof (rule inj_onI)
    fix p q
    assume p: "p \<in> set seeds" and q: "q \<in> set seeds" and "?key p = ?key q"
    then have "piID p = piID q" using xorDist_inj [of "piID p" target "piID q"] mem assms(2) by simp
    with p q ids show "p = q" by (auto simp: distinct_map inj_on_def)
  qed
  then have "distinct (map ?key ?S)" using ids by (simp add: sortPeersByDistance_def distinct_map)
  moreover have "sorted (map ?key ?S)" by (simp add: sortPeersByDistance_def)
  ultimately have "sorted_wrt (<) (map ?key ?S)" by (simp add: strict_sorted_iff)
  then have "sorted_wrt (closer target) ?S" by (simp add: sorted_wrt_map closer_def [abs_def])
  moreover have "length ?S \<le> KBucketSize" by (simp add: sortPeersByDistance_def seeds_def detachPeers_def F)
  ultimately show ?thesis using mem by (simp add: shortlist_ok_def)
qed


definition demo_dht :: dht where
  "demo_dht = \<lparr>dhLocalID = replicate 32 1, dhNode = demo_joined, dhRunning = True\<rparr>"


section \<open>Reading a value from a peer\<close>

lemma Call_server:
  assumes "net k addr = Inr (\<lambda>bs. fst (handleConn sha3 gob now now' m bs))"
    and "message_ok msg" "length (mPayload msg) \<le> 2 ^ 20"
    and "message_ok (fst (handleMessage sha3 gob now now' m msg))"
  shows "Call net k addr msg = Inr (fst (handleMessage sha3 gob now now' m msg))"
proof -
  have "server_read (write_message msg) = Some msg" using server_read_write [OF assms(2,3), of "[]"] by simp
  then have "fst (handleConn sha3 gob now now' m (write_message msg)) = write_message (fst (handleMessage sha3 gob now now' m msg))"
    by (simp add: handleConn_def split: prod.split)
  with message_codec.dec_enc_end [OF assms(4)] assms(1) show ?thesis by (simp add: Call_def)
qed

text \<open>
  A value stored on the closest peer is found. If a running node does not hold the key and
  the peer closest to the key's hash has an address at which a node that holds it serves
  requests, \<open>Get\<close> returns that node's value, through both ends of the wire protocol.
\<close>

theorem dht_get_from_closest_peer:
  assumes "dhRunning d" "ndStore (dhNode d) key = None" "short16 key" "length (encodeStore key val) \<le> 2 ^ 20"
    and "FindClosest (ndHeap (dhNode d)) (ndTable (dhNode d)) (sha3 (str_bytes key)) Alpha = r # rs"
    and "piAddrs (ndHeap (dhNode d) ! r) = a # as" "length (piID (ndHeap (dhNode d) ! r)) = 32"
    and "net 0 a = Inr (\<lambda>bs. fst (handleConn sha3 gob now now' m bs))" "ctxErr 0 = None"
    and "ndStore m key = Some val" "length (ndID m) = 32" "length (dhLocalID d) = 32"
  shows "Dht_Get sha3 net ctxErr key d = Inr val"
proof -
  let ?p = "ndHeap (dhNode d) ! r"
  let ?msg = "\<lparr>mType = MsgFindValue, mSrc = dhLocalID d, mDst = piID ?p, mPayload = encodeStore key []\<rparr>"
  let ?resp = "\<lparr>mType = MsgFoundValue, mSrc = ndID m, mDst = dhLocalID d, mPayload = encodeStore key val\<rparr>"
  have small: "length (encodeStore key []) \<le> 2 ^ 20" using assms(4) by (simp add: encodeStore_def)
  have h: "handleMessage sha3 gob now now' m ?msg = (?resp, m)" using assms(3,10) by (simp add: handle_find_value)
  have "Call net 0 a ?msg = Inr ?resp"
    using Call_server [of net 0 a sha3 gob now now' m ?msg] small assms(4,7,8,11,12) by (simp add: h message_ok_def)
  then show ?thesis
    using assms(1,2,3,5,6,9) by (simp add: Dht_Get_def localValue_def detachPeers_def decode_encodeStore)
qed

definition demo_holder :: dht_node where
  "demo_holder = demo_node\<lparr>ndStore := [''pkg'' \<mapsto> [1, 2, 3]]\<rparr>"

lemma demo_route:
  "FindClosest (ndHeap (dhNode demo_dht)) (ndTable (dhNode demo_dht)) (replicate 32 0) Alpha = [0]"
  "piAddrs (ndHeap (dhNode demo_dht) ! 0) = [''10.0.0.1:9094'']" "length (piID (ndHeap (dhNode demo_dht) ! 0)) = 32"
  by code_simp+

lemma demo_route_store: "ndStore (dhNode demo_dht) key = None"
  by (simp add: demo_dht_def demo_joined_def demo_registered put_peer_def demo_node_def NewNode_def split: option.split prod.split)

theorem dht_get_from_closest_peer_witness:
  "Dht_Get (\<lambda>_. replicate 32 0) (\<lambda>_ _. Inr (\<lambda>bs. fst (handleConn (\<lambda>_. replicate 32 0) (\<lambda>_. []) 1 2 demo_holder bs))) (\<lambda>_. None)
     ''pkg'' demo_dht = Inr [1, 2, 3]"
  by (rule dht_get_from_closest_peer [where m = demo_holder, OF _ demo_route_store _ _ demo_route])
     (simp_all add: demo_dht_def demo_holder_def demo_node_def NewNode_def short16_def encodeStore_def)

section \<open>Peers without an address\<close>

lemma store_loop_panics: "\<exists>p\<in>set ps. piAddrs p = [] \<Longrightarrow> snd (store_loop localID payload ps) = Some IndexOutOfRange"
proof (induction ps)
  case (Cons p ps)
  show ?case
  proof (cases "piAddrs p")
    case (Cons a as)
    with Cons.prems have "\<exists>p\<in>set ps. piAddrs p = []" by auto
    with Cons Cons.IH show ?thesis by (simp add: split_beta)
  qed simp
qed simp

text \<open>
  A peer that registers without an address crashes \<open>Store\<close>. The registration handler accepts
  an announcement with an empty address list, and \<open>Store\<close> then indexes the first address of each
  of the closest peers without a check: on a node with an empty table, once such a
  registration has been handled, storing any value under any key panics.
\<close>

theorem dht_store_panics_without_address:
  assumes "mType msg = MsgRegisterNode" "decodeRegister (mPayload msg) = Some q" "rrAddrs q = []"
    and "Dht_VerifyPoW sha3 (registrationChallenge (rrPubKey q) (rrName q) (rrAddrs q)) (rrNonce q) (rrDifficulty q)"
    and "mSrc msg = NodeIDFromPub sha3 (rrPubKey q)"
    and "handleMessage sha3 gob now now' (NewNode i pub name) msg = (resp, n)"
  shows "snd (Dht_Store sha3 key val \<lparr>dhLocalID = i, dhNode = n, dhRunning = True\<rparr>) = Some IndexOutOfRange"
proof -
  let ?p = "\<lparr>piID = mSrc msg, piPublicKey = rrPubKey q, piName = rrName q, piAddrs = [], piServices = [],
     piScore = half_score, piLastSeen = 0, piFirstSeen = now, piVersion = []\<rparr>"
  let ?i = "BucketIndex (mSrc msg)"
  have n: "n = put_peer now' ?p (NewNode i pub name)"
    using handleMessage_register [OF assms(1,2,4,5), of gob now now' "NewNode i pub name"] assms(3,6) by simp
  have heap: "ndHeap n = [?p\<lparr>piLastSeen := now'\<rparr>]" and
    buckets: "rtBuckets (ndTable n) = (replicate 256 [])[?i := [0]]"
    using BucketIndex_less [of "mSrc msg"]
    by (simp_all add: n put_peer_def NewNode_def NewRoutingTable_def RoutingTable_Add_def KBucket_Add_def KBucketSize_def Let_def)
  have "concat ((replicate 256 [])[?i := [0 :: nat]]) = [0]"
    using BucketIndex_less [of "mSrc msg"] by (simp add: upd_conv_take_nth_drop)
  then have "AllPeers (ndTable n) = [0]" by (simp only: AllPeers_def buckets)
  then have "FindClosest (ndHeap n) (ndTable n) target Alpha = [0]" for target
    by (simp add: FindClosest_take Alpha_def)
  then show ?thesis using store_loop_panics [of "[?p\<lparr>piLastSeen := now'\<rparr>]"]
    by (simp add: Dht_Store_def detachPeers_def heap Let_def)
qed

definition demo_silent :: dht_message where
  "demo_silent = \<lparr>mType = 8, mSrc = replicate 32 0, mDst = replicate 32 1,
     mPayload = encodeRegister (demo_peer 7\<lparr>piAddrs := []\<rparr>) (replicate 8 0) 8\<rparr>"

lemma demo_silent_decoded:
  "decodeRegister (mPayload demo_silent) = Some \<lparr>rrPubKey = replicate 32 7, rrNonce = replicate 8 0, rrDifficulty = 8,
     rrName = ''peer'', rrAddrs = []\<rparr>"
  using register_roundtrip [of "demo_peer 7\<lparr>piAddrs := []\<rparr>" "replicate 8 0" 8]
  by (simp add: demo_silent_def registrable_def demo_peer_def short16_def)

theorem dht_store_panics_without_address_witness:
  "snd (Dht_Store (\<lambda>_. replicate 32 0) ''pkg'' [1] \<lparr>dhLocalID = replicate 32 1,
     dhNode = snd (handleMessage (\<lambda>_. replicate 32 0) (\<lambda>_. []) 5 6 (NewNode (replicate 32 1) (replicate 32 2) ''node'') demo_silent),
     dhRunning = True\<rparr>) = Some IndexOutOfRange"
  by (rule dht_store_panics_without_address [OF _ demo_silent_decoded _ _ _ prod.collapse [symmetric]])
    (simp_all add: demo_silent_def msg_types Dht_VerifyPoW_def below_target_def MinPoWDifficulty_def
      MaxPoWDifficulty_def NodeIDFromPub_def zero_hash_val)

section \<open>Nodes with several addresses\<close>

text \<open>
  A node with several addresses cannot register. \<open>RegisterNode\<close> solves the challenge over all
  its addresses but transmits only the first, so that the receiving node checks the nonce
  against another pre-image than the one the work was done for.
\<close>

theorem dht_multi_address_work_wasted:
  assumes "registrable p nonce difficulty" "piAddrs p = a # b # rest"
  shows "\<exists>q. decodeRegister (encodeRegister p nonce difficulty) = Some q \<and>
     registrationChallenge (rrPubKey q) (rrName q) (rrAddrs q)
       \<noteq> registrationChallenge (piPublicKey p) (piName p) (piAddrs p)"
  using register_roundtrip [OF assms(1)] assms(2) by (simp add: registrationChallenge_def)

theorem dht_multi_address_work_wasted_witness:
  "\<exists>q. decodeRegister (encodeRegister (demo_peer 7\<lparr>piAddrs := [''10.0.0.1:9094'', ''[::1]:9094'']\<rparr>) (replicate 8 0) 8) = Some q \<and>
     registrationChallenge (rrPubKey q) (rrName q) (rrAddrs q)
       \<noteq> registrationChallenge (replicate 32 7) ''peer'' [''10.0.0.1:9094'', ''[::1]:9094'']"
  using dht_multi_address_work_wasted [of "demo_peer 7\<lparr>piAddrs := [''10.0.0.1:9094'', ''[::1]:9094'']\<rparr>" "replicate 8 0" 8
      "''10.0.0.1:9094''" "''[::1]:9094''" "[]"]
  by (simp add: registrable_def demo_peer_def short16_def)

end
