(* ===== verification/Dht_Raft.thy ===== *)
theory Dht_Raft
  imports Dht_Client
begin

text \<open>
  The Raft replica of \<open>pkg/dht/raft.go\<close>. The mutex \<open>mu\<close> is part of the state: locking it while it is
  held blocks the goroutine for ever, which is the result \<open>None\<close>. \<open>rpc\<close> is the configured client,
  if any; the order in which the peer map is ranged over is an argument. Timers and goroutines
  (\<open>Start\<close>, \<open>Stop\<close>, \<open>electionTimer\<close>) only decide when \<open>becomeCandidate\<close> runs.
\<close>

datatype raft_state = StateFollower | StateCandidate | StateLeader

record raft_entry =
  reTerm :: u64
  reIndex :: u64
  reData :: bytes

record raft_peer =
  rpID :: bytes
  rpAddr :: string

record vote_response =
  vrTerm :: u64
  vrGranted :: bool

datatype raft_error = NoRpcClient | RaftCall call_error | InvalidVoteResponse | NotLeader

type_synonym raft_rpc = "(string \<Rightarrow> dht_message \<Rightarrow> call_error + dht_message) option"

record raft_node =
  rnLocked :: bool
  rnID :: bytes
  rnTerm :: u64
  rnVotedFor :: "bytes option"
  rnState :: raft_state
  rnLog :: "raft_entry list"
  rnPeers :: "raft_peer list"
  rnRpc :: raft_rpc
  rnResetEvent :: gotime
  rnLeaderID :: bytes

definition NewRaft :: "bytes \<Rightarrow> raft_rpc \<Rightarrow> raft_node" where
  "NewRaft i rpc =
     \<lparr>rnLocked = False, rnID = i, rnTerm = 0, rnVotedFor = None, rnState = StateFollower, rnLog = [], rnPeers = [],
      rnRpc = rpc, rnResetEvent = 0, rnLeaderID = replicate 32 0\<rparr>"

definition lock :: "raft_node \<Rightarrow> raft_node option" where
  "lock n = (if rnLocked n then None else Some (n\<lparr>rnLocked := True\<rparr>))"

definition unlock :: "raft_node \<Rightarrow> raft_node" where
  "unlock n = n\<lparr>rnLocked := False\<rparr>"

text \<open>\<open>AddPeer\<close>: the map keeps one entry per identifier.\<close>

definition AddPeer :: "bytes \<Rightarrow> string \<Rightarrow> raft_node \<Rightarrow> raft_node option" where
  "AddPeer i addr n0 =
     map_option (\<lambda>n. unlock (n\<lparr>rnPeers := \<lparr>rpID = i, rpAddr = addr\<rparr> # filter (\<lambda>p. rpID p \<noteq> i) (rnPeers n)\<rparr>)) (lock n0)"

definition MsgRaftRequestVote :: byte where "MsgRaftRequestVote = MsgRegisterNode + 1"
definition MsgRaftAppendEntry :: byte where "MsgRaftAppendEntry = MsgRegisterNode + 2"
definition MsgRaftHeartbeat :: byte where "MsgRaftHeartbeat = MsgRegisterNode + 3"

definition requestVote :: "raft_peer \<Rightarrow> raft_node \<Rightarrow> ((raft_error + vote_response) \<times> raft_node) option" where
  "requestVote peer n0 =
     (case lock n0 of
        None \<Rightarrow> None
      | Some n1 \<Rightarrow>
          let term = rnTerm n1; i = rnID n1; n = unlock n1
          in Some (case rnRpc n of
               None \<Rightarrow> (Inl NoRpcClient, n)
             | Some call \<Rightarrow>
                 (case call (rpAddr peer)
                         \<lparr>mType = MsgRaftRequestVote, mSrc = i, mDst = rpID peer, mPayload = put_u64 term @ put_u64 0 @ i\<rparr> of
                    Inl e \<Rightarrow> (Inl (RaftCall e), n)
                  | Inr resp \<Rightarrow>
                      if length (mPayload resp) < 9 then (Inl InvalidVoteResponse, n)
                      else (Inr \<lparr>vrTerm = get_u64 (take 8 (mPayload resp)), vrGranted = mPayload resp ! 8 = 1\<rparr>, n))))"

text \<open>
  The vote loop of \<open>becomeCandidate\<close>: the node, the votes counted so far and whether the loop ran
  to its end.
\<close>

fun vote_loop :: "raft_peer list \<Rightarrow> nat \<Rightarrow> raft_node \<Rightarrow> (bool \<times> nat \<times> raft_node) option" where
  "vote_loop [] votes n = Some (True, votes, n)"
| "vote_loop (p # ps) votes n =
     (if rnState n \<noteq> StateCandidate then Some (False, votes, n)
      else if Option.is_none (rnRpc n) then vote_loop ps (Suc votes) n
      else case requestVote p n of
             None \<Rightarrow> None
           | Some (Inl _, n') \<Rightarrow> vote_loop ps votes n'
           | Some (Inr resp, n') \<Rightarrow>
               let votes' = (if vrGranted resp then Suc votes else votes)
               in if vrTerm resp > rnTerm n'
                  then Some (False, votes', n'\<lparr>rnTerm := vrTerm resp, rnState := StateFollower\<rparr>)
                  else vote_loop ps votes' n')"

definition becomeCandidate :: "(raft_peer list \<Rightarrow> raft_peer list) \<Rightarrow> gotime \<Rightarrow> raft_node \<Rightarrow> raft_node option" where
  "becomeCandidate rng now n0 =
     (case lock n0 of
        None \<Rightarrow> None
      | Some n1 \<Rightarrow>
          if rnState n1 = StateLeader then Some (unlock n1)
          else let n2 = n1\<lparr>rnTerm := rnTerm n1 + 1, rnState := StateCandidate, rnVotedFor := Some (rnID n1),
                           rnResetEvent := now\<rparr>
               in (case vote_loop (rng (rnPeers n2)) 1 n2 of
                    None \<Rightarrow> None
                  | Some (finished, votes, n3) \<Rightarrow>
                      if \<not> finished then Some (unlock n3)
                      else if votes > (length (rnPeers n3) + 1) div 2
                      then Some (unlock (n3\<lparr>rnState := StateLeader, rnLeaderID := rnID n3\<rparr>))
                      else Some (unlock n3)))"

text \<open>\<open>sendHeartbeat\<close>: \<open>copy\<close> into 24 bytes keeps a prefix of the identifier.\<close>

definition sendHeartbeat :: "raft_peer \<Rightarrow> raft_node \<Rightarrow> (raft_error option \<times> raft_node) option" where
  "sendHeartbeat peer n0 =
     (case lock n0 of
        None \<Rightarrow> None
      | Some n1 \<Rightarrow>
          let n = unlock n1
          in Some (case rnRpc n of
               None \<Rightarrow> (Some NoRpcClient, n)
             | Some call \<Rightarrow>
                 (case call (rpAddr peer)
                         \<lparr>mType = MsgRaftHeartbeat, mSrc = rnID n, mDst = rpID peer,
                          mPayload = put_u64 (rnTerm n) @ take 24 (rnID n)\<rparr> of
                    Inl e \<Rightarrow> (Some (RaftCall e), n)
                  | Inr _ \<Rightarrow> (None, n))))"

definition IsLeader :: "raft_node \<Rightarrow> bool" where
  "IsLeader n \<longleftrightarrow> rnState n = StateLeader"

definition Leader :: "raft_node \<Rightarrow> bytes" where
  "Leader n = (if rnState n = StateLeader then rnID n else rnLeaderID n)"

definition Propose :: "bytes \<Rightarrow> raft_node \<Rightarrow> (raft_error option \<times> raft_node) option" where
  "Propose data n0 =
     (case lock n0 of
        None \<Rightarrow> None
      | Some n \<Rightarrow>
          if rnState n \<noteq> StateLeader then Some (Some NotLeader, unlock n)
          else Some (None, unlock (n\<lparr>rnLog := rnLog n @
                 [\<lparr>reTerm = rnTerm n, reIndex = word_of_nat (length (rnLog n) + 1), reData = data\<rparr>]\<rparr>)))"

section \<open>Elections\<close>

text \<open>
  Elections over a network never finish. With an RPC client and at least one peer, a
  replica that is not the leader blocks for ever in \<open>becomeCandidate\<close>: the function holds the
  mutex while it calls \<open>requestVote\<close>, which locks it again.
\<close>

theorem raft_election_deadlocks:
  assumes "rnState n \<noteq> StateLeader" "rnRpc n = Some call" "rng (rnPeers n) = p # ps"
  shows "becomeCandidate rng now n = None"
  using assms by (simp add: becomeCandidate_def lock_def requestVote_def Let_def)

theorem raft_election_deadlocks_witness:
  "becomeCandidate (\<lambda>ps. ps) 5 (the (AddPeer (replicate 32 2) ''10.0.0.2:9094''
     (NewRaft (replicate 32 1) (Some (\<lambda>_ m. Inr m))))) = None"
  by (rule raft_election_deadlocks [where call = "\<lambda>_ m. Inr m" and p = "\<lparr>rpID = replicate 32 2, rpAddr = ''10.0.0.2:9094''\<rparr>" and ps = "[]"])
    (simp_all add: AddPeer_def NewRaft_def lock_def unlock_def)

lemma vote_loop_unanimous:
  "rnState n = StateCandidate \<Longrightarrow> rnRpc n = None \<Longrightarrow> vote_loop ps votes n = Some (True, votes + length ps, n)"
  by (induction ps arbitrary: votes) auto

text \<open>Without a client every peer is counted as a vote, so the caller always becomes the leader.\<close>

lemma raft_simulated_election:
  assumes "\<not> rnLocked n" "rnRpc n = None" "rnState n \<noteq> StateLeader" "length (rng (rnPeers n)) = length (rnPeers n)"
  shows "\<exists>n'. becomeCandidate rng now n = Some n' \<and> IsLeader n' \<and> Leader n' = rnID n \<and> rnTerm n' = rnTerm n + 1
    \<and> rnVotedFor n' = Some (rnID n) \<and> \<not> rnLocked n'"
  using assms
  by (simp add: becomeCandidate_def lock_def unlock_def IsLeader_def Leader_def vote_loop_unanimous Let_def)

section \<open>The log\<close>

datatype raft_call = CallAddPeer bytes string | CallCandidate gotime "raft_peer list" | CallPropose bytes

text \<open>A call that blocks leaves the replica in the state it reached, with the mutex held.\<close>

fun raft_step :: "raft_node \<Rightarrow> raft_call \<Rightarrow> raft_node" where
  "raft_step n (CallAddPeer i addr) = (case AddPeer i addr n of Some n' \<Rightarrow> n' | None \<Rightarrow> n)"
| "raft_step n (CallCandidate now order) =
     (case becomeCandidate (\<lambda>_. order) now n of Some n' \<Rightarrow> n' | None \<Rightarrow> n\<lparr>rnLocked := True\<rparr>)"
| "raft_step n (CallPropose data) = (case Propose data n of Some (_, n') \<Rightarrow> n' | None \<Rightarrow> n)"

definition log_indexed :: "raft_node \<Rightarrow> bool" where
  "log_indexed n \<longleftrightarrow> (\<forall>k < length (rnLog n). reIndex (rnLog n ! k) = word_of_nat (k + 1))"

lemma requestVote_log: "requestVote p n = Some (r, n') \<Longrightarrow> rnLog n' = rnLog n"
  by (auto simp: requestVote_def lock_def unlock_def Let_def split: if_splits option.splits sum.splits)

lemma vote_loop_log: "vote_loop ps votes n = Some (b, v, n') \<Longrightarrow> rnLog n' = rnLog n"
proof (induction ps arbitrary: votes n)
  case (Cons p ps)
  then show ?case
    by (auto simp: Let_def dest!: requestVote_log split: if_splits option.splits sum.splits prod.splits)
qed simp

lemma becomeCandidate_log: "becomeCandidate rng now n = Some n' \<Longrightarrow> rnLog n' = rnLog n"
  by (auto simp: becomeCandidate_def lock_def unlock_def Let_def dest!: vote_loop_log
      split: if_splits option.splits prod.splits)

interpretation raft: operations raft_step log_indexed
proof
  fix n c
  assume n: "log_indexed n"
  show "log_indexed (raft_step n c)"
  proof (cases c)
    case (CallAddPeer i addr)
    with n show ?thesis by (auto simp: log_indexed_def AddPeer_def lock_def unlock_def split: option.split if_split)
  next
    case (CallCandidate now order)
    with n show ?thesis by (auto simp: log_indexed_def dest: becomeCandidate_log split: option.split)
  next
    case (CallPropose data)
    with n show ?thesis
      by (auto simp: log_indexed_def Propose_def lock_def unlock_def nth_append less_Suc_eq split: option.split if_split)
  qed
qed

lemma raft_log_indexed: "log_indexed (foldl raft_step (NewRaft i rpc) calls)"
  using raft.run_inv [of "NewRaft i rpc" calls] by (simp add: log_indexed_def NewRaft_def)

text \<open>
  Only a leader extends its log, by exactly one entry with the current term, and the entry
  at position \<open>k\<close> of a replica's log carries index \<open>k + 1\<close> after any sequence of calls, blocked
  ones included.
\<close>

theorem raft_propose_appends:
  assumes "n = foldl raft_step (NewRaft i rpc) calls" "Propose data n = Some (err, n')"
  shows "(if IsLeader n then err = None \<and> rnLog n' = rnLog n @ [\<lparr>reTerm = rnTerm n, reIndex = word_of_nat (length (rnLog n) + 1), reData = data\<rparr>]
          else err = Some NotLeader \<and> rnLog n' = rnLog n)
       \<and> (\<forall>k < length (rnLog n'). reIndex (rnLog n' ! k) = word_of_nat (k + 1))"
proof -
  have "log_indexed n" unfolding assms(1) by (rule raft_log_indexed)
  with assms(2) show ?thesis
    by (auto simp: Propose_def IsLeader_def lock_def unlock_def log_indexed_def nth_append less_Suc_eq split: if_splits)
qed

lemma Propose_returns: "\<not> rnLocked n \<Longrightarrow> \<exists>err n'. Propose data n = Some (err, n')"
  by (simp add: Propose_def lock_def)

theorem raft_propose_appends_witness:
  "case Propose [1, 2] (foldl raft_step (NewRaft (replicate 32 1) None) [CallCandidate 5 [], CallPropose [9]]) of
     Some (err, n') \<Rightarrow> err = None \<and> length (rnLog n') = 2
   | None \<Rightarrow> False"
proof -
  let ?n = "foldl raft_step (NewRaft (replicate 32 1) None) [CallCandidate 5 [], CallPropose [9]]"
  have n: "IsLeader ?n" "length (rnLog ?n) = 1" "\<not> rnLocked ?n"
    by (simp_all add: NewRaft_def becomeCandidate_def lock_def unlock_def Propose_def IsLeader_def Let_def)
  obtain err n' where p: "Propose [1, 2] ?n = Some (err, n')" using Propose_returns [OF n(3)] by blast
  from conjunct1 [OF raft_propose_appends [OF refl p]] n(1,2) p show ?thesis by (simp del: foldl.simps)
qed

end
