(* ===== verification/Link_Manager.thy ===== *)
theory Link_Manager
  imports LW_Prelude
begin

text \<open>
  Link types and the adaptive link manager, \<open>pkg/link/types.go\<close> and \<open>pkg/link/manager.go\<close>. A link
  driver is hardware I/O: the manager sees its name and mode; whether it is available and what
  \<open>Connect\<close> answers are arguments (\<open>avail\<close>, \<open>connect k\<close> for the \<open>k\<close>-th attempt of a call). Scores are
  \<open>float64\<close> values, computed exactly and rounded by \<open>fl\<close> after every operation. Modes and event types
  are Go integers, so unknown values exist.
\<close>

section \<open>Types\<close>

type_synonym link_mode = int

definition ModeWiFiStation :: link_mode where "ModeWiFiStation = 0"
definition ModeWiFiDirect :: link_mode where "ModeWiFiDirect = 1"
definition ModeAdHocWiFi :: link_mode where "ModeAdHocWiFi = 2"
definition ModeUSBTether :: link_mode where "ModeUSBTether = 3"
definition ModeBLE :: link_mode where "ModeBLE = 4"
definition ModeAcoustic :: link_mode where "ModeAcoustic = 5"
definition ModeNone :: link_mode where "ModeNone = 6"

lemmas link_modes = ModeWiFiStation_def ModeWiFiDirect_def ModeAdHocWiFi_def ModeUSBTether_def ModeBLE_def
  ModeAcoustic_def ModeNone_def

definition LinkMode_String :: "link_mode \<Rightarrow> string" where
  "LinkMode_String m =
     (if m = ModeWiFiStation then ''wifi-station''
      else if m = ModeWiFiDirect then ''wifi-direct''
      else if m = ModeAdHocWiFi then ''ad-hoc-wifi''
      else if m = ModeUSBTether then ''usb-tether''
      else if m = ModeBLE then ''ble''
      else if m = ModeAcoustic then ''acoustic''
      else ''none'')"

record link =
  lnName :: string
  lnMode :: link_mode

type_synonym event_type = int

definition PeerDiscovered :: event_type where "PeerDiscovered = 0"
definition PeerLost :: event_type where "PeerLost = 1"
definition PeerUpdated :: event_type where "PeerUpdated = 2"

lemmas event_types = PeerDiscovered_def PeerLost_def PeerUpdated_def

record link_peer =
  lpID :: bytes
  lpPublicKey :: bytes
  lpName :: string
  lpAddrs :: "string list"
  lpServices :: "string list"
  lpLinkMode :: link_mode
  lpRSSI :: int
  lpLatency :: duration
  lpScore :: real
  lpLastSeen :: gotime
  lpVersion :: string

record peer_event =
  evType :: event_type
  evPeer :: link_peer
  evTime :: gotime

record link_config =
  lkMode :: link_mode
  lkEnabled :: bool
  lkAdvertiseInterval :: duration
  lkScanInterval :: duration
  lkMaxRetries :: int
  lkTimeout :: duration

abbreviation second :: duration where "second \<equiv> 1000000000"
abbreviation millisecond :: duration where "millisecond \<equiv> 1000000"

definition mk_config :: "link_mode \<Rightarrow> int \<Rightarrow> int \<Rightarrow> int \<Rightarrow> int \<Rightarrow> link_config" where
  "mk_config m adv scan retries timeout =
     \<lparr>lkMode = m, lkEnabled = True, lkAdvertiseInterval = adv * second, lkScanInterval = scan * second,
      lkMaxRetries = retries, lkTimeout = timeout * second\<rparr>"

definition DefaultLinkConfigs :: "link_mode \<Rightarrow> link_config option" where
  "DefaultLinkConfigs =
     [ModeWiFiStation \<mapsto> mk_config ModeWiFiStation 30 10 3 5,
      ModeWiFiDirect \<mapsto> mk_config ModeWiFiDirect 5 2 3 10,
      ModeAdHocWiFi \<mapsto> mk_config ModeAdHocWiFi 10 5 3 5,
      ModeUSBTether \<mapsto> mk_config ModeUSBTether 5 2 1 3,
      ModeBLE \<mapsto> mk_config ModeBLE 1 1 5 5]"

definition defaultPreferences :: "link_mode list" where
  "defaultPreferences = [ModeWiFiStation, ModeWiFiDirect, ModeAdHocWiFi, ModeUSBTether, ModeBLE]"

section \<open>Manager\<close>

text \<open>
  \<open>lmNotify\<close> says whether an \<open>OnPeer\<close> handler is set. The context, the event channel and the wait
  group belong to the goroutines that feed \<open>handleEvent\<close>.
\<close>

record link_manager =
  lmLinks :: "link list"
  lmActive :: "link option"
  lmPeers :: "bytes \<Rightarrow> link_peer option"
  lmConfigs :: "link_mode \<Rightarrow> link_config option"
  lmPreferences :: "link_mode list"
  lmNotify :: bool
  lmAutoEscalate :: bool

text \<open>Absent preferences and configurations (\<open>nil\<close>) are \<open>None\<close> and get the defaults.\<close>

definition NewManager ::
  "link list \<Rightarrow> link_mode list option \<Rightarrow> (link_mode \<Rightarrow> link_config option) option \<Rightarrow> bool \<Rightarrow> bool \<Rightarrow> link_manager" where
  "NewManager links prefs configs autoEscalate notify =
     \<lparr>lmLinks = links, lmActive = None, lmPeers = Map.empty,
      lmConfigs = (case configs of None \<Rightarrow> DefaultLinkConfigs | Some c \<Rightarrow> c),
      lmPreferences = (case prefs of None \<Rightarrow> defaultPreferences | Some p \<Rightarrow> p),
      lmNotify = notify, lmAutoEscalate = autoEscalate\<rparr>"

text \<open>
  The links on which \<open>Run\<close> starts discovery. A mode without configuration reads the zero value,
  which is disabled.
\<close>

definition discovering :: "(link \<Rightarrow> bool) \<Rightarrow> (link_mode \<Rightarrow> link_config option) \<Rightarrow> link list \<Rightarrow> link list" where
  "discovering avail configs links =
     filter (\<lambda>l. (case configs (lnMode l) of None \<Rightarrow> False | Some c \<Rightarrow> lkEnabled c) \<and> avail l) links"

definition computeScore :: "(real \<Rightarrow> real) \<Rightarrow> gotime \<Rightarrow> link_peer \<Rightarrow> real" where
  "computeScore fl now p =
     (let s0 = 1 / 2;
          s1 = (if time_sub now (lpLastSeen p) < 30 * second then fl (s0 + fl (2 / 10)) else s0);
          s2 = (if lpLatency p < 10 * millisecond then fl (s1 + fl (1 / 10))
                else if lpLatency p < 50 * millisecond then fl (s1 + fl (5 / 100))
                else s1);
          s3 = (if lpRSSI p > -60 then fl (s2 + fl (1 / 10))
                else if lpRSSI p > -80 then fl (s2 + fl (5 / 100))
                else s2)
      in if s3 > 1 then 1 else s3)"

text \<open>
  \<open>handleEvent\<close>: the new state and the event the handler is given, if one is set. Escalation only
  writes to the log.
\<close>

definition Manager_handleEvent ::
  "(real \<Rightarrow> real) \<Rightarrow> gotime \<Rightarrow> peer_event \<Rightarrow> link_manager \<Rightarrow> peer_event option \<times> link_manager" where
  "Manager_handleEvent fl now evt m =
     (let p = evPeer evt;
          (evt', m') =
            (if evType evt = PeerDiscovered \<or> evType evt = PeerUpdated then
               (case lmPeers m (lpID p) of
                  Some existing \<Rightarrow>
                    let p' = p\<lparr>lpScore := computeScore fl now p\<rparr>
                    in (evt\<lparr>evPeer := p'\<rparr>,
                        if lpScore p' > lpScore existing then m\<lparr>lmPeers := (lmPeers m)(lpID p \<mapsto> p')\<rparr> else m)
                | None \<Rightarrow>
                    let p' = p\<lparr>lpScore := 1 / 2\<rparr>
                    in (evt\<lparr>evPeer := p'\<rparr>, m\<lparr>lmPeers := (lmPeers m)(lpID p \<mapsto> p')\<rparr>))
             else if evType evt = PeerLost then (evt, m\<lparr>lmPeers := (lmPeers m)(lpID p := None)\<rparr>)
             else (evt, m))
      in (if lmNotify m then Some evt' else None, m'))"

definition escalation :: "(link \<Rightarrow> bool) \<Rightarrow> link_manager \<Rightarrow> peer_event \<Rightarrow> link option" where
  "escalation avail m evt =
     (if lmAutoEscalate m \<and> lpLinkMode (evPeer evt) = ModeBLE
      then find (\<lambda>l. lnMode l = ModeWiFiDirect \<and> avail l) (lmLinks m)
      else None)"

fun best_link :: "(link \<Rightarrow> bool) \<Rightarrow> link list \<Rightarrow> link_mode list \<Rightarrow> link option" where
  "best_link avail links [] = None"
| "best_link avail links (mode # modes) =
     (case find (\<lambda>l. lnMode l = mode \<and> avail l) links of
        Some l \<Rightarrow> Some l
      | None \<Rightarrow> best_link avail links modes)"

definition Manager_BestLink :: "(link \<Rightarrow> bool) \<Rightarrow> link_manager \<Rightarrow> link option" where
  "Manager_BestLink avail m = best_link avail (lmLinks m) (lmPreferences m)"

definition linkForMode :: "link list \<Rightarrow> link_mode \<Rightarrow> link option" where
  "linkForMode links mode = find (\<lambda>l. lnMode l = mode) links"

text \<open>
  The addresses are tried in order on one link; \<open>k\<close> counts the attempts of the call. The result is
  the first connection, or the next attempt's number.
\<close>

fun try_addrs :: "(nat \<Rightarrow> link \<Rightarrow> string \<Rightarrow> string + 'c) \<Rightarrow> link \<Rightarrow> string list \<Rightarrow> nat \<Rightarrow> nat + 'c" where
  "try_addrs connect l [] k = Inl k"
| "try_addrs connect l (a # as) k =
     (case connect k l a of Inr c \<Rightarrow> Inr c | Inl _ \<Rightarrow> try_addrs connect l as (Suc k))"

fun try_links ::
  "(nat \<Rightarrow> link \<Rightarrow> string \<Rightarrow> string + 'c) \<Rightarrow> (link \<Rightarrow> bool) \<Rightarrow> string list \<Rightarrow> link list \<Rightarrow> nat \<Rightarrow> 'c option" where
  "try_links connect avail addrs [] k = None"
| "try_links connect avail addrs (l # ls) k =
     (if \<not> avail l then try_links connect avail addrs ls k
      else case try_addrs connect l addrs k of
             Inr c \<Rightarrow> Some c
           | Inl k' \<Rightarrow> try_links connect avail addrs ls k')"

text \<open>\<open>ConnectToPeer\<close>; \<open>None\<close> is the error that no link reaches the peer.\<close>

definition Manager_ConnectToPeer ::
  "(nat \<Rightarrow> link \<Rightarrow> string \<Rightarrow> string + 'c) \<Rightarrow> (link \<Rightarrow> bool) \<Rightarrow> link_manager \<Rightarrow> link_peer \<Rightarrow> 'c option" where
  "Manager_ConnectToPeer connect avail m peer =
     (let first = (case linkForMode (lmLinks m) (lpLinkMode peer) of
                     None \<Rightarrow> Inl 0
                   | Some l \<Rightarrow> try_addrs connect l (lpAddrs peer) 0)
      in case first of
           Inr c \<Rightarrow> Some c
         | Inl k \<Rightarrow> try_links connect avail (lpAddrs peer) (lmLinks m) k)"

definition ActiveLink :: "link_manager \<Rightarrow> link option" where
  "ActiveLink m = lmActive m"

section \<open>What the manager keeps\<close>

definition manager_ok :: "link_manager \<Rightarrow> bool" where
  "manager_ok m \<longleftrightarrow> (\<forall>i p. lmPeers m i = Some p \<longrightarrow> lpID p = i \<and> 1 / 2 \<le> lpScore p)"

text \<open>The specification: the peers last seen and not lost since.\<close>

definition track :: "bytes set \<Rightarrow> peer_event \<Rightarrow> bytes set" where
  "track S evt =
     (if evType evt = PeerDiscovered \<or> evType evt = PeerUpdated then insert (lpID (evPeer evt)) S
      else if evType evt = PeerLost then S - {lpID (evPeer evt)}
      else S)"

lemma handleEvent_peers:
  "lmPeers (snd (Manager_handleEvent fl now evt m)) =
     (let p = evPeer evt; i = lpID p
      in if evType evt = PeerDiscovered \<or> evType evt = PeerUpdated then
           (case lmPeers m i of
              None \<Rightarrow> (lmPeers m)(i \<mapsto> p\<lparr>lpScore := 1 / 2\<rparr>)
            | Some existing \<Rightarrow>
                if computeScore fl now p > lpScore existing
                then (lmPeers m)(i \<mapsto> p\<lparr>lpScore := computeScore fl now p\<rparr>) else lmPeers m)
         else if evType evt = PeerLost then (lmPeers m)(i := None)
         else lmPeers m)"
  by (cases "lmPeers m (lpID (evPeer evt))") (simp_all add: Manager_handleEvent_def Let_def)

interpretation link_mgr: refinement "\<lambda>m (now, evt). snd (Manager_handleEvent fl now evt m)" manager_ok
  "\<lambda>m. dom (lmPeers m)" "\<lambda>S (now, evt). track S evt" for fl
proof
  fix m and c :: "gotime \<times> peer_event"
  obtain now evt where c: "c = (now, evt)" by (cases c)
  let ?i = "lpID (evPeer evt)" and ?m = "snd (Manager_handleEvent fl now evt m)"
  assume ok: "manager_ok m"
  have "manager_ok ?m \<and> dom (lmPeers ?m) = track (dom (lmPeers m)) evt"
  proof (cases "lmPeers m ?i")
    case None
    with ok show ?thesis by (auto simp: manager_ok_def handleEvent_peers track_def Let_def event_types)
  next
    case (Some e)
    with ok have "1 / 2 \<le> lpScore e" by (simp add: manager_ok_def)
    then have "lpScore e < s \<Longrightarrow> 1 / 2 \<le> s" for s by simp
    with ok Some show ?thesis by (auto simp: manager_ok_def handleEvent_peers track_def Let_def event_types)
  qed
  with c show "manager_ok (case c of (now, evt) \<Rightarrow> snd (Manager_handleEvent fl now evt m))"
    "dom (lmPeers (case c of (now, evt) \<Rightarrow> snd (Manager_handleEvent fl now evt m)))
      = (case c of (now, evt) \<Rightarrow> track (dom (lmPeers m)) evt)" by auto
qed

text \<open>
  The link manager refines its specification. After any sequence of discovery events the peers it
  knows are exactly those with a sighting after their last loss, each filed under its own
  identifier with a score of at least one half.
\<close>

theorem link_manager_refines:
  "dom (lmPeers (foldl (\<lambda>m (now, evt). snd (Manager_handleEvent fl now evt m)) (NewManager links prefs configs auto notify) evts))
     = foldl (\<lambda>S (now, evt). track S evt) {} evts
   \<and> manager_ok (foldl (\<lambda>m (now, evt). snd (Manager_handleEvent fl now evt m)) (NewManager links prefs configs auto notify) evts)"
proof -
  have "manager_ok (NewManager links prefs configs auto notify)" by (simp add: manager_ok_def NewManager_def)
  from link_mgr.run_refines [OF this] link_mgr.run_inv [OF this] show ?thesis by (simp add: NewManager_def)
qed

text \<open>
  An update with a score that is not higher is dropped as a whole: the addresses, services and
  time of the sighting are lost, although the comment says services are merged.
\<close>

theorem link_manager_drops_update:
  assumes "lmPeers m (lpID (evPeer evt)) = Some existing" "computeScore fl now (evPeer evt) \<le> lpScore existing"
    and "evType evt = PeerDiscovered \<or> evType evt = PeerUpdated"
  shows "lmPeers (snd (Manager_handleEvent fl now evt m)) = lmPeers m"
  using assms by (auto simp: handleEvent_peers Let_def)

lemma best_link_Some:
  "best_link avail links prefs = Some l \<Longrightarrow>
   \<exists>before after. prefs = before @ lnMode l # after \<and> l \<in> set links \<and> avail l \<and> (\<forall>l'\<in>set links. avail l' \<longrightarrow> lnMode l' \<notin> set before)"
proof (induction prefs)
  case (Cons p prefs)
  show ?case
  proof (cases "find (\<lambda>l. lnMode l = p \<and> avail l) links")
    case None
    then obtain before after where "prefs = before @ lnMode l # after" "l \<in> set links" "avail l"
      "\<forall>l'\<in>set links. avail l' \<longrightarrow> lnMode l' \<notin> set before" using Cons by auto
    with None show ?thesis by (intro exI [of _ "p # before"] exI [of _ after]) (auto simp: find_None_iff)
  next
    case (Some l')
    with Cons.prems have "l' = l" by simp
    with Some have "lnMode l = p" "avail l" "l \<in> set links" by (auto simp: find_Some_iff)
    then show ?thesis by (intro exI [of _ "[]"] exI [of _ prefs]) auto
  qed
qed simp

lemma find_mode: "find P xs = Some x \<Longrightarrow> x \<in> set xs \<and> P x"
  by (auto simp: find_Some_iff)

lemma best_link_None: "best_link avail links prefs = None \<longleftrightarrow> (\<forall>l\<in>set links. avail l \<longrightarrow> lnMode l \<notin> set prefs)"
proof (induction prefs)
  case (Cons p prefs)
  show ?case
  proof (cases "find (\<lambda>l. lnMode l = p \<and> avail l) links")
    case None
    then have "\<forall>l\<in>set links. avail l \<longrightarrow> lnMode l \<noteq> p" by (auto simp: find_None_iff)
    with Cons None show ?thesis by simp
  next
    case (Some l)
    from find_mode [OF Some] Some show ?thesis by auto
  qed
qed simp

text \<open>
  The best link. If a link of a preferred mode is available, \<open>BestLink\<close> returns an available link,
  and every available link of the manager has a mode that comes no earlier in the preferences;
  otherwise it returns none.
\<close>

theorem link_best_exact:
  "case Manager_BestLink avail m of
     Some l \<Rightarrow> l \<in> set (lmLinks m) \<and> avail l \<and> (\<exists>before after. lmPreferences m = before @ lnMode l # after
       \<and> (\<forall>l'\<in>set (lmLinks m). avail l' \<longrightarrow> lnMode l' \<notin> set before))
   | None \<Rightarrow> \<forall>l\<in>set (lmLinks m). avail l \<longrightarrow> lnMode l \<notin> set (lmPreferences m)"
proof (cases "best_link avail (lmLinks m) (lmPreferences m)")
  case None
  moreover from None have "\<forall>l\<in>set (lmLinks m). avail l \<longrightarrow> lnMode l \<notin> set (lmPreferences m)" by (simp only: best_link_None)
  ultimately show ?thesis by (simp add: Manager_BestLink_def)
next
  case (Some l)
  from best_link_Some [OF Some] Some show ?thesis by (simp add: Manager_BestLink_def) blast
qed

definition demo_link :: link where "demo_link = \<lparr>lnName = ''ble'', lnMode = ModeBLE\<rparr>"

theorem link_best_exact_witness:
  "Manager_BestLink (\<lambda>_. True) (NewManager [demo_link] None None False False) = Some demo_link \<and> demo_link \<in> set [demo_link]"
proof -
  have b: "Manager_BestLink (\<lambda>_. True) (NewManager [demo_link] None None False False) = Some demo_link" by code_simp
  with link_best_exact [where avail = "\<lambda>_. True" and m = "NewManager [demo_link] None None False False"] show ?thesis
    by (simp add: NewManager_def)
qed

text \<open>
  Connecting to a peer succeeds whenever some available link accepts one of the peer's addresses,
  whatever the other attempts answer.
\<close>

theorem link_connect_complete:
  assumes "l \<in> set (lmLinks m)" "avail l" "a \<in> set (lpAddrs peer)" "\<And>k. \<exists>c. connect k l a = Inr c"
  shows "Manager_ConnectToPeer connect avail m peer \<noteq> None"
proof -
  have addrs: "\<exists>c. try_addrs connect l as k = Inr c" if "a \<in> set as" for as k
    using that
  proof (induction as arbitrary: k)
    case (Cons b as)
    obtain c where "connect k l a = Inr c" using assms(4) by blast
    with Cons show ?case by (auto split: sum.split)
  qed simp
  have "try_links connect avail (lpAddrs peer) ls k \<noteq> None" if "l \<in> set ls" for ls k
    using that
  proof (induction ls arbitrary: k)
    case (Cons l' ls)
    then show ?case using addrs [OF assms(3), of k] assms(2) by (auto split: sum.split)
  qed simp
  then show ?thesis using assms(1) by (auto simp: Manager_ConnectToPeer_def split: sum.split)
qed

theorem link_connect_complete_witness:
  "Manager_ConnectToPeer (\<lambda>k l a. if a = ''b'' then Inr k else Inl ''refused'') (\<lambda>_. True) (NewManager [demo_link] None None False False)
     \<lparr>lpID = [], lpPublicKey = [], lpName = [], lpAddrs = [''a'', ''b''], lpServices = [], lpLinkMode = ModeAcoustic, lpRSSI = 0,
      lpLatency = 0, lpScore = 0, lpLastSeen = 0, lpVersion = []\<rparr> \<noteq> None"
  by (rule link_connect_complete [where l = demo_link and a = "''b''"]) (simp_all add: NewManager_def)

end
