(* ===== verification/Link_MultiPath.thy ===== *)
theory Link_MultiPath
  imports Link_Manager "HOL-Library.Multiset"
begin

text \<open>
  The multi-path link manager, \<open>pkg/link/multipath.go\<close>: the links known to each peer, the choice of
  the primary link and the choice of the link that carries a write. A peer's connections are a map
  from modes, kept as an association list; \<open>rng k\<close> is the order in which the \<open>k\<close>-th \<open>range\<close> over it
  in a call visits it. Each connection object is reachable only through its map entry, so an entry
  \<open>(mode, conn)\<close> stands for the pointer and \<open>modeOf\<close> is its first component. A \<open>net.Conn\<close> is a
  handle; \<open>dial k\<close> and \<open>wr k\<close> answer the \<open>k\<close>-th \<open>Connect\<close> and \<open>Write\<close> of a call.
\<close>

section \<open>State\<close>

record link_connection =
  lcLink :: "link option"
  lcConn :: "nat option"
  lcPeerAddr :: string
  lcEstablished :: gotime
  lcLastUpdate :: gotime
  lcBytesSent :: u64
  lcBytesRecv :: u64
  lcLatency :: duration
  lcActive :: bool

type_synonym link_entry = "link_mode \<times> link_connection"
type_synonym range_order = "nat \<Rightarrow> link_entry list \<Rightarrow> link_entry list"

record agg_stats =
  asTotalSent :: u64
  asTotalRecv :: u64
  asTotalLinks :: nat
  asPrimaryLink :: link_mode
  asAvgLatency :: duration
  asLastUpdate :: gotime

record peer_link_set =
  plPeerID :: bytes
  plConnections :: "link_entry list"
  plPrimary :: link_mode
  plAggregated :: agg_stats
  plCursor :: u64

type_synonym aggregation_mode = int

definition AggregationFailover :: aggregation_mode where "AggregationFailover = 0"
definition AggregationRoundRobin :: aggregation_mode where "AggregationRoundRobin = 1"
definition AggregationBandwidth :: aggregation_mode where "AggregationBandwidth = 2"
definition AggregationLatency :: aggregation_mode where "AggregationLatency = 3"

lemmas aggregation_modes = AggregationFailover_def AggregationRoundRobin_def AggregationBandwidth_def AggregationLatency_def

definition AggregationMode_String :: "aggregation_mode \<Rightarrow> string" where
  "AggregationMode_String a =
     (if a = AggregationFailover then ''failover''
      else if a = AggregationRoundRobin then ''round-robin''
      else if a = AggregationBandwidth then ''bandwidth''
      else if a = AggregationLatency then ''latency''
      else ''unknown'')"

record multipath_manager =
  mmLinks :: "link list"
  mmPeerLinks :: "bytes \<Rightarrow> peer_link_set option"
  mmPreferences :: "link_mode list"
  mmConfigs :: "link_mode \<Rightarrow> link_config option"
  mmNotify :: bool
  mmAggregation :: aggregation_mode

text \<open>\<open>MaxLinks\<close> of the configuration gets a default and is not used further.\<close>

definition NewMultiPathManager ::
  "link list \<Rightarrow> link_mode list option \<Rightarrow> (link_mode \<Rightarrow> link_config option) option \<Rightarrow> aggregation_mode option \<Rightarrow> bool
     \<Rightarrow> multipath_manager" where
  "NewMultiPathManager links prefs configs aggregation notify =
     \<lparr>mmLinks = links, mmPeerLinks = Map.empty,
      mmPreferences = (case prefs of None \<Rightarrow> defaultPreferences | Some p \<Rightarrow> p),
      mmConfigs = (case configs of None \<Rightarrow> DefaultLinkConfigs | Some c \<Rightarrow> c),
      mmNotify = notify,
      mmAggregation = (case aggregation of None \<Rightarrow> AggregationBandwidth | Some a \<Rightarrow> a)\<rparr>"

section \<open>The primary link\<close>

definition activeConnections :: "(link_entry list \<Rightarrow> link_entry list) \<Rightarrow> peer_link_set \<Rightarrow> link_entry list" where
  "activeConnections order pls = filter (\<lambda>(m, c). lcActive c) (order (plConnections pls))"

fun lowest_latency :: "link_entry \<Rightarrow> link_entry list \<Rightarrow> link_entry" where
  "lowest_latency best [] = best"
| "lowest_latency best (c # cs) = lowest_latency (if lcLatency (snd c) < lcLatency (snd best) then c else best) cs"

fun successor :: "link_mode \<Rightarrow> link_entry list \<Rightarrow> link_connection option" where
  "successor primary ((m, c) # (m', c') # rest) =
     (if m = primary then Some c' else successor primary ((m', c') # rest))"
| "successor primary _ = None"

text \<open>Active connections that have a link behind them.\<close>

definition candidates :: "(link_entry list \<Rightarrow> link_entry list) \<Rightarrow> peer_link_set \<Rightarrow> link_entry list" where
  "candidates order pls = filter (\<lambda>(m, c). lcLink c \<noteq> None) (activeConnections order pls)"

text \<open>The choice per mode among the candidates, \<open>cs\<close>; the round-robin successor ranges over every connection.\<close>

definition best_connection ::
  "(link_entry list \<Rightarrow> link_entry list) \<Rightarrow> aggregation_mode \<Rightarrow> peer_link_set \<Rightarrow> link_entry list \<Rightarrow> link_connection option" where
  "best_connection order mode pls cs =
     (if mode = AggregationFailover then Some (snd (hd cs))
      else if mode = AggregationRoundRobin then
        (let next = (if plPrimary pls \<noteq> 0 then successor (plPrimary pls) (order (plConnections pls)) else None)
         in case next of
              Some c \<Rightarrow> if lcLink c = None then Some (snd (hd cs)) else Some c
            | None \<Rightarrow> Some (snd (hd cs)))
      else if mode = AggregationBandwidth \<or> mode = AggregationLatency
      then Some (snd (lowest_latency (hd cs) (tl cs)))
      else None)"

definition keeps_primary :: "aggregation_mode \<Rightarrow> peer_link_set \<Rightarrow> bool" where
  "keeps_primary mode pls \<longleftrightarrow> mode = AggregationFailover \<and> plPrimary pls \<noteq> 0
     \<and> (case map_of (plConnections pls) (plPrimary pls) of None \<Rightarrow> False | Some c \<Rightarrow> lcActive c)"

definition updatePrimary :: "range_order \<Rightarrow> aggregation_mode \<Rightarrow> peer_link_set \<Rightarrow> peer_link_set" where
  "updatePrimary rng mode pls =
     (if activeConnections (rng 0) pls = [] then pls
      else if candidates (rng 0) pls = [] then pls\<lparr>plPrimary := ModeNone\<rparr>
      else if keeps_primary mode pls then pls
      else case best_connection (rng 1) mode pls (candidates (rng 0) pls) of
             None \<Rightarrow> pls
           | Some c \<Rightarrow> (case lcLink c of None \<Rightarrow> pls | Some l \<Rightarrow> pls\<lparr>plPrimary := lnMode l\<rparr>))"

definition updateStats :: "(link_entry list \<Rightarrow> link_entry list) \<Rightarrow> gotime \<Rightarrow> peer_link_set \<Rightarrow> peer_link_set" where
  "updateStats order now pls =
     (let conns = map snd (activeConnections order pls); a = plAggregated pls;
          total = foldl (\<lambda>t c. wrap64 (t + lcLatency c)) 0 conns
      in pls\<lparr>plAggregated :=
           \<lparr>asTotalSent = foldl (\<lambda>t c. t + lcBytesSent c) (asTotalSent a) conns,
            asTotalRecv = foldl (\<lambda>t c. t + lcBytesRecv c) (asTotalRecv a) conns,
            asTotalLinks = length conns, asPrimaryLink = plPrimary pls,
            asAvgLatency = (if length conns > 0 then quot total (int (length conns)) else asAvgLatency a),
            asLastUpdate = now\<rparr>\<rparr>)"

section \<open>Discovery events\<close>

definition empty_set :: "bytes \<Rightarrow> peer_link_set" where
  "empty_set peer =
     \<lparr>plPeerID = peer, plConnections = [], plPrimary = 0,
      plAggregated = \<lparr>asTotalSent = 0, asTotalRecv = 0, asTotalLinks = 0, asPrimaryLink = 0, asAvgLatency = 0, asLastUpdate = 0\<rparr>,
      plCursor = 0\<rparr>"

text \<open>The update of an entry in place; the keys and their order stay.\<close>

definition update_entry :: "link_mode \<Rightarrow> (link_connection \<Rightarrow> link_connection) \<Rightarrow> link_entry list \<Rightarrow> link_entry list" where
  "update_entry mode f cs = map (\<lambda>(m, c). (m, if m = mode then f c else c)) cs"

definition sighting ::
  "range_order \<Rightarrow> gotime \<Rightarrow> link list \<Rightarrow> aggregation_mode \<Rightarrow> link_peer \<Rightarrow> peer_link_set \<Rightarrow> peer_link_set" where
  "sighting rng now links agg p pls =
     (let mode = lpLinkMode p; n = word_of_nat (length (lpAddrs p));
          pls' =
            (if map_of (plConnections pls) mode \<noteq> None then
               pls\<lparr>plConnections := update_entry mode (\<lambda>c. c\<lparr>lcBytesSent := lcBytesSent c + n, lcBytesRecv := lcBytesRecv c + n,
                      lcLatency := lpLatency p, lcLastUpdate := now\<rparr>) (plConnections pls)\<rparr>
             else if length (plConnections pls) < 3 then
               updatePrimary rng agg
                 (pls\<lparr>plConnections := plConnections pls @
                    [(mode, \<lparr>lcLink = linkForMode links mode, lcConn = None,
                             lcPeerAddr = (if length (lpAddrs p) > 0 then hd (lpAddrs p) else []),
                             lcEstablished = now, lcLastUpdate = 0, lcBytesSent = 0, lcBytesRecv = 0,
                             lcLatency = lpLatency p, lcActive = True\<rparr>)]\<rparr>)
             else pls)
      in updateStats (rng 2) now pls')"

definition loss :: "range_order \<Rightarrow> gotime \<Rightarrow> aggregation_mode \<Rightarrow> link_mode \<Rightarrow> peer_link_set \<Rightarrow> peer_link_set" where
  "loss rng now agg mode pls =
     (let pls' =
        (if map_of (plConnections pls) mode \<noteq> None
         then updatePrimary rng agg (pls\<lparr>plConnections := update_entry mode (\<lambda>c. c\<lparr>lcActive := False\<rparr>) (plConnections pls)\<rparr>)
         else pls)
      in updateStats (rng 2) now pls')"

definition MultiPath_handleEvent ::
  "range_order \<Rightarrow> gotime \<Rightarrow> peer_event \<Rightarrow> multipath_manager \<Rightarrow> peer_event option \<times> multipath_manager" where
  "MultiPath_handleEvent rng now evt m =
     (let p = evPeer evt; i = lpID p;
          m' =
            (if evType evt = PeerDiscovered \<or> evType evt = PeerUpdated then
               (let existing = (case mmPeerLinks m i of None \<Rightarrow> empty_set i | Some pls \<Rightarrow> pls)
                in m\<lparr>mmPeerLinks := (mmPeerLinks m)(i \<mapsto> sighting rng now (mmLinks m) (mmAggregation m) p existing)\<rparr>)
             else if evType evt = PeerLost then
               (case mmPeerLinks m i of
                  None \<Rightarrow> m
                | Some pls \<Rightarrow>
                    let pls' = loss rng now (mmAggregation m) (lpLinkMode p) pls
                    in if length (activeConnections (rng 3) pls') = 0
                       then m\<lparr>mmPeerLinks := (mmPeerLinks m)(i := None)\<rparr>
                       else m\<lparr>mmPeerLinks := (mmPeerLinks m)(i \<mapsto> pls')\<rparr>)
             else m)
      in (if mmNotify m then Some evt else None, m'))"

text \<open>One tick of \<open>statsAggregator\<close>; every peer's set is updated under the read lock.\<close>

definition stats_tick :: "range_order \<Rightarrow> gotime \<Rightarrow> multipath_manager \<Rightarrow> multipath_manager" where
  "stats_tick rng now m = m\<lparr>mmPeerLinks := (\<lambda>i. map_option (updateStats (rng 0) now) (mmPeerLinks m i))\<rparr>"

definition SetAggregationMode :: "range_order \<Rightarrow> aggregation_mode \<Rightarrow> multipath_manager \<Rightarrow> multipath_manager" where
  "SetAggregationMode rng mode m =
     m\<lparr>mmAggregation := mode, mmPeerLinks := (\<lambda>i. map_option (updatePrimary rng mode) (mmPeerLinks m i))\<rparr>"

section \<open>Dialling\<close>

datatype mp_error = PeerNotKnown | NoActiveConnections | PeerNotConnected | NoActiveConnection
  | WriteOver link_mode string | IndexPanic

text \<open>
  The loop of \<open>ConnectToPeer\<close> over the entries: the entries with their new connections and the
  connections it returns. A failed dial leaves a nil \<open>Conn\<close>.
\<close>

fun connect_loop ::
  "(nat \<Rightarrow> link \<Rightarrow> string \<Rightarrow> string + nat) \<Rightarrow> nat \<Rightarrow> link_entry list \<Rightarrow> link_entry list \<times> (link_mode \<times> nat) list" where
  "connect_loop dial k [] = ([], [])"
| "connect_loop dial k ((m, c) # cs) =
     (if \<not> lcActive c then (let (es, out) = connect_loop dial k cs in ((m, c) # es, out))
      else case lcConn c of
             Some h \<Rightarrow> (let (es, out) = connect_loop dial k cs in ((m, c) # es, (m, h) # out))
           | None \<Rightarrow>
               (case lcLink c of
                  None \<Rightarrow> (let (es, out) = connect_loop dial k cs in ((m, c) # es, out))
                | Some l \<Rightarrow>
                    (case dial k l (lcPeerAddr c) of
                       Inl e \<Rightarrow> (let (es, out) = connect_loop dial (Suc k) cs in ((m, c) # es, out))
                     | Inr h \<Rightarrow>
                         (let (es, out) = connect_loop dial (Suc k) cs
                          in ((m, c\<lparr>lcConn := Some h, lcActive := True\<rparr>) # es, (m, h) # out)))))"

definition MultiPath_ConnectToPeer ::
  "(link_entry list \<Rightarrow> link_entry list) \<Rightarrow> (nat \<Rightarrow> link \<Rightarrow> string \<Rightarrow> string + nat) \<Rightarrow> bytes \<Rightarrow> multipath_manager
     \<Rightarrow> (mp_error + (link_mode \<times> nat) list) \<times> multipath_manager" where
  "MultiPath_ConnectToPeer order dial peer m =
     (case mmPeerLinks m peer of
        None \<Rightarrow> (Inl PeerNotKnown, m)
      | Some pls \<Rightarrow>
          (let (es, out) = connect_loop dial 0 (order (plConnections pls));
               m' = m\<lparr>mmPeerLinks := (mmPeerLinks m)(peer \<mapsto> pls\<lparr>plConnections := es\<rparr>)\<rparr>
           in (if out = [] then Inl NoActiveConnections else Inr out, m')))"

section \<open>Writing\<close>

definition throughput :: "(real \<Rightarrow> real) \<Rightarrow> gotime \<Rightarrow> link_connection \<Rightarrow> real" where
  "throughput fl now c =
     (if lcEstablished c = 0 then 0
      else let elapsed = seconds fl (time_sub now (lcEstablished c))
           in if elapsed < 1 then fl (real (unat (lcBytesSent c)))
              else fl (fl (real (unat (lcBytesSent c))) / elapsed))"

definition primaryFirst :: "link_mode \<Rightarrow> link_entry list \<Rightarrow> link_entry list" where
  "primaryFirst primary us =
     (case dropWhile (\<lambda>u. fst u \<noteq> primary) us of
        [] \<Rightarrow> us
      | u # after \<Rightarrow> u # takeWhile (\<lambda>u. fst u \<noteq> primary) us @ after)"

text \<open>
  \<open>selectLinks\<close>; the clock is read once per sort. The round-robin start is \<open>int(cursor) % len\<close>, which
  is negative once the cursor exceeds \<open>2 ^ 63\<close>: \<open>None\<close> is the panic of the index expression then.
\<close>

definition rotation :: "u64 \<Rightarrow> link_entry list \<Rightarrow> link_entry list option" where
  "rotation cursor us =
     (let n = int (length us); start = sint cursor - quot (sint cursor) n * n
      in if start < 0 then None
         else Some (map (\<lambda>i. us ! ((nat start + i) mod length us)) [0..<length us]))"

definition selectLinks ::
  "(real \<Rightarrow> real) \<Rightarrow> gotime \<Rightarrow> (link_entry list \<Rightarrow> link_entry list) \<Rightarrow> aggregation_mode \<Rightarrow> peer_link_set
     \<Rightarrow> (link_entry list \<times> peer_link_set) option" where
  "selectLinks fl now order mode pls =
     (let usable = filter (\<lambda>(m, c). lcLink c \<noteq> None \<and> lcConn c \<noteq> None) (activeConnections order pls)
      in if usable = [] then Some ([], pls)
         else let us = primaryFirst (plPrimary pls) (sort_key fst usable)
              in if mode = AggregationRoundRobin then
                   map_option (\<lambda>out. (out, pls\<lparr>plCursor := plCursor pls + 1\<rparr>)) (rotation (plCursor pls) us)
                 else if mode = AggregationBandwidth then Some (sort_key (\<lambda>(m, c). - throughput fl now c) us, pls)
                 else if mode = AggregationLatency then Some (sort_key (\<lambda>(m, c). lcLatency c) us, pls)
                 else Some (us, pls))"

text \<open>
  The loop over the candidates; \<open>wr i h\<close> is the outcome of the write on the \<open>i\<close>-th candidate, the
  count and the error if any. The first result is the outcome, the second says which candidate
  carried the write.
\<close>

fun send_loop ::
  "(nat \<Rightarrow> nat \<Rightarrow> nat \<times> string option) \<Rightarrow> aggregation_mode \<Rightarrow> mp_error option \<Rightarrow> nat \<Rightarrow> link_entry list
     \<Rightarrow> (nat \<times> mp_error option) \<times> (nat \<times> link_mode) option" where
  "send_loop wr agg lastErr i [] = ((0, lastErr), None)"
| "send_loop wr agg lastErr i ((m, c) # cs) =
     (case wr i (the (lcConn c)) of
        (n, Some e) \<Rightarrow>
          if agg \<noteq> AggregationFailover then ((n, Some (WriteOver m e)), None)
          else send_loop wr agg (Some (WriteOver m e)) (Suc i) cs
      | (n, None) \<Rightarrow> ((n, None), Some (i, m)))"

definition after_write :: "gotime \<Rightarrow> nat \<Rightarrow> (nat \<times> link_mode) option \<Rightarrow> peer_link_set \<Rightarrow> peer_link_set" where
  "after_write now n carrier pls =
     (case carrier of
        None \<Rightarrow> pls
      | Some (i, mode) \<Rightarrow>
          let p = pls\<lparr>plConnections := update_entry mode
                    (\<lambda>c. c\<lparr>lcBytesSent := lcBytesSent c + word_of_nat n, lcLastUpdate := now\<rparr>) (plConnections pls)\<rparr>
          in if i = 0 then p\<lparr>plPrimary := mode\<rparr> else p)"

definition SendToPeer ::
  "(real \<Rightarrow> real) \<Rightarrow> gotime \<Rightarrow> gotime \<Rightarrow> (link_entry list \<Rightarrow> link_entry list) \<Rightarrow> (nat \<Rightarrow> nat \<Rightarrow> bytes \<Rightarrow> nat \<times> string option)
     \<Rightarrow> bytes \<Rightarrow> bytes \<Rightarrow> multipath_manager \<Rightarrow> (nat \<times> mp_error option) \<times> multipath_manager" where
  "SendToPeer fl now now' order wr peer data m =
     (case mmPeerLinks m peer of
        None \<Rightarrow> ((0, Some PeerNotConnected), m)
      | Some pls \<Rightarrow>
          (case selectLinks fl now order (mmAggregation m) pls of
             None \<Rightarrow> ((0, Some IndexPanic), m)
           | Some (cands, pls1) \<Rightarrow>
               if cands = [] then ((0, Some NoActiveConnection), m)
               else (let (res, carrier) = send_loop (\<lambda>i h. wr i h data) (mmAggregation m) None 0 cands
                     in (res, m\<lparr>mmPeerLinks := (mmPeerLinks m)(peer \<mapsto> after_write now' (fst res) carrier pls1)\<rparr>))))"

section \<open>Queries\<close>

definition GetAggregatedStats :: "bytes \<Rightarrow> multipath_manager \<Rightarrow> agg_stats option" where
  "GetAggregatedStats peer m = map_option plAggregated (mmPeerLinks m peer)"

definition GetPeerLinks :: "bytes \<Rightarrow> multipath_manager \<Rightarrow> link_entry list option" where
  "GetPeerLinks peer m = map_option (\<lambda>pls. filter (\<lambda>(mode, c). lcActive c) (plConnections pls)) (mmPeerLinks m peer)"

definition MultiPath_BestLink :: "(link \<Rightarrow> bool) \<Rightarrow> multipath_manager \<Rightarrow> link option" where
  "MultiPath_BestLink avail m = best_link avail (mmLinks m) (mmPreferences m)"

definition MultiPath_PeerCount :: "multipath_manager \<Rightarrow> nat" where
  "MultiPath_PeerCount m = card (dom (mmPeerLinks m))"

text \<open>What \<open>Peers\<close> reports of one peer.\<close>

definition reported_peer :: "(real \<Rightarrow> real) \<Rightarrow> peer_link_set \<Rightarrow> link_peer option" where
  "reported_peer fl pls =
     (let active = activeConnections (\<lambda>cs. cs) pls
      in if length active = 0 then None
         else map_option (\<lambda>c.
           \<lparr>lpID = plPeerID pls, lpPublicKey = replicate 32 0, lpName = [], lpAddrs = [lcPeerAddr c], lpServices = [],
            lpLinkMode = plPrimary pls, lpRSSI = 0, lpLatency = asAvgLatency (plAggregated pls),
            lpScore = fl (real (length active) / 3), lpLastSeen = asLastUpdate (plAggregated pls), lpVersion = []\<rparr>)
           (map_of (plConnections pls) (plPrimary pls)))"

section \<open>The invariant of a peer's links\<close>

definition links_shape :: "peer_link_set \<Rightarrow> bool" where
  "links_shape pls \<longleftrightarrow> distinct (map fst (plConnections pls)) \<and> length (plConnections pls) \<le> 3
     \<and> (\<forall>e\<in>set (plConnections pls). \<forall>l. lcLink (snd e) = Some l \<longrightarrow> lnMode l = fst e)
     \<and> (plPrimary pls = 0 \<or> plPrimary pls = ModeNone \<or> plPrimary pls \<in> fst ` set (plConnections pls))"

definition links_ok :: "peer_link_set \<Rightarrow> bool" where
  "links_ok pls \<longleftrightarrow> links_shape pls \<and> (\<exists>e\<in>set (plConnections pls). lcActive (snd e))"

definition mp_ok :: "multipath_manager \<Rightarrow> bool" where
  "mp_ok m \<longleftrightarrow> (\<forall>i pls. mmPeerLinks m i = Some pls \<longrightarrow> plPeerID pls = i \<and> links_ok pls)"

definition reorders :: "(link_entry list \<Rightarrow> link_entry list) \<Rightarrow> bool" where
  "reorders order \<longleftrightarrow> (\<forall>cs. mset (order cs) = mset cs)"

lemma reorders_set: "reorders order \<Longrightarrow> set (order cs) = set cs"
  unfolding reorders_def by (metis mset_eq_setD)

lemma set_active: "reorders order \<Longrightarrow> set (activeConnections order pls) = {e \<in> set (plConnections pls). lcActive (snd e)}"
  by (auto simp: activeConnections_def reorders_set)

lemma update_entry_keys [simp]: "map fst (update_entry mode f cs) = map fst cs" "length (update_entry mode f cs) = length cs"
  by (simp_all add: update_entry_def comp_def case_prod_beta)

lemma update_entry_fst [simp]: "fst ` set (update_entry mode f cs) = fst ` set cs"
  by (metis update_entry_keys(1) list.set_map)

lemma update_entry_mem: "e \<in> set (update_entry mode f cs) \<longleftrightarrow> (\<exists>c. (fst e, c) \<in> set cs \<and> snd e = (if fst e = mode then f c else c))"
  by (cases e) (force simp: update_entry_def image_iff)

lemma lowest_latency_mem: "lowest_latency b cs \<in> insert b (set cs)"
  by (induction cs arbitrary: b) (auto simp: insert_commute)

lemma lowest_latency_hd: "cs \<noteq> [] \<Longrightarrow> lowest_latency (hd cs) (tl cs) \<in> set cs"
  using lowest_latency_mem [of "hd cs" "tl cs"] by (cases cs) auto

lemma lowest_latency_least: "e \<in> insert b (set cs) \<Longrightarrow> lcLatency (snd (lowest_latency b cs)) \<le> lcLatency (snd e)"
proof (induction cs arbitrary: b e)
  case (Cons c cs)
  let ?b = "if lcLatency (snd c) < lcLatency (snd b) then c else b"
  have "lcLatency (snd (lowest_latency ?b cs)) \<le> lcLatency (snd ?b)" by (rule Cons.IH) simp
  with Cons.IH [of e ?b] Cons.prems show ?case by auto
qed simp

lemma successor_mem: "successor p cs = Some c \<Longrightarrow> \<exists>m. (m, c) \<in> set cs"
  by (induction p cs rule: successor.induct) (auto split: if_splits)

lemma set_candidates:
  "reorders order \<Longrightarrow> set (candidates order pls) = {e \<in> set (plConnections pls). lcActive (snd e) \<and> lcLink (snd e) \<noteq> None}"
  by (auto simp: candidates_def set_active)

lemma best_connection_mem:
  assumes "reorders order" "cs \<noteq> []" "set cs \<subseteq> set (plConnections pls)" "best_connection order mode pls cs = Some c"
  shows "\<exists>m. (m, c) \<in> set (plConnections pls)"
proof -
  have *: "\<exists>m. (m, snd e) \<in> set (plConnections pls)" if "e \<in> set cs" for e
    using that assms(3) by (metis prod.collapse subsetD)
  have succ: "\<exists>m. (m, d) \<in> set (plConnections pls)" if "successor p (order (plConnections pls)) = Some d" for p d
    using successor_mem [OF that] assms(1) by (simp add: reorders_set)
  have "c = snd (hd cs) \<or> c = snd (lowest_latency (hd cs) (tl cs)) \<or> successor (plPrimary pls) (order (plConnections pls)) = Some c"
  proof (cases "mode = AggregationRoundRobin")
    case True
    with assms(4) show ?thesis
      by (cases "if plPrimary pls \<noteq> 0 then successor (plPrimary pls) (order (plConnections pls)) else None")
        (simp_all add: best_connection_def aggregation_modes split: if_splits)
  next
    case False
    with assms(4) show ?thesis by (simp add: best_connection_def split: if_splits)
  qed
  then consider "c = snd (hd cs)" | "c = snd (lowest_latency (hd cs) (tl cs))"
    | "successor (plPrimary pls) (order (plConnections pls)) = Some c" by blast
  then show ?thesis
  proof cases
    case 1
    with * [OF hd_in_set [OF assms(2)]] show ?thesis by simp
  next
    case 2
    with * [OF lowest_latency_hd [OF assms(2)]] show ?thesis by simp
  next
    case 3
    then show ?thesis by (rule succ)
  qed
qed

text \<open>What \<open>updatePrimary\<close> may do: keep the primary, set it to none, or name a recorded link.\<close>

lemma updatePrimary_cases:
  assumes "reorders (rng 0)" "reorders (rng 1)"
  obtains "updatePrimary rng mode pls = pls"
    | "updatePrimary rng mode pls = pls\<lparr>plPrimary := ModeNone\<rparr>"
    | e l where "e \<in> set (plConnections pls)" "lcLink (snd e) = Some l" "updatePrimary rng mode pls = pls\<lparr>plPrimary := lnMode l\<rparr>"
proof (cases "updatePrimary rng mode pls = pls \<or> updatePrimary rng mode pls = pls\<lparr>plPrimary := ModeNone\<rparr>")
  case True
  with that show thesis by blast
next
  case False
  then obtain c l where c: "candidates (rng 0) pls \<noteq> []" "best_connection (rng 1) mode pls (candidates (rng 0) pls) = Some c"
      "lcLink c = Some l" "updatePrimary rng mode pls = pls\<lparr>plPrimary := lnMode l\<rparr>"
    by (auto simp: updatePrimary_def split: if_splits option.splits)
  obtain m where "(m, c) \<in> set (plConnections pls)"
    using best_connection_mem [OF assms(2) c(1) _ c(2)] set_candidates [OF assms(1)] by auto
  with c that(3) [of "(m, c)" l] show thesis by simp
qed

lemma updatePrimary_frame:
  assumes "reorders (rng 0)" "reorders (rng 1)"
  shows "plPeerID (updatePrimary rng mode pls) = plPeerID pls" "plConnections (updatePrimary rng mode pls) = plConnections pls"
    "links_shape pls \<Longrightarrow> links_shape (updatePrimary rng mode pls)"
  by (rule updatePrimary_cases [OF assms, of mode pls]; force simp: links_shape_def)+

lemma updatePrimary_ok:
  assumes "reorders (rng 0)" "reorders (rng 1)" "links_ok pls"
  shows "links_ok (updatePrimary rng mode pls)"
  using assms(3) updatePrimary_frame [OF assms(1,2)] by (simp add: links_ok_def)

lemma links_ok_cursor [simp]: "links_ok (pls\<lparr>plCursor := x\<rparr>) = links_ok pls"
  by (simp add: links_ok_def links_shape_def)

lemma updateStats_simps [simp]:
  "plPeerID (updateStats order now pls) = plPeerID pls" "plConnections (updateStats order now pls) = plConnections pls"
  "plPrimary (updateStats order now pls) = plPrimary pls" "links_shape (updateStats order now pls) = links_shape pls"
  "links_ok (updateStats order now pls) = links_ok pls"
  by (simp_all add: updateStats_def Let_def links_ok_def links_shape_def)

lemma links_shape_entries:
  assumes "links_shape pls" "mset (map fst cs) = mset (map fst (plConnections pls))"
    and "\<And>m c. (m, c) \<in> set cs \<Longrightarrow> \<exists>d. (m, d) \<in> set (plConnections pls) \<and> lcLink c = lcLink d"
  shows "links_shape (pls\<lparr>plConnections := cs\<rparr>)"
proof -
  have "fst ` set cs = fst ` set (plConnections pls)" using assms(2) by (metis list.set_map mset_eq_setD)
  moreover have "length cs = length (plConnections pls)" using assms(2) by (metis length_map mset_eq_length)
  moreover have "distinct (map fst cs)" using assms(1,2) mset_eq_imp_distinct_iff unfolding links_shape_def by blast
  moreover have "lnMode l = fst e" if e: "e \<in> set cs" "lcLink (snd e) = Some l" for e l
  proof -
    obtain d where "(fst e, d) \<in> set (plConnections pls)" "lcLink d = Some l" using assms(3) [of "fst e" "snd e"] e by auto
    with assms(1) show ?thesis unfolding links_shape_def by fastforce
  qed
  ultimately show ?thesis using assms(1) by (simp add: links_shape_def)
qed

lemma update_entry_shape:
  "links_shape pls \<Longrightarrow> (\<And>c. lcLink (f c) = lcLink c)
   \<Longrightarrow> links_shape (pls\<lparr>plConnections := update_entry mode f (plConnections pls)\<rparr>)"
  by (intro links_shape_entries) (auto simp: update_entry_mem)

lemma update_entry_active:
  assumes "\<exists>e\<in>set cs. lcActive (snd e)" "\<And>c. lcActive (f c) = lcActive c"
  shows "\<exists>e\<in>set (update_entry mode f cs). lcActive (snd e)"
proof -
  obtain m c where "(m, c) \<in> set cs" "lcActive c" using assms(1) by auto
  then have "(m, if m = mode then f c else c) \<in> set (update_entry mode f cs)" "lcActive (if m = mode then f c else c)"
    using assms(2) by (auto simp: update_entry_mem)
  then show ?thesis by force
qed

lemma update_entry_ok:
  "links_ok pls \<Longrightarrow> (\<And>c. lcLink (f c) = lcLink c) \<Longrightarrow> (\<And>c. lcActive (f c) = lcActive c)
   \<Longrightarrow> links_ok (pls\<lparr>plConnections := update_entry mode f (plConnections pls)\<rparr>)"
  by (simp add: links_ok_def update_entry_shape update_entry_active)

lemma linkForMode_mode: "linkForMode links mode = Some l \<Longrightarrow> lnMode l = mode"
  by (simp add: linkForMode_def find_Some_iff) blast

lemma sighting_ok:
  assumes rng: "\<And>k. reorders (rng k)" and pls: "links_ok pls \<or> plConnections pls = [] \<and> plPrimary pls = 0"
  shows "links_ok (sighting rng now links agg p pls) \<and> plPeerID (sighting rng now links agg p pls) = plPeerID pls"
proof (cases "map_of (plConnections pls) (lpLinkMode p)")
  case (Some c)
  then have "links_ok pls" using pls by auto
  with Some show ?thesis by (simp add: sighting_def Let_def update_entry_ok)
next
  case None
  then have new: "lpLinkMode p \<notin> fst ` set (plConnections pls)" by (simp add: map_of_eq_None_iff)
  show ?thesis
  proof (cases "length (plConnections pls) < 3")
    case True
    define c where "c = \<lparr>lcLink = linkForMode links (lpLinkMode p), lcConn = None,
      lcPeerAddr = (if length (lpAddrs p) > 0 then hd (lpAddrs p) else []), lcEstablished = now, lcLastUpdate = 0,
      lcBytesSent = 0, lcBytesRecv = 0, lcLatency = lpLatency p, lcActive = True\<rparr>"
    have c: "lcActive c" "\<And>l. lcLink c = Some l \<Longrightarrow> lnMode l = lpLinkMode p"
      by (simp_all add: c_def linkForMode_mode)
    have "links_ok (pls\<lparr>plConnections := plConnections pls @ [(lpLinkMode p, c)]\<rparr>)"
      using pls new True c by (auto simp: links_ok_def links_shape_def image_iff)
    from updatePrimary_ok [OF rng rng this] None True updatePrimary_frame(1) [of rng, OF rng rng] show ?thesis
      by (simp add: sighting_def Let_def c_def)
  next
    case False
    then have "links_ok pls" using pls by auto
    with None False show ?thesis by (simp add: sighting_def Let_def)
  qed
qed

lemma loss_shape:
  assumes rng: "\<And>k. reorders (rng k)" and pls: "links_shape pls"
  shows "links_shape (loss rng now agg mode pls) \<and> plPeerID (loss rng now agg mode pls) = plPeerID pls"
proof -
  have upd: "links_shape (pls\<lparr>plConnections := update_entry mode (\<lambda>c. c\<lparr>lcActive := False\<rparr>) (plConnections pls)\<rparr>)"
    using pls by (intro update_entry_shape) auto
  show ?thesis
    using pls updatePrimary_frame [of rng, OF rng rng] updatePrimary_frame(3) [of rng, OF rng rng upd]
    by (simp add: loss_def Let_def)
qed

lemma handleEvent_ok:
  assumes rng: "\<And>k. reorders (rng k)" and ok: "mp_ok m"
  shows "mp_ok (snd (MultiPath_handleEvent rng now evt m))"
proof -
  let ?i = "lpID (evPeer evt)"
  consider (seen) "evType evt = PeerDiscovered \<or> evType evt = PeerUpdated" | (lost) "evType evt = PeerLost"
    | (other) "evType evt \<noteq> PeerDiscovered \<and> evType evt \<noteq> PeerUpdated \<and> evType evt \<noteq> PeerLost" by blast
  then show ?thesis
  proof cases
    case seen
    define existing where "existing = (case mmPeerLinks m ?i of None \<Rightarrow> empty_set ?i | Some pls \<Rightarrow> pls)"
    have "(links_ok existing \<or> plConnections existing = [] \<and> plPrimary existing = 0) \<and> plPeerID existing = ?i"
      using ok by (auto simp: existing_def mp_ok_def empty_set_def split: option.split)
    then have "links_ok (sighting rng now (mmLinks m) (mmAggregation m) (evPeer evt) existing)
        \<and> plPeerID (sighting rng now (mmLinks m) (mmAggregation m) (evPeer evt) existing) = ?i"
      using sighting_ok [of rng, OF rng] by metis
    with seen ok show ?thesis by (auto simp: MultiPath_handleEvent_def Let_def mp_ok_def existing_def)
  next
    case lost
    show ?thesis
    proof (cases "mmPeerLinks m ?i")
      case (Some pls)
      let ?pls = "loss rng now (mmAggregation m) (lpLinkMode (evPeer evt)) pls"
      have "links_shape pls" "plPeerID pls = ?i" using ok Some by (auto simp: mp_ok_def links_ok_def)
      then have "links_shape ?pls" "plPeerID ?pls = ?i" using loss_shape [of rng, OF rng] by auto
      moreover have "\<exists>e\<in>set (plConnections ?pls). lcActive (snd e)" if "activeConnections (rng 3) ?pls \<noteq> []"
        using set_active [OF rng, of 3 ?pls] that by (metis (no_types, lifting) empty_Collect_eq set_empty)
      ultimately show ?thesis
        using lost Some ok by (auto simp: MultiPath_handleEvent_def Let_def mp_ok_def event_types links_ok_def)
    qed (use lost ok in \<open>simp add: MultiPath_handleEvent_def Let_def event_types\<close>)
  qed (use ok in \<open>simp add: MultiPath_handleEvent_def Let_def\<close>)
qed

section \<open>Dialling and writing keep the links\<close>

definition same_link :: "link_entry \<Rightarrow> link_entry \<Rightarrow> bool" where
  "same_link e f \<longleftrightarrow> fst e = fst f \<and> lcLink (snd e) = lcLink (snd f) \<and> lcActive (snd e) = lcActive (snd f)"

lemma connect_loop_same: "list_all2 same_link (fst (connect_loop dial k cs)) cs"
  by (induction dial k cs rule: connect_loop.induct) (auto simp: same_link_def split: prod.splits option.splits sum.splits)

lemma same_links_ok:
  assumes "links_ok pls" "mset ds = mset (plConnections pls)" "list_all2 same_link cs ds"
  shows "links_ok (pls\<lparr>plConnections := cs\<rparr>)"
proof -
  have keys: "map fst cs = map fst ds"
    using assms(3) by (induction rule: list_all2_induct) (auto simp: same_link_def)
  have to: "\<exists>f\<in>set ds. same_link e f" if "e \<in> set cs" for e
    using assms(3) that by (metis list_all2_conv_all_nth in_set_conv_nth)
  have from_ds: "\<exists>e\<in>set cs. same_link e f" if "f \<in> set ds" for f
    using assms(3) that by (metis list_all2_conv_all_nth in_set_conv_nth)
  have ds: "set ds = set (plConnections pls)" using assms(2) by (metis mset_eq_setD)
  have "links_shape (pls\<lparr>plConnections := cs\<rparr>)"
  proof (rule links_shape_entries)
    show "links_shape pls" using assms(1) by (simp add: links_ok_def)
    show "mset (map fst cs) = mset (map fst (plConnections pls))" by (simp only: keys mset_map assms(2))
    show "\<exists>d. (m, d) \<in> set (plConnections pls) \<and> lcLink c = lcLink d" if "(m, c) \<in> set cs" for m c
      using to [OF that] ds by (auto simp: same_link_def)
  qed
  moreover obtain f where f: "f \<in> set ds" "lcActive (snd f)" using assms(1) ds by (auto simp: links_ok_def)
  moreover obtain e where "e \<in> set cs" "same_link e f" using from_ds [OF f(1)] by blast
  ultimately show ?thesis by (auto simp: links_ok_def same_link_def)
qed

lemma ConnectToPeer_ok:
  assumes "reorders order" "mp_ok m"
  shows "mp_ok (snd (MultiPath_ConnectToPeer order dial peer m))"
proof (cases "mmPeerLinks m peer")
  case (Some pls)
  obtain es out where loop: "connect_loop dial 0 (order (plConnections pls)) = (es, out)" by fastforce
  have "links_ok pls" "plPeerID pls = peer" using assms(2) Some by (auto simp: mp_ok_def)
  moreover have "mset (order (plConnections pls)) = mset (plConnections pls)" using assms(1) by (simp add: reorders_def)
  moreover have "list_all2 same_link es (order (plConnections pls))" using connect_loop_same loop by (metis fst_conv)
  ultimately have "links_ok (pls\<lparr>plConnections := es\<rparr>)" by (intro same_links_ok)
  with Some assms(2) \<open>plPeerID pls = peer\<close> show ?thesis
    by (auto simp: MultiPath_ConnectToPeer_def loop mp_ok_def)
qed (use assms(2) in \<open>simp add: MultiPath_ConnectToPeer_def\<close>)

definition usable :: "peer_link_set \<Rightarrow> link_entry set" where
  "usable pls = {e \<in> set (plConnections pls). lcActive (snd e) \<and> lcLink (snd e) \<noteq> None \<and> lcConn (snd e) \<noteq> None}"

lemma set_primaryFirst: "set (primaryFirst p us) = set us"
proof (cases "dropWhile (\<lambda>u. fst u \<noteq> p) us")
  case (Cons u after)
  have "set us = set (takeWhile (\<lambda>u. fst u \<noteq> p) us @ dropWhile (\<lambda>u. fst u \<noteq> p) us)" by simp
  with Cons show ?thesis unfolding primaryFirst_def set_append by auto
next
  case Nil
  then show ?thesis unfolding primaryFirst_def Nil by simp
qed

lemma rotation_rotate: "rotation cursor us = Some out \<Longrightarrow> \<exists>n. out = rotate n us"
proof -
  assume "rotation cursor us = Some out"
  then obtain n where "out = map (\<lambda>i. us ! ((n + i) mod length us)) [0..<length us]"
    by (auto simp: rotation_def Let_def split: if_splits)
  then have "out = rotate n us" by (intro nth_equalityI) (simp_all add: nth_rotate)
  then show ?thesis by blast
qed

lemma selectLinks_spec:
  assumes "reorders order" "selectLinks fl now order agg pls = Some (cs, pls')"
  shows "set cs = usable pls" "pls' = pls \<or> pls' = pls\<lparr>plCursor := plCursor pls + 1\<rparr>"
    "cs \<noteq> [] \<Longrightarrow> agg = AggregationLatency \<Longrightarrow> e \<in> usable pls \<Longrightarrow> lcLatency (snd (hd cs)) \<le> lcLatency (snd e)"
    "cs \<noteq> [] \<Longrightarrow> agg = AggregationBandwidth \<Longrightarrow> e \<in> usable pls \<Longrightarrow> throughput fl now (snd e) \<le> throughput fl now (snd (hd cs))"
proof -
  define us where "us = filter (\<lambda>(m, c). lcLink c \<noteq> None \<and> lcConn c \<noteq> None) (activeConnections order pls)"
  define ps where "ps = primaryFirst (plPrimary pls) (sort_key fst us)"
  have us: "set us = usable pls" using assms(1) by (auto simp: us_def usable_def set_active)
  then have ps: "set ps = usable pls" by (simp add: ps_def set_primaryFirst)
  have sel: "selectLinks fl now order agg pls =
      (if us = [] then Some ([], pls)
       else if agg = AggregationRoundRobin
       then map_option (\<lambda>out. (out, pls\<lparr>plCursor := plCursor pls + 1\<rparr>)) (rotation (plCursor pls) ps)
       else if agg = AggregationBandwidth then Some (sort_key (\<lambda>(m, c). - throughput fl now c) ps, pls)
       else if agg = AggregationLatency then Some (sort_key (\<lambda>(m, c). lcLatency c) ps, pls)
       else Some (ps, pls))"
    unfolding selectLinks_def us_def [symmetric] ps_def Let_def by (rule refl)
  have least: "f (hd (sort_key f xs)) \<le> f x" if "x \<in> set xs" for x xs and f :: "link_entry \<Rightarrow> 'z :: linorder"
    using that sorted_sort_key [of f xs] by (cases "sort_key f xs") (auto simp flip: set_sort [of f xs])
  note res = assms(2) [unfolded sel]
  show "set cs = usable pls" "pls' = pls \<or> pls' = pls\<lparr>plCursor := plCursor pls + 1\<rparr>"
    using res us ps by (auto dest!: rotation_rotate split: if_splits)
  show "lcLatency (snd (hd cs)) \<le> lcLatency (snd e)" if "cs \<noteq> []" "agg = AggregationLatency" "e \<in> usable pls"
  proof -
    have "cs = sort_key (\<lambda>(m, c). lcLatency c) ps" using res that(1,2) by (simp add: aggregation_modes split: if_splits)
    with least [of e ps "\<lambda>(m, c). lcLatency c"] that(3) ps show ?thesis by (simp add: case_prod_beta)
  qed
  show "throughput fl now (snd e) \<le> throughput fl now (snd (hd cs))"
    if "cs \<noteq> []" "agg = AggregationBandwidth" "e \<in> usable pls"
  proof -
    have "cs = sort_key (\<lambda>(m, c). - throughput fl now c) ps"
      using res that(1,2) by (simp add: aggregation_modes split: if_splits)
    with least [of e ps "\<lambda>(m, c). - throughput fl now c"] that(3) ps show ?thesis by (simp add: case_prod_beta)
  qed
qed

lemma send_loop_carrier:
  "send_loop wr agg lastErr i cs = ((n, err), Some (j, mode)) \<Longrightarrow>
   err = None \<and> (\<exists>c. (mode, c) \<in> set cs \<and> wr j (the (lcConn c)) = (n, None)
     \<and> (agg \<noteq> AggregationFailover \<or> j = i \<longrightarrow> (mode, c) = hd cs))"
proof (induction cs arbitrary: lastErr i)
  case (Cons e cs)
  obtain m c where e: "e = (m, c)" by (cases e)
  obtain k r where w: "wr i (the (lcConn c)) = (k, r)" by (cases "wr i (the (lcConn c))")
  have later: "send_loop wr agg l i' cs' = (res, Some (j', mode')) \<Longrightarrow> i' \<le> j'" for l i' cs' res j' mode'
    by (induction cs' arbitrary: l i') (fastforce split: prod.splits option.splits if_splits intro: Suc_leD)+
  show ?case
  proof (cases r)
    case None
    with Cons.prems e w show ?thesis by auto
  next
    case (Some x)
    with Cons.prems e w have agg: "agg = AggregationFailover" and
      loop: "send_loop wr agg (Some (WriteOver m x)) (Suc i) cs = ((n, err), Some (j, mode))"
      by (auto split: if_splits)
    from later [OF loop] Cons.IH [OF loop] agg show ?thesis by auto
  qed
qed simp

lemma send_loop_failed:
  "send_loop wr agg lastErr i cs = ((n, err), None) \<Longrightarrow> cs \<noteq> [] \<Longrightarrow>
   err \<noteq> None \<and> (agg = AggregationFailover \<longrightarrow> (\<forall>(m, c)\<in>set cs. \<exists>k. snd (wr k (the (lcConn c))) \<noteq> None))
     \<and> (agg \<noteq> AggregationFailover \<longrightarrow> snd (wr i (the (lcConn (snd (hd cs))))) \<noteq> None)"
proof (induction cs arbitrary: lastErr i)
  case (Cons e cs)
  obtain m c where e: "e = (m, c)" by (cases e)
  obtain k r where w: "wr i (the (lcConn c)) = (k, r)" by (cases "wr i (the (lcConn c))")
  obtain x where r: "r = Some x" using Cons.prems(1) e w by (cases r) auto
  have here: "\<exists>k. snd (wr k (the (lcConn c))) \<noteq> None" using w r by (metis option.distinct(1) snd_conv)
  show ?case
  proof (cases "agg = AggregationFailover")
    case True
    with Cons.prems(1) e w r have loop: "send_loop wr agg (Some (WriteOver m x)) (Suc i) cs = ((n, err), None)" by simp
    show ?thesis
    proof (cases "cs = []")
      case True
      with loop here e \<open>agg = _\<close> show ?thesis by auto
    next
      case False
      from Cons.IH [OF loop False] here e \<open>agg = _\<close> show ?thesis by auto
    qed
  qed (use Cons.prems(1) e w r in auto)
qed simp

lemma SendToPeer_cases:
  assumes "reorders order" "SendToPeer fl now now' order wr peer data m = ((n, err), m')"
  obtains (refused) "m' = m" "err \<noteq> None" "\<And>pls. mmPeerLinks m peer = Some pls \<Longrightarrow> usable pls \<noteq> {} \<Longrightarrow> selectLinks fl now order (mmAggregation m) pls = None"
  | (tried) pls cs pls1 carrier where "mmPeerLinks m peer = Some pls" "selectLinks fl now order (mmAggregation m) pls = Some (cs, pls1)"
      "cs \<noteq> []" "send_loop (\<lambda>i h. wr i h data) (mmAggregation m) None 0 cs = ((n, err), carrier)"
      "m' = m\<lparr>mmPeerLinks := (mmPeerLinks m)(peer \<mapsto> after_write now' n carrier pls1)\<rparr>"
proof (cases "mmPeerLinks m peer")
  case None
  with assms(2) refused show thesis by (auto simp: SendToPeer_def)
next
  case (Some pls)
  show thesis
  proof (cases "selectLinks fl now order (mmAggregation m) pls")
    case None
    with Some assms(2) refused show thesis by (auto simp: SendToPeer_def)
  next
    case sel: (Some r)
    obtain cs pls1 where r: "r = (cs, pls1)" by (cases r)
    show thesis
    proof (cases "cs = []")
      case True
      then have "usable pls = {}" using selectLinks_spec(1) [OF assms(1) sel [unfolded r]] by simp
      with True sel r Some assms(2) refused show thesis by (auto simp: SendToPeer_def)
    next
      case False
      obtain carrier where "send_loop (\<lambda>i h. wr i h data) (mmAggregation m) None 0 cs = ((n, err), carrier)"
        using False sel r Some assms(2) by (auto simp: SendToPeer_def split: prod.splits)
      with False sel r Some assms(2) tried [of pls cs pls1 carrier] show thesis by (simp add: SendToPeer_def)
    qed
  qed
qed

lemma after_write_ok:
  assumes "links_ok pls" "\<And>i mode. carrier = Some (i, mode) \<Longrightarrow> mode \<in> fst ` set (plConnections pls)"
  shows "links_ok (after_write now n carrier pls)" "plPeerID (after_write now n carrier pls) = plPeerID pls"
proof -
  have "links_ok (pls\<lparr>plConnections := update_entry mode (\<lambda>c. c\<lparr>lcBytesSent := lcBytesSent c + word_of_nat n, lcLastUpdate := now\<rparr>)
      (plConnections pls)\<rparr>)" for mode
    using assms(1) by (intro update_entry_ok) auto
  then show "links_ok (after_write now n carrier pls)" "plPeerID (after_write now n carrier pls) = plPeerID pls"
    using assms by (auto simp: after_write_def Let_def links_ok_def links_shape_def split: option.split prod.split)
qed

lemma SendToPeer_ok:
  assumes "reorders order" "mp_ok m"
  shows "mp_ok (snd (SendToPeer fl now now' order wr peer data m))"
proof -
  obtain n err m' where send: "SendToPeer fl now now' order wr peer data m = ((n, err), m')" by (metis prod.collapse)
  have "mp_ok m'"
  proof (rule SendToPeer_cases [OF assms(1) send])
    assume "m' = m"
    with assms(2) show ?thesis by simp
  next
    fix pls cs pls1 carrier
    assume t: "mmPeerLinks m peer = Some pls" "selectLinks fl now order (mmAggregation m) pls = Some (cs, pls1)" "cs \<noteq> []"
      "send_loop (\<lambda>i h. wr i h data) (mmAggregation m) None 0 cs = ((n, err), carrier)"
      "m' = m\<lparr>mmPeerLinks := (mmPeerLinks m)(peer \<mapsto> after_write now' n carrier pls1)\<rparr>"
    have pls: "links_ok pls" "plPeerID pls = peer" using assms(2) t(1) by (auto simp: mp_ok_def)
    note sel = selectLinks_spec(1,2) [OF assms(1) t(2)]
    have pls1: "links_ok pls1" "plPeerID pls1 = peer" using sel(2) pls by auto
    have "set cs \<subseteq> set (plConnections pls1)" using sel by (auto simp: usable_def)
    then have "mode \<in> fst ` set (plConnections pls1)" if "carrier = Some (i, mode)" for i mode
      using send_loop_carrier [OF t(4) [unfolded that]] by (metis fst_conv image_eqI subsetD)
    with pls1 t(5) assms(2) show ?thesis by (simp add: mp_ok_def after_write_ok)
  qed
  with send show ?thesis by simp
qed

section \<open>Every reachable state\<close>

text \<open>The operations of the manager in any order, with any answers of the drivers.\<close>

inductive mp_trans :: "multipath_manager \<Rightarrow> multipath_manager \<Rightarrow> bool" where
  event: "\<forall>k. reorders (rng k) \<Longrightarrow> mp_trans m (snd (MultiPath_handleEvent rng now evt m))"
| tick: "mp_trans m (stats_tick rng now m)"
| mode: "\<forall>k. reorders (rng k) \<Longrightarrow> mp_trans m (SetAggregationMode rng agg m)"
| dial: "reorders order \<Longrightarrow> mp_trans m (snd (MultiPath_ConnectToPeer order dial peer m))"
| send: "reorders order \<Longrightarrow> mp_trans m (snd (SendToPeer fl now now' order wr peer data m))"

lemma mp_trans_ok: "mp_trans m m' \<Longrightarrow> mp_ok m \<Longrightarrow> mp_ok m'"
proof (induction rule: mp_trans.induct)
  case (mode rng m agg)
  then have rng: "reorders (rng k)" for k by simp
  from mode(2) show ?case
    by (auto simp: mp_ok_def SetAggregationMode_def updatePrimary_ok [of rng, OF rng rng] updatePrimary_frame [of rng, OF rng rng])
next
  case (tick m rng now)
  then show ?case by (auto simp: mp_ok_def stats_tick_def)
qed (auto intro: handleEvent_ok ConnectToPeer_ok SendToPeer_ok)

text \<open>
  In every state the multi-path manager can reach, through discovery events, statistics ticks,
  changes of the aggregation mode, dialling and writing in any order, a known peer has one to three
  links, at most one per mode and at least one of them active; a link's driver is the one
  registered for its mode; and the primary is unset, none, or one of the recorded modes.
\<close>

theorem mp_reachable_ok:
  assumes "mp_trans\<^sup>*\<^sup>* (NewMultiPathManager links prefs configs agg notify) m" "mmPeerLinks m i = Some pls"
  shows "plPeerID pls = i \<and> distinct (map fst (plConnections pls)) \<and> length (plConnections pls) \<in> {1..3}
    \<and> (\<exists>(mode, c)\<in>set (plConnections pls). lcActive c)
    \<and> (\<forall>(mode, c)\<in>set (plConnections pls). \<forall>l. lcLink c = Some l \<longrightarrow> lnMode l = mode)
    \<and> plPrimary pls \<in> {0, ModeNone} \<union> fst ` set (plConnections pls)"
proof -
  have "mp_ok (NewMultiPathManager links prefs configs agg notify)" by (simp add: mp_ok_def NewMultiPathManager_def)
  with assms(1) have "mp_ok m" by (induction rule: rtranclp_induct) (auto intro: mp_trans_ok)
  with assms(2) have ok: "plPeerID pls = i" "links_ok pls" by (auto simp: mp_ok_def)
  then have "plConnections pls \<noteq> []" by (auto simp: links_ok_def)
  then have "1 \<le> length (plConnections pls)" by (simp add: Suc_le_eq)
  with ok show ?thesis by (auto simp: links_ok_def links_shape_def case_prod_beta)
qed


definition demo_sighting :: "link_mode \<Rightarrow> duration \<Rightarrow> peer_event" where
  "demo_sighting mode latency = \<lparr>evType = 0, evPeer = \<lparr>lpID = replicate 32 7, lpPublicKey = replicate 32 8, lpName = ''peer'',
     lpAddrs = [''10.0.0.7:9000''], lpServices = [], lpLinkMode = mode, lpRSSI = 0, lpLatency = latency, lpScore = 0,
     lpLastSeen = 5, lpVersion = []\<rparr>, evTime = 5\<rparr>"

definition demo_seen :: "aggregation_mode \<Rightarrow> multipath_manager" where
  "demo_seen agg =
     snd (MultiPath_handleEvent (\<lambda>_ cs. cs) 6 (demo_sighting ModeBLE 30)
       (snd (MultiPath_handleEvent (\<lambda>_ cs. cs) 5 (demo_sighting ModeWiFiDirect 5)
         (NewMultiPathManager [\<lparr>lnName = ''wd'', lnMode = ModeWiFiDirect\<rparr>, \<lparr>lnName = ''ble'', lnMode = ModeBLE\<rparr>] None None (Some agg) False))))"

definition demo_dialled :: "aggregation_mode \<Rightarrow> multipath_manager" where
  "demo_dialled agg = snd (MultiPath_ConnectToPeer (\<lambda>cs. cs) (\<lambda>k l a. Inr k) (replicate 32 7) (demo_seen agg))"

lemma demo_dialled_reachable:
  "mp_trans\<^sup>*\<^sup>* (NewMultiPathManager [\<lparr>lnName = ''wd'', lnMode = ModeWiFiDirect\<rparr>, \<lparr>lnName = ''ble'', lnMode = ModeBLE\<rparr>]
     None None (Some agg) False) (demo_dialled agg)"
proof -
  have id: "reorders (\<lambda>cs. cs)" "\<forall>k :: nat. reorders ((\<lambda>_ cs. cs) k)" by (simp_all add: reorders_def)
  note seen = mp_trans.event [OF id(2)] and dialled = mp_trans.dial [OF id(1)]
  show ?thesis
    unfolding demo_dialled_def demo_seen_def
    by (rule rtranclp.rtrancl_into_rtrancl, rule rtranclp.rtrancl_into_rtrancl, rule r_into_rtranclp, rule seen, rule seen, rule dialled)
qed

theorem mp_reachable_ok_witness:
  "\<exists>pls. mmPeerLinks (demo_dialled 3) (replicate 32 7) = Some pls \<and> length (plConnections pls) \<in> {1..3}"
proof -
  have "mmPeerLinks (demo_dialled 3) (replicate 32 7) \<noteq> None" by code_simp
  then obtain pls where "mmPeerLinks (demo_dialled 3) (replicate 32 7) = Some pls" by blast
  with mp_reachable_ok [OF demo_dialled_reachable this] show ?thesis by blast
qed


text \<open>
  Failover reports an error only when it has to. In the failover mode, a failed \<open>SendToPeer\<close> to a
  peer with usable links has tried every one of them.
\<close>

theorem mp_failover_exhaustive:
  assumes "reorders order" "mmPeerLinks m peer = Some pls" "usable pls \<noteq> {}" "mmAggregation m = AggregationFailover"
    and "SendToPeer fl now now' order wr peer data m = ((n, Some e), m')"
  shows "\<forall>(mode, c)\<in>usable pls. \<exists>i. snd (wr i (the (lcConn c)) data) \<noteq> None"
proof (rule SendToPeer_cases [OF assms(1,5)])
  assume "\<And>pls. mmPeerLinks m peer = Some pls \<Longrightarrow> usable pls \<noteq> {} \<Longrightarrow> selectLinks fl now order (mmAggregation m) pls = None"
  with assms(2-4) show ?thesis by (simp add: selectLinks_def Let_def aggregation_modes split: if_splits)
next
  fix pls0 cs pls1 carrier
  assume t: "mmPeerLinks m peer = Some pls0" "selectLinks fl now order (mmAggregation m) pls0 = Some (cs, pls1)" "cs \<noteq> []"
    "send_loop (\<lambda>i h. wr i h data) (mmAggregation m) None 0 cs = ((n, Some e), carrier)"
  have "carrier = None" using send_loop_carrier [of _ _ _ _ cs n "Some e"] t(4) by (cases carrier) auto
  with send_loop_failed [of "\<lambda>i h. wr i h data" "mmAggregation m" None 0 cs n "Some e"] t assms(2,4)
    selectLinks_spec(1) [OF assms(1) t(2)] show ?thesis by auto
qed

definition demo_down :: "nat \<Rightarrow> nat \<Rightarrow> bytes \<Rightarrow> nat \<times> string option" where
  "demo_down i h data = (0, Some ''down'')"

theorem mp_failover_exhaustive_witness:
  "usable (the (mmPeerLinks (demo_dialled 0) (replicate 32 7)))
     \<subseteq> {(mode, c). \<exists>i. snd (demo_down i (the (lcConn c)) [1, 2, 3]) \<noteq> None}"
proof -
  let ?m = "demo_dialled 0" and ?peer = "replicate 32 (7 :: byte)"
  let ?S = "SendToPeer (\<lambda>x. x) 9 10 (\<lambda>cs. cs) demo_down ?peer [1, 2, 3] ?m"
  have "mmPeerLinks ?m ?peer \<noteq> None" by code_simp
  then obtain pls where pls: "mmPeerLinks ?m ?peer = Some pls" by blast
  have "mmAggregation ?m = AggregationFailover" by code_simp
  have "fst ?S = (0, Some (WriteOver 4 ''down''))" by code_simp
  then have "?S = ((0, Some (WriteOver 4 ''down'')), snd ?S)" by (metis prod.collapse)
  moreover have "list_ex (\<lambda>e. lcActive (snd e) \<and> lcLink (snd e) \<noteq> None \<and> lcConn (snd e) \<noteq> None)
      (plConnections (the (mmPeerLinks ?m ?peer)))" by code_simp
  then have "usable pls \<noteq> {}" unfolding usable_def list_ex_iff pls option.sel by blast
  ultimately have "\<forall>(mode, c)\<in>usable pls. \<exists>i. snd (demo_down i (the (lcConn c)) [1, 2, 3]) \<noteq> None"
    using mp_failover_exhaustive [OF _ pls, of "\<lambda>cs. cs"] \<open>mmAggregation ?m = _\<close> unfolding reorders_def by fastforce
  then show ?thesis unfolding pls by auto
qed

text \<open>
  Round-robin repeats links. The comment on the cursor says consecutive writes take different
  links; because the current primary is moved to the front before the rotation, with two links
  every link carries two writes in a row.
\<close>

theorem mp_round_robin_repeats:
  "let send = (\<lambda>m. snd (SendToPeer (\<lambda>x. x) 9 10 (\<lambda>cs. cs) (\<lambda>i h d. (length d, None)) (replicate 32 7) [1] m));
       m1 = send (demo_dialled AggregationRoundRobin); m2 = send m1; m3 = send m2; m4 = send m3; m5 = send m4
   in map (\<lambda>m. plPrimary (the (mmPeerLinks m (replicate 32 7)))) [m1, m2, m3, m4, m5]
      = [ModeBLE, ModeWiFiDirect, ModeWiFiDirect, ModeBLE, ModeBLE]"
  by code_simp

text \<open>
  A link that was lost is never used again. Once a link of a peer has been marked inactive, a later
  discovery or update event for the same link refreshes its latency but leaves it inactive, so
  that it stays excluded from every write as long as the peer is known.
\<close>

theorem mp_lost_link_stays_down:
  assumes "mmPeerLinks m (lpID (evPeer evt)) = Some pls" "map_of (plConnections pls) (lpLinkMode (evPeer evt)) = Some c"
    and "\<not> lcActive c" "evType evt = PeerDiscovered \<or> evType evt = PeerUpdated"
    and "MultiPath_handleEvent rng now evt m = (out, m')"
  shows "\<exists>pls' c'. mmPeerLinks m' (lpID (evPeer evt)) = Some pls' \<and> map_of (plConnections pls') (lpLinkMode (evPeer evt)) = Some c'
    \<and> lcLatency c' = lpLatency (evPeer evt) \<and> \<not> lcActive c'"
proof -
  have upd: "map_of cs k = Some d \<Longrightarrow> map_of (update_entry k f cs) k = Some (f d)" for cs k d f
    by (induction cs) (auto simp: update_entry_def split: if_splits)
  show ?thesis
    using assms upd [OF assms(2)] by (auto simp: MultiPath_handleEvent_def sighting_def Let_def)
qed

definition demo_lost :: multipath_manager where
  "demo_lost = snd (MultiPath_handleEvent (\<lambda>_ cs. cs) 7 (demo_sighting ModeBLE 30\<lparr>evType := PeerLost\<rparr>) (demo_seen 3))"

theorem mp_lost_link_stays_down_witness:
  "\<exists>pls c. mmPeerLinks (snd (MultiPath_handleEvent (\<lambda>_ cs. cs) 8 (demo_sighting ModeBLE 12) demo_lost)) (replicate 32 7) = Some pls
     \<and> map_of (plConnections pls) ModeBLE = Some c \<and> \<not> lcActive c"
proof -
  have "map_option lcActive (Option.bind (mmPeerLinks demo_lost (replicate 32 7)) (\<lambda>pls. map_of (plConnections pls) ModeBLE))
      = Some False" by code_simp
  then obtain pls c where c: "mmPeerLinks demo_lost (replicate 32 7) = Some pls" "map_of (plConnections pls) ModeBLE = Some c"
    "\<not> lcActive c" by (auto simp: bind_eq_Some_conv)
  have e: "lpID (evPeer (demo_sighting ModeBLE 12)) = replicate 32 7" "lpLinkMode (evPeer (demo_sighting ModeBLE 12)) = ModeBLE"
    "evType (demo_sighting ModeBLE 12) = PeerDiscovered" by (simp_all add: demo_sighting_def event_types)
  from mp_lost_link_stays_down [of demo_lost "demo_sighting ModeBLE 12", unfolded e, OF c, of "\<lambda>_ cs. cs" 8] show ?thesis
    by (metis prod.collapse)
qed

text \<open>
  A statistics tick counts the same traffic again. The byte counters of a connection are totals,
  and \<open>updateStats\<close> adds them to the aggregate every time it runs: two ticks without traffic raise
  the aggregate by the connection's total twice.
\<close>

theorem mp_stats_count_again:
  "asTotalSent (plAggregated (updateStats order now' (updateStats order now pls)))
   = asTotalSent (plAggregated pls) + 2 * sum_list (map (\<lambda>e. lcBytesSent (snd e)) (activeConnections order pls))"
proof -
  have fold: "foldl (\<lambda>t c. t + lcBytesSent c) a cs = a + sum_list (map lcBytesSent cs)" for a cs
    by (induction cs arbitrary: a) (simp_all add: add.assoc)
  have "activeConnections order (updateStats order now pls) = activeConnections order pls"
    by (simp add: activeConnections_def)
  then show ?thesis by (simp add: updateStats_def fold Let_def activeConnections_def comp_def)
qed

end
