(* ===== verification/Dns_Wire.thy ===== *)
theory Dns_Wire
  imports LW_Prelude
begin

text \<open>
  The DNS message format of \<open>pkg/services/dns/dns.go\<close>: names with compression pointers, questions,
  records and whole messages. \<open>readName\<close> follows pointers by recursion without a bound, so it is a
  partial function: \<open>None\<close> is a call that never returns (in Go the stack overflows, which ends the
  process). Errors are values of \<open>dns_error\<close>.
\<close>

unbundle bit_operations_syntax

section \<open>Types\<close>

definition TypeA :: u16 where "TypeA = 1"
definition TypeNS :: u16 where "TypeNS = 2"
definition TypeCNAME :: u16 where "TypeCNAME = 5"
definition TypePTR :: u16 where "TypePTR = 12"
definition TypeMX :: u16 where "TypeMX = 15"
definition TypeTXT :: u16 where "TypeTXT = 16"
definition TypeAAAA :: u16 where "TypeAAAA = 28"
definition TypeSRV :: u16 where "TypeSRV = 33"
definition TypeHTTPS :: u16 where "TypeHTTPS = 65"
definition TypeSVCB :: u16 where "TypeSVCB = 64"

lemmas record_types = TypeA_def TypeNS_def TypeCNAME_def TypePTR_def TypeMX_def TypeTXT_def TypeAAAA_def TypeSRV_def
  TypeHTTPS_def TypeSVCB_def

record dns_header =
  dhID :: u16
  dhFlags :: u16
  dhQDCOUNT :: u16
  dhANCOUNT :: u16
  dhNSCOUNT :: u16
  dhARCOUNT :: u16

record dns_question =
  dqName :: string
  dqType :: u16
  dqClass :: u16

record dns_record =
  drName :: string
  drType :: u16
  drClass :: u16
  drTTL :: u32
  drRDLength :: u16
  drRData :: bytes

record dns_message =
  dmHeader :: dns_header
  dmQuestions :: "dns_question list"
  dmAnswers :: "dns_record list"
  dmAuthorities :: "dns_record list"
  dmAdditionals :: "dns_record list"

datatype dns_error = TooShort | QuestionTruncated | RecordTruncated | RDataTruncated | TruncatedPointer | TruncatedName

section \<open>Names\<close>

fun joinName :: "string list \<Rightarrow> string" where
  "joinName [] = []"
| "joinName [p] = p"
| "joinName (p # q # ps) = p @ ''.'' @ joinName (q # ps)"

text \<open>\<open>splitName\<close>; the second argument is the label being read, the last label is dropped when empty.\<close>

fun split_name :: "string \<Rightarrow> string \<Rightarrow> string list" where
  "split_name [] cur = (if cur = [] then [] else [cur])"
| "split_name (c # cs) cur = (if c = CHR ''.'' then cur # split_name cs [] else split_name cs (cur @ [c]))"

definition splitName :: "string \<Rightarrow> string list" where
  "splitName name = split_name name []"

definition encode_label :: "string \<Rightarrow> bytes" where
  "encode_label p = word_of_nat (length p) # str_bytes p"

definition encodeName :: "string \<Rightarrow> bytes" where
  "encodeName name =
     (let n = (if length name > 0 \<and> last name = CHR ''.'' then butlast name else name)
      in concat (map encode_label (splitName n)) @ [0])"

text \<open>The loop of \<open>readName\<close> with the labels read so far: the name and the offset behind it.\<close>

partial_function (option) read_name :: "bytes \<Rightarrow> nat \<Rightarrow> string list \<Rightarrow> (dns_error + string \<times> nat) option" where
  "read_name data offset parts =
     (if offset < length data then
        (let len = data ! offset
         in if len = 0 then Some (Inr (joinName parts, offset + 1))
            else if len AND 0xC0 = 0xC0 then
              (if offset + 1 \<ge> length data then Some (Inl TruncatedPointer)
               else let ptr = unat (get_u16 (take 2 (drop offset data)) AND 0x3FFF)
                    in Option.bind (read_name data ptr []) (\<lambda>r.
                         Some (case r of Inl e \<Rightarrow> Inl e | Inr (name, _) \<Rightarrow> Inr (joinName (parts @ [name]), offset + 2))))
            else if offset + 1 + unat len > length data then Some (Inl TruncatedName)
            else read_name data (offset + 1 + unat len) (parts @ [bytes_str (take (unat len) (drop (offset + 1) data))]))
      else Some (Inr (joinName parts, offset)))"

declare read_name.simps [code]

definition readName :: "bytes \<Rightarrow> nat \<Rightarrow> (dns_error + string \<times> nat) option" where
  "readName data offset = read_name data offset []"

section \<open>Messages\<close>

text \<open>Sequencing of steps that may not return, may fail, or give a value.\<close>

definition dbind :: "('e + 'a) option \<Rightarrow> ('a \<Rightarrow> ('e + 'b) option) \<Rightarrow> ('e + 'b) option" where
  "dbind m f = (case m of None \<Rightarrow> None | Some (Inl e) \<Rightarrow> Some (Inl e) | Some (Inr x) \<Rightarrow> f x)"

definition dreturn :: "'a \<Rightarrow> ('e + 'a) option" where
  "dreturn x = Some (Inr x)"

definition dfail :: "'e \<Rightarrow> ('e + 'a) option" where
  "dfail e = Some (Inl e)"

definition field16 :: "bytes \<Rightarrow> nat \<Rightarrow> u16" where
  "field16 data o' = get_u16 (take 2 (drop o' data))"

definition field32 :: "bytes \<Rightarrow> nat \<Rightarrow> u32" where
  "field32 data o' = get_u32 (take 4 (drop o' data))"

definition readQuestion :: "bytes \<Rightarrow> nat \<Rightarrow> (dns_error + dns_question \<times> nat) option" where
  "readQuestion data offset =
     dbind (readName data offset) (\<lambda>(name, off).
       if off + 4 > length data then dfail QuestionTruncated
       else dreturn (\<lparr>dqName = name, dqType = field16 data off, dqClass = field16 data (off + 2)\<rparr>, off + 4))"

definition readRecord :: "bytes \<Rightarrow> nat \<Rightarrow> (dns_error + dns_record \<times> nat) option" where
  "readRecord data offset =
     dbind (readName data offset) (\<lambda>(name, off).
       if off + 10 > length data then dfail RecordTruncated
       else let rdlen = unat (field16 data (off + 8))
            in if off + 10 + rdlen > length data then dfail RDataTruncated
               else dreturn (\<lparr>drName = name, drType = field16 data off, drClass = field16 data (off + 2),
                              drTTL = field32 data (off + 4), drRDLength = word_of_nat rdlen,
                              drRData = take rdlen (drop (off + 10) data)\<rparr>, off + 10 + rdlen))"

text \<open>The counted loops of \<open>ParseMessage\<close>.\<close>

fun read_many :: "(nat \<Rightarrow> ('e + 'a \<times> nat) option) \<Rightarrow> nat \<Rightarrow> nat \<Rightarrow> ('e + 'a list \<times> nat) option" where
  "read_many item 0 offset = dreturn ([], offset)"
| "read_many item (Suc n) offset =
     dbind (item offset) (\<lambda>(x, off). dbind (read_many item n off) (\<lambda>(xs, off'). dreturn (x # xs, off')))"

definition ParseMessage :: "bytes \<Rightarrow> (dns_error + dns_message) option" where
  "ParseMessage data =
     (if length data < 12 then dfail TooShort
      else let h = \<lparr>dhID = field16 data 0, dhFlags = field16 data 2, dhQDCOUNT = field16 data 4, dhANCOUNT = field16 data 6,
                    dhNSCOUNT = field16 data 8, dhARCOUNT = field16 data 10\<rparr>
           in dbind (read_many (readQuestion data) (unat (dhQDCOUNT h)) 12) (\<lambda>(qs, o1).
              dbind (read_many (readRecord data) (unat (dhANCOUNT h)) o1) (\<lambda>(ans, o2).
              dbind (read_many (readRecord data) (unat (dhNSCOUNT h)) o2) (\<lambda>(auths, o3).
              dbind (read_many (readRecord data) (unat (dhARCOUNT h)) o3) (\<lambda>(adds, _).
                dreturn \<lparr>dmHeader = h, dmQuestions = qs, dmAnswers = ans, dmAuthorities = auths, dmAdditionals = adds\<rparr>)))))"

definition appendQuestion :: "dns_question \<Rightarrow> bytes" where
  "appendQuestion q = encodeName (dqName q) @ put_u16 (dqType q) @ put_u16 (dqClass q)"

definition appendRecord :: "dns_record \<Rightarrow> bytes" where
  "appendRecord r = encodeName (drName r) @ put_u16 (drType r) @ put_u16 (drClass r) @ put_u32 (drTTL r)
     @ put_u16 (word_of_nat (length (drRData r))) @ drRData r"

text \<open>\<open>SerializeMessage\<close> writes the numbers of entries it holds, not the counts of the header.\<close>

definition SerializeMessage :: "dns_message \<Rightarrow> bytes" where
  "SerializeMessage m =
     put_u16 (dhID (dmHeader m)) @ put_u16 (dhFlags (dmHeader m))
     @ put_u16 (word_of_nat (length (dmQuestions m))) @ put_u16 (word_of_nat (length (dmAnswers m)))
     @ put_u16 (word_of_nat (length (dmAuthorities m))) @ put_u16 (word_of_nat (length (dmAdditionals m)))
     @ concat (map appendQuestion (dmQuestions m)) @ concat (map appendRecord (dmAnswers m))
     @ concat (map appendRecord (dmAuthorities m)) @ concat (map appendRecord (dmAdditionals m))"

section \<open>Names round trip\<close>

definition label_ok :: "string \<Rightarrow> bool" where
  "label_ok p \<longleftrightarrow> p \<noteq> [] \<and> length p < 192"

definition name_ok :: "string \<Rightarrow> bool" where
  "name_ok name \<longleftrightarrow> (name \<noteq> [] \<longrightarrow> last name \<noteq> CHR ''.'') \<and> list_all label_ok (splitName name)"

lemma joinName_Cons: "ps \<noteq> [] \<Longrightarrow> joinName (p # ps) = p @ ''.'' @ joinName ps"
  by (cases ps) auto

lemma split_name_nonempty: "s \<noteq> [] \<or> cur \<noteq> [] \<Longrightarrow> split_name s cur \<noteq> []"
  by (induction s cur rule: split_name.induct) auto

lemma join_split_name: "(s \<noteq> [] \<Longrightarrow> last s \<noteq> CHR ''.'') \<Longrightarrow> joinName (split_name s cur) = cur @ s"
proof (induction s cur rule: split_name.induct)
  case (2 c cs cur)
  show ?case
  proof (cases "c = CHR ''.''")
    case True
    with "2.prems" have cs: "cs \<noteq> []" by auto
    with "2.IH"(1) [OF True] "2.prems" True show ?thesis by (simp add: joinName_Cons split_name_nonempty)
  next
    case False
    with "2.IH"(2) [OF False] "2.prems" show ?thesis by (cases cs) auto
  qed
qed simp

lemma label_byte: "length p < 192 \<Longrightarrow> p \<noteq> [] \<Longrightarrow>
   unat (word_of_nat (length p) :: byte) = length p \<and> (word_of_nat (length p) :: byte) \<noteq> 0
   \<and> (word_of_nat (length p) :: byte) AND 0xC0 \<noteq> 0xC0"
proof -
  assume p: "length p < 192" "p \<noteq> []"
  have u: "unat (word_of_nat (length p) :: byte) = length p" using p by (simp add: unat_of_nat)
  have "(w :: byte) AND 0xC0 \<noteq> 0xC0" if "unat w < 192" for w
  proof
    assume "w AND 0xC0 = 0xC0"
    then have "(0xC0 :: byte) \<le> w" by (metis word_and_le1 and.commute)
    then have "(192 :: nat) \<le> unat w" by (simp add: word_le_nat_alt)
    with that show False by simp
  qed
  with u p show ?thesis by (metis length_0_conv unat_0)
qed

lemma length_encode_label [simp]: "length (encode_label p) = Suc (length p)"
  by (simp add: encode_label_def)

lemma read_name_labels:
  assumes "list_all label_ok ps"
  shows "data = pre @ concat (map encode_label ps) @ 0 # post \<Longrightarrow>
    read_name data (length pre) acc = Some (Inr (joinName (acc @ ps), length pre + length (concat (map encode_label ps)) + 1))"
  using assms
proof (induction ps arbitrary: pre acc)
  case Nil
  then show ?case by (subst read_name.simps) (simp add: nth_append)
next
  case (Cons p ps)
  let ?w = "word_of_nat (length p) :: byte"
  have p: "length p < 192" "p \<noteq> []" using Cons.prems(2) by (simp_all add: label_ok_def)
  note w = label_byte [OF p]
  let ?pre = "pre @ encode_label p"
  have data: "data = ?pre @ concat (map encode_label ps) @ 0 # post" using Cons.prems(1) by simp
  have nth: "data ! length pre = ?w" "length pre < length data" using Cons.prems(1) by (auto simp: encode_label_def nth_append)
  have take: "take (length p) (drop (length pre + 1) data) = str_bytes p"
    using Cons.prems(1) by (simp add: encode_label_def)
  have len: "length pre + 1 + length p \<le> length data" using Cons.prems(1) by (simp add: encode_label_def)
  have "read_name data (length pre) acc = read_name data (length pre + 1 + length p) (acc @ [p])"
    using w nth take len by (subst read_name.simps) (simp add: Let_def)
  also have "\<dots> = read_name data (length ?pre) (acc @ [p])" by simp
  also have "\<dots> = Some (Inr (joinName ((acc @ [p]) @ ps), length ?pre + length (concat (map encode_label ps)) + 1))"
    using Cons.IH [OF data] Cons.prems(2) by simp
  finally show ?case by simp
qed

lemma readName_encodeName:
  assumes "name_ok name"
  shows "readName (pre @ encodeName name @ post) (length pre) = Some (Inr (name, length pre + length (encodeName name)))"
proof -
  have enc: "encodeName name = concat (map encode_label (splitName name)) @ [0]"
    using assms by (auto simp: encodeName_def name_ok_def)
  have "joinName (splitName name) = name" using assms join_split_name [of name "[]"] by (simp add: splitName_def name_ok_def)
  with read_name_labels [of "splitName name" _ pre post "[]"] assms show ?thesis
    by (simp add: readName_def enc name_ok_def)
qed

section \<open>Messages round trip\<close>

text \<open>
  A decoder over a whole buffer and an offset inverts an encoder when it reads the encoded item back
  wherever it stands and stops behind it. The counted loops need the law once.
\<close>

locale offset_codec =
  fixes enc :: "'a \<Rightarrow> bytes"
    and item :: "bytes \<Rightarrow> nat \<Rightarrow> ('e + 'a \<times> nat) option"
    and ok :: "'a \<Rightarrow> bool"
  assumes item_enc: "ok x \<Longrightarrow> item (pre @ enc x @ post) (length pre) = Some (Inr (x, length pre + length (enc x)))"
begin

lemma read_many_enc:
  "list_all ok xs \<Longrightarrow> data = pre @ concat (map enc xs) @ post \<Longrightarrow> n = length xs \<Longrightarrow> k = length pre \<Longrightarrow>
   read_many (item data) n k = Some (Inr (xs, k + length (concat (map enc xs))))"
proof (induction xs arbitrary: pre n k)
  case (Cons x xs)
  have "item data (length pre) = Some (Inr (x, length pre + length (enc x)))"
    using Cons.prems item_enc [of x pre "concat (map enc xs) @ post"] by simp
  with Cons.IH [of "pre @ enc x" "length xs" "length pre + length (enc x)"] Cons.prems show ?case
    by (simp add: dbind_def dreturn_def)
qed (simp add: dreturn_def)

end

definition question_ok :: "dns_question \<Rightarrow> bool" where
  "question_ok q \<longleftrightarrow> name_ok (dqName q)"

definition record_ok :: "dns_record \<Rightarrow> bool" where
  "record_ok r \<longleftrightarrow> name_ok (drName r) \<and> length (drRData r) < 65536 \<and> drRDLength r = word_of_nat (length (drRData r))"

lemma field_at: "length pre = k \<Longrightarrow> field16 (pre @ put_u16 w @ post) k = w" "length pre = k \<Longrightarrow> field32 (pre @ put_u32 v @ post) k = v"
  by (simp_all add: field16_def field32_def)

lemma field16_skip: "field16 (pre @ data) (length pre + k) = field16 data k"
  by (simp add: field16_def)

lemma field32_skip: "field32 (pre @ data) (length pre + k) = field32 data k"
  by (simp add: field32_def)

lemma field_put [simp]:
  "field16 (put_u16 a @ r) 0 = a" "field16 (put_u16 a @ put_u16 b @ r) 2 = b"
  "field32 (put_u16 a @ put_u16 b @ put_u32 c @ r) 4 = c"
  "field16 (put_u16 a @ put_u16 b @ put_u32 c @ put_u16 d @ r) 8 = d"
  by (simp_all add: field16_def field32_def)

interpretation question_codec: offset_codec appendQuestion readQuestion question_ok
proof
  fix q pre post
  assume ok: "question_ok q"
  let ?tail = "put_u16 (dqType q) @ put_u16 (dqClass q) @ post" and ?n = "encodeName (dqName q)"
  have data: "pre @ appendQuestion q @ post = pre @ ?n @ ?tail" by (simp add: appendQuestion_def)
  have f: "field16 (pre @ ?n @ ?tail) (length pre + length ?n + k) = field16 ?tail k" for k
    using field16_skip [of "pre @ ?n" ?tail k] by simp
  from ok show "readQuestion (pre @ appendQuestion q @ post) (length pre)
      = Some (Inr (q, length pre + length (appendQuestion q)))"
    using readName_encodeName [of "dqName q" pre ?tail] f [of 0] f [of 2]
    by (simp add: readQuestion_def data question_ok_def dbind_def dreturn_def appendQuestion_def)
qed

interpretation record_codec: offset_codec appendRecord readRecord record_ok
proof
  fix r pre post
  assume ok: "record_ok r"
  let ?n = "encodeName (drName r)" and ?l = "put_u16 (word_of_nat (length (drRData r)))"
  let ?tail = "put_u16 (drType r) @ put_u16 (drClass r) @ put_u32 (drTTL r) @ ?l @ drRData r @ post"
  have data: "pre @ appendRecord r @ post = pre @ ?n @ ?tail" by (simp add: appendRecord_def)
  have f: "field16 (pre @ ?n @ ?tail) (length pre + length ?n + k) = field16 ?tail k" for k
    using field16_skip [of "pre @ ?n" ?tail k] by simp
  have g: "field32 (pre @ ?n @ ?tail) (length pre + length ?n + k) = field32 ?tail k" for k
    using field32_skip [of "pre @ ?n" ?tail k] by simp
  have d: "drop (length pre + length ?n + 10) (pre @ ?n @ ?tail) = drRData r @ post" by simp
  have len: "unat (word_of_nat (length (drRData r)) :: u16) = length (drRData r)"
    using ok by (simp add: record_ok_def unat_cast)
  from ok show "readRecord (pre @ appendRecord r @ post) (length pre) = Some (Inr (r, length pre + length (appendRecord r)))"
    using readName_encodeName [of "drName r" pre ?tail] f [of 0] f [of 2] g [of 4] f [of 8] d len
    by (simp add: readRecord_def data record_ok_def dbind_def dreturn_def appendRecord_def Let_def)
qed

definition message_wf :: "dns_message \<Rightarrow> bool" where
  "message_wf m \<longleftrightarrow> list_all question_ok (dmQuestions m) \<and> list_all record_ok (dmAnswers m)
     \<and> list_all record_ok (dmAuthorities m) \<and> list_all record_ok (dmAdditionals m)
     \<and> short16 (dmQuestions m) \<and> short16 (dmAnswers m) \<and> short16 (dmAuthorities m) \<and> short16 (dmAdditionals m)
     \<and> dhQDCOUNT (dmHeader m) = word_of_nat (length (dmQuestions m)) \<and> dhANCOUNT (dmHeader m) = word_of_nat (length (dmAnswers m))
     \<and> dhNSCOUNT (dmHeader m) = word_of_nat (length (dmAuthorities m)) \<and> dhARCOUNT (dmHeader m) = word_of_nat (length (dmAdditionals m))"

lemma dns_wire_roundtrip:
  assumes "message_wf m"
  shows "ParseMessage (SerializeMessage m) = Some (Inr m)"
proof -
  let ?h = "put_u16 (dhID (dmHeader m)) @ put_u16 (dhFlags (dmHeader m))
     @ put_u16 (word_of_nat (length (dmQuestions m))) @ put_u16 (word_of_nat (length (dmAnswers m)))
     @ put_u16 (word_of_nat (length (dmAuthorities m))) @ put_u16 (word_of_nat (length (dmAdditionals m)))"
  let ?q = "concat (map appendQuestion (dmQuestions m))" and ?a = "concat (map appendRecord (dmAnswers m))"
  let ?n = "concat (map appendRecord (dmAuthorities m))" and ?x = "concat (map appendRecord (dmAdditionals m))"
  define h where "h = ?h"
  have h: "length h = 12" by (simp add: h_def)
  define data where "data = h @ ?q @ ?a @ ?n @ ?x"
  have ser: "SerializeMessage m = data" by (simp add: SerializeMessage_def data_def h_def)
  have hdr: "field16 data 0 = dhID (dmHeader m)" "field16 data 2 = dhFlags (dmHeader m)"
    "field16 data 4 = dhQDCOUNT (dmHeader m)" "field16 data 6 = dhANCOUNT (dmHeader m)"
    "field16 data 8 = dhNSCOUNT (dmHeader m)" "field16 data 10 = dhARCOUNT (dmHeader m)"
    using assms by (simp_all add: data_def h_def field16_def message_wf_def)
  have cnt: "unat (dhQDCOUNT (dmHeader m)) = length (dmQuestions m)" "unat (dhANCOUNT (dmHeader m)) = length (dmAnswers m)"
    "unat (dhNSCOUNT (dmHeader m)) = length (dmAuthorities m)" "unat (dhARCOUNT (dmHeader m)) = length (dmAdditionals m)"
    using assms by (simp_all add: message_wf_def wire_simps)
  have ok: "list_all question_ok (dmQuestions m)" "list_all record_ok (dmAnswers m)" "list_all record_ok (dmAuthorities m)"
    "list_all record_ok (dmAdditionals m)" using assms by (simp_all add: message_wf_def)
  have "read_many (readQuestion data) (length (dmQuestions m)) 12 = Some (Inr (dmQuestions m, 12 + length ?q))"
    by (rule question_codec.read_many_enc [OF ok(1), where pre = h]) (simp_all add: data_def h)
  moreover have "read_many (readRecord data) (length (dmAnswers m)) (12 + length ?q)
      = Some (Inr (dmAnswers m, 12 + length ?q + length ?a))"
    by (rule record_codec.read_many_enc [OF ok(2), where pre = "h @ ?q"]) (simp_all add: data_def h)
  moreover have "read_many (readRecord data) (length (dmAuthorities m)) (12 + length ?q + length ?a)
      = Some (Inr (dmAuthorities m, 12 + length ?q + length ?a + length ?n))"
    by (rule record_codec.read_many_enc [OF ok(3), where pre = "h @ ?q @ ?a"]) (simp_all add: data_def h)
  moreover have "read_many (readRecord data) (length (dmAdditionals m)) (12 + length ?q + length ?a + length ?n)
      = Some (Inr (dmAdditionals m, 12 + length ?q + length ?a + length ?n + length ?x))"
    by (rule record_codec.read_many_enc [OF ok(4), where pre = "h @ ?q @ ?a @ ?n" and post = "[]"]) (simp_all add: data_def h)
  moreover have "12 \<le> length data" by (simp add: data_def h)
  ultimately show ?thesis by (simp add: ser ParseMessage_def hdr cnt dbind_def dreturn_def)
qed

text \<open>
  C18: a DNS message is read back as it was serialised, provided its names consist of non-empty labels
  below 192 bytes without a final dot, the record data fit their length fields and the header's
  counts are the numbers of entries.
\<close>

theorem dns_message_roundtrip:
  assumes "message_wf m"
  shows "ParseMessage (SerializeMessage m) = Some (Inr m)"
  using assms by (rule dns_wire_roundtrip)

definition demo_query :: dns_message where
  "demo_query = \<lparr>dmHeader = \<lparr>dhID = 7, dhFlags = 0x0100, dhQDCOUNT = 1, dhANCOUNT = 1, dhNSCOUNT = 0, dhARCOUNT = 0\<rparr>,
     dmQuestions = [\<lparr>dqName = ''node.localweb'', dqType = 1, dqClass = 1\<rparr>],
     dmAnswers = [\<lparr>drName = ''node.localweb'', drType = 1, drClass = 1, drTTL = 60, drRDLength = 4, drRData = [10, 0, 0, 1]\<rparr>],
     dmAuthorities = [], dmAdditionals = []\<rparr>"

theorem dns_message_roundtrip_witness: "ParseMessage (SerializeMessage demo_query) = Some (Inr demo_query)"
  by (rule dns_message_roundtrip)
    (simp add: message_wf_def demo_query_def question_ok_def record_ok_def name_ok_def splitName_def label_ok_def short16_def)

section \<open>When a name can be read\<close>

text \<open>The pointer a name runs into, if it runs into one, and the offset after following \<open>n\<close> pointers.\<close>

function next_pointer :: "bytes \<Rightarrow> nat \<Rightarrow> nat option" where
  "next_pointer data offset =
     (if offset < length data then
        (let len = data ! offset
         in if len = 0 then None
            else if len AND 0xC0 = 0xC0 then
              (if offset + 1 \<ge> length data then None else Some (unat (get_u16 (take 2 (drop offset data)) AND 0x3FFF)))
            else if offset + 1 + unat len > length data then None
            else next_pointer data (offset + 1 + unat len))
      else None)"
  by pat_completeness auto
termination by (relation "measure (\<lambda>(data, offset). length data - offset)") auto

declare next_pointer.simps [simp del]

fun hops :: "bytes \<Rightarrow> nat \<Rightarrow> nat \<Rightarrow> nat option" where
  "hops data 0 offset = Some offset"
| "hops data (Suc n) offset = (case next_pointer data offset of None \<Rightarrow> None | Some ptr \<Rightarrow> hops data n ptr)"

lemma read_name_step:
  "read_name data offset parts = None \<longleftrightarrow> (\<exists>ptr. next_pointer data offset = Some ptr \<and> read_name data ptr [] = None)"
proof (induction data offset arbitrary: parts rule: next_pointer.induct)
  case (1 data offset)
  let ?len = "data ! offset"
  show ?case
  proof (cases "offset < length data \<and> ?len \<noteq> 0 \<and> ?len AND 0xC0 \<noteq> 0xC0 \<and> offset + 1 + unat ?len \<le> length data")
    case True
    have "read_name data offset parts = read_name data (offset + 1 + unat ?len)
        (parts @ [bytes_str (take (unat ?len) (drop (offset + 1) data))])"
      using True by (subst read_name.simps) (simp add: Let_def)
    moreover have "next_pointer data offset = next_pointer data (offset + 1 + unat ?len)"
      using True by (subst next_pointer.simps) (simp add: Let_def)
    ultimately show ?thesis using "1" True by simp
  next
    case False
    then show ?thesis
      by (subst read_name.simps, subst next_pointer.simps) (auto simp: Let_def bind_eq_None_conv)
  qed
qed

lemma read_name_returns: "hops data n offset = None \<Longrightarrow> read_name data offset parts \<noteq> None"
proof (induction n arbitrary: offset parts)
  case (Suc n)
  show ?case
  proof (cases "next_pointer data offset")
    case None
    then show ?thesis using read_name_step [of data offset parts] by simp
  next
    case (Some ptr)
    with Suc have "read_name data ptr [] \<noteq> None" by simp
    with Some show ?thesis using read_name_step [of data offset parts] by simp
  qed
qed simp

lemma returns_hops: "read_name data offset parts = Some r \<Longrightarrow> \<exists>n. hops data (Suc n) offset = None"
proof (induction rule: read_name.raw_induct [rotated, consumes 1, case_names step])
  case (step f data offset parts r)
  let ?len = "data ! offset"
  show ?case
  proof (cases "next_pointer data offset")
    case None
    then show ?thesis by simp
  next
    case (Some ptr)
    then have inside: "offset < length data" "?len \<noteq> 0" by (subst (asm) next_pointer.simps, auto simp: Let_def split: if_splits)+
    show ?thesis
    proof (cases "?len AND 0xC0 = 0xC0")
      case True
      with Some inside have ptr: "ptr = unat (get_u16 (take 2 (drop offset data)) AND 0x3FFF)" "offset + 1 < length data"
        by (subst (asm) next_pointer.simps, auto simp: Let_def split: if_splits)+
      with step(2) True inside obtain r' where "f data ptr [] = Some r'"
        by (auto simp: Let_def bind_eq_Some_conv split: if_splits)
      then obtain n where "hops data (Suc n) ptr = None" using step(1) by blast
      with Some have "hops data (Suc (Suc n)) offset = None" by simp
      then show ?thesis by blast
    next
      case False
      with Some inside have next_eq: "offset + 1 + unat ?len \<le> length data"
        "next_pointer data (offset + 1 + unat ?len) = Some ptr"
        by (subst (asm) next_pointer.simps, auto simp: Let_def split: if_splits)+
      with step(2) False inside have
        "f data (offset + 1 + unat ?len) (parts @ [bytes_str (take (unat ?len) (drop (offset + 1) data))]) = Some r"
        by (auto simp: Let_def split: if_splits)
      from step(1) [OF this] Some next_eq(2) show ?thesis by auto
    qed
  qed
qed

text \<open>
  C39: when a compressed name can be read. \<open>readName\<close> returns, with a name or an error, exactly when
  following the compression pointers from its offset ends after finitely many of them; on a cycle
  of pointers it never returns.
\<close>

theorem dns_name_terminates_iff: "(\<exists>r. readName data offset = Some r) \<longleftrightarrow> (\<exists>n. hops data n offset = None)"
proof
  assume "\<exists>r. readName data offset = Some r"
  then obtain r where "read_name data offset [] = Some r" by (auto simp: readName_def)
  from returns_hops [OF this] show "\<exists>n. hops data n offset = None" by blast
next
  assume "\<exists>n. hops data n offset = None"
  then obtain n where "hops data n offset = None" by blast
  from read_name_returns [OF this, of "[]"] show "\<exists>r. readName data offset = Some r" by (auto simp: readName_def)
qed

text \<open>
  A 14-byte packet stops the resolver. A query whose first question is a compression pointer to
  itself makes \<open>ParseMessage\<close> recurse without end.
\<close>

theorem dns_pointer_loop_hangs:
  assumes "length data \<ge> 14" "unat (field16 data 4) > 0" "data ! 12 = 0xC0" "data ! 13 = 12"
  shows "ParseMessage data = None"
proof -
  have two: "take 2 (drop 12 data) = [0xC0, 12]"
    using assms(1,3,4) by (simp add: take_Suc_conv_app_nth numeral_2_eq_2)
  have "get_u16 [0xC0, 12] AND 0x3FFF = (12 :: u16)" by code_simp
  then have ptr: "next_pointer data 12 = Some 12"
    using assms(1,3) two by (subst next_pointer.simps) (simp add: Let_def)
  then have "hops data n 12 \<noteq> None" for n by (induction n) simp_all
  then have "readName data 12 = None" using returns_hops [of data 12 "[]"]
    unfolding readName_def by (metis not_None_eq)
  then have "readQuestion data 12 = None" by (simp add: readQuestion_def dbind_def)
  then have "read_many (readQuestion data) n 12 = None" if "n > 0" for n using that by (cases n) (simp_all add: dbind_def)
  with assms(1,2) show ?thesis by (simp add: ParseMessage_def dbind_def)
qed

theorem dns_pointer_loop_hangs_witness: "ParseMessage [0, 1, 0, 0, 0, 1, 0, 0, 0, 0, 0, 0, 0xC0, 12] = None"
  by (rule dns_pointer_loop_hangs) (code_simp | simp)+

end
