(* ===== verification/Dns_Server.thy ===== *)
theory Dns_Server
  imports Dns_Wire Sec_Capability "HOL-Library.Product_Lexorder" "HOL-Library.AList"
begin

text \<open>
  The DNS server of \<open>pkg/services/dns/dns.go\<close>: the signed zone, resolution, the answer cache and the
  query handler. The zone's records and the cache are Go maps, kept as association lists; Ed25519
  is a parameter as in the capability tokens, and so is \<open>parse_ip4\<close>, the composition of
  \<open>net.ParseIP\<close> and \<open>To4\<close> (the four bytes of an IPv4 address). The UDP socket and its read loop
  are I/O and left out; \<open>handleQuery\<close> maps a datagram to the datagram it writes back, if any.
\<close>

section \<open>State\<close>

record soa_record =
  soMName :: string
  soRName :: string
  soSerial :: u32
  soRefresh :: u32
  soRetry :: u32
  soExpire :: u32
  soMinimum :: u32

record resource_record =
  zrRecord :: dns_record
  zrData :: bytes

record zone =
  znSOA :: soa_record
  znRecords :: "(string \<times> resource_record list) list"
  znTransfers :: "bytes \<Rightarrow> bool"
  znSigner :: bytes
  znSignedAt :: gotime
  znSig :: bytes

record cache_entry =
  ceRecord :: dns_record
  ceExpires :: gotime

record dns_server =
  dsZone :: zone
  dsCache :: "(string \<times> cache_entry) list"

definition NewDnsServer :: "zone \<Rightarrow> dns_server" where
  "NewDnsServer z = \<lparr>dsZone = z, dsCache = []\<rparr>"

definition CacheTTL :: duration where "CacheTTL = 300000000000"

definition RNXDomain :: byte where "RNXDomain = 3"

datatype zone_error = NotFound | SignatureMissing | ZoneVerificationFailed | EmptySigner | UnexpectedSignatureLength nat

section \<open>The zone\<close>

definition record_key :: "resource_record \<Rightarrow> nat \<times> nat \<times> nat \<times> bytes" where
  "record_key r = (unat (drType (zrRecord r)), unat (drClass (zrRecord r)), unat (drTTL (zrRecord r)), zrData r)"

definition canonical_record :: "string \<Rightarrow> resource_record \<Rightarrow> bytes" where
  "canonical_record name r =
     str_bytes name @ put_u16 (drType (zrRecord r)) @ put_u16 (drClass (zrRecord r)) @ put_u32 (drTTL (zrRecord r)) @ zrData r"

definition zoneCanonical :: "zone \<Rightarrow> bytes" where
  "zoneCanonical z =
     concat (map (\<lambda>name. case map_of (znRecords z) name of
                    None \<Rightarrow> []
                  | Some rrs \<Rightarrow> concat (map (canonical_record name) (sort_key record_key rrs)))
               (sort (map fst (znRecords z))))"

definition reverseName :: "(string \<Rightarrow> (byte \<times> byte \<times> byte \<times> byte) option) \<Rightarrow> string \<Rightarrow> string" where
  "reverseName parse_ip4 addr =
     (case parse_ip4 addr of
        None \<Rightarrow> addr
      | Some (a, b, c, d) \<Rightarrow>
          nat_dec (unat d) @ ''.'' @ nat_dec (unat c) @ ''.'' @ nat_dec (unat b) @ ''.'' @ nat_dec (unat a) @ ''.in-addr.arpa'')"

definition with_data :: "resource_record \<Rightarrow> dns_record" where
  "with_data r = (zrRecord r)\<lparr>drRData := zrData r\<rparr>"

definition dns_resolve ::
  "(bytes \<Rightarrow> bytes \<Rightarrow> bytes \<Rightarrow> bool) \<Rightarrow> (string \<Rightarrow> (byte \<times> byte \<times> byte \<times> byte) option) \<Rightarrow> dns_question \<Rightarrow> zone \<Rightarrow> zone_error + dns_record" where
  "dns_resolve ed_verify parse_ip4 q z =
     (let name = (if dqType q = TypePTR then reverseName parse_ip4 (dqName q) else dqName q)
      in case map_of (znRecords z) name of
           None \<Rightarrow> Inl NotFound
         | Some records \<Rightarrow>
             if znSigner z \<noteq> replicate 32 0 \<and> length (znSig z) \<noteq> 64 then Inl SignatureMissing
             else if znSigner z \<noteq> replicate 32 0 \<and> \<not> crypto_Verify ed_verify (znSigner z) (zoneCanonical z) (znSig z)
             then Inl ZoneVerificationFailed
             else (case find (\<lambda>r. drType (zrRecord r) = dqType q) records of
                     Some r \<Rightarrow> Inr (with_data r)
                   | None \<Rightarrow> (case records of [] \<Rightarrow> Inl NotFound | r # _ \<Rightarrow> Inr (with_data r))))"

text \<open>\<open>SignZone\<close>: the error if any, and the server with the new signature and an empty cache.\<close>

definition SignZone ::
  "(bytes \<Rightarrow> bytes) \<Rightarrow> (bytes \<Rightarrow> bytes \<Rightarrow> bytes) \<Rightarrow> gotime \<Rightarrow> bytes \<Rightarrow> bytes \<Rightarrow> dns_server \<Rightarrow> zone_error option \<times> dns_server" where
  "SignZone new_key ed_sign now pub priv s =
     (if pub = replicate 32 0 then (Some EmptySigner, s)
      else let sig = crypto_Sign new_key ed_sign priv (zoneCanonical (dsZone s))
           in if length sig \<noteq> 64 then (Some (UnexpectedSignatureLength (length sig)), s)
              else (None, s\<lparr>dsZone := (dsZone s)\<lparr>znSigner := pub, znSignedAt := now, znSig := sig\<rparr>, dsCache := []\<rparr>))"

section \<open>Queries\<close>

definition answer_message :: "u16 \<Rightarrow> u16 \<Rightarrow> dns_question \<Rightarrow> dns_record list \<Rightarrow> dns_message" where
  "answer_message qid flags q answers =
     \<lparr>dmHeader = \<lparr>dhID = qid, dhFlags = flags, dhQDCOUNT = 1, dhANCOUNT = 0, dhNSCOUNT = 0, dhARCOUNT = 0\<rparr>,
      dmQuestions = [q], dmAnswers = answers, dmAuthorities = [], dmAdditionals = []\<rparr>"

definition cache_key :: "string \<Rightarrow> string" where
  "cache_key name = (if length name > 255 then take 255 name else name)"

text \<open>
  \<open>now\<close> is the clock reading of the cache lookup, \<open>now'\<close> that of the cache insertion. The outer
  \<open>None\<close> is a datagram on which the parser does not return.
\<close>

definition handleQuery ::
  "(bytes \<Rightarrow> bytes \<Rightarrow> bytes \<Rightarrow> bool) \<Rightarrow> (string \<Rightarrow> (byte \<times> byte \<times> byte \<times> byte) option) \<Rightarrow> gotime \<Rightarrow> gotime \<Rightarrow> bytes \<Rightarrow> dns_server
     \<Rightarrow> (bytes option \<times> dns_server) option" where
  "handleQuery ed_verify parse_ip4 now now' data s =
     (case ParseMessage data of
        None \<Rightarrow> None
      | Some (Inl _) \<Rightarrow> Some (None, s)
      | Some (Inr msg) \<Rightarrow>
          (case dmQuestions msg of
             [] \<Rightarrow> Some (None, s)
           | q # _ \<Rightarrow>
               let qid = dhID (dmHeader msg);
                   key = cache_key (dqName q);
                   hit = (case map_of (dsCache s) key of
                            None \<Rightarrow> None
                          | Some e \<Rightarrow> if now < ceExpires e then Some (ceRecord e) else None);
                   (response, s') =
                     (case hit of
                        Some r \<Rightarrow> (answer_message qid 0x8000 q [r], s)
                      | None \<Rightarrow>
                          (case dns_resolve ed_verify parse_ip4 q (dsZone s) of
                             Inl _ \<Rightarrow> (answer_message qid (0x8000 OR push_bit 3 (ucast RNXDomain)) q [], s)
                           | Inr r \<Rightarrow>
                               (answer_message qid 0x8000 q [r],
                                if length (dsCache s) < 10000
                                then s\<lparr>dsCache := AList.update key \<lparr>ceRecord = r, ceExpires = now' + CacheTTL\<rparr> (dsCache s)\<rparr>
                                else s)))
               in Some (Some (SerializeMessage response), s')))"

lemma cache_key_take: "cache_key name = take 255 name"
  by (simp add: cache_key_def)

section \<open>The signed bytes do not depend on the order of maps\<close>

lemma sort_perm: "mset xs = mset ys \<Longrightarrow> sort xs = sort ys"
  by (rule properties_for_sort) simp_all

lemma map_key_sort_key: "map k (sort_key k xs) = sort (map k xs)"
  by (rule sym, rule properties_for_sort) (simp_all add: multiset.map_comp)

lemma canonical_sorted:
  "concat (map (canonical_record name) (sort_key record_key rrs)) =
   concat (map (\<lambda>(t, c, l, d). str_bytes name @ be_bytes 2 t @ be_bytes 2 c @ be_bytes 4 l @ d) (sort (map record_key rrs)))"
proof -
  have "canonical_record name r = (\<lambda>(t, c, l, d). str_bytes name @ be_bytes 2 t @ be_bytes 2 c @ be_bytes 4 l @ d) (record_key r)" for r
    by (simp add: canonical_record_def record_key_def put_u16_def put_u32_def)
  then have "map (canonical_record name) rs = map (\<lambda>(t, c, l, d). str_bytes name @ be_bytes 2 t @ be_bytes 2 c @ be_bytes 4 l @ d) (map record_key rs)" for rs
    by (simp add: comp_def)
  then show ?thesis by (simp only: map_key_sort_key)
qed

text \<open>
  The signed form of a zone is deterministic. Two zones that hold the same records under the same
  names, whatever the order in which the map or a name's records are listed, have the same
  canonical bytes, so a signature made on one is checked against the same bytes on the other.
\<close>

theorem dns_canonical_deterministic:
  assumes "distinct (map fst (znRecords z))" "distinct (map fst (znRecords z'))"
    and "\<And>name. rel_option (\<lambda>a b. mset a = mset b) (map_of (znRecords z) name) (map_of (znRecords z') name)"
  shows "zoneCanonical z = zoneCanonical z'"
proof -
  have "map_of (znRecords z) name = None \<longleftrightarrow> map_of (znRecords z') name = None" for name
    using assms(3) [of name] by (cases "map_of (znRecords z) name"; cases "map_of (znRecords z') name") auto
  then have "dom (map_of (znRecords z)) = dom (map_of (znRecords z'))" by (simp add: dom_def)
  then have "set (map fst (znRecords z)) = set (map fst (znRecords z'))" by (simp add: dom_map_of_conv_image_fst)
  then have names: "sort (map fst (znRecords z)) = sort (map fst (znRecords z'))"
    using assms(1,2) by (intro sort_perm) (simp only: set_eq_iff_mset_eq_distinct)
  have "(case map_of (znRecords z) name of None \<Rightarrow> [] | Some rrs \<Rightarrow> concat (map (canonical_record name) (sort_key record_key rrs)))
      = (case map_of (znRecords z') name of None \<Rightarrow> [] | Some rrs \<Rightarrow> concat (map (canonical_record name) (sort_key record_key rrs)))" for name
  proof (cases "map_of (znRecords z) name")
    case None
    with assms(3) [of name] show ?thesis by (cases "map_of (znRecords z') name") auto
  next
    case (Some rrs)
    with assms(3) [of name] obtain rrs' where rrs': "map_of (znRecords z') name = Some rrs'" "mset rrs = mset rrs'"
      by (cases "map_of (znRecords z') name") auto
    then have "sort (map record_key rrs) = sort (map record_key rrs')"
      by (intro sort_perm) simp
    with Some rrs' show ?thesis by (simp add: canonical_sorted)
  qed
  with names show ?thesis by (simp add: zoneCanonical_def)
qed

definition demo_rr :: "u16 \<Rightarrow> bytes \<Rightarrow> resource_record" where
  "demo_rr t d = \<lparr>zrRecord = \<lparr>drName = ''a.localweb'', drType = t, drClass = 1, drTTL = 60, drRDLength = word_of_nat (length d), drRData = []\<rparr>,
     zrData = d\<rparr>"

definition demo_zone :: "(string \<times> resource_record list) list \<Rightarrow> zone" where
  "demo_zone rs = \<lparr>znSOA = \<lparr>soMName = [], soRName = [], soSerial = 1, soRefresh = 0, soRetry = 0, soExpire = 0, soMinimum = 0\<rparr>,
     znRecords = rs, znTransfers = (\<lambda>_. False), znSigner = replicate 32 0, znSignedAt = 0, znSig = replicate 64 0\<rparr>"

theorem dns_canonical_deterministic_witness:
  "zoneCanonical (demo_zone [(''a'', [demo_rr 1 [1], demo_rr 16 [2]]), (''b'', [])])
   = zoneCanonical (demo_zone [(''b'', []), (''a'', [demo_rr 16 [2], demo_rr 1 [1]])])"
  by (rule dns_canonical_deterministic) (simp_all add: demo_zone_def add_mset_commute)

text \<open>
  The signed form does not delimit its fields. A name, its type and its data are concatenated
  without lengths, so that a zone with two records and a zone with one record whose data embed the
  second have the same canonical bytes: a signature on one is valid for the other.
\<close>

theorem dns_canonical_ambiguous:
  "name < name' \<Longrightarrow>
   zoneCanonical (demo_zone [(name, [r]), (name', [r'])])
   = zoneCanonical (demo_zone [(name, [r\<lparr>zrData := zrData r @ canonical_record name' r'\<rparr>])])"
  by (auto simp: zoneCanonical_def demo_zone_def canonical_record_def)

theorem dns_canonical_ambiguous_witness:
  "zoneCanonical (demo_zone [(''a'', [demo_rr 1 [1]]), (''b'', [demo_rr 1 [2]])])
   = zoneCanonical (demo_zone [(''a'', [(demo_rr 1 [1])\<lparr>zrData := [1] @ canonical_record ''b'' (demo_rr 1 [2])\<rparr>])])"
  using dns_canonical_ambiguous [of "''a''" "''b''" "demo_rr 1 [1]" "demo_rr 1 [2]"] by (simp add: demo_rr_def)

section \<open>Signed zones resolve\<close>

text \<open>
  Signing makes the zone's records resolvable. After a successful \<open>SignZone\<close> with the public half of
  the signing key, every name of the zone resolves, without being re-signed, to the first of its
  records of the type asked for, and the cache holds no answer from before.
\<close>

theorem dns_signed_zone_resolves:
  assumes "ed25519_correct new_key ed_sign ed_verify" "pub = computePubFromSeed new_key priv"
    and "SignZone new_key ed_sign now pub priv s = (None, s')"
    and "map_of (znRecords (dsZone s)) (dqName q) = Some rrs" "dqType q \<noteq> TypePTR"
    and "find (\<lambda>r. drType (zrRecord r) = dqType q) rrs = Some r"
  shows "dns_resolve ed_verify parse_ip4 q (dsZone s') = Inr ((zrRecord r)\<lparr>drRData := zrData r\<rparr>) \<and> dsCache s' = []"
proof -
  let ?sig = "crypto_Sign new_key ed_sign priv (zoneCanonical (dsZone s))"
  have s': "s' = s\<lparr>dsZone := (dsZone s)\<lparr>znSigner := pub, znSignedAt := now, znSig := ?sig\<rparr>, dsCache := []\<rparr>"
    using assms(3) by (auto simp: SignZone_def Let_def split: if_splits)
  have "length ?sig = 64" using assms(1) by (simp add: crypto_Sign_def ed25519_correct_def)
  moreover have "crypto_Verify ed_verify pub (zoneCanonical (dsZone s')) ?sig"
    using assms(1,2) by (simp add: s' zoneCanonical_def crypto_Verify_def crypto_Sign_def computePubFromSeed_def ed25519_correct_def)
  ultimately show ?thesis using assms(4-) by (simp add: dns_resolve_def s' with_data_def)
qed

definition demo_dns :: dns_server where
  "demo_dns = NewDnsServer (demo_zone [(''a.localweb'', [demo_rr 1 [10, 0, 0, 1], demo_rr 16 [104, 105]])])"

theorem dns_signed_zone_resolves_witness:
  "dns_resolve toy_verify (\<lambda>_. None) \<lparr>dqName = ''a.localweb'', dqType = 1, dqClass = 1\<rparr>
     (dsZone (snd (SignZone toy_new_key toy_sign 5 (replicate 32 9) (replicate 32 9) demo_dns)))
   = Inr ((zrRecord (demo_rr 1 [10, 0, 0, 1]))\<lparr>drRData := [10, 0, 0, 1]\<rparr>)"
proof -
  let ?S = "SignZone toy_new_key toy_sign 5 (replicate 32 9) (replicate 32 9) demo_dns"
  have "?S = (None, snd ?S)" by (simp add: SignZone_def Let_def crypto_Sign_def toy_sign_def prod_eq_iff)
  from dns_signed_zone_resolves [OF toy_ed25519 _ this, of "\<lparr>dqName = ''a.localweb'', dqType = 1, dqClass = 1\<rparr>"
      "[demo_rr 1 [10, 0, 0, 1], demo_rr 16 [104, 105]]" "demo_rr 1 [10, 0, 0, 1]"]
  show ?thesis
    by (simp add: computePubFromSeed_def toy_new_key_def demo_dns_def NewDnsServer_def demo_zone_def demo_rr_def record_types)
qed

section \<open>Answers\<close>

text \<open>Serialising ignores the header's counts, so an answer reads back with the counts corrected.\<close>

lemma answer_reads_back:
  assumes "question_ok q" "list_all record_ok rs" "length rs < 65536"
  shows "ParseMessage (SerializeMessage (answer_message qid flags q rs))
    = Some (Inr ((answer_message qid flags q rs)\<lparr>dmHeader :=
        \<lparr>dhID = qid, dhFlags = flags, dhQDCOUNT = 1, dhANCOUNT = word_of_nat (length rs), dhNSCOUNT = 0, dhARCOUNT = 0\<rparr>\<rparr>))"
    (is "_ = Some (Inr ?m)")
proof -
  have "message_wf ?m" using assms by (simp add: message_wf_def answer_message_def short16_def)
  moreover have "SerializeMessage (answer_message qid flags q rs) = SerializeMessage ?m"
    by (simp add: SerializeMessage_def answer_message_def)
  ultimately show ?thesis using dns_wire_roundtrip by simp
qed

text \<open>
  A query is answered. For a well-formed query whose name is not in the cache and resolves to a
  record, the datagram written back parses to a response with the query's identifier, its
  question and exactly that record, and the record is cached for five minutes.
\<close>

theorem dns_query_answered:
  assumes "message_wf m" "dmQuestions m = q # qs" "length (dqName q) \<le> 255" "map_of (dsCache s) (dqName q) = None"
    and "dns_resolve ed_verify parse_ip4 q (dsZone s) = Inr r" "record_ok r" "length (dsCache s) < 10000"
  shows "\<exists>reply s' m'. handleQuery ed_verify parse_ip4 now now' (SerializeMessage m) s = Some (Some reply, s')
    \<and> ParseMessage reply = Some (Inr m') \<and> dhID (dmHeader m') = dhID (dmHeader m) \<and> dhFlags (dmHeader m') = 0x8000
    \<and> dmQuestions m' = [q] \<and> dmAnswers m' = [r]
    \<and> map_of (dsCache s') (dqName q) = Some \<lparr>ceRecord = r, ceExpires = now' + 300000000000\<rparr>"
proof -
  have "question_ok q" using assms(1,2) by (simp add: message_wf_def)
  then have "ParseMessage (SerializeMessage (answer_message (dhID (dmHeader m)) 0x8000 q [r]))
      = Some (Inr ((answer_message (dhID (dmHeader m)) 0x8000 q [r])\<lparr>dmHeader :=
        \<lparr>dhID = dhID (dmHeader m), dhFlags = 0x8000, dhQDCOUNT = 1, dhANCOUNT = 1, dhNSCOUNT = 0, dhARCOUNT = 0\<rparr>\<rparr>))"
    using answer_reads_back [of q "[r]"] assms(6) by simp
  then show ?thesis
    using assms(2-) dns_wire_roundtrip [OF assms(1)]
    by (simp add: handleQuery_def Let_def update_conv' CacheTTL_def answer_message_def cache_key_take)
qed

definition demo_ask :: "u16 \<Rightarrow> string \<Rightarrow> dns_message" where
  "demo_ask t name = \<lparr>dmHeader = \<lparr>dhID = 7, dhFlags = 0x0100, dhQDCOUNT = 1, dhANCOUNT = 0, dhNSCOUNT = 0, dhARCOUNT = 0\<rparr>,
     dmQuestions = [\<lparr>dqName = name, dqType = t, dqClass = 1\<rparr>], dmAnswers = [], dmAuthorities = [], dmAdditionals = []\<rparr>"

lemma demo_ask_wf: "name = ''a.localweb'' \<or> name = ''b.localweb'' \<Longrightarrow> message_wf (demo_ask t name)"
  by (auto simp: message_wf_def demo_ask_def question_ok_def name_ok_def splitName_def label_ok_def short16_def)

theorem dns_query_answered_witness:
  "\<exists>reply s' m'. handleQuery toy_verify (\<lambda>_. None) 1 2 (SerializeMessage (demo_ask 1 ''a.localweb'')) demo_dns = Some (Some reply, s')
     \<and> ParseMessage reply = Some (Inr m') \<and> dmAnswers m' = [with_data (demo_rr 1 [10, 0, 0, 1])]"
proof -
  have r: "dns_resolve toy_verify (\<lambda>_. None) \<lparr>dqName = ''a.localweb'', dqType = 1, dqClass = 1\<rparr> (dsZone demo_dns)
      = Inr (with_data (demo_rr 1 [10, 0, 0, 1]))"
    by (simp add: dns_resolve_def demo_dns_def NewDnsServer_def demo_zone_def demo_rr_def record_types)
  have "record_ok (with_data (demo_rr 1 [10, 0, 0, 1]))"
    by (simp add: record_ok_def with_data_def demo_rr_def name_ok_def splitName_def label_ok_def)
  with dns_query_answered [OF demo_ask_wf _ _ _ r, where qs = "[]" and now = 1 and now' = 2] show ?thesis
    by (auto simp: demo_ask_def demo_dns_def NewDnsServer_def)
qed

text \<open>
  A name that does not resolve is reported with the wrong code. The response code is the low four
  bits of the flags and \<open>NXDOMAIN\<close> is 3; the code shifts it by three bits, so a resolver reads the
  unassigned opcode bits and the response code 8.
\<close>

theorem dns_nxdomain_miscoded:
  assumes "message_wf m" "dmQuestions m = q # qs" "map_of (dsCache s) (take 255 (dqName q)) = None"
    and "dns_resolve ed_verify parse_ip4 q (dsZone s) = Inl e"
  shows "\<exists>reply m'. handleQuery ed_verify parse_ip4 now now' (SerializeMessage m) s = Some (Some reply, s)
    \<and> ParseMessage reply = Some (Inr m') \<and> dmAnswers m' = [] \<and> dhFlags (dmHeader m') AND 0xF = 8"
proof -
  have "question_ok q" using assms(1,2) by (simp add: message_wf_def)
  then have reply: "ParseMessage (SerializeMessage (answer_message (dhID (dmHeader m)) 0x8018 q []))
      = Some (Inr ((answer_message (dhID (dmHeader m)) 0x8018 q [])\<lparr>dmHeader :=
        \<lparr>dhID = dhID (dmHeader m), dhFlags = 0x8018, dhQDCOUNT = 1, dhANCOUNT = 0, dhNSCOUNT = 0, dhARCOUNT = 0\<rparr>\<rparr>))"
    using answer_reads_back [of q "[]"] by simp
  have flags: "(0x8000 :: u16) OR push_bit 3 (ucast RNXDomain) = 0x8018" "(0x8018 :: u16) AND 0xF = 8" by code_simp+
  have "handleQuery ed_verify parse_ip4 now now' (SerializeMessage m) s
      = Some (Some (SerializeMessage (answer_message (dhID (dmHeader m)) 0x8018 q [])), s)"
    using assms dns_wire_roundtrip [OF assms(1)] by (simp add: handleQuery_def Let_def cache_key_take flags(1))
  with reply flags(2) show ?thesis by (simp add: answer_message_def)
qed

theorem dns_nxdomain_miscoded_witness:
  "\<exists>reply m'. handleQuery toy_verify (\<lambda>_. None) 1 2 (SerializeMessage (demo_ask 1 ''b.localweb'')) demo_dns = Some (Some reply, demo_dns)
     \<and> ParseMessage reply = Some (Inr m') \<and> dhFlags (dmHeader m') AND 0xF = 8"
proof -
  let ?q = "\<lparr>dqName = ''b.localweb'', dqType = 1, dqClass = 1\<rparr>"
  have r: "dns_resolve toy_verify (\<lambda>_. None) ?q (dsZone demo_dns) = Inl NotFound"
    by (simp add: dns_resolve_def demo_dns_def NewDnsServer_def demo_zone_def record_types)
  have m: "message_wf (demo_ask 1 ''b.localweb'')" "dmQuestions (demo_ask 1 ''b.localweb'') = ?q # []"
    using demo_ask_wf by (simp_all add: demo_ask_def)
  have "map_of (dsCache demo_dns) (take 255 (dqName ?q)) = None" by (simp add: demo_dns_def NewDnsServer_def)
  from dns_nxdomain_miscoded [OF m this r, of 1 2] show ?thesis by auto
qed

text \<open>
  The cache is keyed by the name alone: while an answer is cached, a query of another type for the
  same name is answered with the cached record.
\<close>

theorem dns_cache_ignores_type:
  assumes "message_wf m" "dmQuestions m = q # qs" "map_of (dsCache s) (take 255 (dqName q)) = Some e" "now < ceExpires e"
  shows "handleQuery ed_verify parse_ip4 now now' (SerializeMessage m) s
    = Some (Some (SerializeMessage (answer_message (dhID (dmHeader m)) 0x8000 q [ceRecord e])), s)"
  using assms dns_wire_roundtrip [OF assms(1)] by (simp add: handleQuery_def Let_def cache_key_take)

section \<open>The cache is bounded\<close>

definition cache_bounded :: "dns_server \<Rightarrow> bool" where
  "cache_bounded s \<longleftrightarrow> distinct (map fst (dsCache s)) \<and> length (dsCache s) \<le> 10000"

text \<open>A datagram on which the handler's goroutine never returns leaves the server as it is.\<close>

definition dns_step ::
  "(bytes \<Rightarrow> bytes \<Rightarrow> bytes \<Rightarrow> bool) \<Rightarrow> (string \<Rightarrow> (byte \<times> byte \<times> byte \<times> byte) option) \<Rightarrow> dns_server \<Rightarrow> gotime \<times> gotime \<times> bytes \<Rightarrow> dns_server" where
  "dns_step ed_verify parse_ip4 s c =
     (case c of (now, now', data) \<Rightarrow> (case handleQuery ed_verify parse_ip4 now now' data s of None \<Rightarrow> s | Some (_, s') \<Rightarrow> s'))"

lemma handleQuery_state:
  "handleQuery ed_verify parse_ip4 now now' data s = Some (out, s') \<Longrightarrow>
   s' = s \<or> (length (dsCache s) < 10000 \<and> (\<exists>k v. s' = s\<lparr>dsCache := AList.update k v (dsCache s)\<rparr>))"
  by (auto simp: handleQuery_def Let_def split: option.splits sum.splits list.splits if_splits)

lemma length_update: "length (AList.update k v xs) \<le> Suc (length xs)"
  by (induction xs) (auto split: prod.split)

interpretation dns: operations "dns_step ed_verify parse_ip4" cache_bounded for ed_verify parse_ip4
proof
  fix s and c :: "gotime \<times> gotime \<times> bytes"
  assume s: "cache_bounded s"
  obtain now now' data where c: "c = (now, now', data)" by (cases c)
  show "cache_bounded (dns_step ed_verify parse_ip4 s c)"
  proof (cases "handleQuery ed_verify parse_ip4 now now' data s")
    case (Some r)
    obtain out s' where r: "r = (out, s')" by (cases r)
    have "length (AList.update k v (dsCache s)) \<le> 10000" if "length (dsCache s) < 10000" for k v
      using length_update [of k v "dsCache s"] that by simp
    with handleQuery_state [OF Some [unfolded r]] s have "cache_bounded s'" by (auto simp: cache_bounded_def distinct_update)
    with Some r show ?thesis by (simp add: dns_step_def c)
  qed (use s in \<open>simp add: dns_step_def c\<close>)
qed

text \<open>
  The answer cache never exceeds 10000 entries, one per name, whatever datagrams arrive.
\<close>

theorem dns_cache_bounded:
  "length (dsCache (foldl (dns_step ed_verify parse_ip4) (NewDnsServer z) datagrams)) \<le> 10000
   \<and> distinct (map fst (dsCache (foldl (dns_step ed_verify parse_ip4) (NewDnsServer z) datagrams)))"
  using dns.run_inv [of "NewDnsServer z" ed_verify parse_ip4 datagrams] by (simp add: cache_bounded_def NewDnsServer_def)

end
