(* ===== verification/Docs_Wire.thy ===== *)
theory Docs_Wire
  imports LW_Prelude
begin

text \<open>
  The data and the wire formats of the collaborative documents (\<open>pkg/services/docs/types.go\<close>): block
  types, operations, the message envelope and their binary encodings. A decoder that walks an offset
  through the data is written over the bytes that are left, so that the test
  \<open>len(data) < offset + n\<close> is \<open>length rest < n\<close>.
\<close>

section \<open>Block types and operations\<close>

type_synonym block_type = byte
type_synonym op_type = byte

definition BlockParagraph :: block_type where "BlockParagraph = 0"
definition BlockHeading1 :: block_type where "BlockHeading1 = 1"
definition BlockHeading2 :: block_type where "BlockHeading2 = 2"
definition BlockHeading3 :: block_type where "BlockHeading3 = 3"
definition BlockBulletList :: block_type where "BlockBulletList = 4"
definition BlockNumberedList :: block_type where "BlockNumberedList = 5"
definition BlockCodeBlock :: block_type where "BlockCodeBlock = 6"
definition BlockQuote :: block_type where "BlockQuote = 7"

lemmas block_types = BlockParagraph_def BlockHeading1_def BlockHeading2_def BlockHeading3_def
  BlockBulletList_def BlockNumberedList_def BlockCodeBlock_def BlockQuote_def

definition BlockType_String :: "block_type \<Rightarrow> string" where
  "BlockType_String b =
     (if b = BlockHeading1 then ''heading1'' else if b = BlockHeading2 then ''heading2''
      else if b = BlockHeading3 then ''heading3'' else if b = BlockBulletList then ''bullet_list''
      else if b = BlockNumberedList then ''numbered_list'' else if b = BlockCodeBlock then ''code_block''
      else if b = BlockQuote then ''quote'' else ''paragraph'')"

definition ParseBlockType :: "string \<Rightarrow> block_type" where
  "ParseBlockType s =
     (if s = ''heading1'' then BlockHeading1 else if s = ''heading2'' then BlockHeading2
      else if s = ''heading3'' then BlockHeading3 else if s = ''bullet_list'' then BlockBulletList
      else if s = ''numbered_list'' then BlockNumberedList else if s = ''code_block'' then BlockCodeBlock
      else if s = ''quote'' then BlockQuote else BlockParagraph)"

definition OpInsert :: op_type where "OpInsert = 0"
definition OpDelete :: op_type where "OpDelete = 1"
definition OpFormatBlock :: op_type where "OpFormatBlock = 2"
definition OpTitleChange :: op_type where "OpTitleChange = 3"

lemmas op_types = OpInsert_def OpDelete_def OpFormatBlock_def OpTitleChange_def

definition OpType_String :: "op_type \<Rightarrow> string" where
  "OpType_String t =
     (if t = OpDelete then ''delete'' else if t = OpFormatBlock then ''format_block''
      else if t = OpTitleChange then ''title_change'' else ''insert'')"

record doc_op =
  opType :: op_type
  opDocID :: string
  opAuthorID :: bytes
  opPosition :: int
  opValue :: string
  opBlockType :: block_type
  opTitle :: string
  opTimestamp :: int64

definition NewInsertOp :: "string \<Rightarrow> bytes \<Rightarrow> int \<Rightarrow> string \<Rightarrow> int64 \<Rightarrow> doc_op" where
  "NewInsertOp docID author position value ts =
     \<lparr>opType = OpInsert, opDocID = docID, opAuthorID = author, opPosition = position, opValue = value,
      opBlockType = 0, opTitle = [], opTimestamp = ts\<rparr>"

definition NewDeleteOp :: "string \<Rightarrow> bytes \<Rightarrow> int \<Rightarrow> int64 \<Rightarrow> doc_op" where
  "NewDeleteOp docID author position ts =
     \<lparr>opType = OpDelete, opDocID = docID, opAuthorID = author, opPosition = position, opValue = [],
      opBlockType = 0, opTitle = [], opTimestamp = ts\<rparr>"

definition NewFormatBlockOp :: "string \<Rightarrow> bytes \<Rightarrow> int \<Rightarrow> block_type \<Rightarrow> int64 \<Rightarrow> doc_op" where
  "NewFormatBlockOp docID author position bt ts =
     \<lparr>opType = OpFormatBlock, opDocID = docID, opAuthorID = author, opPosition = position, opValue = [],
      opBlockType = bt, opTitle = [], opTimestamp = ts\<rparr>"

section \<open>Integers\<close>

definition encodeUint32 :: "u32 \<Rightarrow> bytes" where
  "encodeUint32 v = [ucast (drop_bit 24 v), ucast (drop_bit 16 v), ucast (drop_bit 8 v), ucast v]"

definition decodeUint32 :: "bytes \<Rightarrow> u32" where
  "decodeUint32 b = or (push_bit 24 (ucast (b ! 0))) (or (push_bit 16 (ucast (b ! 1)))
     (or (push_bit 8 (ucast (b ! 2))) (ucast (b ! 3))))"

definition encodeInt64 :: "int64 \<Rightarrow> bytes" where
  "encodeInt64 uv = [ucast (drop_bit 56 uv), ucast (drop_bit 48 uv), ucast (drop_bit 40 uv), ucast (drop_bit 32 uv),
     ucast (drop_bit 24 uv), ucast (drop_bit 16 uv), ucast (drop_bit 8 uv), ucast uv]"

definition decodeInt64 :: "bytes \<Rightarrow> int64" where
  "decodeInt64 b = or (push_bit 56 (ucast (b ! 0))) (or (push_bit 48 (ucast (b ! 1)))
     (or (push_bit 40 (ucast (b ! 2))) (or (push_bit 32 (ucast (b ! 3)))
     (or (push_bit 24 (ucast (b ! 4))) (or (push_bit 16 (ucast (b ! 5)))
     (or (push_bit 8 (ucast (b ! 6))) (ucast (b ! 7))))))))"

lemma length_encode [simp]: "length (encodeUint32 v) = 4" "length (encodeInt64 w) = 8"
  by (simp_all add: encodeUint32_def encodeInt64_def)

lemma decode_encode_Uint32 [wire_simps]: "decodeUint32 (encodeUint32 v) = v"
proof (rule bit_word_eqI)
  fix n assume "n < LENGTH(32)"
  then have "n < 8 \<or> 8 \<le> n \<and> n < 16 \<or> 16 \<le> n \<and> n < 24 \<or> 24 \<le> n \<and> n < 32" by auto
  then show "bit (decodeUint32 (encodeUint32 v)) n = bit v n"
    unfolding decodeUint32_def encodeUint32_def by (elim disjE conjE) (simp_all add: bit_simps less_diff_conv2)
qed

lemma decode_encode_Int64 [wire_simps]: "decodeInt64 (encodeInt64 v) = v"
proof (rule bit_word_eqI)
  fix n assume "n < LENGTH(64)"
  then have "n < 8 \<or> 8 \<le> n \<and> n < 16 \<or> 16 \<le> n \<and> n < 24 \<or> 24 \<le> n \<and> n < 32
    \<or> 32 \<le> n \<and> n < 40 \<or> 40 \<le> n \<and> n < 48 \<or> 48 \<le> n \<and> n < 56 \<or> 56 \<le> n \<and> n < 64" by auto
  then show "bit (decodeInt64 (encodeInt64 v)) n = bit v n"
    unfolding decodeInt64_def encodeInt64_def by (elim disjE conjE) (simp_all add: bit_simps less_diff_conv2)
qed

section \<open>Operations on the wire\<close>

datatype docs_error = MessageTooShort nat | MessageTruncated | OpTooShort nat | OpValueTruncated

text \<open>
  \<open>uint32(op.Position)\<close> keeps the low 32 bits, also of a negative position. The block type and the title
  are optional trailing fields.
\<close>

definition marshalOp :: "doc_op \<Rightarrow> bytes" where
  "marshalOp op = [opType op] @ opAuthorID op @ encodeInt64 (opTimestamp op)
     @ encodeUint32 (word_of_int (opPosition op))
     @ encodeUint32 (word_of_nat (length (opValue op))) @ str_bytes (opValue op)
     @ encodeUint32 (ucast (opBlockType op))
     @ encodeUint32 (word_of_nat (length (opTitle op))) @ str_bytes (opTitle op)"

definition unmarshal_title :: "doc_op \<Rightarrow> bytes \<Rightarrow> doc_op" where
  "unmarshal_title op rest =
     (if length rest < 4 then op
      else let titleLen = unat (decodeUint32 (take 4 rest)); rest' = drop 4 rest
           in if length rest' < titleLen then op else op\<lparr>opTitle := bytes_str (take titleLen rest')\<rparr>)"

definition unmarshalOp :: "bytes \<Rightarrow> docs_error + doc_op" where
  "unmarshalOp data =
     (if length data < 49 then Inl (OpTooShort (length data))
      else let valLen = unat (decodeUint32 (take 4 (drop 45 data)));
               rest = drop 49 data;
               op = \<lparr>opType = hd data, opDocID = [], opAuthorID = take 32 (drop 1 data),
                     opPosition = uint (decodeUint32 (take 4 (drop 41 data))),
                     opValue = bytes_str (take valLen rest), opBlockType = BlockParagraph, opTitle = [],
                     opTimestamp = decodeInt64 (take 8 (drop 33 data))\<rparr>;
               rest' = drop valLen rest
           in if length rest < valLen then Inl OpValueTruncated
              else if length rest' < 4 then Inr op
              else Inr (unmarshal_title (op\<lparr>opBlockType := ucast (decodeUint32 (take 4 rest'))\<rparr>) (drop 4 rest')))"

section \<open>The envelope\<close>

definition DocMsgOperation :: byte where "DocMsgOperation = 0x01"
definition DocMsgPresence :: byte where "DocMsgPresence = 0x02"
definition DocMsgSyncReq :: byte where "DocMsgSyncReq = 0x03"
definition DocMsgSyncResp :: byte where "DocMsgSyncResp = 0x04"
definition DocMsgFullState :: byte where "DocMsgFullState = 0x05"
definition DocMsgAck :: byte where "DocMsgAck = 0x06"

lemmas doc_msg_types = DocMsgOperation_def DocMsgPresence_def DocMsgSyncReq_def DocMsgSyncResp_def
  DocMsgFullState_def DocMsgAck_def

record doc_message =
  mgType :: byte
  mgDocID :: string
  mgAuthorID :: bytes
  mgPayload :: bytes
  mgTimestamp :: int64

definition encodeDocMessage :: "doc_message \<Rightarrow> bytes" where
  "encodeDocMessage msg = [mgType msg] @ encodeUint32 (word_of_nat (length (mgDocID msg)))
     @ str_bytes (mgDocID msg) @ mgAuthorID msg @ encodeInt64 (mgTimestamp msg) @ mgPayload msg"

definition decodeDocMessage :: "bytes \<Rightarrow> docs_error + doc_message" where
  "decodeDocMessage data =
     (if length data < 45 then Inl (MessageTooShort (length data))
      else let nameLen = unat (decodeUint32 (take 4 (drop 1 data))); rest = drop 5 data; rest' = drop nameLen rest
           in if length rest < nameLen + 40 then Inl MessageTruncated
              else Inr \<lparr>mgType = hd data, mgDocID = bytes_str (take nameLen rest), mgAuthorID = take 32 rest',
                        mgPayload = drop 40 rest', mgTimestamp = decodeInt64 (take 8 (drop 32 rest'))\<rparr>)"

definition encodeOpPayload :: "doc_op \<Rightarrow> string \<Rightarrow> bytes" where
  "encodeOpPayload op docID = encodeDocMessage
     \<lparr>mgType = DocMsgOperation, mgDocID = docID, mgAuthorID = replicate 32 0, mgPayload = marshalOp op, mgTimestamp = 0\<rparr>"

definition decodeOpPayload :: "bytes \<Rightarrow> docs_error + doc_op \<times> string" where
  "decodeOpPayload data =
     (case decodeDocMessage data of
        Inl e \<Rightarrow> Inl e
      | Inr msg \<Rightarrow> (case unmarshalOp (mgPayload msg) of Inl e \<Rightarrow> Inl e | Inr op \<Rightarrow> Inr (op, mgDocID msg)))"

section \<open>Round trips\<close>

definition sendable_op :: "doc_op \<Rightarrow> bool" where
  "sendable_op op \<longleftrightarrow> length (opAuthorID op) = 32 \<and> 0 \<le> opPosition op \<and> opPosition op < 2 ^ 32
     \<and> length (opValue op) < 2 ^ 32 \<and> length (opTitle op) < 2 ^ 32"

definition sendable_message :: "doc_message \<Rightarrow> bool" where
  "sendable_message msg \<longleftrightarrow> length (mgAuthorID msg) = 32 \<and> length (mgDocID msg) < 2 ^ 32"

lemma uint_position: "0 \<le> i \<Longrightarrow> i < 2 ^ 32 \<Longrightarrow> uint (word_of_int i :: u32) = i"
  by (simp add: uint_word_of_int_eq take_bit_int_eq_self)

lemma byte_through_32: "(ucast (ucast (b :: byte) :: u32) :: byte) = b"
  by (rule bit_word_eqI) (auto simp: bit_simps)

text \<open>
  The bytes of an operation cut at any point after its value still decode, to the operation without
  the fields that were cut off.
\<close>

lemma unmarshal_head:
  assumes "sendable_op op"
  shows "unmarshalOp ([opType op] @ opAuthorID op @ encodeInt64 (opTimestamp op)
     @ encodeUint32 (word_of_int (opPosition op))
     @ encodeUint32 (word_of_nat (length (opValue op))) @ str_bytes (opValue op) @ rest) =
   (let op' = op\<lparr>opDocID := [], opBlockType := BlockParagraph, opTitle := []\<rparr>
    in if length rest < 4 then Inr op'
       else Inr (unmarshal_title (op'\<lparr>opBlockType := ucast (decodeUint32 (take 4 rest))\<rparr>) (drop 4 rest)))"
  using assms by (cases op) (simp add: sendable_op_def unmarshalOp_def Let_def wire_simps unat_cast uint_position)

lemma op_roundtrip: "sendable_op op \<Longrightarrow> unmarshalOp (marshalOp op) = Inr (op\<lparr>opDocID := []\<rparr>)"
  by (simp add: marshalOp_def unmarshal_head [simplified] Let_def unmarshal_title_def wire_simps unat_cast
      sendable_op_def byte_through_32)

lemma message_roundtrip: "sendable_message msg \<Longrightarrow> decodeDocMessage (encodeDocMessage msg) = Inr msg"
  by (simp add: sendable_message_def encodeDocMessage_def decodeDocMessage_def Let_def wire_simps unat_cast)

text \<open>
  An operation survives its journey. For positions and lengths that fit 32 bits, decoding an encoded
  operation message returns the operation and the document it was sent for; only the operation's own
  \<open>DocID\<close> is not transmitted and comes back empty.
\<close>

theorem docs_op_roundtrip:
  assumes "sendable_op op" "length docID < 2 ^ 32"
  shows "decodeOpPayload (encodeOpPayload op docID) = Inr (op\<lparr>opDocID := []\<rparr>, docID)"
  using assms by (simp add: decodeOpPayload_def encodeOpPayload_def message_roundtrip sendable_message_def op_roundtrip)

theorem docs_op_roundtrip_witness:
  "decodeOpPayload (encodeOpPayload (NewInsertOp ''d'' (replicate 32 1) 3 ''text'' 7) ''d'') =
     Inr ((NewInsertOp ''d'' (replicate 32 1) 3 ''text'' 7)\<lparr>opDocID := []\<rparr>, ''d'')"
  by (rule docs_op_roundtrip) (simp_all add: sendable_op_def NewInsertOp_def)

lemma unmarshal_title_fields [simp]:
  "opAuthorID (unmarshal_title op rest) = opAuthorID op" "opPosition (unmarshal_title op rest) = opPosition op"
  "opDocID (unmarshal_title op rest) = opDocID op" "opValue (unmarshal_title op rest) = opValue op"
  by (simp_all add: unmarshal_title_def Let_def)

lemma unmarshal_title_length: "opTitle op = [] \<Longrightarrow> length (opTitle (unmarshal_title op rest)) \<le> length rest"
  by (auto simp: unmarshal_title_def Let_def)

lemma unmarshalOp_typed:
  assumes "unmarshalOp data = Inr op"
  shows "length (opAuthorID op) = 32 \<and> 0 \<le> opPosition op \<and> opPosition op < 2 ^ 32 \<and> opDocID op = []
      \<and> length (opValue op) + length (opTitle op) + 49 \<le> length data"
proof -
  let ?n = "unat (decodeUint32 (take 4 (drop 45 data)))" and ?rest = "drop 49 data"
  let ?op = "\<lparr>opType = hd data, opDocID = [], opAuthorID = take 32 (drop 1 data),
      opPosition = uint (decodeUint32 (take 4 (drop 41 data))), opValue = bytes_str (take ?n ?rest),
      opBlockType = BlockParagraph, opTitle = [], opTimestamp = decodeInt64 (take 8 (drop 33 data))\<rparr>"
  let ?bt = "?op\<lparr>opBlockType := ucast (decodeUint32 (take 4 (drop ?n ?rest)))\<rparr>"
  have len: "49 \<le> length data" "?n \<le> length ?rest"
    and op: "op = (if length (drop ?n ?rest) < 4 then ?op else unmarshal_title ?bt (drop 4 (drop ?n ?rest)))"
    using assms unfolding unmarshalOp_def Let_def by (simp_all split: if_splits)
  have "length (opTitle op) \<le> length (drop ?n ?rest)"
  proof (cases "length (drop ?n ?rest) < 4")
    case False
    then have "op = unmarshal_title ?bt (drop 4 (drop ?n ?rest))" by (simp add: op)
    then have "length (opTitle op) \<le> length (drop 4 (drop ?n ?rest))" by (simp only:) (rule unmarshal_title_length, simp)
    then show ?thesis by simp
  qed (simp add: op)
  moreover have "opAuthorID op = take 32 (drop 1 data)" "opDocID op = []" "opValue op = bytes_str (take ?n ?rest)"
    and pos: "opPosition op = uint (decodeUint32 (take 4 (drop 41 data)))"
    by (simp_all add: op)
  moreover have "0 \<le> opPosition op \<and> opPosition op < 2 ^ 32"
    using uint_lt2p [where 'a = 32] unfolding pos by simp
  ultimately show ?thesis using len by simp
qed


text \<open>Names of block types are read back.\<close>

lemma ParseBlockType_String: "b < 8 \<Longrightarrow> ParseBlockType (BlockType_String b) = b"
proof -
  assume "b < 8"
  then have "unat b < 8" by (simp add: word_less_nat_alt)
  then have "unat b \<in> {0, 1, 2, 3, 4, 5, 6, 7}" by auto
  then have "b = word_of_nat (unat b)" "unat b = 0 \<or> unat b = 1 \<or> unat b = 2 \<or> unat b = 3 \<or> unat b = 4
    \<or> unat b = 5 \<or> unat b = 6 \<or> unat b = 7" by auto
  then show ?thesis by (elim disjE) (simp_all add: ParseBlockType_def BlockType_String_def block_types)
qed

end
