(* ===== verification/Docs_Document.thy ===== *)
theory Docs_Document
  imports Docs_Wire Crdt_RGA_Wire
begin

text \<open>
  The collaborative document (\<open>pkg/services/docs/document.go\<close>): visible lines with their block types, the
  replicated array behind them, and the history for undo and redo. An operation that can panic (a
  slice expression or an index out of range) returns \<open>None\<close> in that case. Readings of the clock are
  arguments; the event channel, which only notifies observers, is left out.
\<close>

record document =
  dcID :: string
  dcTitle :: string
  dcRga :: rga
  dcBlockTypes :: "block_type list"
  dcLines :: "string list"
  dcHistory :: "doc_op list"
  dcHistoryIdx :: nat
  dcVersion :: int64
  dcUpdatedAt :: gotime
  dcNodeID :: string

definition NewDocument :: "string \<Rightarrow> string \<Rightarrow> string \<Rightarrow> document" where
  "NewDocument i title nodeID =
     \<lparr>dcID = i, dcTitle = title, dcRga = NewRGA nodeID, dcBlockTypes = [], dcLines = [], dcHistory = [],
      dcHistoryIdx = 0, dcVersion = 0, dcUpdatedAt = 0, dcNodeID = nodeID\<rparr>"

datatype doc_error =
  UnknownOp op_type | InsertRange int nat | DeleteRange int | FormatRange int | NothingToUndo | NothingToRedo

record op_result =
  rsApplied :: bool
  rsPosition :: int
  rsError :: "doc_error option"

definition refused :: "doc_error \<Rightarrow> op_result" where
  "refused e = \<lparr>rsApplied = False, rsPosition = 0, rsError = Some e\<rparr>"

definition applied :: "int \<Rightarrow> op_result" where
  "applied p = \<lparr>rsApplied = True, rsPosition = p, rsError = None\<rparr>"

definition skipped :: op_result where
  "skipped = \<lparr>rsApplied = False, rsPosition = 0, rsError = None\<rparr>"

section \<open>Slices\<close>

text \<open>\<open>append(s[:pos], s[pos+1:]...)\<close>, \<open>s[pos] = val\<close> and \<open>insertSlice\<close> with what they do out of range.\<close>

definition remove_at :: "int \<Rightarrow> 'a list \<Rightarrow> 'a list option" where
  "remove_at pos s =
     (if 0 \<le> pos \<and> pos < int (length s) then Some (take (nat pos) s @ drop (Suc (nat pos)) s) else None)"

definition set_at :: "int \<Rightarrow> 'a \<Rightarrow> 'a list \<Rightarrow> 'a list option" where
  "set_at pos val s = (if 0 \<le> pos \<and> pos < int (length s) then Some (s[nat pos := val]) else None)"

definition insertSlice :: "'a list \<Rightarrow> int \<Rightarrow> 'a \<Rightarrow> 'a list option" where
  "insertSlice s pos val =
     (if pos \<ge> int (length s) then Some (s @ [val])
      else if pos < 0 then None
      else let s' = take (nat pos + 1) s @ drop (nat pos) s in Some (s'[nat pos := val]))"

definition newline :: string where "newline = [CHR 0x0A]"

fun split_lines :: "string \<Rightarrow> string \<Rightarrow> string list" where
  "split_lines cur [] = [cur]"
| "split_lines cur (c # s) = (if c = CHR 0x0A then cur # split_lines [] s else split_lines (cur @ [c]) s)"

definition splitLines :: "string \<Rightarrow> string list" where
  "splitLines s = (if s = [] then [] else split_lines [] s)"

fun joinLines :: "string list \<Rightarrow> string" where
  "joinLines [] = []"
| "joinLines (l # ls) = foldl (\<lambda>result line. result @ newline @ line) l ls"

definition stringToID :: "string \<Rightarrow> bytes" where
  "stringToID s = take 32 (str_bytes s @ replicate 32 0)"

section \<open>The replicated array behind the lines\<close>

text \<open>
  \<open>for _, ch := range text\<close> with \<open>string(ch)\<close>: one string per rune, the replacement character for a byte
  that starts no well-formed sequence.
\<close>

function rune_strings :: "bytes \<Rightarrow> string list" where
  "rune_strings [] = []"
| "rune_strings (b # bs) =
     (if utf8_width (b # bs) = 0 then bytes_str [0xEF, 0xBF, 0xBD] # rune_strings bs
      else bytes_str (take (utf8_width (b # bs)) (b # bs)) # rune_strings (drop (utf8_width (b # bs) - 1) bs))"
  by pat_completeness auto
termination by (relation "measure length") auto

fun push_runes :: "string list \<Rightarrow> string \<Rightarrow> rga \<Rightarrow> rga" where
  "push_runes [] lastCharID r = r"
| "push_runes (ch # chs) lastCharID r = push_runes chs [] (RGA_Insert r lastCharID ch)"

definition last_char_id :: "string \<Rightarrow> rga \<Rightarrow> string" where
  "last_char_id nodeID r =
     (if rgaLength r > 0
      then (case RGA_Get r (rgaLength r - 1) of
              Inr lastCh \<Rightarrow> if lastCh \<noteq> [] then ''0:'' @ nodeID @ '':'' @ lastCh else ''head''
            | Inl _ \<Rightarrow> ''head'')
      else ''head'')"

definition pushLineToRGA :: "int \<Rightarrow> string \<Rightarrow> string \<Rightarrow> rga \<Rightarrow> rga" where
  "pushLineToRGA linePos lineText nodeID r =
     (if linePos < rgaLength r
      then push_runes (rune_strings (str_bytes lineText)) [] (RGA_Insert r (last_char_id nodeID r) newline)
      else push_runes (rune_strings (str_bytes lineText)) (last_char_id nodeID r) r)"

text \<open>The characters of the array by index, until \<open>Get\<close> fails.\<close>

fun get_chars :: "rga \<Rightarrow> nat list \<Rightarrow> string list" where
  "get_chars r [] = []"
| "get_chars r (i # is) = (case RGA_Get r (int i) of Inl _ \<Rightarrow> [] | Inr ch \<Rightarrow> ch # get_chars r is)"

definition rga_chars :: "rga \<Rightarrow> string list" where
  "rga_chars r = get_chars r [0..<nat (rgaLength r)]"

fun rebuild_lines :: "string \<Rightarrow> string list \<Rightarrow> string list" where
  "rebuild_lines cur [] = [cur]"
| "rebuild_lines cur (ch # chs) =
     (if ch = newline then cur # rebuild_lines [] chs else rebuild_lines (cur @ ch) chs)"

definition rebuildFromRGA :: "document \<Rightarrow> document" where
  "rebuildFromRGA d =
     (let lines = rebuild_lines [] (rga_chars (dcRga d))
      in d\<lparr>dcLines := lines,
           dcBlockTypes := map (\<lambda>i. if i < length (dcBlockTypes d) then dcBlockTypes d ! i else BlockParagraph)
                             [0..<length lines]\<rparr>)"

definition rebuildLinesFromRGARaw :: "rga \<Rightarrow> string list" where
  "rebuildLinesFromRGARaw r = (if rgaLength r = 0 then [] else splitLines (concat (rga_chars r)))"

section \<open>Applying operations\<close>

definition touch :: "gotime \<Rightarrow> document \<Rightarrow> document" where
  "touch now d = d\<lparr>dcVersion := dcVersion d + 1, dcUpdatedAt := now\<rparr>"

definition record_op :: "doc_op \<Rightarrow> document \<Rightarrow> document" where
  "record_op op d = d\<lparr>dcHistory := dcHistory d @ [op], dcHistoryIdx := length (dcHistory d) + 1\<rparr>"

definition applyInsert :: "gotime \<Rightarrow> doc_op \<Rightarrow> document \<Rightarrow> (op_result \<times> document) option" where
  "applyInsert now op d =
     (let p = opPosition op in
      if p < 0 \<or> p > int (length (dcLines d)) then Some (refused (InsertRange p (length (dcLines d))), d)
      else case (if p = int (length (dcLines d)) then (Some (dcLines d @ [opValue op]), Some (dcBlockTypes d @ [BlockParagraph]))
                 else (insertSlice (dcLines d) p (opValue op), insertSlice (dcBlockTypes d) p BlockParagraph)) of
             (Some lines, Some types) \<Rightarrow>
               Some (applied p, record_op op (touch now (d\<lparr>dcLines := lines, dcBlockTypes := types,
                 dcRga := pushLineToRGA p (opValue op) (dcNodeID d) (dcRga d)\<rparr>)))
           | _ \<Rightarrow> None)"

definition applyDelete :: "gotime \<Rightarrow> doc_op \<Rightarrow> document \<Rightarrow> (op_result \<times> document) option" where
  "applyDelete now op d =
     (let p = opPosition op in
      if p < 0 \<or> p \<ge> int (length (dcLines d)) then Some (refused (DeleteRange p), d)
      else case (remove_at p (dcLines d), remove_at p (dcBlockTypes d)) of
             (Some lines, Some types) \<Rightarrow>
               Some (applied p, record_op (NewDeleteOp (dcID d) (opAuthorID op) p (opTimestamp op))
                 (touch now (d\<lparr>dcLines := lines, dcBlockTypes := types\<rparr>)))
           | _ \<Rightarrow> None)"

definition applyFormatBlock :: "gotime \<Rightarrow> doc_op \<Rightarrow> document \<Rightarrow> (op_result \<times> document) option" where
  "applyFormatBlock now op d =
     (let p = opPosition op in
      if p < 0 \<or> p \<ge> int (length (dcBlockTypes d)) then Some (refused (FormatRange p), d)
      else case set_at p (opBlockType op) (dcBlockTypes d) of
             Some types \<Rightarrow>
               Some (applied p, record_op (NewFormatBlockOp (dcID d) (opAuthorID op) p (opBlockType op) (opTimestamp op))
                 (touch now (d\<lparr>dcBlockTypes := types\<rparr>)))
           | None \<Rightarrow> None)"

definition applyTitleChange :: "gotime \<Rightarrow> doc_op \<Rightarrow> document \<Rightarrow> (op_result \<times> document) option" where
  "applyTitleChange now op d = Some (applied 0, touch now (d\<lparr>dcTitle := opTitle op\<rparr>))"

definition ApplyOp :: "gotime \<Rightarrow> doc_op \<Rightarrow> document \<Rightarrow> (op_result \<times> document) option" where
  "ApplyOp now op d =
     (if opType op = OpInsert then applyInsert now op d
      else if opType op = OpDelete then applyDelete now op d
      else if opType op = OpFormatBlock then applyFormatBlock now op d
      else if opType op = OpTitleChange then applyTitleChange now op d
      else Some (refused (UnknownOp (opType op)), d))"

definition Doc_Insert :: "gotime \<Rightarrow> int64 \<Rightarrow> int \<Rightarrow> string \<Rightarrow> document \<Rightarrow> (op_result \<times> document) option" where
  "Doc_Insert now ts position text d =
     ApplyOp now (NewInsertOp (dcID d) (stringToID (dcNodeID d)) position text ts) d"

definition Doc_Delete :: "gotime \<Rightarrow> int64 \<Rightarrow> int \<Rightarrow> document \<Rightarrow> (op_result \<times> document) option" where
  "Doc_Delete now ts position d = ApplyOp now (NewDeleteOp (dcID d) (stringToID (dcNodeID d)) position ts) d"

definition Doc_FormatBlock :: "gotime \<Rightarrow> int64 \<Rightarrow> int \<Rightarrow> block_type \<Rightarrow> document \<Rightarrow> (op_result \<times> document) option" where
  "Doc_FormatBlock now ts position bt d =
     ApplyOp now (NewFormatBlockOp (dcID d) (stringToID (dcNodeID d)) position bt ts) d"

fun merge_ops :: "gotime \<Rightarrow> doc_op list \<Rightarrow> document \<Rightarrow> document option" where
  "merge_ops now [] d = Some d"
| "merge_ops now (op # ops) d =
     (case ApplyOp now op d of None \<Rightarrow> None | Some (_, d') \<Rightarrow> merge_ops now ops d')"

definition Doc_Merge :: "gotime \<Rightarrow> doc_op list \<Rightarrow> document \<Rightarrow> document option" where
  "Doc_Merge now ops d = map_option rebuildFromRGA (merge_ops now ops d)"

section \<open>Undo and redo\<close>

definition with_slices ::
  "(string list \<Rightarrow> string list option) \<Rightarrow> (block_type list \<Rightarrow> block_type list option) \<Rightarrow> int \<Rightarrow> document
     \<Rightarrow> (op_result \<times> document) option" where
  "with_slices f g p d =
     (case (f (dcLines d), g (dcBlockTypes d)) of
        (Some lines, Some types) \<Rightarrow> Some (applied p, d\<lparr>dcLines := lines, dcBlockTypes := types\<rparr>)
      | _ \<Rightarrow> None)"

definition take_out :: "int \<Rightarrow> document \<Rightarrow> (op_result \<times> document) option" where
  "take_out p d =
     (if p < int (length (dcLines d)) then with_slices (remove_at p) (remove_at p) p d else Some (skipped, d))"

definition put_back :: "int \<Rightarrow> string \<Rightarrow> document \<Rightarrow> (op_result \<times> document) option" where
  "put_back p v d =
     (if p \<le> int (length (dcLines d))
      then with_slices (\<lambda>s. insertSlice s p v) (\<lambda>s. insertSlice s p BlockParagraph) p d else Some (skipped, d))"

definition set_block :: "int \<Rightarrow> block_type \<Rightarrow> document \<Rightarrow> (op_result \<times> document) option" where
  "set_block p bt d =
     (if p < int (length (dcBlockTypes d)) then with_slices Some (set_at p bt) p d else Some (skipped, d))"

definition undo_op :: "doc_op \<Rightarrow> document \<Rightarrow> (op_result \<times> document) option" where
  "undo_op op d =
     (if opType op = OpInsert then take_out (opPosition op) d
      else if opType op = OpDelete then put_back (opPosition op) (opValue op) d
      else if opType op = OpFormatBlock then set_block (opPosition op) BlockParagraph d
      else if opType op = OpTitleChange then Some (applied 0, d\<lparr>dcTitle := []\<rparr>)
      else Some (skipped, d))"

definition redo_op :: "doc_op \<Rightarrow> document \<Rightarrow> (op_result \<times> document) option" where
  "redo_op op d =
     (if opType op = OpInsert then put_back (opPosition op) (opValue op) d
      else if opType op = OpDelete then take_out (opPosition op) d
      else if opType op = OpFormatBlock then set_block (opPosition op) (opBlockType op) d
      else if opType op = OpTitleChange then Some (applied 0, d\<lparr>dcTitle := opTitle op\<rparr>)
      else Some (skipped, d))"

definition Undo :: "gotime \<Rightarrow> document \<Rightarrow> (op_result \<times> document) option" where
  "Undo now d =
     (if dcHistoryIdx d = 0 then Some (refused NothingToUndo, d)
      else let i = dcHistoryIdx d - 1
           in if i < length (dcHistory d)
              then map_option (apsnd (touch now)) (undo_op (dcHistory d ! i) (d\<lparr>dcHistoryIdx := i\<rparr>))
              else None)"

definition Redo :: "gotime \<Rightarrow> document \<Rightarrow> (op_result \<times> document) option" where
  "Redo now d =
     (if dcHistoryIdx d \<ge> length (dcHistory d) then Some (refused NothingToRedo, d)
      else map_option (apsnd (touch now))
             (redo_op (dcHistory d ! dcHistoryIdx d) (d\<lparr>dcHistoryIdx := dcHistoryIdx d + 1\<rparr>)))"

definition CanUndo :: "document \<Rightarrow> bool" where "CanUndo d \<longleftrightarrow> dcHistoryIdx d > 0"
definition CanRedo :: "document \<Rightarrow> bool" where "CanRedo d \<longleftrightarrow> dcHistoryIdx d < length (dcHistory d)"

section \<open>The state on the wire\<close>

definition put_block :: "bytes \<Rightarrow> bytes" where
  "put_block bs = encodeUint32 (word_of_nat (length bs)) @ bs"

definition Doc_Marshal :: "document \<Rightarrow> bytes" where
  "Doc_Marshal d = put_block (str_bytes (dcID d)) @ put_block (str_bytes (dcTitle d)) @ put_block (RGA_Marshal (dcRga d))
     @ encodeInt64 (dcVersion d) @ put_block (dcBlockTypes d)
     @ encodeUint32 (word_of_nat (length (dcLines d))) @ concat (map (\<lambda>l. put_block (str_bytes l)) (dcLines d))"

datatype unmarshal_error = DataTooShort | IdTruncated | TitleLengthTruncated | TitleTruncated
  | RgaLengthTruncated | RgaTruncated | RgaError io_error

text \<open>A length and that many bytes: no room for the length, fewer bytes than announced, or the block and the rest.\<close>

datatype block_read = NoLength | Cut | Block bytes bytes

definition read_block :: "bytes \<Rightarrow> block_read" where
  "read_block data =
     (if length data < 4 then NoLength
      else let n = unat (decodeUint32 (take 4 data)); rest = drop 4 data
           in if length rest < n then Cut else Block (take n rest) (drop n rest))"

fun read_lines :: "nat \<Rightarrow> bytes \<Rightarrow> string list" where
  "read_lines 0 data = []"
| "read_lines (Suc n) data =
     (case read_block data of Block l rest \<Rightarrow> bytes_str l # read_lines n rest | _ \<Rightarrow> [])"

definition lines_only :: "document \<Rightarrow> document" where
  "lines_only d = d\<lparr>dcBlockTypes := [], dcLines := rebuildLinesFromRGARaw (dcRga d)\<rparr>"

definition known_block :: "byte \<Rightarrow> block_type" where
  "known_block b = (if unat b < 8 then b else BlockParagraph)"

definition unmarshal_lines :: "bytes \<Rightarrow> document \<Rightarrow> document" where
  "unmarshal_lines rest d =
     (if length rest < 4 then d\<lparr>dcLines := rebuildLinesFromRGARaw (dcRga d)\<rparr>
      else let lines = read_lines (unat (decodeUint32 (take 4 rest))) (drop 4 rest)
           in d\<lparr>dcLines := lines, dcBlockTypes := take (length lines)
                  (dcBlockTypes d @ replicate (length lines - length (dcBlockTypes d)) BlockParagraph)\<rparr>)"

definition unmarshal_rest :: "bytes \<Rightarrow> document \<Rightarrow> document" where
  "unmarshal_rest rest d =
     (if length rest < 8 then lines_only d
      else let d' = d\<lparr>dcVersion := decodeInt64 (take 8 rest)\<rparr>
           in case read_block (drop 8 rest) of
                Block bts rest' \<Rightarrow> unmarshal_lines rest' (d'\<lparr>dcBlockTypes := map known_block bts\<rparr>)
              | _ \<Rightarrow> lines_only d')"

definition Doc_Unmarshal :: "bytes \<Rightarrow> document \<Rightarrow> unmarshal_error option \<times> document" where
  "Doc_Unmarshal data d =
     (case read_block data of NoLength \<Rightarrow> (Some DataTooShort, d) | Cut \<Rightarrow> (Some IdTruncated, d)
      | Block i rest1 \<Rightarrow>
          let d1 = d\<lparr>dcID := bytes_str i\<rparr> in
          (case read_block rest1 of NoLength \<Rightarrow> (Some TitleLengthTruncated, d1) | Cut \<Rightarrow> (Some TitleTruncated, d1)
           | Block t rest2 \<Rightarrow>
               let d2 = d1\<lparr>dcTitle := bytes_str t\<rparr> in
               (case read_block rest2 of NoLength \<Rightarrow> (Some RgaLengthTruncated, d2) | Cut \<Rightarrow> (Some RgaTruncated, d2)
                | Block g rest3 \<Rightarrow>
                    (case RGA_Unmarshal (dcRga d2) g of
                       Inl e \<Rightarrow> (Some (RgaError e), d2)
                     | Inr r \<Rightarrow> (None, unmarshal_rest rest3 (d2\<lparr>dcRga := r\<rparr>))))))"

section \<open>No operation panics\<close>

text \<open>
  The invariant: one block type per line, and a history of edits at non-negative positions that the
  index stays inside.
\<close>

definition undoable :: "doc_op \<Rightarrow> bool" where
  "undoable op \<longleftrightarrow> 0 \<le> opPosition op \<and> opType op \<in> {OpInsert, OpDelete, OpFormatBlock}"

definition doc_ok :: "document \<Rightarrow> bool" where
  "doc_ok d \<longleftrightarrow> length (dcBlockTypes d) = length (dcLines d) \<and> dcHistoryIdx d \<le> length (dcHistory d)
     \<and> list_all undoable (dcHistory d)"

named_theorems doc_simps \<open>evaluation of edits inside the bounds\<close>

lemma insertSlice_eq [doc_simps]:
  "0 \<le> p \<Longrightarrow> p \<le> int (length s) \<Longrightarrow> insertSlice s p v = Some (take (nat p) s @ v # drop (nat p) s)"
proof (cases "p = int (length s)")
  case False
  assume "0 \<le> p" "p \<le> int (length s)"
  with False have "nat p < length s" "p < int (length s)" by linarith+
  then show ?thesis
    using \<open>0 \<le> p\<close> by (simp add: insertSlice_def Let_def take_Suc_conv_app_nth list_update_append)
qed (simp add: insertSlice_def)

lemma remove_at_eq [doc_simps]:
  "0 \<le> p \<Longrightarrow> p < int (length s) \<Longrightarrow> remove_at p s = Some (take (nat p) s @ drop (Suc (nat p)) s)"
  by (simp add: remove_at_def)

lemma set_at_eq [doc_simps]: "0 \<le> p \<Longrightarrow> p < int (length s) \<Longrightarrow> set_at p v s = Some (s[nat p := v])"
  by (simp add: set_at_def)

declare touch_def [doc_simps] record_op_def [doc_simps]


lemma doc_ok_New: "doc_ok (NewDocument i t n)"
  by (simp add: doc_ok_def NewDocument_def)

lemma doc_ok_rebuild: "doc_ok d \<Longrightarrow> doc_ok (rebuildFromRGA d)"
  by (simp add: doc_ok_def rebuildFromRGA_def Let_def)

text \<open>What an operation does to the visible document, and when it is refused.\<close>

type_synonym view = "(string \<times> block_type) list"

definition doc_view :: "document \<Rightarrow> view" where
  "doc_view d = zip (dcLines d) (dcBlockTypes d)"

definition insert_view :: "nat \<Rightarrow> string \<times> block_type \<Rightarrow> view \<Rightarrow> view" where
  "insert_view p x v = take p v @ x # drop p v"

definition remove_view :: "nat \<Rightarrow> view \<Rightarrow> view" where
  "remove_view p v = take p v @ drop (Suc p) v"

definition format_view :: "nat \<Rightarrow> block_type \<Rightarrow> view \<Rightarrow> view" where
  "format_view p bt v = v[p := (fst (v ! p), bt)]"

definition valid_op :: "doc_op \<Rightarrow> view \<Rightarrow> bool" where
  "valid_op op v \<longleftrightarrow> opType op = OpInsert \<and> 0 \<le> opPosition op \<and> opPosition op \<le> int (length v)
     \<or> opType op \<in> {OpDelete, OpFormatBlock} \<and> 0 \<le> opPosition op \<and> opPosition op < int (length v)
     \<or> opType op = OpTitleChange"

definition edit :: "view \<Rightarrow> doc_op \<Rightarrow> view" where
  "edit v op =
     (if \<not> valid_op op v then v
      else if opType op = OpInsert then insert_view (nat (opPosition op)) (opValue op, BlockParagraph) v
      else if opType op = OpDelete then remove_view (nat (opPosition op)) v
      else if opType op = OpFormatBlock then format_view (nat (opPosition op)) (opBlockType op) v
      else v)"

lemma length_view: "doc_ok d \<Longrightarrow> length (doc_view d) = length (dcLines d)"
  by (simp add: doc_ok_def doc_view_def)

lemma zip_insert: "length xs = length ys \<Longrightarrow>
    zip (take p xs @ x # drop p xs) (take p ys @ y # drop p ys) = insert_view p (x, y) (zip xs ys)"
  by (simp add: insert_view_def take_zip drop_zip)

lemma zip_remove: "length xs = length ys \<Longrightarrow>
    zip (take p xs @ drop (Suc p) xs) (take p ys @ drop (Suc p) ys) = remove_view p (zip xs ys)"
  by (simp add: remove_view_def take_zip drop_zip)

lemma zip_format: "length xs = length ys \<Longrightarrow> p < length xs \<Longrightarrow> zip xs (ys[p := y]) = format_view p y (zip xs ys)"
  by (auto simp: format_view_def intro!: nth_equalityI) (auto simp: nth_list_update)

lemma applyInsert_ok:
  assumes "doc_ok d" "opType op = OpInsert"
  obtains r d' where "applyInsert now op d = Some (r, d')" "doc_ok d'" "doc_view d' = edit (doc_view d) op"
    "rsApplied r \<longleftrightarrow> valid_op op (doc_view d)"
proof (cases "valid_op op (doc_view d)")
  case False
  then have "applyInsert now op d = Some (refused (InsertRange (opPosition op) (length (dcLines d))), d)"
    using assms length_view [OF assms(1)] by (auto simp: applyInsert_def Let_def valid_op_def)
  from that [OF this assms(1)] False show thesis by (simp add: edit_def refused_def)
next
  case True
  let ?p = "opPosition op"
  have p: "0 \<le> ?p" "?p \<le> int (length (dcLines d))" "length (dcBlockTypes d) = length (dcLines d)"
    using True assms length_view [OF assms(1)] by (auto simp: valid_op_def op_types doc_ok_def)
  have "applyInsert now op d = Some (applied ?p, record_op op (touch now
      (d\<lparr>dcLines := take (nat ?p) (dcLines d) @ opValue op # drop (nat ?p) (dcLines d),
         dcBlockTypes := take (nat ?p) (dcBlockTypes d) @ BlockParagraph # drop (nat ?p) (dcBlockTypes d),
         dcRga := pushLineToRGA ?p (opValue op) (dcNodeID d) (dcRga d)\<rparr>)))" (is "_ = Some (_, ?d)")
    using p by (simp add: applyInsert_def Let_def doc_simps)
  moreover have "doc_ok ?d" using assms p by (simp add: doc_ok_def doc_simps undoable_def)
  moreover have "doc_view ?d = edit (doc_view d) op"
    using assms(2) True p zip_insert [of "dcLines d" "dcBlockTypes d"] by (simp add: doc_view_def edit_def doc_simps)
  ultimately show thesis using True that by (simp add: applied_def)
qed


lemma applyDelete_ok:
  assumes "doc_ok d" "opType op = OpDelete"
  obtains r d' where "applyDelete now op d = Some (r, d')" "doc_ok d'" "doc_view d' = edit (doc_view d) op"
    "rsApplied r \<longleftrightarrow> valid_op op (doc_view d)"
proof (cases "valid_op op (doc_view d)")
  case False
  then have "applyDelete now op d = Some (refused (DeleteRange (opPosition op)), d)"
    using assms length_view [OF assms(1)] by (auto simp: applyDelete_def Let_def valid_op_def)
  from that [OF this assms(1)] False show thesis by (simp add: edit_def refused_def)
next
  case True
  let ?p = "opPosition op"
  have p: "0 \<le> ?p" "?p < int (length (dcLines d))" "length (dcBlockTypes d) = length (dcLines d)"
    using True assms length_view [OF assms(1)] by (auto simp: valid_op_def op_types doc_ok_def)
  have "applyDelete now op d = Some (applied ?p, record_op (NewDeleteOp (dcID d) (opAuthorID op) ?p (opTimestamp op))
      (touch now (d\<lparr>dcLines := take (nat ?p) (dcLines d) @ drop (Suc (nat ?p)) (dcLines d),
         dcBlockTypes := take (nat ?p) (dcBlockTypes d) @ drop (Suc (nat ?p)) (dcBlockTypes d)\<rparr>)))" (is "_ = Some (_, ?d)")
    using p by (simp add: applyDelete_def Let_def doc_simps)
  moreover have "doc_ok ?d" using assms p by (simp add: doc_ok_def doc_simps undoable_def NewDeleteOp_def)
  moreover have "doc_view ?d = edit (doc_view d) op"
    using assms(2) True p zip_remove [of "dcLines d" "dcBlockTypes d"]
    by (simp add: doc_view_def edit_def doc_simps op_types)
  ultimately show thesis using True that by (simp add: applied_def)
qed

lemma applyFormatBlock_ok:
  assumes "doc_ok d" "opType op = OpFormatBlock"
  obtains r d' where "applyFormatBlock now op d = Some (r, d')" "doc_ok d'" "doc_view d' = edit (doc_view d) op"
    "rsApplied r \<longleftrightarrow> valid_op op (doc_view d)"
proof (cases "valid_op op (doc_view d)")
  case False
  then have "applyFormatBlock now op d = Some (refused (FormatRange (opPosition op)), d)"
    using assms length_view [OF assms(1)] by (auto simp: applyFormatBlock_def Let_def valid_op_def doc_ok_def)
  from that [OF this assms(1)] False show thesis by (simp add: edit_def refused_def)
next
  case True
  let ?p = "opPosition op"
  have p: "0 \<le> ?p" "?p < int (length (dcLines d))" "length (dcBlockTypes d) = length (dcLines d)" "nat ?p < length (dcLines d)"
    using True assms length_view [OF assms(1)] by (auto simp: valid_op_def op_types doc_ok_def)
  have "applyFormatBlock now op d = Some (applied ?p,
      record_op (NewFormatBlockOp (dcID d) (opAuthorID op) ?p (opBlockType op) (opTimestamp op))
        (touch now (d\<lparr>dcBlockTypes := (dcBlockTypes d)[nat ?p := opBlockType op]\<rparr>)))" (is "_ = Some (_, ?d)")
    using p by (simp add: applyFormatBlock_def Let_def doc_simps)
  moreover have "doc_ok ?d" using assms p by (simp add: doc_ok_def doc_simps undoable_def NewFormatBlockOp_def)
  moreover have "doc_view ?d = edit (doc_view d) op"
    using assms(2) True p zip_format [of "dcLines d" "dcBlockTypes d" "nat ?p"]
    by (simp add: doc_view_def edit_def doc_simps op_types)
  ultimately show thesis using True that by (simp add: applied_def)
qed

lemma ApplyOp_dispatch:
  "opType op = OpInsert \<Longrightarrow> ApplyOp now op d = applyInsert now op d"
  "opType op = OpDelete \<Longrightarrow> ApplyOp now op d = applyDelete now op d"
  "opType op = OpFormatBlock \<Longrightarrow> ApplyOp now op d = applyFormatBlock now op d"
  by (simp_all add: ApplyOp_def op_types)

lemma ApplyOp_ok:
  assumes "doc_ok d"
  obtains r d' where "ApplyOp now op d = Some (r, d')" "doc_ok d'" "doc_view d' = edit (doc_view d) op"
    "rsApplied r \<longleftrightarrow> valid_op op (doc_view d)"
proof -
  consider "opType op = OpInsert" | "opType op = OpDelete" | "opType op = OpFormatBlock"
    | "opType op = OpTitleChange" | "opType op \<notin> {OpInsert, OpDelete, OpFormatBlock, OpTitleChange}" by auto
  then show thesis
  proof cases
    case 1 with applyInsert_ok [OF assms, of op now] that show ?thesis by (metis ApplyOp_dispatch(1))
  next
    case 2 with applyDelete_ok [OF assms, of op now] that show ?thesis by (metis ApplyOp_dispatch(2))
  next
    case 3 with applyFormatBlock_ok [OF assms, of op now] that show ?thesis by (metis ApplyOp_dispatch(3))
  next
    case 4
    then have "ApplyOp now op d = Some (applied 0, touch now (d\<lparr>dcTitle := opTitle op\<rparr>))"
      by (simp add: ApplyOp_def applyTitleChange_def op_types)
    from that [OF this] 4 assms show ?thesis
      by (simp add: doc_ok_def doc_view_def edit_def valid_op_def applied_def doc_simps op_types)
  next
    case 5
    then have "ApplyOp now op d = Some (refused (UnknownOp (opType op)), d)" by (simp add: ApplyOp_def)
    from that [OF this assms] 5 show ?thesis by (simp add: edit_def valid_op_def refused_def)
  qed
qed


lemma with_slices_eq:
  "f (dcLines d) = Some ls \<Longrightarrow> g (dcBlockTypes d) = Some ts \<Longrightarrow>
     with_slices f g p d = Some (applied p, d\<lparr>dcLines := ls, dcBlockTypes := ts\<rparr>)"
  by (simp add: with_slices_def)

text \<open>The three moves of undo and redo, on the visible document.\<close>

definition moves :: "document \<Rightarrow> view \<Rightarrow> (op_result \<times> document) option \<Rightarrow> bool" where
  "moves d v out \<longleftrightarrow> (\<exists>r d'. out = Some (r, d') \<and> doc_ok d' \<and> doc_view d' = v
     \<and> dcHistory d' = dcHistory d \<and> dcHistoryIdx d' = dcHistoryIdx d)"

lemma take_out_moves:
  assumes "doc_ok d" "0 \<le> p"
  shows "moves d (if p < int (length (doc_view d)) then remove_view (nat p) (doc_view d) else doc_view d) (take_out p d)"
  using assms length_view [OF assms(1)] zip_remove [of "dcLines d" "dcBlockTypes d" "nat p"]
  by (auto simp: moves_def take_out_def with_slices_def doc_simps doc_ok_def doc_view_def)

lemma put_back_moves:
  assumes "doc_ok d" "0 \<le> p"
  shows "moves d (if p \<le> int (length (doc_view d)) then insert_view (nat p) (v, BlockParagraph) (doc_view d) else doc_view d)
    (put_back p v d)"
  using assms length_view [OF assms(1)] zip_insert [of "dcLines d" "dcBlockTypes d" "nat p"]
  by (auto simp: moves_def put_back_def with_slices_def doc_simps doc_ok_def doc_view_def)

lemma set_block_moves:
  assumes "doc_ok d" "0 \<le> p"
  shows "moves d (if p < int (length (doc_view d)) then format_view (nat p) bt (doc_view d) else doc_view d) (set_block p bt d)"
  using assms length_view [OF assms(1)] zip_format [of "dcLines d" "dcBlockTypes d" "nat p"]
  by (auto simp: moves_def set_block_def with_slices_def doc_simps doc_ok_def doc_view_def)

lemma undo_op_dispatch:
  "opType op = OpInsert \<Longrightarrow> undo_op op d = take_out (opPosition op) d"
  "opType op = OpDelete \<Longrightarrow> undo_op op d = put_back (opPosition op) (opValue op) d"
  "opType op = OpFormatBlock \<Longrightarrow> undo_op op d = set_block (opPosition op) BlockParagraph d"
  by (simp_all add: undo_op_def op_types)

lemma redo_op_dispatch:
  "opType op = OpInsert \<Longrightarrow> redo_op op d = put_back (opPosition op) (opValue op) d"
  "opType op = OpDelete \<Longrightarrow> redo_op op d = take_out (opPosition op) d"
  "opType op = OpFormatBlock \<Longrightarrow> redo_op op d = set_block (opPosition op) (opBlockType op) d"
  by (simp_all add: redo_op_def op_types)

lemma undo_op_moves:
  assumes "doc_ok d" "undoable op"
  shows "\<exists>v. moves d v (undo_op op d)"
proof -
  have p: "0 \<le> opPosition op" and "opType op \<in> {OpInsert, OpDelete, OpFormatBlock}"
    using assms(2) by (simp_all add: undoable_def)
  then consider "opType op = OpInsert" | "opType op = OpDelete" | "opType op = OpFormatBlock" by auto
  then show ?thesis
    by cases (metis undo_op_dispatch(1) take_out_moves [OF assms(1) p],
        metis undo_op_dispatch(2) put_back_moves [OF assms(1) p], metis undo_op_dispatch(3) set_block_moves [OF assms(1) p])
qed

lemma redo_op_moves:
  assumes "doc_ok d" "undoable op"
  shows "\<exists>v. moves d v (redo_op op d)"
proof -
  have p: "0 \<le> opPosition op" and "opType op \<in> {OpInsert, OpDelete, OpFormatBlock}"
    using assms(2) by (simp_all add: undoable_def)
  then consider "opType op = OpInsert" | "opType op = OpDelete" | "opType op = OpFormatBlock" by auto
  then show ?thesis
    by cases (metis redo_op_dispatch(1) put_back_moves [OF assms(1) p],
        metis redo_op_dispatch(2) take_out_moves [OF assms(1) p], metis redo_op_dispatch(3) set_block_moves [OF assms(1) p])
qed

lemma doc_ok_idx: "doc_ok d \<Longrightarrow> i \<le> length (dcHistory d) \<Longrightarrow> doc_ok (d\<lparr>dcHistoryIdx := i\<rparr>)"
  by (simp add: doc_ok_def)

lemma doc_ok_touch [simp]: "doc_ok (touch now d) = doc_ok d"
  by (simp add: doc_ok_def doc_simps)

lemma Undo_ok:
  assumes "doc_ok d"
  shows "\<exists>r d'. Undo now d = Some (r, d') \<and> doc_ok d'"
proof (cases "dcHistoryIdx d = 0")
  case False
  let ?i = "dcHistoryIdx d - 1"
  have i: "?i < length (dcHistory d)" using assms False by (auto simp: doc_ok_def)
  have ok: "doc_ok (d\<lparr>dcHistoryIdx := ?i\<rparr>)" using assms i by (auto intro: doc_ok_idx)
  have "undoable (dcHistory d ! ?i)" using assms i by (auto simp: doc_ok_def list_all_length)
  from undo_op_moves [OF ok this] False i show ?thesis by (fastforce simp: Undo_def moves_def Let_def)
qed (use assms in \<open>simp add: Undo_def\<close>)

lemma Redo_ok:
  assumes "doc_ok d"
  shows "\<exists>r d'. Redo now d = Some (r, d') \<and> doc_ok d'"
proof (cases "dcHistoryIdx d \<ge> length (dcHistory d)")
  case False
  have ok: "doc_ok (d\<lparr>dcHistoryIdx := dcHistoryIdx d + 1\<rparr>)" using assms False by (auto intro: doc_ok_idx)
  have "undoable (dcHistory d ! dcHistoryIdx d)" using assms False by (auto simp: doc_ok_def list_all_length)
  from redo_op_moves [OF ok this] False show ?thesis by (fastforce simp: Redo_def moves_def Let_def)
qed (use assms in \<open>simp add: Redo_def\<close>)

lemma merge_ops_ok:
  assumes "doc_ok d"
  shows "\<exists>d'. merge_ops now ops d = Some d' \<and> doc_ok d' \<and> doc_view d' = foldl edit (doc_view d) ops"
  using assms
proof (induction ops arbitrary: d)
  case (Cons op ops)
  obtain r d1 where "ApplyOp now op d = Some (r, d1)" "doc_ok d1" "doc_view d1 = edit (doc_view d) op"
    by (rule ApplyOp_ok [OF Cons.prems, of now op])
  with Cons.IH [of d1] show ?case by auto
qed simp

section \<open>Call sequences\<close>

datatype doc_call = CApply doc_op | CMerge "doc_op list" | CUndo | CRedo

fun doc_step :: "document \<Rightarrow> gotime \<times> doc_call \<Rightarrow> document option" where
  "doc_step d (now, CApply op) = map_option snd (ApplyOp now op d)"
| "doc_step d (now, CMerge ops) = Doc_Merge now ops d"
| "doc_step d (now, CUndo) = map_option snd (Undo now d)"
| "doc_step d (now, CRedo) = map_option snd (Redo now d)"

fun doc_run :: "document \<Rightarrow> (gotime \<times> doc_call) list \<Rightarrow> document option" where
  "doc_run d [] = Some d"
| "doc_run d (c # cs) = (case doc_step d c of None \<Rightarrow> None | Some d' \<Rightarrow> doc_run d' cs)"

lemma doc_step_ok: "doc_ok d \<Longrightarrow> \<exists>d'. doc_step d c = Some d' \<and> doc_ok d'"
proof -
  assume ok: "doc_ok d"
  obtain now k where c: "c = (now, k)" by (cases c)
  show ?thesis
  proof (cases k)
    case (CApply op)
    obtain r d' where "ApplyOp now op d = Some (r, d')" "doc_ok d'" by (rule ApplyOp_ok [OF ok, of now op])
    with c CApply show ?thesis by simp
  next
    case (CMerge ops)
    from merge_ops_ok [OF ok, of now ops] c CMerge show ?thesis by (auto simp: Doc_Merge_def doc_ok_rebuild)
  next
    case CUndo
    from Undo_ok [OF ok, of now] c CUndo show ?thesis by auto
  next
    case CRedo
    from Redo_ok [OF ok, of now] c CRedo show ?thesis by auto
  qed
qed

lemma doc_run_ok: "doc_ok d \<Longrightarrow> \<exists>d'. doc_run d cs = Some d' \<and> doc_ok d'"
proof (induction cs arbitrary: d)
  case (Cons c cs)
  from doc_step_ok [OF Cons.prems, of c] obtain d1 where "doc_step d c = Some d1" "doc_ok d1" by blast
  with Cons.IH [of d1] show ?case by simp
qed simp

text \<open>
  A document never panics. Every sequence of operations, merges, undos and redos on a new document
  returns, whatever positions and types the operations carry, and leaves one block type per line and
  the undo index inside the history.
\<close>

theorem doc_never_panics:
  "\<exists>d. doc_run (NewDocument i title nodeID) calls = Some d \<and> length (dcBlockTypes d) = length (dcLines d)
     \<and> dcHistoryIdx d \<le> length (dcHistory d)"
  using doc_run_ok [OF doc_ok_New [of i title nodeID], of calls] by (auto simp: doc_ok_def)

interpretation line_editor: refinement "\<lambda>d (now, op). snd (the (ApplyOp now op d))" doc_ok doc_view "\<lambda>v (now, op). edit v op"
proof
  fix d and c :: "gotime \<times> doc_op"
  assume ok: "doc_ok d"
  obtain now op where c: "c = (now, op)" by (cases c)
  obtain r d' where "ApplyOp now op d = Some (r, d')" "doc_ok d'" "doc_view d' = edit (doc_view d) op"
    by (rule ApplyOp_ok [OF ok, of now op])
  then show "doc_ok ((\<lambda>(now, op). snd (the (ApplyOp now op d))) c)"
    "doc_view ((\<lambda>(now, op). snd (the (ApplyOp now op d))) c) = (\<lambda>(now, op). edit (doc_view d) op) c"
    by (simp_all add: c)
qed

lemma doc_run_apply:
  "doc_ok d \<Longrightarrow> doc_run d (map (apsnd CApply) ops) = Some (foldl (\<lambda>d (now, op). snd (the (ApplyOp now op d))) d ops)"
proof (induction ops arbitrary: d)
  case (Cons c ops)
  obtain now op where c: "c = (now, op)" by (cases c)
  obtain r d1 where "ApplyOp now op d = Some (r, d1)" "doc_ok d1" by (rule ApplyOp_ok [OF Cons.prems, of now op])
  with Cons.IH [of d1] show ?case by (simp add: c)
qed simp

text \<open>
  C16: the document refines a line editor. Applying operations to a new document returns, and the lines
  with their block types are those of the specification \<open>edit\<close>: an insert puts a paragraph at its
  position, a delete removes a line, a format changes one type, and an operation out of range or of
  unknown type changes nothing.
\<close>

theorem doc_refines_line_editor:
  "\<exists>d. doc_run (NewDocument i title nodeID) (map (apsnd CApply) ops) = Some d
     \<and> zip (dcLines d) (dcBlockTypes d) = foldl (\<lambda>v (now, op). edit v op) [] ops"
  using doc_run_apply [OF doc_ok_New] line_editor.run_refines [OF doc_ok_New, of i title nodeID ops]
  by (simp add: doc_view_def NewDocument_def)

section \<open>Undo and redo\<close>

definition recorded :: "document \<Rightarrow> doc_op \<Rightarrow> doc_op" where
  "recorded d op =
     (if opType op = OpInsert then op
      else if opType op = OpDelete then NewDeleteOp (dcID d) (opAuthorID op) (opPosition op) (opTimestamp op)
      else NewFormatBlockOp (dcID d) (opAuthorID op) (opPosition op) (opBlockType op) (opTimestamp op))"

lemma recorded_simps:
  "opPosition (recorded d op) = opPosition op"
  "opType op \<in> {OpInsert, OpDelete, OpFormatBlock} \<Longrightarrow> opType (recorded d op) = opType op"
  "opType op = OpInsert \<Longrightarrow> opValue (recorded d op) = opValue op"
  "opType op = OpDelete \<Longrightarrow> opValue (recorded d op) = []"
  "opType op = OpFormatBlock \<Longrightarrow> opBlockType (recorded d op) = opBlockType op"
  by (auto simp: recorded_def NewDeleteOp_def NewFormatBlockOp_def op_types)

lemma ApplyOp_history:
  assumes "ApplyOp now op d = Some (r, d1)" "rsApplied r" "opType op \<noteq> OpTitleChange"
  shows "dcHistory d1 = dcHistory d @ [recorded d op] \<and> dcHistoryIdx d1 = Suc (length (dcHistory d))
    \<and> opType op \<in> {OpInsert, OpDelete, OpFormatBlock}"
proof -
  have "opType op \<in> {OpInsert, OpDelete, OpFormatBlock}"
    using assms by (auto simp: ApplyOp_def refused_def split: if_splits)
  then consider "opType op = OpInsert" | "opType op = OpDelete" | "opType op = OpFormatBlock" by auto
  then show ?thesis
  proof cases
    case 1
    with assms show ?thesis
      by (auto simp: ApplyOp_dispatch applyInsert_def Let_def refused_def recorded_def doc_simps split: if_splits option.splits)
  next
    case 2
    with assms show ?thesis
      by (auto simp: ApplyOp_dispatch applyDelete_def Let_def refused_def recorded_def doc_simps op_types split: if_splits option.splits)
  next
    case 3
    with assms show ?thesis
      by (auto simp: ApplyOp_dispatch applyFormatBlock_def Let_def refused_def recorded_def doc_simps op_types split: if_splits option.splits)
  qed
qed

lemma touch_simps [simp]: "dcHistory (touch now d) = dcHistory d" "dcHistoryIdx (touch now d) = dcHistoryIdx d"
  by (simp_all add: touch_def)

lemma doc_view_touch [simp]: "doc_view (touch now d) = doc_view d" "doc_view (d\<lparr>dcHistoryIdx := i\<rparr>) = doc_view d"
  by (simp_all add: doc_view_def doc_simps)

lemma format_twice: "format_view p a (format_view p b v) = format_view p a v"
  by (cases "p < length v") (simp_all add: format_view_def list_update_beyond)

lemma view_moves:
  "p \<le> length v \<Longrightarrow> remove_view p (insert_view p x v) = v"
  "p < length v \<Longrightarrow> insert_view p x (remove_view p v) = v[p := x]"
  "p \<le> length v \<Longrightarrow> length (insert_view p x v) = Suc (length v)"
  "p < length v \<Longrightarrow> length (remove_view p v) = length v - 1"
  "length (format_view p b v) = length v"
  by (auto simp: remove_view_def insert_view_def format_view_def min_def upd_conv_take_nth_drop split: nat_diff_split)


text \<open>An undo right after an applied operation works on the state before the history index moves back.\<close>

lemma Undo_after:
  assumes "doc_ok d" "ApplyOp now op d = Some (r, d1)" "rsApplied r" "opType op \<noteq> OpTitleChange"
  obtains d0 where "doc_ok d0" "doc_view d0 = edit (doc_view d) op" "dcHistory d0 = dcHistory d @ [recorded d op]"
    "dcHistoryIdx d0 = length (dcHistory d)" "\<forall>t. Undo t d1 = map_option (apsnd (touch t)) (undo_op (recorded d op) d0)"
    "undoable (recorded d op)" "valid_op op (doc_view d)" "opType op \<in> {OpInsert, OpDelete, OpFormatBlock}"
proof -
  note hist = ApplyOp_history [OF assms(2-4)]
  let ?d0 = "d1\<lparr>dcHistoryIdx := length (dcHistory d)\<rparr>"
  have d1: "doc_ok d1" "doc_view d1 = edit (doc_view d) op" and valid: "valid_op op (doc_view d)"
    using ApplyOp_ok [OF assms(1), of now op] assms(2,3) by auto
  then have "doc_ok ?d0" "undoable (recorded d op)" using hist by (auto simp: doc_ok_def)
  moreover have "Undo t d1 = map_option (apsnd (touch t)) (undo_op (recorded d op) ?d0)" for t
    using hist by (simp add: Undo_def Let_def nth_append)
  ultimately show thesis using that [of ?d0] d1 hist valid by simp
qed

lemma Redo_after:
  assumes "dcHistory d0 = h @ [op]" "dcHistoryIdx d0 = length h"
  shows "Redo t d0 = map_option (apsnd (touch t)) (redo_op op (d0\<lparr>dcHistoryIdx := Suc (length h)\<rparr>))"
  using assms by (simp add: Redo_def)

lemma undone_view:
  assumes "doc_ok d" "ApplyOp now op d = Some (r, d1)" "rsApplied r" "opType op \<noteq> OpTitleChange"
  obtains r' d2 where "Undo t d1 = Some (r', d2)" "doc_ok d2"
    "dcHistory d2 = dcHistory d @ [recorded d op]" "dcHistoryIdx d2 = length (dcHistory d)"
    "valid_op op (doc_view d)" "opType op \<in> {OpInsert, OpDelete, OpFormatBlock}"
    "doc_view d2 =
       (let v = doc_view d; p = nat (opPosition op)
        in if opType op = OpInsert then v
           else if opType op = OpDelete then v[p := ([], BlockParagraph)] else format_view p BlockParagraph v)"
proof -
  obtain d0 where d0: "doc_ok d0" "doc_view d0 = edit (doc_view d) op" "dcHistory d0 = dcHistory d @ [recorded d op]"
    "dcHistoryIdx d0 = length (dcHistory d)" and un: "\<forall>t. Undo t d1 = map_option (apsnd (touch t)) (undo_op (recorded d op) d0)"
    and op: "undoable (recorded d op)" "valid_op op (doc_view d)" "opType op \<in> {OpInsert, OpDelete, OpFormatBlock}"
    by (rule Undo_after [OF assms])
  let ?p = "opPosition op" and ?v = "doc_view d"
  have p: "0 \<le> ?p" using op(1) by (simp add: undoable_def recorded_simps)
  note rec = recorded_simps(1) [of d op] recorded_simps(2) [OF op(3), of d]
  from op(3) consider "opType op = OpInsert" | "opType op = OpDelete" | "opType op = OpFormatBlock" by auto
  then have "moves d0 (let v = ?v; p = nat ?p in if opType op = OpInsert then v
      else if opType op = OpDelete then v[p := ([], BlockParagraph)] else format_view p BlockParagraph v) (undo_op (recorded d op) d0)"
  proof cases
    case 1
    with op have le: "nat ?p \<le> length ?v" by (auto simp: valid_op_def op_types)
    then have "doc_view d0 = insert_view (nat ?p) (opValue op, BlockParagraph) ?v" using d0(2) 1 op(2) by (simp add: edit_def)
    with 1 rec le p take_out_moves [OF d0(1) p] show ?thesis by (simp add: undo_op_dispatch view_moves split: if_splits)
  next
    case 2
    with op have le: "nat ?p < length ?v" by (auto simp: valid_op_def op_types)
    then have "doc_view d0 = remove_view (nat ?p) ?v" using d0(2) 2 op(2) by (simp add: edit_def op_types)
    with 2 rec le p put_back_moves [OF d0(1) p, of "[]"] recorded_simps(4) [of op d] show ?thesis
      by (simp add: undo_op_dispatch view_moves op_types split: if_splits)
  next
    case 3
    with op have le: "nat ?p < length ?v" by (auto simp: valid_op_def op_types)
    then have "doc_view d0 = format_view (nat ?p) (opBlockType op) ?v" using d0(2) 3 op(2) by (simp add: edit_def op_types)
    with 3 rec le p set_block_moves [OF d0(1) p, of BlockParagraph] show ?thesis
      by (simp add: undo_op_dispatch view_moves format_twice op_types split: if_splits)
  qed
  then obtain r' d' where "undo_op (recorded d op) d0 = Some (r', d')" "doc_ok d'" "dcHistory d' = dcHistory d0"
    "dcHistoryIdx d' = dcHistoryIdx d0" "doc_view d' = (let v = ?v; p = nat ?p in if opType op = OpInsert then v
      else if opType op = OpDelete then v[p := ([], BlockParagraph)] else format_view p BlockParagraph v)"
    unfolding moves_def by blast
  with that [of r' "touch t d'"] un d0 op show thesis by simp
qed


text \<open>
  What undo restores. Right after an applied edit, \<open>Undo\<close> returns and an inserted line is gone again;
  but a deleted line comes back empty and as a paragraph, because the recorded operation does not keep
  the text, and a reformatted line becomes a paragraph whatever it was before.
\<close>

theorem doc_undo_exact:
  assumes "doc_ok d" "ApplyOp now op d = Some (r, d1)" "rsApplied r" "opType op \<noteq> OpTitleChange"
  shows "\<exists>r' d2. Undo t d1 = Some (r', d2) \<and> doc_view d2 =
    (let v = doc_view d; p = nat (opPosition op)
     in if opType op = OpInsert then v
        else if opType op = OpDelete then v[p := ([], BlockParagraph)] else v[p := (fst (v ! p), BlockParagraph)])"
  using undone_view [OF assms, of t] by (metis format_view_def)

text \<open>
  Redo takes an undo back. After any applied edit of the lines, an undo followed by a redo returns to
  the document as the edit left it.
\<close>

theorem doc_undo_redo:
  assumes "doc_ok d" "ApplyOp now op d = Some (r, d1)" "rsApplied r" "opType op \<noteq> OpTitleChange"
  shows "\<exists>r2 d2 r3 d3. Undo t d1 = Some (r2, d2) \<and> Redo u d2 = Some (r3, d3) \<and> doc_view d3 = doc_view d1
    \<and> dcHistoryIdx d3 = dcHistoryIdx d1 \<and> dcHistory d3 = dcHistory d1"
proof -
  obtain r2 d2 where un: "Undo t d1 = Some (r2, d2)" "doc_ok d2"
    and hist: "dcHistory d2 = dcHistory d @ [recorded d op]" "dcHistoryIdx d2 = length (dcHistory d)"
    and op: "valid_op op (doc_view d)" "opType op \<in> {OpInsert, OpDelete, OpFormatBlock}"
    and v2: "doc_view d2 = (let v = doc_view d; p = nat (opPosition op)
        in if opType op = OpInsert then v
           else if opType op = OpDelete then v[p := ([], BlockParagraph)] else format_view p BlockParagraph v)"
    by (rule undone_view [OF assms, of t])
  note hist1 = ApplyOp_history [OF assms(2-4)]
  let ?p = "opPosition op" and ?v = "doc_view d" and ?d = "d2\<lparr>dcHistoryIdx := Suc (length (dcHistory d))\<rparr>"
  have ok: "doc_ok ?d" using un(2) hist by (auto simp: doc_ok_def)
  have p: "0 \<le> ?p" using op by (auto simp: valid_op_def op_types)
  have v1: "doc_view d1 = edit ?v op" using ApplyOp_ok [OF assms(1), of now op] assms(2) by auto
  note rec = recorded_simps(1) [of d op] recorded_simps(2) [OF op(2), of d]
  from op(2) consider "opType op = OpInsert" | "opType op = OpDelete" | "opType op = OpFormatBlock" by auto
  then have "moves ?d (edit ?v op) (redo_op (recorded d op) ?d)"
  proof cases
    case 1
    with op have "?p \<le> int (length ?v)" by (auto simp: valid_op_def op_types)
    with 1 rec op v2 put_back_moves [OF ok p, of "opValue op"] recorded_simps(3) [of op d] show ?thesis
      by (simp add: redo_op_dispatch edit_def)
  next
    case 2
    with op have lt: "?p < int (length ?v)" by (auto simp: valid_op_def op_types)
    have "remove_view n (v[n := x]) = remove_view n v" for n x and v :: view by (simp add: remove_view_def)
    with 2 lt rec op v2 take_out_moves [OF ok p] show ?thesis by (simp add: redo_op_dispatch edit_def op_types)
  next
    case 3
    with op have lt: "?p < int (length ?v)" by (auto simp: valid_op_def op_types)
    with 3 rec op v2 set_block_moves [OF ok p, of "opBlockType op"] recorded_simps(5) [of op d] show ?thesis
      by (simp add: redo_op_dispatch edit_def op_types format_twice view_moves)
  qed
  then show ?thesis using un hist hist1 v1 Redo_after [OF hist, of u] by (auto simp: moves_def)
qed

definition demo_doc :: document where
  "demo_doc = the (doc_run (NewDocument ''d'' ''t'' ''n'') [(1, CApply (NewInsertOp ''d'' (replicate 32 0) 0 ''one'' 1))])"

lemma demo_doc_ok: "doc_ok demo_doc"
  using doc_run_ok [OF doc_ok_New, of "''d''" "''t''" "''n''" "[(1, CApply (NewInsertOp ''d'' (replicate 32 0) 0 ''one'' 1))]"]
  by (auto simp: demo_doc_def)

definition demo_deleted :: document where
  "demo_deleted = snd (the (ApplyOp 2 (NewDeleteOp ''d'' (replicate 32 0) 0 2) demo_doc))"

lemma demo_doc_delete:
  "\<exists>r. ApplyOp 2 (NewDeleteOp ''d'' (replicate 32 0) 0 2) demo_doc = Some (r, demo_deleted) \<and> rsApplied r"
proof -
  have "map_option (rsApplied \<circ> fst) (ApplyOp 2 (NewDeleteOp ''d'' (replicate 32 0) 0 2) demo_doc) = Some True" by code_simp
  then show ?thesis by (auto simp: demo_deleted_def comp_def)
qed

theorem doc_undo_exact_witness:
  "\<exists>r' d2. Undo 3 demo_deleted = Some (r', d2) \<and> doc_view d2 = [([], BlockParagraph)]"
proof -
  obtain r where a: "ApplyOp 2 (NewDeleteOp ''d'' (replicate 32 0) 0 2) demo_doc = Some (r, demo_deleted)" "rsApplied r"
    using demo_doc_delete by blast
  have "doc_view demo_doc = [(''one'', 0)]" by code_simp
  with doc_undo_exact [OF demo_doc_ok a, of 3] show ?thesis by (auto simp: NewDeleteOp_def op_types)
qed

theorem doc_undo_redo_witness:
  "\<exists>r2 d2 r3 d3. Undo 3 demo_deleted = Some (r2, d2) \<and> Redo 4 d2 = Some (r3, d3) \<and> doc_view d3 = []"
proof -
  obtain r where a: "ApplyOp 2 (NewDeleteOp ''d'' (replicate 32 0) 0 2) demo_doc = Some (r, demo_deleted)" "rsApplied r"
    using demo_doc_delete by blast
  have v: "doc_view demo_deleted = []" by code_simp
  have "opType (NewDeleteOp ''d'' (replicate 32 0) 0 2) \<noteq> OpTitleChange" by (simp add: NewDeleteOp_def op_types)
  from doc_undo_redo [OF demo_doc_ok a this, of 3 4] v show ?thesis by metis
qed

text \<open>
  An undone edit is undone again. A new edit after an undo is appended behind the undone operation
  instead of replacing it: three lines are inserted, the last insert is undone, another line is added,
  and the two undos that follow remove the new line and then, for the operation that was undone before,
  the line \<open>x\<close> of the first insert.
\<close>

theorem doc_undone_edit_undone_again:
  "map_option dcLines (doc_run (NewDocument ''d'' ''t'' ''n'')
     [(1, CApply (NewInsertOp ''d'' [] 0 ''x'' 1)), (2, CApply (NewInsertOp ''d'' [] 1 ''y'' 2)),
      (3, CApply (NewInsertOp ''d'' [] 0 ''a'' 3)), (4, CUndo), (5, CApply (NewInsertOp ''d'' [] 2 ''b'' 5)),
      (6, CUndo), (7, CUndo)]) = Some [''y'']"
  by code_simp

section \<open>Merging\<close>

text \<open>
  Merging brings deleted lines back. A delete changes the visible lines only, and \<open>Merge\<close> rebuilds them
  from the replicated array, so after it a document shows what it would show had the delete never
  happened.
\<close>

theorem doc_merge_forgets_deletes:
  assumes "ApplyOp now op d = Some (r, d1)" "opType op = OpDelete"
  shows "map_option dcLines (Doc_Merge t [] d1) = map_option dcLines (Doc_Merge t [] d)"
  using assms
  by (auto simp: ApplyOp_dispatch applyDelete_def Doc_Merge_def rebuildFromRGA_def Let_def doc_simps split: if_splits option.splits)

theorem doc_merge_forgets_deletes_witness: "map_option dcLines (Doc_Merge 3 [] demo_deleted) = Some [''one'']"
proof -
  obtain r where a: "ApplyOp 2 (NewDeleteOp ''d'' (replicate 32 0) 0 2) demo_doc = Some (r, demo_deleted)"
    using demo_doc_delete by blast
  have "map_option dcLines (Doc_Merge 3 [] demo_doc) = Some [''one'']" by code_simp
  with doc_merge_forgets_deletes [OF a, of 3] show ?thesis by (simp add: NewDeleteOp_def)
qed

text \<open>
  Merging joins short lines. The line break is pushed only when the line number is below the number of
  characters, so two lines of one character are one line after a merge of nothing.
\<close>

theorem doc_merge_joins_lines:
  "map_option dcLines (doc_run (NewDocument ''d'' ''t'' ''n'')
     [(1, CApply (NewInsertOp ''d'' [] 0 ''a'' 1)), (2, CApply (NewInsertOp ''d'' [] 1 ''b'' 2)), (3, CMerge [])]) =
   Some [''ab'']"
  by code_simp

text \<open>
  A shortened state makes the next delete panic. \<open>Unmarshal\<close> accepts a state that ends after the
  replicated array and then has lines without block types, on which removing the only line slices out
  of range.
\<close>

theorem doc_short_state_panics:
  "let d = Doc_Unmarshal (take (length (Doc_Marshal demo_doc) - 24) (Doc_Marshal demo_doc)) (NewDocument ''d'' ''t'' ''m'')
   in fst d = None \<and> dcLines (snd d) = [''one''] \<and> Doc_Delete 5 5 0 (snd d) = None"
  by code_simp

end
