(* ===== verification/Docs_Sync.thy ===== *)
theory Docs_Sync
  imports Docs_Document
begin

text \<open>
  What a document shares with other replicas: its state on the wire (\<open>Marshal\<close> and \<open>Unmarshal\<close> of
  \<open>pkg/services/docs/document.go\<close>) and the characters it pushes into the replicated array.
\<close>

section \<open>State round trip\<close>

lemma read_block_put [wire_simps]: "length bs < 2 ^ 32 \<Longrightarrow> read_block (put_block bs @ rest) = Block bs rest"
  by (simp add: read_block_def put_block_def Let_def wire_simps unat_cast)

lemma read_lines_put:
  "\<forall>l\<in>set ls. length l < 2 ^ 32 \<Longrightarrow> read_lines (length ls) (concat (map (\<lambda>l. put_block (str_bytes l)) ls)) = ls"
  by (induction ls) (simp_all add: wire_simps)

lemma known_blocks: "list_all (\<lambda>b. unat b < 8) bts \<Longrightarrow> map known_block bts = bts"
  by (induction bts) (simp_all add: known_block_def)

definition sendable_doc :: "document \<Rightarrow> bool" where
  "sendable_doc d \<longleftrightarrow> length (dcID d) < 2 ^ 32 \<and> length (dcTitle d) < 2 ^ 32 \<and> length (RGA_Marshal (dcRga d)) < 2 ^ 32
     \<and> list_all wire_node (rgaNodes (dcRga d)) \<and> length (rgaNodes (dcRga d)) < 65536
     \<and> list_all (\<lambda>b. unat b < 8) (dcBlockTypes d) \<and> length (dcLines d) < 2 ^ 32
     \<and> list_all (\<lambda>l. length l < 2 ^ 32) (dcLines d)"

lemma rga_through_wire:
  assumes "list_all wire_node (rgaNodes r)" "length (rgaNodes r) < 65536"
  obtains r' where "RGA_Unmarshal r0 (RGA_Marshal r) = Inr r'" "rgaNodes r' = rgaNodes r"
proof -
  have "relink (nID (rgaHead r0)) (rgaNodes r) = rgaNodes r"
    using assms(1) by (intro relink_id) (auto simp: list_all_iff wire_node_def)
  then show thesis
    using that by (simp add: RGA_Unmarshal_def RGA_Marshal_def decodeRGAList_encode [OF assms])
qed

lemma doc_unmarshal_marshal:
  assumes "doc_ok d" "sendable_doc d"
  shows "\<exists>d'. Doc_Unmarshal (Doc_Marshal d) d0 = (None, d') \<and> dcID d' = dcID d \<and> dcTitle d' = dcTitle d
    \<and> dcVersion d' = dcVersion d \<and> dcLines d' = dcLines d \<and> dcBlockTypes d' = dcBlockTypes d
    \<and> rgaNodes (dcRga d') = rgaNodes (dcRga d) \<and> dcHistory d' = dcHistory d0 \<and> dcHistoryIdx d' = dcHistoryIdx d0"
proof -
  obtain r' where r': "RGA_Unmarshal (dcRga d0) (RGA_Marshal (dcRga d)) = Inr r'" "rgaNodes r' = rgaNodes (dcRga d)"
    using assms(2) rga_through_wire [of "dcRga d" "dcRga d0"] by (auto simp: sendable_doc_def)
  have lines: "read_lines (length (dcLines d)) (concat (map (\<lambda>l. put_block (str_bytes l)) (dcLines d))) = dcLines d"
    using assms(2) by (intro read_lines_put) (auto simp: sendable_doc_def list_all_iff)
  have types: "map known_block (dcBlockTypes d) = dcBlockTypes d"
    using assms(2) by (intro known_blocks) (simp add: sendable_doc_def)
  have len: "length (dcBlockTypes d) = length (dcLines d)" using assms(1) by (simp add: doc_ok_def)
  show ?thesis
    using assms(2) r' lines types len
    by (simp add: Doc_Unmarshal_def Doc_Marshal_def sendable_doc_def wire_simps unmarshal_rest_def unmarshal_lines_def
        Let_def unat_cast)
qed

text \<open>
  A document survives the wire. Whatever document receives it, unmarshalling the marshalled state
  succeeds and restores the identifier, title, version, lines, block types and the nodes of the
  replicated array; the receiver's undo history is left as it was.
\<close>

theorem doc_state_roundtrip:
  assumes "doc_ok d" "sendable_doc d"
  shows "\<exists>d'. Doc_Unmarshal (Doc_Marshal d) d0 = (None, d') \<and> dcID d' = dcID d \<and> dcTitle d' = dcTitle d
    \<and> dcVersion d' = dcVersion d \<and> dcLines d' = dcLines d \<and> dcBlockTypes d' = dcBlockTypes d
    \<and> rgaNodes (dcRga d') = rgaNodes (dcRga d) \<and> dcHistory d' = dcHistory d0 \<and> dcHistoryIdx d' = dcHistoryIdx d0"
  using assms by (rule doc_unmarshal_marshal)

theorem doc_state_roundtrip_witness:
  "\<exists>d'. Doc_Unmarshal (Doc_Marshal demo_doc) (NewDocument ''x'' [] ''m'') = (None, d') \<and> dcLines d' = [''one'']"
proof -
  have "sendable_doc demo_doc" "dcLines demo_doc = [''one'']" by code_simp+
  with doc_state_roundtrip [OF demo_doc_ok, of "NewDocument ''x'' [] ''m''"] show ?thesis by auto
qed

section \<open>Characters pushed into the replicated array\<close>

text \<open>
  A replica whose nodes carry positive timestamps, as all nodes made by \<open>Insert\<close> do, with room for \<open>k\<close>
  more ticks of its clock.
\<close>

definition ticking :: "nat \<Rightarrow> rga \<Rightarrow> bool" where
  "ticking k r \<longleftrightarrow> rga_wf r \<and> (\<forall>n\<in>set (rgaNodes r). 0 < sint (nTimestamp n)) \<and> 0 \<le> sint (rgaClock r)
     \<and> sint (rgaClock r) + int k < 2 ^ 63 - 1"

lemma ticking_mono: "ticking k r \<Longrightarrow> j \<le> k \<Longrightarrow> ticking j r"
  by (auto simp: ticking_def)

lemma get_chars_upt:
  "k \<le> length (rgaNodes r) \<Longrightarrow> rgaLength r = int (length (rgaNodes r)) \<Longrightarrow>
     get_chars r [k..<length (rgaNodes r)] = map nValue (drop k (rgaNodes r))"
  by (induction rule: inc_induct) (simp_all add: upt_conv_Cons RGA_Get_def Cons_nth_drop_Suc [symmetric])

lemma rga_chars_nodes: "rga_wf r \<Longrightarrow> rga_chars r = map nValue (rgaNodes r)"
  using get_chars_upt [of 0 r] by (simp add: rga_chars_def rga_wf_def)

lemma Insert_at_end:
  assumes "ticking (Suc k) r" "findNode r i = None \<or> rgaNodes r = []"
  shows "ticking k (RGA_Insert r i v) \<and> rga_chars (RGA_Insert r i v) = rga_chars r @ [v]
    \<and> rgaNodes (RGA_Insert r i v) \<noteq> [] \<and> rgaNodeID (RGA_Insert r i v) = rgaNodeID r"
proof -
  obtain xs ys origin where sp: "rgaNodes r = xs @ ys"
    "RGA_Insert r i v = r\<lparr>rgaClock := rgaClock r + 1, rgaNodes := xs @ new_node r origin v # ys, rgaLength := rgaLength r + 1\<rparr>"
    "case findNode r i of Some p \<Rightarrow> p \<le> length xs | None \<Rightarrow> ys = []"
    by (rule RGA_Insert_shape)
  have ys: "ys = []" using sp(1,3) assms(2) by auto
  have clk: "sint (rgaClock r) < 2 ^ 63 - 1" and wf: "rga_wf r" using assms(1) by (auto simp: ticking_def)
  have wf': "rga_wf (RGA_Insert r i v)" by (rule Insert_keeps_wf [OF wf clk])
  then have "ticking k (RGA_Insert r i v)"
    using assms(1) sp(1,2) ys sint_succ [OF clk] by (auto simp: ticking_def new_node_def)
  with wf wf' sp(1,2) ys show ?thesis by (simp add: rga_chars_nodes new_node_def)
qed

lemma unknown_anchors:
  assumes "ticking k r"
  shows "findNode r [] = None" "CHR '':'' \<notin> set nodeID \<Longrightarrow> findNode r (''0:'' @ nodeID @ '':'' @ ch) = None"
proof -
  have ok: "nID n = node_id (nTimestamp n) (nAuthor n) (nValue n)" "CHR '':'' \<notin> set (nAuthor n)" "nTimestamp n \<noteq> 0"
    if "n \<in> set (rgaNodes r)" for n
    using assms that by (auto simp: ticking_def rga_wf_def rga_node_ok_def)
  have hd: "nID (rgaHead r) = headID" using assms by (simp add: ticking_def rga_wf_def)
  have "nID n \<noteq> []" if "n \<in> set (rgaNodes r)" for n using ok(1) [OF that] by (simp add: node_id_def)
  then show "findNode r [] = None" using hd by (force simp: findNode_def headID_def find_pos_None)
  have digit: "char_of (48 :: nat) = CHR ''0''" by code_simp
  assume "CHR '':'' \<notin> set nodeID"
  moreover have zero: "''0:'' @ nodeID @ '':'' @ ch = node_id 0 nodeID ch"
    using digit by (simp add: node_id_def int_dec_def nat_dec.simps)
  ultimately have "nID n \<noteq> node_id 0 nodeID ch" if "n \<in> set (rgaNodes r)" for n
    using ok [OF that] node_id_inj by metis
  then show "findNode r (''0:'' @ nodeID @ '':'' @ ch) = None"
    using hd node_id_not_sentinel(1) [of 0 nodeID ch] unfolding zero by (force simp: findNode_def find_pos_None)
qed


lemma push_runes_appends:
  "ticking (length chs) r \<Longrightarrow> findNode r i = None \<or> rgaNodes r = [] \<Longrightarrow>
     rga_chars (push_runes chs i r) = rga_chars r @ chs \<and> rga_wf (push_runes chs i r)"
proof (induction chs arbitrary: i r)
  case (Cons ch chs)
  from Cons.prems have ins: "ticking (length chs) (RGA_Insert r i ch)"
    "rga_chars (RGA_Insert r i ch) = rga_chars r @ [ch]"
    using Insert_at_end [of "length chs" r i ch] by auto
  from Cons.IH [OF ins(1), of "[]"] ins unknown_anchors(1) [OF ins(1)] show ?case by simp
qed (simp add: ticking_def)

lemma last_char_anchor:
  assumes "ticking k r" "CHR '':'' \<notin> set nodeID" "\<forall>n\<in>set (rgaNodes r). nValue n \<noteq> []"
  shows "findNode r (last_char_id nodeID r) = None \<or> rgaNodes r = []"
proof (cases "rgaNodes r = []")
  case False
  then have pos: "length (rgaNodes r) > 0" by simp
  have len: "rgaLength r = int (length (rgaNodes r))" using assms(1) by (simp add: ticking_def rga_wf_def)
  have last: "nat (int (length (rgaNodes r)) - 1) < length (rgaNodes r)" using pos by linarith
  then have "nValue (rgaNodes r ! nat (int (length (rgaNodes r)) - 1)) \<noteq> []" using assms(3) by simp
  then have "\<exists>ch. last_char_id nodeID r = ''0:'' @ nodeID @ '':'' @ ch"
    using pos len last by (simp add: last_char_id_def RGA_Get_def)
  then show ?thesis using unknown_anchors(2) [OF assms(1,2)] by metis
qed simp

text \<open>
  A line is appended to the replicated array wherever it is inserted. The anchor \<open>pushLineToRGA\<close> makes up
  from the last character, with a zero timestamp, names no node, so the array falls back to its end:
  whatever the line's position, its runes are added behind all others, after a line break if the line
  number is below the number of characters.
\<close>

theorem doc_push_appends:
  assumes "ticking (length (rune_strings (str_bytes text)) + 1) r" "CHR '':'' \<notin> set nodeID"
    and "\<forall>n\<in>set (rgaNodes r). nValue n \<noteq> []"
  shows "rga_chars (pushLineToRGA p text nodeID r) =
    rga_chars r @ (if p < rgaLength r then [newline] else []) @ rune_strings (str_bytes text)"
proof -
  let ?chs = "rune_strings (str_bytes text)"
  have anchor: "findNode r (last_char_id nodeID r) = None \<or> rgaNodes r = []"
    by (rule last_char_anchor [OF assms])
  have ins: "ticking (length ?chs) (RGA_Insert r (last_char_id nodeID r) newline)"
    "rga_chars (RGA_Insert r (last_char_id nodeID r) newline) = rga_chars r @ [newline]"
    using Insert_at_end [OF _ anchor, of "length ?chs" newline] assms(1) by auto
  from push_runes_appends [OF ins(1), of "[]"] unknown_anchors(1) [OF ins(1)] ins(2)
    push_runes_appends [OF ticking_mono [OF assms(1)] anchor]
  show ?thesis by (simp add: pushLineToRGA_def)
qed

theorem doc_push_appends_witness:
  "rga_chars (pushLineToRGA 0 ''ab'' ''n'' (RGA_Insert (NewRGA ''n'') ''head'' ''x'')) = [''x'', newline, ''a'', ''b'']"
proof -
  let ?r = "RGA_Insert (NewRGA ''n'') ''head'' ''x''"
  have "ticking 4 (NewRGA ''n'')" by (simp add: ticking_def rga_wf_new) (simp add: NewRGA_def)
  with Insert_at_end [of 3 "NewRGA ''n''" "''head''" "''x''"] have t: "ticking 3 ?r" by (simp add: NewRGA_def)
  have runes: "rune_strings (str_bytes ''ab'') = [''a'', ''b'']" and c: "rga_chars ?r = [''x'']" "0 < rgaLength ?r"
    and v: "\<forall>n\<in>set (rgaNodes ?r). nValue n \<noteq> []" by code_simp+
  from doc_push_appends [of "''ab''" ?r "''n''" 0] t runes c v show ?thesis by (simp add: eval_nat_numeral)
qed

end
