(* ===== verification/Docs_Presence.thy ===== *)
theory Docs_Presence
  imports Docs_Wire
begin

text \<open>
  Who is where in a document (\<open>pkg/services/docs/presence.go\<close>). The Go map is a HOL map; an operation that
  ranges over it takes the order of the keys as an argument. \<open>int\<close> positions lose their high bits on
  the wire.
\<close>

record cursor =
  cuPeerID :: bytes
  cuPeerName :: string
  cuDocID :: string
  cuLine :: int
  cuColumn :: int
  cuColor :: string

record selection =
  slPeerID :: bytes
  slPeerName :: string
  slDocID :: string
  slStartLine :: int
  slStartCol :: int
  slEndLine :: int
  slEndCol :: int

record peer_presence =
  ppPeerID :: bytes
  ppPeerName :: string
  ppCursor :: cursor
  ppSelection :: "selection option"
  ppLastSeen :: gotime
  ppConnected :: bool

record presence_service =
  psDocID :: string
  psPresence :: "bytes \<rightharpoonup> peer_presence"
  psTimeout :: duration

definition NewPresenceService :: "string \<Rightarrow> duration \<Rightarrow> presence_service" where
  "NewPresenceService docID timeout =
     \<lparr>psDocID = docID, psPresence = Map.empty, psTimeout = (if timeout = 0 then 5000000000 else timeout)\<rparr>"

definition zero_cursor :: cursor where
  "zero_cursor = \<lparr>cuPeerID = replicate 32 0, cuPeerName = [], cuDocID = [], cuLine = 0, cuColumn = 0, cuColor = []\<rparr>"

definition mk_presence :: "bytes \<Rightarrow> string \<Rightarrow> bool \<Rightarrow> peer_presence" where
  "mk_presence peerID peerName conn =
     \<lparr>ppPeerID = peerID, ppPeerName = peerName, ppCursor = zero_cursor, ppSelection = None, ppLastSeen = 0,
      ppConnected = conn\<rparr>"

definition mk_cursor :: "bytes \<Rightarrow> string \<Rightarrow> string \<Rightarrow> int \<Rightarrow> int \<Rightarrow> cursor" where
  "mk_cursor peerID peerName docID line column =
     \<lparr>cuPeerID = peerID, cuPeerName = peerName, cuDocID = docID, cuLine = line, cuColumn = column, cuColor = []\<rparr>"

text \<open>The entry of a peer, or a new one with the given name, changed by \<open>f\<close>.\<close>

definition update_peer ::
  "bytes \<Rightarrow> string \<Rightarrow> bool \<Rightarrow> (peer_presence \<Rightarrow> peer_presence) \<Rightarrow> presence_service \<Rightarrow> presence_service" where
  "update_peer peerID peerName conn f p =
     (let pp = (case psPresence p peerID of Some pp \<Rightarrow> pp | None \<Rightarrow> mk_presence peerID peerName conn)
      in p\<lparr>psPresence := (psPresence p)(peerID \<mapsto> f pp)\<rparr>)"

definition UpdateCursor :: "gotime \<Rightarrow> bytes \<Rightarrow> string \<Rightarrow> int \<Rightarrow> int \<Rightarrow> presence_service \<Rightarrow> presence_service" where
  "UpdateCursor now peerID peerName line column p =
     update_peer peerID peerName True
       (\<lambda>pp. pp\<lparr>ppCursor := mk_cursor peerID peerName (psDocID p) line column, ppLastSeen := now\<rparr>) p"

definition UpdateSelection ::
  "gotime \<Rightarrow> bytes \<Rightarrow> string \<Rightarrow> int \<Rightarrow> int \<Rightarrow> int \<Rightarrow> int \<Rightarrow> presence_service \<Rightarrow> presence_service" where
  "UpdateSelection now peerID peerName startLine startCol endLine endCol p =
     update_peer peerID peerName True
       (\<lambda>pp. pp\<lparr>ppSelection := Some \<lparr>slPeerID = peerID, slPeerName = peerName, slDocID = psDocID p,
                  slStartLine = startLine, slStartCol = startCol, slEndLine = endLine, slEndCol = endCol\<rparr>,
                 ppLastSeen := now\<rparr>) p"

definition RemovePeer :: "bytes \<Rightarrow> presence_service \<Rightarrow> presence_service" where
  "RemovePeer peerID p = p\<lparr>psPresence := (psPresence p)(peerID := None)\<rparr>"

definition GetPeer :: "bytes \<Rightarrow> presence_service \<Rightarrow> peer_presence option" where
  "GetPeer peerID p = psPresence p peerID"

definition timed_out :: "gotime \<Rightarrow> presence_service \<Rightarrow> peer_presence \<Rightarrow> bool" where
  "timed_out now p pp \<longleftrightarrow> time_sub now (ppLastSeen pp) > psTimeout p"

fun get_all :: "gotime \<Rightarrow> bytes list \<Rightarrow> presence_service \<Rightarrow> peer_presence list \<times> presence_service" where
  "get_all now [] p = ([], p)"
| "get_all now (i # ids) p =
     (case psPresence p i of
        None \<Rightarrow> get_all now ids p
      | Some pp \<Rightarrow>
          if timed_out now p pp then get_all now ids (RemovePeer i p)
          else let (out, p') = get_all now ids p in (pp # out, p'))"

definition GetAll :: "gotime \<Rightarrow> bytes list \<Rightarrow> presence_service \<Rightarrow> peer_presence list \<times> presence_service" where
  "GetAll now ids p = get_all now ids p"

definition Count :: "gotime \<Rightarrow> bytes list \<Rightarrow> presence_service \<Rightarrow> nat" where
  "Count now ids p =
     length (filter (\<lambda>i. case psPresence p i of Some pp \<Rightarrow> time_sub now (ppLastSeen pp) \<le> psTimeout p | None \<Rightarrow> False) ids)"

definition Touch :: "gotime \<Rightarrow> bytes \<Rightarrow> presence_service \<Rightarrow> presence_service" where
  "Touch now peerID p =
     (case psPresence p peerID of
        Some pp \<Rightarrow> p\<lparr>psPresence := (psPresence p)(peerID \<mapsto> pp\<lparr>ppLastSeen := now\<rparr>)\<rparr> | None \<Rightarrow> p)"

definition MarkConnected :: "gotime \<Rightarrow> bytes \<Rightarrow> string \<Rightarrow> presence_service \<Rightarrow> presence_service" where
  "MarkConnected now peerID peerName p =
     update_peer peerID peerName False (\<lambda>pp. pp\<lparr>ppConnected := True, ppLastSeen := now\<rparr>) p"

definition MarkDisconnected :: "bytes \<Rightarrow> presence_service \<Rightarrow> presence_service" where
  "MarkDisconnected peerID p =
     (case psPresence p peerID of
        Some pp \<Rightarrow> p\<lparr>psPresence := (psPresence p)(peerID \<mapsto> pp\<lparr>ppConnected := False\<rparr>)\<rparr> | None \<Rightarrow> p)"

text \<open>\<open>Marshal\<close> subtracts Unix nanoseconds, which wraps, where the other operations use \<open>Sub\<close>.\<close>

definition presence_entry :: "peer_presence \<Rightarrow> bytes" where
  "presence_entry pp = ppPeerID pp @ encodeUint32 (word_of_int (cuLine (ppCursor pp)))
     @ encodeUint32 (word_of_int (cuColumn (ppCursor pp)))"

definition Presence_Marshal :: "gotime \<Rightarrow> bytes list \<Rightarrow> presence_service \<Rightarrow> bytes" where
  "Presence_Marshal now ids p =
     concat (map (\<lambda>i. case psPresence p i of
        Some pp \<Rightarrow> if wrap64 (now - ppLastSeen pp) > psTimeout p then [] else presence_entry pp
      | None \<Rightarrow> []) ids)"

fun unmarshal_entries :: "gotime \<Rightarrow> nat \<Rightarrow> bytes \<Rightarrow> presence_service \<Rightarrow> presence_service" where
  "unmarshal_entries now 0 data p = p"
| "unmarshal_entries now (Suc n) data p =
     (let peerID = take 32 data; line = uint (decodeUint32 (take 4 (drop 32 data)));
          col = uint (decodeUint32 (take 4 (drop 36 data)))
      in unmarshal_entries now n (drop 40 data)
           (update_peer peerID [] True
              (\<lambda>pp. pp\<lparr>ppCursor := mk_cursor peerID (ppPeerName pp) (psDocID p) line col, ppLastSeen := now\<rparr>) p))"

definition Presence_Unmarshal :: "gotime \<Rightarrow> bytes \<Rightarrow> presence_service \<Rightarrow> presence_service" where
  "Presence_Unmarshal now data p =
     (if length data mod 40 \<noteq> 0 then p else unmarshal_entries now (length data div 40) data p)"

text \<open>\<open>FromDiscovery\<close> reads the identifier and the name of a discovered peer.\<close>

definition FromDiscovery :: "gotime \<Rightarrow> (bytes \<times> string) list \<Rightarrow> presence_service \<Rightarrow> presence_service" where
  "FromDiscovery now peers p =
     foldl (\<lambda>p (i, name). update_peer i name True (\<lambda>pp. pp\<lparr>ppLastSeen := now\<rparr>) p) p peers"

section \<open>Expiry\<close>

lemma update_peer_simps [simp]:
  "psDocID (update_peer i n c f p) = psDocID p" "psTimeout (update_peer i n c f p) = psTimeout p"
  by (simp_all add: update_peer_def Let_def)

lemma update_peer_lookup:
  "psPresence (update_peer i n c f p) j =
     (if j = i then Some (f (case psPresence p i of Some pp \<Rightarrow> pp | None \<Rightarrow> mk_presence i n c)) else psPresence p j)"
  by (simp add: update_peer_def Let_def)

lemma RemovePeer_simps [simp]:
  "psDocID (RemovePeer i p) = psDocID p" "psTimeout (RemovePeer i p) = psTimeout p"
  "psPresence (RemovePeer i p) j = (if j = i then None else psPresence p j)"
  by (simp_all add: RemovePeer_def)

definition live_peers :: "gotime \<Rightarrow> presence_service \<Rightarrow> bytes \<rightharpoonup> peer_presence" where
  "live_peers now p i = (case psPresence p i of Some pp \<Rightarrow> if timed_out now p pp then None else Some pp | None \<Rightarrow> None)"

lemma live_peers_cong: "psPresence p i = psPresence q i \<Longrightarrow> psTimeout p = psTimeout q \<Longrightarrow> live_peers now p i = live_peers now q i"
  by (simp add: live_peers_def timed_out_def split: option.splits)

lemma get_all_spec:
  assumes "distinct ids" "get_all now ids p = (out, p')"
  shows "out = List.map_filter (live_peers now p) ids \<and> psTimeout p' = psTimeout p
    \<and> psPresence p' = (\<lambda>i. if i \<in> set ids then live_peers now p i else psPresence p i)"
  using assms
proof (induction now ids p arbitrary: out p' rule: get_all.induct)
  case (2 now i ids p)
  have live: "live_peers now (RemovePeer i p) j = live_peers now p j" if "j \<in> set ids" for j
    using that 2(4) by (intro live_peers_cong) auto
  have filt: "List.map_filter (live_peers now (RemovePeer i p)) ids = List.map_filter (live_peers now p) ids"
    using live by (simp add: List.map_filter_def cong: filter_cong)
  show ?case
  proof (cases "live_peers now p i")
    case None
    then have i: "psPresence p i = None \<or> (\<exists>pp. psPresence p i = Some pp \<and> timed_out now p pp)"
      by (auto simp: live_peers_def split: option.splits if_splits)
    from i show ?thesis
    proof
      assume n: "psPresence p i = None"
      with 2(1) [of out p'] 2(4,5) None show ?thesis by (auto simp: fun_eq_iff)
    next
      assume "\<exists>pp. psPresence p i = Some pp \<and> timed_out now p pp"
      then obtain pp where s: "psPresence p i = Some pp" "timed_out now p pp" by blast
      with 2(2) [OF s, of out p'] 2(4,5) None filt live show ?thesis by (auto simp: fun_eq_iff)
    qed
  next
    case (Some pp)
    then have s: "psPresence p i = Some pp" "\<not> timed_out now p pp" by (auto simp: live_peers_def split: option.splits if_splits)
    obtain o1 p1 where r: "get_all now ids p = (o1, p1)" by fastforce
    with s 2(5) have "out = pp # o1" "p' = p1" by auto
    with 2(3) [OF s _ r] 2(4) Some s show ?thesis by (auto simp: fun_eq_iff)
  qed
qed simp


text \<open>
  Presence expires exactly. \<open>GetAll\<close> returns the peers heard of within the timeout, in the order the map
  is ranged over, forgets exactly the others, and \<open>Count\<close> at the same moment is the number it returned.
\<close>

theorem presence_expiry_exact:
  assumes "distinct ids" "set ids = dom (psPresence p)" "GetAll now ids p = (out, p')"
  shows "out = List.map_filter (live_peers now p) ids \<and> psPresence p' = live_peers now p \<and> Count now ids p = length out"
proof -
  note spec = get_all_spec [OF assms(1) assms(3) [unfolded GetAll_def]]
  have "live_peers now p i = psPresence p i" if "i \<notin> set ids" for i
    using that assms(2) by (auto simp: live_peers_def split: option.splits)
  with spec have "psPresence p' = live_peers now p" by (auto simp: fun_eq_iff)
  moreover have "length (List.map_filter (live_peers now p) ids) = Count now ids p"
  proof -
    have "(live_peers now p i \<noteq> None) =
        (case psPresence p i of Some pp \<Rightarrow> time_sub now (ppLastSeen pp) \<le> psTimeout p | None \<Rightarrow> False)" for i
      by (simp add: live_peers_def timed_out_def not_less split: option.split)
    then show ?thesis by (simp add: Count_def List.map_filter_def)
  qed
  ultimately show ?thesis using spec by simp
qed

definition demo_presence :: presence_service where
  "demo_presence = UpdateCursor 9000000000 (replicate 32 2) ''bo'' 7 8
     (UpdateCursor 1000000000 (replicate 32 1) ''al'' 3 4 (NewPresenceService ''d'' 0))"

theorem presence_expiry_exact_witness:
  "map ppPeerName (fst (GetAll 9000000000 [replicate 32 1, replicate 32 2] demo_presence)) = [''bo'']"
proof -
  have "distinct [replicate 32 1, replicate 32 2 :: bytes]"
    "set [replicate 32 1, replicate 32 2] = dom (psPresence demo_presence)"
    by (simp_all add: demo_presence_def NewPresenceService_def UpdateCursor_def update_peer_def Let_def insert_commute)
  from presence_expiry_exact [OF this, of 9000000000, OF prod.collapse [symmetric]]
  have "fst (GetAll 9000000000 [replicate 32 1, replicate 32 2] demo_presence) =
    List.map_filter (live_peers 9000000000 demo_presence) [replicate 32 1, replicate 32 2]" by blast
  moreover have "map ppPeerName (List.map_filter (live_peers 9000000000 demo_presence) [replicate 32 1, replicate 32 2]) = [''bo'']"
    by code_simp
  ultimately show ?thesis by simp
qed

section \<open>Presence on the wire\<close>

definition seen_at :: "gotime \<Rightarrow> peer_presence \<Rightarrow> presence_service \<Rightarrow> presence_service" where
  "seen_at now pp p = update_peer (ppPeerID pp) [] True
     (\<lambda>e. e\<lparr>ppCursor := mk_cursor (ppPeerID pp) (ppPeerName e) (psDocID p) (cuLine (ppCursor pp)) (cuColumn (ppCursor pp)),
            ppLastSeen := now\<rparr>) p"

definition sendable_presence :: "peer_presence \<Rightarrow> bool" where
  "sendable_presence pp \<longleftrightarrow> length (ppPeerID pp) = 32 \<and> 0 \<le> cuLine (ppCursor pp) \<and> cuLine (ppCursor pp) < 2 ^ 32
     \<and> 0 \<le> cuColumn (ppCursor pp) \<and> cuColumn (ppCursor pp) < 2 ^ 32"

lemma length_entry: "sendable_presence pp \<Longrightarrow> length (presence_entry pp) = 40"
  by (simp add: sendable_presence_def presence_entry_def)

lemma unmarshal_entries_concat:
  "list_all sendable_presence pps \<Longrightarrow>
     unmarshal_entries now (length pps) (concat (map presence_entry pps)) q = foldl (\<lambda>q pp. seen_at now pp q) q pps"
proof (induction pps arbitrary: q)
  case (Cons pp pps)
  then have ok: "sendable_presence pp" "list_all sendable_presence pps" by auto
  let ?rest = "concat (map presence_entry pps)"
  have "unmarshal_entries now (Suc (length pps)) (presence_entry pp @ ?rest) q = unmarshal_entries now (length pps) ?rest (seen_at now pp q)"
    using ok(1) by (simp add: presence_entry_def sendable_presence_def seen_at_def wire_simps uint_position Let_def)
  with Cons.IH [OF ok(2)] show ?case by simp
qed simp

lemma length_entries: "list_all sendable_presence pps \<Longrightarrow> length (concat (map presence_entry pps)) = length pps * 40"
  by (induction pps) (simp_all add: length_entry)

lemma seen_lookup:
  "distinct (map ppPeerID pps) \<Longrightarrow>
     psPresence (foldl (\<lambda>q pp. seen_at now pp q) q pps) i =
       (case find (\<lambda>pp. ppPeerID pp = i) pps of Some pp \<Rightarrow> psPresence (seen_at now pp q) i | None \<Rightarrow> psPresence q i)
     \<and> psDocID (foldl (\<lambda>q pp. seen_at now pp q) q pps) = psDocID q"
proof (induction pps arbitrary: q)
  case (Cons pp pps)
  have none: "find (\<lambda>x. ppPeerID x = ppPeerID pp) pps = None" using Cons.prems by (simp add: find_None_iff) (metis image_eqI)
  have doc: "psDocID (seen_at now x q) = psDocID q" for x by (simp add: seen_at_def)
  show ?case
  proof (cases "ppPeerID pp = i")
    case True
    with Cons.IH [of "seen_at now pp q"] Cons.prems none show ?thesis by (simp add: doc)
  next
    case False
    then have other: "psPresence (seen_at now pp q) i = psPresence q i" by (simp add: seen_at_def update_peer_lookup)
    have IH: "psPresence (foldl (\<lambda>q pp. seen_at now pp q) (seen_at now pp q) pps) i =
        (case find (\<lambda>pp. ppPeerID pp = i) pps of Some x \<Rightarrow> psPresence (seen_at now x (seen_at now pp q)) i
         | None \<Rightarrow> psPresence q i)"
      "psDocID (foldl (\<lambda>q pp. seen_at now pp q) (seen_at now pp q) pps) = psDocID q"
      using Cons.IH [of "seen_at now pp q"] Cons.prems other by (simp_all add: doc split: option.split)
    show ?thesis
    proof (cases "find (\<lambda>pp. ppPeerID pp = i) pps")
      case None
      with IH False show ?thesis by simp
    next
      case (Some x)
      then have "ppPeerID x = i" by (auto simp: find_Some_iff)
      with other have "psPresence (seen_at now x (seen_at now pp q)) i = psPresence (seen_at now x q) i"
        by (simp add: seen_at_def [of now x] update_peer_lookup doc)
      with IH Some False show ?thesis by simp
    qed
  qed
qed simp

definition fresh_peers :: "gotime \<Rightarrow> presence_service \<Rightarrow> bytes \<rightharpoonup> peer_presence" where
  "fresh_peers now p i =
     (case psPresence p i of Some pp \<Rightarrow> if wrap64 (now - ppLastSeen pp) > psTimeout p then None else Some pp | None \<Rightarrow> None)"

lemma Marshal_fresh:
  "Presence_Marshal now ids p = concat (map presence_entry (List.map_filter (fresh_peers now p) ids))"
  by (induction ids) (auto simp: Presence_Marshal_def fresh_peers_def split: option.splits)

lemma ids_map_filter:
  assumes "\<And>i x. f i = Some x \<Longrightarrow> key x = i"
  shows "map key (List.map_filter f ids) = filter (\<lambda>i. f i \<noteq> None) ids"
  by (induction ids) (auto simp: assms split: option.splits)

lemma find_map_filter:
  assumes "\<And>i x. f i = Some x \<Longrightarrow> key x = i"
  shows "find (\<lambda>x. key x = i) (List.map_filter f ids) = (if i \<in> set ids then f i else None)"
  by (induction ids) (auto simp: assms split: option.splits)

text \<open>
  Cursors reach the other side. When the entries are filed under their own 32-byte identifiers and
  their positions fit 32 bits, a service that unmarshals what another marshalled shows each of the
  sender's fresh peers at the sender's line and column, just seen, and keeps every other peer as it was.
\<close>

theorem presence_roundtrip:
  assumes "distinct ids" "set ids = dom (psPresence p)"
    and "\<And>i pp. psPresence p i = Some pp \<Longrightarrow> ppPeerID pp = i \<and> sendable_presence pp"
  shows "psPresence (Presence_Unmarshal now' (Presence_Marshal now ids p) q) i =
    (case fresh_peers now p i of Some pp \<Rightarrow> psPresence (seen_at now' pp q) i | None \<Rightarrow> psPresence q i)"
proof -
  let ?pps = "List.map_filter (fresh_peers now p) ids"
  have key: "ppPeerID x = j \<and> sendable_presence x" if "fresh_peers now p j = Some x" for j x
    using that assms(3) by (auto simp: fresh_peers_def split: option.splits if_splits)
  have "list_all sendable_presence ?pps"
    using key by (induction ids) (auto split: option.splits)
  note wire = unmarshal_entries_concat [OF this, of now' q] length_entries [OF this]
  have "distinct (map ppPeerID ?pps)" using key assms(1) by (simp add: ids_map_filter)
  moreover have "find (\<lambda>x. ppPeerID x = i) ?pps = (if i \<in> set ids then fresh_peers now p i else None)"
    using key by (simp add: find_map_filter)
  moreover have "fresh_peers now p i = None" if "i \<notin> set ids"
    using that assms(2) by (auto simp: fresh_peers_def split: option.splits)
  ultimately show ?thesis using wire seen_lookup [of ?pps now' q i] by (auto simp: Presence_Unmarshal_def Marshal_fresh)
qed

theorem presence_roundtrip_witness:
  "map_option (cuLine \<circ> ppCursor) (psPresence (Presence_Unmarshal 5 (Presence_Marshal 9000000000
     [replicate 32 1, replicate 32 2] demo_presence) (NewPresenceService ''d'' 0)) (replicate 32 2)) = Some 7"
proof -
  have ids: "distinct [replicate 32 1, replicate 32 2 :: bytes]"
    "set [replicate 32 1, replicate 32 2] = dom (psPresence demo_presence)"
    by (simp_all add: demo_presence_def NewPresenceService_def UpdateCursor_def update_peer_def Let_def insert_commute)
  have ok: "ppPeerID pp = i \<and> sendable_presence pp" if "psPresence demo_presence i = Some pp" for i pp
    using that by (auto simp: demo_presence_def NewPresenceService_def UpdateCursor_def update_peer_def Let_def
        mk_presence_def mk_cursor_def sendable_presence_def split: if_splits)
  have "case fresh_peers 9000000000 demo_presence (replicate 32 2) of None \<Rightarrow> False
     | Some pp \<Rightarrow> map_option (cuLine \<circ> ppCursor) (psPresence (seen_at 5 pp (NewPresenceService ''d'' 0)) (replicate 32 2)) = Some 7"
    by code_simp
  with presence_roundtrip [OF ids ok, of 5 9000000000 "NewPresenceService ''d'' 0" "replicate 32 2"]
  show ?thesis by (auto split: option.splits)
qed

end
