(* ===== verification/Docs_Service.thy ===== *)
theory Docs_Service
  imports Docs_Sync Docs_Presence
begin

text \<open>
  The document service (\<open>pkg/services/docs/server.go\<close>): documents and presence per identifier, local edits
  with their broadcasts, and the handlers for messages from peers. What a call hands to the notifier is
  part of its result. A stream delivers its data in reads of at most 4096 bytes, which are the argument
  of \<open>handleStream\<close>. The keys, the event channel and \<open>pendingOps\<close>, which nothing reads, are left out.
\<close>

record service_stats =
  svTotalDocs :: int64
  svActiveDocs :: int64
  svTotalOps :: int64
  svTotalBroadcasts :: int64

record docs_service =
  dvDocs :: "string \<rightharpoonup> document"
  dvPresence :: "string \<rightharpoonup> presence_service"
  dvNodeID :: string
  dvStats :: service_stats

definition NewService :: "string \<Rightarrow> docs_service" where
  "NewService nodeID = \<lparr>dvDocs = Map.empty, dvPresence = Map.empty, dvNodeID = nodeID,
     dvStats = \<lparr>svTotalDocs = 0, svActiveDocs = 0, svTotalOps = 0, svTotalBroadcasts = 0\<rparr>\<rparr>"

text \<open>\<open>handleEvent\<close> of the service: an edit made on the document itself is counted.\<close>

definition count_op :: "docs_service \<Rightarrow> docs_service" where
  "count_op s = s\<lparr>dvStats := (dvStats s)\<lparr>svTotalOps := svTotalOps (dvStats s) + 1\<rparr>\<rparr>"

definition count_broadcast :: "docs_service \<Rightarrow> docs_service" where
  "count_broadcast s = s\<lparr>dvStats := (dvStats s)\<lparr>svTotalOps := svTotalOps (dvStats s) + 1,
     svTotalBroadcasts := svTotalBroadcasts (dvStats s) + 1\<rparr>\<rparr>"

definition add_doc :: "string \<Rightarrow> document \<Rightarrow> presence_service \<Rightarrow> docs_service \<Rightarrow> docs_service" where
  "add_doc docID doc pres s = s\<lparr>dvDocs := (dvDocs s)(docID \<mapsto> doc), dvPresence := (dvPresence s)(docID \<mapsto> pres),
     dvStats := (dvStats s)\<lparr>svTotalDocs := svTotalDocs (dvStats s) + 1, svActiveDocs := svActiveDocs (dvStats s) + 1\<rparr>\<rparr>"

definition CreateDocument :: "string \<Rightarrow> string \<Rightarrow> docs_service \<Rightarrow> docs_service" where
  "CreateDocument docID title s =
     (if dvDocs s docID \<noteq> None then s
      else add_doc docID (NewDocument docID title (dvNodeID s)) (NewPresenceService docID 5000000000) s)"

definition GetDocument :: "string \<Rightarrow> docs_service \<Rightarrow> document option" where
  "GetDocument docID s = dvDocs s docID"

definition GetOrCreateDocument :: "string \<Rightarrow> string \<Rightarrow> docs_service \<Rightarrow> docs_service" where
  "GetOrCreateDocument docID title s = (if GetDocument docID s \<noteq> None then s else CreateDocument docID title s)"

datatype service_error = DocumentNotFound string | OpRefused "doc_error option"

definition DeleteDocument :: "string \<Rightarrow> docs_service \<Rightarrow> service_error option \<times> docs_service" where
  "DeleteDocument docID s =
     (if dvDocs s docID = None then (Some (DocumentNotFound docID), s)
      else (None, s\<lparr>dvDocs := (dvDocs s)(docID := None), dvPresence := (dvPresence s)(docID := None),
              dvStats := (dvStats s)\<lparr>svActiveDocs := svActiveDocs (dvStats s) - 1\<rparr>\<rparr>))"

section \<open>Local edits\<close>

text \<open>The result of a call, \<open>None\<close> for a panic: the error if any, the broadcasts as pairs of the excluded
  peer and the message, and the new service.\<close>

type_synonym broadcasts = "(bytes \<times> doc_message) list"

definition ApplyLocalOp ::
  "gotime \<Rightarrow> string \<Rightarrow> doc_op \<Rightarrow> docs_service \<Rightarrow> (service_error option \<times> broadcasts \<times> docs_service) option" where
  "ApplyLocalOp now docID op s =
     (case dvDocs s docID of
        None \<Rightarrow> Some (Some (DocumentNotFound docID), [], s)
      | Some doc \<Rightarrow>
          (case ApplyOp now op doc of
             None \<Rightarrow> None
           | Some (result, doc') \<Rightarrow>
               let s' = s\<lparr>dvDocs := (dvDocs s)(docID \<mapsto> doc')\<rparr> in
               if \<not> rsApplied result then Some (Some (OpRefused (rsError result)), [], s')
               else Some (None, [(opAuthorID op, \<lparr>mgType = DocMsgOperation, mgDocID = docID, mgAuthorID = opAuthorID op,
                                     mgPayload = marshalOp op, mgTimestamp = opTimestamp op\<rparr>)], count_broadcast s')))"

definition InsertText ::
  "gotime \<Rightarrow> int64 \<Rightarrow> string \<Rightarrow> bytes \<Rightarrow> int \<Rightarrow> string \<Rightarrow> docs_service \<Rightarrow> (service_error option \<times> broadcasts \<times> docs_service) option" where
  "InsertText now ts docID authorID position text = ApplyLocalOp now docID (NewInsertOp docID authorID position text ts)"

definition DeleteLine ::
  "gotime \<Rightarrow> int64 \<Rightarrow> string \<Rightarrow> bytes \<Rightarrow> int \<Rightarrow> docs_service \<Rightarrow> (service_error option \<times> broadcasts \<times> docs_service) option" where
  "DeleteLine now ts docID authorID position = ApplyLocalOp now docID (NewDeleteOp docID authorID position ts)"

definition Service_FormatBlock ::
  "gotime \<Rightarrow> int64 \<Rightarrow> string \<Rightarrow> bytes \<Rightarrow> int \<Rightarrow> block_type \<Rightarrow> docs_service \<Rightarrow> (service_error option \<times> broadcasts \<times> docs_service) option" where
  "Service_FormatBlock now ts docID authorID position bt =
     ApplyLocalOp now docID (NewFormatBlockOp docID authorID position bt ts)"

section \<open>Presence updates\<close>

definition marshalPresenceUpdate :: "string \<Rightarrow> bytes \<Rightarrow> string \<Rightarrow> int \<Rightarrow> int \<Rightarrow> bytes" where
  "marshalPresenceUpdate docID peerID peerName line column =
     put_block (str_bytes docID) @ peerID @ encodeUint32 (word_of_int line) @ encodeUint32 (word_of_int column)
       @ put_block (str_bytes peerName)"

definition unmarshalPresenceUpdate :: "bytes \<Rightarrow> (string \<times> bytes \<times> string \<times> int \<times> int) option" where
  "unmarshalPresenceUpdate data =
     (if length data < 44 then None
      else let nameLen = unat (decodeUint32 (take 4 data)); rest = drop 4 data; rest' = drop nameLen rest
           in if length rest < nameLen + 40 then None
              else Some (bytes_str (take nameLen rest), take 32 rest',
                     (case read_block (drop 40 rest') of Block n _ \<Rightarrow> bytes_str n | _ \<Rightarrow> []),
                     uint (decodeUint32 (take 4 (drop 32 rest'))), uint (decodeUint32 (take 4 (drop 36 rest')))))"

definition UpdatePresence ::
  "gotime \<Rightarrow> string \<Rightarrow> string \<Rightarrow> bytes \<Rightarrow> int \<Rightarrow> int \<Rightarrow> docs_service \<Rightarrow> broadcasts \<times> docs_service" where
  "UpdatePresence now docID peerName peerID line column s =
     (case dvPresence s docID of
        None \<Rightarrow> ([], s)
      | Some pres \<Rightarrow>
          ([(peerID, \<lparr>mgType = DocMsgPresence, mgDocID = docID, mgAuthorID = replicate 32 0,
                      mgPayload = marshalPresenceUpdate docID peerID peerName line column, mgTimestamp = 0\<rparr>)],
           s\<lparr>dvPresence := (dvPresence s)(docID \<mapsto> UpdateCursor now peerID peerName line column pres)\<rparr>))"

definition Service_UpdateSelection ::
  "gotime \<Rightarrow> string \<Rightarrow> string \<Rightarrow> bytes \<Rightarrow> int \<Rightarrow> int \<Rightarrow> int \<Rightarrow> int \<Rightarrow> docs_service \<Rightarrow> docs_service" where
  "Service_UpdateSelection now docID peerName peerID startLine startCol endLine endCol s =
     (case dvPresence s docID of
        None \<Rightarrow> s
      | Some pres \<Rightarrow> s\<lparr>dvPresence := (dvPresence s)(docID \<mapsto>
          UpdateSelection now peerID peerName startLine startCol endLine endCol pres)\<rparr>)"

definition GetDocPresence :: "gotime \<Rightarrow> bytes list \<Rightarrow> string \<Rightarrow> docs_service \<Rightarrow> peer_presence list \<times> docs_service" where
  "GetDocPresence now order docID s =
     (case dvPresence s docID of
        None \<Rightarrow> ([], s)
      | Some pres \<Rightarrow> let (out, pres') = GetAll now order pres in (out, s\<lparr>dvPresence := (dvPresence s)(docID \<mapsto> pres')\<rparr>))"

section \<open>Document states\<close>

record document_state =
  stDocID :: string
  stTitle :: string
  stContent :: "string list"
  stBlockTypes :: "block_type list"
  stLength :: int
  stVersion :: int64
  stUpdatedAt :: gotime

definition State :: "document \<Rightarrow> document_state" where
  "State d = \<lparr>stDocID = dcID d, stTitle = dcTitle d, stContent = dcLines d, stBlockTypes = dcBlockTypes d,
     stLength = rgaLength (dcRga d), stVersion = dcVersion d, stUpdatedAt = dcUpdatedAt d\<rparr>"

definition marshalDocumentState :: "document_state \<Rightarrow> bytes" where
  "marshalDocumentState st = put_block (str_bytes (stDocID st)) @ put_block (str_bytes (stTitle st))
     @ put_block (str_bytes (joinLines (stContent st))) @ encodeInt64 (stVersion st)"

datatype state_error = StateTooShort | StateIdTruncated | StateTitleLength | StateTitleTruncated
  | StateContentLength | StateContentTruncated

definition unmarshalDocumentState :: "bytes \<Rightarrow> state_error + document_state" where
  "unmarshalDocumentState data =
     (case read_block data of NoLength \<Rightarrow> Inl StateTooShort | Cut \<Rightarrow> Inl StateIdTruncated
      | Block i rest1 \<Rightarrow>
          (case read_block rest1 of NoLength \<Rightarrow> Inl StateTitleLength | Cut \<Rightarrow> Inl StateTitleTruncated
           | Block t rest2 \<Rightarrow>
               (case read_block rest2 of NoLength \<Rightarrow> Inl StateContentLength | Cut \<Rightarrow> Inl StateContentTruncated
                | Block c rest3 \<Rightarrow>
                    Inr \<lparr>stDocID = bytes_str i, stTitle = bytes_str t, stContent = splitLines (bytes_str c),
                         stBlockTypes = [], stLength = 0,
                         stVersion = (if length rest3 \<ge> 8 then decodeInt64 (take 8 rest3) else 0), stUpdatedAt = 0\<rparr>)))"

section \<open>Messages from peers\<close>

definition handleOperation :: "gotime \<Rightarrow> doc_message \<Rightarrow> docs_service \<Rightarrow> docs_service option" where
  "handleOperation now msg s =
     (case decodeOpPayload (mgPayload msg) of
        Inl _ \<Rightarrow> Some s
      | Inr (op, docID) \<Rightarrow>
          (case dvDocs s docID of
             None \<Rightarrow> Some s
           | Some doc \<Rightarrow>
               (case ApplyOp now op doc of
                  None \<Rightarrow> None
                | Some (result, doc') \<Rightarrow>
                    let s' = s\<lparr>dvDocs := (dvDocs s)(docID \<mapsto> doc')\<rparr>
                    in Some (if rsApplied result then count_broadcast s' else s'))))"

text \<open>\<open>handleSyncRequest\<close> encodes an answer and drops it; \<open>handleFullState\<close> uses only the title.\<close>

definition handleSyncRequest :: "doc_message \<Rightarrow> docs_service \<Rightarrow> docs_service" where
  "handleSyncRequest msg s =
     (case GetDocument (mgDocID msg) s of
        None \<Rightarrow> s
      | Some doc \<Rightarrow>
          let _ = encodeDocMessage \<lparr>mgType = DocMsgSyncResp, mgDocID = mgDocID msg, mgAuthorID = replicate 32 0,
                    mgPayload = marshalDocumentState (State doc), mgTimestamp = 0\<rparr>
          in s)"

definition handleFullState :: "doc_message \<Rightarrow> docs_service \<Rightarrow> docs_service" where
  "handleFullState msg s =
     (case unmarshalDocumentState (mgPayload msg) of
        Inl _ \<Rightarrow> s
      | Inr st \<Rightarrow> GetOrCreateDocument (mgDocID msg) (stTitle st) s)"

definition handlePresence :: "gotime \<Rightarrow> doc_message \<Rightarrow> docs_service \<Rightarrow> docs_service" where
  "handlePresence now msg s =
     (case unmarshalPresenceUpdate (mgPayload msg) of
        None \<Rightarrow> s
      | Some (docID, peerID, peerName, line, col) \<Rightarrow>
          (case dvPresence s docID of
             None \<Rightarrow> s
           | Some pres \<Rightarrow> s\<lparr>dvPresence := (dvPresence s)(docID \<mapsto> UpdateCursor now peerID peerName line col pres)\<rparr>))"

definition Docs_handleMessage :: "gotime \<Rightarrow> doc_message \<Rightarrow> docs_service \<Rightarrow> docs_service option" where
  "Docs_handleMessage now msg s =
     (if mgType msg = DocMsgOperation then handleOperation now msg s
      else if mgType msg = DocMsgSyncReq then Some (handleSyncRequest msg s)
      else if mgType msg = DocMsgFullState then Some (handleFullState msg s)
      else if mgType msg = DocMsgPresence then Some (handlePresence now msg s)
      else Some s)"

fun handleStream :: "(gotime \<times> bytes) list \<Rightarrow> docs_service \<Rightarrow> docs_service option" where
  "handleStream [] s = Some s"
| "handleStream ((now, buf) # reads) s =
     (if buf = [] then handleStream reads s
      else case decodeDocMessage buf of
             Inl _ \<Rightarrow> handleStream reads s
           | Inr msg \<Rightarrow> (case Docs_handleMessage now msg s of None \<Rightarrow> None | Some s' \<Rightarrow> handleStream reads s'))"

definition Service_Marshal :: "string list \<Rightarrow> docs_service \<Rightarrow> bytes list" where
  "Service_Marshal order s = map Doc_Marshal (List.map_filter (dvDocs s) order)"

definition restore_doc :: "docs_service \<Rightarrow> bytes \<Rightarrow> docs_service" where
  "restore_doc s docData =
     (case Doc_Unmarshal docData (NewDocument [] [] (dvNodeID s)) of
        (Some _, _) \<Rightarrow> s
      | (None, doc) \<Rightarrow> add_doc (dcID doc) doc (NewPresenceService (dcID doc) 0) s)"

definition Service_Unmarshal :: "bytes list \<Rightarrow> docs_service \<Rightarrow> docs_service" where
  "Service_Unmarshal data s = foldl restore_doc s data"

section \<open>The bookkeeping of the service\<close>

text \<open>Every document has its presence and every document is safe to edit.\<close>

definition service_ok :: "docs_service \<Rightarrow> bool" where
  "service_ok s \<longleftrightarrow> finite (dom (dvDocs s)) \<and> dom (dvPresence s) = dom (dvDocs s)
     \<and> svActiveDocs (dvStats s) = word_of_nat (card (dom (dvDocs s))) \<and> (\<forall>doc\<in>ran (dvDocs s). doc_ok doc)"

datatype service_call = SCreate string string | SDelete string | SEdit string doc_op | SMessage doc_message
  | SPresence string string bytes int int | SSelection string string bytes int int int int | SShow "bytes list" string

fun service_step :: "docs_service \<Rightarrow> gotime \<times> service_call \<Rightarrow> docs_service option" where
  "service_step s (now, SCreate docID title) = Some (GetOrCreateDocument docID title s)"
| "service_step s (now, SDelete docID) = Some (snd (DeleteDocument docID s))"
| "service_step s (now, SEdit docID op) = map_option (snd \<circ> snd) (ApplyLocalOp now docID op s)"
| "service_step s (now, SMessage msg) = Docs_handleMessage now msg s"
| "service_step s (now, SPresence docID name peer line col) = Some (snd (UpdatePresence now docID name peer line col s))"
| "service_step s (now, SSelection docID name peer l c l' c') = Some (Service_UpdateSelection now docID name peer l c l' c' s)"
| "service_step s (now, SShow order docID) = Some (snd (GetDocPresence now order docID s))"

fun service_run :: "docs_service \<Rightarrow> (gotime \<times> service_call) list \<Rightarrow> docs_service option" where
  "service_run s [] = Some s"
| "service_run s (c # cs) = (case service_step s c of None \<Rightarrow> None | Some s' \<Rightarrow> service_run s' cs)"

lemma ok_set_doc:
  assumes "service_ok s" "dvDocs s i = Some doc" "doc_ok doc'"
  shows "service_ok (s\<lparr>dvDocs := (dvDocs s)(i \<mapsto> doc')\<rparr>)"
  using assms by (auto simp: service_ok_def ran_def insert_absorb domI)

lemma ok_set_presence:
  assumes "service_ok s" "dvPresence s i = Some p"
  shows "service_ok (s\<lparr>dvPresence := (dvPresence s)(i \<mapsto> p')\<rparr>)"
proof -
  have "insert i (dom (dvPresence s)) = dom (dvPresence s)" using assms(2) by (simp add: insert_absorb domI)
  with assms(1) show ?thesis by (simp add: service_ok_def)
qed

lemma ok_count [simp]: "service_ok (count_broadcast s) = service_ok s"
  by (simp add: service_ok_def count_broadcast_def)

lemma ok_Create: "service_ok s \<Longrightarrow> service_ok (CreateDocument i t s)"
  by (auto simp: CreateDocument_def add_doc_def service_ok_def card_insert_if ran_def doc_ok_New)

lemma ok_GetOrCreate: "service_ok s \<Longrightarrow> service_ok (GetOrCreateDocument i t s)"
  by (simp add: GetOrCreateDocument_def ok_Create)

lemma ok_Delete: "service_ok s \<Longrightarrow> service_ok (snd (DeleteDocument i s))"
proof -
  assume ok: "service_ok s"
  show ?thesis
  proof (cases "dvDocs s i")
    case (Some doc)
    then have i: "i \<in> dom (dvDocs s)" by (rule domI)
    with ok have "card (dom (dvDocs s)) \<noteq> 0" by (auto simp: service_ok_def)
    then have "(word_of_nat (card (dom (dvDocs s) - {i})) :: int64) = word_of_nat (card (dom (dvDocs s))) - 1"
      using i ok by (simp add: service_ok_def)
    with ok Some show ?thesis by (auto simp: DeleteDocument_def service_ok_def ran_def)
  qed (simp add: DeleteDocument_def ok)
qed

lemma ok_edit:
  assumes "service_ok s"
  shows "\<exists>e b s'. ApplyLocalOp now i op s = Some (e, b, s') \<and> service_ok s'"
proof (cases "dvDocs s i")
  case (Some doc)
  then have "doc_ok doc" using assms by (auto simp: service_ok_def ran_def)
  then obtain r doc' where "ApplyOp now op doc = Some (r, doc')" "doc_ok doc'" by (rule ApplyOp_ok [of doc now op])
  with Some ok_set_doc [OF assms Some] show ?thesis by (simp add: ApplyLocalOp_def Let_def)
qed (simp add: ApplyLocalOp_def assms)

lemma ok_message:
  assumes "service_ok s"
  shows "\<exists>s'. Docs_handleMessage now msg s = Some s' \<and> service_ok s'"
proof -
  have "\<exists>s'. handleOperation now msg s = Some s' \<and> service_ok s'"
  proof (cases "decodeOpPayload (mgPayload msg)")
    case (Inr x)
    obtain op i where x: "x = (op, i)" by (cases x)
    show ?thesis
    proof (cases "dvDocs s i")
      case (Some doc)
      then have "doc_ok doc" using assms by (auto simp: service_ok_def ran_def)
      then obtain r doc' where "ApplyOp now op doc = Some (r, doc')" "doc_ok doc'" by (rule ApplyOp_ok [of doc now op])
      with Inr x Some ok_set_doc [OF assms Some] show ?thesis by (simp add: handleOperation_def Let_def)
    qed (simp add: handleOperation_def Inr x assms)
  qed (simp add: handleOperation_def assms)
  moreover have "service_ok (handlePresence now msg s)"
    using assms ok_set_presence by (auto simp: handlePresence_def split: option.splits prod.splits)
  moreover have "service_ok (handleFullState msg s)" "service_ok (handleSyncRequest msg s)"
    using assms ok_GetOrCreate by (auto simp: handleFullState_def handleSyncRequest_def split: sum.splits option.splits)
  ultimately show ?thesis using assms by (auto simp: Docs_handleMessage_def)
qed

lemma service_step_ok: "service_ok s \<Longrightarrow> \<exists>s'. service_step s c = Some s' \<and> service_ok s'"
proof -
  assume ok: "service_ok s"
  obtain now k where c: "c = (now, k)" by (cases c)
  show ?thesis
  proof (cases k)
    case (SEdit i op)
    with ok_edit [OF ok, of now i op] c show ?thesis by auto
  next
    case (SMessage msg)
    with ok_message [OF ok, of now msg] c show ?thesis by simp
  next
    case (SPresence i n p l k)
    with c ok ok_set_presence [OF ok] show ?thesis by (auto simp: UpdatePresence_def split: option.splits)
  next
    case (SSelection i n p l k l' k')
    with c ok ok_set_presence [OF ok] show ?thesis by (auto simp: Service_UpdateSelection_def split: option.splits)
  next
    case (SShow order i)
    with c ok ok_set_presence [OF ok] show ?thesis by (auto simp: GetDocPresence_def split: option.splits prod.splits)
  qed (use c ok in \<open>simp_all add: ok_GetOrCreate ok_Delete\<close>)
qed

text \<open>
  The document service keeps its books. Whatever is created, deleted, edited or shown and whatever
  messages peers send, no call panics, every document keeps its own presence and its line invariant,
  and \<open>ActiveDocs\<close> is the number of documents.
\<close>

theorem docs_service_consistent:
  "\<exists>s. service_run (NewService nodeID) calls = Some s \<and> dom (dvPresence s) = dom (dvDocs s)
     \<and> svActiveDocs (dvStats s) = word_of_nat (card (dom (dvDocs s))) \<and> ran (dvDocs s) \<subseteq> Collect doc_ok"
proof -
  have "service_ok s \<Longrightarrow> \<exists>s'. service_run s cs = Some s' \<and> service_ok s'" for s cs
  proof (induction cs arbitrary: s)
    case (Cons c cs)
    from service_step_ok [OF Cons.prems, of c] obtain s1 where "service_step s c = Some s1" "service_ok s1" by blast
    with Cons.IH [of s1] show ?case by simp
  qed simp
  from this [of "NewService nodeID" calls] show ?thesis by (auto simp: service_ok_def NewService_def)
qed

text \<open>
  Restoring breaks the books: \<open>Unmarshal\<close> counts a document again that the service already has.
\<close>

theorem docs_restore_miscounts:
  "let s = CreateDocument ''d'' ''t'' (NewService ''n''); s' = Service_Unmarshal (Service_Marshal [''d''] s) s
   in svActiveDocs (dvStats s') = 2 \<and> dvDocs s' ''d'' \<noteq> None \<and> (\<forall>i. i \<noteq> ''d'' \<longrightarrow> dvDocs s' i = None)"
proof -
  let ?s = "CreateDocument ''d'' ''t'' (NewService ''n'')"
  let ?r = "Doc_Unmarshal (Doc_Marshal (NewDocument ''d'' ''t'' ''n'')) (NewDocument [] [] ''n'')"
  have m: "Service_Marshal [''d''] ?s = [Doc_Marshal (NewDocument ''d'' ''t'' ''n'')]"
    by (simp add: Service_Marshal_def CreateDocument_def NewService_def add_doc_def)
  have "sendable_doc (NewDocument ''d'' ''t'' ''n'')"
    by (simp add: sendable_doc_def NewDocument_def NewRGA_def RGA_Marshal_def encodeRGAList_def)
  from doc_unmarshal_marshal [OF doc_ok_New this, of "NewDocument [] [] ''n''"]
  have r: "fst ?r = None" "dcID (snd ?r) = ''d''" by (auto simp: NewDocument_def)
  have "dvNodeID ?s = ''n''" by (simp add: CreateDocument_def NewService_def add_doc_def)
  with r have "Service_Unmarshal (Service_Marshal [''d''] ?s) ?s = add_doc ''d'' (snd ?r) (NewPresenceService ''d'' 0) ?s"
    by (cases ?r) (simp add: m Service_Unmarshal_def restore_doc_def)
  then show ?thesis by (simp add: add_doc_def CreateDocument_def NewService_def)
qed

section \<open>What peers receive\<close>

text \<open>
  Broadcast edits are not applied. A local edit is broadcast as a message whose payload is the bare
  operation, but the handler decodes the payload as a second envelope. Unless the first four bytes of
  the author's identifier happen to be a number below the size of the operation, every receiver drops
  the edit.
\<close>

theorem docs_broadcast_ignored:
  assumes "ApplyLocalOp now docID op s = Some (e, [(x, msg)], s')"
    and "length (opAuthorID op) = 32" "length (marshalOp op) < unat (decodeUint32 (take 4 (opAuthorID op))) + 45"
  shows "Docs_handleMessage t msg r = Some r"
proof -
  have msg: "mgType msg = DocMsgOperation" "mgPayload msg = marshalOp op"
    using assms(1) by (auto simp: ApplyLocalOp_def Let_def split: option.splits prod.splits if_splits)
  have "take 4 (drop 1 (marshalOp op)) = take 4 (opAuthorID op)" using assms(2) by (simp add: marshalOp_def)
  then have "\<exists>err. decodeDocMessage (marshalOp op) = Inl err"
    using assms(3) by (simp add: decodeDocMessage_def Let_def) linarith
  then have "\<exists>err. decodeOpPayload (marshalOp op) = Inl err" by (auto simp: decodeOpPayload_def)
  with msg show ?thesis by (auto simp: Docs_handleMessage_def handleOperation_def)
qed

definition demo_service :: docs_service where
  "demo_service = CreateDocument ''d'' ''t'' (NewService ''n'')"

theorem docs_broadcast_ignored_witness:
  "\<exists>e x msg s'. InsertText 1 1 ''d'' (replicate 32 0xAB) 0 ''hi'' demo_service = Some (e, [(x, msg)], s')
     \<and> Docs_handleMessage 2 msg demo_service = Some demo_service"
proof -
  let ?op = "NewInsertOp ''d'' (replicate 32 0xAB) 0 ''hi'' 1"
  have n: "map_option (\<lambda>(e, b, s). length b) (ApplyLocalOp 1 ''d'' ?op demo_service) = Some 1"
    and len:
    "length (marshalOp ?op) < unat (decodeUint32 (take 4 (opAuthorID ?op))) + 45" "length (opAuthorID ?op) = 32"
    by code_simp+
  from n obtain e x msg s' where a: "ApplyLocalOp 1 ''d'' ?op demo_service = Some (e, [(x, msg)], s')"
    by (auto simp: length_Suc_conv)
  from docs_broadcast_ignored [OF a len(2,1), of 2 demo_service] a show ?thesis by (auto simp: InsertText_def)
qed

lemma presence_update_roundtrip:
  assumes "length docID < 2 ^ 32" "length peerID = 32" "length peerName < 2 ^ 32"
    and "0 \<le> line" "line < 2 ^ 32" "0 \<le> col" "col < 2 ^ 32"
  shows "unmarshalPresenceUpdate (marshalPresenceUpdate docID peerID peerName line col) = Some (docID, peerID, peerName, line, col)"
proof -
  have "read_block (put_block (str_bytes peerName)) = Block (str_bytes peerName) []"
    using assms(3) by (simp add: read_block_def put_block_def Let_def wire_simps unat_cast)
  with assms show ?thesis
    by (simp add: unmarshalPresenceUpdate_def marshalPresenceUpdate_def put_block_def Let_def wire_simps unat_cast uint_position)
qed

text \<open>
  Cursors are delivered. A presence update for a document both sides have is broadcast, survives the
  message format, and at the receiver moves the peer's cursor to the same line and column.
\<close>

theorem docs_presence_delivered:
  assumes "UpdatePresence now docID peerName peerID line col s = ([(x, msg)], s')" "dvPresence r docID = Some pres"
    and "length docID < 2 ^ 32" "length peerID = 32" "length peerName < 2 ^ 32"
    and "0 \<le> line" "line < 2 ^ 32" "0 \<le> col" "col < 2 ^ 32"
  shows "\<exists>r' pres' pp. handleStream [(t, encodeDocMessage msg)] r = Some r' \<and> dvPresence r' docID = Some pres'
    \<and> psPresence pres' peerID = Some pp \<and> cuLine (ppCursor pp) = line \<and> cuColumn (ppCursor pp) = col \<and> ppLastSeen pp = t"
proof -
  have msg: "msg = \<lparr>mgType = DocMsgPresence, mgDocID = docID, mgAuthorID = replicate 32 0,
      mgPayload = marshalPresenceUpdate docID peerID peerName line col, mgTimestamp = 0\<rparr>"
    using assms(1) by (auto simp: UpdatePresence_def split: option.splits)
  have "decodeDocMessage (encodeDocMessage msg) = Inr msg"
    using assms(3) by (intro message_roundtrip) (simp add: msg sendable_message_def)
  moreover have "encodeDocMessage msg \<noteq> []" by (simp add: encodeDocMessage_def)
  moreover have "Docs_handleMessage t msg r = Some (r\<lparr>dvPresence := (dvPresence r)(docID \<mapsto>
      UpdateCursor t peerID peerName line col pres)\<rparr>)"
    using assms(2) presence_update_roundtrip [OF assms(3-)]
    by (simp add: msg Docs_handleMessage_def handlePresence_def doc_msg_types)
  ultimately show ?thesis by (simp add: UpdateCursor_def update_peer_lookup mk_cursor_def)
qed

theorem docs_presence_delivered_witness:
  "\<exists>x msg s' r' pres' pp. UpdatePresence 1 ''d'' ''al'' (replicate 32 1) 3 4 demo_service = ([(x, msg)], s')
     \<and> handleStream [(2, encodeDocMessage msg)] demo_service = Some r' \<and> dvPresence r' ''d'' = Some pres'
     \<and> psPresence pres' (replicate 32 1) = Some pp \<and> cuLine (ppCursor pp) = 3"
proof -
  have pres: "dvPresence demo_service ''d'' = Some (NewPresenceService ''d'' 5000000000)"
    by (simp add: demo_service_def CreateDocument_def NewService_def add_doc_def)
  then obtain x msg s' where u: "UpdatePresence 1 ''d'' ''al'' (replicate 32 1) 3 4 demo_service = ([(x, msg)], s')"
    by (simp add: UpdatePresence_def)
  from docs_presence_delivered [OF u pres, of 2] u show ?thesis by fastforce
qed

section \<open>States on the wire\<close>

lemma joinLines_Cons: "joinLines (l # m # ls) = l @ newline @ joinLines (m # ls)"
proof -
  have "foldl (\<lambda>r x. r @ newline @ x) (a @ b) xs = a @ foldl (\<lambda>r x. r @ newline @ x) b xs" for a b xs
    by (induction xs arbitrary: b) simp_all
  then show ?thesis by simp
qed

lemma split_lines_append: "CHR 0x0A \<notin> set l \<Longrightarrow> split_lines cur (l @ s) = split_lines (cur @ l) s"
  by (induction l arbitrary: cur) auto

lemma split_joinLines:
  "ls \<noteq> [] \<Longrightarrow> \<forall>l\<in>set ls. CHR 0x0A \<notin> set l \<Longrightarrow> split_lines [] (joinLines ls) = ls"
proof (induction ls rule: induct_list012)
  case (2 l)
  then show ?case using split_lines_append [of l "[]" "[]"] by simp
next
  case (3 l m ls)
  then have "split_lines [] (joinLines (l # m # ls)) = split_lines l (newline @ joinLines (m # ls))"
    unfolding joinLines_Cons using split_lines_append [of l "[]"] by simp
  with 3 show ?case by (simp add: newline_def)
qed simp

text \<open>
  A state snapshot keeps the text. For lines without line breaks that are not just one empty line,
  decoding an encoded snapshot returns identifier, title, lines and version; block types and length are
  not part of the format.
\<close>

theorem docs_snapshot_roundtrip:
  assumes "length (stDocID st) < 2 ^ 32" "length (stTitle st) < 2 ^ 32" "length (joinLines (stContent st)) < 2 ^ 32"
    and "\<forall>l\<in>set (stContent st). CHR 0x0A \<notin> set l" "stContent st \<noteq> [[]]"
  shows "unmarshalDocumentState (marshalDocumentState st) =
    Inr \<lparr>stDocID = stDocID st, stTitle = stTitle st, stContent = stContent st, stBlockTypes = [], stLength = 0,
         stVersion = stVersion st, stUpdatedAt = 0\<rparr>"
proof -
  have "splitLines (joinLines (stContent st)) = stContent st"
  proof (cases "joinLines (stContent st) = []")
    case True
    have "stContent st = []"
    proof (rule ccontr)
      assume "stContent st \<noteq> []"
      with True split_joinLines [of "stContent st"] assms(4,5) show False by simp
    qed
    then show ?thesis by (simp add: splitLines_def)
  next
    case False
    then have "stContent st \<noteq> []" by auto
    with False split_joinLines assms(4) show ?thesis by (simp add: splitLines_def)
  qed
  with assms(1-3) show ?thesis
    by (simp add: unmarshalDocumentState_def marshalDocumentState_def wire_simps)
qed

theorem docs_snapshot_roundtrip_witness:
  "unmarshalDocumentState (marshalDocumentState (State demo_doc)) =
     Inr \<lparr>stDocID = ''d'', stTitle = ''t'', stContent = [''one''], stBlockTypes = [], stLength = 0, stVersion = 1, stUpdatedAt = 0\<rparr>"
proof -
  have "stDocID (State demo_doc) = ''d''" "stTitle (State demo_doc) = ''t''" "stContent (State demo_doc) = [''one'']"
    "stVersion (State demo_doc) = 1" by code_simp+
  then show ?thesis using docs_snapshot_roundtrip [of "State demo_doc"] by simp
qed

end
