(* ===== verification/Docs_Export.thy ===== *)
theory Docs_Export
  imports Docs_Service
begin

text \<open>
  Export of documents (\<open>pkg/services/docs/export.go\<close>): Markdown, HTML with \<open>html.EscapeString\<close>, and the line
  difference of two states. \<open>WordCount\<close> and \<open>MarkdownToPlainText\<close> rest on Go's Unicode white space and
  are left out.
\<close>

definition ExportMarkdown :: byte where "ExportMarkdown = 0"
definition ExportHTML :: byte where "ExportHTML = 1"

definition ExportFormat_String :: "byte \<Rightarrow> string" where
  "ExportFormat_String f = (if f = ExportHTML then ''html'' else ''markdown'')"

definition formatMarkdownLine :: "string \<Rightarrow> block_type \<Rightarrow> nat \<Rightarrow> string" where
  "formatMarkdownLine line bt index =
     (if bt = BlockHeading1 then ''# '' @ line
      else if bt = BlockHeading2 then ''## '' @ line
      else if bt = BlockHeading3 then ''### '' @ line
      else if bt = BlockBulletList then ''- '' @ line
      else if bt = BlockNumberedList then nat_dec (index + 1) @ ''. '' @ line
      else if bt = BlockCodeBlock then replicate 3 (CHR 0x60) @ newline @ line @ newline @ replicate 3 (CHR 0x60)
      else if bt = BlockQuote then ''> '' @ line
      else line)"

definition ToMarkdown :: "document \<Rightarrow> string" where
  "ToMarkdown d = (if dcTitle d \<noteq> [] then ''# '' @ dcTitle d @ newline @ newline else [])
     @ concat (map (\<lambda>(i, line).
         (if i < length (dcBlockTypes d) then formatMarkdownLine line (dcBlockTypes d ! i) i else line) @ newline)
         (List.enumerate 0 (dcLines d)))"

text \<open>\<open>html.EscapeString\<close>: five characters are replaced.\<close>

definition escape_char :: "char \<Rightarrow> string" where
  "escape_char c =
     (if c = CHR 0x26 then ''&amp;'' else if c = CHR 0x27 then ''&#39;'' else if c = CHR 0x3C then ''&lt;''
      else if c = CHR 0x3E then ''&gt;'' else if c = CHR 0x22 then ''&#34;'' else [c])"

definition EscapeString :: "string \<Rightarrow> string" where
  "EscapeString s = concat (map escape_char s)"

definition html_tags :: "block_type \<Rightarrow> string \<times> string" where
  "html_tags bt =
     (if bt = BlockHeading1 then (''<h1>'', ''</h1>'') else if bt = BlockHeading2 then (''<h2>'', ''</h2>'')
      else if bt = BlockHeading3 then (''<h3>'', ''</h3>'')
      else if bt = BlockBulletList then (''<ul><li>'', ''</li></ul>'')
      else if bt = BlockNumberedList then (''<ol><li>'', ''</li></ol>'')
      else if bt = BlockCodeBlock then (''<pre><code>'', ''</code></pre>'')
      else if bt = BlockQuote then (''<blockquote>'', ''</blockquote>'') else (''<p>'', ''</p>''))"

definition formatHTMLLine :: "string \<Rightarrow> block_type \<Rightarrow> string" where
  "formatHTMLLine line bt = fst (html_tags bt) @ EscapeString line @ snd (html_tags bt)"

definition dquoted :: "string \<Rightarrow> string" where "dquoted s = [CHR 0x22] @ s @ [CHR 0x22]"
definition squoted :: "string \<Rightarrow> string" where "squoted s = [CHR 0x27] @ s @ [CHR 0x27]"

definition html_head :: string where
  "html_head = ''<!DOCTYPE html>'' @ newline @ ''<html lang='' @ dquoted ''en'' @ ''>'' @ newline @ ''<head>'' @ newline
     @ ''  <meta charset='' @ dquoted ''UTF-8'' @ ''>'' @ newline
     @ ''  <meta name='' @ dquoted ''viewport'' @ '' content='' @ dquoted ''width=device-width, initial-scale=1.0'' @ ''>'' @ newline"

definition html_style :: string where
  "html_style = ''  <style>'' @ newline
     @ ''    body { font-family: -apple-system, BlinkMacSystemFont, '' @ squoted ''Segoe UI''
     @ '', Roboto, sans-serif; max-width: 800px; margin: 0 auto; padding: 2rem; line-height: 1.6; }'' @ newline
     @ ''    h1 { border-bottom: 1px solid #eaecef; padding-bottom: 0.3em; }'' @ newline
     @ ''    h2 { border-bottom: 1px solid #eaecef; padding-bottom: 0.3em; }'' @ newline
     @ ''    pre { background: #f6f8fa; padding: 1rem; border-radius: 6px; overflow-x: auto; }'' @ newline
     @ ''    blockquote { border-left: 4px solid #dfe2e5; padding-left: 1rem; color: #6a737d; }'' @ newline
     @ ''  </style>'' @ newline @ ''</head>'' @ newline @ ''<body>'' @ newline"

definition ToHTML :: "document \<Rightarrow> string" where
  "ToHTML d = html_head
     @ (if dcTitle d \<noteq> [] then ''  <title>'' @ EscapeString (dcTitle d) @ ''</title>'' @ newline else [])
     @ html_style
     @ (if dcTitle d \<noteq> [] then ''<h1>'' @ EscapeString (dcTitle d) @ ''</h1>'' @ newline else [])
     @ concat (map (\<lambda>(i, line).
         formatHTMLLine line (if i < length (dcBlockTypes d) then dcBlockTypes d ! i else BlockParagraph) @ newline)
         (List.enumerate 0 (dcLines d)))
     @ ''</body>'' @ newline @ ''</html>'' @ newline"

definition ToFormat :: "document \<Rightarrow> byte \<Rightarrow> string" where
  "ToFormat d format = (if format = ExportHTML then ToHTML d else ToMarkdown d)"

definition ExportToBytes :: "document \<Rightarrow> byte \<Rightarrow> bytes" where
  "ExportToBytes d format = str_bytes (ToFormat d format)"

definition PlainText :: "document \<Rightarrow> string" where
  "PlainText d = joinLines (dcLines d)"

definition Diff :: "document_state \<Rightarrow> document_state \<Rightarrow> string list" where
  "Diff old new =
     map (\<lambda>l. ''+ '' @ l) (filter (\<lambda>l. l \<notin> set (stContent old)) (stContent new))
     @ map (\<lambda>l. ''- '' @ l) (filter (\<lambda>l. l \<notin> set (stContent new)) (stContent old))"

definition MergeMarkdown :: "document_state \<Rightarrow> document_state \<Rightarrow> string" where
  "MergeMarkdown a b = ''# '' @ stTitle a @ '' (merged)'' @ newline @ newline @ ''## From Document A'' @ newline @ newline
     @ concat (map (\<lambda>l. l @ newline) (stContent a)) @ newline @ ''## From Document B'' @ newline @ newline
     @ concat (map (\<lambda>l. l @ newline) (stContent b))"

section \<open>Escaping\<close>

definition markup :: "char \<Rightarrow> bool" where
  "markup c \<longleftrightarrow> c = CHR 0x3C \<or> c = CHR 0x3E \<or> c = CHR 0x22 \<or> c = CHR 0x27"

lemma no_markup: "filter markup (EscapeString s) = []"
  by (induction s) (auto simp: EscapeString_def escape_char_def markup_def)

lemma map_zip_same: "length xs = length ys \<Longrightarrow> (\<And>i x y. f (i, x) = f (i, y)) \<Longrightarrow>
    map f (List.enumerate n xs) = map f (List.enumerate n ys)"
  by (induction xs ys arbitrary: n rule: list_induct2) auto

text \<open>
  Text cannot become markup. The angle brackets and quotes of an exported page are those of its
  template: two documents with the same block types and equally many lines, both with or both without a
  title, export to pages with the same sequence of these characters, whatever their lines and titles
  contain.
\<close>

theorem docs_html_inert:
  assumes "length (dcLines d) = length (dcLines d')" "dcBlockTypes d = dcBlockTypes d'" "dcTitle d = [] \<longleftrightarrow> dcTitle d' = []"
  shows "filter markup (ToHTML d) = filter markup (ToHTML d')"
proof -
  let ?f = "\<lambda>x. filter markup (formatHTMLLine (snd x)
      (if fst x < length (dcBlockTypes d') then dcBlockTypes d' ! fst x else BlockParagraph)) @ filter markup newline"
  have "map ?f (List.enumerate 0 (dcLines d)) = map ?f (List.enumerate 0 (dcLines d'))"
    by (rule map_zip_same) (simp_all add: assms(1) formatHTMLLine_def no_markup)
  then show ?thesis
    unfolding ToHTML_def assms(2,3) by (simp add: filter_concat comp_def case_prod_beta no_markup)
qed

theorem docs_html_inert_witness:
  "filter markup (ToHTML ((NewDocument ''d'' ''a<b'' ''n'')\<lparr>dcLines := [''<script>''], dcBlockTypes := [BlockQuote]\<rparr>)) =
   filter markup (ToHTML ((NewDocument ''d'' ''t'' ''n'')\<lparr>dcLines := [''plain''], dcBlockTypes := [BlockQuote]\<rparr>))"
  by (rule docs_html_inert) (simp_all add: NewDocument_def)

text \<open>The difference of two states is empty exactly when they have the same set of lines, in whatever order.\<close>

lemma Diff_empty_iff: "Diff a b = [] \<longleftrightarrow> set (stContent a) = set (stContent b)"
  by (auto simp: Diff_def filter_empty_conv)

end
