(* ===== verification/Files_Wire.thy ===== *)
theory Files_Wire
  imports LW_Prelude
begin

text \<open>
  The data of the file service and its wire formats: content-defined chunking and the frames of a
  data-channel transfer (\<open>pkg/services/files/transfer_wire.go\<close>), blocks (\<open>store.go\<close>) and want lists
  (\<open>exchange.go\<close>). A \<open>cid.Cid\<close> is a Go string holding the binary identifier, so it is its bytes; the zero
  value is empty. The parameters \<open>cid_of\<close> (the hash behind \<open>computeBlockCID\<close>) and \<open>cast\<close> (\<open>cid.Cast\<close>) stand
  for the go-cid and multihash libraries.
\<close>

unbundle bit_operations_syntax

type_synonym cid = bytes

record block =
  bkCID :: cid
  bkData :: bytes

section \<open>Content-defined chunking\<close>

text \<open>\<open>crc32.NewIEEE\<close>: the reflected polynomial, one bit at a time.\<close>

definition crc_bit :: "u32 \<Rightarrow> u32" where
  "crc_bit c = (if bit c 0 then drop_bit 1 c XOR 0xEDB88320 else drop_bit 1 c)"

definition crc_byte :: "u32 \<Rightarrow> byte \<Rightarrow> u32" where
  "crc_byte c b = (crc_bit ^^ 8) (c XOR ucast b)"

definition crc32 :: "bytes \<Rightarrow> u32" where
  "crc32 bs = foldl crc_byte 0xFFFFFFFF bs XOR 0xFFFFFFFF"

definition cdcMinSize :: nat where "cdcMinSize = 2048"
definition cdcMaxSize :: nat where "cdcMaxSize = 65536"
definition cdcMask :: u32 where "cdcMask = 0x1FFF"

record chunker =
  ckWindow :: bytes
  ckPos :: nat

definition NewContentDefinedChunker :: chunker where
  "NewContentDefinedChunker = \<lparr>ckWindow = replicate 64 0, ckPos = 0\<rparr>"

definition roll :: "chunker \<Rightarrow> byte \<Rightarrow> chunker" where
  "roll c b = c\<lparr>ckWindow := (ckWindow c)[ckPos c := b], ckPos := (ckPos c + 1) mod length (ckWindow c)\<rparr>"

definition boundary :: "chunker \<Rightarrow> bytes \<Rightarrow> bool" where
  "boundary c chunk \<longleftrightarrow> length chunk \<ge> cdcMinSize \<and> crc32 (ckWindow c @ chunk) AND cdcMask = 0 \<or> length chunk \<ge> cdcMaxSize"

text \<open>The loop of \<open>Feed\<close>: the chunk since the last boundary, the bytes to come, and the state of \<open>emit\<close>.\<close>

fun feed_loop ::
  "(bytes \<Rightarrow> 's \<Rightarrow> 'e option \<times> 's) \<Rightarrow> chunker \<Rightarrow> bytes \<Rightarrow> bytes \<Rightarrow> 's \<Rightarrow> 'e option \<times> chunker \<times> 's" where
  "feed_loop emit c chunk [] s =
     (if chunk \<noteq> [] then (case emit chunk s of (e, s') \<Rightarrow> (e, c, s')) else (None, c, s))"
| "feed_loop emit c chunk (b # rest) s =
     (let c' = roll c b; chunk' = chunk @ [b]
      in if boundary c' chunk'
         then (case emit chunk' s of
                 (Some e, s') \<Rightarrow> (Some e, c', s')
               | (None, s') \<Rightarrow> feed_loop emit c' [] rest s')
         else feed_loop emit c' chunk' rest s)"

definition Feed ::
  "chunker \<Rightarrow> bytes \<Rightarrow> (bytes \<Rightarrow> 's \<Rightarrow> 'e option \<times> 's) \<Rightarrow> 's \<Rightarrow> 'e option \<times> chunker \<times> 's" where
  "Feed c data emit s = feed_loop emit c [] data s"

datatype files_error = EmptyBlock | FrameTooShort nat | FrameTruncated nat | BlobTooLong nat | BlobTruncated nat
  | CountTooLarge nat | MalformedCID | BlockTooShort | BlockTruncated nat nat | WantTooShort
  | WantCidLength | WantCidTooLong nat | WantCidBody

definition CidFor :: "(bytes \<Rightarrow> cid) \<Rightarrow> bytes \<Rightarrow> files_error + cid" where
  "CidFor cid_of data = (if data = [] then Inl EmptyBlock else Inr (cid_of data))"

definition emit_block :: "(bytes \<Rightarrow> cid) \<Rightarrow> bytes \<Rightarrow> block list \<Rightarrow> files_error option \<times> block list" where
  "emit_block cid_of chunk blocks =
     (case CidFor cid_of chunk of
        Inl e \<Rightarrow> (Some e, blocks) | Inr c \<Rightarrow> (None, blocks @ [\<lparr>bkCID = c, bkData = chunk\<rparr>]))"

definition Chunk :: "(bytes \<Rightarrow> cid) \<Rightarrow> bytes \<Rightarrow> files_error + block list" where
  "Chunk cid_of data =
     (case Feed NewContentDefinedChunker data (emit_block cid_of) [] of
        (Some e, _, _) \<Rightarrow> Inl e | (None, _, blocks) \<Rightarrow> Inr blocks)"

section \<open>Frames\<close>

definition wireHello :: byte where "wireHello = 1"
definition wireManifest :: byte where "wireManifest = 2"
definition wireBlock :: byte where "wireBlock = 3"
definition wireComplete :: byte where "wireComplete = 4"
definition wireAbort :: byte where "wireAbort = 5"

lemmas wire_types = wireHello_def wireManifest_def wireBlock_def wireComplete_def wireAbort_def

definition maxFrameBytes :: nat where "maxFrameBytes = 4194304"

record frame =
  frType :: byte
  frCIDs :: "cid list"
  frTotal :: u32
  frCID :: cid
  frData :: bytes
  frReason :: string

definition put_blob :: "bytes \<Rightarrow> bytes" where
  "put_blob raw = put_u32 (word_of_nat (length raw)) @ raw"

definition encodeFrame :: "frame \<Rightarrow> bytes" where
  "encodeFrame f = [frType f] @ put_u32 (frTotal f) @ put_u32 (word_of_nat (length (frCIDs f)))
     @ concat (map put_blob (frCIDs f)) @ put_blob (frCID f) @ put_blob (frData f) @ put_blob (str_bytes (frReason f))"

text \<open>\<open>readU32\<close> and \<open>readBlob\<close>; the cursor is what is left of the frame.\<close>

definition readU32 :: "bytes \<Rightarrow> files_error + u32 \<times> bytes" where
  "readU32 b = (if length b < 4 then Inl (FrameTruncated (length b)) else Inr (get_u32 (take 4 b), drop 4 b))"

definition readBlob :: "bytes \<Rightarrow> files_error + bytes \<times> bytes" where
  "readBlob b =
     (case readU32 b of
        Inl e \<Rightarrow> Inl e
      | Inr (n, rest) \<Rightarrow>
          if unat n > maxFrameBytes then Inl (BlobTooLong (unat n))
          else if unat n > length rest then Inl (BlobTruncated (unat n))
          else Inr (take (unat n) rest, drop (unat n) rest))"

fun read_cids :: "(bytes \<Rightarrow> cid option) \<Rightarrow> nat \<Rightarrow> bytes \<Rightarrow> files_error + cid list \<times> bytes" where
  "read_cids cast 0 b = Inr ([], b)"
| "read_cids cast (Suc n) b =
     (case readBlob b of
        Inl e \<Rightarrow> Inl e
      | Inr (raw, rest) \<Rightarrow>
          (case cast raw of
             None \<Rightarrow> Inl MalformedCID
           | Some c \<Rightarrow> (case read_cids cast n rest of Inl e \<Rightarrow> Inl e | Inr (cs, rest') \<Rightarrow> Inr (c # cs, rest'))))"

definition read_cid :: "(bytes \<Rightarrow> cid option) \<Rightarrow> bytes \<Rightarrow> files_error + cid \<times> bytes" where
  "read_cid cast b =
     (case readBlob b of
        Inl e \<Rightarrow> Inl e
      | Inr (raw, rest) \<Rightarrow>
          if raw = [] then Inr ([], rest)
          else (case cast raw of None \<Rightarrow> Inl MalformedCID | Some c \<Rightarrow> Inr (c, rest)))"

definition ebind :: "'e + 'a \<Rightarrow> ('a \<Rightarrow> 'e + 'b) \<Rightarrow> 'e + 'b" where
  "ebind m f = (case m of Inl e \<Rightarrow> Inl e | Inr x \<Rightarrow> f x)"

definition decodeFrame :: "(bytes \<Rightarrow> cid option) \<Rightarrow> bytes \<Rightarrow> files_error + frame" where
  "decodeFrame cast b =
     (if length b < 5 then Inl (FrameTooShort (length b))
      else ebind (readU32 (drop 5 b)) (\<lambda>(count, rest).
             if unat count > length b then Inl (CountTooLarge (unat count))
             else ebind (read_cids cast (unat count) rest) (\<lambda>(cs, rest).
               ebind (read_cid cast rest) (\<lambda>(c, rest).
                 ebind (readBlob rest) (\<lambda>(data, rest).
                   ebind (readBlob rest) (\<lambda>(reason, rest).
                     Inr \<lparr>frType = hd b, frCIDs = cs, frTotal = get_u32 (take 4 (drop 1 b)), frCID = c, frData = data,
                          frReason = bytes_str reason\<rparr>))))))"

section \<open>Blocks\<close>

definition EncodeBlock :: "block \<Rightarrow> bytes" where
  "EncodeBlock b = put_u32 (word_of_nat (length (bkData b))) @ bkData b"

text \<open>The bound \<open>4+length\<close> of the slice is computed in 32 bits; a bound below 4 panics, which is \<open>None\<close>.\<close>

definition DecodeBlock :: "(bytes \<Rightarrow> cid) \<Rightarrow> bytes \<Rightarrow> (files_error + block) option" where
  "DecodeBlock cid_of data =
     (if length data < 4 then Some (Inl BlockTooShort)
      else let n = get_u32 (take 4 data); stop = unat (4 + n)
           in if length data < 4 + unat n then Some (Inl (BlockTruncated stop (length data)))
              else if stop < 4 then None
              else let blockData = drop 4 (take stop data) in Some (Inr \<lparr>bkCID = cid_of blockData, bkData = blockData\<rparr>))"

section \<open>Want lists\<close>

definition WantHave :: byte where "WantHave = 0x01"
definition WantWant :: byte where "WantWant = 0x02"

record want_entry =
  weCID :: cid
  weType :: byte
  wePriority :: byte

definition maxWantEntries :: nat where "maxWantEntries = 4096"
definition maxExchangePayload :: nat where "maxExchangePayload = 8388608"
definition maxCIDLen :: nat where "maxCIDLen = 64"

definition encode_want :: "want_entry \<Rightarrow> bytes" where
  "encode_want e =
     (if length (weCID e) > maxCIDLen then []
      else put_u16 (word_of_nat (length (weCID e))) @ weCID e @ [weType e, wePriority e])"

definition encodeWantEntries :: "want_entry list \<Rightarrow> bytes" where
  "encodeWantEntries entries = [word_of_nat (length entries)] @ concat (map encode_want entries)"

fun decode_wants :: "(bytes \<Rightarrow> cid option) \<Rightarrow> nat \<Rightarrow> bytes \<Rightarrow> files_error + want_entry list" where
  "decode_wants cast 0 data = Inr []"
| "decode_wants cast (Suc k) data =
     (if length data < 2 then Inl WantCidLength
      else let n = unat (get_u16 (take 2 data)); rest = drop 2 data
           in if n > maxCIDLen then Inl (WantCidTooLong n)
              else if length rest < n + 2 then Inl WantCidBody
              else (case cast (take n rest) of
                      None \<Rightarrow> Inl MalformedCID
                    | Some c \<Rightarrow>
                        (case decode_wants cast k (drop (n + 2) rest) of
                           Inl e \<Rightarrow> Inl e
                         | Inr es \<Rightarrow> Inr (\<lparr>weCID = c, weType = rest ! n, wePriority = rest ! (n + 1)\<rparr> # es))))"

definition decodeWantEntries :: "(bytes \<Rightarrow> cid option) \<Rightarrow> bytes \<Rightarrow> files_error + want_entry list" where
  "decodeWantEntries cast data =
     (case data of
        [] \<Rightarrow> Inl WantTooShort
      | b # rest \<Rightarrow> if unat b > maxWantEntries then Inl (CountTooLarge (unat b)) else decode_wants cast (unat b) rest)"

section \<open>Chunks\<close>

lemma boundary_sizes: "boundary c chunk \<Longrightarrow> cdcMinSize \<le> length chunk" "\<not> boundary c chunk \<Longrightarrow> length chunk < cdcMaxSize"
  by (auto simp: boundary_def cdcMinSize_def cdcMaxSize_def)

definition chunk_sizes :: "block list \<Rightarrow> bool" where
  "chunk_sizes bs \<longleftrightarrow> (\<forall>b\<in>set bs. 0 < length (bkData b) \<and> length (bkData b) \<le> cdcMaxSize)
     \<and> (\<forall>b\<in>set (butlast bs). cdcMinSize \<le> length (bkData b))"

lemma emit_block_some: "chunk \<noteq> [] \<Longrightarrow> emit_block cid_of chunk bs = (None, bs @ [\<lparr>bkCID = cid_of chunk, bkData = chunk\<rparr>])"
  by (simp add: emit_block_def CidFor_def)

lemma feed_loop_spec:
  assumes "length chunk < cdcMaxSize"
  shows "\<exists>c' bs. feed_loop (emit_block cid_of) c chunk data acc = (None, c', acc @ bs)
    \<and> concat (map bkData bs) = chunk @ data \<and> chunk_sizes bs \<and> (\<forall>b\<in>set bs. bkCID b = cid_of (bkData b))"
  using assms
proof (induction data arbitrary: c chunk acc)
  case Nil
  show ?case
  proof (cases "chunk = []")
    case True
    then show ?thesis by (intro exI [of _ c] exI [of _ "[]"]) (simp add: chunk_sizes_def)
  next
    case False
    with Nil show ?thesis
      by (intro exI [of _ c] exI [of _ "[\<lparr>bkCID = cid_of chunk, bkData = chunk\<rparr>]"])
        (simp add: emit_block_some chunk_sizes_def)
  qed
next
  case (Cons b data)
  let ?c = "roll c b" and ?chunk = "chunk @ [b]"
  show ?case
  proof (cases "boundary ?c ?chunk")
    case False
    with Cons.IH [OF boundary_sizes(2) [OF False], of ?c acc] show ?thesis by simp
  next
    case True
    let ?b = "\<lparr>bkCID = cid_of ?chunk, bkData = ?chunk\<rparr>"
    have "length ([] :: bytes) < cdcMaxSize" by (simp add: cdcMaxSize_def)
    from Cons.IH [OF this, of ?c "acc @ [?b]"] obtain c' bs where
      rest: "feed_loop (emit_block cid_of) ?c [] data (acc @ [?b]) = (None, c', (acc @ [?b]) @ bs)"
        "concat (map bkData bs) = data" "chunk_sizes bs" "\<forall>b\<in>set bs. bkCID b = cid_of (bkData b)" by auto
    have "cdcMinSize \<le> length ?chunk" "length ?chunk \<le> cdcMaxSize"
      using boundary_sizes(1) [OF True] Cons.prems by simp_all
    with rest(3) have "chunk_sizes (?b # bs)" by (auto simp: chunk_sizes_def)
    with rest True show ?thesis by (intro exI [of _ c'] exI [of _ "?b # bs"]) (simp add: emit_block_some Let_def)
  qed
qed

lemma Chunk_spec:
  obtains bs where "Chunk cid_of data = Inr bs" "concat (map bkData bs) = data" "chunk_sizes bs"
    "\<forall>b\<in>set bs. bkCID b = cid_of (bkData b)"
proof -
  have "length ([] :: bytes) < cdcMaxSize" by (simp add: cdcMaxSize_def)
  from feed_loop_spec [OF this, of cid_of NewContentDefinedChunker data "[]"] that show thesis
    by (auto simp: Chunk_def Feed_def)
qed

text \<open>
  Chunking loses nothing and respects its bounds. Every file is split without error, the chunks put
  together are the file, none is empty or longer than 64 KiB, all but the last have at least 2 KiB, and
  each is filed under its own identifier.
\<close>

theorem files_chunks_exact:
  "\<exists>bs. Chunk cid_of data = Inr bs \<and> concat (map bkData bs) = data
     \<and> list_all (\<lambda>b. 0 < length (bkData b) \<and> length (bkData b) \<le> 65536 \<and> bkCID b = cid_of (bkData b)) bs
     \<and> list_all (\<lambda>b. 2048 \<le> length (bkData b)) (butlast bs)"
proof -
  obtain bs where "Chunk cid_of data = Inr bs" "concat (map bkData bs) = data" "chunk_sizes bs"
    "\<forall>b\<in>set bs. bkCID b = cid_of (bkData b)" by (rule Chunk_spec)
  then show ?thesis by (auto simp: chunk_sizes_def list_all_iff cdcMaxSize_def cdcMinSize_def)
qed

section \<open>Round trips\<close>

lemma readBlob_put [wire_simps]: "length raw \<le> maxFrameBytes \<Longrightarrow> readBlob (put_blob raw @ rest) = Inr (raw, rest)"
  by (simp add: readBlob_def readU32_def put_blob_def unat_cast maxFrameBytes_def)

definition frame_ok :: "(bytes \<Rightarrow> cid option) \<Rightarrow> frame \<Rightarrow> bool" where
  "frame_ok cast f \<longleftrightarrow> length (frCIDs f) < 2 ^ 32
     \<and> (\<forall>c\<in>set (frCIDs f). cast c = Some c \<and> length c \<le> maxFrameBytes)
     \<and> (frCID f = [] \<or> cast (frCID f) = Some (frCID f)) \<and> length (frCID f) \<le> maxFrameBytes
     \<and> length (frData f) \<le> maxFrameBytes \<and> length (frReason f) \<le> maxFrameBytes"

lemma read_cids_put:
  "\<forall>c\<in>set cs. cast c = Some c \<and> length c \<le> maxFrameBytes \<Longrightarrow>
     read_cids cast (length cs) (concat (map put_blob cs) @ rest) = Inr (cs, rest)"
  by (induction cs) (simp_all add: wire_simps)

lemma length_put_blobs: "length cs \<le> length (concat (map put_blob cs))"
  by (induction cs) (auto simp: put_blob_def)

lemma frame_roundtrip:
  assumes "frame_ok cast f"
  shows "decodeFrame cast (encodeFrame f) = Inr f"
proof -
  let ?tail = "put_blob (frCID f) @ put_blob (frData f) @ put_blob (str_bytes (frReason f))"
  have cids: "read_cids cast (length (frCIDs f)) (concat (map put_blob (frCIDs f)) @ ?tail) = Inr (frCIDs f, ?tail)"
    using assms by (intro read_cids_put) (simp add: frame_ok_def)
  have n: "unat (word_of_nat (length (frCIDs f)) :: u32) = length (frCIDs f)"
    using assms by (simp add: frame_ok_def unat_cast)
  have count: "readU32 (drop 5 (encodeFrame f)) =
      Inr (word_of_nat (length (frCIDs f)), concat (map put_blob (frCIDs f)) @ ?tail)"
    by (simp add: encodeFrame_def readU32_def)
  have "\<not> length (frCIDs f) > length (encodeFrame f)" "\<not> length (encodeFrame f) < 5"
    using length_put_blobs [of "frCIDs f"] by (simp_all add: encodeFrame_def)
  moreover have "read_cid cast ?tail = Inr (frCID f, put_blob (frData f) @ put_blob (str_bytes (frReason f)))"
    using assms by (auto simp: read_cid_def frame_ok_def wire_simps)
  moreover have "readBlob (put_blob (str_bytes (frReason f))) = Inr (str_bytes (frReason f), [])"
    using readBlob_put [of "str_bytes (frReason f)" "[]"] assms by (simp add: frame_ok_def)
  moreover have "hd (encodeFrame f) = frType f" "get_u32 (take 4 (drop 1 (encodeFrame f))) = frTotal f"
    by (simp_all add: encodeFrame_def)
  ultimately show ?thesis
    using assms cids n count by (simp add: decodeFrame_def ebind_def wire_simps frame_ok_def)
qed

lemma block_roundtrip:
  assumes "length (bkData b) < 2 ^ 32 - 4" "bkCID b = cid_of (bkData b)"
  shows "DecodeBlock cid_of (EncodeBlock b) = Some (Inr b)"
proof -
  have n: "unat (word_of_nat (length (bkData b)) :: u32) = length (bkData b)" using assms(1) by (simp add: unat_cast)
  have "unat (4 + word_of_nat (length (bkData b)) :: u32) = 4 + length (bkData b)"
    using assms(1) unat_word_of_nat_32 [of "4 + length (bkData b)"] by simp
  with n assms(2) show ?thesis by (simp add: DecodeBlock_def EncodeBlock_def Let_def)
qed

lemma decode_wants_put:
  "\<forall>e\<in>set es. cast (weCID e) = Some (weCID e) \<and> length (weCID e) \<le> maxCIDLen \<Longrightarrow>
     decode_wants cast (length es) (concat (map encode_want es) @ rest) = Inr es"
proof (induction es)
  case (Cons e es)
  then have "unat (word_of_nat (length (weCID e)) :: u16) = length (weCID e)" by (simp add: unat_cast maxCIDLen_def)
  with Cons show ?case by (simp add: encode_want_def Let_def nth_append)
qed simp

text \<open>
  Want lists of up to 255 entries survive the wire. When \<open>cid.Cast\<close> accepts the identifiers and none
  is longer than 64 bytes, decoding an encoded list returns it.
\<close>

theorem files_want_roundtrip:
  assumes "length es < 256" "\<forall>e\<in>set es. cast (weCID e) = Some (weCID e) \<and> length (weCID e) \<le> maxCIDLen"
  shows "decodeWantEntries cast (encodeWantEntries es) = Inr es"
proof -
  have "unat (word_of_nat (length es) :: byte) = length es" using assms(1) by (simp add: unat_of_nat)
  with decode_wants_put [OF assms(2), of "[]"] assms(1) show ?thesis
    by (simp add: decodeWantEntries_def encodeWantEntries_def maxWantEntries_def)
qed

theorem files_want_roundtrip_witness:
  "decodeWantEntries Some (encodeWantEntries [\<lparr>weCID = [1, 2], weType = WantWant, wePriority = 0\<rparr>]) =
     Inr [\<lparr>weCID = [1, 2], weType = WantWant, wePriority = 0\<rparr>]"
  by (rule files_want_roundtrip) (simp_all add: maxCIDLen_def)

text \<open>
  Longer want lists are cut without notice. The count is one byte, so the receiver of a list of more
  than 255 entries decodes only the first \<open>n mod 256\<close> of them, none at all for 256, although the decoder
  is written to accept up to 4096 entries.
\<close>

theorem files_want_count_wraps:
  assumes "\<forall>e\<in>set es. cast (weCID e) = Some (weCID e) \<and> length (weCID e) \<le> maxCIDLen"
  shows "decodeWantEntries cast (encodeWantEntries es) = Inr (take (length es mod 256) es)"
proof -
  let ?k = "length es mod 256"
  have "?k \<le> length es" by simp
  then have len: "length (take ?k es) = ?k" by simp
  have "concat (map encode_want es) = concat (map encode_want (take ?k es)) @ concat (map encode_want (drop ?k es))"
    by (metis append_take_drop_id concat_append map_append)
  with decode_wants_put [of "take ?k es" cast] len assms in_set_takeD [of _ ?k es]
  have "decode_wants cast ?k (concat (map encode_want es)) = Inr (take ?k es)" by simp
  moreover have "unat (word_of_nat (length es) :: byte) = ?k" by (simp add: unat_of_nat)
  moreover have "?k \<le> maxWantEntries" using mod_less_divisor [of 256 "length es"] by (simp add: maxWantEntries_def)
  ultimately show ?thesis by (simp add: decodeWantEntries_def encodeWantEntries_def)
qed

theorem files_want_count_wraps_witness:
  "decodeWantEntries Some (encodeWantEntries (replicate 256 \<lparr>weCID = [1], weType = WantHave, wePriority = 0\<rparr>)) = Inr []"
proof -
  have "\<forall>e\<in>set (replicate 256 \<lparr>weCID = [1], weType = WantHave, wePriority = 0\<rparr>). Some (weCID e) = Some (weCID e) \<and> length (weCID e) \<le> maxCIDLen"
    by (simp add: maxCIDLen_def)
  from files_want_count_wraps [OF this] show ?thesis by simp
qed

end
