(* ===== verification/Files_Store.thy ===== *)
theory Files_Store
  imports Files_Wire
begin

text \<open>
  The block store and the file metadata store (\<open>pkg/services/files/store.go\<close>). \<open>memoryStore\<close> serves both the
  in-memory and the file-backed store; the directory of the latter is the map \<open>msDisk\<close> from file names to
  contents. \<open>cid_str\<close> and \<open>cid_decode\<close> stand for \<open>Cid.String\<close> and \<open>cid.Decode\<close>; the outcome of \<open>os.WriteFile\<close>
  is an argument. Reference counts are integers; Zstd, which only the compression helpers use, is left out.
\<close>

record block_meta =
  mtCID :: cid
  mtSize :: nat
  mtCompressed :: bool
  mtCreated :: gotime
  mtRefCount :: int

record memory_store =
  msBlocks :: "cid \<rightharpoonup> block"
  msMeta :: "cid \<rightharpoonup> block_meta"
  msBaseDir :: string
  msDisk :: "string \<rightharpoonup> bytes"

definition NewMemoryStore :: memory_store where
  "NewMemoryStore = \<lparr>msBlocks = Map.empty, msMeta = Map.empty, msBaseDir = [], msDisk = Map.empty\<rparr>"

text \<open>\<open>filepath.Ext\<close> is the suffix from the last dot.\<close>

definition has_block_ext :: "string \<Rightarrow> bool" where
  "has_block_ext name \<longleftrightarrow> length name \<ge> 6 \<and> drop (length name - 6) name = ''.block''"

fun load_entries :: "(string \<Rightarrow> cid option) \<Rightarrow> gotime \<Rightarrow> string list \<Rightarrow> memory_store \<Rightarrow> memory_store" where
  "load_entries cid_decode now [] s = s"
| "load_entries cid_decode now (name # names) s =
     load_entries cid_decode now names
       (if \<not> has_block_ext name then s
        else case (cid_decode (take (length name - 6) name), msDisk s name) of
               (Some c, Some data) \<Rightarrow>
                 s\<lparr>msBlocks := (msBlocks s)(c \<mapsto> \<lparr>bkCID = c, bkData = data\<rparr>),
                   msMeta := (msMeta s)(c \<mapsto> \<lparr>mtCID = c, mtSize = length data, mtCompressed = False,
                                              mtCreated = now, mtRefCount = 0\<rparr>)\<rparr>
             | _ \<Rightarrow> s)"

definition loadExisting :: "(string \<Rightarrow> cid option) \<Rightarrow> gotime \<Rightarrow> string list \<Rightarrow> memory_store \<Rightarrow> memory_store" where
  "loadExisting cid_decode now names s = (if msBaseDir s = [] then s else load_entries cid_decode now names s)"

definition NewFileStore :: "(string \<Rightarrow> cid option) \<Rightarrow> gotime \<Rightarrow> string list \<Rightarrow> string \<Rightarrow> (string \<rightharpoonup> bytes) \<Rightarrow> memory_store" where
  "NewFileStore cid_decode now names baseDir disk =
     loadExisting cid_decode now names \<lparr>msBlocks = Map.empty, msMeta = Map.empty, msBaseDir = baseDir, msDisk = disk\<rparr>"

definition isZstd :: "bytes \<Rightarrow> bool" where
  "isZstd data \<longleftrightarrow> length data \<ge> 4 \<and> take 4 data = [0x28, 0xB5, 0x2F, 0xFD]"

datatype store_error = BlockEmpty | CIDMismatch cid cid | WriteFailed | BlockNotFound cid
  | MetadataNil | CIDEmpty | FileNotFound cid | NoVersions cid

definition Store_Put ::
  "(bytes \<Rightarrow> cid) \<Rightarrow> (cid \<Rightarrow> string) \<Rightarrow> bool \<Rightarrow> gotime \<Rightarrow> block \<Rightarrow> memory_store \<Rightarrow> store_error option \<times> memory_store" where
  "Store_Put cid_of cid_str write_ok now b s =
     (if bkData b = [] then (Some BlockEmpty, s)
      else if cid_of (bkData b) \<noteq> bkCID b then (Some (CIDMismatch (cid_of (bkData b)) (bkCID b)), s)
      else case msMeta s (bkCID b) of
             Some m \<Rightarrow> (None, s\<lparr>msMeta := (msMeta s)(bkCID b \<mapsto> m\<lparr>mtRefCount := mtRefCount m + 1\<rparr>)\<rparr>)
           | None \<Rightarrow>
               let m = \<lparr>mtCID = bkCID b, mtSize = length (bkData b), mtCompressed = isZstd (bkData b), mtCreated = now, mtRefCount = 1\<rparr>;
                   s' = s\<lparr>msBlocks := (msBlocks s)(bkCID b \<mapsto> b), msMeta := (msMeta s)(bkCID b \<mapsto> m)\<rparr>
               in if msBaseDir s \<noteq> []
                  then (if write_ok
                        then (None, s'\<lparr>msDisk := (msDisk s)(cid_str (bkCID b) @ ''.block'' \<mapsto> bkData b)\<rparr>)
                        else (Some WriteFailed, s'\<lparr>msBlocks := (msBlocks s')(bkCID b := None),
                                                   msMeta := (msMeta s')(bkCID b := None)\<rparr>))
                  else (None, s'))"

definition Store_Get :: "cid \<Rightarrow> memory_store \<Rightarrow> store_error + block" where
  "Store_Get c s = (case msBlocks s c of None \<Rightarrow> Inl (BlockNotFound c) | Some b \<Rightarrow> Inr \<lparr>bkCID = c, bkData = bkData b\<rparr>)"

definition Store_Has :: "cid \<Rightarrow> memory_store \<Rightarrow> bool" where
  "Store_Has c s \<longleftrightarrow> msBlocks s c \<noteq> None"

definition drop_block :: "(cid \<Rightarrow> string) \<Rightarrow> cid \<Rightarrow> memory_store \<Rightarrow> memory_store" where
  "drop_block cid_str c s =
     s\<lparr>msBlocks := (msBlocks s)(c := None), msMeta := (msMeta s)(c := None),
       msDisk := (if msBaseDir s \<noteq> [] then (msDisk s)(cid_str c @ ''.block'' := None) else msDisk s)\<rparr>"

definition Store_Delete :: "(cid \<Rightarrow> string) \<Rightarrow> cid \<Rightarrow> memory_store \<Rightarrow> memory_store" where
  "Store_Delete cid_str c s =
     (case msMeta s c of
        Some m \<Rightarrow>
          let m' = m\<lparr>mtRefCount := mtRefCount m - 1\<rparr>
          in if mtRefCount m' > 0 then s\<lparr>msMeta := (msMeta s)(c \<mapsto> m')\<rparr> else drop_block cid_str c s
      | None \<Rightarrow> drop_block cid_str c s)"

definition Store_Size :: "cid \<Rightarrow> memory_store \<Rightarrow> store_error + nat" where
  "Store_Size c s = (case msMeta s c of None \<Rightarrow> Inl (BlockNotFound c) | Some m \<Rightarrow> Inr (mtSize m))"

text \<open>\<open>List\<close> ranges over the map: \<open>order\<close> enumerates its keys.\<close>

definition Store_List :: "cid list \<Rightarrow> memory_store \<Rightarrow> cid list" where
  "Store_List order s = filter (\<lambda>c. msBlocks s c \<noteq> None) order"

section \<open>File metadata\<close>

record acl_entry =
  acPubKey :: bytes
  acRead :: bool
  acWrite :: bool
  acAdmin :: bool

record file_meta =
  fmCID :: cid
  fmName :: string
  fmSize :: int
  fmMimeType :: string
  fmModified :: gotime
  fmCreated :: gotime
  fmACL :: "acl_entry list"
  fmVersion :: int
  fmParentCID :: cid

record file_store =
  fsFiles :: "cid \<rightharpoonup> file_meta"
  fsVersions :: "cid \<rightharpoonup> file_meta list"

definition NewFileMetadataStore :: file_store where
  "NewFileMetadataStore = \<lparr>fsFiles = Map.empty, fsVersions = Map.empty\<rparr>"

definition PutFile :: "gotime \<Rightarrow> file_meta option \<Rightarrow> file_store \<Rightarrow> store_error option \<times> file_store" where
  "PutFile now meta f =
     (case meta of
        None \<Rightarrow> (Some MetadataNil, f)
      | Some m \<Rightarrow>
          if fmCID m = [] then (Some CIDEmpty, f)
          else if (case fsFiles f (fmCID m) of Some e \<Rightarrow> fmVersion e \<ge> fmVersion m | None \<Rightarrow> False) then (None, f)
          else let m' = m\<lparr>fmModified := now\<rparr>;
                   f' = f\<lparr>fsFiles := (fsFiles f)(fmCID m \<mapsto> m')\<rparr>
               in (None, if fmParentCID m \<noteq> []
                         then f'\<lparr>fsVersions := (fsVersions f)(fmParentCID m \<mapsto>
                                (case fsVersions f (fmParentCID m) of Some vs \<Rightarrow> vs | None \<Rightarrow> []) @ [m'])\<rparr>
                         else f'))"

definition StatFile :: "cid \<Rightarrow> file_store \<Rightarrow> store_error + file_meta" where
  "StatFile c f = (case fsFiles f c of None \<Rightarrow> Inl (FileNotFound c) | Some m \<Rightarrow> Inr m)"

text \<open>\<open>GetFile\<close> returns the metadata and a nil data slice.\<close>

definition GetFile :: "cid \<Rightarrow> file_store \<Rightarrow> store_error + file_meta \<times> bytes" where
  "GetFile c f = (case fsFiles f c of None \<Rightarrow> Inl (FileNotFound c) | Some m \<Rightarrow> Inr (m, []))"

definition ListFiles :: "cid list \<Rightarrow> file_store \<Rightarrow> file_meta list" where
  "ListFiles order f = List.map_filter (fsFiles f) order"

definition DeleteFile :: "cid \<Rightarrow> file_store \<Rightarrow> store_error option \<times> file_store" where
  "DeleteFile c f =
     (if fsFiles f c = None then (Some (FileNotFound c), f) else (None, f\<lparr>fsFiles := (fsFiles f)(c := None)\<rparr>))"

definition VersionFile :: "cid \<Rightarrow> file_store \<Rightarrow> store_error + file_meta" where
  "VersionFile c f =
     (case fsVersions f c of
        None \<Rightarrow> Inl (NoVersions c) | Some vs \<Rightarrow> if vs = [] then Inl (NoVersions c) else Inr (last vs))"

section \<open>The store counts references\<close>

definition store_ok :: "(bytes \<Rightarrow> cid) \<Rightarrow> memory_store \<Rightarrow> bool" where
  "store_ok cid_of s \<longleftrightarrow> dom (msBlocks s) = dom (msMeta s)
     \<and> (\<forall>c b. msBlocks s c = Some b \<longrightarrow> bkCID b = c \<and> cid_of (bkData b) = c \<and> bkData b \<noteq> [])
     \<and> (\<forall>c m. msMeta s c = Some m \<longrightarrow> 0 < mtRefCount m)"

definition in_memory :: "(bytes \<Rightarrow> cid) \<Rightarrow> memory_store \<Rightarrow> bool" where
  "in_memory cid_of s \<longleftrightarrow> store_ok cid_of s \<and> msBaseDir s = []"

definition references :: "memory_store \<Rightarrow> cid \<Rightarrow> nat" where
  "references s c = (case msMeta s c of Some m \<Rightarrow> nat (mtRefCount m) | None \<Rightarrow> 0)"

datatype store_call = CallPut gotime block | CallDelete cid

definition store_step :: "(bytes \<Rightarrow> cid) \<Rightarrow> (cid \<Rightarrow> string) \<Rightarrow> memory_store \<Rightarrow> store_call \<Rightarrow> memory_store" where
  "store_step cid_of cid_str s call =
     (case call of CallPut now b \<Rightarrow> snd (Store_Put cid_of cid_str True now b s) | CallDelete c \<Rightarrow> Store_Delete cid_str c s)"

text \<open>The specification is a bag of identifiers: a valid put adds one, a delete takes one away.\<close>

definition bag_step :: "(bytes \<Rightarrow> cid) \<Rightarrow> (cid \<Rightarrow> nat) \<Rightarrow> store_call \<Rightarrow> cid \<Rightarrow> nat" where
  "bag_step cid_of n call =
     (case call of
        CallPut _ b \<Rightarrow> if bkData b \<noteq> [] \<and> cid_of (bkData b) = bkCID b then n(bkCID b := n (bkCID b) + 1) else n
      | CallDelete c \<Rightarrow> n(c := n c - 1))"

lemma Put_ok: "store_ok cid_of s \<Longrightarrow> store_ok cid_of (snd (Store_Put cid_of cid_str write_ok now b s))"
proof (cases "bkData b = [] \<or> cid_of (bkData b) \<noteq> bkCID b")
  case False
  assume ok: "store_ok cid_of s"
  show ?thesis
  proof (cases "msMeta s (bkCID b)")
    case None
    with ok have "msBlocks s (bkCID b) = None" by (auto simp: store_ok_def)
    with None False ok show ?thesis by (auto simp: Store_Put_def Let_def store_ok_def)
  next
    case (Some m)
    with ok have "insert (bkCID b) (dom (msMeta s)) = dom (msMeta s)" by (simp add: insert_absorb domI)
    moreover have "snd (Store_Put cid_of cid_str write_ok now b s) =
        s\<lparr>msMeta := (msMeta s)(bkCID b \<mapsto> m\<lparr>mtRefCount := mtRefCount m + 1\<rparr>)\<rparr>"
      using Some False by (simp add: Store_Put_def)
    moreover have "0 < mtRefCount m" using ok Some by (simp add: store_ok_def)
    ultimately show ?thesis using ok by (simp add: store_ok_def)
  qed
qed (auto simp: Store_Put_def)

lemma Delete_ok: "store_ok cid_of s \<Longrightarrow> store_ok cid_of (Store_Delete cid_str c s)"
proof (cases "msMeta s c")
  case (Some m)
  assume ok: "store_ok cid_of s"
  have "insert c (dom (msMeta s)) = dom (msMeta s)" using Some by (simp add: insert_absorb domI)
  with Some ok show ?thesis by (auto simp: Store_Delete_def drop_block_def Let_def store_ok_def)
qed (auto simp: Store_Delete_def drop_block_def store_ok_def)

lemma Put_baseDir [simp]: "msBaseDir (snd (Store_Put cid_of cid_str write_ok now b s)) = msBaseDir s"
  by (simp add: Store_Put_def Let_def split: option.split)

lemma Delete_baseDir [simp]: "msBaseDir (Store_Delete cid_str c s) = msBaseDir s"
  by (simp add: Store_Delete_def drop_block_def Let_def split: option.split)

interpretation block_store: refinement "store_step cid_of cid_str" "in_memory cid_of" references "bag_step cid_of" for cid_of cid_str
proof
  fix s call
  assume ok: "in_memory cid_of s"
  then show "in_memory cid_of (store_step cid_of cid_str s call)"
    by (cases call) (simp_all add: in_memory_def store_step_def Put_ok Delete_ok)
  show "references (store_step cid_of cid_str s call) = bag_step cid_of (references s) call"
  proof (cases call)
    case (CallPut now b)
    have pos: "0 < mtRefCount m" if "msMeta s c = Some m" for c m using ok that by (auto simp: in_memory_def store_ok_def)
    show ?thesis
      using ok pos unfolding CallPut
      by (cases "msMeta s (bkCID b)") (auto simp: store_step_def bag_step_def Store_Put_def references_def in_memory_def
          Let_def fun_eq_iff Suc_nat_eq_nat_zadd1 less_imp_le)
  next
    case (CallDelete c)
    show ?thesis
      unfolding CallDelete
      by (cases "msMeta s c") (auto simp: store_step_def bag_step_def Store_Delete_def drop_block_def references_def Let_def fun_eq_iff)
  qed
qed

lemma in_memory_New: "in_memory cid_of NewMemoryStore"
  by (simp add: in_memory_def store_ok_def NewMemoryStore_def)

text \<open>
  The block store is a bag. After any sequence of puts and deletes a block is there exactly when it was
  put more often than it was deleted, counting only puts whose identifier is the one of their data, and
  what \<open>Get\<close> returns has the identifier it was asked for.
\<close>

theorem files_store_refines_bag:
  "let s = foldl (store_step cid_of cid_str) NewMemoryStore calls; n = foldl (bag_step cid_of) (\<lambda>_. 0) calls
   in references s = n \<and> (case Store_Get c s of Inr b \<Rightarrow> n c > 0 \<and> cid_of (bkData b) = c | Inl _ \<Rightarrow> n c = 0)"
proof -
  let ?s = "foldl (store_step cid_of cid_str) NewMemoryStore calls"
  have n: "references ?s = foldl (bag_step cid_of) (\<lambda>_. 0) calls"
  proof -
    have "references NewMemoryStore = (\<lambda>_. 0)" by (simp add: references_def NewMemoryStore_def fun_eq_iff)
    then show ?thesis using block_store.run_refines [OF in_memory_New, of cid_of cid_str calls] by simp
  qed
  have ok: "store_ok cid_of ?s" using block_store.run_inv [OF in_memory_New] by (simp add: in_memory_def)
  have "case Store_Get c ?s of Inr b \<Rightarrow> references ?s c > 0 \<and> cid_of (bkData b) = c | Inl _ \<Rightarrow> references ?s c = 0"
  proof (cases "msBlocks ?s c")
    case None
    with ok have "msMeta ?s c = None" by (auto simp: store_ok_def)
    with None show ?thesis by (simp add: Store_Get_def references_def)
  next
    case (Some b)
    then have "c \<in> dom (msMeta ?s)" using ok by (auto simp: store_ok_def)
    then obtain m where "msMeta ?s c = Some m" by blast
    with Some ok show ?thesis by (auto simp: Store_Get_def references_def store_ok_def)
  qed
  from this [unfolded n] n show ?thesis by (simp add: Let_def)
qed

text \<open>
  Reference counts do not survive a restart: a block put twice is loaded with a count of zero, and the
  first delete removes it.
\<close>

theorem files_restart_drops_references:
  "let s0 = \<lparr>msBlocks = Map.empty, msMeta = Map.empty, msBaseDir = ''store'', msDisk = Map.empty\<rparr>;
       put = (\<lambda>s. snd (Store_Put id bytes_str True 1 \<lparr>bkCID = [65], bkData = [65]\<rparr> s));
       s = put (put s0);
       s' = NewFileStore (Some \<circ> str_bytes) 2 [''A.block''] ''store'' (msDisk s)
   in Store_Has [65] (Store_Delete bytes_str [65] s) \<and> Store_Has [65] s' \<and> \<not> Store_Has [65] (Store_Delete bytes_str [65] s')"
  by code_simp

text \<open>A deleted file is still returned as the latest version of its parent.\<close>

theorem files_deleted_version_stays:
  "let m = \<lparr>fmCID = [2], fmName = ''b'', fmSize = 1, fmMimeType = [], fmModified = 0, fmCreated = 0, fmACL = [], fmVersion = 1, fmParentCID = [1]\<rparr>;
       f = snd (DeleteFile [2] (snd (PutFile 5 (Some m) NewFileMetadataStore)))
   in (case StatFile [2] f of Inl _ \<Rightarrow> True | Inr _ \<Rightarrow> False) \<and> (case VersionFile [1] f of Inr v \<Rightarrow> fmCID v = [2] | Inl _ \<Rightarrow> False)"
  by code_simp

end
