(* ===== verification/Files_Transfer.thy ===== *)
theory Files_Transfer
  imports Files_Store
begin

text \<open>
  A file moved over a data channel (\<open>pkg/services/files/transfer.go\<close> and the reassembler of
  \<open>transfer_wire.go\<close>). The inbox \<open>pending\<close> is the list of frames in the order they arrived; waiting longer
  than the channel delivers ends in the time-out error. What a side sends is part of its result; the
  outcome of each \<open>dc.Send\<close>, by its number, is an argument. Contexts are not cancelled.
\<close>

record transfer_stats =
  tsTotalBlocks :: nat
  tsSentBlocks :: nat
  tsReceivedBlocks :: nat
  tsSkippedBlocks :: nat
  tsBytesSent :: nat
  tsBytesReceived :: nat
  tsBytesSaved :: nat
  tsResumedFrom :: nat

definition no_transfer :: transfer_stats where
  "no_transfer = \<lparr>tsTotalBlocks = 0, tsSentBlocks = 0, tsReceivedBlocks = 0, tsSkippedBlocks = 0, tsBytesSent = 0,
     tsBytesReceived = 0, tsBytesSaved = 0, tsResumedFrom = 0\<rparr>"

text \<open>\<open>SavedFraction\<close>, with the rounding of \<open>float64\<close> as a parameter.\<close>

definition SavedFraction :: "(real \<Rightarrow> real) \<Rightarrow> transfer_stats \<Rightarrow> real" where
  "SavedFraction fl st =
     (if tsTotalBlocks st = 0 then 0 else fl (fl (real (tsSkippedBlocks st)) / fl (real (tsTotalBlocks st))))"

section \<open>Reassembly\<close>

record reassembler =
  raOrder :: "cid list"
  raReceived :: "cid \<rightharpoonup> bytes"

definition newReAssembler :: "cid list \<Rightarrow> reassembler" where
  "newReAssembler order = \<lparr>raOrder = order, raReceived = Map.empty\<rparr>"

definition wants :: "cid \<Rightarrow> reassembler \<Rightarrow> bool" where
  "wants c r \<longleftrightarrow> c \<in> set (raOrder r)"

datatype transfer_error = Chunking files_error | SendFailed nat | TimedOut | ReadHeld cid | ChannelClosed
  | StoreBlock cid store_error | NeverArrived nat cid | Aborted string | NotAttached

fun assemble :: "nat \<Rightarrow> (cid \<rightharpoonup> bytes) \<Rightarrow> cid list \<Rightarrow> transfer_error + bytes" where
  "assemble i received [] = Inr []"
| "assemble i received (c # order) =
     (case received c of
        None \<Rightarrow> Inl (NeverArrived i c)
      | Some data \<Rightarrow> (case assemble (Suc i) received order of Inl e \<Rightarrow> Inl e | Inr out \<Rightarrow> Inr (data @ out)))"

definition Bytes :: "reassembler \<Rightarrow> transfer_error + bytes" where
  "Bytes r = assemble 0 (raReceived r) (raOrder r)"

section \<open>The inbox\<close>

text \<open>\<open>Attach\<close> decodes each binary message and drops what does not decode.\<close>

definition inbox :: "(bytes \<Rightarrow> cid option) \<Rightarrow> bytes list \<Rightarrow> frame list" where
  "inbox cast msgs = concat (map (\<lambda>m. case decodeFrame cast m of Inl _ \<Rightarrow> [] | Inr f \<Rightarrow> [f]) msgs)"

fun awaitFrame :: "byte \<Rightarrow> frame list \<Rightarrow> (frame \<times> frame list) option" where
  "awaitFrame want [] = None"
| "awaitFrame want (f # fs) = (if frType f = want then Some (f, fs) else awaitFrame want fs)"

definition mk_frame :: "byte \<Rightarrow> frame" where
  "mk_frame t = \<lparr>frType = t, frCIDs = [], frTotal = 0, frCID = [], frData = [], frReason = []\<rparr>"

section \<open>Sending\<close>

definition manifest_frame :: "cid list \<Rightarrow> frame" where
  "manifest_frame order = (mk_frame wireManifest)\<lparr>frCIDs := order, frTotal := word_of_nat (length order)\<rparr>"

definition block_frame :: "block \<Rightarrow> frame" where
  "block_frame b = (mk_frame wireBlock)\<lparr>frCID := bkCID b, frData := bkData b\<rparr>"

text \<open>The loop over the blocks: \<open>k\<close> counts the sends made so far.\<close>

fun send_blocks ::
  "(nat \<Rightarrow> bool) \<Rightarrow> cid set \<Rightarrow> nat \<Rightarrow> block list \<Rightarrow> transfer_stats \<Rightarrow> bytes list \<times> transfer_stats \<times> transfer_error option \<times> nat" where
  "send_blocks ok have_cids k [] st = ([], st, None, k)"
| "send_blocks ok have_cids k (b # bs) st =
     (if bkCID b \<in> have_cids
      then send_blocks ok have_cids k bs
             (st\<lparr>tsSkippedBlocks := tsSkippedBlocks st + 1, tsBytesSaved := tsBytesSaved st + length (bkData b)\<rparr>)
      else if \<not> ok k then ([], st, Some (SendFailed k), Suc k)
      else let (out, st', e, k') = send_blocks ok have_cids (Suc k) bs
                 (st\<lparr>tsSentBlocks := tsSentBlocks st + 1, tsBytesSent := tsBytesSent st + length (bkData b)\<rparr>)
           in (encodeFrame (block_frame b) # out, st', e, k'))"

definition Send ::
  "(bytes \<Rightarrow> cid) \<Rightarrow> (nat \<Rightarrow> bool) \<Rightarrow> bytes \<Rightarrow> frame list \<Rightarrow> bytes list \<times> transfer_stats \<times> transfer_error option" where
  "Send cid_of ok data ibox =
     (case Chunk cid_of data of
        Inl e \<Rightarrow> ([], no_transfer, Some (Chunking e))
      | Inr blocks \<Rightarrow>
          let order = map bkCID blocks; manifest = encodeFrame (manifest_frame order) in
          if \<not> ok 0 then ([], no_transfer, Some (SendFailed 0))
          else (case awaitFrame wireHello ibox of
                  None \<Rightarrow> ([manifest], no_transfer, Some TimedOut)
                | Some (reply, _) \<Rightarrow>
                    let resumed = length (filter (\<lambda>c. c \<in> set (frCIDs reply)) order);
                        (out, st, e, k) = send_blocks ok (set (frCIDs reply)) 1 blocks
                          (no_transfer\<lparr>tsTotalBlocks := length blocks, tsResumedFrom := resumed\<rparr>)
                    in (case e of
                          Some err \<Rightarrow> (manifest # out, st, Some err)
                        | None \<Rightarrow> if \<not> ok k then (manifest # out, st, Some (SendFailed k))
                                  else (manifest # out @ [encodeFrame (mk_frame wireComplete)], st, None))))"

section \<open>Receiving\<close>

fun seed_held ::
  "cid list \<Rightarrow> memory_store \<Rightarrow> reassembler \<Rightarrow> transfer_error + reassembler \<times> cid list \<times> nat" where
  "seed_held [] s asm = Inr (asm, [], 0)"
| "seed_held (c # cs) s asm =
     (if \<not> Store_Has c s then seed_held cs s asm
      else case Store_Get c s of
             Inl _ \<Rightarrow> Inl (ReadHeld c)
           | Inr b \<Rightarrow> (case seed_held cs s (asm\<lparr>raReceived := (raReceived asm)(c \<mapsto> bkData b)\<rparr>) of
                         Inl e \<Rightarrow> Inl e
                       | Inr (asm', held, n) \<Rightarrow> Inr (asm', c # held, length (bkData b) + n)))"

text \<open>
  The loop over the inbox. \<open>puts\<close> gives the outcome of the store's disk writes; the pump stops after a
  complete or abort frame, and a channel that ends before closes the inbox.
\<close>

fun receive_loop ::
  "(bytes \<Rightarrow> cid) \<Rightarrow> (cid \<Rightarrow> string) \<Rightarrow> (nat \<Rightarrow> bool) \<Rightarrow> gotime \<Rightarrow> frame list \<Rightarrow> nat \<Rightarrow> reassembler \<Rightarrow> transfer_stats \<Rightarrow> memory_store
     \<Rightarrow> (transfer_error + bytes) \<times> transfer_stats \<times> memory_store" where
  "receive_loop cid_of cid_str puts now [] k asm st s = (Inl ChannelClosed, st, s)"
| "receive_loop cid_of cid_str puts now (f # fs) k asm st s =
     (if frType f = wireBlock
      then (if \<not> wants (frCID f) asm then receive_loop cid_of cid_str puts now fs k asm st s
            else case Store_Put cid_of cid_str (puts k) now \<lparr>bkCID = frCID f, bkData = frData f\<rparr> s of
                   (Some e, s') \<Rightarrow> (Inl (StoreBlock (frCID f) e), st, s')
                 | (None, s') \<Rightarrow>
                     receive_loop cid_of cid_str puts now fs (Suc k)
                       (asm\<lparr>raReceived := (raReceived asm)(frCID f \<mapsto> frData f)\<rparr>)
                       (st\<lparr>tsReceivedBlocks := tsReceivedBlocks st + 1, tsBytesReceived := tsBytesReceived st + length (frData f)\<rparr>) s')
      else if frType f = wireComplete then (Bytes asm, st, s)
      else if frType f = wireAbort then (Inl (Aborted (frReason f)), st, s)
      else receive_loop cid_of cid_str puts now fs k asm st s)"

definition hello_frame :: "cid list \<Rightarrow> nat \<Rightarrow> frame" where
  "hello_frame held n = (mk_frame wireHello)\<lparr>frCIDs := held, frTotal := word_of_nat n\<rparr>"

definition Receive ::
  "(bytes \<Rightarrow> cid) \<Rightarrow> (cid \<Rightarrow> string) \<Rightarrow> (nat \<Rightarrow> bool) \<Rightarrow> bool \<Rightarrow> gotime \<Rightarrow> frame list \<Rightarrow> memory_store
     \<Rightarrow> bytes list \<times> (transfer_error + bytes) \<times> transfer_stats \<times> memory_store" where
  "Receive cid_of cid_str puts reply_ok now ibox s =
     (case awaitFrame wireManifest ibox of
        None \<Rightarrow> ([], Inl TimedOut, no_transfer, s)
      | Some (manifest, fs) \<Rightarrow>
          (case seed_held (frCIDs manifest) s (newReAssembler (frCIDs manifest)) of
             Inl e \<Rightarrow> ([], Inl e, no_transfer, s)
           | Inr (asm, held, heldBytes) \<Rightarrow>
               if \<not> reply_ok then ([], Inl (SendFailed 0), no_transfer, s)
               else ([encodeFrame (hello_frame held (length (frCIDs manifest)))],
                     receive_loop cid_of cid_str puts now fs 0 asm
                       (no_transfer\<lparr>tsTotalBlocks := length (frCIDs manifest), tsSkippedBlocks := length held,
                                   tsResumedFrom := length held, tsBytesSaved := heldBytes\<rparr>) s)))"

section \<open>Both ends together\<close>

text \<open>
  A transfer over a channel that delivers everything in order: the sender's manifest reaches the
  receiver, the receiver's reply reaches the sender, and then the sender's whole output reaches the
  receiver. Each side's result is that of its own code on what it received.
\<close>

definition transfer ::
  "(bytes \<Rightarrow> cid) \<Rightarrow> (bytes \<Rightarrow> cid option) \<Rightarrow> (cid \<Rightarrow> string) \<Rightarrow> gotime \<Rightarrow> bytes \<Rightarrow> memory_store
     \<Rightarrow> (transfer_stats \<times> transfer_error option) \<times> (transfer_error + bytes) \<times> transfer_stats \<times> memory_store" where
  "transfer cid_of cast cid_str now data s =
     (let (manifest, _) = Send cid_of (\<lambda>_. True) data [];
          (reply, _) = Receive cid_of cid_str (\<lambda>_. True) True now (inbox cast manifest) s;
          (out, sent) = Send cid_of (\<lambda>_. True) data (inbox cast reply);
          (_, received) = Receive cid_of cid_str (\<lambda>_. True) True now (inbox cast out) s
      in (sent, received))"

lemma frame_simps [simp]:
  "frType (mk_frame t) = t" "frCIDs (mk_frame t) = []" "frCID (mk_frame t) = []" "frData (mk_frame t) = []"
  "frReason (mk_frame t) = []"
  by (simp_all add: mk_frame_def)

lemma seed_held_spec:
  assumes "store_ok cid_of s"
  shows "\<exists>r n. seed_held cs s asm = Inr (asm\<lparr>raReceived := r\<rparr>, filter (\<lambda>c. Store_Has c s) cs, n)
    \<and> (\<forall>c. r c = (if c \<in> set cs \<and> Store_Has c s then map_option bkData (msBlocks s c) else raReceived asm c))"
proof (induction cs arbitrary: asm)
  case Nil
  show ?case by (intro exI [of _ "raReceived asm"] exI [of _ 0]) simp
next
  case (Cons c cs)
  show ?case
  proof (cases "msBlocks s c")
    case None
    with Cons [of asm] show ?thesis by (auto simp: Store_Has_def)
  next
    case (Some b)
    let ?asm = "asm\<lparr>raReceived := (raReceived asm)(c \<mapsto> bkData b)\<rparr>"
    from Cons [of ?asm] obtain r n where "seed_held cs s ?asm = Inr (?asm\<lparr>raReceived := r\<rparr>, filter (\<lambda>c. Store_Has c s) cs, n)"
      "\<forall>c. r c = (if c \<in> set cs \<and> Store_Has c s then map_option bkData (msBlocks s c) else raReceived ?asm c)" by blast
    note r = this
    have "seed_held (c # cs) s asm = Inr (asm\<lparr>raReceived := r\<rparr>, filter (\<lambda>c. Store_Has c s) (c # cs), length (bkData b) + n)"
      using Some r(1) by (simp add: Store_Has_def Store_Get_def)
    moreover have "\<forall>d. r d = (if d \<in> set (c # cs) \<and> Store_Has d s then map_option bkData (msBlocks s d) else raReceived asm d)"
      using Some r(2) by (simp add: Store_Has_def)
    ultimately show ?thesis by blast
  qed
qed

lemma send_blocks_spec:
  "\<exists>st' k'. send_blocks (\<lambda>_. True) H k bs st = (map (encodeFrame \<circ> block_frame) (filter (\<lambda>b. bkCID b \<notin> H) bs), st', None, k')
     \<and> tsSentBlocks st' = tsSentBlocks st + length (filter (\<lambda>b. bkCID b \<notin> H) bs)
     \<and> tsSkippedBlocks st' = tsSkippedBlocks st + length (filter (\<lambda>b. bkCID b \<in> H) bs)
     \<and> tsTotalBlocks st' = tsTotalBlocks st"
proof (induction bs arbitrary: k st)
  case (Cons b bs)
  show ?case
  proof (cases "bkCID b \<in> H")
    case True
    with Cons [of k "st\<lparr>tsSkippedBlocks := tsSkippedBlocks st + 1, tsBytesSaved := tsBytesSaved st + length (bkData b)\<rparr>"]
    show ?thesis by auto
  next
    case False
    with Cons [of "Suc k" "st\<lparr>tsSentBlocks := tsSentBlocks st + 1, tsBytesSent := tsBytesSent st + length (bkData b)\<rparr>"]
    show ?thesis by auto
  qed
qed simp

lemma Put_accepts:
  "cid_of (bkData b) = bkCID b \<Longrightarrow> bkData b \<noteq> [] \<Longrightarrow> \<exists>s'. Store_Put cid_of cid_str True now b s = (None, s')"
  by (simp add: Store_Put_def Let_def split: option.split)

definition file_blocks :: "(cid \<rightharpoonup> bytes) \<Rightarrow> block list \<Rightarrow> cid \<rightharpoonup> bytes" where
  "file_blocks r bs = foldl (\<lambda>r b. r(bkCID b \<mapsto> bkData b)) r bs"

lemma receive_loop_spec:
  assumes "\<forall>b\<in>set bs. bkCID b \<in> set (raOrder asm) \<and> cid_of (bkData b) = bkCID b \<and> bkData b \<noteq> []"
  shows "\<exists>st' s'. receive_loop cid_of cid_str (\<lambda>_. True) now (map block_frame bs @ [mk_frame wireComplete]) k asm st s =
      (Bytes (asm\<lparr>raReceived := file_blocks (raReceived asm) bs\<rparr>), st', s')
    \<and> tsReceivedBlocks st' = tsReceivedBlocks st + length bs \<and> tsSkippedBlocks st' = tsSkippedBlocks st"
  using assms
proof (induction bs arbitrary: k asm st s)
  case Nil
  show ?case by (simp add: wire_types file_blocks_def)
next
  case (Cons b bs)
  from Cons.prems have "cid_of (bkData b) = bkCID b" "bkData b \<noteq> []" "bkCID b \<in> set (raOrder asm)" by simp_all
  then obtain s1 where put: "Store_Put cid_of cid_str True now b s = (None, s1)" using Put_accepts by blast
  let ?asm = "asm\<lparr>raReceived := (raReceived asm)(bkCID b \<mapsto> bkData b)\<rparr>"
  let ?st = "st\<lparr>tsReceivedBlocks := tsReceivedBlocks st + 1, tsBytesReceived := tsBytesReceived st + length (bkData b)\<rparr>"
  have eta: "\<lparr>bkCID = bkCID b, bkData = bkData b\<rparr> = b" by simp
  have step: "receive_loop cid_of cid_str (\<lambda>_. True) now (map block_frame (b # bs) @ [mk_frame wireComplete]) k asm st s =
      receive_loop cid_of cid_str (\<lambda>_. True) now (map block_frame bs @ [mk_frame wireComplete]) (Suc k) ?asm ?st s1"
    using put \<open>bkCID b \<in> set (raOrder asm)\<close> by (simp add: block_frame_def wants_def eta)
  have "\<forall>b\<in>set bs. bkCID b \<in> set (raOrder ?asm) \<and> cid_of (bkData b) = bkCID b \<and> bkData b \<noteq> []" using Cons.prems by simp
  from Cons.IH [OF this, of "Suc k" ?st s1] obtain st' s' where
    IH: "receive_loop cid_of cid_str (\<lambda>_. True) now (map block_frame bs @ [mk_frame wireComplete]) (Suc k) ?asm ?st s1 =
      (Bytes (?asm\<lparr>raReceived := file_blocks (raReceived ?asm) bs\<rparr>), st', s')"
      "tsReceivedBlocks st' = tsReceivedBlocks ?st + length bs" "tsSkippedBlocks st' = tsSkippedBlocks ?st" by blast
  have "?asm\<lparr>raReceived := file_blocks (raReceived ?asm) bs\<rparr> = asm\<lparr>raReceived := file_blocks (raReceived asm) (b # bs)\<rparr>"
    by (simp add: file_blocks_def)
  with IH show ?case unfolding step by simp
qed

lemma assemble_blocks:
  "\<forall>b\<in>set bs. r (bkCID b) = Some (bkData b) \<Longrightarrow> assemble i r (map bkCID bs) = Inr (concat (map bkData bs))"
  by (induction bs arbitrary: i) simp_all

lemma file_blocks_lookup:
  "(\<exists>b\<in>set bs. bkCID b = c \<and> file_blocks r bs c = Some (bkData b)) \<or> c \<notin> bkCID ` set bs \<and> file_blocks r bs c = r c"
proof (induction bs rule: rev_induct)
  case (snoc b bs)
  have "file_blocks r (bs @ [b]) = (file_blocks r bs)(bkCID b \<mapsto> bkData b)" by (simp add: file_blocks_def)
  with snoc show ?case by (cases "bkCID b = c") auto
qed (simp add: file_blocks_def)

lemma chunks_few: "chunk_sizes bs \<Longrightarrow> length bs \<le> length (concat (map bkData bs))"
proof -
  have "\<forall>b\<in>set bs. 0 < length (bkData b) \<Longrightarrow> length bs \<le> length (concat (map bkData bs))" for bs :: "block list"
  proof (induction bs)
    case (Cons b bs)
    then have "1 \<le> length (bkData b)" by (simp add: Suc_le_eq)
    with Cons show ?case by simp
  qed simp
  then show "chunk_sizes bs \<Longrightarrow> ?thesis" by (simp add: chunk_sizes_def)
qed

lemma reassembled:
  assumes "store_ok cid_of s"
    and "inj_on cid_of ({x. \<exists>bs b. Chunk cid_of data = Inr bs \<and> b \<in> set bs \<and> x = bkData b} \<union> bkData ` ran (msBlocks s))"
    and "Chunk cid_of data = Inr bs" "concat (map bkData bs) = data" "\<forall>b\<in>set bs. bkCID b = cid_of (bkData b)"
    and "\<forall>c\<in>set (map bkCID bs). Store_Has c s \<longrightarrow> r c = map_option bkData (msBlocks s c)"
  shows "Bytes \<lparr>raOrder = map bkCID bs, raReceived = file_blocks r
     (filter (\<lambda>b. bkCID b \<notin> set (filter (\<lambda>c. Store_Has c s) (map bkCID bs))) bs)\<rparr> = Inr data"
proof -
  let ?new = "filter (\<lambda>b. bkCID b \<notin> set (filter (\<lambda>c. Store_Has c s) (map bkCID bs))) bs"
  have "file_blocks r ?new (bkCID b) = Some (bkData b)" if b: "b \<in> set bs" for b
  proof -
    have same: "x = bkData b" if "cid_of x = bkCID b" "x \<in> bkData ` set bs \<union> bkData ` ran (msBlocks s)" for x
    proof (rule inj_onD [OF assms(2)])
      show "cid_of x = cid_of (bkData b)" using that(1) assms(5) b by simp
    qed (use that(2) assms(3) b in auto)
    consider b' where "b' \<in> set ?new" "bkCID b' = bkCID b" "file_blocks r ?new (bkCID b) = Some (bkData b')"
      | "bkCID b \<notin> bkCID ` set ?new" "file_blocks r ?new (bkCID b) = r (bkCID b)"
      using file_blocks_lookup [of ?new "bkCID b" r] by blast
    then show ?thesis
    proof cases
      case 1
      with assms(5) same [of "bkData b'"] show ?thesis by auto
    next
      case 2
      with b have has: "Store_Has (bkCID b) s" by force
      then obtain b' where b': "msBlocks s (bkCID b) = Some b'" by (auto simp: Store_Has_def)
      then have "cid_of (bkData b') = bkCID b" "bkData b' \<in> bkData ` ran (msBlocks s)"
        using assms(1) by (auto simp: store_ok_def ran_def)
      with same [of "bkData b'"] b' has 2 b assms(6) show ?thesis by simp
    qed
  qed
  with assms(4) show ?thesis using assemble_blocks [of bs "file_blocks r ?new" 0] by (simp add: Bytes_def)
qed

lemma inbox_Nil [simp]: "inbox cast [] = []"
  by (simp add: inbox_def)

lemma inbox_Cons: "frame_ok cast f \<Longrightarrow> inbox cast (encodeFrame f # ms) = f # inbox cast ms"
  by (simp add: inbox_def frame_roundtrip)

lemma inbox_frames: "list_all (frame_ok cast) fs \<Longrightarrow> inbox cast (map encodeFrame fs) = fs"
  by (induction fs) (simp_all add: inbox_Cons)

lemma Receive_manifest:
  assumes "store_ok cid_of s"
  shows "\<exists>r n. Receive cid_of cid_str (\<lambda>_. True) True now (manifest_frame order # fs) s =
      ([encodeFrame (hello_frame (filter (\<lambda>c. Store_Has c s) order) (length order))],
       receive_loop cid_of cid_str (\<lambda>_. True) now fs 0 \<lparr>raOrder = order, raReceived = r\<rparr>
         (no_transfer\<lparr>tsTotalBlocks := length order, tsSkippedBlocks := length (filter (\<lambda>c. Store_Has c s) order),
            tsResumedFrom := length (filter (\<lambda>c. Store_Has c s) order), tsBytesSaved := n\<rparr>) s)
    \<and> (\<forall>c\<in>set order. Store_Has c s \<longrightarrow> r c = map_option bkData (msBlocks s c))"
proof -
  obtain r n where "seed_held order s (newReAssembler order) =
      Inr ((newReAssembler order)\<lparr>raReceived := r\<rparr>, filter (\<lambda>c. Store_Has c s) order, n)"
    "\<forall>c. r c = (if c \<in> set order \<and> Store_Has c s then map_option bkData (msBlocks s c) else raReceived (newReAssembler order) c)"
    using seed_held_spec [OF assms, of order "newReAssembler order"] by blast
  then show ?thesis
    by (intro exI [of _ r] exI [of _ n]) (simp add: Receive_def manifest_frame_def newReAssembler_def)
qed

lemma Receive_file:
  assumes "store_ok cid_of s"
    and "inj_on cid_of ({x. \<exists>bs b. Chunk cid_of data = Inr bs \<and> b \<in> set bs \<and> x = bkData b} \<union> bkData ` ran (msBlocks s))"
    and "Chunk cid_of data = Inr bs" "concat (map bkData bs) = data" "\<forall>b\<in>set bs. bkCID b = cid_of (bkData b)" "chunk_sizes bs"
    and "held = filter (\<lambda>c. Store_Has c s) (map bkCID bs)" "fresh = filter (\<lambda>b. bkCID b \<notin> set held) bs"
  shows "\<exists>rst s'. Receive cid_of cid_str (\<lambda>_. True) True now
        (manifest_frame (map bkCID bs) # map block_frame fresh @ [mk_frame wireComplete]) s =
      ([encodeFrame (hello_frame held (length (map bkCID bs)))], Inr data, rst, s')
    \<and> tsReceivedBlocks rst = length fresh \<and> tsSkippedBlocks rst = length held"
proof -
  obtain r n where rec: "Receive cid_of cid_str (\<lambda>_. True) True now
        (manifest_frame (map bkCID bs) # map block_frame fresh @ [mk_frame wireComplete]) s =
      ([encodeFrame (hello_frame held (length (map bkCID bs)))],
       receive_loop cid_of cid_str (\<lambda>_. True) now (map block_frame fresh @ [mk_frame wireComplete]) 0
         \<lparr>raOrder = map bkCID bs, raReceived = r\<rparr> (no_transfer\<lparr>tsTotalBlocks := length (map bkCID bs),
            tsSkippedBlocks := length held, tsResumedFrom := length held, tsBytesSaved := n\<rparr>) s)"
    and r: "\<forall>c\<in>set (map bkCID bs). Store_Has c s \<longrightarrow> r c = map_option bkData (msBlocks s c)"
    using Receive_manifest [OF assms(1), of cid_str now "map bkCID bs" "map block_frame fresh @ [mk_frame wireComplete]"]
    unfolding assms(7) by blast
  let ?asm = "\<lparr>raOrder = map bkCID bs, raReceived = r\<rparr>"
  have "\<forall>b\<in>set fresh. bkCID b \<in> set (raOrder ?asm) \<and> cid_of (bkData b) = bkCID b \<and> bkData b \<noteq> []"
    using assms(5,6) by (auto simp: assms(8) chunk_sizes_def)
  from receive_loop_spec [OF this, of cid_str now 0 "no_transfer\<lparr>tsTotalBlocks := length (map bkCID bs),
      tsSkippedBlocks := length held, tsResumedFrom := length held, tsBytesSaved := n\<rparr>" s]
  obtain rst s' where loop: "receive_loop cid_of cid_str (\<lambda>_. True) now (map block_frame fresh @ [mk_frame wireComplete]) 0
         ?asm (no_transfer\<lparr>tsTotalBlocks := length (map bkCID bs),
            tsSkippedBlocks := length held, tsResumedFrom := length held, tsBytesSaved := n\<rparr>) s =
      (Bytes (?asm\<lparr>raReceived := file_blocks (raReceived ?asm) fresh\<rparr>), rst, s')"
    and rst: "tsReceivedBlocks rst = length fresh" "tsSkippedBlocks rst = length held"
    by (auto simp: no_transfer_def)
  have "Bytes (?asm\<lparr>raReceived := file_blocks (raReceived ?asm) fresh\<rparr>) = Inr data"
    using reassembled [OF assms(1-5) r] by (simp add: assms(7,8))
  with rst show ?thesis unfolding rec loop by simp
qed

lemma Send_reply:
  assumes "Chunk cid_of data = Inr bs"
  shows "\<exists>st. Send cid_of (\<lambda>_. True) data [hello_frame held m] =
      (map encodeFrame (manifest_frame (map bkCID bs) # map block_frame (filter (\<lambda>b. bkCID b \<notin> set held) bs) @ [mk_frame wireComplete]), st, None)
    \<and> tsSentBlocks st = length (filter (\<lambda>b. bkCID b \<notin> set held) bs)
    \<and> tsSkippedBlocks st = length (filter (\<lambda>b. bkCID b \<in> set held) bs) \<and> tsTotalBlocks st = length bs"
proof -
  let ?st = "no_transfer\<lparr>tsTotalBlocks := length bs,
    tsResumedFrom := length (filter (\<lambda>c. c \<in> set (frCIDs (hello_frame held m))) (map bkCID bs))\<rparr>"
  obtain st k where "send_blocks (\<lambda>_. True) (set held) 1 bs ?st =
      (map (encodeFrame \<circ> block_frame) (filter (\<lambda>b. bkCID b \<notin> set held) bs), st, None, k)"
    "tsSentBlocks st = tsSentBlocks ?st + length (filter (\<lambda>b. bkCID b \<notin> set held) bs)"
    "tsSkippedBlocks st = tsSkippedBlocks ?st + length (filter (\<lambda>b. bkCID b \<in> set held) bs)"
    "tsTotalBlocks st = tsTotalBlocks ?st"
    using send_blocks_spec [of "set held" 1 bs ?st] by blast
  then show ?thesis using assms
    by (intro exI [of _ st]) (simp add: Send_def Let_def hello_frame_def no_transfer_def)
qed

lemma held_blocks:
  "length (filter (\<lambda>c. Store_Has c s) (map bkCID bs))
     = length (filter (\<lambda>b. bkCID b \<in> set (filter (\<lambda>c. Store_Has c s) (map bkCID bs))) bs)"
proof -
  have "filter (\<lambda>b. Store_Has (bkCID b) s) bs
      = filter (\<lambda>b. bkCID b \<in> set (filter (\<lambda>c. Store_Has c s) (map bkCID bs))) bs"
    by (rule filter_cong) auto
  moreover have "length (filter (\<lambda>c. Store_Has c s) (map bkCID bs)) = length (filter (\<lambda>b. Store_Has (bkCID b) s) bs)"
    by (simp add: filter_map comp_def)
  ultimately show ?thesis by simp
qed

lemma transfer_frames_ok:
  assumes "chunk_sizes bs" "\<forall>b\<in>set bs. bkCID b = cid_of (bkData b)" "length (concat (map bkData bs)) < 2 ^ 32"
    and "\<And>x. cast (cid_of x) = Some (cid_of x) \<and> length (cid_of x) \<le> maxFrameBytes"
  shows "frame_ok cast (manifest_frame (map bkCID bs))"
    and "frame_ok cast (hello_frame (filter P (map bkCID bs)) (length (map bkCID bs)))"
    and "list_all (frame_ok cast) (map block_frame (filter Q bs))" "frame_ok cast (mk_frame wireComplete)"
proof -
  have "length bs < 2 ^ 32" "length (filter P (map bkCID bs)) < 2 ^ 32"
    using chunks_few [OF assms(1)] assms(3) le_less_trans [OF length_filter_le, of "map bkCID bs"] by simp_all
  then show "frame_ok cast (manifest_frame (map bkCID bs))"
    "frame_ok cast (hello_frame (filter P (map bkCID bs)) (length (map bkCID bs)))"
    "list_all (frame_ok cast) (map block_frame (filter Q bs))" "frame_ok cast (mk_frame wireComplete)"
    using assms by (auto simp: frame_ok_def manifest_frame_def hello_frame_def block_frame_def list_all_iff chunk_sizes_def
        cdcMaxSize_def maxFrameBytes_def)
qed

text \<open>
  C3: a transfer delivers the file. Whatever blocks the receiver already holds, if identifiers are accepted
  by \<open>cid.Cast\<close>, fit a frame and do not collide on the blocks of the file and of the store, then the
  exchange ends without error on both sides, the receiver returns exactly the file, every block was
  either sent or skipped, and both sides count them alike.
\<close>

theorem files_transfer_delivers:
  assumes "store_ok cid_of s" "length data < 2 ^ 32"
    and "\<And>x. cast (cid_of x) = Some (cid_of x) \<and> length (cid_of x) \<le> maxFrameBytes"
    and "inj_on cid_of ({x. \<exists>bs b. Chunk cid_of data = Inr bs \<and> b \<in> set bs \<and> x = bkData b} \<union> bkData ` ran (msBlocks s))"
  shows "\<exists>st rst s'. transfer cid_of cast cid_str now data s = ((st, None), Inr data, rst, s')
    \<and> tsSentBlocks st + tsSkippedBlocks st = tsTotalBlocks st
    \<and> tsReceivedBlocks rst = tsSentBlocks st \<and> tsSkippedBlocks rst = tsSkippedBlocks st"
proof -
  obtain bs where bs: "Chunk cid_of data = Inr bs" "concat (map bkData bs) = data" "chunk_sizes bs"
    "\<forall>b\<in>set bs. bkCID b = cid_of (bkData b)" by (rule Chunk_spec)
  let ?order = "map bkCID bs" and ?held = "filter (\<lambda>c. Store_Has c s) (map bkCID bs)"
  let ?new = "filter (\<lambda>b. bkCID b \<notin> set ?held) bs"
  note frames = transfer_frames_ok [of bs cid_of cast, OF bs(3,4) _ assms(3), unfolded bs(2), OF assms(2)]
  obtain st where send: "Send cid_of (\<lambda>_. True) data [hello_frame ?held (length ?order)] =
      (map encodeFrame (manifest_frame ?order # map block_frame ?new @ [mk_frame wireComplete]), st, None)"
    and st: "tsSentBlocks st = length ?new" "tsSkippedBlocks st = length (filter (\<lambda>b. bkCID b \<in> set ?held) bs)"
      "tsTotalBlocks st = length bs"
    using Send_reply [OF bs(1)] by blast
  have first: "fst (Send cid_of (\<lambda>_. True) data []) = [encodeFrame (manifest_frame ?order)]"
    by (simp add: Send_def bs(1) Let_def)
  have reply: "fst (Receive cid_of cid_str (\<lambda>_. True) True now [manifest_frame ?order] s) =
      [encodeFrame (hello_frame ?held (length ?order))]"
    using Receive_manifest [OF assms(1), of cid_str now ?order "[]"] by auto
  obtain rst s' where rec: "Receive cid_of cid_str (\<lambda>_. True) True now
        (manifest_frame ?order # map block_frame ?new @ [mk_frame wireComplete]) s =
      ([encodeFrame (hello_frame ?held (length ?order))], Inr data, rst, s')"
    and rst: "tsReceivedBlocks rst = length ?new" "tsSkippedBlocks rst = length ?held"
    using Receive_file [OF assms(1,4) bs(1,2,4,3) refl refl, of cid_str now] by blast
  have i1: "inbox cast (fst (Send cid_of (\<lambda>_. True) data [])) = [manifest_frame ?order]"
    unfolding first using frames(1) by (simp add: inbox_Cons)
  have i2: "inbox cast [encodeFrame (hello_frame ?held (length ?order))] = [hello_frame ?held (length ?order)]"
    using frames(2) by (simp add: inbox_Cons)
  have i3: "inbox cast (map encodeFrame (manifest_frame ?order # map block_frame ?new @ [mk_frame wireComplete])) =
      manifest_frame ?order # map block_frame ?new @ [mk_frame wireComplete]"
    using frames by (intro inbox_frames) simp
  have "transfer cid_of cast cid_str now data s = ((st, None), Inr data, rst, s')"
    unfolding transfer_def case_prod_beta Let_def i1 reply i2 send fst_conv snd_conv i3 rec by (rule refl)
  moreover note held_blocks [of s bs]
  moreover have "length ?new + length (filter (\<lambda>b. bkCID b \<in> set ?held) bs) = length bs"
    by (metis sum_length_filter_compl add.commute)
  ultimately show ?thesis using st rst by auto
qed

theorem files_transfer_delivers_witness:
  "\<exists>st rst s'. transfer (take 4) Some (\<lambda>_. []) 0 [1, 2, 3] NewMemoryStore = ((st, None), Inr [1, 2, 3], rst, s')
     \<and> tsReceivedBlocks rst = tsSentBlocks st"
proof -
  have ok: "store_ok (take 4) NewMemoryStore" by (simp add: store_ok_def NewMemoryStore_def)
  obtain bs :: "block list" where bs: "Chunk (take 4) [1, 2, 3] = Inr bs" "concat (map bkData bs) = [1, 2, 3]" by (rule Chunk_spec)
  have short: "take 4 (bkData b) = bkData b" if "b \<in> set bs" for b
  proof -
    have "length (bkData b) \<le> length (concat (map bkData bs))" using that by (induction bs) auto
    with bs(2) show ?thesis by simp
  qed
  have "inj_on (take 4) ({x. \<exists>bs b. Chunk (take 4) [1, 2, 3] = Inr bs \<and> b \<in> set bs \<and> x = bkData b}
      \<union> bkData ` ran (msBlocks NewMemoryStore))"
    using short by (auto simp: inj_on_def bs(1) NewMemoryStore_def)
  moreover have "Some (take 4 x) = Some (take 4 x) \<and> length (take 4 x) \<le> maxFrameBytes" for x :: bytes
    by (simp add: maxFrameBytes_def)
  ultimately show ?thesis using files_transfer_delivers [OF ok, of "[1, 2, 3]" Some "\<lambda>_. []" 0] by fastforce
qed

end
