(* ===== verification/Files_Exchange.thy ===== *)
theory Files_Exchange
  imports Files_Store
begin

text \<open>
  The block exchange between peers (\<open>pkg/services/files/exchange.go\<close>): the frame of a message and the
  handlers of incoming want lists, advertisements, blocks and cancellations. Every message travels on a
  stream of its own. What a handler sends and the calls it makes to the installed callback are results;
  the outcome of a send is an argument. The replies to a want list are sent by one goroutine each, so an
  argument reorders them. A panic is \<open>None\<close>.
\<close>

type_synonym peer_id = bytes

definition MsgWant :: byte where "MsgWant = 0x01"
definition MsgHave :: byte where "MsgHave = 0x02"
definition MsgBlock :: byte where "MsgBlock = 0x03"
definition MsgCancel :: byte where "MsgCancel = 0x04"

lemmas exchange_types = MsgWant_def MsgHave_def MsgBlock_def MsgCancel_def

record exchange_message =
  emType :: byte
  emCID :: cid
  emCIDs :: "cid list"
  emData :: bytes

record peer_exchange =
  pxHave :: "want_entry list"
  pxWant :: "want_entry list"
  pxLastSeen :: gotime
  pxBlocksServed :: nat
  pxBlocksReceived :: nat
  pxLastErr :: "string option"

record exchange =
  exPeerID :: peer_id
  exHandler :: bool
  exPeers :: "peer_id \<rightharpoonup> peer_exchange"

text \<open>\<open>NewExchangeProtocol\<close> with a transport server; without one the methods do nothing.\<close>

definition NewExchangeProtocol :: "peer_id \<Rightarrow> exchange" where
  "NewExchangeProtocol peerID = \<lparr>exPeerID = peerID, exHandler = False, exPeers = Map.empty\<rparr>"

definition SetHandler :: "bool \<Rightarrow> exchange \<Rightarrow> exchange" where
  "SetHandler h e = e\<lparr>exHandler := h\<rparr>"

definition new_peer :: "gotime \<Rightarrow> peer_exchange" where
  "new_peer now = \<lparr>pxHave = [], pxWant = [], pxLastSeen = now, pxBlocksServed = 0, pxBlocksReceived = 0, pxLastErr = None\<rparr>"

section \<open>Sending\<close>

definition sendMessage :: "byte \<Rightarrow> bytes \<Rightarrow> bytes" where
  "sendMessage msgType payload = [msgType] @ put_u32 (word_of_nat (length payload)) @ payload"

definition SendWant :: "want_entry list \<Rightarrow> bytes" where
  "SendWant entries = sendMessage MsgWant (encodeWantEntries entries)"

definition SendHave :: "want_entry list \<Rightarrow> bytes" where
  "SendHave entries = sendMessage MsgHave (encodeWantEntries entries)"

definition SendBlock :: "block \<Rightarrow> bytes" where
  "SendBlock b = sendMessage MsgBlock (EncodeBlock b)"

section \<open>Handlers\<close>

definition the_peer :: "gotime \<Rightarrow> peer_id \<Rightarrow> exchange \<Rightarrow> peer_exchange" where
  "the_peer now peer e = (case exPeers e peer of Some p \<Rightarrow> p | None \<Rightarrow> new_peer now)\<lparr>pxLastSeen := now\<rparr>"

text \<open>The end of a goroutine that sent a block.\<close>

definition block_sent :: "peer_id \<Rightarrow> string option \<Rightarrow> exchange \<Rightarrow> exchange" where
  "block_sent peer err e =
     (case exPeers e peer of
        None \<Rightarrow> e
      | Some p \<Rightarrow> e\<lparr>exPeers := (exPeers e)(peer \<mapsto> p\<lparr>pxLastErr := err,
            pxBlocksServed := pxBlocksServed p + (if err = None then 1 else 0)\<rparr>)\<rparr>)"

definition wanted_blocks :: "memory_store \<Rightarrow> want_entry list \<Rightarrow> block list" where
  "wanted_blocks s wanted =
     List.map_filter (\<lambda>w. case Store_Get (weCID w) s of Inl _ \<Rightarrow> None | Inr b \<Rightarrow> Some b) wanted"

definition handleWant ::
  "(bytes \<Rightarrow> cid option) \<Rightarrow> gotime \<Rightarrow> (block list \<Rightarrow> block list) \<Rightarrow> (block \<Rightarrow> string option) \<Rightarrow> memory_store \<Rightarrow> peer_id \<Rightarrow> bytes
     \<Rightarrow> exchange \<Rightarrow> exchange \<times> bytes list" where
  "handleWant cast now order send_err s peer payload e =
     (case decodeWantEntries cast payload of
        Inl _ \<Rightarrow> (e, [])
      | Inr entries \<Rightarrow>
          let wanted = filter (\<lambda>w. weType w = WantWant) entries;
              e' = e\<lparr>exPeers := (exPeers e)(peer \<mapsto> (the_peer now peer e)\<lparr>pxWant := wanted\<rparr>)\<rparr>;
              blocks = order (wanted_blocks s wanted)
          in (foldl (\<lambda>e b. block_sent peer (send_err b) e) e' blocks, map SendBlock (filter (\<lambda>b. send_err b = None) blocks)))"

definition handleHave ::
  "(bytes \<Rightarrow> cid option) \<Rightarrow> gotime \<Rightarrow> peer_id \<Rightarrow> bytes \<Rightarrow> exchange \<Rightarrow> exchange \<times> exchange_message list" where
  "handleHave cast now peer payload e =
     (case decodeWantEntries cast payload of
        Inl _ \<Rightarrow> (e, [])
      | Inr entries \<Rightarrow>
          let have_entries = filter (\<lambda>w. weType w = WantHave) entries
          in (e\<lparr>exPeers := (exPeers e)(peer \<mapsto> (the_peer now peer e)\<lparr>pxHave := have_entries\<rparr>)\<rparr>,
              if exHandler e then [\<lparr>emType = MsgHave, emCID = [], emCIDs = map weCID have_entries, emData = []\<rparr>] else []))"

definition handleBlock ::
  "(bytes \<Rightarrow> cid) \<Rightarrow> peer_id \<Rightarrow> bytes \<Rightarrow> exchange \<Rightarrow> (exchange \<times> exchange_message list) option" where
  "handleBlock cid_of peer payload e =
     (case DecodeBlock cid_of payload of
        None \<Rightarrow> None
      | Some (Inl _) \<Rightarrow> Some (e, [])
      | Some (Inr b) \<Rightarrow>
          Some (case exPeers e peer of
                  None \<Rightarrow> e
                | Some p \<Rightarrow> e\<lparr>exPeers := (exPeers e)(peer \<mapsto> p\<lparr>pxBlocksReceived := pxBlocksReceived p + 1\<rparr>)\<rparr>,
                if exHandler e then [\<lparr>emType = MsgBlock, emCID = bkCID b, emCIDs = [], emData = bkData b\<rparr>] else []))"

definition handleCancel :: "(bytes \<Rightarrow> cid option) \<Rightarrow> (cid \<Rightarrow> string) \<Rightarrow> peer_id \<Rightarrow> bytes \<Rightarrow> exchange \<Rightarrow> exchange" where
  "handleCancel cast cid_str peer payload e =
     (case decodeWantEntries cast payload of
        Inl _ \<Rightarrow> e
      | Inr entries \<Rightarrow>
          (case exPeers e peer of
             None \<Rightarrow> e
           | Some p \<Rightarrow>
               e\<lparr>exPeers := (exPeers e)(peer \<mapsto> p\<lparr>pxWant :=
                 filter (\<lambda>w. cid_str (weCID w) \<notin> set (map (cid_str \<circ> weCID) entries)) (pxWant p)\<rparr>)\<rparr>))"

text \<open>\<open>handleStream\<close>: the new state, what was sent back and the calls of the callback.\<close>

definition Files_handleStream ::
  "(bytes \<Rightarrow> cid) \<Rightarrow> (bytes \<Rightarrow> cid option) \<Rightarrow> (cid \<Rightarrow> string) \<Rightarrow> gotime \<Rightarrow> (block list \<Rightarrow> block list) \<Rightarrow> (block \<Rightarrow> string option)
     \<Rightarrow> memory_store \<Rightarrow> peer_id \<Rightarrow> bytes \<Rightarrow> exchange \<Rightarrow> (exchange \<times> bytes list \<times> exchange_message list) option" where
  "Files_handleStream cid_of cast cid_str now order send_err s peer data e =
     (if length data < 5 then Some (e, [], [])
      else let msgType = hd data; n = unat (get_u32 (take 4 (drop 1 data))); rest = drop 5 data
           in if n > maxExchangePayload \<or> length rest < n then Some (e, [], [])
              else let payload = take n rest
                   in if msgType = MsgWant then (case handleWant cast now order send_err s peer payload e of (e', out) \<Rightarrow> Some (e', out, []))
                      else if msgType = MsgHave then (case handleHave cast now peer payload e of (e', calls) \<Rightarrow> Some (e', [], calls))
                      else if msgType = MsgBlock
                      then map_option (\<lambda>(e', calls). (e', [], calls)) (handleBlock cid_of peer payload e)
                      else if msgType = MsgCancel then Some (handleCancel cast cid_str peer payload e, [], [])
                      else Some (e, [], []))"

section \<open>Messages arrive as they were sent\<close>

lemma handleStream_message:
  assumes "length payload \<le> maxExchangePayload"
  shows "Files_handleStream cid_of cast cid_str now order send_err s peer (sendMessage msgType payload) e =
    (if msgType = MsgWant then (case handleWant cast now order send_err s peer payload e of (e', out) \<Rightarrow> Some (e', out, []))
     else if msgType = MsgHave then (case handleHave cast now peer payload e of (e', calls) \<Rightarrow> Some (e', [], calls))
     else if msgType = MsgBlock then map_option (\<lambda>(e', calls). (e', [], calls)) (handleBlock cid_of peer payload e)
     else if msgType = MsgCancel then Some (handleCancel cast cid_str peer payload e, [], [])
     else Some (e, [], []))"
proof -
  have "unat (word_of_nat (length payload) :: u32) = length payload"
    using assms by (simp add: unat_cast maxExchangePayload_def)
  with assms show ?thesis by (simp add: Files_handleStream_def sendMessage_def Let_def)
qed

text \<open>
  No message makes a node panic. The slice bound in \<open>DecodeBlock\<close> wraps around for lengths close to 4 GiB,
  but \<open>handleStream\<close> refuses such payloads before it is computed.
\<close>

lemma DecodeBlock_panics: "DecodeBlock cid_of data = None \<Longrightarrow> 2 ^ 32 \<le> length data"
proof -
  assume a: "DecodeBlock cid_of data = None"
  let ?n = "get_u32 (take 4 data)"
  from a have len: "4 + unat ?n \<le> length data" and stop: "unat (4 + ?n) < 4"
    by (auto simp: DecodeBlock_def Let_def split: if_splits)
  have "unat (4 + ?n) = (4 + unat ?n) mod 2 ^ 32" by (simp add: unat_word_ariths)
  with stop have "2 ^ 32 \<le> 4 + unat ?n" by (cases "4 + unat ?n < 2 ^ 32") simp_all
  with len show "2 ^ 32 \<le> length data" by linarith
qed

theorem exchange_never_panics:
  "Files_handleStream cid_of cast cid_str now order send_err s peer data e \<noteq> None"
proof (cases "length data < 5")
  case False
  let ?n = "unat (get_u32 (take 4 (drop 1 data)))" and ?rest = "drop 5 data"
  show ?thesis
  proof (cases "?n > maxExchangePayload \<or> length ?rest < ?n")
    case ok: False
    have "handleBlock cid_of peer (take ?n ?rest) e \<noteq> None"
      using DecodeBlock_panics [of cid_of "take ?n ?rest"] ok
      by (auto simp: handleBlock_def maxExchangePayload_def split: option.split sum.split)
    with ok False show ?thesis by (auto simp: Files_handleStream_def Let_def split: prod.split)
  qed (simp add: Files_handleStream_def Let_def)
qed (simp add: Files_handleStream_def)

text \<open>What the handlers make of the messages of a peer.\<close>

definition castable :: "(bytes \<Rightarrow> cid option) \<Rightarrow> cid \<Rightarrow> bool" where
  "castable cast c \<longleftrightarrow> cast c = Some c \<and> length c \<le> maxCIDLen"

lemma length_encodeWantEntries: "length (encodeWantEntries es) \<le> 1 + 68 * length es"
proof (induction es)
  case (Cons e es)
  have "length (encode_want e) \<le> 68" by (simp add: encode_want_def maxCIDLen_def)
  with Cons show ?case by (simp add: encodeWantEntries_def)
qed (simp add: encodeWantEntries_def)

lemma short_list_payload: "length es < 256 \<Longrightarrow> length (encodeWantEntries es) \<le> maxExchangePayload"
  using length_encodeWantEntries [of es] by (simp add: maxExchangePayload_def)

end
