(* ===== verification/Files_Sync.thy ===== *)
theory Files_Sync
  imports Files_Exchange Go_Format Crdt_Merkle "HOL-Library.Multiset"
begin

text \<open>
  The synchronisation engine (\<open>pkg/services/files/sync.go\<close>): what a node and its peers hold, what is asked
  for and in flight, and the reaction to advertisements and blocks. The store is the \<open>memoryStore\<close> of
  \<open>Files_Store\<close>, the exchange is \<open>Files_Exchange\<close>; what the engine sends is a result. The set-like maps are
  sets; arguments enumerate the keys of the maps that are ranged over.
\<close>

record sync_stats =
  stBlocksSent :: u64
  stBlocksRecv :: u64
  stBytesSent :: u64
  stBytesRecv :: u64
  stActiveSyncs :: int
  stTotalSyncs :: u64
  stFailedSyncs :: u64

datatype sync_error = AlreadyRunning | NoExchange | SendWantFailed string | SendHaveFailed string | StoreFailed store_error

record peer_sync =
  ysHave :: "cid list"
  ysLastSync :: gotime
  ysInFlight :: "cid set"
  ysBytesRecv :: u64
  ysBlocksRecv :: u64
  ysFailed :: "string option"

record sync_engine =
  syPeerID :: peer_id
  syExchange :: bool
  syLister :: bool
  syHave :: "cid set"
  syWant :: "cid set"
  syInFlight :: "cid \<rightharpoonup> gotime"
  syPeers :: "peer_id \<rightharpoonup> peer_sync"
  syRunning :: bool
  syInterval :: duration
  syStats :: sync_stats

definition no_stats :: sync_stats where
  "no_stats = \<lparr>stBlocksSent = 0, stBlocksRecv = 0, stBytesSent = 0, stBytesRecv = 0, stActiveSyncs = 0,
     stTotalSyncs = 0, stFailedSyncs = 0\<rparr>"

definition NewSyncEngine :: "peer_id \<Rightarrow> duration \<Rightarrow> sync_engine" where
  "NewSyncEngine peerID interval =
     \<lparr>syPeerID = peerID, syExchange = False, syLister = False, syHave = {}, syWant = {}, syInFlight = Map.empty,
      syPeers = Map.empty, syRunning = False, syInterval = (if interval = 0 then 5000000000 else interval), syStats = no_stats\<rparr>"

definition SetExchange :: "bool \<Rightarrow> sync_engine \<Rightarrow> sync_engine" where
  "SetExchange x s = s\<lparr>syExchange := x\<rparr>"

definition SetPeerSource :: "bool \<Rightarrow> sync_engine \<Rightarrow> sync_engine" where
  "SetPeerSource l s = s\<lparr>syLister := l\<rparr>"

definition new_sync :: peer_sync where
  "new_sync = \<lparr>ysHave = [], ysLastSync = 0, ysInFlight = {}, ysBytesRecv = 0, ysBlocksRecv = 0, ysFailed = None\<rparr>"

definition sync_peer :: "peer_id \<Rightarrow> sync_engine \<Rightarrow> peer_sync" where
  "sync_peer peer s = (case syPeers s peer of Some p \<Rightarrow> p | None \<Rightarrow> new_sync)"

definition RecordPeerHave :: "gotime \<Rightarrow> peer_id \<Rightarrow> cid list \<Rightarrow> sync_engine \<Rightarrow> sync_engine" where
  "RecordPeerHave now peer cs s =
     s\<lparr>syPeers := (syPeers s)(peer \<mapsto> (sync_peer peer s)\<lparr>ysHave := cs, ysLastSync := now\<rparr>)\<rparr>"

definition Engine_Start :: "sync_engine \<Rightarrow> sync_error option \<times> sync_engine" where
  "Engine_Start s = (if syRunning s then (Some AlreadyRunning, s) else (None, s\<lparr>syRunning := True\<rparr>))"

definition Engine_Stop :: "sync_engine \<Rightarrow> sync_engine" where
  "Engine_Stop s = (if \<not> syRunning s then s else s\<lparr>syRunning := False\<rparr>)"

section \<open>What is missing\<close>

definition buildHaveList :: "cid list \<Rightarrow> cid list \<Rightarrow> memory_store \<Rightarrow> sync_engine \<Rightarrow> cid list \<times> sync_engine" where
  "buildHaveList listing order store s =
     (let s' = s\<lparr>syHave := syHave s \<union> set (Store_List listing store)\<rparr> in (filter (\<lambda>c. c \<in> syHave s') order, s'))"

definition buildWantList ::
  "cid list \<Rightarrow> cid list \<Rightarrow> memory_store \<Rightarrow> peer_id \<Rightarrow> sync_engine \<Rightarrow> cid list \<times> sync_engine" where
  "buildWantList listing order store peer s =
     (let s' = snd (buildHaveList listing order store s)
      in case syPeers s' peer of
           None \<Rightarrow> ([], s')
         | Some p \<Rightarrow> (filter (\<lambda>c. c \<notin> syHave s' \<and> syInFlight s' c = None) (ysHave p), s'))"

definition advertise ::
  "cid list \<Rightarrow> cid list \<Rightarrow> string option \<Rightarrow> memory_store \<Rightarrow> sync_engine \<Rightarrow> sync_error option \<times> bytes list \<times> sync_engine" where
  "advertise listing order send_err store s =
     (if \<not> syExchange s then (Some NoExchange, [], s)
      else let (cs, s') = buildHaveList listing order store s;
               entries = map (\<lambda>c. \<lparr>weCID = c, weType = WantHave, wePriority = 1\<rparr>) cs
           in case send_err of
                Some e \<Rightarrow> (Some (SendHaveFailed e), [], s')
              | None \<Rightarrow> (None, [SendHave entries], s'))"

definition count_total :: "sync_engine \<Rightarrow> sync_engine" where
  "count_total s = s\<lparr>syStats := (syStats s)\<lparr>stTotalSyncs := stTotalSyncs (syStats s) + 1\<rparr>\<rparr>"

definition count_failed :: "sync_engine \<Rightarrow> sync_engine" where
  "count_failed s = s\<lparr>syStats := (syStats s)\<lparr>stFailedSyncs := stFailedSyncs (syStats s) + 1\<rparr>\<rparr>"

definition add_active :: "int \<Rightarrow> sync_engine \<Rightarrow> sync_engine" where
  "add_active n s = s\<lparr>syStats := (syStats s)\<lparr>stActiveSyncs := stActiveSyncs (syStats s) + n\<rparr>\<rparr>"

text \<open>The identifiers asked for are marked before the message is sent, and unmarked when it fails.\<close>

definition mark_wanted :: "gotime \<Rightarrow> peer_id \<Rightarrow> cid list \<Rightarrow> sync_engine \<Rightarrow> sync_engine" where
  "mark_wanted now peer cs s =
     (let p = (sync_peer peer s)\<lparr>ysLastSync := now, ysFailed := None\<rparr>
      in add_active 1 (s\<lparr>syPeers := (syPeers s)(peer \<mapsto> p\<lparr>ysInFlight := ysInFlight p \<union> set cs\<rparr>),
           syWant := syWant s \<union> set cs, syInFlight := (\<lambda>c. if c \<in> set cs then Some now else syInFlight s c)\<rparr>))"

definition unmark_wanted :: "peer_id \<Rightarrow> cid list \<Rightarrow> string \<Rightarrow> sync_engine \<Rightarrow> sync_engine" where
  "unmark_wanted peer cs err s =
     (let p = sync_peer peer s
      in count_failed (add_active (- 1) (s\<lparr>syPeers := (syPeers s)(peer \<mapsto> p\<lparr>ysInFlight := ysInFlight p - set cs, ysFailed := Some err\<rparr>),
           syWant := syWant s - set cs, syInFlight := (\<lambda>c. if c \<in> set cs then None else syInFlight s c)\<rparr>)))"

definition Sync ::
  "gotime \<Rightarrow> cid list \<Rightarrow> cid list \<Rightarrow> string option \<Rightarrow> memory_store \<Rightarrow> peer_id \<Rightarrow> sync_engine
     \<Rightarrow> sync_error option \<times> bytes list \<times> sync_engine" where
  "Sync now listing order send_err store peer s =
     (let s1 = count_total s
      in if \<not> syExchange s1 then (Some NoExchange, [], count_failed s1)
         else let s2 = snd (buildHaveList listing order store s1);
                  (want, s3) = buildWantList listing order store peer s2
              in if want = [] then (None, [], s3)
                 else let entries = map (\<lambda>c. \<lparr>weCID = c, weType = WantWant, wePriority = 1\<rparr>) want;
                          s4 = mark_wanted now peer want s3
                      in case send_err of
                           Some e \<Rightarrow> (Some (SendWantFailed e), [], unmark_wanted peer want e s4)
                         | None \<Rightarrow> (None, [SendWant entries], s4))"

definition WantList :: "cid list \<Rightarrow> sync_engine \<Rightarrow> cid list" where
  "WantList order s = filter (\<lambda>c. c \<in> syWant s) order"

section \<open>What arrives\<close>

definition ReceivedBlock ::
  "(bytes \<Rightarrow> cid) \<Rightarrow> (cid \<Rightarrow> string) \<Rightarrow> bool \<Rightarrow> gotime \<Rightarrow> block \<Rightarrow> memory_store \<Rightarrow> sync_engine
     \<Rightarrow> sync_error option \<times> memory_store \<times> sync_engine" where
  "ReceivedBlock cid_of cid_str write_ok now b store s =
     (case Store_Put cid_of cid_str write_ok now b store of
        (Some e, store') \<Rightarrow> (Some (StoreFailed e), store', s)
      | (None, store') \<Rightarrow>
          let wasWanted = bkCID b \<in> syWant s; st = syStats s;
              st' = st\<lparr>stBlocksRecv := stBlocksRecv st + 1, stBytesRecv := stBytesRecv st + word_of_nat (length (bkData b)),
                       stActiveSyncs := (if wasWanted \<and> stActiveSyncs st > 0 then stActiveSyncs st - 1 else stActiveSyncs st)\<rparr>
          in (None, store', s\<lparr>syHave := insert (bkCID b) (syHave s), syWant := syWant s - {bkCID b},
                              syInFlight := (syInFlight s)(bkCID b := None), syStats := st'\<rparr>))"

definition HandleBlock ::
  "(bytes \<Rightarrow> cid) \<Rightarrow> (cid \<Rightarrow> string) \<Rightarrow> bool \<Rightarrow> gotime \<Rightarrow> peer_id \<Rightarrow> exchange_message \<Rightarrow> memory_store \<Rightarrow> sync_engine
     \<Rightarrow> sync_error option \<times> memory_store \<times> sync_engine" where
  "HandleBlock cid_of cid_str write_ok now peer msg store s =
     (if emType msg = MsgHave then (None, store, RecordPeerHave now peer (emCIDs msg) s)
      else if emType msg \<noteq> MsgBlock then (None, store, s)
      else let b = \<lparr>bkCID = emCID msg, bkData = emData msg\<rparr>
           in case ReceivedBlock cid_of cid_str write_ok now b store s of
                (Some e, store', s') \<Rightarrow> (Some e, store', s')
              | (None, store', s') \<Rightarrow>
                  (None, store',
                   case syPeers s' peer of
                     None \<Rightarrow> s'
                   | Some p \<Rightarrow> s'\<lparr>syPeers := (syPeers s')(peer \<mapsto> p\<lparr>ysInFlight := ysInFlight p - {bkCID b},
                        ysBlocksRecv := ysBlocksRecv p + 1, ysBytesRecv := ysBytesRecv p + word_of_nat (length (bkData b))\<rparr>)\<rparr>))"

section \<open>Reports\<close>

record sync_progress =
  pgPeerID :: peer_id
  pgHave :: "cid list"
  pgInFlight :: "cid list"
  pgComplete :: bool
  pgBytesRecv :: u64
  pgTotalBytes :: nat
  pgErr :: string

definition peer_progress :: "cid list \<Rightarrow> memory_store \<Rightarrow> peer_id \<Rightarrow> peer_sync \<Rightarrow> sync_progress" where
  "peer_progress order store pid p =
     (let inflight = sort (filter (\<lambda>c. c \<in> ysInFlight p) order)
      in \<lparr>pgPeerID = pid, pgHave = ysHave p, pgInFlight = inflight,
          pgComplete = (inflight = [] \<and> ysFailed p = None), pgBytesRecv = ysBytesRecv p,
          pgTotalBytes = sum_list (map (\<lambda>c. case Store_Size c store of Inr n \<Rightarrow> n | Inl _ \<Rightarrow> 0) (ysHave p)),
          pgErr = (case ysFailed p of Some e \<Rightarrow> e | None \<Rightarrow> [])\<rparr>)"

definition Progress :: "peer_id list \<Rightarrow> cid list \<Rightarrow> memory_store \<Rightarrow> sync_engine \<Rightarrow> sync_progress list" where
  "Progress pids order store s =
     sort_key (\<lambda>g. hex_encode (pgPeerID g))
       (List.map_filter (\<lambda>pid. map_option (peer_progress order store pid) (syPeers s pid)) pids)"

text \<open>\<open>connectedPeers\<close>: \<open>pids\<close> enumerates the peers of the map, \<open>listed\<close> is the answer of the peer source.\<close>

definition connectedPeers :: "peer_id list \<Rightarrow> peer_id list \<Rightarrow> sync_engine \<Rightarrow> peer_id list" where
  "connectedPeers pids listed s =
     (let known = filter (\<lambda>p. syPeers s p \<noteq> None) pids
      in if \<not> syLister s then known
         else sort_key hex_encode (remdups (known @ filter (\<lambda>p. p \<noteq> syPeerID s) listed)))"

text \<open>One round of \<open>tickLoop\<close>; \<open>send_err\<close> gives the outcome of sending to a peer.\<close>

fun tick_peers ::
  "gotime \<Rightarrow> cid list \<Rightarrow> cid list \<Rightarrow> (peer_id \<Rightarrow> string option \<times> string option) \<Rightarrow> memory_store \<Rightarrow> peer_id list \<Rightarrow> sync_engine
     \<Rightarrow> (peer_id \<times> bytes) list \<times> sync_engine" where
  "tick_peers now listing order send_err store [] s = ([], s)"
| "tick_peers now listing order send_err store (p # ps) s =
     (case advertise listing order (fst (send_err p)) store s of
        (Some _, _, s1) \<Rightarrow> tick_peers now listing order send_err store ps s1
      | (None, out1, s1) \<Rightarrow>
          let (_, out2, s2) = Sync now listing order (snd (send_err p)) store p s1;
              (out, s3) = tick_peers now listing order send_err store ps s2
          in (map (Pair p) (out1 @ out2) @ out, s3))"

definition sync_tick ::
  "gotime \<Rightarrow> cid list \<Rightarrow> cid list \<Rightarrow> (peer_id \<Rightarrow> string option \<times> string option) \<Rightarrow> peer_id list \<Rightarrow> peer_id list \<Rightarrow> memory_store \<Rightarrow> sync_engine
     \<Rightarrow> (peer_id \<times> bytes) list \<times> sync_engine" where
  "sync_tick now listing order send_err pids listed store s =
     tick_peers now listing order send_err store (connectedPeers pids listed s) s"

section \<open>Roots of file sets\<close>

text \<open>\<open>merkleRoot\<close> sorts every level and then combines neighbours with the hash of \<open>hashPair\<close>.\<close>

function files_merkleRoot :: "(bytes \<Rightarrow> bytes) \<Rightarrow> bytes list \<Rightarrow> bytes" where
  "files_merkleRoot sha3 leaves =
     (if leaves = [] then replicate 32 0
      else if length leaves = 1 then hd leaves
      else files_merkleRoot sha3 (next_level sha3 (sort leaves)))"
  by pat_completeness auto

termination
  by (relation "measure (\<lambda>(_, leaves). length leaves)") (auto intro: next_level_shrinks)

declare files_merkleRoot.simps [simp del]

text \<open>\<open>cid_hash\<close> is \<open>Cid.Hash\<close>, copied into 32 bytes; \<open>cid_of\<close> is the raw CID of some data.\<close>

definition computeMerkleRoot :: "(bytes \<Rightarrow> bytes) \<Rightarrow> (bytes \<Rightarrow> cid) \<Rightarrow> (cid \<Rightarrow> bytes) \<Rightarrow> cid list \<Rightarrow> cid" where
  "computeMerkleRoot sha3 cid_of cid_hash cs =
     (if cs = [] then [] else if length cs = 1 then hd cs
      else cid_of (files_merkleRoot sha3 (map (\<lambda>c. take 32 (cid_hash c @ replicate 32 0)) cs)))"

definition diffCIDs :: "cid list \<Rightarrow> cid list \<Rightarrow> cid list" where
  "diffCIDs a b = filter (\<lambda>c. c \<notin> set b) a"

text \<open>The root of a set of files does not depend on the order in which they are listed.\<close>

lemma files_root_order:
  assumes "mset cs = mset ds"
  shows "computeMerkleRoot sha3 cid_of cid_hash cs = computeMerkleRoot sha3 cid_of cid_hash ds"
proof -
  let ?leaf = "\<lambda>c. take 32 (cid_hash c @ replicate 32 0)"
  have len: "length cs = length ds" using assms by (metis size_mset)
  have "sort (map ?leaf cs) = sort (map ?leaf ds)"
    using assms by (intro properties_for_sort) simp_all
  then have root: "files_merkleRoot sha3 (map ?leaf cs) = files_merkleRoot sha3 (map ?leaf ds)" if "length cs \<noteq> 1"
    using that len by (subst (1 2) files_merkleRoot.simps) auto
  show ?thesis
  proof (cases "length cs = 1")
    case True
    then obtain c where "cs = [c]" by (auto simp: length_Suc_conv)
    moreover from this have "ds = [c]" using assms by simp
    ultimately show ?thesis by simp
  next
    case False
    with root len show ?thesis by (auto simp: computeMerkleRoot_def)
  qed
qed

end
