(* ===== verification/Files_Node.thy ===== *)
theory Files_Node
  imports Files_Sync
begin

text \<open>
  A file node: the store, the synchronisation engine and the exchange put together the way the daemon does,
  with \<open>HandleBlock\<close> as the callback of the exchange, and two such nodes talking to each other. It shows what
  a round of synchronisation achieves and which requests are never repeated.
\<close>

section \<open>A node\<close>

text \<open>The store, the engine and the exchange of one node; the daemon installs \<open>HandleBlock\<close> as the callback.\<close>

record sync_node =
  snStore :: memory_store
  snEngine :: sync_engine
  snExchange :: exchange

definition handle_call ::
  "(bytes \<Rightarrow> cid) \<Rightarrow> (cid \<Rightarrow> string) \<Rightarrow> gotime \<Rightarrow> peer_id \<Rightarrow> sync_node \<Rightarrow> exchange_message \<Rightarrow> sync_node" where
  "handle_call cid_of cid_str now peer n msg =
     (case HandleBlock cid_of cid_str True now peer msg (snStore n) (snEngine n) of
        (_, store, s) \<Rightarrow> n\<lparr>snStore := store, snEngine := s\<rparr>)"

definition node_receive ::
  "(bytes \<Rightarrow> cid) \<Rightarrow> (bytes \<Rightarrow> cid option) \<Rightarrow> (cid \<Rightarrow> string) \<Rightarrow> (block list \<Rightarrow> block list) \<Rightarrow> gotime \<Rightarrow> peer_id \<Rightarrow> bytes \<Rightarrow> sync_node
     \<Rightarrow> (bytes list \<times> sync_node) option" where
  "node_receive cid_of cast cid_str order now peer data n =
     (case Files_handleStream cid_of cast cid_str now order (\<lambda>_. None) (snStore n) peer data (snExchange n) of
        None \<Rightarrow> None
      | Some (e, out, calls) \<Rightarrow> Some (out, foldl (handle_call cid_of cid_str now peer) (n\<lparr>snExchange := e\<rparr>) calls))"

text \<open>Messages delivered one after another, with what is sent back.\<close>

fun node_receives ::
  "(bytes \<Rightarrow> cid) \<Rightarrow> (bytes \<Rightarrow> cid option) \<Rightarrow> (cid \<Rightarrow> string) \<Rightarrow> (block list \<Rightarrow> block list) \<Rightarrow> gotime \<Rightarrow> peer_id \<Rightarrow> bytes list \<Rightarrow> sync_node
     \<Rightarrow> (bytes list \<times> sync_node) option" where
  "node_receives cid_of cast cid_str order now peer [] n = Some ([], n)"
| "node_receives cid_of cast cid_str order now peer (d # ds) n =
     (case node_receive cid_of cast cid_str order now peer d n of
        None \<Rightarrow> None
      | Some (out, n') \<Rightarrow>
          (case node_receives cid_of cast cid_str order now peer ds n' of
             None \<Rightarrow> None | Some (outs, n'') \<Rightarrow> Some (out @ outs, n'')))"

lemma node_receives_returns: "node_receives cid_of cast cid_str order now peer ds n \<noteq> None"
proof (induction ds arbitrary: n)
  case (Cons d ds)
  obtain out n' where "node_receive cid_of cast cid_str order now peer d n = Some (out, n')"
    using exchange_never_panics [of cid_of cast cid_str now order "\<lambda>_. None" "snStore n" peer d "snExchange n"]
    by (auto simp: node_receive_def)
  with Cons.IH [of n'] show ?case by (auto split: option.split)
qed simp

section \<open>Blocks that arrive are stored\<close>

text \<open>A block that can be sent: it is filed under its identifier, is not empty and fits a message.\<close>

definition sendable :: "(bytes \<Rightarrow> cid) \<Rightarrow> block \<Rightarrow> bool" where
  "sendable cid_of b \<longleftrightarrow> bkCID b = cid_of (bkData b) \<and> bkData b \<noteq> [] \<and> length (bkData b) + 4 \<le> maxExchangePayload"

lemma sendable_decodes: "sendable cid_of b \<Longrightarrow> DecodeBlock cid_of (EncodeBlock b) = Some (Inr b)"
  by (rule block_roundtrip) (auto simp: sendable_def maxExchangePayload_def)

lemma store_ok_None: "store_ok cid_of s \<Longrightarrow> msMeta s c = None \<longleftrightarrow> msBlocks s c = None"
  by (metis domIff store_ok_def)

lemma Put_sendable:
  assumes "sendable cid_of b"
  shows "Store_Put cid_of cid_str True now b s = (None, snd (Store_Put cid_of cid_str True now b s))"
    and "msBlocks (snd (Store_Put cid_of cid_str True now b s)) =
      (if msMeta s (bkCID b) = None then (msBlocks s)(bkCID b \<mapsto> b) else msBlocks s)"
  using assms by (auto simp: Store_Put_def sendable_def Let_def split: option.split)

lemma HandleBlock_sendable:
  assumes "sendable cid_of b"
  shows "\<exists>s'. HandleBlock cid_of cid_str True now peer \<lparr>emType = MsgBlock, emCID = bkCID b, emCIDs = [], emData = bkData b\<rparr> store s
      = (None, snd (Store_Put cid_of cid_str True now b store), s')
    \<and> syInFlight s' = (syInFlight s)(bkCID b := None) \<and> syWant s' = syWant s - {bkCID b}"
proof -
  obtain store' where put: "Store_Put cid_of cid_str True now b store = (None, store')"
    using Put_sendable(1) [OF assms] by blast
  have "\<exists>s'. ReceivedBlock cid_of cid_str True now b store s = (None, store', s')
      \<and> syInFlight s' = (syInFlight s)(bkCID b := None) \<and> syWant s' = syWant s - {bkCID b}"
    by (simp add: ReceivedBlock_def put Let_def)
  then obtain s' where r: "ReceivedBlock cid_of cid_str True now b store s = (None, store', s')"
    "syInFlight s' = (syInFlight s)(bkCID b := None)" "syWant s' = syWant s - {bkCID b}" by blast
  have b: "\<lparr>bkCID = bkCID b, bkData = bkData b\<rparr> = b" by simp
  from r put show ?thesis by (cases "syPeers s' peer") (simp_all add: HandleBlock_def exchange_types Let_def b)
qed

lemma receive_block:
  assumes "sendable cid_of b" "exHandler (snExchange n)"
  obtains n' where "node_receive cid_of cast cid_str order now peer (SendBlock b) n = Some ([], n')"
    "snStore n' = snd (Store_Put cid_of cid_str True now b (snStore n))" "exHandler (snExchange n')"
    "syInFlight (snEngine n') = (syInFlight (snEngine n))(bkCID b := None)"
    "syWant (snEngine n') = syWant (snEngine n) - {bkCID b}"
proof -
  have "length (EncodeBlock b) \<le> maxExchangePayload" using assms(1) by (simp add: sendable_def EncodeBlock_def)
  then obtain e where h: "Files_handleStream cid_of cast cid_str now order (\<lambda>_. None) (snStore n) peer (SendBlock b) (snExchange n) =
      Some (e, [], [\<lparr>emType = MsgBlock, emCID = bkCID b, emCIDs = [], emData = bkData b\<rparr>])" "exHandler e"
    using assms sendable_decodes [OF assms(1)]
    by (simp add: SendBlock_def handleStream_message exchange_types handleBlock_def split: option.split)
  obtain s where s: "HandleBlock cid_of cid_str True now peer \<lparr>emType = MsgBlock, emCID = bkCID b, emCIDs = [], emData = bkData b\<rparr>
        (snStore n) (snEngine n) = (None, snd (Store_Put cid_of cid_str True now b (snStore n)), s)"
    "syInFlight s = (syInFlight (snEngine n))(bkCID b := None)" "syWant s = syWant (snEngine n) - {bkCID b}"
    using HandleBlock_sendable [OF assms(1)] by blast
  show thesis
    by (rule that [of "n\<lparr>snExchange := e, snStore := snd (Store_Put cid_of cid_str True now b (snStore n)), snEngine := s\<rparr>"])
      (simp_all add: node_receive_def h handle_call_def s)
qed

lemma receive_blocks:
  assumes "list_all (sendable cid_of) bs" "exHandler (snExchange n)" "store_ok cid_of (snStore n)"
  shows "\<exists>n'. node_receives cid_of cast cid_str order now peer (map SendBlock bs) n = Some ([], n')
    \<and> store_ok cid_of (snStore n')
    \<and> dom (msBlocks (snStore n')) = dom (msBlocks (snStore n)) \<union> set (map bkCID bs)
    \<and> (\<forall>c b. msBlocks (snStore n) c = Some b \<longrightarrow> msBlocks (snStore n') c = Some b)
    \<and> (\<forall>c b. msBlocks (snStore n) c = None \<longrightarrow> msBlocks (snStore n') c = Some b \<longrightarrow> b \<in> set bs)
    \<and> (\<forall>c. c \<in> set (map bkCID bs) \<longrightarrow> syInFlight (snEngine n') c = None)
    \<and> (\<forall>c. syInFlight (snEngine n) c = None \<longrightarrow> syInFlight (snEngine n') c = None)"
  using assms
proof (induction bs arbitrary: n)
  case (Cons b bs)
  obtain n1 where n1: "node_receive cid_of cast cid_str order now peer (SendBlock b) n = Some ([], n1)"
    "snStore n1 = snd (Store_Put cid_of cid_str True now b (snStore n))" "exHandler (snExchange n1)"
    "syInFlight (snEngine n1) = (syInFlight (snEngine n))(bkCID b := None)"
    using receive_block [of cid_of b n cast cid_str order now peer thesis] Cons.prems by auto
  have ok: "store_ok cid_of (snStore n1)" using Cons.prems(3) by (simp add: n1(2) Put_ok)
  from Cons.IH [OF _ n1(3) ok] Cons.prems(1) obtain n' where n':
    "node_receives cid_of cast cid_str order now peer (map SendBlock bs) n1 = Some ([], n')" "store_ok cid_of (snStore n')"
    "dom (msBlocks (snStore n')) = dom (msBlocks (snStore n1)) \<union> set (map bkCID bs)"
    "\<forall>c b. msBlocks (snStore n1) c = Some b \<longrightarrow> msBlocks (snStore n') c = Some b"
    "\<forall>c b. msBlocks (snStore n1) c = None \<longrightarrow> msBlocks (snStore n') c = Some b \<longrightarrow> b \<in> set bs"
    "\<forall>c. c \<in> set (map bkCID bs) \<longrightarrow> syInFlight (snEngine n') c = None"
    "\<forall>c. syInFlight (snEngine n1) c = None \<longrightarrow> syInFlight (snEngine n') c = None" by auto
  have blocks: "msBlocks (snStore n1) =
      (if msBlocks (snStore n) (bkCID b) = None then (msBlocks (snStore n))(bkCID b \<mapsto> b) else msBlocks (snStore n))"
    using Put_sendable(2) [of cid_of b cid_str now "snStore n"] Cons.prems(1) store_ok_None [OF Cons.prems(3)]
    by (simp add: n1(2))
  have d1: "dom (msBlocks (snStore n1)) = insert (bkCID b) (dom (msBlocks (snStore n)))"
    unfolding blocks by auto
  have keep: "msBlocks (snStore n1) c = Some x" if "msBlocks (snStore n) c = Some x" for c x
    using that unfolding blocks by auto
  have new: "x \<in> set (b # bs)" if "msBlocks (snStore n) c = None" "msBlocks (snStore n') c = Some x" for c x
  proof (cases "c = bkCID b")
    case True
    with that(1) have "msBlocks (snStore n1) c = Some b" unfolding blocks by simp
    with n'(4) that(2) show ?thesis by auto
  next
    case False
    with that(1) have "msBlocks (snStore n1) c = None" unfolding blocks by simp
    with n'(5) that(2) show ?thesis by auto
  qed
  have "node_receives cid_of cast cid_str order now peer (map SendBlock (b # bs)) n = Some ([], n')"
    by (simp add: n1(1) n'(1))
  moreover have "dom (msBlocks (snStore n')) = dom (msBlocks (snStore n)) \<union> set (map bkCID (b # bs))"
    using n'(3) d1 by auto
  moreover have "\<forall>c. c \<in> set (map bkCID (b # bs)) \<longrightarrow> syInFlight (snEngine n') c = None"
    using n'(6,7) n1(4) by auto
  moreover have "\<forall>c. syInFlight (snEngine n) c = None \<longrightarrow> syInFlight (snEngine n') c = None"
    using n'(7) n1(4) by auto
  ultimately show ?case using n'(2,4) keep new by (intro exI [of _ n']) blast
qed simp

section \<open>A round of synchronisation\<close>

text \<open>
  One node pulls from another: the second advertises, the first asks for what it misses, the second
  serves the blocks and the first takes them in.
\<close>

definition pull_round ::
  "(bytes \<Rightarrow> cid) \<Rightarrow> (bytes \<Rightarrow> cid option) \<Rightarrow> (cid \<Rightarrow> string) \<Rightarrow> (block list \<Rightarrow> block list) \<Rightarrow> gotime \<Rightarrow> cid list \<Rightarrow> cid list \<Rightarrow> cid list \<Rightarrow> cid list
     \<Rightarrow> peer_id \<Rightarrow> peer_id \<Rightarrow> sync_node \<Rightarrow> sync_node \<Rightarrow> (sync_node \<times> sync_node) option" where
  "pull_round cid_of cast cid_str order t la oa lb ob ida idb a b =
     (case advertise la oa None (snStore a) (snEngine a) of
        (_, adverts, ea) \<Rightarrow>
          (case node_receives cid_of cast cid_str order t ida adverts b of
             None \<Rightarrow> None
           | Some (_, b1) \<Rightarrow>
               (case Sync t lb ob None (snStore b1) ida (snEngine b1) of
                  (_, wants, eb) \<Rightarrow>
                    (case node_receives cid_of cast cid_str order t idb wants (a\<lparr>snEngine := ea\<rparr>) of
                       None \<Rightarrow> None
                     | Some (blocks, a') \<Rightarrow>
                         (case node_receives cid_of cast cid_str order t ida blocks (b1\<lparr>snEngine := eb\<rparr>) of
                            None \<Rightarrow> None
                          | Some (_, b') \<Rightarrow> Some (a', b'))))))"

lemma have_arrives:
  assumes "length cs < 256" "\<forall>c\<in>set cs. castable cast c" "exHandler (snExchange n)"
  shows "\<exists>e. node_receives cid_of cast cid_str order now peer
        [SendHave (map (\<lambda>c. \<lparr>weCID = c, weType = WantHave, wePriority = 1\<rparr>) cs)] n
      = Some ([], n\<lparr>snExchange := e, snEngine := RecordPeerHave now peer cs (snEngine n)\<rparr>) \<and> exHandler e"
proof -
  let ?es = "map (\<lambda>c. \<lparr>weCID = c, weType = WantHave, wePriority = 1\<rparr>) cs"
  have d: "decodeWantEntries cast (encodeWantEntries ?es) = Inr ?es"
    using assms(1,2) by (intro files_want_roundtrip) (auto simp: castable_def)
  have "length (encodeWantEntries ?es) \<le> maxExchangePayload" using assms(1) by (intro short_list_payload) simp
  moreover have "filter (\<lambda>w. weType w = WantHave) ?es = ?es" "map weCID ?es = cs" by (simp_all add: comp_def)
  ultimately show ?thesis
    using assms(3) by (simp add: node_receive_def SendHave_def handleStream_message exchange_types handleHave_def d
        handle_call_def HandleBlock_def Let_def) (intro exI conjI, rule refl, simp)
qed

lemma want_arrives:
  assumes "length cs < 256" "\<forall>c\<in>set cs. castable cast c"
  shows "\<exists>e. node_receives cid_of cast cid_str order now peer
        [SendWant (map (\<lambda>c. \<lparr>weCID = c, weType = WantWant, wePriority = 1\<rparr>) cs)] n
      = Some (map SendBlock (order (List.map_filter (\<lambda>c. map_option (\<lambda>b. \<lparr>bkCID = c, bkData = bkData b\<rparr>) (msBlocks (snStore n) c)) cs)),
          n\<lparr>snExchange := e\<rparr>)"
proof -
  let ?es = "map (\<lambda>c. \<lparr>weCID = c, weType = WantWant, wePriority = 1\<rparr>) cs"
  have d: "decodeWantEntries cast (encodeWantEntries ?es) = Inr ?es"
    using assms by (intro files_want_roundtrip) (auto simp: castable_def)
  have "length (encodeWantEntries ?es) \<le> maxExchangePayload" using assms(1) by (intro short_list_payload) simp
  moreover have "filter (\<lambda>w. weType w = WantWant) ?es = ?es" by simp
  moreover have "wanted_blocks s ?es = List.map_filter (\<lambda>c. map_option (\<lambda>b. \<lparr>bkCID = c, bkData = bkData b\<rparr>) (msBlocks s c)) cs" for s
    unfolding wanted_blocks_def by (induction cs) (auto simp: Store_Get_def split: option.split)
  ultimately show ?thesis
    by (simp add: node_receive_def SendWant_def handleStream_message exchange_types handleWant_def d Let_def) (rule exI, rule refl)
qed

lemma Sync_asks:
  assumes "syExchange s" "syPeers s peer = Some p"
    and want_def: "want = filter (\<lambda>c. c \<notin> syHave s \<union> set (Store_List listing store) \<and> syInFlight s c = None) (ysHave p)"
  shows "\<exists>s'. Sync now listing order None store peer s =
      (None, if want = [] then [] else [SendWant (map (\<lambda>c. \<lparr>weCID = c, weType = WantWant, wePriority = 1\<rparr>) want)], s')
    \<and> (\<forall>c. syInFlight s' c = (if c \<in> set want then Some now else syInFlight s c))"
proof -
  let ?s = "(count_total s)\<lparr>syHave := syHave s \<union> set (Store_List listing store)\<rparr>"
  have w: "buildWantList listing order store peer (snd (buildHaveList listing order store (count_total s))) = (want, ?s)"
    using assms(2) by (simp add: buildWantList_def buildHaveList_def Let_def want_def count_total_def Un_assoc)
  have "syExchange (count_total s)" using assms(1) by (simp add: count_total_def)
  then have "Sync now listing order None store peer s =
      (None, if want = [] then [] else [SendWant (map (\<lambda>c. \<lparr>weCID = c, weType = WantWant, wePriority = 1\<rparr>) want)],
       if want = [] then ?s else mark_wanted now peer want ?s)"
    by (simp add: Sync_def Let_def w)
  then show ?thesis by (simp add: mark_wanted_def add_active_def count_total_def Let_def)
qed

lemma map_filter_image: "\<forall>c\<in>set cs. f c = Some (g c) \<Longrightarrow> List.map_filter f cs = map g cs"
  by (induction cs) simp_all

lemma serve_wants:
  assumes "store_ok cid_of (snStore a)" "set want \<subseteq> dom (msBlocks (snStore a))" "length want < 256"
    and "\<forall>c\<in>set want. castable cast c" "\<And>bs. set (order bs) = set bs"
  obtains bs a' where "node_receives cid_of cast cid_str order t peer
      (if want = [] then [] else [SendWant (map (\<lambda>c. \<lparr>weCID = c, weType = WantWant, wePriority = 1\<rparr>) want)]) a
      = Some (map SendBlock bs, a')" "snStore a' = snStore a"
    "\<forall>x\<in>set bs. msBlocks (snStore a) (bkCID x) = Some x" "bkCID ` set bs = set want"
proof -
  let ?A = "msBlocks (snStore a)"
  let ?bs = "order (map (\<lambda>c. the (?A c)) want)"
  have own: "\<lparr>bkCID = c, bkData = bkData blk\<rparr> = blk" if "?A c = Some blk" for c blk
    using assms(1) that by (intro block.equality) (simp_all add: store_ok_def)
  have "List.map_filter (\<lambda>c. map_option (\<lambda>b. \<lparr>bkCID = c, bkData = bkData b\<rparr>) (?A c)) want = map (\<lambda>c. the (?A c)) want"
    using assms(2) own by (intro map_filter_image) auto
  then obtain e where "node_receives cid_of cast cid_str order t peer
      [SendWant (map (\<lambda>c. \<lparr>weCID = c, weType = WantWant, wePriority = 1\<rparr>) want)] a = Some (map SendBlock ?bs, a\<lparr>snExchange := e\<rparr>)"
    using want_arrives [OF assms(3,4), of cid_of cid_str order t peer a] by auto
  then obtain a' where "node_receives cid_of cast cid_str order t peer
      (if want = [] then [] else [SendWant (map (\<lambda>c. \<lparr>weCID = c, weType = WantWant, wePriority = 1\<rparr>) want)]) a
      = Some (map SendBlock ?bs, a')" "snStore a' = snStore a"
    using assms(5) [of "[]"] by (cases "want = []") auto
  moreover have bs: "set ?bs = (\<lambda>c. the (?A c)) ` set want" using assms(5) by simp
  have the_own: "bkCID (the (?A c)) = c \<and> ?A c = Some (the (?A c))" if c: "c \<in> set want" for c
  proof -
    obtain x where "?A c = Some x" using c assms(2) by blast
    moreover from this have "bkCID x = c" using assms(1) unfolding store_ok_def by blast
    ultimately show ?thesis by simp
  qed
  have "\<forall>x\<in>set ?bs. ?A (bkCID x) = Some x" unfolding bs using the_own by auto
  moreover have "bkCID ` set ?bs = set want" unfolding bs image_image using the_own by (simp cong: image_cong_simp)
  ultimately show thesis by (rule that)
qed

text \<open>The first half of a round: what the pulling node asks for after an advertisement.\<close>

lemma pull_request:
  assumes "syExchange (snEngine a)" "syExchange (snEngine b)" "exHandler (snExchange b)"
    and "set la = dom (msBlocks (snStore a))" "set oa = dom (msBlocks (snStore a))" "length oa < 256"
    and "set lb = dom (msBlocks (snStore b))" "syHave (snEngine b) \<subseteq> dom (msBlocks (snStore b))"
    and "\<And>c. c \<in> dom (msBlocks (snStore a)) \<Longrightarrow> castable cast c \<and> syInFlight (snEngine b) c = None"
  obtains ea adverts e s eb where "advertise la oa None (snStore a) (snEngine a) = (None, adverts, ea)"
    "node_receives cid_of cast cid_str order t ida adverts b = Some ([], b\<lparr>snExchange := e, snEngine := s\<rparr>)" "exHandler e"
    "Sync t lb ob None (snStore b) ida s = (None, let want = filter (\<lambda>c. c \<notin> dom (msBlocks (snStore b))) oa in
        if want = [] then [] else [SendWant (map (\<lambda>c. \<lparr>weCID = c, weType = WantWant, wePriority = 1\<rparr>) want)], eb)"
    "\<forall>c. syInFlight eb c = (if c \<in> set oa - dom (msBlocks (snStore b)) then Some t else syInFlight (snEngine b) c)"
proof -
  let ?A = "msBlocks (snStore a)" and ?B = "msBlocks (snStore b)"
  have la: "Store_List la (snStore a) = la" using assms(4) by (auto simp: Store_List_def filter_id_conv)
  have lb: "set (Store_List lb (snStore b)) = dom ?B" using assms(7) by (auto simp: Store_List_def)
  have oa: "filter (\<lambda>c. c \<in> syHave (snEngine a) \<union> set la) oa = oa" using assms(4,5) by (auto simp: filter_id_conv)
  obtain ea where adv: "advertise la oa None (snStore a) (snEngine a) =
      (None, [SendHave (map (\<lambda>c. \<lparr>weCID = c, weType = WantHave, wePriority = 1\<rparr>) oa)], ea)"
    using assms(1) oa by (simp add: advertise_def buildHaveList_def la)
  obtain e where b1: "node_receives cid_of cast cid_str order t ida [SendHave (map (\<lambda>c. \<lparr>weCID = c, weType = WantHave, wePriority = 1\<rparr>) oa)] b
      = Some ([], b\<lparr>snExchange := e, snEngine := RecordPeerHave t ida oa (snEngine b)\<rparr>)" "exHandler e"
    using have_arrives [of oa cast b] assms(3,5,6,9) by blast
  let ?s = "RecordPeerHave t ida oa (snEngine b)"
  obtain p where s: "syExchange ?s" "syPeers ?s ida = Some p" "ysHave p = oa" "syInFlight ?s = syInFlight (snEngine b)"
    "syHave ?s = syHave (snEngine b)"
    using assms(2) by (simp add: RecordPeerHave_def)
  let ?want = "filter (\<lambda>c. c \<notin> dom ?B) oa"
  have w: "?want = filter (\<lambda>c. c \<notin> syHave ?s \<union> set (Store_List lb (snStore b)) \<and> syInFlight ?s c = None) (ysHave p)"
    unfolding s(3-5) lb using assms(5,8,9) by (intro filter_cong) auto
  obtain eb where "Sync t lb ob None (snStore b) ida ?s =
      (None, if ?want = [] then [] else [SendWant (map (\<lambda>c. \<lparr>weCID = c, weType = WantWant, wePriority = 1\<rparr>) ?want)], eb)"
    and "\<forall>c. syInFlight eb c = (if c \<in> set ?want then Some t else syInFlight (snEngine b) c)"
    using Sync_asks [OF s(1,2) w, of t ob] unfolding s(4) by blast
  with that [OF adv b1] show thesis by (simp add: Let_def)
qed

text \<open>A store that keeps its blocks and gains exactly the missing ones of another is the union of both.\<close>

lemma pulled_blocks:
  assumes "store_ok cid_of st" "\<forall>x\<in>set bs. A (bkCID x) = Some x" "dom (msBlocks st) = dom B \<union> set (map bkCID bs)"
    and "\<forall>c x. B c = Some x \<longrightarrow> msBlocks st c = Some x" "\<forall>c x. B c = None \<longrightarrow> msBlocks st c = Some x \<longrightarrow> x \<in> set bs"
    and "bkCID ` set bs = dom A - dom B"
  shows "msBlocks st = A ++ B"
proof
  fix c
  show "msBlocks st c = (A ++ B) c"
  proof (cases "B c")
    case None
    show ?thesis
    proof (cases "msBlocks st c")
      case (Some x)
      then have "bkCID x = c" using assms(1) unfolding store_ok_def by blast
      moreover have "x \<in> set bs" using Some None assms(5) by blast
      ultimately have "A c = Some x" using assms(2) by blast
      with Some None show ?thesis by (simp add: map_add_def)
    next
      case gone: None
      then have "c \<notin> dom A - dom B" using assms(3,6) by (metis UnCI domIff list.set_map)
      with None gone show ?thesis by (auto simp: map_add_def domIff)
    qed
  qed (use assms(4) in \<open>auto simp: map_add_def\<close>)
qed


section \<open>Requests that are never answered\<close>

datatype sync_event = EvMessage gotime peer_id exchange_message | EvSync gotime "cid list" "cid list" "string option" peer_id
  | EvAdvertise "cid list" "cid list" "string option"

definition sync_step :: "(bytes \<Rightarrow> cid) \<Rightarrow> (cid \<Rightarrow> string) \<Rightarrow> memory_store \<times> sync_engine \<Rightarrow> sync_event \<Rightarrow> memory_store \<times> sync_engine" where
  "sync_step cid_of cid_str n ev =
     (case ev of
        EvMessage now peer msg \<Rightarrow> snd (HandleBlock cid_of cid_str True now peer msg (fst n) (snd n))
      | EvSync now listing order err peer \<Rightarrow> (fst n, snd (snd (Sync now listing order err (fst n) peer (snd n))))
      | EvAdvertise listing order err \<Rightarrow> (fst n, snd (snd (advertise listing order err (fst n) (snd n)))))"

definition brings :: "cid \<Rightarrow> sync_event \<Rightarrow> bool" where
  "brings c ev \<longleftrightarrow> (case ev of EvMessage _ _ msg \<Rightarrow> emType msg = MsgBlock \<and> emCID msg = c | _ \<Rightarrow> False)"

lemma sync_step_in_flight:
  assumes "syInFlight (snd n) c \<noteq> None" "\<not> brings c ev"
  shows "syInFlight (snd (sync_step cid_of cid_str n ev)) c \<noteq> None"
proof (cases ev)
  case (EvMessage now peer msg)
  with assms show ?thesis
    by (auto simp: sync_step_def HandleBlock_def ReceivedBlock_def RecordPeerHave_def brings_def Let_def exchange_types
        split: option.split prod.split)
next
  case (EvSync now listing order err peer)
  obtain want s where w: "buildWantList listing order (fst n) peer (snd (buildHaveList listing order (fst n) (count_total (snd n)))) = (want, s)"
    by (metis prod.exhaust)
  then have "c \<notin> set want" "syInFlight s c = syInFlight (snd n) c"
    using assms(1) by (auto simp: buildWantList_def buildHaveList_def count_total_def Let_def split: option.splits)
  with assms(1) EvSync w show ?thesis
    by (auto simp: sync_step_def Sync_def Let_def mark_wanted_def unmark_wanted_def add_active_def count_failed_def count_total_def
        split: option.split)
next
  case (EvAdvertise listing order err)
  with assms show ?thesis by (auto simp: sync_step_def advertise_def buildHaveList_def Let_def split: option.split)
qed

interpretation awaited: absorbing_operations
  "\<lambda>n ev. if brings c ev then n else sync_step cid_of cid_str n ev" "\<lambda>_. True" "\<lambda>n. syInFlight (snd n) c \<noteq> None" for c cid_of cid_str
  by unfold_locales (use sync_step_in_flight in auto)

text \<open>
  A request that is not answered is never repeated. Once a block has been asked for, and until it
  arrives, no sequence of synchronisations, advertisements and other messages, with this peer or any
  other that offers the block, makes the engine ask for it again: the time at which it was put in flight
  is recorded and never looked at.
\<close>

theorem files_sync_lost_reply:
  assumes "syInFlight s c \<noteq> None" "list_all (\<lambda>ev. \<not> brings c ev) evs"
  shows "c \<notin> set (fst (buildWantList listing order (fst (foldl (sync_step cid_of cid_str) (store, s) evs)) peer
      (snd (foldl (sync_step cid_of cid_str) (store, s) evs))))"
proof -
  let ?step = "\<lambda>n ev. if brings c ev then n else sync_step cid_of cid_str n ev"
  have "foldl ?step n evs = foldl (sync_step cid_of cid_str) n evs" for n
    using assms(2) by (induction evs arbitrary: n) auto
  then have "syInFlight (snd (foldl (sync_step cid_of cid_str) (store, s) evs)) c \<noteq> None"
    using awaited.run_stable [of "(store, s)" c cid_of cid_str evs] assms(1) by simp
  then show ?thesis by (auto simp: buildWantList_def buildHaveList_def Let_def split: option.split)
qed

text \<open>
  Two nodes for the witnesses: one with a block, or with the memory of a block it has deleted, and one that
  has nothing.
\<close>

definition demo_engine :: "cid set \<Rightarrow> sync_engine" where
  "demo_engine cs = (SetExchange True (NewSyncEngine [] 0))\<lparr>syHave := cs\<rparr>"

definition demo_sync_node :: "block list \<Rightarrow> cid set \<Rightarrow> sync_node" where
  "demo_sync_node bs cs = \<lparr>snStore = foldl (\<lambda>s b. snd (Store_Put id (\<lambda>_. []) True 0 b s)) NewMemoryStore bs,
     snEngine = demo_engine cs, snExchange = SetHandler True (NewExchangeProtocol [])\<rparr>"


text \<open>
  The serving node advertises a block it no longer has, because what it remembers to have never shrinks;
  after one round the block is in flight for good.
\<close>

theorem files_sync_lost_reply_witness:
  "let b = snd (the (pull_round id Some (\<lambda>_. []) rev 5 [] [[7]] [] [] [1] [2] (demo_sync_node [] {[7]}) (demo_sync_node [] {})));
       n = foldl (sync_step id (\<lambda>_. [])) (snStore b, snEngine b)
             [EvMessage 9 [3] \<lparr>emType = MsgHave, emCID = [], emCIDs = [[7]], emData = []\<rparr>, EvSync 10 [] [] None [3]]
   in [7] \<notin> set (fst (buildWantList [] [] (fst n) [3] (snd n)))"
proof -
  let ?b = "snd (the (pull_round id Some (\<lambda>_. []) rev 5 [] [[7]] [] [] [1] [2] (demo_sync_node [] {[7]}) (demo_sync_node [] {})))"
  have "syInFlight (snEngine ?b) [7] \<noteq> None" by code_simp
  then show ?thesis unfolding Let_def by (rule files_sync_lost_reply) (simp add: brings_def exchange_types)
qed

end
