(* ===== verification/Vpn_Tunnel.thy ===== *)
theory Vpn_Tunnel
  imports LW_Prelude
begin

text \<open>
  The VPN service (\<open>pkg/services/vpn/vpn.go\<close> and \<open>carrier.go\<close>): the server's tunnels and routes, the
  framing of packets on a service stream, and the two forwarding loops. A stream yields a list of read
  results; a read that has no result yet blocks. A device yields a list of read results too. The cancel
  function of a forwarding context is the number of the context, and \<open>vsLive\<close> holds the contexts that are
  not cancelled. SHA3-256 is a parameter. The TUN drivers are system calls and are left out.
\<close>

section \<open>Carrier\<close>

definition DefaultMTU :: nat where "DefaultMTU = 1500"
definition maxPacketSize :: nat where "maxPacketSize = DefaultMTU + 64"

datatype carrier_error = EmptyPacket | PacketTooLong nat | CarrierClosed | WriteFailed string | ReadFailed string
  | ZeroLength | ClaimsTooLong nat | Cancelled string

text \<open>
  What one \<open>stream.Read\<close> finds: bytes (none at all for a read that returns zero and no error), the end of the
  stream, or another error. A read takes at most what it has room for and leaves the rest.
\<close>

datatype stream_item = Chunk bytes | AtEOF | Broken string

record carrier =
  crStream :: "stream_item list"
  crClosed :: bool

definition NewStreamCarrier :: "stream_item list \<Rightarrow> carrier" where
  "NewStreamCarrier stream = \<lparr>crStream = stream, crClosed = False\<rparr>"

text \<open>\<open>Send\<close>: the bytes written to the stream, or the error; \<open>err\<close> is the outcome of the write.\<close>

definition Carrier_Send :: "string option \<Rightarrow> bytes \<Rightarrow> carrier \<Rightarrow> carrier_error + bytes" where
  "Carrier_Send err packet c =
     (if packet = [] then Inl EmptyPacket
      else if length packet > maxPacketSize then Inl (PacketTooLong (length packet))
      else if crClosed c then Inl CarrierClosed
      else case err of
             Some e \<Rightarrow> Inl (WriteFailed e)
           | None \<Rightarrow> Inr (put_u16 (word_of_nat (length packet)) @ packet))"

text \<open>
  \<open>readFull\<close>, with the answer of \<open>ctx.Err\<close> after an empty read as an argument. The result is \<open>None\<close> while the
  call has not returned.
\<close>

fun vpn_readFull :: "string option \<Rightarrow> nat \<Rightarrow> stream_item list \<Rightarrow> (carrier_error + bytes) option \<times> stream_item list" where
  "vpn_readFull ctx 0 items = (Some (Inr []), items)"
| "vpn_readFull ctx (Suc k) [] = (None, [])"
| "vpn_readFull ctx (Suc k) (AtEOF # items) = (Some (Inl CarrierClosed), items)"
| "vpn_readFull ctx (Suc k) (Broken e # items) = (Some (Inl (ReadFailed e)), items)"
| "vpn_readFull ctx (Suc k) (Chunk bs # items) =
     (if bs = []
      then (case ctx of Some e \<Rightarrow> (Some (Inl (Cancelled e)), items) | None \<Rightarrow> vpn_readFull ctx (Suc k) items)
      else if length bs > Suc k then (Some (Inr (take (Suc k) bs)), Chunk (drop (Suc k) bs) # items)
      else (case vpn_readFull ctx (Suc k - length bs) items of
              (Some (Inr got), items') \<Rightarrow> (Some (Inr (bs @ got)), items')
            | r \<Rightarrow> r))"

definition Carrier_Recv :: "string option \<Rightarrow> carrier \<Rightarrow> (carrier_error + bytes) option \<times> carrier" where
  "Carrier_Recv ctx c =
     (if crClosed c then (Some (Inl CarrierClosed), c)
      else case vpn_readFull ctx 2 (crStream c) of
             (Some (Inr header), items) \<Rightarrow>
               let n = unat (get_u16 header)
               in if n = 0 then (Some (Inl ZeroLength), c\<lparr>crStream := items\<rparr>)
                  else if n > maxPacketSize then (Some (Inl (ClaimsTooLong n)), c\<lparr>crStream := items\<rparr>)
                  else (case vpn_readFull ctx n items of (r, items') \<Rightarrow> (r, c\<lparr>crStream := items'\<rparr>))
           | (r, items) \<Rightarrow> (r, c\<lparr>crStream := items\<rparr>))"

definition Carrier_Close :: "carrier \<Rightarrow> carrier" where
  "Carrier_Close c = (if crClosed c then c else c\<lparr>crClosed := True\<rparr>)"

definition Carrier_Closed :: "carrier \<Rightarrow> bool" where
  "Carrier_Closed c = crClosed c"

section \<open>Forwarding\<close>

text \<open>
  The loop from the device to the peer. Each element of the list is one round: the answer of \<open>ctx.Err\<close>, what
  the device returns (\<open>None\<close> when it is closed) and the outcome of the write. The result is the bytes written,
  the number of packets and whether the loop still runs.
\<close>

fun forwardOutbound :: "(string option \<times> bytes option \<times> string option) list \<Rightarrow> carrier \<Rightarrow> bytes \<times> nat \<times> bool" where
  "forwardOutbound [] c = ([], 0, True)"
| "forwardOutbound ((Some e, _) # rounds) c = ([], 0, False)"
| "forwardOutbound ((None, None, _) # rounds) c = ([], 0, False)"
| "forwardOutbound ((None, Some packet, err) # rounds) c =
     (if packet = [] \<or> length packet > DefaultMTU then forwardOutbound rounds c
      else case Carrier_Send err packet c of
             Inl _ \<Rightarrow> ([], 0, False)
           | Inr frame \<Rightarrow> (case forwardOutbound rounds c of (out, n, r) \<Rightarrow> (frame @ out, Suc n, r)))"

definition stream_size :: "stream_item list \<Rightarrow> nat" where
  "stream_size items = sum_list (map (\<lambda>i. case i of Chunk bs \<Rightarrow> Suc (length bs) | _ \<Rightarrow> 1) items)"

lemma stream_size_simps [simp]:
  "stream_size [] = 0" "stream_size (Chunk bs # items) = Suc (length bs) + stream_size items"
  "stream_size (AtEOF # items) = Suc (stream_size items)" "stream_size (Broken e # items) = Suc (stream_size items)"
  by (simp_all add: stream_size_def)

lemma join_result:
  "(case x of (Some (Inr got), items') \<Rightarrow> (Some (Inr (bs @ got)), items') | r \<Rightarrow> r) = (Some (Inr g), i)
     \<Longrightarrow> \<exists>g'. x = (Some (Inr g' :: 'e + 'b list), i :: 'c) \<and> g = bs @ g'"
proof (cases x)
  case (Pair r j)
  assume a: "(case x of (Some (Inr got), items') \<Rightarrow> (Some (Inr (bs @ got)), items') | r \<Rightarrow> r) = (Some (Inr g), i)"
  show ?thesis
  proof (cases r)
    case (Some s)
    with a Pair show ?thesis by (cases s) simp_all
  qed (use a Pair in simp)
qed

lemma readFull_consumes:
  "vpn_readFull ctx k items = (Some (Inr got), items') \<Longrightarrow> length got = k \<and> stream_size items' + k \<le> stream_size items"
proof (induction ctx k items arbitrary: got items' rule: vpn_readFull.induct)
  case (5 ctx k bs items)
  consider "bs = []" | "bs \<noteq> []" "length bs > Suc k" | "bs \<noteq> []" "length bs \<le> Suc k" by linarith
  then show ?case
  proof cases
    case 1
    with 5(3) have "ctx = None" "vpn_readFull ctx (Suc k) items = (Some (Inr got), items')" by (simp_all split: option.splits)
    with 5(1) [OF 1] 1 show ?thesis by simp
  next
    case 2
    with 5(3) show ?thesis by auto
  next
    case 3
    from 5(3) 3 have "(case vpn_readFull ctx (Suc k - length bs) items of
        (Some (Inr got), items') \<Rightarrow> (Some (Inr (bs @ got)), items') | r \<Rightarrow> r) = (Some (Inr got), items')" by simp
    from join_result [OF this] obtain got' where
      "vpn_readFull ctx (Suc k - length bs) items = (Some (Inr got'), items')" "got = bs @ got'" by blast
    moreover from this(1) have "length got' = Suc k - length bs \<and> stream_size items' + (Suc k - length bs) \<le> stream_size items"
      by (rule 5(2) [rotated 2]) (use 3 in simp_all)
    ultimately show ?thesis using 3 by (simp, linarith)
  qed
qed simp_all

lemma Recv_consumes: "Carrier_Recv ctx c = (Some (Inr packet), c') \<Longrightarrow> stream_size (crStream c') < stream_size (crStream c)"
  by (auto simp: Carrier_Recv_def Let_def dest!: readFull_consumes split: if_splits prod.splits option.splits sum.splits)

text \<open>
  The loop from the peer to the device: the packets written and whether the loop still runs (it waits for the
  stream). \<open>wr\<close> gives the outcome of the device's writes; an incoming context is not cancelled here.
\<close>

function forwardInbound :: "(nat \<Rightarrow> string option) \<Rightarrow> nat \<Rightarrow> carrier \<Rightarrow> bytes list \<times> carrier \<times> bool" where
  "forwardInbound wr k c =
     (case Carrier_Recv None c of
        (None, c') \<Rightarrow> ([], c', True)
      | (Some (Inl _), c') \<Rightarrow> ([], c', False)
      | (Some (Inr packet), c') \<Rightarrow>
          if packet = [] then forwardInbound wr k c'
          else (case wr k of
                  Some _ \<Rightarrow> ([], c', False)
                | None \<Rightarrow> (case forwardInbound wr (Suc k) c' of (out, c'', r) \<Rightarrow> (packet # out, c'', r))))"
  by pat_completeness auto

termination
proof (relation "measure (\<lambda>(_, _, c). stream_size (crStream c))", goal_cases)
  case (2 wr k c r c' r' packet)
  then show ?case using Recv_consumes [of None c packet c'] by simp
next
  case (3 wr k c r c' r' packet)
  then show ?case using Recv_consumes [of None c packet c'] by simp
qed simp

declare forwardInbound.simps [simp del]

section \<open>Server\<close>

record tunnel =
  tnID :: bytes
  tnSrc :: bytes
  tnDst :: bytes
  tnAddr :: string
  tnState :: string
  tnCreated :: int64

record route =
  rtDest :: bytes
  rtVia :: bytes
  rtMetric :: int

record vpn_server =
  vsTunnels :: "bytes \<rightharpoonup> tunnel"
  vsRoutes :: "bytes \<rightharpoonup> route"
  vsIface :: "string option"
  vsLocalID :: bytes
  vsRunning :: "bytes \<rightharpoonup> nat"
  vsForwarded :: u64
  vsDelivered :: u64
  vsDeviceErr :: "string option"
  vsLive :: "nat set"
  vsNextLoop :: nat

definition NewServerWithInterface :: "bytes \<Rightarrow> string option \<Rightarrow> vpn_server" where
  "NewServerWithInterface localID iface =
     \<lparr>vsTunnels = Map.empty, vsRoutes = Map.empty, vsIface = iface, vsLocalID = localID, vsRunning = Map.empty,
      vsForwarded = 0, vsDelivered = 0, vsDeviceErr = None, vsLive = {}, vsNextLoop = 0\<rparr>"

text \<open>\<open>NewServer\<close>: the device \<open>openTUN\<close> returned, or its error. Failing to bring it up is only logged.\<close>

definition NewVpnServer :: "string + string \<Rightarrow> bytes \<Rightarrow> vpn_server" where
  "NewVpnServer opened localID =
     (case opened of
        Inl e \<Rightarrow> (NewServerWithInterface localID None)\<lparr>vsDeviceErr := Some e\<rparr>
      | Inr name \<Rightarrow> NewServerWithInterface localID (Some name))"

text \<open>\<open>deadline\<close> is the context's deadline as \<open>UnixNano\<close>.\<close>

definition CreateTunnel :: "(bytes \<Rightarrow> bytes) \<Rightarrow> int64 option \<Rightarrow> bytes \<Rightarrow> string \<Rightarrow> vpn_server \<Rightarrow> bytes \<times> vpn_server" where
  "CreateTunnel sha3 deadline peer addr s =
     (let tid = sha3 (vsLocalID s @ peer)
      in (tid, s\<lparr>vsTunnels := (vsTunnels s)(tid \<mapsto> \<lparr>tnID = tid, tnSrc = vsLocalID s, tnDst = peer, tnAddr = addr,
            tnState = ''open'', tnCreated = (case deadline of Some d \<Rightarrow> d | None \<Rightarrow> 0)\<rparr>)\<rparr>))"

datatype attach_error = NoDevice | NoCarrier

definition Attach ::
  "(bytes \<Rightarrow> bytes) \<Rightarrow> int64 option \<Rightarrow> bytes \<Rightarrow> carrier option \<Rightarrow> vpn_server \<Rightarrow> (attach_error + bytes) \<times> vpn_server" where
  "Attach sha3 deadline peer carrier s =
     (if vsIface s = None then (Inl NoDevice, s)
      else if carrier = None then (Inl NoCarrier, s)
      else let (tid, s') = CreateTunnel sha3 deadline peer [] s; k = vsNextLoop s'
           in (Inr tid, s'\<lparr>vsRunning := (vsRunning s')(tid \<mapsto> k), vsLive := insert k (vsLive s'), vsNextLoop := Suc k\<rparr>))"

definition CloseTunnel :: "bytes \<Rightarrow> vpn_server \<Rightarrow> vpn_server" where
  "CloseTunnel tid s =
     s\<lparr>vsLive := (case vsRunning s tid of Some k \<Rightarrow> vsLive s - {k} | None \<Rightarrow> vsLive s),
       vsRunning := (vsRunning s)(tid := None), vsTunnels := (vsTunnels s)(tid := None)\<rparr>"

text \<open>\<open>ServiceHandler\<close>: attach the stream a peer opened; on an error the carrier is closed at once.\<close>

definition ServiceHandler :: "(bytes \<Rightarrow> bytes) \<Rightarrow> int64 option \<Rightarrow> bytes \<Rightarrow> carrier \<Rightarrow> vpn_server \<Rightarrow> carrier \<times> vpn_server" where
  "ServiceHandler sha3 deadline peer c s =
     (case Attach sha3 deadline peer (Some c) s of (Inl _, s') \<Rightarrow> (Carrier_Close c, s') | (Inr _, s') \<Rightarrow> (c, s'))"

definition Vpn_AddRoute :: "bytes \<Rightarrow> bytes \<Rightarrow> int \<Rightarrow> vpn_server \<Rightarrow> vpn_server" where
  "Vpn_AddRoute dest via metric s = s\<lparr>vsRoutes := (vsRoutes s)(dest \<mapsto> \<lparr>rtDest = dest, rtVia = via, rtMetric = metric\<rparr>)\<rparr>"

definition Vpn_Routes :: "bytes list \<Rightarrow> vpn_server \<Rightarrow> route list" where
  "Vpn_Routes order s = List.map_filter (vsRoutes s) order"

definition Tunnels :: "bytes list \<Rightarrow> vpn_server \<Rightarrow> tunnel list" where
  "Tunnels order s = List.map_filter (vsTunnels s) order"

definition Vpn_Stats :: "vpn_server \<Rightarrow> u64 \<times> u64" where
  "Vpn_Stats s = (vsForwarded s, vsDelivered s)"

definition HasDevice :: "vpn_server \<Rightarrow> bool" where
  "HasDevice s \<longleftrightarrow> vsIface s \<noteq> None"

definition DeviceError :: "vpn_server \<Rightarrow> string option" where
  "DeviceError s =
     (if vsIface s \<noteq> None then None
      else case vsDeviceErr s of Some e \<Rightarrow> Some e | None \<Rightarrow> Some ''no TUN interface'')"

definition DeviceName :: "vpn_server \<Rightarrow> string" where
  "DeviceName s = (case vsIface s of None \<Rightarrow> [] | Some name \<Rightarrow> name)"

definition MarshalTunnel :: "tunnel \<Rightarrow> bytes" where
  "MarshalTunnel t = tnSrc t @ tnDst t @ tnID t @ put_u64 (tnCreated t) @ replicate 8 0"

definition UnmarshalTunnel :: "bytes \<Rightarrow> tunnel option" where
  "UnmarshalTunnel data =
     (if length data < 104 then None
      else Some \<lparr>tnID = take 32 (drop 64 data), tnSrc = take 32 data, tnDst = take 32 (drop 32 data), tnAddr = [], tnState = [],
                 tnCreated = get_u64 (take 8 (drop 96 data))\<rparr>)"

section \<open>Packets cross the tunnel\<close>

text \<open>Some way of cutting a byte sequence into reads.\<close>

definition chunks :: "stream_item list \<Rightarrow> bytes option" where
  "chunks items = (if list_all (\<lambda>i. case i of Chunk _ \<Rightarrow> True | _ \<Rightarrow> False) items
     then Some (concat (map (\<lambda>i. case i of Chunk bs \<Rightarrow> bs | _ \<Rightarrow> []) items)) else None)"

lemma chunks_simps [simp]:
  "chunks [] = Some []" "chunks (Chunk bs # items) = map_option (append bs) (chunks items)"
  "chunks (AtEOF # items) = None" "chunks (Broken e # items) = None"
  by (simp_all add: chunks_def)

text \<open>However the bytes are cut, a read of \<open>k\<close> bytes takes the first \<open>k\<close>, or waits when there are fewer.\<close>

lemma readFull_chunks:
  assumes "chunks items = Some bs"
  shows "\<exists>items'. vpn_readFull None k items = ((if k \<le> length bs then Some (Inr (take k bs)) else None), items')
    \<and> (k \<le> length bs \<longrightarrow> chunks items' = Some (drop k bs))"
  using assms
proof (induction "None :: string option" k items arbitrary: bs rule: vpn_readFull.induct)
  case (5 k b items)
  obtain rest where rest: "chunks items = Some rest" "bs = b @ rest" using 5(3) by auto
  consider "b = []" | "b \<noteq> []" "length b > Suc k" | "b \<noteq> []" "length b \<le> Suc k" by linarith
  then show ?case
  proof cases
    case 1
    from 5(1) [OF 1 refl rest(1)] obtain items' where
      "vpn_readFull None (Suc k) items = ((if Suc k \<le> length rest then Some (Inr (take (Suc k) rest)) else None), items')"
      "Suc k \<le> length rest \<longrightarrow> chunks items' = Some (drop (Suc k) rest)" by blast
    with 1 rest(2) show ?thesis by simp
  next
    case 2
    with rest show ?thesis by simp
  next
    case 3
    from 5(2) [OF _ _ rest(1)] 3 obtain items' where
      "vpn_readFull None (Suc k - length b) items =
         ((if Suc k - length b \<le> length rest then Some (Inr (take (Suc k - length b) rest)) else None), items')"
      "Suc k - length b \<le> length rest \<longrightarrow> chunks items' = Some (drop (Suc k - length b) rest)" by auto
    with 3 rest(2) show ?thesis by (simp add: le_diff_conv add.commute)
  qed
qed simp_all

definition packet_ok :: "bytes \<Rightarrow> bool" where
  "packet_ok p \<longleftrightarrow> p \<noteq> [] \<and> length p \<le> DefaultMTU"

definition vpn_frame :: "bytes \<Rightarrow> bytes" where
  "vpn_frame p = put_u16 (word_of_nat (length p)) @ p"

lemma Recv_packet:
  assumes "chunks (crStream c) = Some (vpn_frame p @ rest)" "packet_ok p" "\<not> crClosed c"
  shows "\<exists>c'. Carrier_Recv None c = (Some (Inr p), c') \<and> chunks (crStream c') = Some rest \<and> \<not> crClosed c'"
proof -
  have n: "unat (word_of_nat (length p) :: u16) = length p" "length p \<le> maxPacketSize" "length p \<noteq> 0"
    using assms(2) by (simp_all add: packet_ok_def DefaultMTU_def maxPacketSize_def unat_cast)
  obtain items where h: "vpn_readFull None 2 (crStream c) = (Some (Inr (put_u16 (word_of_nat (length p)))), items)"
    "chunks items = Some (p @ rest)"
    using readFull_chunks [OF assms(1), of 2] by (auto simp: vpn_frame_def)
  obtain items' where "vpn_readFull None (length p) items = (Some (Inr p), items')" "chunks items' = Some rest"
    using readFull_chunks [OF h(2), of "length p"] by auto
  with h n assms(3) show ?thesis by (simp add: Carrier_Recv_def Let_def)
qed

lemma Recv_waits:
  assumes "chunks (crStream c) = Some []" "\<not> crClosed c"
  shows "\<exists>c'. Carrier_Recv None c = (None, c')"
proof -
  obtain items where "vpn_readFull None 2 (crStream c) = (None, items)"
    using readFull_chunks [OF assms(1), of 2] by auto
  with assms(2) show ?thesis by (simp add: Carrier_Recv_def)
qed

lemma forwardInbound_frames:
  assumes "chunks (crStream c) = Some (concat (map vpn_frame ps))" "list_all packet_ok ps" "\<not> crClosed c"
  shows "\<exists>c'. forwardInbound (\<lambda>_. None) k c = (ps, c', True)"
  using assms
proof (induction ps arbitrary: k c)
  case Nil
  then obtain c' where "Carrier_Recv None c = (None, c')" using Recv_waits by auto
  then show ?case by (subst forwardInbound.simps) simp
next
  case (Cons p ps)
  then obtain c1 where c1: "Carrier_Recv None c = (Some (Inr p), c1)"
    "chunks (crStream c1) = Some (concat (map vpn_frame ps))" "\<not> crClosed c1"
    using Recv_packet [of c p "concat (map vpn_frame ps)"] by auto
  then obtain c' where "forwardInbound (\<lambda>_. None) (Suc k) c1 = (ps, c', True)"
    using Cons.IH [of c1 "Suc k"] Cons.prems by auto
  moreover have "p \<noteq> []" using Cons.prems by (simp add: packet_ok_def)
  ultimately show ?case by (subst forwardInbound.simps) (simp add: c1(1))
qed

lemma forwardOutbound_frames:
  "\<not> crClosed c \<Longrightarrow> forwardOutbound (map (\<lambda>p. (None, Some p, None)) ps) c =
     (concat (map vpn_frame (filter packet_ok ps)), length (filter packet_ok ps), True)"
  by (induction ps) (auto simp: packet_ok_def Carrier_Send_def vpn_frame_def DefaultMTU_def maxPacketSize_def)



section \<open>Tunnels and their loops\<close>

text \<open>What a peer announces of a tunnel comes back without its address and state.\<close>

lemma tunnel_roundtrip:
  "length (tnSrc t) = 32 \<Longrightarrow> length (tnDst t) = 32 \<Longrightarrow> length (tnID t) = 32 \<Longrightarrow>
     UnmarshalTunnel (MarshalTunnel t) = Some (t\<lparr>tnAddr := [], tnState := []\<rparr>)"
  by (simp add: UnmarshalTunnel_def MarshalTunnel_def)

datatype vpn_call = CallAttach "int64 option" bytes "carrier option" | CallClose bytes | CallCreate "int64 option" bytes string
  | CallRoute bytes bytes int

definition vpn_step :: "(bytes \<Rightarrow> bytes) \<Rightarrow> vpn_server \<Rightarrow> vpn_call \<Rightarrow> vpn_server" where
  "vpn_step sha3 s call =
     (case call of
        CallAttach d peer c \<Rightarrow> snd (Attach sha3 d peer c s)
      | CallClose tid \<Rightarrow> CloseTunnel tid s
      | CallCreate d peer addr \<Rightarrow> snd (CreateTunnel sha3 d peer addr s)
      | CallRoute dest via metric \<Rightarrow> Vpn_AddRoute dest via metric s)"

text \<open>
  Contexts are numbered and every running tunnel has a live one of its own. In a server without leaks
  there is no other live context.
\<close>

definition vpn_ok :: "vpn_server \<Rightarrow> bool" where
  "vpn_ok s \<longleftrightarrow> ran (vsRunning s) \<subseteq> vsLive s \<and> vsLive s \<subseteq> {..<vsNextLoop s} \<and> inj_on (vsRunning s) (dom (vsRunning s))
     \<and> dom (vsRunning s) \<subseteq> dom (vsTunnels s)"

lemma vpn_ok_Close: "vpn_ok s \<Longrightarrow> vpn_ok (CloseTunnel tid s)"
  by (auto simp: vpn_ok_def CloseTunnel_def ran_def inj_on_def dom_def split: option.splits)

lemma vpn_ok_fresh: "vpn_ok s \<Longrightarrow> vsRunning s tid \<noteq> Some (vsNextLoop s)" "vpn_ok s \<Longrightarrow> vsNextLoop s \<notin> vsLive s"
  by (auto simp: vpn_ok_def ran_def)

lemma vpn_ok_Attach: "vpn_ok s \<Longrightarrow> vpn_ok (snd (Attach sha3 d peer c s))"
  using vpn_ok_fresh(1) [of s]
  by (auto simp: vpn_ok_def Attach_def CreateTunnel_def Let_def ran_def inj_on_def dom_def split: if_splits)

lemma vpn_step_ok: "vpn_ok s \<Longrightarrow> vpn_ok (vpn_step sha3 s call)"
  by (cases call) (auto simp: vpn_step_def vpn_ok_Attach vpn_ok_Close, auto simp: vpn_ok_def CreateTunnel_def Vpn_AddRoute_def Let_def)

lemma vpn_ok_New: "vpn_ok (NewServerWithInterface localID iface)"
  by (simp add: vpn_ok_def NewServerWithInterface_def)

text \<open>A context that is live but belongs to no tunnel any more.\<close>

definition orphan :: "nat \<Rightarrow> vpn_server \<Rightarrow> bool" where
  "orphan k s \<longleftrightarrow> k \<in> vsLive s \<and> k \<notin> ran (vsRunning s)"

lemma orphan_step:
  assumes "vpn_ok s" "orphan k s"
  shows "orphan k (vpn_step sha3 s call)"
proof -
  have "k \<noteq> vsNextLoop s" using assms vpn_ok_fresh(2) by (auto simp: orphan_def)
  with assms(2) show ?thesis
    by (cases call) (auto simp: vpn_step_def orphan_def Attach_def CreateTunnel_def CloseTunnel_def Vpn_AddRoute_def Let_def ran_def
        split: if_splits option.splits)
qed

interpretation tunnels: absorbing_operations "vpn_step sha3" vpn_ok "orphan k" for sha3 k
  by unfold_locales (simp_all add: vpn_step_ok orphan_step)

text \<open>
  Attaching a peer a second time leaks its first forwarding loops. The cancel function of the running
  loops is overwritten, so from then on no sequence of calls, closing the tunnel included, stops them.
\<close>

theorem vpn_reattach_leaks:
  assumes "vpn_ok s" "vsRunning s tid = Some k" "Attach sha3 d peer c s = (Inr tid, s')"
  shows "k \<in> vsLive (foldl (vpn_step sha3) s' calls)"
proof -
  have "vpn_ok s'" using vpn_ok_Attach [OF assms(1), of sha3 d peer c] assms(3) by simp
  moreover have "vsRunning s a \<noteq> Some k" if "a \<noteq> tid" for a
    using assms(1,2) that unfolding vpn_ok_def inj_on_def by (metis domI)
  then have "orphan k s'"
    using assms vpn_ok_fresh(1) [OF assms(1)]
    by (auto simp: orphan_def Attach_def CreateTunnel_def Let_def vpn_ok_def ran_def split: if_splits)
  ultimately show ?thesis using tunnels.run_stable [of s' k sha3 calls] by (simp add: orphan_def)
qed

definition demo_vpn :: vpn_server where
  "demo_vpn = snd (Attach (\<lambda>x. x) None [2] (Some (NewStreamCarrier [])) (NewServerWithInterface [1] (Some ''tun0'')))"

theorem vpn_reattach_leaks_witness:
  "0 \<in> vsLive (foldl (vpn_step (\<lambda>x. x)) (snd (Attach (\<lambda>x. x) None [2] (Some (NewStreamCarrier [])) demo_vpn)) [CallClose [1, 2]])"
proof -
  have "vpn_ok demo_vpn" by (simp add: demo_vpn_def vpn_ok_Attach vpn_ok_New)
  moreover have "vsRunning demo_vpn [1, 2] = Some 0" by code_simp
  moreover have "fst (Attach (\<lambda>x. x) None [2] (Some (NewStreamCarrier [])) demo_vpn) = Inr [1, 2]" by code_simp
  ultimately show ?thesis using vpn_reattach_leaks by (metis prod.collapse)
qed

lemma ran_remove:
  assumes "inj_on m (dom m)" "m a = Some k"
  shows "ran (m(a := None)) = ran m - {k}"
proof -
  have "m x \<noteq> Some k" if "x \<noteq> a" for x using assms that unfolding inj_on_def by (metis domI)
  with assms(2) show ?thesis by (auto simp: ran_def) (metis option.inject)
qed

text \<open>
  As long as no running tunnel is attached again, the live contexts are exactly those of the tunnels that
  have not been closed.
\<close>

definition reattaches :: "(bytes \<Rightarrow> bytes) \<Rightarrow> vpn_server \<Rightarrow> vpn_call \<Rightarrow> bool" where
  "reattaches sha3 s call \<longleftrightarrow> (case call of CallAttach _ peer _ \<Rightarrow> vsRunning s (sha3 (vsLocalID s @ peer)) \<noteq> None | _ \<Rightarrow> False)"

interpretation single: operations "\<lambda>s call. if reattaches sha3 s call then s else vpn_step sha3 s call"
  "\<lambda>s. vpn_ok s \<and> vsLive s = ran (vsRunning s)" for sha3
proof unfold_locales
  fix s call
  assume inv: "vpn_ok s \<and> vsLive s = ran (vsRunning s)"
  have "vsLive (vpn_step sha3 s call) = ran (vsRunning (vpn_step sha3 s call))" if "\<not> reattaches sha3 s call"
  proof (cases call)
    case (CallAttach d peer c)
    with inv that show ?thesis
      by (auto simp: vpn_step_def Attach_def CreateTunnel_def Let_def reattaches_def)
  next
    case (CallClose tid)
    with inv show ?thesis
      by (cases "vsRunning s tid") (simp_all add: vpn_step_def CloseTunnel_def vpn_ok_def ran_remove fun_upd_idem)
  qed (use inv in \<open>simp_all add: vpn_step_def CreateTunnel_def Vpn_AddRoute_def Let_def\<close>)
  with inv show "vpn_ok (if reattaches sha3 s call then s else vpn_step sha3 s call)
      \<and> vsLive (if reattaches sha3 s call then s else vpn_step sha3 s call) =
        ran (vsRunning (if reattaches sha3 s call then s else vpn_step sha3 s call))"
    by (simp add: vpn_step_ok)
qed

text \<open>Closing every tunnel of such a server stops every loop.\<close>

lemma vpn_close_stops:
  assumes "vpn_ok s" "vsLive s = ran (vsRunning s)" "dom (vsRunning s) \<subseteq> set tids"
  shows "vsLive (foldl (\<lambda>s tid. CloseTunnel tid s) s tids) = {}"
  using assms
proof (induction tids arbitrary: s)
  case (Cons tid tids)
  have "vsLive (CloseTunnel tid s) = ran (vsRunning (CloseTunnel tid s))"
    using single.step_inv [of s "\<lambda>x. x" "CallClose tid"] Cons.prems by (simp add: reattaches_def vpn_step_def)
  moreover have "dom (vsRunning (CloseTunnel tid s)) \<subseteq> set tids" using Cons.prems(3) by (auto simp: CloseTunnel_def)
  ultimately show ?case using Cons.IH [of "CloseTunnel tid s"] Cons.prems(1) vpn_ok_Close by simp
qed (simp add: ran_def dom_def)

end
