(* ===== verification/Messaging.thy ===== *)
theory Messaging
  imports Sec_Capability Sec_PoW
begin

text \<open>
  The messaging service (\<open>pkg/services/messaging/messaging.go\<close>): channels with members, signed messages and
  the paged history of the in-memory store. SHA3-256 and Ed25519 are parameters, as in the other theories;
  message identifiers are raw bytes. Reading a history page by page is the client's side of \<open>History\<close>.
\<close>

record chat_message =
  cmID :: bytes
  cmChannelID :: bytes
  cmSender :: bytes
  cmTimestamp :: int64
  cmContent :: bytes
  cmSignature :: bytes
  cmParentID :: bytes
  cmType :: byte

type_synonym chat_store = "bytes \<rightharpoonup> chat_message list"

definition history_of :: "chat_store \<Rightarrow> bytes \<Rightarrow> chat_message list" where
  "history_of st ch = (case st ch of Some ms \<Rightarrow> ms | None \<Rightarrow> [])"

definition Store_Append :: "bytes \<Rightarrow> chat_message \<Rightarrow> chat_store \<Rightarrow> chat_store" where
  "Store_Append ch msg st = st(ch \<mapsto> history_of st ch @ [msg])"

text \<open>The index behind the first message with the identifier, or zero.\<close>

fun start_after :: "bytes \<Rightarrow> nat \<Rightarrow> chat_message list \<Rightarrow> nat" where
  "start_after after i [] = 0"
| "start_after after i (m # ms) = (if cmID m = after then i + 1 else start_after after (Suc i) ms)"

definition Store_History :: "bytes \<Rightarrow> bytes \<Rightarrow> int \<Rightarrow> chat_store \<Rightarrow> chat_message list" where
  "Store_History ch after limit st =
     (let all = history_of st ch; start = start_after after 0 all
      in if start \<ge> length all then []
         else let n = (if limit \<le> 0 \<or> limit > int (length all - start) then length all - start else nat limit)
              in take n (drop start all))"

record channel =
  chID :: bytes
  chMembers :: "bytes set"
  chCreated :: gotime
  chLastSeen :: gotime

record chat_service =
  csChannels :: "bytes \<rightharpoonup> channel"
  csStore :: chat_store
  csPrivKey :: bytes

definition NewChatService :: "bytes \<Rightarrow> chat_service" where
  "NewChatService priv = \<lparr>csChannels = Map.empty, csStore = Map.empty, csPrivKey = priv\<rparr>"

definition CreateChannel :: "(bytes \<Rightarrow> bytes) \<Rightarrow> gotime \<Rightarrow> bytes list \<Rightarrow> chat_service \<Rightarrow> bytes \<times> chat_service" where
  "CreateChannel sha3 now members s =
     (let cid = sha3 (concat members)
      in (cid, s\<lparr>csChannels := (csChannels s)(cid \<mapsto> \<lparr>chID = cid, chMembers = set members, chCreated = now, chLastSeen = 0\<rparr>)\<rparr>))"

definition nextID :: "(bytes \<Rightarrow> bytes) \<Rightarrow> bytes \<Rightarrow> bytes \<Rightarrow> bytes" where
  "nextID sha3 sender content = take 16 (sha3 (sender @ content))"

datatype chat_error = ChannelNotFound | NotMember

definition Publish ::
  "(bytes \<Rightarrow> bytes) \<Rightarrow> (bytes \<Rightarrow> bytes) \<Rightarrow> (bytes \<Rightarrow> bytes \<Rightarrow> bytes) \<Rightarrow> gotime \<Rightarrow> gotime \<Rightarrow> bytes \<Rightarrow> bytes \<Rightarrow> bytes \<Rightarrow> bytes \<Rightarrow> chat_service
     \<Rightarrow> (chat_error + chat_message) \<times> chat_service" where
  "Publish sha3 new_key ed_sign now now' ch sender content parent s =
     (case csChannels s ch of
        None \<Rightarrow> (Inl ChannelNotFound, s)
      | Some c \<Rightarrow>
          if sender \<notin> chMembers c then (Inl NotMember, s)
          else let mid = nextID sha3 sender content;
                   msg = \<lparr>cmID = mid, cmChannelID = ch, cmSender = sender, cmTimestamp = unixNano now, cmContent = content,
                          cmSignature = crypto_Sign new_key ed_sign (csPrivKey s) (mid @ content), cmParentID = parent, cmType = 0\<rparr>
               in (Inr msg, s\<lparr>csChannels := (csChannels s)(ch \<mapsto> c\<lparr>chLastSeen := now'\<rparr>), csStore := Store_Append ch msg (csStore s)\<rparr>))"

definition Chat_History :: "bytes \<Rightarrow> bytes \<Rightarrow> int \<Rightarrow> chat_service \<Rightarrow> chat_message list" where
  "Chat_History ch after limit s = Store_History ch after limit (csStore s)"

definition MarshalChannel :: "bytes \<Rightarrow> chat_service \<Rightarrow> chat_error + bytes" where
  "MarshalChannel ch s =
     (case csChannels s ch of
        None \<Rightarrow> Inl ChannelNotFound
      | Some c \<Rightarrow> Inr (le_bytes 8 (unat (unixNano (chCreated c))) @ le_bytes 8 (unat (unixNano (chLastSeen c))) @ [0, 0, 0, 0]))"

text \<open>\<open>UnmarshalChannel\<close> returns the zero identifier whatever the data.\<close>

definition UnmarshalChannel :: "bytes \<Rightarrow> bytes option" where
  "UnmarshalChannel data = (if length data < 16 then None else Some (replicate 32 0))"

section \<open>Reading a history\<close>

text \<open>
  A client reads a channel page by page, asking each time for what follows the last message it got, until a
  page is empty. With too little fuel the result is \<open>None\<close>.
\<close>

fun read_pages :: "nat \<Rightarrow> bytes \<Rightarrow> bytes \<Rightarrow> int \<Rightarrow> chat_service \<Rightarrow> chat_message list option" where
  "read_pages 0 ch after limit s = None"
| "read_pages (Suc n) ch after limit s =
     (case Chat_History ch after limit s of
        [] \<Rightarrow> Some []
      | m # ms \<Rightarrow> map_option (append (m # ms)) (read_pages n ch (cmID (last (m # ms))) limit s))"

lemma start_after_none: "after \<notin> cmID ` set ms \<Longrightarrow> start_after after i ms = 0"
  by (induction ms arbitrary: i) auto

lemma start_after_first:
  "after \<notin> cmID ` set xs \<Longrightarrow> cmID m = after \<Longrightarrow> start_after after i (xs @ m # ys) = i + length xs + 1"
  by (induction xs arbitrary: i) auto

lemma start_after_nth:
  assumes "distinct (map cmID ms)" "k < length ms"
  shows "start_after (cmID (ms ! k)) 0 ms = k + 1"
proof -
  have "ms = take k ms @ ms ! k # drop (Suc k) ms" using assms(2) by (simp add: id_take_nth_drop)
  moreover have "cmID (ms ! k) \<notin> cmID ` set (take k ms)"
    using assms by (auto simp: in_set_conv_nth distinct_conv_nth)
  ultimately show ?thesis using start_after_first [of "cmID (ms ! k)" "take k ms" "ms ! k" 0 "drop (Suc k) ms"] assms(2) by simp
qed

lemma pages_from:
  assumes "distinct (map cmID all)" "all = history_of (csStore s) ch" "start_after after 0 all = k" "k \<le> length all"
    and "length all - k < n"
  shows "read_pages n ch after limit s = Some (drop k all)"
  using assms(3-)
proof (induction n arbitrary: after k)
  case (Suc n)
  define N where "N = (if limit \<le> 0 \<or> limit > int (length all - k) then length all - k else nat limit)"
  have page: "Chat_History ch after limit s = (if k \<ge> length all then [] else take N (drop k all))"
    using Suc.prems(1) by (simp add: Chat_History_def Store_History_def Let_def assms(2) N_def)
  show ?case
  proof (cases "k \<ge> length all")
    case False
    then have n: "0 < N" "k + N \<le> length all" by (auto simp: N_def)
    then have "take N (drop k all) \<noteq> []" using False by auto
    then obtain m ms where p: "take N (drop k all) = m # ms" by (meson neq_Nil_conv)
    have "last (take N (drop k all)) = all ! (k + N - 1)"
      using n by (subst last_conv_nth) (auto simp: min_absorb2)
    then have "start_after (cmID (last (m # ms))) 0 all = k + N"
      using start_after_nth [OF assms(1), of "k + N - 1"] n p by simp
    then have "read_pages n ch (cmID (last (m # ms))) limit s = Some (drop (k + N) all)"
      using Suc.prems n by (intro Suc.IH) auto
    moreover have "(m # ms) @ drop (k + N) all = drop k all"
      unfolding p [symmetric] by (metis append_take_drop_id drop_drop add.commute)
    ultimately show ?thesis using page p False by (simp del: append_Cons)
  qed (use page in simp)
qed simp

text \<open>
  C31: reading page by page returns the whole history. If the messages of a channel have different
  identifiers, a client that starts with an identifier of none of them, and with any page size, gets every
  message once and in order, and stops.
\<close>

theorem messaging_pages_complete:
  assumes "distinct (map cmID (history_of (csStore s) ch))" "after \<notin> cmID ` set (history_of (csStore s) ch)"
  shows "read_pages (Suc (length (history_of (csStore s) ch))) ch after limit s = Some (history_of (csStore s) ch)"
  using pages_from [OF assms(1) refl start_after_none [OF assms(2), of 0], of "Suc (length (history_of (csStore s) ch))" limit]
  by (simp del: read_pages.simps)

lemma pages_endless:
  assumes "history_of (csStore s) ch = ms @ [m1, m2]" "cmID m1 = cmID m2"
  shows "read_pages n ch after limit s = None"
proof (induction n arbitrary: after)
  case (Suc n)
  let ?all = "ms @ [m1, m2]"
  have "start_after after 0 ?all < length ?all"
  proof (cases "after \<in> cmID ` set (ms @ [m1])")
    case True
    then have "\<exists>m\<in>set (ms @ [m1]). cmID m = after" by (metis imageE)
    from split_list_first_prop [OF this] obtain xs m ys where
      x: "ms @ [m1] = xs @ m # ys" "cmID m = after" "\<forall>m\<in>set xs. cmID m \<noteq> after" by blast
    from x(3) have "after \<notin> cmID ` set xs" by blast
    have "?all = (ms @ [m1]) @ [m2]" by simp
    then have all: "?all = xs @ m # ys @ [m2]" unfolding x(1) by simp
    show ?thesis unfolding all using start_after_first [OF _ x(2), of xs 0 "ys @ [m2]"] \<open>after \<notin> cmID ` set xs\<close> by simp
  next
    case False
    then have "after \<notin> cmID ` set ?all" using assms(2) by auto
    then show ?thesis by (simp add: start_after_none)
  qed
  then have "Chat_History ch after limit s \<noteq> []"
    by (auto simp: Chat_History_def Store_History_def Let_def assms(1))
  with Suc.IH show ?case by (cases "Chat_History ch after limit s") simp_all
qed simp

text \<open>
  A repeated message traps every reader. Identifiers are derived from the sender and the content alone, so
  that two equal messages of one sender share theirs; when both stand at the end of a history, the page
  after the last message starts behind the first of them, and reading page by page never ends.
\<close>

theorem messaging_repeat_endless:
  assumes "Publish sha3 new_key ed_sign t1 t2 ch sender content p1 s = (Inr m1, s1)"
    and "Publish sha3 new_key ed_sign t3 t4 ch sender content p2 s1 = (Inr m2, s2)"
  shows "read_pages n ch after limit s2 = None"
proof (rule pages_endless)
  show "history_of (csStore s2) ch = history_of (csStore s) ch @ [m1, m2]" "cmID m1 = cmID m2"
    using assms by (auto simp: Publish_def Let_def Store_Append_def history_of_def split: option.splits if_splits)
qed

text \<open>A service with one channel of two members, for the witnesses.\<close>

definition demo_chat :: chat_service where
  "demo_chat = snd (CreateChannel (\<lambda>x. x) 1 [[1], [2]] (NewChatService [9]))"

definition demo_post :: "bytes \<Rightarrow> chat_service \<Rightarrow> chat_service" where
  "demo_post content s = snd (Publish (\<lambda>x. x) toy_new_key toy_sign 5 6 [1, 2] [1] content [] s)"

theorem messaging_pages_complete_witness:
  "map_option (map cmContent) (read_pages 3 [1, 2] [] 1 (demo_post [8] (demo_post [7] demo_chat))) = Some [[7], [8]]"
proof -
  let ?s = "demo_post [8] (demo_post [7] demo_chat)"
  have h: "map cmID (history_of (csStore ?s) [1, 2]) = [[1, 7], [1, 8]]" "map cmContent (history_of (csStore ?s) [1, 2]) = [[7], [8]]"
    by code_simp+
  then have "length (history_of (csStore ?s) [1, 2]) = 2" "[] \<notin> cmID ` set (history_of (csStore ?s) [1, 2])"
    by (metis length_map length_Cons list.size(3) Suc_1 One_nat_def) (use h(1) in \<open>simp flip: set_map\<close>)
  with messaging_pages_complete [of ?s "[1, 2]" "[]" 1] h show ?thesis by (simp del: read_pages.simps add: numeral_3_eq_3)
qed

theorem messaging_repeat_endless_witness:
  "read_pages 100 [1, 2] [] 1 (demo_post [7] (demo_post [7] demo_chat)) = None"
proof -
  let ?p = "Publish (\<lambda>x. x) toy_new_key toy_sign 5 6 [1, 2] [1] [7] []"
  have "\<exists>m. ?p demo_chat = (Inr m, demo_post [7] demo_chat)" "\<exists>m. ?p (demo_post [7] demo_chat) = (Inr m, demo_post [7] (demo_post [7] demo_chat))"
    by (simp_all add: demo_post_def Publish_def demo_chat_def CreateChannel_def NewChatService_def Let_def)
  then show ?thesis using messaging_repeat_endless by blast
qed

section \<open>Who can write\<close>

datatype chat_call = CallChannel gotime "bytes list" | CallPublish gotime gotime bytes bytes bytes bytes

definition chat_step ::
  "(bytes \<Rightarrow> bytes) \<Rightarrow> (bytes \<Rightarrow> bytes) \<Rightarrow> (bytes \<Rightarrow> bytes \<Rightarrow> bytes) \<Rightarrow> chat_service \<Rightarrow> chat_call \<Rightarrow> chat_service" where
  "chat_step sha3 new_key ed_sign s call =
     (case call of
        CallChannel now members \<Rightarrow> snd (CreateChannel sha3 now members s)
      | CallPublish now now' ch sender content parent \<Rightarrow> snd (Publish sha3 new_key ed_sign now now' ch sender content parent s))"

definition member_of :: "(bytes \<Rightarrow> bytes) \<Rightarrow> chat_call set \<Rightarrow> bytes \<Rightarrow> bytes \<Rightarrow> bool" where
  "member_of sha3 calls ch sender \<longleftrightarrow> (\<exists>now members. CallChannel now members \<in> calls \<and> sha3 (concat members) = ch \<and> sender \<in> set members)"

definition chat_ok ::
  "(bytes \<Rightarrow> bytes) \<Rightarrow> (bytes \<Rightarrow> bytes) \<Rightarrow> (bytes \<Rightarrow> bytes \<Rightarrow> bytes) \<Rightarrow> bytes \<Rightarrow> chat_call set \<Rightarrow> chat_service \<Rightarrow> bool" where
  "chat_ok sha3 new_key ed_sign priv calls s \<longleftrightarrow> csPrivKey s = priv
     \<and> (\<forall>ch c. csChannels s ch = Some c \<longrightarrow> chMembers c \<subseteq> Collect (member_of sha3 calls ch))
     \<and> (\<forall>ch. \<forall>m\<in>set (history_of (csStore s) ch). cmChannelID m = ch \<and> member_of sha3 calls ch (cmSender m)
          \<and> cmID m = nextID sha3 (cmSender m) (cmContent m) \<and> cmSignature m = crypto_Sign new_key ed_sign priv (cmID m @ cmContent m))"

lemma chat_step_ok:
  assumes "chat_ok sha3 new_key ed_sign priv calls s" "call \<in> calls"
  shows "chat_ok sha3 new_key ed_sign priv calls (chat_step sha3 new_key ed_sign s call)"
proof (cases call)
  case (CallChannel now members)
  then have "set members \<subseteq> Collect (member_of sha3 calls (sha3 (concat members)))"
    using assms(2) unfolding member_of_def by blast
  with assms CallChannel show ?thesis by (auto simp: chat_step_def CreateChannel_def chat_ok_def Let_def)
next
  case (CallPublish now now' ch sender content parent)
  show ?thesis
  proof (cases "csChannels s ch")
    case (Some c)
    show ?thesis
    proof (cases "sender \<in> chMembers c")
      case True
      have "member_of sha3 calls ch sender" using assms(1) Some True by (auto simp: chat_ok_def)
      with assms(1) CallPublish Some True show ?thesis
        by (auto simp: chat_step_def Publish_def chat_ok_def Let_def Store_Append_def history_of_def)
    qed (use assms CallPublish Some in \<open>simp add: chat_step_def Publish_def\<close>)
  qed (use assms CallPublish in \<open>simp add: chat_step_def Publish_def\<close>)
qed

text \<open>
  Only members write, and what they write is signed. After any sequence of calls, every message in the
  history of a channel was sent by a member of a channel created with this identifier, carries the
  identifier of its sender and content, and its signature verifies under the key of the service.
\<close>

theorem messaging_only_members:
  assumes "ed25519_correct new_key ed_sign ed_verify"
    and "m \<in> set (history_of (csStore (foldl (chat_step sha3 new_key ed_sign) (NewChatService priv) calls)) ch)"
  shows "member_of sha3 (set calls) ch (cmSender m) \<and> cmChannelID m = ch \<and> cmID m = nextID sha3 (cmSender m) (cmContent m)
    \<and> crypto_Verify ed_verify (computePubFromSeed new_key priv) (cmID m @ cmContent m) (cmSignature m)"
proof -
  have "chat_ok sha3 new_key ed_sign priv (set calls) (foldl (chat_step sha3 new_key ed_sign) s cs)"
    if "chat_ok sha3 new_key ed_sign priv (set calls) s" "set cs \<subseteq> set calls" for cs s
    using that by (induction cs arbitrary: s) (auto simp: chat_step_ok)
  moreover have "chat_ok sha3 new_key ed_sign priv (set calls) (NewChatService priv)"
    by (simp add: chat_ok_def NewChatService_def history_of_def)
  ultimately have "chat_ok sha3 new_key ed_sign priv (set calls) (foldl (chat_step sha3 new_key ed_sign) (NewChatService priv) calls)"
    by blast
  with assms show ?thesis
    by (auto simp: chat_ok_def crypto_Sign_def crypto_Verify_def computePubFromSeed_def ed25519_correct_def)
qed

theorem messaging_only_members_witness:
  "\<exists>m. m \<in> set (history_of (csStore (foldl (chat_step (\<lambda>x. x) toy_new_key toy_sign) (NewChatService [9])
        [CallChannel 1 [[1], [2]], CallPublish 5 6 [1, 2] [1] [7] [], CallPublish 5 6 [1, 2] [3] [7] []])) [1, 2])
     \<and> member_of (\<lambda>x. x) {CallChannel 1 [[1], [2]], CallPublish 5 6 [1, 2] [1] [7] [], CallPublish 5 6 [1, 2] [3] [7] []} [1, 2] (cmSender m)"
proof -
  let ?calls = "[CallChannel 1 [[1], [2]], CallPublish 5 6 [1, 2] [1] [7] [], CallPublish 5 6 [1, 2] [3] [7] []]"
  let ?h = "history_of (csStore (foldl (chat_step (\<lambda>x. x) toy_new_key toy_sign) (NewChatService [9]) ?calls)) [1, 2]"
  have "length ?h = 1" by code_simp
  then obtain m where "m \<in> set ?h" by (cases ?h) auto
  with messaging_only_members [OF toy_ed25519, of m "\<lambda>x. x" "[9]" ?calls "[1, 2]"] show ?thesis by auto
qed

end
