(* ===== verification/Go_Text.thy ===== *)
theory Go_Text
  imports Go_Format
begin

text \<open>
  The functions of Go's \<open>strings\<close>, \<open>bufio\<close> and \<open>path/filepath\<close> packages the text protocols use. A string is its
  bytes; upper and lower case and white space are those of ASCII, which is what the protocols consist of.
\<close>

section \<open>Cutting strings\<close>

text \<open>The parts before and behind the first occurrence of a character.\<close>

fun cut_at :: "char \<Rightarrow> string \<Rightarrow> (string \<times> string) option" where
  "cut_at c [] = None"
| "cut_at c (x # xs) = (if x = c then Some ([], xs) else map_option (apfst (Cons x)) (cut_at c xs))"

text \<open>\<open>strings.SplitN(s, c, n)\<close> for \<open>n > 0\<close> and \<open>strings.Split(s, c)\<close>.\<close>

fun splitN :: "char \<Rightarrow> nat \<Rightarrow> string \<Rightarrow> string list" where
  "splitN c 0 s = []"
| "splitN c (Suc 0) s = [s]"
| "splitN c (Suc (Suc n)) s = (case cut_at c s of None \<Rightarrow> [s] | Some (a, b) \<Rightarrow> a # splitN c (Suc n) b)"

lemma cut_at_length: "cut_at c s = Some (a, b) \<Longrightarrow> length s = length a + length b + 1"
  by (induction s arbitrary: a) (auto split: if_splits)

function split_on :: "char \<Rightarrow> string \<Rightarrow> string list" where
  "split_on c s = (case cut_at c s of None \<Rightarrow> [s] | Some (a, b) \<Rightarrow> a # split_on c b)"
  by pat_completeness auto

termination
  by (relation "measure (\<lambda>(_, s). length s)") (auto dest: cut_at_length)

declare split_on.simps [simp del]

lemma cut_at_first: "c \<notin> set a \<Longrightarrow> cut_at c (a @ c # b) = Some (a, b)"
  by (induction a) auto

lemma cut_at_none: "c \<notin> set s \<longleftrightarrow> cut_at c s = None"
  by (induction s) auto

lemma splitN_two:
  "c \<notin> set a \<Longrightarrow> splitN c 2 (a @ c # b) = [a, b]" "c \<notin> set s \<Longrightarrow> splitN c 2 s = [s]"
  by (simp_all add: numeral_2_eq_2 cut_at_first cut_at_none [THEN iffD1])

section \<open>Case and white space\<close>

definition upper_char :: "char \<Rightarrow> char" where
  "upper_char c = (if CHR ''a'' \<le> c \<and> c \<le> CHR ''z'' then char_of (of_char c - (32 :: nat)) else c)"

definition lower_char :: "char \<Rightarrow> char" where
  "lower_char c = (if CHR ''A'' \<le> c \<and> c \<le> CHR ''Z'' then char_of (of_char c + (32 :: nat)) else c)"

definition ToUpper :: "string \<Rightarrow> string" where "ToUpper s = map upper_char s"
definition ToLower :: "string \<Rightarrow> string" where "ToLower s = map lower_char s"

definition is_space :: "char \<Rightarrow> bool" where
  "is_space c \<longleftrightarrow> c \<in> {CHR '' '', CHR 0x09, CHR 0x0A, CHR 0x0B, CHR 0x0C, CHR 0x0D}"

definition trim_by :: "(char \<Rightarrow> bool) \<Rightarrow> string \<Rightarrow> string" where
  "trim_by P s = rev (dropWhile P (rev (dropWhile P s)))"

definition TrimSpace :: "string \<Rightarrow> string" where "TrimSpace s = trim_by is_space s"

definition Trim :: "string \<Rightarrow> string \<Rightarrow> string" where "Trim s cutset = trim_by (\<lambda>c. c \<in> set cutset) s"

definition TrimRight :: "string \<Rightarrow> string \<Rightarrow> string" where
  "TrimRight s cutset = rev (dropWhile (\<lambda>c. c \<in> set cutset) (rev s))"

definition HasPrefix :: "string \<Rightarrow> string \<Rightarrow> bool" where
  "HasPrefix s p \<longleftrightarrow> take (length p) s = p"

fun Contains :: "string \<Rightarrow> string \<Rightarrow> bool" where
  "Contains [] sub \<longleftrightarrow> sub = []"
| "Contains (x # xs) sub \<longleftrightarrow> HasPrefix (x # xs) sub \<or> Contains xs sub"

text \<open>\<open>strings.Index\<close>: the position of the first occurrence.\<close>

fun Index :: "string \<Rightarrow> string \<Rightarrow> nat option" where
  "Index [] sub = (if sub = [] then Some 0 else None)"
| "Index (x # xs) sub = (if HasPrefix (x # xs) sub then Some 0 else map_option Suc (Index xs sub))"

fun fields_from :: "string \<Rightarrow> string \<Rightarrow> string list" where
  "fields_from acc [] = (if acc = [] then [] else [acc])"
| "fields_from acc (x # xs) =
     (if is_space x then (if acc = [] then fields_from [] xs else acc # fields_from [] xs) else fields_from (acc @ [x]) xs)"

definition Fields :: "string \<Rightarrow> string list" where "Fields s = fields_from [] s"

fun Join :: "string \<Rightarrow> string list \<Rightarrow> string" where
  "Join sep [] = []"
| "Join sep [x] = x"
| "Join sep (x # y # xs) = x @ sep @ Join sep (y # xs)"

lemma trim_by_id: "s = [] \<or> \<not> P (hd s) \<and> \<not> P (last s) \<Longrightarrow> trim_by P s = s"
proof (cases s rule: rev_cases)
  case (snoc xs x)
  assume "s = [] \<or> \<not> P (hd s) \<and> \<not> P (last s)"
  with snoc show ?thesis by (cases xs) (auto simp: trim_by_def)
qed (simp add: trim_by_def)

section \<open>Lines\<close>

text \<open>
  \<open>bufio.Scanner\<close> with \<open>ScanLines\<close>: lines end with a newline, one carriage return before it is dropped, a last
  line needs no newline. A line that does not fit the buffer of 64 KiB ends the scan with an error.
\<close>

definition max_token :: nat where "max_token = 65536"

definition drop_cr :: "string \<Rightarrow> string" where
  "drop_cr s = (if s \<noteq> [] \<and> last s = CHR 0x0D then butlast s else s)"

function scan_lines :: "string \<Rightarrow> string list \<times> bool" where
  "scan_lines s =
     (if s = [] then ([], True)
      else case cut_at (CHR 0x0A) s of
             None \<Rightarrow> if length s \<ge> max_token then ([], False) else ([drop_cr s], True)
           | Some (a, b) \<Rightarrow>
               if length a \<ge> max_token then ([], False) else (case scan_lines b of (ls, ok) \<Rightarrow> (drop_cr a # ls, ok)))"
  by pat_completeness auto

termination
  by (relation "measure length") (auto dest: cut_at_length)

declare scan_lines.simps [simp del]

text \<open>A line as a client sends it, without a newline and not ending in a carriage return.\<close>

definition plain_line :: "string \<Rightarrow> bool" where
  "plain_line l \<longleftrightarrow> CHR 0x0A \<notin> set l \<and> (l = [] \<or> last l \<noteq> CHR 0x0D) \<and> length l < max_token - 1"

definition crlf :: string where "crlf = [CHR 0x0D, CHR 0x0A]"

lemma scan_lines_crlf:
  assumes "list_all plain_line ls"
  shows "scan_lines (concat (map (\<lambda>l. l @ crlf) ls)) = (ls, True)"
  using assms
proof (induction ls)
  case (Cons l ls)
  have "cut_at (CHR 0x0A) (concat (map (\<lambda>l. l @ crlf) (l # ls))) = Some (l @ [CHR 0x0D], concat (map (\<lambda>l. l @ crlf) ls))"
    using cut_at_first [of "CHR 0x0A" "l @ [CHR 0x0D]"] Cons.prems by (simp add: crlf_def plain_line_def)
  moreover have "drop_cr (l @ [CHR 0x0D]) = l" by (simp add: drop_cr_def)
  ultimately show ?case using Cons by (subst scan_lines.simps) (simp add: crlf_def plain_line_def max_token_def)
qed (simp add: scan_lines.simps)

section \<open>Paths\<close>

text \<open>
  \<open>filepath.Join\<close> of two elements on Unix: the cleaned path, in which \<open>..\<close> takes away the element before it,
  or nothing at the root.
\<close>

fun clean_parts :: "bool \<Rightarrow> string list \<Rightarrow> string list \<Rightarrow> string list" where
  "clean_parts rooted out [] = out"
| "clean_parts rooted out (p # ps) =
     (if p = [] \<or> p = ''.'' then clean_parts rooted out ps
      else if p = ''..''
      then (if out \<noteq> [] \<and> last out \<noteq> ''..'' then clean_parts rooted (butlast out) ps
            else if rooted then clean_parts rooted out ps
            else clean_parts rooted (out @ [p]) ps)
      else clean_parts rooted (out @ [p]) ps)"

definition Clean :: "string \<Rightarrow> string" where
  "Clean path =
     (let rooted = HasPrefix path ''/'';
          body = Join ''/'' (clean_parts rooted [] (split_on (CHR ''/'') path))
      in if rooted then CHR ''/'' # body else if body = [] then ''.'' else body)"

definition path_join :: "string \<Rightarrow> string \<Rightarrow> string" where
  "path_join a b = (if a = [] \<and> b = [] then [] else if a = [] then Clean b else if b = [] then Clean a else Clean (a @ ''/'' @ b))"

end
