(* ===== verification/Email_Mailbox.thy ===== *)
theory Email_Mailbox
  imports Go_Text
begin

text \<open>
  Messages and maildirs of the mail service (\<open>pkg/services/email/types.go\<close> and \<open>mailbox.go\<close>). The file system is
  a map from paths to contents; \<open>readdir\<close> lists the names in a directory, sorted as \<open>os.ReadDir\<close> does. The
  outcome of the writes, the rendering and parsing of dates and random identifiers are arguments. A message of
  a mailbox is addressed by its position in the list of messages, which stands for the pointer.
\<close>

unbundle bit_operations_syntax

section \<open>Messages\<close>

type_synonym mail_flags = u32

definition FlagSeen :: mail_flags where "FlagSeen = 1"
definition FlagAnswered :: mail_flags where "FlagAnswered = 2"
definition FlagFlagged :: mail_flags where "FlagFlagged = 4"
definition FlagDeleted :: mail_flags where "FlagDeleted = 8"
definition FlagDraft :: mail_flags where "FlagDraft = 16"
definition FlagRecent :: mail_flags where "FlagRecent = 32"

lemmas mail_flag_defs = FlagSeen_def FlagAnswered_def FlagFlagged_def FlagDeleted_def FlagDraft_def FlagRecent_def

definition has_flag :: "mail_flags \<Rightarrow> mail_flags \<Rightarrow> bool" where
  "has_flag flags f \<longleftrightarrow> flags AND f \<noteq> 0"

record mail =
  maID :: string
  maFrom :: string
  maTo :: "string list"
  maCC :: "string list"
  maBCC :: "string list"
  maSubject :: string
  maBody :: string
  maHeaders :: "string \<rightharpoonup> string"
  maReceived :: gotime
  maSize :: nat
  maUID :: u32
  maFlags :: mail_flags
  maMaildir :: string
  maFilename :: string

definition empty_mail :: mail where
  "empty_mail = \<lparr>maID = [], maFrom = [], maTo = [], maCC = [], maBCC = [], maSubject = [], maBody = [], maHeaders = Map.empty,
     maReceived = 0, maSize = 0, maUID = 0, maFlags = 0, maMaildir = [], maFilename = []\<rparr>"

definition parseAddresses :: "string \<Rightarrow> string list" where
  "parseAddresses s = filter (\<lambda>a. a \<noteq> []) (map TrimSpace (split_on (CHR '','') s))"

text \<open>
  One header line. \<open>parse_date\<close> is \<open>time.Parse\<close> for RFC 1123 dates; reading a stored file does not look at the
  date, which is \<open>\<lambda>_. None\<close>.
\<close>

definition header_line :: "(string \<Rightarrow> gotime option) \<Rightarrow> string \<Rightarrow> mail \<Rightarrow> mail" where
  "header_line parse_date line m =
     (case splitN (CHR '':'') 2 line of
        [k, v] \<Rightarrow>
          let key = TrimSpace k; val = TrimSpace v; low = ToLower key;
              m' = m\<lparr>maHeaders := (maHeaders m)(key \<mapsto> val)\<rparr>
          in if low = ''from'' then m'\<lparr>maFrom := val\<rparr>
             else if low = ''to'' then m'\<lparr>maTo := maTo m @ parseAddresses val\<rparr>
             else if low = ''cc'' then m'\<lparr>maCC := maCC m @ parseAddresses val\<rparr>
             else if low = ''subject'' then m'\<lparr>maSubject := val\<rparr>
             else if low = ''date'' then (case parse_date val of Some t \<Rightarrow> m'\<lparr>maReceived := t\<rparr> | None \<Rightarrow> m')
             else m'
      | _ \<Rightarrow> m)"

text \<open>The lines up to the first empty one are headers, the rest is the body.\<close>

fun parse_headers :: "(string \<Rightarrow> gotime option) \<Rightarrow> string list \<Rightarrow> mail \<Rightarrow> mail \<times> string list" where
  "parse_headers parse_date [] m = (m, [])"
| "parse_headers parse_date (l # ls) m =
     (if l = [] then (m, ls) else parse_headers parse_date ls (header_line parse_date l m))"

text \<open>\<open>ParseMessage\<close>; the error of the scanner is \<open>None\<close>.\<close>

definition Mail_ParseMessage :: "(string \<Rightarrow> gotime option) \<Rightarrow> gotime \<Rightarrow> string \<Rightarrow> mail option" where
  "Mail_ParseMessage parse_date now data =
     (case scan_lines data of
        (_, False) \<Rightarrow> None
      | (ls, True) \<Rightarrow>
          let (m, body) = parse_headers parse_date ls empty_mail
          in Some (m\<lparr>maReceived := (if maReceived m = 0 then now else maReceived m),
                     maBody := concat (map (\<lambda>l. l @ [CHR 0x0A]) body), maSize := length data\<rparr>))"

text \<open>\<open>readMessageFile\<close> on the content of a file; an overlong line ends the reading without an error.\<close>

definition readMessageFile :: "(string \<Rightarrow> gotime) \<Rightarrow> string \<Rightarrow> string \<Rightarrow> mail" where
  "readMessageFile parse_name name content =
     (let (m, body) = parse_headers (\<lambda>_. None) (fst (scan_lines content)) (empty_mail\<lparr>maReceived := parse_name name\<rparr>)
      in m\<lparr>maBody := Join [CHR 0x0A] body, maSize := length content\<rparr>)"

text \<open>\<open>Message.String\<close>: \<open>order\<close> enumerates the headers, \<open>fmt_date\<close> renders a date.\<close>

definition header_text :: "string \<Rightarrow> string \<Rightarrow> string" where
  "header_text k v = k @ '': '' @ v @ crlf"

definition Mail_String :: "(gotime \<Rightarrow> string) \<Rightarrow> string list \<Rightarrow> mail \<Rightarrow> string" where
  "Mail_String fmt_date order m =
     (let hs = filter (\<lambda>k. maHeaders m k \<noteq> None) order; written = set (map ToLower hs)
      in concat (map (\<lambda>k. header_text k (the (maHeaders m k))) hs)
         @ (if ''from'' \<notin> written \<and> maFrom m \<noteq> [] then header_text ''From'' (maFrom m) else [])
         @ (if ''to'' \<notin> written \<and> maTo m \<noteq> [] then header_text ''To'' (Join '', '' (maTo m)) else [])
         @ (if ''subject'' \<notin> written \<and> maSubject m \<noteq> [] then header_text ''Subject'' (maSubject m) else [])
         @ (if ''date'' \<notin> written \<and> maReceived m \<noteq> 0 then header_text ''Date'' (fmt_date (maReceived m)) else [])
         @ crlf @ maBody m)"

section \<open>Mailboxes\<close>

type_synonym mail_fs = "string \<rightharpoonup> string"

record mailbox =
  mbName :: string
  mbPath :: string
  mbUIDValidity :: u32
  mbUIDNext :: u32
  mbMessages :: "mail list"

text \<open>\<open>FormatMaildirName\<close> renders the current time and appends the mailbox name; its first argument is not used.\<close>

definition FormatMaildirName :: "(gotime \<Rightarrow> string) \<Rightarrow> gotime \<Rightarrow> string \<Rightarrow> string \<Rightarrow> string" where
  "FormatMaildirName fmt_name now unique host = fmt_name now @ ''.'' @ host"

definition maildir_file :: "mailbox \<Rightarrow> string \<Rightarrow> string \<Rightarrow> string" where
  "maildir_file mb sub name = path_join (path_join (mbPath mb) sub) name"

datatype mail_io = IoOk | CreateFails | WriteFails | RenameFails
datatype mail_error = CreateTemp | WriteMessage | MoveToNew | NoPath | MoveFails | RemoveFails | ReadNew | ReadCur | NoSuchMessage

text \<open>
  \<open>StoreMessage\<close>: the message with its UID and path, the mailbox and the file system. A UID is used up even when
  writing fails.
\<close>

definition StoreMessage ::
  "(gotime \<Rightarrow> string) \<Rightarrow> (gotime \<Rightarrow> string) \<Rightarrow> string list \<Rightarrow> mail_io \<Rightarrow> gotime \<Rightarrow> mail \<Rightarrow> mailbox \<Rightarrow> mail_fs
     \<Rightarrow> mail_error option \<times> mail \<times> mailbox \<times> mail_fs" where
  "StoreMessage fmt_name fmt_date order io now msg mb fs =
     (let name = FormatMaildirName fmt_name now (maID msg) (mbName mb);
          m = msg\<lparr>maFilename := name, maUID := mbUIDNext mb\<rparr>;
          mb' = mb\<lparr>mbUIDNext := mbUIDNext mb + 1\<rparr>;
          tmp = maildir_file mb ''tmp'' name; new = maildir_file mb ''new'' name;
          text = Mail_String fmt_date order m
      in case io of
           CreateFails \<Rightarrow> (Some CreateTemp, m, mb', fs)
         | WriteFails \<Rightarrow> (Some WriteMessage, m, mb', fs(tmp := None))
         | RenameFails \<Rightarrow> (Some MoveToNew, m, mb', fs(tmp := None))
         | IoOk \<Rightarrow>
             let m' = m\<lparr>maMaildir := new\<rparr>
             in (None, m', mb'\<lparr>mbMessages := mbMessages mb' @ [m']\<rparr>, (fs(tmp := None))(new \<mapsto> text)))"

text \<open>The files of one directory, in the order of its listing; a file that cannot be opened is skipped.\<close>

fun load_dir :: "(string \<Rightarrow> gotime) \<Rightarrow> string \<Rightarrow> mail_fs \<Rightarrow> string list \<Rightarrow> mailbox \<Rightarrow> mailbox" where
  "load_dir parse_name dir fs [] mb = mb"
| "load_dir parse_name dir fs (name # names) mb =
     load_dir parse_name dir fs names
       (case fs (path_join dir name) of
          None \<Rightarrow> mb
        | Some content \<Rightarrow>
            mb\<lparr>mbUIDNext := mbUIDNext mb + 1,
               mbMessages := mbMessages mb @ [(readMessageFile parse_name name content)\<lparr>maFilename := name,
                 maMaildir := path_join dir name, maUID := mbUIDNext mb\<rparr>]\<rparr>)"

text \<open>\<open>LoadMessages\<close>; \<open>readdir\<close> gives the sorted names of a directory, or \<open>None\<close> when it cannot be read.\<close>

definition LoadMessages ::
  "(string \<Rightarrow> gotime) \<Rightarrow> (string \<Rightarrow> string list option) \<Rightarrow> mail_fs \<Rightarrow> mailbox \<Rightarrow> mail_error option \<times> mailbox" where
  "LoadMessages parse_name readdir fs mb =
     (let mb0 = mb\<lparr>mbMessages := []\<rparr>; new = path_join (mbPath mb) ''new''; cur = path_join (mbPath mb) ''cur''
      in case readdir new of
           None \<Rightarrow> (Some ReadNew, mb0)
         | Some ns \<Rightarrow>
             let mb1 = load_dir parse_name new fs ns mb0
             in (case readdir cur of None \<Rightarrow> (Some ReadCur, mb1) | Some cs \<Rightarrow> (None, load_dir parse_name cur fs cs mb1)))"

definition MoveToCur :: "bool \<Rightarrow> nat \<Rightarrow> mail_flags \<Rightarrow> mailbox \<Rightarrow> mail_fs \<Rightarrow> mail_error option \<times> mailbox \<times> mail_fs" where
  "MoveToCur rename_ok i flags mb fs =
     (if i \<ge> length (mbMessages mb) then (Some NoSuchMessage, mb, fs)
      else let m = mbMessages mb ! i
           in if maMaildir m = [] then (Some NoPath, mb, fs)
              else let cur = maildir_file mb ''cur'' (maFilename m); m' = m\<lparr>maFlags := flags\<rparr>
                   in if \<not> rename_ok \<or> fs (maMaildir m) = None
                      then (Some MoveFails, mb\<lparr>mbMessages := (mbMessages mb)[i := m']\<rparr>, fs)
                      else (None, mb\<lparr>mbMessages := (mbMessages mb)[i := m'\<lparr>maMaildir := cur\<rparr>]\<rparr>,
                            (fs(maMaildir m := None))(cur := fs (maMaildir m))))"

definition DeleteMessage :: "nat \<Rightarrow> mailbox \<Rightarrow> mail_fs \<Rightarrow> mail_error option \<times> mailbox \<times> mail_fs" where
  "DeleteMessage i mb fs =
     (if i \<ge> length (mbMessages mb) then (Some NoSuchMessage, mb, fs)
      else let m = mbMessages mb ! i
           in if maMaildir m = [] then (None, mb, fs)
              else if fs (maMaildir m) = None then (Some RemoveFails, mb, fs)
              else (None, mb\<lparr>mbMessages := take i (mbMessages mb) @ drop (Suc i) (mbMessages mb)\<rparr>, fs(maMaildir m := None)))"

definition GetByUID :: "u32 \<Rightarrow> mailbox \<Rightarrow> mail option" where
  "GetByUID uid mb = find (\<lambda>m. maUID m = uid) (mbMessages mb)"

definition MessageCount :: "mailbox \<Rightarrow> nat" where
  "MessageCount mb = length (mbMessages mb)"

definition RecentCount :: "mailbox \<Rightarrow> nat" where
  "RecentCount mb = length (filter (\<lambda>m. has_flag (maFlags m) FlagRecent) (mbMessages mb))"

definition UnseenCount :: "mailbox \<Rightarrow> nat" where
  "UnseenCount mb = length (filter (\<lambda>m. \<not> has_flag (maFlags m) FlagSeen) (mbMessages mb))"

text \<open>\<open>Expunge\<close>: the removed messages, the mailbox and the file system.\<close>

definition Expunge :: "mailbox \<Rightarrow> mail_fs \<Rightarrow> mail list \<times> mailbox \<times> mail_fs" where
  "Expunge mb fs =
     (let gone = filter (\<lambda>m. has_flag (maFlags m) FlagDeleted) (mbMessages mb)
      in (gone, mb\<lparr>mbMessages := filter (\<lambda>m. \<not> has_flag (maFlags m) FlagDeleted) (mbMessages mb)\<rparr>,
          fold (\<lambda>m fs. fs(maMaildir m := None)) gone fs))"

definition CopyTo ::
  "(gotime \<Rightarrow> string) \<Rightarrow> (gotime \<Rightarrow> string) \<Rightarrow> string list \<Rightarrow> mail_io \<Rightarrow> gotime \<Rightarrow> mail \<Rightarrow> mail_flags \<Rightarrow> mailbox \<Rightarrow> mail_fs
     \<Rightarrow> mail_error option \<times> mail \<times> mailbox \<times> mail_fs" where
  "CopyTo fmt_name fmt_date order io now msg flags dest fs =
     StoreMessage fmt_name fmt_date order io now (msg\<lparr>maFlags := flags, maMaildir := [], maFilename := []\<rparr>) dest fs"

text \<open>\<open>Append\<close> of a raw message; \<open>None\<close> when it cannot be parsed.\<close>

definition Mailbox_Append ::
  "(gotime \<Rightarrow> string) \<Rightarrow> (gotime \<Rightarrow> string) \<Rightarrow> (mail \<Rightarrow> string list) \<Rightarrow> (string \<Rightarrow> gotime option) \<Rightarrow> mail_io \<Rightarrow> string \<Rightarrow> gotime \<Rightarrow> string \<Rightarrow> mailbox \<Rightarrow> mail_fs
     \<Rightarrow> (mail_error option \<times> mail \<times> mailbox \<times> mail_fs) option" where
  "Mailbox_Append fmt_name fmt_date order parse_date io new_id now raw mb fs =
     (case Mail_ParseMessage parse_date now raw of
        None \<Rightarrow> None
      | Some m \<Rightarrow> let m' = m\<lparr>maID := new_id\<rparr> in Some (StoreMessage fmt_name fmt_date (order m') io now m' mb fs))"

section \<open>The store of mailboxes\<close>

record mailbox_store =
  bsBasePath :: string
  bsUsers :: "string \<rightharpoonup> mailbox"

definition NewMailboxStore :: "string \<Rightarrow> mailbox_store" where
  "NewMailboxStore base = \<lparr>bsBasePath = base, bsUsers = Map.empty\<rparr>"

text \<open>\<open>GetOrCreateMailbox\<close>: \<open>unix\<close> is the current Unix time, \<open>mkdir_ok\<close> the outcome of creating the directories.\<close>

definition GetOrCreateMailbox :: "bool \<Rightarrow> u32 \<Rightarrow> string \<Rightarrow> mailbox_store \<Rightarrow> mailbox option \<times> mailbox_store" where
  "GetOrCreateMailbox mkdir_ok unix user s =
     (case bsUsers s user of
        Some m \<Rightarrow> (Some m, s)
      | None \<Rightarrow>
          if \<not> mkdir_ok then (None, s)
          else let m = \<lparr>mbName = user, mbPath = path_join (bsBasePath s) user, mbUIDValidity = unix, mbUIDNext = 1, mbMessages = []\<rparr>
               in (Some m, s\<lparr>bsUsers := (bsUsers s)(user \<mapsto> m)\<rparr>))"

section \<open>Identifiers\<close>

text \<open>
  The UIDs of a mailbox ascend and stay below the next one. The 32-bit counter must not run out, so the
  invariant carries the room that is left.
\<close>

definition mailbox_ok :: "nat \<Rightarrow> mailbox \<Rightarrow> bool" where
  "mailbox_ok room mb \<longleftrightarrow> sorted_wrt (<) (map maUID (mbMessages mb)) \<and> (\<forall>m\<in>set (mbMessages mb). maUID m < mbUIDNext mb)
     \<and> unat (mbUIDNext mb) + room < 2 ^ 32"

lemma word_succ:
  assumes "unat (w :: u32) + Suc n < 2 ^ 32"
  shows "w < w + 1 \<and> unat (w + 1) = unat w + 1"
proof -
  have "unat (w + 1) = unat w + 1" using assms by (simp add: unat_word_ariths)
  then show ?thesis by (simp add: word_less_nat_alt)
qed

lemma mailbox_ok_append:
  assumes "mailbox_ok (Suc room) mb" "maUID m = mbUIDNext mb"
  shows "mailbox_ok room (mb\<lparr>mbUIDNext := mbUIDNext mb + 1, mbMessages := mbMessages mb @ [m]\<rparr>)"
proof -
  have nxt: "mbUIDNext mb < mbUIDNext mb + 1" "unat (mbUIDNext mb + 1) = unat (mbUIDNext mb) + 1"
    using word_succ [of "mbUIDNext mb" room] assms(1) by (simp_all add: mailbox_ok_def)
  have "maUID x < mbUIDNext mb + 1" if "maUID x < mbUIDNext mb" for x :: mail using that nxt(1) by (rule order.strict_trans)
  with assms nxt show ?thesis by (auto simp: mailbox_ok_def sorted_wrt_append)
qed

lemma mailbox_ok_skip: "mailbox_ok (Suc room) mb \<Longrightarrow> mailbox_ok room (mb\<lparr>mbUIDNext := mbUIDNext mb + 1\<rparr>)"
proof -
  assume ok: "mailbox_ok (Suc room) mb"
  then have nxt: "mbUIDNext mb < mbUIDNext mb + 1" "unat (mbUIDNext mb + 1) = unat (mbUIDNext mb) + 1"
    using word_succ [of "mbUIDNext mb" room] by (simp_all add: mailbox_ok_def)
  have "maUID x < mbUIDNext mb + 1" if "maUID x < mbUIDNext mb" for x :: mail using that nxt(1) by (rule order.strict_trans)
  with ok nxt show ?thesis by (auto simp: mailbox_ok_def)
qed

lemma mailbox_ok_mono: "mailbox_ok (Suc room) mb \<Longrightarrow> mailbox_ok room mb"
  by (simp add: mailbox_ok_def)

lemma mailbox_ok_filter: "mailbox_ok room mb \<Longrightarrow> mailbox_ok room (mb\<lparr>mbMessages := filter P (mbMessages mb)\<rparr>)"
  by (auto simp: mailbox_ok_def sorted_wrt_map intro: sorted_wrt_filter)

lemma mailbox_ok_remove:
  assumes "mailbox_ok room mb"
  shows "mailbox_ok room (mb\<lparr>mbMessages := take i (mbMessages mb) @ drop (Suc i) (mbMessages mb)\<rparr>)"
proof (cases "i < length (mbMessages mb)")
  case True
  have ms: "mbMessages mb = take i (mbMessages mb) @ mbMessages mb ! i # drop (Suc i) (mbMessages mb)"
    using True by (rule id_take_nth_drop)
  from assms have "sorted_wrt (<) (map maUID (take i (mbMessages mb) @ mbMessages mb ! i # drop (Suc i) (mbMessages mb)))"
    unfolding mailbox_ok_def using ms by simp
  then have "sorted_wrt (<) (map maUID (take i (mbMessages mb) @ drop (Suc i) (mbMessages mb)))"
    by (simp add: sorted_wrt_append)
  with assms show ?thesis by (auto simp: mailbox_ok_def dest: in_set_takeD in_set_dropD)
qed (use assms in simp)

lemma MoveToCur_ok: "mailbox_ok room mb \<Longrightarrow> MoveToCur ok i flags mb fs = (e, mb', fs') \<Longrightarrow> mailbox_ok room mb'"
proof -
  assume ok: "mailbox_ok room mb" and move: "MoveToCur ok i flags mb fs = (e, mb', fs')"
  from move have "mbUIDNext mb' = mbUIDNext mb" "map maUID (mbMessages mb') = map maUID (mbMessages mb)"
    by (auto simp: MoveToCur_def Let_def map_update list_update_same_conv split: if_splits)
  moreover from this(2) have "maUID ` set (mbMessages mb') = maUID ` set (mbMessages mb)" by (metis set_map)
  ultimately show ?thesis using ok by (simp add: mailbox_ok_def) (metis imageE imageI)
qed

lemma DeleteMessage_ok: "mailbox_ok room mb \<Longrightarrow> DeleteMessage i mb fs = (e, mb', fs') \<Longrightarrow> mailbox_ok room mb'"
  using mailbox_ok_remove [of room mb i] by (auto simp: DeleteMessage_def Let_def split: if_splits)

lemma Expunge_ok: "mailbox_ok room mb \<Longrightarrow> Expunge mb fs = (gone, mb', fs') \<Longrightarrow> mailbox_ok room mb'"
  by (auto simp: Expunge_def Let_def mailbox_ok_filter)

lemma StoreMessage_ok: "mailbox_ok (Suc room) mb \<Longrightarrow> StoreMessage fn fd order io now msg mb fs = (e, m, mb', fs') \<Longrightarrow> mailbox_ok room mb'"
  using mailbox_ok_append [of room mb] mailbox_ok_skip [of room mb]
  by (auto simp: StoreMessage_def Let_def split: mail_io.splits)

lemma readMessageFile_flags [simp]: "maFlags (readMessageFile parse_name name content) = 0"
proof -
  have h: "maFlags (header_line pd l m) = maFlags m" for pd l m
    by (auto simp: header_line_def Let_def split: list.split option.split)
  have "maFlags (fst (parse_headers pd ls m)) = maFlags m" for pd ls m by (induction ls arbitrary: m) (simp_all add: h)
  from this [of "\<lambda>_. None" "fst (scan_lines content)" "empty_mail\<lparr>maReceived := parse_name name\<rparr>"] show ?thesis
    by (simp add: readMessageFile_def empty_mail_def case_prod_beta)
qed

lemma load_dir_ok:
  "mailbox_ok (room + length names) mb \<Longrightarrow> mailbox_ok room (load_dir parse_name dir fs names mb)
     \<and> mbUIDNext mb \<le> mbUIDNext (load_dir parse_name dir fs names mb)
     \<and> (\<exists>ms. mbMessages (load_dir parse_name dir fs names mb) = mbMessages mb @ ms
          \<and> (\<forall>m\<in>set ms. mbUIDNext mb \<le> maUID m \<and> maFlags m = 0))"
proof (induction names arbitrary: mb)
  case (Cons name names)
  show ?case
  proof (cases "fs (path_join dir name)")
    case None
    with Cons.IH [OF mailbox_ok_mono] Cons.prems show ?thesis by simp
  next
    case (Some content)
    let ?m = "(readMessageFile parse_name name content)\<lparr>maFilename := name, maMaildir := path_join dir name, maUID := mbUIDNext mb\<rparr>"
    let ?mb = "mb\<lparr>mbUIDNext := mbUIDNext mb + 1, mbMessages := mbMessages mb @ [?m]\<rparr>"
    have ok: "mailbox_ok (room + length names) ?mb" using Cons.prems by (intro mailbox_ok_append) simp_all
    have up: "mbUIDNext mb < mbUIDNext mb + 1"
      using word_succ [of "mbUIDNext mb" "room + length names"] Cons.prems by (simp add: mailbox_ok_def)
    from Cons.IH [OF ok] obtain ms where ms: "mailbox_ok room (load_dir parse_name dir fs names ?mb)"
      "mbUIDNext ?mb \<le> mbUIDNext (load_dir parse_name dir fs names ?mb)"
      "mbMessages (load_dir parse_name dir fs names ?mb) = mbMessages ?mb @ ms"
      "\<forall>m\<in>set ms. mbUIDNext ?mb \<le> maUID m \<and> maFlags m = 0" by blast
    have "mbMessages (load_dir parse_name dir fs names ?mb) = mbMessages mb @ ?m # ms" using ms(3) by simp
    moreover have "\<forall>m\<in>set (?m # ms). mbUIDNext mb \<le> maUID m \<and> maFlags m = 0"
      using ms(4) up by (auto intro: order.trans [OF less_imp_le])
    moreover have "mbUIDNext mb \<le> mbUIDNext (load_dir parse_name dir fs names ?mb)" using ms(2) up by simp
    ultimately show ?thesis using ms(1) Some by (simp only: load_dir.simps option.case) blast
  qed
qed simp

lemma LoadMessages_ok:
  assumes "mailbox_ok (room + length new + length cur) mb" "LoadMessages parse_name readdir fs mb = (None, mb')"
    and "readdir (path_join (mbPath mb) ''new'') = Some new" "readdir (path_join (mbPath mb) ''cur'') = Some cur"
  shows "mailbox_ok room mb' \<and> (\<forall>m\<in>set (mbMessages mb'). mbUIDNext mb \<le> maUID m \<and> maFlags m = 0)"
proof -
  let ?mb0 = "mb\<lparr>mbMessages := []\<rparr>"
  let ?mb1 = "load_dir parse_name (path_join (mbPath mb) ''new'') fs new ?mb0"
  have "mailbox_ok ((room + length cur) + length new) ?mb0" using assms(1) by (simp add: mailbox_ok_def)
  from load_dir_ok [OF this] obtain ms1 where l1: "mailbox_ok (room + length cur) ?mb1" "mbUIDNext mb \<le> mbUIDNext ?mb1"
    "mbMessages ?mb1 = ms1" "\<forall>m\<in>set ms1. mbUIDNext mb \<le> maUID m \<and> maFlags m = 0" by auto
  have mb': "mb' = load_dir parse_name (path_join (mbPath mb) ''cur'') fs cur ?mb1"
    using assms(2-4) by (simp add: LoadMessages_def Let_def)
  from load_dir_ok [OF l1(1)] obtain ms2 where "mailbox_ok room mb'" "mbMessages mb' = ms1 @ ms2"
    "\<forall>m\<in>set ms2. mbUIDNext ?mb1 \<le> maUID m \<and> maFlags m = 0" unfolding mb' l1(3) by blast
  with l1(2,4) show ?thesis by (auto intro: order.trans)
qed

text \<open>
  Selecting a mailbox renumbers it. Reading the maildir, which the IMAP server does at every \<open>SELECT\<close> and
  \<open>EXAMINE\<close>, gives every message a new UID above all those handed out before, although the UID validity
  stays the same, and forgets every flag a client has set.
\<close>

theorem mail_select_renumbers:
  assumes "mailbox_ok (room + length new + length cur) mb" "LoadMessages parse_name readdir fs mb = (None, mb')"
    and "readdir (path_join (mbPath mb) ''new'') = Some new" "readdir (path_join (mbPath mb) ''cur'') = Some cur"
  shows "mailbox_ok room mb' \<and> set (mbMessages mb') \<subseteq> {m. maFlags m = 0}
    \<and> (case GetByUID uid mb of Some _ \<Rightarrow> GetByUID uid mb' = None | None \<Rightarrow> True)"
proof -
  have l: "mailbox_ok room mb'" "\<forall>m\<in>set (mbMessages mb'). mbUIDNext mb \<le> maUID m \<and> maFlags m = 0"
    using LoadMessages_ok [OF assms] by simp_all
  have "GetByUID uid mb' = None" if "GetByUID uid mb = Some m" for m
  proof -
    have "uid < mbUIDNext mb" using that assms(1) by (auto simp: GetByUID_def find_Some_iff mailbox_ok_def)
    then have "\<forall>m\<in>set (mbMessages mb'). maUID m \<noteq> uid" using l(2) by fastforce
    then show ?thesis by (simp add: GetByUID_def find_None_iff)
  qed
  with l show ?thesis by (auto split: option.split)
qed

text \<open>A maildir with one message, for the witness.\<close>

definition demo_mailbox :: mailbox where
  "demo_mailbox = \<lparr>mbName = ''al'', mbPath = ''/m/al'', mbUIDValidity = 7, mbUIDNext = 2,
     mbMessages = [empty_mail\<lparr>maUID := 1, maFlags := FlagSeen\<rparr>]\<rparr>"

theorem mail_select_renumbers_witness:
  "let mb' = snd (LoadMessages (\<lambda>_. 5) (\<lambda>d. Some (if d = ''/m/al/new'' then [''t.al''] else [])) [''/m/al/new/t.al'' \<mapsto> ''Subject: x''] demo_mailbox)
   in length (mbMessages mb') = 1 \<and> GetByUID 1 demo_mailbox \<noteq> None \<and> GetByUID 1 mb' = None"
proof -
  let ?rd = "\<lambda>d. Some (if d = ''/m/al/new'' then [''t.al''] else [])" and ?fs = "[''/m/al/new/t.al'' \<mapsto> ''Subject: x'']"
  let ?L = "LoadMessages (\<lambda>_. 5) ?rd ?fs demo_mailbox"
  have "fst ?L = None" "length (mbMessages (snd ?L)) = 1" "map_option maUID (GetByUID 1 demo_mailbox) = Some 1"
    "?rd (path_join (mbPath demo_mailbox) ''new'') = Some [''t.al'']" "?rd (path_join (mbPath demo_mailbox) ''cur'') = Some []"
    by code_simp+
  moreover have "mailbox_ok (0 + length [''t.al''] + length ([] :: string list)) demo_mailbox"
    by (simp add: mailbox_ok_def demo_mailbox_def)
  ultimately show ?thesis
    using mail_select_renumbers [of 0 "[''t.al'']" "[]" demo_mailbox "\<lambda>_. 5" ?rd ?fs "snd ?L" 1]
    by (auto simp: Let_def prod_eq_iff split: option.splits)
qed

text \<open>
  Storing twice in the same instant loses a message. The file name is made of the time and the mailbox name
  only, so the second file replaces the first, although both calls succeed and the mailbox lists both.
\<close>

theorem mail_same_instant_overwrites:
  assumes "StoreMessage fn fd o1 IoOk now m1 mb fs = (e1, m1', mb1, fs1)" "StoreMessage fn fd o2 IoOk now m2 mb1 fs1 = (e2, m2', mb2, fs2)"
  shows "e1 = None \<and> e2 = None \<and> mbMessages mb2 = mbMessages mb @ [m1', m2'] \<and> maMaildir m1' = maMaildir m2'
    \<and> fs2 (maMaildir m1') = Some (Mail_String fd o2 (m2'\<lparr>maMaildir := maMaildir m2\<rparr>))"
  using assms by (auto simp: StoreMessage_def Let_def FormatMaildirName_def maildir_file_def)

end
