(* ===== verification/Email_Smtp.thy ===== *)
theory Email_Smtp
  imports Email_Mailbox Sec_PoW
begin

text \<open>
  The SMTP server (\<open>pkg/services/email/smtp.go\<close>), its credentials (\<open>types.go\<close>), the spam checks and the proof of
  work of messages (\<open>antispam.go\<close>). A connection is the list of lines the client sends, ended by the end of the
  stream; the result is the list of reply lines, the last state of the session and what was delivered.
  PBKDF2, HMAC-MD5, base64 and the reading of a spam score are parameters, as are the clock, the random
  identifiers and the outcomes of the file operations, one per stored message.
\<close>

section \<open>Credentials\<close>

record credential =
  cdSalt :: bytes
  cdHashed :: bytes

type_synonym credential_store = "string \<rightharpoonup> credential"

definition SetCredential :: "(string \<Rightarrow> bytes \<Rightarrow> bytes) \<Rightarrow> bytes \<Rightarrow> string \<Rightarrow> string \<Rightarrow> credential_store \<Rightarrow> credential_store option" where
  "SetCredential pbkdf2 salt user pass st =
     (if user = [] \<or> pass = [] then None else Some (st(user \<mapsto> \<lparr>cdSalt = salt, cdHashed = pbkdf2 pass salt\<rparr>)))"

definition Credential_Verify :: "(string \<Rightarrow> bytes \<Rightarrow> bytes) \<Rightarrow> credential_store \<Rightarrow> string \<Rightarrow> string \<Rightarrow> bool" where
  "Credential_Verify pbkdf2 st user pass =
     (case st user of None \<Rightarrow> False | Some e \<Rightarrow> pbkdf2 pass (cdSalt e) = cdHashed e)"

lemma credential_roundtrip:
  "SetCredential pbkdf2 salt user pass st = Some st' \<Longrightarrow>
     Credential_Verify pbkdf2 st' user p \<longleftrightarrow> pbkdf2 p salt = pbkdf2 pass salt"
  by (auto simp: SetCredential_def Credential_Verify_def split: if_splits)

section \<open>Spam\<close>

record pow_checker =
  pkDifficulty :: int
  pkNonces :: "string \<rightharpoonup> gotime"

definition NewPoWChecker :: "int \<Rightarrow> pow_checker" where
  "NewPoWChecker difficulty = \<lparr>pkDifficulty = difficulty, pkNonces = Map.empty\<rparr>"

definition pow_window :: duration where "pow_window = 5 * 60 * 1000000000"

definition zero_bits_ok :: "(bytes \<Rightarrow> bytes) \<Rightarrow> int \<Rightarrow> string \<Rightarrow> bool" where
  "zero_bits_ok sha3 difficulty data \<longleftrightarrow> int (leadingZeroBits (sha3 (str_bytes data))) \<ge> difficulty"

definition Email_VerifyPoW :: "(bytes \<Rightarrow> bytes) \<Rightarrow> gotime \<Rightarrow> gotime \<Rightarrow> string \<Rightarrow> string \<Rightarrow> pow_checker \<Rightarrow> bool \<times> pow_checker" where
  "Email_VerifyPoW sha3 now now' email nonce p =
     (if (case pkNonces p nonce of Some t \<Rightarrow> time_sub now t < pow_window | None \<Rightarrow> False) then (False, p)
      else let p' = p\<lparr>pkNonces := (pkNonces p)(nonce := None)\<rparr>
           in if zero_bits_ok sha3 (pkDifficulty p) (email @ nonce)
              then (True, p'\<lparr>pkNonces := (pkNonces p')(nonce \<mapsto> now')\<rparr>) else (False, p'))"

text \<open>\<open>GeneratePoW\<close> tries counters without end; the first argument bounds how many, and \<open>None\<close> is a search that goes on.\<close>

fun GeneratePoW :: "nat \<Rightarrow> (bytes \<Rightarrow> bytes) \<Rightarrow> bytes \<Rightarrow> nat \<Rightarrow> string \<Rightarrow> pow_checker \<Rightarrow> string option" where
  "GeneratePoW 0 sha3 rand i email p = None"
| "GeneratePoW (Suc n) sha3 rand i email p =
     (let candidate = hex_encode rand @ ''-'' @ nat_dec i
      in if zero_bits_ok sha3 (pkDifficulty p) (email @ candidate) then Some candidate else GeneratePoW n sha3 rand (Suc i) email p)"

definition Cleanup :: "gotime \<Rightarrow> pow_checker \<Rightarrow> pow_checker" where
  "Cleanup now p =
     p\<lparr>pkNonces := (\<lambda>n. case pkNonces p n of Some t \<Rightarrow> if time_sub now t > pow_window then None else Some t | None \<Rightarrow> None)\<rparr>"

definition SetDifficulty :: "int \<Rightarrow> pow_checker \<Rightarrow> pow_checker" where
  "SetDifficulty d p = p\<lparr>pkDifficulty := d\<rparr>"

definition IsSpam :: "(string \<Rightarrow> bool) \<Rightarrow> mail \<Rightarrow> bool" where
  "IsSpam score_above m \<longleftrightarrow>
     (\<exists>h\<in>set [''X-Spam-Flag'', ''X-Spam-Status'']. case maHeaders m h of Some v \<Rightarrow> Contains (ToLower v) ''yes'' | None \<Rightarrow> False)
     \<or> (case maHeaders m ''X-Spam-Score'' of Some v \<Rightarrow> score_above v | None \<Rightarrow> False)"

record rate_limiter =
  rlEmails :: "string \<rightharpoonup> gotime list"
  rlLimit :: int
  rlWindow :: duration

definition NewRateLimiter :: "int \<Rightarrow> duration \<Rightarrow> rate_limiter" where
  "NewRateLimiter limit window = \<lparr>rlEmails = Map.empty, rlLimit = limit, rlWindow = window\<rparr>"

definition Allow :: "gotime \<Rightarrow> string \<Rightarrow> rate_limiter \<Rightarrow> bool \<times> rate_limiter" where
  "Allow now sender r =
     (let recent = filter (\<lambda>t. time_sub now t \<le> rlWindow r) (case rlEmails r sender of Some ts \<Rightarrow> ts | None \<Rightarrow> [])
      in if int (length recent) \<ge> rlLimit r then (False, r)
         else (True, r\<lparr>rlEmails := (rlEmails r)(sender \<mapsto> recent @ [now])\<rparr>))"

definition Rate_Reset :: "string \<Rightarrow> rate_limiter \<Rightarrow> rate_limiter" where
  "Rate_Reset sender r = r\<lparr>rlEmails := (rlEmails r)(sender := None)\<rparr>"

section \<open>Sessions\<close>

datatype smtp_state = SMTPStateGreeting | SMTPStateEHLO | SMTPStateMAIL | SMTPStateRCPT | SMTPStateDATA | SMTPStateAUTH | SMTPStateQuit

record smtp_session =
  ssState :: smtp_state
  ssFrom :: string
  ssRecipients :: "string list"
  ssAuthUser :: string

definition new_session :: smtp_session where
  "new_session = \<lparr>ssState = SMTPStateGreeting, ssFrom = [], ssRecipients = [], ssAuthUser = []\<rparr>"

text \<open>
  The configuration. \<open>scCredentials\<close> is the verifier, if there is one, and \<open>scStore\<close> its entries when it is a
  \<open>CredentialStore\<close>. The remaining fields are what the environment answers while a command is handled: the clock, the
  random values, the decoders of the libraries and the outcomes of the file operations, one for each copy of the message.
\<close>

record smtp_config =
  scHostname :: string
  scAuthRequired :: bool
  scTLSEnabled :: bool
  scTLSHandshake :: "bool option"
  scCredentials :: "(string \<Rightarrow> string \<Rightarrow> bool) option"
  scStore :: "credential_store option"
  scBase64 :: "string \<Rightarrow> string \<times> bool"
  scEncode64 :: "string \<Rightarrow> string"
  scHmacMD5 :: "bytes \<Rightarrow> string \<Rightarrow> bytes"
  scRandom :: string
  scScoreAbove :: "string \<Rightarrow> bool"
  scParseDate :: "string \<Rightarrow> gotime option"
  scFormatDate :: "gotime \<Rightarrow> string"
  scFormatName :: "gotime \<Rightarrow> string"
  scHeaderOrder :: "mail \<Rightarrow> string list"
  scSha3 :: "bytes \<Rightarrow> bytes"
  scMsgID :: string
  scNow :: gotime
  scStoreNow :: "nat \<Rightarrow> gotime"
  scUnix :: u32
  scMkdir :: "nat \<Rightarrow> bool"
  scIO :: "nat \<Rightarrow> mail_io"

record mail_world =
  mwStore :: mailbox_store
  mwFS :: mail_fs
  mwPoW :: "pow_checker option"

definition cmdEHLO :: "smtp_config \<Rightarrow> string \<Rightarrow> smtp_session \<Rightarrow> string list \<times> smtp_session" where
  "cmdEHLO cfg arg s =
     (if arg = [] then ([''501 Syntax: EHLO hostname''], s)
      else ([''250-'' @ scHostname cfg @ '' greets '' @ arg]
            @ (if scTLSEnabled cfg then [''250-STARTTLS''] else [])
            @ [''250-AUTH '' @ (if scCredentials cfg \<noteq> None then ''PLAIN LOGIN CRAM-MD5'' else ''PLAIN''), ''250-8BITMIME'', ''250 OK''],
            s\<lparr>ssState := SMTPStateEHLO\<rparr>))"

definition verifyCredentials :: "smtp_config \<Rightarrow> string \<Rightarrow> string \<Rightarrow> bool" where
  "verifyCredentials cfg user pass = (case scCredentials cfg of None \<Rightarrow> False | Some v \<Rightarrow> v user pass)"

definition verifyCramMD5 :: "smtp_config \<Rightarrow> string \<Rightarrow> string \<Rightarrow> string \<Rightarrow> bool" where
  "verifyCramMD5 cfg user challenge proof =
     (case scStore cfg of
        None \<Rightarrow> False
      | Some st \<Rightarrow>
          (case st user of
             None \<Rightarrow> False
           | Some e \<Rightarrow> hex_encode (scHmacMD5 cfg (cdHashed e) challenge) = proof))"

definition authenticated :: "string \<Rightarrow> smtp_session \<Rightarrow> smtp_session" where
  "authenticated user s = s\<lparr>ssAuthUser := user, ssState := SMTPStateAUTH\<rparr>"

text \<open>The end of each mechanism: the credentials are looked at only when authentication is required.\<close>

definition finish_auth :: "smtp_config \<Rightarrow> bool \<Rightarrow> string \<Rightarrow> smtp_session \<Rightarrow> string list \<times> smtp_session" where
  "finish_auth cfg good user s =
     (if scAuthRequired cfg \<and> \<not> good then ([''535 Authentication failed''], s) else ([''235 Authenticated''], authenticated user s))"

text \<open>A further line from the client; at the end of the stream it is empty.\<close>

definition next_line :: "string list \<Rightarrow> string \<times> string list" where
  "next_line ls = (case ls of [] \<Rightarrow> ([], []) | l # ls' \<Rightarrow> (TrimRight l crlf, ls'))"

definition cmdAUTH :: "smtp_config \<Rightarrow> string \<Rightarrow> string list \<Rightarrow> smtp_session \<Rightarrow> string list \<times> smtp_session \<times> string list" where
  "cmdAUTH cfg arg ls s =
     (let parts = splitN (CHR '' '') 2 arg; mechanism = ToUpper (hd parts); param = (if length parts > 1 then parts ! 1 else [])
      in if mechanism = ''PLAIN''
         then (case scBase64 cfg param of
                 (_, False) \<Rightarrow> ([''501 Invalid base64''], s, ls)
               | (data, True) \<Rightarrow>
                   (case splitN (CHR 0x00) 3 data of
                      [_, user, pass] \<Rightarrow> (case finish_auth cfg (verifyCredentials cfg user pass) user s of (out, s') \<Rightarrow> (out, s', ls))
                    | _ \<Rightarrow> ([''501 Invalid auth data''], s, ls)))
         else if mechanism = ''LOGIN''
         then (if param = []
               then (case next_line ls of (user, ls1) \<Rightarrow>
                     (case next_line ls1 of (pass, ls2) \<Rightarrow>
                      (case finish_auth cfg (verifyCredentials cfg user pass) user s of
                         (out, s') \<Rightarrow> ([''334 VXNlcm5hbWU6'', ''334 UGFzc3dvcmQ6''] @ out, s', ls2))))
               else (let user = fst (scBase64 cfg param)
                     in case next_line ls of (pass, ls1) \<Rightarrow>
                        (case finish_auth cfg (verifyCredentials cfg user pass) user s of
                           (out, s') \<Rightarrow> ([''334 UGFzc3dvcmQ6''] @ out, s', ls1))))
         else if mechanism = ''CRAM-MD5''
         then (let challenge = ''<'' @ scRandom cfg @ ''@'' @ scHostname cfg @ ''>''
               in case next_line ls of (response, ls1) \<Rightarrow>
                  (case splitN (CHR '' '') 2 (fst (scBase64 cfg response)) of
                     [user, proof] \<Rightarrow>
                       (case finish_auth cfg (verifyCramMD5 cfg user challenge proof) user s of
                          (out, s') \<Rightarrow> ([''334 '' @ scEncode64 cfg challenge] @ out, s', ls1))
                   | _ \<Rightarrow> ([''334 '' @ scEncode64 cfg challenge, ''501 Invalid auth data''], s, ls1)))
         else ([''504 Unsupported AUTH mechanism''], s, ls))"

definition address :: "string \<Rightarrow> string" where
  "address s = Trim (TrimSpace s) ''<>''"

definition cmdMAIL :: "string \<Rightarrow> smtp_session \<Rightarrow> string list \<times> smtp_session" where
  "cmdMAIL arg s =
     (if ssState s \<notin> {SMTPStateEHLO, SMTPStateAUTH, SMTPStateMAIL, SMTPStateRCPT} then ([''503 Bad sequence of commands''], s)
      else if \<not> HasPrefix (ToUpper arg) ''FROM:'' then ([''501 Syntax: MAIL FROM:<address>''], s)
      else ([''250 OK''], s\<lparr>ssFrom := address (drop 5 arg), ssState := SMTPStateMAIL\<rparr>))"

definition cmdRCPT :: "string \<Rightarrow> smtp_session \<Rightarrow> string list \<times> smtp_session" where
  "cmdRCPT arg s =
     (if ssState s \<notin> {SMTPStateMAIL, SMTPStateRCPT} then ([''503 Bad sequence of commands''], s)
      else if \<not> HasPrefix (ToUpper arg) ''TO:'' then ([''501 Syntax: RCPT TO:<address>''], s)
      else ([''250 OK''], s\<lparr>ssRecipients := ssRecipients s @ [address (drop 3 arg)], ssState := SMTPStateRCPT\<rparr>))"

text \<open>The text up to the line with a single dot and the lines behind it; \<open>None\<close> when the stream ends before.\<close>

fun read_data :: "string list \<Rightarrow> (string \<times> string list) option" where
  "read_data [] = None"
| "read_data (l # ls) =
     (let line = TrimRight l crlf
      in if line = ''.'' then Some ([], ls)
         else map_option (apfst (append ((if HasPrefix line ''..'' then drop 1 line else line) @ crlf))) (read_data ls))"

text \<open>One copy of the message per recipient with a user and a host part; \<open>k\<close> counts the stored copies.\<close>

fun deliver_all :: "smtp_config \<Rightarrow> mail \<Rightarrow> nat \<Rightarrow> string list \<Rightarrow> mail_world \<Rightarrow> mail_world" where
  "deliver_all cfg msg k [] w = w"
| "deliver_all cfg msg k (rcpt # rcpts) w =
     deliver_all cfg msg (Suc k) rcpts
       (case splitN (CHR ''@'') 2 rcpt of
          [user, _] \<Rightarrow>
            (case GetOrCreateMailbox (scMkdir cfg k) (scUnix cfg) user (mwStore w) of
               (None, st) \<Rightarrow> w\<lparr>mwStore := st\<rparr>
             | (Some mb, st) \<Rightarrow>
                 (case StoreMessage (scFormatName cfg) (scFormatDate cfg) (scHeaderOrder cfg msg) (scIO cfg k) (scStoreNow cfg k) msg mb (mwFS w) of
                    (_, _, mb', fs) \<Rightarrow> w\<lparr>mwStore := st\<lparr>bsUsers := (bsUsers st)(user \<mapsto> mb')\<rparr>, mwFS := fs\<rparr>))
        | _ \<Rightarrow> w)"

definition received_header :: "smtp_config \<Rightarrow> smtp_session \<Rightarrow> string" where
  "received_header cfg s = ''from '' @ ssFrom s @ '' by '' @ scHostname cfg @ '' with ESMTP''"

text \<open>The message as it is stored: the envelope replaces what the headers say.\<close>

definition stamp_mail :: "smtp_config \<Rightarrow> smtp_session \<Rightarrow> mail \<Rightarrow> mail" where
  "stamp_mail cfg s m = m\<lparr>maFrom := ssFrom s, maTo := ssRecipients s, maID := scMsgID cfg, maReceived := scNow cfg,
     maHeaders := (maHeaders m)(''Received'' \<mapsto> received_header cfg s)\<rparr>"

definition check_pow :: "smtp_config \<Rightarrow> mail \<Rightarrow> mail_world \<Rightarrow> bool \<times> mail_world" where
  "check_pow cfg m w =
     (case (mwPoW w, maHeaders m ''X-PoW'') of
        (Some p, Some v) \<Rightarrow>
          (case splitN (CHR '':'') 2 v of
             [_, nonce] \<Rightarrow>
               (case Email_VerifyPoW (scSha3 cfg) (scNow cfg) (scNow cfg) (maFrom m) (TrimSpace nonce) p of (ok, p') \<Rightarrow> (ok, w\<lparr>mwPoW := Some p'\<rparr>))
           | _ \<Rightarrow> (True, w))
      | _ \<Rightarrow> (True, w))"

text \<open>\<open>cmdDATA\<close>: replies, session, world and the lines left; \<open>None\<close> when the stream ends inside the message.\<close>

definition cmdDATA ::
  "smtp_config \<Rightarrow> string list \<Rightarrow> smtp_session \<Rightarrow> mail_world \<Rightarrow> (string list \<times> smtp_session \<times> mail_world \<times> string list) option" where
  "cmdDATA cfg ls s w =
     (if ssState s \<noteq> SMTPStateRCPT then Some ([''503 Bad sequence of commands''], s, w, ls)
      else case read_data ls of
             None \<Rightarrow> None
           | Some (text, rest) \<Rightarrow>
               let start = ''354 Start mail input; end with <CRLF>.<CRLF>''
               in (case Mail_ParseMessage (scParseDate cfg) (scNow cfg) text of
                     None \<Rightarrow> Some ([start, ''550 Failed to parse message''], s, w, rest)
                   | Some parsed \<Rightarrow>
                       let m = stamp_mail cfg s parsed
                       in (case check_pow cfg m w of
                             (False, w') \<Rightarrow> Some ([start, ''550 PoW verification failed''], s, w', rest)
                           | (True, w') \<Rightarrow>
                               if IsSpam (scScoreAbove cfg) m then Some ([start, ''550 Message rejected as spam''], s, w', rest)
                               else Some ([start, ''250 Message accepted''], s\<lparr>ssState := SMTPStateMAIL\<rparr>,
                                          deliver_all cfg m 0 (ssRecipients s) w', rest))))"

definition cmdRSET :: "smtp_session \<Rightarrow> string list \<times> smtp_session" where
  "cmdRSET s = ([''250 OK''], s\<lparr>ssFrom := [], ssRecipients := [], ssState := SMTPStateEHLO\<rparr>)"

definition smtp_handleCommand ::
  "smtp_config \<Rightarrow> string \<Rightarrow> string list \<Rightarrow> smtp_session \<Rightarrow> mail_world \<Rightarrow> (string list \<times> smtp_session \<times> mail_world \<times> string list) option" where
  "smtp_handleCommand cfg line ls s w =
     (let parts = splitN (CHR '' '') 2 line; cmd = ToUpper (hd parts); arg = (if length parts > 1 then parts ! 1 else []);
          plain = (\<lambda>(out, s'). Some (out, s', w, ls))
      in if cmd = ''EHLO'' \<or> cmd = ''HELO'' then plain (cmdEHLO cfg arg s)
         else if cmd = ''AUTH'' then (case cmdAUTH cfg arg ls s of (out, s', ls') \<Rightarrow> Some (out, s', w, ls'))
         else if cmd = ''MAIL'' then plain (cmdMAIL arg s)
         else if cmd = ''RCPT'' then plain (cmdRCPT arg s)
         else if cmd = ''DATA'' then cmdDATA cfg ls s w
         else if cmd = ''RSET'' then plain (cmdRSET s)
         else if cmd = ''NOOP'' then plain ([''250 OK''], s)
         else if cmd = ''QUIT'' then plain ([''221 Bye''], s\<lparr>ssState := SMTPStateQuit\<rparr>)
         else plain ([''500 Unknown command''], s))"

section \<open>Connections\<close>

lemma next_line_length: "next_line ls = (l, ls') \<Longrightarrow> length ls' \<le> length ls"
  by (auto simp: next_line_def split: list.splits)

lemma read_data_length: "read_data ls = Some (d, rest) \<Longrightarrow> length rest < length ls"
  by (induction ls arbitrary: d) (fastforce simp: Let_def split: if_splits)+

lemma cmdAUTH_length: "cmdAUTH cfg arg ls s = (out, s', ls') \<Longrightarrow> length ls' \<le> length ls"
  unfolding cmdAUTH_def Let_def
  by (auto split: if_splits prod.splits bool.splits list.splits dest!: next_line_length)

lemma cmdDATA_length: "cmdDATA cfg ls s w = Some (out, s', w', ls') \<Longrightarrow> length ls' \<le> length ls"
  unfolding cmdDATA_def Let_def
  by (auto split: if_splits option.splits prod.splits bool.splits dest!: read_data_length)

lemma smtp_handleCommand_length:
  "smtp_handleCommand cfg line ls s w = Some (out, s', w', ls') \<Longrightarrow> length ls' \<le> length ls"
  unfolding smtp_handleCommand_def Let_def
  by (auto split: if_splits prod.splits dest: cmdAUTH_length cmdDATA_length)

definition replies :: "string list \<Rightarrow> string list \<times> 'a \<Rightarrow> string list \<times> 'a" where
  "replies out r = apfst (append out) r"

text \<open>
  The loop of \<open>handleConn\<close> on the lines the client sends. \<open>cfg n\<close> is the configuration, with the answers of the
  environment, when \<open>n\<close> more lines are to come.
\<close>

function (sequential) smtp_loop :: "(nat \<Rightarrow> smtp_config) \<Rightarrow> string list \<Rightarrow> smtp_session \<Rightarrow> mail_world \<Rightarrow> string list \<times> smtp_session \<times> mail_world" where
  "smtp_loop cfg [] s w = ([], s, w)"
| "smtp_loop cfg (l # ls) s w =
     (let line = TrimRight l crlf; c = cfg (length ls)
      in if line = [] then smtp_loop cfg ls s w
         else if ToUpper (hd (splitN (CHR '' '') 2 line)) = ''STARTTLS''
         then (if scTLSEnabled c \<and> scTLSHandshake c \<noteq> None
               then (if scTLSHandshake c = Some True
                     then replies [''220 Ready to start TLS''] (smtp_loop cfg ls (s\<lparr>ssState := SMTPStateEHLO\<rparr>) w)
                     else ([''220 Ready to start TLS''], s, w))
               else replies [''454 TLS not available''] (smtp_loop cfg ls s w))
         else (case smtp_handleCommand c line ls s w of
                 None \<Rightarrow> ([''354 Start mail input; end with <CRLF>.<CRLF>''], s, w)
               | Some (out, s', w', ls') \<Rightarrow>
                   if ssState s' = SMTPStateQuit then (out, s', w') else replies out (smtp_loop cfg ls' s' w')))"
  by pat_completeness auto
termination
  by (relation "measure (\<lambda>(_, ls, _, _). length ls)") (auto dest!: smtp_handleCommand_length)

definition smtp_handleConn :: "(nat \<Rightarrow> smtp_config) \<Rightarrow> string list \<Rightarrow> mail_world \<Rightarrow> string list \<times> smtp_session \<times> mail_world" where
  "smtp_handleConn cfg ls w =
     replies [''220 '' @ scHostname (cfg (length ls)) @ '' ESMTP LocalWEB''] (smtp_loop cfg ls new_session w)"

section \<open>The queue of undelivered mail\<close>

record queue_entry =
  qeID :: string
  qeMessage :: mail
  qeAttempts :: int
  qeMaxAttempts :: int
  qeNextRetry :: gotime

definition Queue_Add :: "queue_entry \<Rightarrow> queue_entry list \<Rightarrow> queue_entry list" where
  "Queue_Add e q = q @ [e]"

text \<open>The entry with attempts left that is due first; the clock is not looked at.\<close>

fun next_from :: "queue_entry option \<Rightarrow> queue_entry list \<Rightarrow> queue_entry option" where
  "next_from best [] = best"
| "next_from best (e # es) =
     (if qeAttempts e \<ge> qeMaxAttempts e then next_from best es
      else case best of None \<Rightarrow> next_from (Some e) es
           | Some b \<Rightarrow> next_from (Some (if qeNextRetry e < qeNextRetry b then e else b)) es)"

definition Queue_Next :: "queue_entry list \<Rightarrow> queue_entry option" where
  "Queue_Next q = next_from None q"

fun Queue_Remove :: "string \<Rightarrow> queue_entry list \<Rightarrow> queue_entry list" where
  "Queue_Remove i [] = []"
| "Queue_Remove i (e # es) = (if qeID e = i then es else e # Queue_Remove i es)"

definition Queue_Count :: "queue_entry list \<Rightarrow> nat" where
  "Queue_Count q = length q"

definition live :: "queue_entry \<Rightarrow> bool" where
  "live e \<longleftrightarrow> qeAttempts e < qeMaxAttempts e"

lemma next_from_best:
  "next_from best q = Some e \<Longrightarrow> (best = Some e \<or> e \<in> set q \<and> live e) \<and>
     (\<forall>x\<in>set q. live x \<longrightarrow> qeNextRetry e \<le> qeNextRetry x) \<and> (\<forall>b. best = Some b \<longrightarrow> qeNextRetry e \<le> qeNextRetry b)"
proof (induction best q rule: next_from.induct)
  case (2 best x es)
  show ?case
  proof (cases "qeAttempts x \<ge> qeMaxAttempts x")
    case True
    with 2 show ?thesis by (auto simp: live_def)
  next
    case False
    with 2 show ?thesis by (cases best) (auto simp: live_def split: if_splits intro: order_trans less_imp_le)
  qed
qed simp

lemma next_from_none: "next_from best q = None \<longleftrightarrow> best = None \<and> (\<forall>x\<in>set q. \<not> live x)"
  by (induction best q rule: next_from.induct) (auto simp: live_def split: option.splits)

text \<open>\<open>Next\<close> gives an entry whenever one has attempts left, and then the one that is due first.\<close>

lemma Queue_Next_spec:
  "(Queue_Next q = None \<longleftrightarrow> filter live q = []) \<and>
   (\<forall>e. Queue_Next q = Some e \<longrightarrow> e \<in> set (filter live q) \<and> (\<forall>x\<in>set (filter live q). qeNextRetry e \<le> qeNextRetry x))"
  using next_from_best [of None q] by (auto simp: Queue_Next_def next_from_none filter_empty_conv)

lemma Queue_Remove_count: "Queue_Count (Queue_Remove i q) = (if i \<in> set (map qeID q) then Queue_Count q - 1 else Queue_Count q)"
  by (induction q) (auto simp: Queue_Count_def in_set_conv_decomp)

end
