(* ===== verification/Email_Delivery.thy ===== *)
theory Email_Delivery
  imports Email_Smtp
begin

text \<open>
  What an SMTP connection does to the mailboxes. A mailbox changes only for a recipient that the client named, a
  transaction delivers the message as it was sent, and the recipients of one message stay for the next one. The
  rate limiter bounds the mails of a sender in every window, and a nonce of a proof of work is not used twice.
\<close>

section \<open>Who gets mail\<close>

text \<open>The users of a list of recipients, and the address that a line from the client adds to it.\<close>

definition rcpt_users :: "string list \<Rightarrow> string list" where
  "rcpt_users rs = concat (map (\<lambda>r. case splitN (CHR ''@'') 2 r of [u, _] \<Rightarrow> [u] | _ \<Rightarrow> []) rs)"

definition rcpt_arg :: "string \<Rightarrow> string list" where
  "rcpt_arg line = (case splitN (CHR '' '') 2 line of
     [c, arg] \<Rightarrow> if ToUpper c = ''RCPT'' \<and> HasPrefix (ToUpper arg) ''TO:'' then [address (drop 3 arg)] else [] | _ \<Rightarrow> [])"

definition named_recipient :: "string \<Rightarrow> string list" where
  "named_recipient l = rcpt_arg (TrimRight l crlf)"

lemma rcpt_users_Cons [simp]:
  "rcpt_users (r # rs) = (case splitN (CHR ''@'') 2 r of [u, _] \<Rightarrow> [u] | _ \<Rightarrow> []) @ rcpt_users rs" "rcpt_users [] = []"
  by (simp_all add: rcpt_users_def)

lemma rcpt_users_mono: "set rs \<subseteq> set rs' \<Longrightarrow> set (rcpt_users rs) \<subseteq> set (rcpt_users rs')"
  by (auto simp: rcpt_users_def)

lemma deliver_other [simp]: "u \<notin> set (rcpt_users rs) \<Longrightarrow> bsUsers (mwStore (deliver_all cfg m k rs w)) u = bsUsers (mwStore w) u"
  by (induction rs arbitrary: k w)
     (auto simp: GetOrCreateMailbox_def Let_def split: list.splits option.splits prod.splits)

lemma deliver_changed: "bsUsers (mwStore (deliver_all cfg m k rs w)) u \<noteq> bsUsers st u \<Longrightarrow> mwStore w = st \<Longrightarrow> u \<in> set (rcpt_users rs)"
  by (rule ccontr) simp

lemma deliver_mwPoW [simp]: "mwPoW (deliver_all cfg m k rs w) = mwPoW w"
  by (induction rs arbitrary: k w) (auto split: list.splits option.splits prod.splits)

lemma check_pow_mwStore: "check_pow cfg m w = (b, w') \<Longrightarrow> mwStore w' = mwStore w"
  by (auto simp: check_pow_def split: option.splits list.splits prod.splits)

lemma splitN_2_cases: obtains x where "splitN c 2 s = [x]" | x y where "splitN c 2 s = [x, y]"
  by (cases "cut_at c s") (auto simp: numeral_2_eq_2)

lemma finish_auth_recipients [simp]: "finish_auth cfg g u s = (out, s') \<Longrightarrow> ssRecipients s' = ssRecipients s"
  by (auto simp: finish_auth_def authenticated_def split: if_splits)

lemma next_line_subset: "next_line ls = (l, ls') \<Longrightarrow> set ls' \<subseteq> set ls"
  by (auto simp: next_line_def split: list.splits)

lemma read_data_subset: "read_data ls = Some (d, rest) \<Longrightarrow> set rest \<subseteq> set ls"
  by (induction ls arbitrary: d) (fastforce simp: Let_def split: if_splits)+

lemma cmdAUTH_keeps: "cmdAUTH cfg arg ls s = (out, s', ls') \<Longrightarrow> ssRecipients s' = ssRecipients s \<and> set ls' \<subseteq> set ls"
  unfolding cmdAUTH_def Let_def
  by (auto split: if_splits prod.splits bool.splits list.splits dest: finish_auth_recipients dest!: next_line_subset)

lemma cmdDATA_keeps:
  assumes "cmdDATA cfg ls s w = Some (out, s', w', ls')"
  shows "ssRecipients s' = ssRecipients s" "set ls' \<subseteq> set ls"
    "bsUsers (mwStore w') u \<noteq> bsUsers (mwStore w) u \<Longrightarrow> u \<in> set (rcpt_users (ssRecipients s)) \<and> ''250 Message accepted'' \<in> set out"
  using assms unfolding cmdDATA_def Let_def
  by (auto split: if_splits option.splits prod.splits bool.splits dest!: read_data_subset check_pow_mwStore
      dest: deliver_changed)

lemma smtp_handleCommand_keeps:
  assumes "smtp_handleCommand cfg line ls s w = Some (out, s', w', ls')"
  shows "set (ssRecipients s') \<subseteq> set (ssRecipients s) \<union> set (rcpt_arg line)" (is ?rcpt)
    and "set ls' \<subseteq> set ls" (is ?lines)
    and "bsUsers (mwStore w') u \<noteq> bsUsers (mwStore w) u \<Longrightarrow> u \<in> set (rcpt_users (ssRecipients s)) \<and> ''250 Message accepted'' \<in> set out"
proof -
  show ?rcpt
    using assms unfolding smtp_handleCommand_def Let_def
    by (cases rule: splitN_2_cases [of "CHR '' ''" line])
       (auto simp: cmdEHLO_def cmdMAIL_def cmdRCPT_def cmdRSET_def rcpt_arg_def HasPrefix_def ToUpper_def split: if_splits prod.splits
         dest!: cmdAUTH_keeps dest: cmdDATA_keeps)
  show ?lines
    using assms unfolding smtp_handleCommand_def Let_def
    by (auto split: if_splits prod.splits dest!: cmdAUTH_keeps dest: cmdDATA_keeps)
  show "u \<in> set (rcpt_users (ssRecipients s)) \<and> ''250 Message accepted'' \<in> set out"
    if "bsUsers (mwStore w') u \<noteq> bsUsers (mwStore w) u"
    using assms that unfolding smtp_handleCommand_def Let_def
    by (auto split: if_splits prod.splits dest: cmdDATA_keeps)
qed

lemma replies_simps [simp]: "fst (replies out r) = out @ fst r" "snd (replies out r) = snd r"
  by (simp_all add: replies_def)

lemma replies_append: "replies a (replies b r) = replies (a @ b) r"
  by (cases r) (simp add: replies_def)

lemma smtp_loop_only_named:
  assumes "set (ssRecipients s) \<union> (\<Union>l\<in>set ls. set (named_recipient l)) \<subseteq> set A"
    and "smtp_loop cfg ls s w = (out, s', w')" and "bsUsers (mwStore w') u \<noteq> bsUsers (mwStore w) u"
  shows "u \<in> set (rcpt_users A) \<and> ''250 Message accepted'' \<in> set out"
  using assms
proof (induction cfg ls s w arbitrary: out rule: smtp_loop.induct)
  case (2 cfg l ls s w)
  let ?line = "TrimRight l crlf"
  let ?tls = "ToUpper (hd (splitN (CHR '' '') 2 ?line)) = ''STARTTLS''"
  show ?case
  proof (cases "?line = [] \<or> ?tls")
    case True
    with 2 show ?thesis
      by (auto simp: Let_def replies_def apfst_def map_prod_def ex_bool_eq split: if_splits prod.splits)
  next
    case False
    show ?thesis
    proof (cases "smtp_handleCommand (cfg (length ls)) ?line ls s w")
      case None
      with False "2.prems" show ?thesis by (simp add: Let_def)
    next
      case (Some r)
      obtain out1 s1 w1 ls1 where r: "r = (out1, s1, w1, ls1)" by (cases r)
      note keeps = smtp_handleCommand_keeps [OF Some [unfolded r]]
      have sub: "set (ssRecipients s1) \<union> (\<Union>l\<in>set ls1. set (named_recipient l)) \<subseteq> set A"
      proof -
        have own: "set (ssRecipients s) \<subseteq> set A" using "2.prems"(1) by auto
        have all: "set (named_recipient l') \<subseteq> set A" if "l' \<in> set (l # ls)" for l'
          using "2.prems"(1) that by auto
        have "set (ssRecipients s1) \<subseteq> set A"
          using keeps(1) own all [of l] unfolding named_recipient_def by (simp add: subset_iff) blast
        with keeps(2) all show ?thesis by (meson UN_least Un_least list.set_intros(2) subsetD)
      qed
      have here: "u \<in> set (rcpt_users A) \<and> ''250 Message accepted'' \<in> set out1"
        if "bsUsers (mwStore w1) u \<noteq> bsUsers (mwStore w) u"
        using keeps(3) [OF that] rcpt_users_mono [of "ssRecipients s" A] "2.prems"(1) by auto
      show ?thesis
      proof (cases "ssState s1 = SMTPStateQuit")
        case True
        with False Some r "2.prems" here show ?thesis by (simp add: Let_def)
      next
        case go: False
        obtain out2 where loop: "smtp_loop cfg ls1 s1 w1 = (out2, s', w')" and out: "out = out1 @ out2"
          using False Some r go "2.prems"(2)
          by (cases "smtp_loop cfg ls1 s1 w1") (auto simp: Let_def replies_def)
        have IH: "u \<in> set (rcpt_users A) \<and> ''250 Message accepted'' \<in> set out2"
          if "bsUsers (mwStore w') u \<noteq> bsUsers (mwStore w1) u"
          by (rule "2.IH"(4) [OF refl refl _ _ Some r [symmetric] refl refl go sub loop that]) (use False in auto)
        with here out "2.prems"(3) show ?thesis by (cases "bsUsers (mwStore w1) u = bsUsers (mwStore w) u") auto
      qed
    qed
  qed
qed simp


section \<open>Transactions\<close>

text \<open>A transaction as a client sends it: the lines of the message end with a carriage return and a newline, and a line that begins with a dot gets another one.\<close>

definition stuff :: "string \<Rightarrow> string" where
  "stuff l = (if HasPrefix l ''.'' then CHR ''.'' # l else l)"

definition transaction :: "string \<Rightarrow> string \<Rightarrow> string list \<Rightarrow> string list" where
  "transaction a r ls = map (\<lambda>l. l @ crlf) ([''MAIL FROM:<'' @ a @ ''>'', ''RCPT TO:<'' @ r @ ''>'', ''DATA''] @ map stuff ls @ [''.''])"

definition bare :: "string \<Rightarrow> bool" where
  "bare a \<longleftrightarrow> a = [] \<or> hd a \<notin> set ''<>'' \<and> last a \<notin> set ''<>''"

lemma TrimRight_crlf: "l = [] \<or> last l \<notin> set crlf \<Longrightarrow> TrimRight (l @ crlf) crlf = l"
  by (cases l rule: rev_cases) (auto simp: TrimRight_def crlf_def)

lemma address_brackets: "bare a \<Longrightarrow> address (''<'' @ a @ ''>'') = a"
proof -
  assume "bare a"
  have "TrimSpace (''<'' @ a @ ''>'') = ''<'' @ a @ ''>''" by (simp add: TrimSpace_def trim_by_id is_space_def)
  moreover have "Trim (''<'' @ a @ ''>'') ''<>'' = trim_by (\<lambda>c. c \<in> set ''<>'') a"
  proof -
    let ?P = "\<lambda>c. c \<in> set ''<>''"
    have front: "dropWhile ?P (''<'' @ a @ ''>'') = (if a = [] then [] else a @ ''>'')" and "dropWhile ?P a = a"
      using \<open>bare a\<close> by (cases a; auto simp: bare_def)+
    moreover have "dropWhile ?P (rev (a @ ''>'')) = dropWhile ?P (rev a)" by simp
    ultimately show ?thesis by (auto simp: Trim_def trim_by_def simp del: append_Cons)
  qed
  moreover have "trim_by (\<lambda>c. c \<in> set ''<>'') a = a" using \<open>bare a\<close> by (intro trim_by_id) (auto simp: bare_def)
  ultimately show ?thesis by (simp add: address_def)
qed

lemma plain_line_trim:
  assumes "plain_line l"
  shows "TrimRight (stuff l @ crlf) crlf = stuff l"
proof -
  have "last l \<noteq> CHR 0x0A" if "l \<noteq> []" using assms last_in_set [OF that] by (metis plain_line_def)
  with assms have "stuff l = [] \<or> last (stuff l) \<notin> set crlf" by (auto simp: stuff_def crlf_def plain_line_def HasPrefix_def)
  then show ?thesis by (rule TrimRight_crlf)
qed

text \<open>What arrives in the message is what the client stuffed.\<close>

lemma read_data_stuffed:
  assumes "list_all plain_line ls"
  shows "read_data (map (\<lambda>l. stuff l @ crlf) ls @ (''.'' @ crlf) # rest) = Some (concat (map (\<lambda>l. l @ crlf) ls), rest)"
  using assms
proof (induction ls)
  case Nil
  show ?case by (simp add: TrimRight_def crlf_def)
next
  case (Cons l ls)
  have dot: "stuff l \<noteq> ''.''" by (cases l) (auto simp: stuff_def HasPrefix_def)
  have "(if HasPrefix (stuff l) ''..'' then drop 1 (stuff l) else stuff l) = l"
    by (cases l) (auto simp: stuff_def HasPrefix_def)
  with Cons dot show ?case by (simp add: plain_line_trim)
qed

text \<open>The message that the transaction stands for, in the session and with the configuration of the DATA command.\<close>

definition tx_mail :: "smtp_config \<Rightarrow> smtp_session \<Rightarrow> string \<Rightarrow> string \<Rightarrow> string list \<Rightarrow> mail" where
  "tx_mail c s a r ls =
     stamp_mail c (s\<lparr>ssFrom := a, ssRecipients := ssRecipients s @ [r], ssState := SMTPStateRCPT\<rparr>)
       (the (Mail_ParseMessage (scParseDate c) (scNow c) (concat (map (\<lambda>l. l @ crlf) ls))))"

lemma parse_plain: "list_all plain_line ls \<Longrightarrow> Mail_ParseMessage pd now (concat (map (\<lambda>l. l @ crlf) ls)) \<noteq> None"
  by (simp add: Mail_ParseMessage_def scan_lines_crlf case_prod_beta)

definition ready :: "smtp_session \<Rightarrow> bool" where
  "ready s \<longleftrightarrow> ssState s \<in> {SMTPStateEHLO, SMTPStateAUTH, SMTPStateMAIL, SMTPStateRCPT}"

lemma smtp_loop_plain:
  assumes "TrimRight l crlf = line" "splitN (CHR '' '') 2 line = cmd # args" "ToUpper cmd \<noteq> ''STARTTLS''" "line \<noteq> []"
    and "smtp_handleCommand (cfg (length ls)) line ls s w = Some (out, s', w', ls')" "ssState s' \<noteq> SMTPStateQuit"
  shows "smtp_loop cfg (l # ls) s w = replies out (smtp_loop cfg ls' s' w')"
  using assms by (simp add: Let_def)

lemma splitN_command: "splitN (CHR '' '') 2 (''MAIL '' @ x) = [''MAIL'', x]" "splitN (CHR '' '') 2 (''RCPT '' @ x) = [''RCPT'', x]"
    "splitN (CHR '' '') 2 ''DATA'' = [''DATA'']"
  using splitN_two(1) [of "CHR '' ''" "''MAIL''" x] splitN_two(1) [of "CHR '' ''" "''RCPT''" x] splitN_two(2) [of "CHR '' ''" "''DATA''"] by simp_all

lemma ToUpper_simps [simp]: "ToUpper [] = []" "ToUpper (x # xs) = upper_char x # ToUpper xs" "ToUpper (xs @ ys) = ToUpper xs @ ToUpper ys"
  by (simp_all add: ToUpper_def)

lemma cmdMAIL_ready: "ready s \<Longrightarrow> bare a \<Longrightarrow> cmdMAIL (''FROM:<'' @ a @ ''>'') s = ([''250 OK''], s\<lparr>ssFrom := a, ssState := SMTPStateMAIL\<rparr>)"
  using address_brackets [of a] by (auto simp: cmdMAIL_def ready_def HasPrefix_def upper_char_def)

lemma cmdRCPT_mail: "ssState s = SMTPStateMAIL \<Longrightarrow> bare r \<Longrightarrow>
    cmdRCPT (''TO:<'' @ r @ ''>'') s = ([''250 OK''], s\<lparr>ssRecipients := ssRecipients s @ [r], ssState := SMTPStateRCPT\<rparr>)"
  using address_brackets [of r] by (auto simp: cmdRCPT_def HasPrefix_def upper_char_def)

lemma check_pow_off: "mwPoW w = None \<Longrightarrow> check_pow c m w = (True, w)"
  by (simp add: check_pow_def)

lemma cmdDATA_stuffed:
  assumes "ssState s = SMTPStateRCPT" "list_all plain_line ls" "mwPoW w = None"
    and m: "m = stamp_mail c s (the (Mail_ParseMessage (scParseDate c) (scNow c) (concat (map (\<lambda>l. l @ crlf) ls))))" and "\<not> IsSpam (scScoreAbove c) m"
  shows "cmdDATA c (map (\<lambda>l. stuff l @ crlf) ls @ (''.'' @ crlf) # rest) s w =
     Some ([''354 Start mail input; end with <CRLF>.<CRLF>'', ''250 Message accepted''], s\<lparr>ssState := SMTPStateMAIL\<rparr>, deliver_all c m 0 (ssRecipients s) w, rest)"
proof -
  obtain m0 where "Mail_ParseMessage (scParseDate c) (scNow c) (concat (map (\<lambda>l. l @ crlf) ls)) = Some m0"
    using parse_plain [OF assms(2)] by blast
  with assms show ?thesis by (simp add: cmdDATA_def read_data_stuffed [simplified] check_pow_off Let_def)
qed

text \<open>A whole transaction in any session that may begin one: the recipients of the session are kept, and the message goes to all of them.\<close>

lemma smtp_loop_transaction:
  assumes "ready s" "bare a" "bare r" "list_all plain_line ls" "mwPoW w = None"
    and c: "c = cfg (Suc (length ls + length rest))" and spam: "\<not> IsSpam (scScoreAbove c) (tx_mail c s a r ls)"
  shows "smtp_loop cfg (transaction a r ls @ rest) s w =
     replies [''250 OK'', ''250 OK'', ''354 Start mail input; end with <CRLF>.<CRLF>'', ''250 Message accepted'']
       (smtp_loop cfg rest (s\<lparr>ssFrom := a, ssRecipients := ssRecipients s @ [r], ssState := SMTPStateMAIL\<rparr>)
          (deliver_all c (tx_mail c s a r ls) 0 (ssRecipients s @ [r]) w))"
proof -
  let ?s1 = "s\<lparr>ssFrom := a, ssState := SMTPStateMAIL\<rparr>"
  let ?s2 = "s\<lparr>ssFrom := a, ssRecipients := ssRecipients s @ [r], ssState := SMTPStateRCPT\<rparr>"
  let ?s3 = "s\<lparr>ssFrom := a, ssRecipients := ssRecipients s @ [r], ssState := SMTPStateMAIL\<rparr>"
  let ?w = "deliver_all c (tx_mail c s a r ls) 0 (ssRecipients s @ [r]) w"
  define l1 where "l1 = ''MAIL FROM:<'' @ a @ ''>''"
  define l2 where "l2 = ''RCPT TO:<'' @ r @ ''>''"
  have trim: "TrimRight (l1 @ crlf) crlf = l1" "TrimRight (l2 @ crlf) crlf = l2" "TrimRight (''DATA'' @ crlf) crlf = ''DATA''"
    by (rule TrimRight_crlf, simp add: l1_def l2_def crlf_def)+
  define tl where "tl = map (\<lambda>l. stuff l @ crlf) ls @ (''.'' @ crlf) # rest"
  have lines: "transaction a r ls @ rest = (l1 @ crlf) # (l2 @ crlf) # (''DATA'' @ crlf) # tl"
    by (simp add: transaction_def tl_def l1_def l2_def)
  have "smtp_loop cfg ((l1 @ crlf) # (l2 @ crlf) # (''DATA'' @ crlf) # tl) s w
      = replies [''250 OK''] (smtp_loop cfg ((l2 @ crlf) # (''DATA'' @ crlf) # tl) ?s1 w)"
  proof (rule smtp_loop_plain)
    show "splitN (CHR '' '') 2 l1 = [''MAIL'', ''FROM:<'' @ a @ ''>'']" using splitN_command(1) [of "''FROM:<'' @ a @ ''>''"] by (simp add: l1_def)
    then show "smtp_handleCommand (cfg (length ((l2 @ crlf) # (''DATA'' @ crlf) # tl))) l1 ((l2 @ crlf) # (''DATA'' @ crlf) # tl) s w
        = Some ([''250 OK''], ?s1, w, (l2 @ crlf) # (''DATA'' @ crlf) # tl)"
      using cmdMAIL_ready [OF assms(1,2)] by (simp add: smtp_handleCommand_def upper_char_def)
  qed (simp_all add: trim upper_char_def l1_def [symmetric], simp add: l1_def)
  moreover have "smtp_loop cfg ((l2 @ crlf) # (''DATA'' @ crlf) # tl) ?s1 w = replies [''250 OK''] (smtp_loop cfg ((''DATA'' @ crlf) # tl) ?s2 w)"
  proof (rule smtp_loop_plain)
    show "splitN (CHR '' '') 2 l2 = [''RCPT'', ''TO:<'' @ r @ ''>'']" using splitN_command(2) [of "''TO:<'' @ r @ ''>''"] by (simp add: l2_def)
    then show "smtp_handleCommand (cfg (length ((''DATA'' @ crlf) # tl))) l2 ((''DATA'' @ crlf) # tl) ?s1 w
        = Some ([''250 OK''], ?s2, w, (''DATA'' @ crlf) # tl)"
      using cmdRCPT_mail [of ?s1, OF _ assms(3)] by (simp add: smtp_handleCommand_def upper_char_def)
  qed (simp_all add: trim upper_char_def l2_def [symmetric], simp add: l2_def)
  moreover have "smtp_loop cfg ((''DATA'' @ crlf) # tl) ?s2 w
      = replies [''354 Start mail input; end with <CRLF>.<CRLF>'', ''250 Message accepted''] (smtp_loop cfg rest ?s3 ?w)"
  proof (rule smtp_loop_plain)
    show "splitN (CHR '' '') 2 ''DATA'' = [''DATA'']" by (rule splitN_command(3))
    have "cfg (length tl) = c" by (simp add: c tl_def)
    then show "smtp_handleCommand (cfg (length tl)) ''DATA'' tl ?s2 w
        = Some ([''354 Start mail input; end with <CRLF>.<CRLF>'', ''250 Message accepted''], ?s3, ?w, rest)"
      using cmdDATA_stuffed [of ?s2 ls w "tx_mail c s a r ls" c rest] assms(4,5) spam
      by (simp add: smtp_handleCommand_def splitN_command(3) upper_char_def tl_def tx_mail_def)
  qed (use trim(3) in \<open>simp_all add: upper_char_def\<close>)
  ultimately show ?thesis by (simp only: lines replies_append append_Cons append_Nil)
qed

lemma deliver_one:
  assumes "CHR ''@'' \<notin> set u" "scMkdir c k" "scIO c k = IoOk"
    and "mb = (case bsUsers (mwStore w) u of Some b \<Rightarrow> b
               | None \<Rightarrow> \<lparr>mbName = u, mbPath = path_join (bsBasePath (mwStore w)) u, mbUIDValidity = scUnix c, mbUIDNext = 1, mbMessages = []\<rparr>)"
  obtains m' where "map_option mbMessages (bsUsers (mwStore (deliver_all c m k [u @ ''@'' @ h] w)) u) = Some (mbMessages mb @ [m'])"
    "maFrom m' = maFrom m" "maTo m' = maTo m" "maBody m' = maBody m" "maHeaders m' = maHeaders m" "maUID m' = mbUIDNext mb"
proof
  let ?name = "FormatMaildirName (scFormatName c) (scStoreNow c k) (maID m) (mbName mb)"
  let ?m = "m\<lparr>maFilename := ?name, maUID := mbUIDNext mb, maMaildir := maildir_file mb ''new'' ?name\<rparr>"
  have split: "splitN (CHR ''@'') 2 (u @ CHR ''@'' # h) = [u, h]" using splitN_two(1) [OF assms(1)] .
  show "map_option mbMessages (bsUsers (mwStore (deliver_all c m k [u @ ''@'' @ h] w)) u) = Some (mbMessages mb @ [?m])"
    using assms(2-4)
    by (cases "bsUsers (mwStore w) u") (auto simp: split GetOrCreateMailbox_def StoreMessage_def Let_def maildir_file_def)
qed simp_all

definition mailbox_of :: "string \<Rightarrow> mail_world \<Rightarrow> mail list" where
  "mailbox_of u w = (case bsUsers (mwStore w) u of None \<Rightarrow> [] | Some mb \<Rightarrow> mbMessages mb)"

lemma deliver_grows:
  assumes "CHR ''@'' \<notin> set u" "scMkdir c k" "scIO c k = IoOk"
  shows "\<exists>m'. mailbox_of u (deliver_all c m k [u @ ''@'' @ h] w) = mailbox_of u w @ [m'] \<and>
     maFrom m' = maFrom m \<and> maTo m' = maTo m \<and> maBody m' = maBody m"
proof -
  obtain m' where "map_option mbMessages (bsUsers (mwStore (deliver_all c m k [u @ ''@'' @ h] w)) u) =
      Some (mbMessages (case bsUsers (mwStore w) u of Some b \<Rightarrow> b
               | None \<Rightarrow> \<lparr>mbName = u, mbPath = path_join (bsBasePath (mwStore w)) u, mbUIDValidity = scUnix c, mbUIDNext = 1, mbMessages = []\<rparr>) @ [m'])"
    "maFrom m' = maFrom m" "maTo m' = maTo m" "maBody m' = maBody m"
    by (rule deliver_one [OF assms refl, where m = m and h = h]) blast
  then show ?thesis by (auto simp: mailbox_of_def split: option.splits)
qed

lemma parse_headers_body:
  "[] \<notin> set hs \<Longrightarrow> snd (parse_headers pd (hs @ [] # b) m) = b"
  by (induction hs arbitrary: m) auto

lemma tx_mail_fields:
  assumes "list_all plain_line (hs @ [] # b)" "[] \<notin> set hs"
  shows "maFrom (tx_mail c s a r (hs @ [] # b)) = a" "maTo (tx_mail c s a r (hs @ [] # b)) = ssRecipients s @ [r]"
    "maBody (tx_mail c s a r (hs @ [] # b)) = concat (map (\<lambda>l. l @ [CHR 0x0A]) b)"
  unfolding tx_mail_def stamp_mail_def Mail_ParseMessage_def scan_lines_crlf [OF assms(1)]
  by (simp_all add: case_prod_beta parse_headers_body [OF assms(2)])

lemma IsSpam_stamp_mail [simp]: "IsSpam f (stamp_mail c s m) = IsSpam f m"
  by (simp add: IsSpam_def stamp_mail_def)

text \<open>What the server makes of the text of a message.\<close>

definition parsed :: "smtp_config \<Rightarrow> string list \<Rightarrow> mail" where
  "parsed c ls = the (Mail_ParseMessage (scParseDate c) (scNow c) (concat (map (\<lambda>l. l @ crlf) ls)))"

definition hello :: "string \<Rightarrow> string" where
  "hello x = ''EHLO '' @ x @ crlf"

lemma smtp_loop_hello:
  assumes "x \<noteq> []" "last x \<notin> set crlf"
  shows "smtp_loop cfg (hello x # ls) s w = replies (fst (cmdEHLO (cfg (length ls)) x s)) (smtp_loop cfg ls (s\<lparr>ssState := SMTPStateEHLO\<rparr>) w)"
proof (rule smtp_loop_plain)
  show "TrimRight (hello x) crlf = ''EHLO '' @ x"
    using TrimRight_crlf [of "''EHLO '' @ x"] assms by (simp add: hello_def)
  show "splitN (CHR '' '') 2 (''EHLO '' @ x) = [''EHLO'', x]" using splitN_two(1) [of "CHR '' ''" "''EHLO''" x] by simp
  then show "smtp_handleCommand (cfg (length ls)) (''EHLO '' @ x) ls s w
      = Some (fst (cmdEHLO (cfg (length ls)) x s), s\<lparr>ssState := SMTPStateEHLO\<rparr>, w, ls)"
    using assms by (simp add: smtp_handleCommand_def upper_char_def cmdEHLO_def)
qed (simp_all add: upper_char_def)

lemma deliver_all_step: "deliver_all c m k (r # rs) w = deliver_all c m (Suc k) rs (deliver_all c m k [r] w)"
  by simp

lemma rcpt_users_at: "CHR ''@'' \<notin> set u \<Longrightarrow> rcpt_users [u @ ''@'' @ h] = [u]"
  using splitN_two(1) [of "CHR ''@''" u h] by simp


text \<open>
  The server does not forget the recipients of a message when it has accepted it. In a connection that carries two messages
  to different users, the first user gets the second message too, which was never addressed to it.\<close>

theorem smtp_recipients_leak:
  assumes "x \<noteq> []" "last x \<notin> set crlf" "bare a1" "bare (u1 @ ''@'' @ h1)" "bare a2" "bare (u2 @ ''@'' @ h2)"
    and "CHR ''@'' \<notin> set u1" "CHR ''@'' \<notin> set u2" "u1 \<noteq> u2"
    and "list_all plain_line t1" "list_all plain_line (hs @ [] # b)" "[] \<notin> set hs" "mwPoW w = None"
    and env: "\<And>n. scMkdir (cfg n) 0" "\<And>n. scIO (cfg n) 0 = IoOk"
    and spam: "\<And>n. \<not> IsSpam (scScoreAbove (cfg n)) (parsed (cfg n) t1)" "\<And>n. \<not> IsSpam (scScoreAbove (cfg n)) (parsed (cfg n) (hs @ [] # b))"
    and run: "smtp_handleConn cfg (hello x # transaction a1 (u1 @ ''@'' @ h1) t1 @ transaction a2 (u2 @ ''@'' @ h2) (hs @ [] # b)) w = (out, s, w')"
  shows "\<exists>m1 m2. mailbox_of u1 w' = mailbox_of u1 w @ [m1, m2] \<and> maFrom m1 = a1 \<and> maFrom m2 = a2
     \<and> maTo m2 = [u1 @ ''@'' @ h1, u2 @ ''@'' @ h2] \<and> maBody m2 = concat (map (\<lambda>l. l @ [CHR 0x0A]) b)"
proof -
  let ?t2 = "hs @ [] # b" and ?r1 = "u1 @ ''@'' @ h1" and ?r2 = "u2 @ ''@'' @ h2" and ?s = "new_session\<lparr>ssState := SMTPStateEHLO\<rparr>"
  let ?tx2 = "transaction a2 ?r2 ?t2"
  define c1 where "c1 = cfg (Suc (length t1 + length ?tx2))"
  define c2 where "c2 = cfg (Suc (length ?t2))"
  define s1 where "s1 = ?s\<lparr>ssFrom := a1, ssRecipients := ssRecipients ?s @ [?r1], ssState := SMTPStateMAIL\<rparr>"
  define m1 where "m1 = tx_mail c1 ?s a1 ?r1 t1"
  define m2 where "m2 = tx_mail c2 s1 a2 ?r2 ?t2"
  define w1 where "w1 = deliver_all c1 m1 0 [?r1] w"
  have rcpts: "ssRecipients ?s = []" "ssRecipients s1 = [?r1]" by (simp_all add: new_session_def s1_def)
  have first: "smtp_loop cfg (transaction a1 ?r1 t1 @ ?tx2) ?s w = replies [''250 OK'', ''250 OK'', ''354 Start mail input; end with <CRLF>.<CRLF>'', ''250 Message accepted'']
      (smtp_loop cfg ?tx2 s1 w1)"
    using smtp_loop_transaction [of ?s a1 ?r1 t1 w c1 cfg ?tx2] assms(3,4,10,13) spam(1) rcpts
    by (simp add: ready_def c1_def m1_def w1_def s1_def tx_mail_def parsed_def del: smtp_loop.simps(2) deliver_all.simps(2))
  have second: "smtp_loop cfg (?tx2 @ []) s1 w1 = replies [''250 OK'', ''250 OK'', ''354 Start mail input; end with <CRLF>.<CRLF>'', ''250 Message accepted'']
      (smtp_loop cfg [] (s1\<lparr>ssFrom := a2, ssRecipients := ssRecipients s1 @ [?r2], ssState := SMTPStateMAIL\<rparr>) (deliver_all c2 m2 0 (ssRecipients s1 @ [?r2]) w1))"
    unfolding m2_def
    by (rule smtp_loop_transaction)
       (use assms(5,6,11,13) spam(2) in \<open>simp_all add: ready_def c2_def w1_def s1_def tx_mail_def parsed_def del: deliver_all.simps(2)\<close>)
  have w': "w' = deliver_all c2 m2 1 [?r2] (deliver_all c2 m2 0 [?r1] w1)"
    using run first second rcpts deliver_all_step [of c2 m2 0 ?r1 "[?r2]" w1]
    by (auto simp: smtp_handleConn_def smtp_loop_hello [OF assms(1,2)] replies_def simp del: smtp_loop.simps(2) deliver_all.simps(2))
  have "bsUsers (mwStore w') u1 = bsUsers (mwStore (deliver_all c2 m2 0 [?r1] w1)) u1"
    unfolding w' by (rule deliver_other) (use rcpt_users_at [OF assms(8)] assms(9) in simp)
  then have "mailbox_of u1 w' = mailbox_of u1 (deliver_all c2 m2 0 [?r1] w1)" by (simp add: mailbox_of_def)
  moreover obtain m1' where "mailbox_of u1 w1 = mailbox_of u1 w @ [m1']" "maFrom m1' = a1"
    using deliver_grows [OF assms(7), of c1 0 m1 h1 w] env by (auto simp: c1_def m1_def w1_def tx_mail_def stamp_mail_def simp del: deliver_all.simps(2))
  moreover obtain m2' where "mailbox_of u1 (deliver_all c2 m2 0 [?r1] w1) = mailbox_of u1 w1 @ [m2']" "maFrom m2' = a2"
      "maTo m2' = [?r1, ?r2]" "maBody m2' = concat (map (\<lambda>l. l @ [CHR 0x0A]) b)"
    using deliver_grows [OF assms(7), of c2 0 m2 h1 w1] env rcpts tx_mail_fields [OF assms(11,12), of c2 s1 a2 ?r2]
    by (auto simp: c2_def m2_def simp del: deliver_all.simps(2))
  ultimately show ?thesis by auto
qed

text \<open>A server that asks for authentication, and a world with no mail.\<close>

definition demo_smtp :: smtp_config where
  "demo_smtp = \<lparr>scHostname = ''localweb'', scAuthRequired = True, scTLSEnabled = False, scTLSHandshake = None, scCredentials = Some (\<lambda>_ _. False),
     scStore = None, scBase64 = (\<lambda>_. ([], False)), scEncode64 = (\<lambda>s. s), scHmacMD5 = (\<lambda>k _. k), scRandom = ''r'', scScoreAbove = (\<lambda>_. False),
     scParseDate = (\<lambda>_. None), scFormatDate = (\<lambda>_. ''date''), scFormatName = (\<lambda>t. nat_dec (nat t)), scHeaderOrder = (\<lambda>_. []), scSha3 = (\<lambda>b. b),
     scMsgID = ''id'', scNow = 7, scStoreNow = (\<lambda>k. int k), scUnix = 7, scMkdir = (\<lambda>_. True), scIO = (\<lambda>_. IoOk)\<rparr>"

definition demo_mail_world :: mail_world where
  "demo_mail_world = \<lparr>mwStore = NewMailboxStore ''/mail'', mwFS = Map.empty, mwPoW = None\<rparr>"

lemma demo_bare: "bare ''a@b''" "bare ''bob@h''" "bare ''eve@h''"
  by (simp_all add: bare_def)

lemma demo_plain: "list_all plain_line [''Subject: hi'', [], ''.dot'']"
  by (simp add: plain_line_def max_token_def)

lemma demo_spam: "\<not> IsSpam (scScoreAbove demo_smtp) (parsed demo_smtp [''Subject: hi'', [], ''.dot''])"
  by code_simp


theorem smtp_recipients_leak_witness:
  "\<exists>m1 m2. mailbox_of ''bob'' (snd (snd (smtp_handleConn (\<lambda>_. demo_smtp) (hello ''me'' # transaction ''a@b'' ''bob@h'' [''Subject: hi'', [], ''.dot'']
       @ transaction ''a@b'' ''eve@h'' [''Subject: hi'', [], ''.dot'']) demo_mail_world))) = [m1, m2] \<and> maTo m2 = [''bob@h'', ''eve@h'']"
proof -
  let ?r = "smtp_handleConn (\<lambda>_. demo_smtp) (hello ''me'' # transaction ''a@b'' ''bob@h'' [''Subject: hi'', [], ''.dot'']
       @ transaction ''a@b'' ''eve@h'' [''Subject: hi'', [], ''.dot'']) demo_mail_world"
  have start: "mailbox_of ''bob'' demo_mail_world = []" by (simp add: mailbox_of_def demo_mail_world_def NewMailboxStore_def)
  have "\<exists>m1 m2. mailbox_of ''bob'' (snd (snd ?r)) = mailbox_of ''bob'' demo_mail_world @ [m1, m2] \<and> maFrom m1 = ''a@b'' \<and> maFrom m2 = ''a@b''
     \<and> maTo m2 = [''bob'' @ ''@'' @ ''h'', ''eve'' @ ''@'' @ ''h''] \<and> maBody m2 = concat (map (\<lambda>l. l @ [CHR 0x0A]) [''.dot''])"
    by (rule smtp_recipients_leak [of "''me''" "''a@b''" "''bob''" "''h''" "''a@b''" "''eve''" "''h''" "[''Subject: hi'', [], ''.dot'']" "[''Subject: hi'']" "[''.dot'']"
          demo_mail_world "\<lambda>_. demo_smtp" "fst ?r" "fst (snd ?r)"])
       (use demo_bare demo_plain demo_spam in \<open>simp_all add: crlf_def demo_mail_world_def demo_smtp_def del: smtp_loop.simps(2)\<close>)
  then show ?thesis by (auto simp: start)
qed


section \<open>Rates and proofs of work\<close>

text \<open>The mails let through, of a sequence of attempts by several senders.\<close>

fun rate_run :: "(gotime \<times> string) list \<Rightarrow> rate_limiter \<Rightarrow> (gotime \<times> string) list" where
  "rate_run [] r = []"
| "rate_run ((t, u) # es) r = (case Allow t u r of (ok, r') \<Rightarrow> (if ok then [(t, u)] else []) @ rate_run es r')"

definition sent_by :: "string \<Rightarrow> (gotime \<times> string) list \<Rightarrow> gotime list" where
  "sent_by u es = map fst (filter (\<lambda>e. snd e = u) es)"

definition in_window :: "gotime \<Rightarrow> duration \<Rightarrow> gotime list \<Rightarrow> gotime list" where
  "in_window t0 win ts = filter (\<lambda>t. t0 \<le> t \<and> t \<le> t0 + win) ts"

text \<open>What the limiter keeps of a sender tells everything about the window before the present.\<close>

definition rate_inv :: "string \<Rightarrow> gotime list \<Rightarrow> rate_limiter \<Rightarrow> bool" where
  "rate_inv u acc r \<longleftrightarrow>
     (\<forall>now. (\<forall>t\<in>set acc. t \<le> now) \<longrightarrow>
        filter (\<lambda>t. now - t \<le> rlWindow r) (case rlEmails r u of Some ts \<Rightarrow> ts | None \<Rightarrow> []) = filter (\<lambda>t. now - t \<le> rlWindow r) acc) \<and>
     (\<forall>t0. int (length (in_window t0 (rlWindow r) acc)) \<le> rlLimit r)"

lemma length_filter_mono: "(\<And>x. P x \<Longrightarrow> Q x) \<Longrightarrow> length (filter P xs) \<le> length (filter Q xs)"
  by (induction xs) auto

lemma Allow_other: "u \<noteq> v \<Longrightarrow> Allow t v r = (ok, r') \<Longrightarrow> rlEmails r' u = rlEmails r u \<and> rlWindow r' = rlWindow r \<and> rlLimit r' = rlLimit r"
  by (auto simp: Allow_def Let_def split: if_splits)

lemma Allow_own:
  assumes "rate_inv u acc r" "\<forall>x\<in>set acc. x \<le> t" "0 \<le> rlWindow r" "rlWindow r < 2 ^ 63 - 1" "Allow t u r = (ok, r')"
  shows "rate_inv u (acc @ (if ok then [t] else [])) r'" "rlWindow r' = rlWindow r"
proof -
  let ?W = "rlWindow r" and ?past = "filter (\<lambda>x. t - x \<le> rlWindow r) acc"
  have le: "(\<lambda>x. time_sub t x \<le> ?W) = (\<lambda>x. t - x \<le> ?W)" using assms(3,4) by (simp add: time_sub_le_iff fun_eq_iff)
  have recent: "filter (\<lambda>x. time_sub t x \<le> ?W) (case rlEmails r u of Some ts \<Rightarrow> ts | None \<Rightarrow> []) = ?past"
    using assms(1,2) unfolding rate_inv_def le by simp
  consider "ok = False" "r' = r" | "ok" "int (length ?past) < rlLimit r" "r' = r\<lparr>rlEmails := (rlEmails r)(u \<mapsto> ?past @ [t])\<rparr>"
    using assms(5) unfolding Allow_def Let_def recent by (auto split: if_splits)
  then show "rate_inv u (acc @ (if ok then [t] else [])) r'"
  proof cases
    case 2
    have "filter (\<lambda>x. now - x \<le> ?W) ?past = filter (\<lambda>x. now - x \<le> ?W) acc" if "t \<le> now" for now
      using that by (auto intro: filter_cong)
    moreover have "int (length (in_window t0 ?W (acc @ [t]))) \<le> rlLimit r" for t0
    proof (cases "t0 \<le> t \<and> t \<le> t0 + ?W")
      case True
      then have "length (in_window t0 ?W acc) \<le> length ?past" unfolding in_window_def by (intro length_filter_mono) auto
      with True 2(2) show ?thesis by (simp add: in_window_def)
    next
      case False
      with assms(1) show ?thesis by (auto simp: rate_inv_def in_window_def)
    qed
    ultimately show ?thesis using 2 by (simp add: rate_inv_def)
  qed (use assms(1) in simp)
  show "rlWindow r' = ?W" using assms(5) by (auto simp: Allow_def Let_def split: if_splits)
qed

lemma rate_run_bound:
  assumes "rate_inv u acc r" "sorted (map fst es)" "\<forall>x\<in>set acc. \<forall>e\<in>set es. x \<le> fst e" "0 \<le> rlWindow r" "rlWindow r < 2 ^ 63 - 1"
  shows "int (length (in_window t0 (rlWindow r) (acc @ sent_by u (rate_run es r)))) \<le> rlLimit r"
  using assms
proof (induction es arbitrary: acc r)
  case Nil
  then show ?case by (simp add: rate_inv_def sent_by_def)
next
  case (Cons e es)
  obtain t v where e: "e = (t, v)" by (cases e)
  obtain ok r' where A: "Allow t v r = (ok, r')" by (cases "Allow t v r")
  have limit: "rlLimit r' = rlLimit r" using A by (auto simp: Allow_def Let_def split: if_splits)
  show ?case
  proof (cases "v = u")
    case True
    note own = Allow_own [OF Cons.prems(1) _ Cons.prems(4,5) A [unfolded True]]
    have "int (length (in_window t0 (rlWindow r') ((acc @ (if ok then [t] else [])) @ sent_by u (rate_run es r')))) \<le> rlLimit r'"
      by (rule Cons.IH) (use own Cons.prems in \<open>auto simp: e\<close>)
    with own limit True A Cons.prems(3) show ?thesis by (cases ok) (simp_all add: e sent_by_def)
  next
    case False
    note other = Allow_other [OF False [symmetric] A]
    have "int (length (in_window t0 (rlWindow r') (acc @ sent_by u (rate_run es r')))) \<le> rlLimit r'"
      by (rule Cons.IH) (use other Cons.prems in \<open>auto simp: e rate_inv_def\<close>)
    with other False A show ?thesis by (cases ok) (simp_all add: e sent_by_def)
  qed
qed

text \<open>
  C32: The rate limiter keeps its promise for every window and not only for the windows that end at an attempt: however several
  senders interleave, at most \<open>limit\<close> mails of one sender are let through in any stretch of time as long as the window.\<close>

theorem email_rate_bound:
  assumes "sorted (map fst es)" "0 \<le> limit" "0 \<le> window" "window < 2 ^ 63 - 1"
  shows "int (length (in_window t0 window (sent_by u (rate_run es (NewRateLimiter limit window))))) \<le> limit"
proof -
  have "rate_inv u [] (NewRateLimiter limit window)" using assms(2) by (simp add: rate_inv_def NewRateLimiter_def in_window_def)
  from rate_run_bound [OF this, of es t0] assms show ?thesis by (simp add: NewRateLimiter_def)
qed

theorem email_rate_bound_witness:
  "int (length (in_window 0 10 (sent_by ''a'' (rate_run [(0, ''a''), (1, ''b''), (2, ''a''), (3, ''a''), (14, ''a'')] (NewRateLimiter 2 10))))) \<le> 2 \<and>
   sent_by ''a'' (rate_run [(0, ''a''), (1, ''b''), (2, ''a''), (3, ''a''), (14, ''a'')] (NewRateLimiter 2 10)) = [0, 2, 14]"
  using email_rate_bound [of "[(0, ''a''), (1, ''b''), (2, ''a''), (3, ''a''), (14, ''a'')]" 2 10 0 "''a''"]
  by (simp add: sent_by_def Allow_def NewRateLimiter_def time_sub_def)

text \<open>A nonce that was accepted is refused until five minutes have passed, whoever the sender is.\<close>

lemma nonce_not_replayed:
  assumes "Email_VerifyPoW sha3 now now' email nonce p = (True, p')" "now' \<le> later" "later < now' + pow_window"
  shows "Email_VerifyPoW sha3 later later' email' nonce p' = (False, p')"
proof -
  have "time_sub later now' < pow_window" using assms(2,3) by (simp add: time_sub_less_iff pow_window_def)
  with assms(1) show ?thesis by (auto simp: Email_VerifyPoW_def Let_def split: if_splits)
qed

text \<open>The name of a user becomes part of a path, so a recipient can lie outside of the directory of the mailboxes.\<close>

lemma mailbox_escapes: "map_option mbPath (fst (GetOrCreateMailbox True unix ''../etc'' (NewMailboxStore ''/mail''))) = Some ''/etc''"
proof -
  have "path_join ''/mail'' ''../etc'' = ''/etc''" by code_simp
  then show ?thesis by (simp add: GetOrCreateMailbox_def NewMailboxStore_def Let_def)
qed

end
