(* ===== verification/Email_Imap.thy ===== *)
theory Email_Imap
  imports Email_Delivery
begin

unbundle bit_operations_syntax

text \<open>
  The IMAP server (\<open>pkg/services/email/imap.go\<close>). A connection is the list of lines the client sends. The
  selected mailbox is a pointer into the store of mailboxes, which never replaces an entry, so a session keeps
  the user it belongs to. A slice that runs past the end of a string panics, and no goroutine of the server
  recovers: that outcome is \<open>None\<close>.
\<close>

section \<open>Sessions\<close>

datatype imap_state = IMAPStateNotAuth | IMAPStateAuth | IMAPStateSelected

record imap_session =
  isState :: imap_state
  isSelected :: "string option"
  isUser :: string

definition new_imap_session :: imap_session where
  "new_imap_session = \<lparr>isState = IMAPStateNotAuth, isSelected = None, isUser = []\<rparr>"

text \<open>The configuration, and what the environment answers while a command is handled. \<open>imIdle\<close> tells how many of the lines to come IDLE swallows.\<close>

record imap_config =
  imCredentials :: "(string \<Rightarrow> string \<Rightarrow> bool) option"
  imMkdir :: bool
  imUnix :: u32
  imError :: string
  imParseName :: "string \<Rightarrow> gotime"
  imReadDir :: "string \<Rightarrow> string list option"
  imFormatDate :: "gotime \<Rightarrow> string"
  imInternalDate :: "gotime \<Rightarrow> string"
  imHeaderOrder :: "mail \<Rightarrow> string list"
  imIdle :: nat

definition bs :: "string \<Rightarrow> string" where "bs s = CHR 0x5C # s"
definition quoted :: "string \<Rightarrow> string" where "quoted s = CHR 0x22 # s @ [CHR 0x22]"
definition dec32 :: "u32 \<Rightarrow> string" where "dec32 x = nat_dec (unat x)"

definition parseIMAPCommand :: "string \<Rightarrow> string \<times> string \<times> string" where
  "parseIMAPCommand line =
     (case splitN (CHR '' '') 2 line of
        [tag, rest] \<Rightarrow>
          (case Index rest '' '' of
             Some i \<Rightarrow> (tag, ToUpper (take i rest), drop (Suc i) rest)
           | None \<Rightarrow> (tag, ToUpper rest, []))
      | parts \<Rightarrow> (hd parts, [], []))"

section \<open>Sequence sets and flags\<close>

text \<open>\<open>parseUID\<close>: \<open>Sscanf\<close> reads the decimal digits in front; without any, or above 32 bits, the number stays zero.\<close>

definition is_digit :: "char \<Rightarrow> bool" where
  "is_digit c \<longleftrightarrow> 48 \<le> (of_char c :: nat) \<and> (of_char c :: nat) < 58"

definition parseUID :: "string \<Rightarrow> u32" where
  "parseUID s =
     (let t = TrimSpace s; ds = takeWhile is_digit t
      in if t = ''*'' \<or> ds = [] \<or> dec_val ds \<ge> 2 ^ 32 then 0 else of_nat (dec_val ds))"

definition matches_part :: "u32 \<Rightarrow> string \<Rightarrow> bool" where
  "matches_part uid p =
     (let part = TrimSpace p
      in if Contains part '':''
         then (case splitN (CHR '':'') 2 part of
                 [a, b] \<Rightarrow> parseUID a \<le> uid \<and> (parseUID b = 0 \<or> uid \<le> parseUID b)
               | _ \<Rightarrow> False)
         else uid = parseUID part)"

definition matchesSequenceSet :: "u32 \<Rightarrow> string \<Rightarrow> bool" where
  "matchesSequenceSet uid seqSet =
     (let s = TrimSpace seqSet in s = ''*'' \<or> list_ex (matches_part uid) (split_on (CHR '','') s))"

definition parseFetchItems :: "string \<Rightarrow> string list" where
  "parseFetchItems s = map ToUpper (Fields (Trim s ''()''))"

definition store_words :: "string list" where
  "store_words = map bs [''FLAGS'', ''SEEN'', ''ANSWERED'', ''FLAGGED'', ''DELETED'', ''DRAFT'']"

definition parseStoreValue :: "string \<Rightarrow> string list" where
  "parseStoreValue s = (case Fields (Trim s ''() '') of [] \<Rightarrow> [] | p # ps \<Rightarrow> if p \<in> set store_words then ps else p # ps)"

definition flag_of :: "string \<Rightarrow> mail_flags" where
  "flag_of name =
     (let f = ToUpper name
      in if f = bs ''SEEN'' then FlagSeen else if f = bs ''ANSWERED'' then FlagAnswered else if f = bs ''FLAGGED'' then FlagFlagged
         else if f = bs ''DELETED'' then FlagDeleted else if f = bs ''DRAFT'' then FlagDraft else 0)"

definition set_flag :: "string \<Rightarrow> mail_flags \<Rightarrow> mail_flags" where
  "set_flag name flags = flags OR flag_of name"

definition clear_flag :: "string \<Rightarrow> mail_flags \<Rightarrow> mail_flags" where
  "clear_flag name flags = flags AND NOT (flag_of name)"

text \<open>The flags of one message after STORE; \<open>FLAGS\<close> without a sign is treated as \<open>+FLAGS\<close>.\<close>

definition store_flags :: "string \<Rightarrow> string list \<Rightarrow> mail_flags \<Rightarrow> mail_flags" where
  "store_flags item names flags =
     (if item \<in> {''+FLAGS.SILENT'', ''+FLAGS'', ''FLAGS.SILENT'', ''FLAGS''} then fold set_flag names flags
      else if item \<in> {''-FLAGS.SILENT'', ''-FLAGS''} then fold clear_flag names flags
      else flags)"

text \<open>\<open>matchesSearchCriteria\<close>: whether a message is found, by its flags or its text; \<open>None\<close> is a panic.\<close>

definition search_flags :: "mail_flags \<Rightarrow> string \<Rightarrow> bool" where
  "search_flags flags c \<longleftrightarrow>
     Contains c ''unseen'' \<and> \<not> has_flag flags FlagSeen \<or> Contains c ''seen'' \<and> has_flag flags FlagSeen
     \<or> Contains c ''flagged'' \<and> has_flag flags FlagFlagged \<or> Contains c ''deleted'' \<and> has_flag flags FlagDeleted
     \<or> Contains c ''draft'' \<and> has_flag flags FlagDraft \<or> Contains c ''answered'' \<and> has_flag flags FlagAnswered"

definition matchesSearchCriteria :: "mail \<Rightarrow> string \<Rightarrow> bool option" where
  "matchesSearchCriteria m criteria =
     (let c = ToLower criteria
      in if search_flags (maFlags m) c then Some True
         else (case Index c ''text'' of
                 None \<Rightarrow> Some False
               | Some i \<Rightarrow>
                   if i + 5 > length c then None
                   else let query = Trim (drop (i + 5) c) [CHR 0x22]
                        in Some (Contains (ToLower (maSubject m)) query \<or> Contains (ToLower (maBody m)) query)))"

definition flag_names :: "mail_flags \<Rightarrow> string list" where
  "flag_names flags = map (bs o snd) (filter (\<lambda>(f, _). has_flag flags f)
     [(FlagSeen, ''Seen''), (FlagAnswered, ''Answered''), (FlagFlagged, ''Flagged''), (FlagDeleted, ''Deleted''), (FlagDraft, ''Draft''), (FlagRecent, ''Recent'')])"

definition fetch_item :: "imap_config \<Rightarrow> mail \<Rightarrow> u32 \<Rightarrow> string \<Rightarrow> string list" where
  "fetch_item cfg m n item =
     (let line = (\<lambda>s. [''* '' @ dec32 n @ '' FETCH ('' @ s @ '')'']); it = ToUpper item; text = Mail_String (imFormatDate cfg) (imHeaderOrder cfg m) m
      in if it = ''UID'' then line (''UID '' @ dec32 (maUID m))
         else if it = ''FLAGS'' then line (''FLAGS ('' @ Join '' '' (flag_names (maFlags m)) @ '')'')
         else if it = ''BODY'' then line (''BODY '' @ quoted text)
         else if it = ''RFC822'' then line (''RFC822 '' @ nat_dec (maSize m))
         else if it = ''RFC822.SIZE'' then line (''RFC822.SIZE '' @ nat_dec (maSize m))
         else if it = ''RFC822.HEADER'' then line (''RFC822.HEADER {'' @ nat_dec (maSize m) @ crlf @ text @ crlf)
         else if it = ''INTERNALDATE'' then line (''INTERNALDATE '' @ quoted (imInternalDate cfg (maReceived m)))
         else [])"

definition writeFetchResponse :: "imap_config \<Rightarrow> mail \<Rightarrow> string list \<Rightarrow> u32 \<Rightarrow> string list" where
  "writeFetchResponse cfg m items n = concat (map (fetch_item cfg m n) items)"

definition formatUIDList :: "u32 list \<Rightarrow> string" where
  "formatUIDList uids = Join '' '' (map dec32 uids)"

section \<open>Commands\<close>

definition cmdCapability :: "string \<Rightarrow> string list" where
  "cmdCapability tag = [''* CAPABILITY IMAP4rev2 AUTH=PLAIN AUTH=LOGIN STARTTLS IDLE'', tag @ '' OK CAPABILITY completed'']"

definition cmdLogin :: "imap_config \<Rightarrow> string \<Rightarrow> string \<Rightarrow> imap_session \<Rightarrow> string list \<times> imap_session" where
  "cmdLogin cfg tag arg s =
     (case splitN (CHR '' '') 2 arg of
        [user, password] \<Rightarrow>
          if (case imCredentials cfg of Some v \<Rightarrow> \<not> v user password | None \<Rightarrow> False) then ([tag @ '' NO Login failure''], s)
          else ([tag @ '' OK LOGIN completed''], s\<lparr>isUser := user, isState := IMAPStateAuth\<rparr>)
      | _ \<Rightarrow> ([tag @ '' BAD Syntax: LOGIN user password''], s))"

definition cmdLogout :: "string \<Rightarrow> string list" where
  "cmdLogout tag = [''* BYE LocalWEB IMAP4rev2 server logging out'', tag @ '' OK LOGOUT completed'']"

text \<open>\<open>cmdSelect\<close> and \<open>cmdExamine\<close> differ in their last lines.\<close>

definition all_flags :: string where
  "all_flags = Join '' '' (map bs [''Seen'', ''Answered'', ''Flagged'', ''Deleted'', ''Draft'', ''Recent''])"

definition permanent_flags :: string where
  "permanent_flags = Join '' '' (map bs [''Seen'', ''Answered'', ''Flagged'', ''Deleted'', ''Draft''])"

definition mailbox_lines :: "mailbox \<Rightarrow> string list" where
  "mailbox_lines mb = [''* '' @ nat_dec (MessageCount mb) @ '' EXISTS'', ''* '' @ nat_dec (RecentCount mb) @ '' RECENT'',
     ''* OK [UIDVALIDITY '' @ dec32 (mbUIDValidity mb) @ ''] UIDVALIDITY'', ''* OK [UIDNEXT '' @ dec32 (mbUIDNext mb) @ ''] Predicted next UID'',
     ''* FLAGS ('' @ all_flags @ '')'']"

definition open_mailbox :: "imap_config \<Rightarrow> string \<Rightarrow> string list \<Rightarrow> imap_session \<Rightarrow> mail_world \<Rightarrow> string list \<times> imap_session \<times> mail_world" where
  "open_mailbox cfg tag closing s w =
     (if isState s \<notin> {IMAPStateAuth, IMAPStateSelected} then ([tag @ '' NO Not authenticated''], s, w)
      else case GetOrCreateMailbox (imMkdir cfg) (imUnix cfg) (isUser s) (mwStore w) of
             (None, st) \<Rightarrow> ([tag @ '' NO '' @ imError cfg], s, w\<lparr>mwStore := st\<rparr>)
           | (Some mb, st) \<Rightarrow>
               (case LoadMessages (imParseName cfg) (imReadDir cfg) (mwFS w) mb of (err, mb') \<Rightarrow>
                  let w' = w\<lparr>mwStore := st\<lparr>bsUsers := (bsUsers st)(isUser s \<mapsto> mb')\<rparr>\<rparr>
                  in if err \<noteq> None then ([tag @ '' NO '' @ imError cfg], s, w')
                     else (mailbox_lines mb' @ closing, s\<lparr>isSelected := Some (isUser s), isState := IMAPStateSelected\<rparr>, w')))"

definition cmdSelect :: "imap_config \<Rightarrow> string \<Rightarrow> imap_session \<Rightarrow> mail_world \<Rightarrow> string list \<times> imap_session \<times> mail_world" where
  "cmdSelect cfg tag = open_mailbox cfg tag [''* OK [PERMANENTFLAGS ('' @ permanent_flags @ '')] Limited'', tag @ '' OK [READ-WRITE] SELECT completed'']"

definition cmdExamine :: "imap_config \<Rightarrow> string \<Rightarrow> imap_session \<Rightarrow> mail_world \<Rightarrow> string list \<times> imap_session \<times> mail_world" where
  "cmdExamine cfg tag = open_mailbox cfg tag [tag @ '' OK [READ-ONLY] EXAMINE completed'']"

text \<open>The mailbox the session has selected.\<close>

definition selected :: "imap_session \<Rightarrow> mail_world \<Rightarrow> mailbox option" where
  "selected s w =
     (if isState s = IMAPStateSelected then (case isSelected s of None \<Rightarrow> None | Some u \<Rightarrow> bsUsers (mwStore w) u) else None)"

definition fetch_one :: "imap_config \<Rightarrow> bool \<Rightarrow> string \<Rightarrow> string list \<Rightarrow> nat \<times> mail \<Rightarrow> string list" where
  "fetch_one cfg useUID seqSet items = (\<lambda>(i, m).
     let n = (if useUID then maUID m else of_nat (Suc i)) in if matchesSequenceSet n seqSet then writeFetchResponse cfg m items n else [])"

definition cmdFetch :: "imap_config \<Rightarrow> string \<Rightarrow> string \<Rightarrow> bool \<Rightarrow> imap_session \<Rightarrow> mail_world \<Rightarrow> string list" where
  "cmdFetch cfg tag arg useUID s w =
     (case selected s w of
        None \<Rightarrow> [tag @ '' BAD Not selected'']
      | Some mb \<Rightarrow>
          (case splitN (CHR '' '') 2 arg of
             [seqSet, msgSet] \<Rightarrow>
               concat (map (fetch_one cfg useUID seqSet (parseFetchItems msgSet)) (enumerate 0 (mbMessages mb))) @ [tag @ '' OK FETCH completed'']
           | _ \<Rightarrow> [tag @ '' BAD FETCH syntax'']))"

definition store_one :: "string \<Rightarrow> string \<Rightarrow> string list \<Rightarrow> mail \<Rightarrow> mail" where
  "store_one seqSet item names m =
     (if matchesSequenceSet (maUID m) seqSet then m\<lparr>maFlags := store_flags item names (maFlags m)\<rparr> else m)"

definition cmdStore :: "string \<Rightarrow> string \<Rightarrow> imap_session \<Rightarrow> mail_world \<Rightarrow> string list \<times> mail_world" where
  "cmdStore tag arg s w =
     (case selected s w of
        None \<Rightarrow> ([tag @ '' BAD Not selected''], w)
      | Some mb \<Rightarrow>
          (case splitN (CHR '' '') 3 arg of
             [seqSet, item, value] \<Rightarrow>
               ([tag @ '' OK STORE completed''],
                w\<lparr>mwStore := (mwStore w)\<lparr>bsUsers := (bsUsers (mwStore w))(the (isSelected s) \<mapsto>
                    mb\<lparr>mbMessages := map (store_one seqSet (ToUpper item) (parseStoreValue value)) (mbMessages mb)\<rparr>)\<rparr>\<rparr>)
           | _ \<Rightarrow> ([tag @ '' BAD STORE syntax''], w)))"

fun search_uids :: "string \<Rightarrow> mail list \<Rightarrow> u32 list option" where
  "search_uids criteria [] = Some []"
| "search_uids criteria (m # ms) =
     (case matchesSearchCriteria m criteria of
        None \<Rightarrow> None
      | Some b \<Rightarrow> map_option (\<lambda>us. if b then maUID m # us else us) (search_uids criteria ms))"

definition cmdSearch :: "string \<Rightarrow> string \<Rightarrow> imap_session \<Rightarrow> mail_world \<Rightarrow> string list option" where
  "cmdSearch tag arg s w =
     (case selected s w of
        None \<Rightarrow> Some [tag @ '' BAD Not selected'']
      | Some mb \<Rightarrow> map_option (\<lambda>us. [''* SEARCH '' @ formatUIDList us, tag @ '' OK SEARCH completed'']) (search_uids arg (mbMessages mb)))"

definition cmdUID :: "imap_config \<Rightarrow> string \<Rightarrow> string \<Rightarrow> imap_session \<Rightarrow> mail_world \<Rightarrow> (string list \<times> mail_world) option" where
  "cmdUID cfg tag arg s w =
     (case splitN (CHR '' '') 2 arg of
        [c, rest] \<Rightarrow>
          (let cmd = ToUpper c
           in if cmd = ''FETCH'' then Some (cmdFetch cfg tag rest True s w, w)
              else if cmd = ''STORE'' then Some (cmdStore tag rest s w)
              else if cmd = ''SEARCH'' then map_option (\<lambda>out. (out, w)) (cmdSearch tag rest s w)
              else Some ([tag @ '' BAD UID command not supported''], w))
      | _ \<Rightarrow> Some ([tag @ '' BAD UID syntax''], w))"

definition cmdIdle :: "imap_config \<Rightarrow> string \<Rightarrow> string list \<Rightarrow> imap_session \<Rightarrow> mail_world \<Rightarrow> string list \<times> string list" where
  "cmdIdle cfg tag ls s w =
     (case selected s w of
        None \<Rightarrow> ([tag @ '' BAD Not selected''], ls)
      | Some _ \<Rightarrow> ([tag @ '' OK IDLE started'', ''+ idling''], drop (imIdle cfg) ls))"

definition cmdList :: "string \<Rightarrow> string list" where
  "cmdList tag = [''* LIST ('' @ bs ''NoInferiors '' @ bs ''Unmarked) '' @ quoted ''.'' @ '' '' @ quoted ''INBOX'', tag @ '' OK LIST completed'']"

definition status_item :: "mailbox \<Rightarrow> string \<Rightarrow> string list" where
  "status_item mb item =
     (let it = ToUpper item
      in if it = ''MESSAGES'' then [''MESSAGES '' @ nat_dec (MessageCount mb)]
         else if it = ''RECENT'' then [''RECENT '' @ nat_dec (RecentCount mb)]
         else if it = ''UNSEEN'' then [''UNSEEN '' @ nat_dec (UnseenCount mb)]
         else if it = ''UIDNEXT'' then [''UIDNEXT '' @ dec32 (mbUIDNext mb)]
         else if it = ''UIDVALIDITY'' then [''UIDVALIDITY '' @ dec32 (mbUIDValidity mb)]
         else [])"

definition cmdStatus :: "imap_config \<Rightarrow> string \<Rightarrow> string \<Rightarrow> imap_session \<Rightarrow> mail_world \<Rightarrow> string list \<times> mail_world" where
  "cmdStatus cfg tag arg s w =
     (case splitN (CHR '' '') 2 arg of
        [name, what] \<Rightarrow>
          (case GetOrCreateMailbox (imMkdir cfg) (imUnix cfg) (isUser s) (mwStore w) of
             (None, st) \<Rightarrow> ([tag @ '' NO '' @ imError cfg], w\<lparr>mwStore := st\<rparr>)
           | (Some mb, st) \<Rightarrow>
               ([''* STATUS '' @ quoted (Trim name [CHR 0x22]) @ '' ('' @ Join '' '' (concat (map (status_item mb) (Fields what))) @ '')'',
                 tag @ '' OK STATUS completed''], w\<lparr>mwStore := st\<rparr>))
      | _ \<Rightarrow> ([tag @ '' BAD STATUS syntax''], w))"

text \<open>\<open>handleCommand\<close>: replies, session, world and the lines left; \<open>None\<close> is the panic.\<close>

definition imap_handleCommand ::
  "imap_config \<Rightarrow> string \<Rightarrow> string \<Rightarrow> string \<Rightarrow> string list \<Rightarrow> imap_session \<Rightarrow> mail_world \<Rightarrow> (string list \<times> imap_session \<times> mail_world \<times> string list) option" where
  "imap_handleCommand cfg tag cmd arg ls s w =
     (if cmd = ''CAPABILITY'' then Some (cmdCapability tag, s, w, ls)
      else if cmd = ''LOGIN'' then (case cmdLogin cfg tag arg s of (out, s') \<Rightarrow> Some (out, s', w, ls))
      else if cmd = ''LOGOUT'' then Some (cmdLogout tag, s, w, ls)
      else if cmd = ''SELECT'' then (case cmdSelect cfg tag s w of (out, s', w') \<Rightarrow> Some (out, s', w', ls))
      else if cmd = ''EXAMINE'' then (case cmdExamine cfg tag s w of (out, s', w') \<Rightarrow> Some (out, s', w', ls))
      else if cmd = ''FETCH'' then Some (cmdFetch cfg tag arg False s w, s, w, ls)
      else if cmd = ''STORE'' then (case cmdStore tag arg s w of (out, w') \<Rightarrow> Some (out, s, w', ls))
      else if cmd = ''SEARCH'' then map_option (\<lambda>out. (out, s, w, ls)) (cmdSearch tag arg s w)
      else if cmd = ''UID'' then map_option (\<lambda>(out, w'). (out, s, w', ls)) (cmdUID cfg tag arg s w)
      else if cmd = ''IDLE'' then (case cmdIdle cfg tag ls s w of (out, ls') \<Rightarrow> Some (out, s, w, ls'))
      else if cmd = ''LIST'' then Some (cmdList tag, s, w, ls)
      else if cmd = ''STATUS'' then (case cmdStatus cfg tag arg s w of (out, w') \<Rightarrow> Some (out, s, w', ls))
      else if cmd \<in> {''CREATE'', ''DELETE'', ''RENAME'', ''SUBSCRIBE'', ''UNSUBSCRIBE'', ''LSUB'', ''X-IMAP4''}
      then Some ([tag @ '' OK '' @ cmd @ '' completed''], s, w, ls)
      else Some ([tag @ '' BAD Unknown command '' @ cmd], s, w, ls))"

lemma imap_handleCommand_length:
  "imap_handleCommand cfg tag cmd arg ls s w = Some (out, s', w', ls') \<Longrightarrow> length ls' \<le> length ls"
  by (auto simp: imap_handleCommand_def cmdIdle_def split: if_splits prod.splits option.splits)

text \<open>
  The loop of \<open>handleConn\<close>, which only the end of the stream stops; \<open>None\<close> in place of the session is a panic.
  \<open>cfg n\<close> is the configuration when \<open>n\<close> more lines are to come.
\<close>

function (sequential) imap_loop :: "(nat \<Rightarrow> imap_config) \<Rightarrow> string list \<Rightarrow> imap_session \<Rightarrow> mail_world \<Rightarrow> string list \<times> (imap_session \<times> mail_world) option" where
  "imap_loop cfg [] s w = ([], Some (s, w))"
| "imap_loop cfg (l # ls) s w =
     (let line = TrimRight l crlf
      in if line = [] then imap_loop cfg ls s w
         else (case parseIMAPCommand line of
                 (tag, cmd, arg) \<Rightarrow>
                   (case imap_handleCommand (cfg (length ls)) tag cmd arg ls s w of
                      None \<Rightarrow> ([], None)
                    | Some (out, s', w', ls') \<Rightarrow> replies out (imap_loop cfg ls' s' w'))))"
  by pat_completeness auto
termination
  by (relation "measure (\<lambda>(_, ls, _, _). length ls)") (auto dest!: imap_handleCommand_length)

definition imap_handleConn :: "(nat \<Rightarrow> imap_config) \<Rightarrow> string list \<Rightarrow> mail_world \<Rightarrow> string list \<times> (imap_session \<times> mail_world) option" where
  "imap_handleConn cfg ls w = replies [''* OK LocalWEB IMAP4rev2 server ready''] (imap_loop cfg ls new_imap_session w)"

section \<open>Isolation of the users\<close>

text \<open>The sessions and worlds that the commands of one connection lead to, with the verifier \<open>v\<close>.\<close>

inductive imap_run :: "(string \<Rightarrow> string \<Rightarrow> bool) \<Rightarrow> mail_world \<Rightarrow> imap_session \<Rightarrow> mail_world \<Rightarrow> bool" for v w0 where
  start: "imap_run v w0 new_imap_session w0"
| command: "imap_run v w0 s w \<Longrightarrow> imCredentials c = Some v \<Longrightarrow> imap_handleCommand c tag cmd arg ls s w = Some (out, s', w', ls') \<Longrightarrow> imap_run v w0 s' w'"

definition imap_inv :: "(string \<Rightarrow> string \<Rightarrow> bool) \<Rightarrow> mail_world \<Rightarrow> imap_session \<Rightarrow> mail_world \<Rightarrow> bool" where
  "imap_inv v w0 s w \<longleftrightarrow>
     (isState s = IMAPStateSelected \<longrightarrow> isSelected s = Some (isUser s)) \<and>
     (if isState s = IMAPStateNotAuth then isUser s = [] else \<exists>p. v (isUser s) p) \<and>
     (\<forall>u. bsUsers (mwStore w) u \<noteq> bsUsers (mwStore w0) u \<longrightarrow> u = [] \<or> (\<exists>p. v u p))"

lemma GetOrCreateMailbox_other:
  "GetOrCreateMailbox ok unix u st = (r, st') \<Longrightarrow> v \<noteq> u \<Longrightarrow> bsUsers st' v = bsUsers st v"
  by (auto simp: GetOrCreateMailbox_def Let_def split: option.splits if_splits)

lemma open_mailbox_inv:
  assumes "imap_inv v w0 s w" "open_mailbox c tag closing s w = (out, s', w')"
  shows "imap_inv v w0 s' w'"
proof (cases "isState s = IMAPStateNotAuth")
  case True
  with assms show ?thesis by (simp add: open_mailbox_def)
next
  case False
  obtain r st where g: "GetOrCreateMailbox (imMkdir c) (imUnix c) (isUser s) (mwStore w) = (r, st)"
    by (cases "GetOrCreateMailbox (imMkdir c) (imUnix c) (isUser s) (mwStore w)")
  have other: "u \<noteq> isUser s \<Longrightarrow> bsUsers st u = bsUsers (mwStore w) u" for u using GetOrCreateMailbox_other [OF g] .
  have "bsUsers (mwStore w') u = bsUsers (mwStore w) u" if "u \<noteq> isUser s" for u
    using assms(2) g other [OF that] that False by (auto simp: open_mailbox_def Let_def split: if_splits option.splits prod.splits)
  moreover have "isUser s' = isUser s" "isState s' \<noteq> IMAPStateNotAuth" "isState s' = IMAPStateSelected \<Longrightarrow> isSelected s' = Some (isUser s)"
    using assms g False by (auto simp: open_mailbox_def imap_inv_def Let_def split: if_splits option.splits prod.splits)
  ultimately show ?thesis using assms(1) False unfolding imap_inv_def by metis
qed

lemma cmdStore_inv:
  assumes "imap_inv v w0 s w" "cmdStore tag arg s w = (out, w')"
  shows "imap_inv v w0 s w'"
proof -
  have "bsUsers (mwStore w') u = bsUsers (mwStore w) u" if "u \<noteq> isUser s \<or> isState s = IMAPStateNotAuth" for u
    using assms that by (auto simp: cmdStore_def selected_def imap_inv_def split: if_splits option.splits list.splits)
  with assms(1) show ?thesis unfolding imap_inv_def by metis
qed

lemma cmdStatus_inv:
  assumes "imap_inv v w0 s w" "cmdStatus c tag arg s w = (out, w')"
  shows "imap_inv v w0 s w'"
proof -
  have "bsUsers (mwStore w') u = bsUsers (mwStore w) u" if "u \<noteq> isUser s" for u
    using assms(2) GetOrCreateMailbox_other [of "imMkdir c" "imUnix c" "isUser s" "mwStore w" _ _ u] that
    by (auto simp: cmdStatus_def split: list.splits option.splits prod.splits)
  with assms(1) show ?thesis unfolding imap_inv_def by metis
qed

lemma cmdLogin_inv:
  "imap_inv v w0 s w \<Longrightarrow> imCredentials c = Some v \<Longrightarrow> cmdLogin c tag arg s = (out, s') \<Longrightarrow> imap_inv v w0 s' w"
  by (auto simp: cmdLogin_def imap_inv_def split: list.splits if_splits)

lemma cmdUID_inv: "imap_inv v w0 s w \<Longrightarrow> cmdUID c tag arg s w = Some (out, w') \<Longrightarrow> imap_inv v w0 s w'"
  by (auto simp: cmdUID_def Let_def split: list.splits if_splits dest: cmdStore_inv [rotated])

lemma imap_command_inv:
  assumes "imap_inv v w0 s w" "imCredentials c = Some v" "imap_handleCommand c tag cmd arg ls s w = Some (out, s', w', ls')"
  shows "imap_inv v w0 s' w'"
  using assms(3,1,2)
  by (auto simp: imap_handleCommand_def cmdSelect_def cmdExamine_def split: if_splits prod.splits
      dest: open_mailbox_inv [rotated] cmdStore_inv [rotated] cmdStatus_inv [rotated] cmdLogin_inv [rotated 2] cmdUID_inv [rotated])

lemma imap_run_inv: "imap_run v w0 s w \<Longrightarrow> imap_inv v w0 s w"
proof (induction rule: imap_run.induct)
  case start
  show ?case by (simp add: imap_inv_def new_imap_session_def)
qed (rule imap_command_inv)

lemma imap_loop_run:
  assumes "\<And>n. imCredentials (cfg n) = Some v" "imap_run v w0 s w" "imap_loop cfg ls s w = (out, Some (s', w'))"
  shows "imap_run v w0 s' w'"
  using assms
proof (induction cfg ls s w arbitrary: out rule: imap_loop.induct)
  case (2 cfg l ls s w)
  show ?case
  proof (cases "TrimRight l crlf = []")
    case True
    with 2 show ?thesis by simp
  next
    case False
    obtain tag cmd arg where p: "parseIMAPCommand (TrimRight l crlf) = (tag, cmd, arg)" by (cases "parseIMAPCommand (TrimRight l crlf)")
    with False "2.prems"(3) obtain out1 s1 w1 ls1 where h: "imap_handleCommand (cfg (length ls)) tag cmd arg ls s w = Some (out1, s1, w1, ls1)"
      by (auto split: option.splits)
    from "2.prems"(2,1) h have run: "imap_run v w0 s1 w1" by (rule imap_run.command)
    obtain out2 where "imap_loop cfg ls1 s1 w1 = (out2, Some (s', w'))"
      using False p h "2.prems"(3) by (cases "imap_loop cfg ls1 s1 w1") (auto simp: replies_def)
    with 2(2) [OF refl False p [symmetric] refl h refl refl refl] "2.prems"(1) run show ?thesis by blast
  qed
qed simp

text \<open>
  C6: With a verifier of credentials, one IMAP connection touches no mailbox but those of users for whom it gave a valid password:
  whatever the client sends, the mailbox of a user that no password opens is unchanged (the nameless mailbox, which STATUS creates before
  any login, apart), and a selected mailbox belongs to the user who logged in.\<close>

theorem imap_isolation:
  assumes "\<And>n. imCredentials (cfg n) = Some v" "imap_handleConn cfg ls w = (out, Some (s, w'))"
  shows "(isState s = IMAPStateSelected \<longrightarrow> isSelected s = Some (isUser s)) \<and> (isState s \<noteq> IMAPStateNotAuth \<longrightarrow> (\<exists>p. v (isUser s) p))
     \<and> (\<forall>u. u \<noteq> [] \<longrightarrow> (\<forall>p. \<not> v u p) \<longrightarrow> bsUsers (mwStore w') u = bsUsers (mwStore w) u)"
proof -
  obtain out' where "imap_loop cfg ls new_imap_session w = (out', Some (s, w'))"
    using assms(2) by (cases "imap_loop cfg ls new_imap_session w") (auto simp: imap_handleConn_def replies_def)
  then have "imap_inv v w s w'" by (intro imap_run_inv imap_loop_run [OF assms(1) imap_run.start])
  then show ?thesis by (auto simp: imap_inv_def)
qed

definition demo_imap :: imap_config where
  "demo_imap = \<lparr>imCredentials = Some (\<lambda>u p. u = ''al'' \<and> p = ''pw''), imMkdir = True, imUnix = 7, imError = ''error'', imParseName = (\<lambda>_. 5),
     imReadDir = (\<lambda>_. Some []), imFormatDate = (\<lambda>_. ''date''), imInternalDate = (\<lambda>_. ''date''), imHeaderOrder = (\<lambda>_. []), imIdle = 0\<rparr>"

theorem imap_isolation_witness:
  "let w' = snd (the (snd (imap_handleConn (\<lambda>_. demo_imap) [''a LOGIN al pw'', ''b SELECT INBOX'', ''c LOGIN eve x'', ''d SELECT INBOX''] demo_mail_world)))
   in bsUsers (mwStore w') ''al'' \<noteq> None \<and> bsUsers (mwStore w') ''eve'' = None"
proof -
  let ?r = "imap_handleConn (\<lambda>_. demo_imap) [''a LOGIN al pw'', ''b SELECT INBOX'', ''c LOGIN eve x'', ''d SELECT INBOX''] demo_mail_world"
  have "snd ?r \<noteq> None" "bsUsers (mwStore (snd (the (snd ?r)))) ''al'' \<noteq> None" by code_simp+
  moreover from this(1) have run: "?r = (fst ?r, Some (fst (the (snd ?r)), snd (the (snd ?r))))" by (simp add: prod_eq_iff)
  have "bsUsers (mwStore (snd (the (snd ?r)))) ''eve'' = bsUsers (mwStore demo_mail_world) ''eve''"
    using imap_isolation [where cfg = "\<lambda>_. demo_imap" and v = "\<lambda>u p. u = ''al'' \<and> p = ''pw''", rotated, OF run]
    by (simp add: demo_imap_def [THEN arg_cong [of _ _ imCredentials]])
  ultimately show ?thesis by (simp add: Let_def demo_mail_world_def NewMailboxStore_def del: imap_loop.simps)
qed

section \<open>Searching\<close>

lemma search_uids_none: "search_uids c ms = None \<longleftrightarrow> (\<exists>m\<in>set ms. matchesSearchCriteria m c = None)"
  by (induction ms) (auto split: option.split)

lemma ToLower_length [simp]: "length (ToLower s) = length s"
  by (simp add: ToLower_def)

lemma Index_bound: "Index s sub = Some i \<Longrightarrow> i + length sub \<le> length s"
  by (induction s arbitrary: i) (auto simp: HasPrefix_def split: if_splits dest: arg_cong [of _ _ length])

lemma matches_none:
  "matchesSearchCriteria m c = None \<longleftrightarrow> \<not> search_flags (maFlags m) (ToLower c) \<and> Index (ToLower c) ''text'' = Some (length c - 4)"
  by (auto simp: matchesSearchCriteria_def Let_def split: option.splits dest: Index_bound)

text \<open>
  A client can crash the mail server, and the theorem says exactly how. Handling a command ends in a panic if and only if it is a
  SEARCH, plain or by UID, in a selected mailbox, whose criteria have the word TEXT for the first time at their very end, and some message
  is not already found by its flags. \<open>SEARCH TEXT\<close> in a mailbox with an ordinary message does it.\<close>

theorem imap_search_crash:
  "imap_handleCommand cfg tag cmd arg ls s w = None \<longleftrightarrow>
     (\<exists>crit mb m. (cmd = ''SEARCH'' \<and> crit = arg \<or> cmd = ''UID'' \<and> (\<exists>c. splitN (CHR '' '') 2 arg = [c, crit] \<and> ToUpper c = ''SEARCH''))
        \<and> selected s w = Some mb \<and> m \<in> set (mbMessages mb)
        \<and> \<not> search_flags (maFlags m) (ToLower crit) \<and> Index (ToLower crit) ''text'' = Some (length crit - 4))"
proof -
  have search: "cmdSearch tag crit s w = None \<longleftrightarrow> (\<exists>mb m. selected s w = Some mb \<and> m \<in> set (mbMessages mb)
        \<and> \<not> search_flags (maFlags m) (ToLower crit) \<and> Index (ToLower crit) ''text'' = Some (length crit - 4))" for crit
    by (auto simp: cmdSearch_def search_uids_none matches_none split: option.split)
  have "imap_handleCommand cfg tag cmd arg ls s w = None \<longleftrightarrow>
      (cmd = ''SEARCH'' \<and> cmdSearch tag arg s w = None \<or> cmd = ''UID'' \<and> cmdUID cfg tag arg s w = None)"
    by (auto simp: imap_handleCommand_def split: prod.split)
  also have "cmdUID cfg tag arg s w = None \<longleftrightarrow> (\<exists>c crit. splitN (CHR '' '') 2 arg = [c, crit] \<and> ToUpper c = ''SEARCH'' \<and> cmdSearch tag crit s w = None)"
    by (auto simp: cmdUID_def Let_def split: list.split)
  finally show ?thesis unfolding search by auto
qed

text \<open>
  \<open>SEARCH UNSEEN\<close> answers with every message of the mailbox, seen or not: the word UNSEEN also contains SEEN.\<close>

theorem imap_search_unseen_all:
  assumes "selected s w = Some mb"
  shows "cmdSearch tag ''UNSEEN'' s w = Some [''* SEARCH '' @ formatUIDList (map maUID (mbMessages mb)), tag @ '' OK SEARCH completed'']"
proof -
  have "ToLower ''UNSEEN'' = ''unseen''" by code_simp
  moreover have "Contains ''unseen'' ''unseen''" "Contains ''unseen'' ''seen''" by code_simp+
  ultimately have "matchesSearchCriteria m ''UNSEEN'' = Some True" for m by (simp add: matchesSearchCriteria_def search_flags_def)
  then have "search_uids ''UNSEEN'' ms = Some (map maUID ms)" for ms by (induction ms) simp_all
  with assms show ?thesis by (simp add: cmdSearch_def)
qed

theorem imap_search_unseen_all_witness:
  "cmdSearch ''a'' ''UNSEEN'' \<lparr>isState = IMAPStateSelected, isSelected = Some ''al'', isUser = ''al''\<rparr>
     (demo_mail_world\<lparr>mwStore := \<lparr>bsBasePath = ''/m'', bsUsers = [''al'' \<mapsto> demo_mailbox]\<rparr>\<rparr>)
   = Some [''* SEARCH 1'', ''a OK SEARCH completed''] \<and> list_all (\<lambda>m. has_flag (maFlags m) FlagSeen) (mbMessages demo_mailbox)"
proof -
  let ?s = "\<lparr>isState = IMAPStateSelected, isSelected = Some ''al'', isUser = ''al''\<rparr>"
  let ?w = "demo_mail_world\<lparr>mwStore := \<lparr>bsBasePath = ''/m'', bsUsers = [''al'' \<mapsto> demo_mailbox]\<rparr>\<rparr>"
  have "selected ?s ?w = Some demo_mailbox" by (simp add: selected_def)
  note imap_search_unseen_all [OF this, of "''a''"]
  moreover have "formatUIDList (map maUID (mbMessages demo_mailbox)) = ''1''" by code_simp
  moreover have "list_all (\<lambda>m. has_flag (maFlags m) FlagSeen) (mbMessages demo_mailbox)" by code_simp
  ultimately show ?thesis by simp
qed

section \<open>Sequence sets\<close>

text \<open>Sequence sets as a client writes them: numbers, ranges and open ranges, separated by commas.\<close>

datatype seq_part = One u32 | Range u32 u32 | From u32

fun seq_text :: "seq_part \<Rightarrow> string" where
  "seq_text (One a) = dec32 a"
| "seq_text (Range a b) = dec32 a @ '':'' @ dec32 b"
| "seq_text (From a) = dec32 a @ '':*''"

fun seq_has :: "u32 \<Rightarrow> seq_part \<Rightarrow> bool" where
  "seq_has n (One a) \<longleftrightarrow> n = a"
| "seq_has n (Range a b) \<longleftrightarrow> a \<le> n \<and> (b = 0 \<or> n \<le> b)"
| "seq_has n (From a) \<longleftrightarrow> a \<le> n"

lemma dec32_digits: "c \<in> set (dec32 a) \<Longrightarrow> is_digit c"
  by (auto simp: dec32_def is_digit_def dest: nat_dec_digits)

lemma is_digit_not: "is_digit c \<Longrightarrow> \<not> is_space c \<and> c \<noteq> CHR '':'' \<and> c \<noteq> CHR '','' \<and> c \<noteq> CHR ''*''"
  by (auto simp: is_digit_def is_space_def)

lemma dec32_nonempty [simp]: "dec32 a \<noteq> []"
  by (subst dec32_def, subst nat_dec.simps) simp

lemma Contains_char: "Contains s [c] \<longleftrightarrow> c \<in> set s"
  by (induction s) (auto simp: HasPrefix_def)

lemma TrimSpace_id: "s = [] \<or> \<not> is_space (hd s) \<and> \<not> is_space (last s) \<Longrightarrow> TrimSpace s = s"
  unfolding TrimSpace_def by (rule trim_by_id)

lemma dec32_ends: "\<not> is_space (hd (dec32 a))" "\<not> is_space (last (dec32 a))"
  using dec32_digits [of "hd (dec32 a)" a] dec32_digits [of "last (dec32 a)" a] by (auto dest!: is_digit_not)

lemma parseUID_dec32 [simp]: "parseUID (dec32 a) = a"
proof -
  have trim: "TrimSpace (dec32 a) = dec32 a" by (simp add: TrimSpace_id dec32_ends)
  have digits: "takeWhile is_digit (dec32 a) = dec32 a" using dec32_digits [of _ a] by simp
  have star: "dec32 a \<noteq> ''*''" using dec32_digits [of "CHR ''*''" a] by (auto simp: is_digit_def)
  have "unat a < 2 ^ LENGTH(32)" by (rule unsigned_less)
  then have "dec_val (dec32 a) < 2 ^ 32" by (simp add: dec32_def dec_val_nat_dec)
  then show ?thesis unfolding parseUID_def Let_def trim digits using star dec32_nonempty [of a] by (simp add: dec32_def dec_val_nat_dec)
qed

lemma parseUID_star [simp]: "parseUID ''*'' = 0"
proof -
  have "TrimSpace ''*'' = ''*''" by (simp add: TrimSpace_id is_space_def)
  then show ?thesis by (simp add: parseUID_def)
qed

lemma seq_text_ends: "seq_text p \<noteq> []" "\<not> is_space (hd (seq_text p))" "\<not> is_space (last (seq_text p))"
  by (cases p; simp add: dec32_ends hd_append; simp add: is_space_def)+

lemma seq_text_comma: "CHR '','' \<notin> set (seq_text p)"
  by (cases p) (auto dest!: dec32_digits is_digit_not)

lemma matches_part_text: "matches_part n (seq_text p) \<longleftrightarrow> seq_has n p"
proof -
  have trim: "TrimSpace (seq_text p) = seq_text p" by (simp add: TrimSpace_id seq_text_ends)
  have colon: "CHR '':'' \<notin> set (dec32 a)" for a by (auto dest!: dec32_digits is_digit_not)
  show ?thesis
    unfolding matches_part_def Let_def trim Contains_char
    by (cases p) (auto simp: colon splitN_two(1) [OF colon])
qed

lemma split_on_Join:
  "ps \<noteq> [] \<Longrightarrow> list_all (\<lambda>p. c \<notin> set p) ps \<Longrightarrow> split_on c (Join [c] ps) = ps"
proof (induction ps rule: induct_list012)
  case (2 p)
  then show ?case by (subst split_on.simps) (simp add: cut_at_none)
next
  case (3 p q ps)
  then show ?case by (subst split_on.simps) (simp add: cut_at_first)
qed simp

lemma Join_ends:
  assumes "ps \<noteq> []" "list_all (\<lambda>p. p \<noteq> []) ps"
  shows "Join sep ps \<noteq> []" "hd (Join sep ps) = hd (hd ps)" "last (Join sep ps) = last (last ps)"
  using assms by (induction ps rule: induct_list012) (auto simp: hd_append)



section \<open>Flags\<close>

definition kept_flags :: "mail_flags list" where
  "kept_flags = [FlagSeen, FlagAnswered, FlagFlagged, FlagDeleted, FlagDraft]"

lemma flag_of_cases: "flag_of name = 0 \<or> flag_of name \<in> set kept_flags"
  by (simp add: flag_of_def kept_flags_def Let_def)

lemma has_flag_or: "has_flag (a OR b) f \<longleftrightarrow> has_flag a f \<or> has_flag b f"
  by (auto simp: has_flag_def bit_eq_iff bit_simps)

lemma has_flag_own: "f \<in> set kept_flags \<Longrightarrow> has_flag (flag_of name) f \<longleftrightarrow> flag_of name = f"
  using flag_of_cases [of name] by (auto simp: kept_flags_def has_flag_def mail_flag_defs)

lemma has_flag_clear:
  assumes "f \<in> set kept_flags"
  shows "has_flag (clear_flag name a) f \<longleftrightarrow> has_flag a f \<and> flag_of name \<noteq> f"
proof -
  have "NOT (flag_of name) AND f = (if flag_of name = f then 0 else f)"
    using assms flag_of_cases [of name] by (auto simp: kept_flags_def mail_flag_defs)
  then show ?thesis by (simp add: has_flag_def clear_flag_def and.assoc)
qed

lemma fold_set_flag: "f \<in> set kept_flags \<Longrightarrow> has_flag (fold set_flag names a) f \<longleftrightarrow> has_flag a f \<or> f \<in> set (map flag_of names)"
  by (induction names arbitrary: a) (auto simp: set_flag_def has_flag_or has_flag_own)

lemma fold_clear_flag: "f \<in> set kept_flags \<Longrightarrow> has_flag (fold clear_flag names a) f \<longleftrightarrow> has_flag a f \<and> f \<notin> set (map flag_of names)"
  by (induction names arbitrary: a) (auto simp: has_flag_clear)

text \<open>
  What STORE does to the flags of a message it matches: with a plus sign it adds the named flags and keeps the others, with a minus
  sign it takes the named flags away. Without a sign it adds them as well and never clears one, where IMAP asks for the flags to be replaced.\<close>

theorem imap_store_flags:
  assumes "f \<in> set kept_flags" and "matchesSequenceSet (maUID m) seqSet"
  shows "has_flag (maFlags (store_one seqSet ''+FLAGS'' names m)) f \<longleftrightarrow> has_flag (maFlags m) f \<or> f \<in> set (map flag_of names)"
    and "has_flag (maFlags (store_one seqSet ''-FLAGS'' names m)) f \<longleftrightarrow> has_flag (maFlags m) f \<and> f \<notin> set (map flag_of names)"
    and "store_one seqSet ''FLAGS'' names m = store_one seqSet ''+FLAGS'' names m"
  using assms fold_set_flag [OF assms(1), of names "maFlags m"] fold_clear_flag [OF assms(1), of names "maFlags m"]
  by (simp_all add: store_one_def store_flags_def)

theorem imap_store_flags_witness:
  "has_flag (maFlags (store_one ''1:*'' ''-FLAGS'' [bs ''Seen''] (hd (mbMessages demo_mailbox)))) FlagSeen = False
   \<and> has_flag (maFlags (store_one ''1:*'' ''FLAGS'' [bs ''Deleted''] (hd (mbMessages demo_mailbox)))) FlagSeen"
proof -
  let ?m = "hd (mbMessages demo_mailbox)"
  have "matchesSequenceSet (maUID ?m) ''1:*''" "FlagSeen \<in> set kept_flags" by code_simp+
  moreover have "flag_of (bs ''Seen'') = FlagSeen" "has_flag (maFlags ?m) FlagSeen" by code_simp+
  ultimately show ?thesis
    using imap_store_flags [of FlagSeen ?m "''1:*''" "[bs ''Seen'']"] imap_store_flags [of FlagSeen ?m "''1:*''" "[bs ''Deleted'']"] by simp
qed

end
