(* ===== verification/Registry_Package.thy ===== *)
theory Registry_Package
  imports Go_Text
begin

text \<open>
  Packages (\<open>pkg/services/registry/manifest.go\<close> and \<open>package.go\<close>): the manifest and its checks, the package file and
  the checksums of its files. YAML, tar with gzip, and SHA-256 are parameters. A nil map or slice is \<open>None\<close>; the
  order in which a map is ranged over is an argument.
\<close>

section \<open>Manifests\<close>

record manifest =
  mnName :: string
  mnVersion :: string
  mnDescription :: string
  mnAuthor :: string
  mnHomepage :: string
  mnLicense :: string
  mnEntry :: string
  mnPlatform :: "string list option"
  mnDependencies :: "string list option"
  mnChecksums :: "(string \<rightharpoonup> string) option"
  mnSize :: int
  mnCreated :: gotime

record validation_error =
  veField :: string
  veMessage :: string

definition blank :: "string \<Rightarrow> bool" where
  "blank s \<longleftrightarrow> TrimSpace s = []"

definition Manifest_Validate :: "manifest option \<Rightarrow> validation_error option" where
  "Manifest_Validate mo =
     (let fail = (\<lambda>f msg. Some \<lparr>veField = f, veMessage = msg\<rparr>)
      in case mo of
           None \<Rightarrow> fail [] ''manifest is nil''
         | Some m \<Rightarrow>
             if blank (mnName m) then fail ''name'' ''must not be empty''
             else if blank (mnVersion m) then fail ''version'' ''must not be empty''
             else if blank (mnEntry m) then fail ''entry'' ''must not be empty''
             else if blank (mnAuthor m) then fail ''author'' ''must not be empty''
             else if mnSize m < 0 then fail ''size'' ''must be non-negative''
             else if mnChecksums m = None then fail ''checksums'' ''must not be nil''
             else None)"

definition Manifest_IsValid :: "manifest option \<Rightarrow> bool" where
  "Manifest_IsValid mo \<longleftrightarrow> Manifest_Validate mo = None"

definition ValidateDetailed :: "manifest option \<Rightarrow> validation_error list" where
  "ValidateDetailed mo =
     (let err = (\<lambda>bad f msg. if bad then [\<lparr>veField = f, veMessage = msg\<rparr>] else [])
      in case mo of
           None \<Rightarrow> [\<lparr>veField = [], veMessage = ''manifest is nil''\<rparr>]
         | Some m \<Rightarrow>
             err (blank (mnName m)) ''name'' ''must not be empty'' @ err (blank (mnVersion m)) ''version'' ''must not be empty''
             @ err (blank (mnEntry m)) ''entry'' ''must not be empty'' @ err (blank (mnAuthor m)) ''author'' ''must not be empty''
             @ err (mnSize m < 0) ''size'' ''must be non-negative'' @ err (mnChecksums m = None) ''checksums'' ''must not be nil'')"

definition SetDefaults :: "gotime \<Rightarrow> manifest \<Rightarrow> manifest" where
  "SetDefaults now m =
     m\<lparr>mnChecksums := (case mnChecksums m of None \<Rightarrow> Some Map.empty | c \<Rightarrow> c),
       mnPlatform := (case mnPlatform m of None \<Rightarrow> Some [] | p \<Rightarrow> p),
       mnDependencies := (case mnDependencies m of None \<Rightarrow> Some [] | d \<Rightarrow> d),
       mnCreated := (if mnCreated m = 0 then now else mnCreated m),
       mnLicense := (if mnLicense m = [] then ''MIT'' else mnLicense m)\<rparr>"

definition PackageID :: "(bytes \<Rightarrow> bytes) \<Rightarrow> string \<Rightarrow> string \<Rightarrow> string \<Rightarrow> string" where
  "PackageID sha256 name version author = hex_encode (take 16 (sha256 (str_bytes (name @ ''|'' @ version @ ''|'' @ author))))"

definition IsValidPlatform :: "string list \<Rightarrow> string \<Rightarrow> bool" where
  "IsValidPlatform platforms target \<longleftrightarrow> target = [] \<or> list_ex (\<lambda>p. p = target \<or> p = ''any'' \<or> p = ''*'') platforms"

text \<open>The first error of \<open>Validate\<close> is the first of the errors that \<open>ValidateDetailed\<close> lists, and the defaults repair only the checksums.\<close>

lemma Validate_first: "Manifest_Validate mo = (case ValidateDetailed mo of [] \<Rightarrow> None | e # _ \<Rightarrow> Some e)"
  by (auto simp: Manifest_Validate_def ValidateDetailed_def Let_def split: option.split)

lemma SetDefaults_valid:
  "Manifest_IsValid (Some (SetDefaults now m)) \<longleftrightarrow> Manifest_IsValid (Some (m\<lparr>mnChecksums := Some Map.empty\<rparr>))"
  by (auto simp: Manifest_IsValid_def Manifest_Validate_def SetDefaults_def Let_def split: option.split)

text \<open>The fields of an identifier are not delimited: a bar moves a part of one field into the next.\<close>

lemma PackageID_ambiguous: "PackageID sha256 (a @ ''|'' @ b) c d = PackageID sha256 a (b @ ''|'' @ c) d"
  by (simp add: PackageID_def)

section \<open>Package files\<close>

record lwpkg =
  lpManifest :: "manifest option"
  lpFiles :: "string \<rightharpoonup> bytes"
  lpSignature :: bytes

definition ManifestPath :: string where "ManifestPath = ''manifest.yaml''"
definition FilesDir :: string where "FilesDir = ''files/''"
definition Ed25519SignatureSize :: nat where "Ed25519SignatureSize = 64"

datatype package_error = NoManifest | MarshalFails | ArchiveFails | TooShort | GzipReader | TarRead | ManifestParse | NoChecksums | MissingFile string | ChecksumMismatch string

text \<open>
  \<open>pack\<close> writes named contents as a compressed archive. \<open>unpack\<close> reads one: \<open>None\<close> when it is not compressed data, else the
  entries up to the end or to the first that cannot be read, and whether the end was reached.
\<close>

type_synonym tar_entry = "bool \<times> string \<times> bytes"
type_synonym unpacker = "bytes \<Rightarrow> (tar_entry list \<times> bool) option"

definition tar_content :: "bytes \<Rightarrow> string list \<Rightarrow> (string \<rightharpoonup> bytes) \<Rightarrow> (string \<times> bytes) list" where
  "tar_content yaml order files = (ManifestPath, yaml) # map (\<lambda>n. (FilesDir @ n, the (files n))) (filter (\<lambda>n. files n \<noteq> None) order)"

definition EncodeLWPKG ::
  "((string \<times> bytes) list \<Rightarrow> bytes option) \<Rightarrow> (manifest \<Rightarrow> bytes option) \<Rightarrow> string list \<Rightarrow> lwpkg \<Rightarrow> package_error + bytes" where
  "EncodeLWPKG pack yaml order p =
     (case lpManifest p of
        None \<Rightarrow> Inl NoManifest
      | Some m \<Rightarrow>
          (case yaml m of
             None \<Rightarrow> Inl MarshalFails
           | Some y \<Rightarrow>
               (case pack (tar_content y order (lpFiles p)) of
                  None \<Rightarrow> Inl ArchiveFails
                | Some archive \<Rightarrow> Inr (archive @ lpSignature p))))"

fun read_entries :: "(bytes \<Rightarrow> manifest option) \<Rightarrow> bool \<Rightarrow> tar_entry list \<Rightarrow> lwpkg \<Rightarrow> package_error + lwpkg" where
  "read_entries unyaml ok [] p = (if \<not> ok then Inl TarRead else if lpManifest p = None then Inl NoManifest else Inr p)"
| "read_entries unyaml ok ((dir, name, data) # es) p =
     (if dir then read_entries unyaml ok es p
      else if name = ManifestPath
      then (case unyaml data of None \<Rightarrow> Inl ManifestParse | Some m \<Rightarrow> read_entries unyaml ok es (p\<lparr>lpManifest := Some m\<rparr>))
      else if HasPrefix name FilesDir \<and> length name > length FilesDir
      then (let fname = drop (length FilesDir) name
            in read_entries unyaml ok es (if fname \<noteq> ''/'' then p\<lparr>lpFiles := (lpFiles p)(fname \<mapsto> data)\<rparr> else p))
      else read_entries unyaml ok es p)"

definition DecodeLWPKG :: "unpacker \<Rightarrow> (bytes \<Rightarrow> manifest option) \<Rightarrow> bytes \<Rightarrow> package_error + lwpkg \<times> bytes" where
  "DecodeLWPKG unpack unyaml data =
     (if length data < Ed25519SignatureSize then Inl TooShort
      else let n = length data - Ed25519SignatureSize; signature = drop n data
           in case unpack (take n data) of
                None \<Rightarrow> Inl GzipReader
              | Some (es, ok) \<Rightarrow>
                  (case read_entries unyaml ok es \<lparr>lpManifest = None, lpFiles = Map.empty, lpSignature = signature\<rparr> of
                     Inl e \<Rightarrow> Inl e
                   | Inr p \<Rightarrow> Inr (p, signature)))"

definition ComputeArchiveHash :: "(bytes \<Rightarrow> bytes) \<Rightarrow> bytes \<Rightarrow> package_error + bytes" where
  "ComputeArchiveHash sha256 data =
     (if length data < Ed25519SignatureSize then Inl TooShort else Inr (sha256 (take (length data - Ed25519SignatureSize) data)))"

fun check_sums :: "(bytes \<Rightarrow> bytes) \<Rightarrow> (string \<rightharpoonup> bytes) \<Rightarrow> (string \<rightharpoonup> string) \<Rightarrow> string list \<Rightarrow> package_error option" where
  "check_sums sha256 files cks [] = None"
| "check_sums sha256 files cks (n # ns) =
     (case cks n of
        None \<Rightarrow> check_sums sha256 files cks ns
      | Some expected \<Rightarrow>
          (case files n of
             None \<Rightarrow> Some (MissingFile n)
           | Some data \<Rightarrow> if hex_encode (sha256 data) \<noteq> expected then Some (ChecksumMismatch n) else check_sums sha256 files cks ns))"

definition Package_VerifyIntegrity :: "(bytes \<Rightarrow> bytes) \<Rightarrow> string list \<Rightarrow> lwpkg \<Rightarrow> package_error option" where
  "Package_VerifyIntegrity sha256 order p =
     (case lpManifest p of
        None \<Rightarrow> Some NoManifest
      | Some m \<Rightarrow> (case mnChecksums m of None \<Rightarrow> Some NoChecksums | Some cks \<Rightarrow> check_sums sha256 (lpFiles p) cks order))"

section \<open>Encoding and checking\<close>

lemma check_sums_none:
  "check_sums sha256 files cks ns = None \<longleftrightarrow>
     (\<forall>n\<in>set ns. \<forall>x. cks n = Some x \<longrightarrow> (\<exists>d. files n = Some d \<and> hex_encode (sha256 d) = x))"
  by (induction ns) (auto split: option.split)

text \<open>Every file whose checksum is listed has the listed content; other files are not looked at.\<close>

lemma integrity_exact:
  assumes "lpManifest p = Some m" "mnChecksums m = Some cks" "dom cks \<subseteq> set order"
  shows "Package_VerifyIntegrity sha256 order p = None \<longleftrightarrow> cks \<subseteq>\<^sub>m (\<lambda>n. map_option (hex_encode \<circ> sha256) (lpFiles p n))"
  using assms by (fastforce simp: Package_VerifyIntegrity_def check_sums_none map_le_def dom_def subset_iff)

lemma integrity_ignores_unlisted:
  assumes "lpManifest p = Some m" "mnChecksums m = Some cks" "n \<notin> dom cks"
  shows "Package_VerifyIntegrity sha256 order (p\<lparr>lpFiles := (lpFiles p)(n \<mapsto> data)\<rparr>) = Package_VerifyIntegrity sha256 order p"
proof -
  have "check_sums sha256 ((lpFiles p)(n \<mapsto> data)) cks ns = check_sums sha256 (lpFiles p) cks ns" for ns
    using assms(3) by (induction ns) (auto split: option.splits)
  with assms show ?thesis by (simp add: Package_VerifyIntegrity_def)
qed

definition file_name_ok :: "string \<Rightarrow> bool" where
  "file_name_ok n \<longleftrightarrow> n \<noteq> [] \<and> n \<noteq> ''/''"

lemma files_not_manifest: "FilesDir @ n \<noteq> ManifestPath"
  by (simp add: FilesDir_def ManifestPath_def)

lemma read_files:
  assumes "list_all file_name_ok ns"
  shows "read_entries unyaml ok (map (\<lambda>n. (False, FilesDir @ n, c n)) ns) p =
     read_entries unyaml ok [] (p\<lparr>lpFiles := lpFiles p ++ map_of (rev (map (\<lambda>n. (n, c n)) ns))\<rparr>)"
  using assms
proof (induction ns arbitrary: p)
  case (Cons n ns)
  have "HasPrefix (FilesDir @ n) FilesDir" by (simp add: HasPrefix_def)
  moreover have "(lpFiles p)(n \<mapsto> c n) ++ f = lpFiles p ++ [n \<mapsto> c n] ++ f" for f by simp
  ultimately show ?case using Cons by (simp add: files_not_manifest file_name_ok_def Let_def)
qed simp

lemma restore_files:
  assumes "dom files \<subseteq> set order"
  shows "map_of (rev (map (\<lambda>n. (n, the (files n))) (filter (\<lambda>n. files n \<noteq> None) order))) = files"
proof
  fix n
  let ?ns = "filter (\<lambda>n. files n \<noteq> None) order"
  have "map_of (map (\<lambda>n. (n, the (files n))) ns) n = (if n \<in> set ns then Some (the (files n)) else None)" for ns
    by (induction ns) auto
  from this [of "rev ?ns"] show "map_of (rev (map (\<lambda>n. (n, the (files n))) ?ns)) n = files n"
    using assms by (cases "files n") (auto simp: rev_map)
qed

text \<open>
  A signed package survives its file. When the archiver and the YAML library invert themselves and the signature
  has the length of an Ed25519 signature, decoding the encoded package gives back the manifest, every file and the signature.
\<close>

theorem registry_package_roundtrip:
  assumes archive: "\<And>es a. pack es = Some a \<Longrightarrow> unpack a = Some (map (\<lambda>(n, d). (False, n, d)) es, True)"
    and yaml: "\<And>m y. yaml m = Some y \<Longrightarrow> unyaml y = Some m"
    and "EncodeLWPKG pack yaml order p = Inr data" "length (lpSignature p) = Ed25519SignatureSize"
    and "dom (lpFiles p) \<subseteq> set order" "list_all file_name_ok order"
  shows "DecodeLWPKG unpack unyaml data = Inr (p, lpSignature p)"
proof -
  let ?ns = "filter (\<lambda>n. lpFiles p n \<noteq> None) order"
  obtain m y a where m: "lpManifest p = Some m" and y: "yaml m = Some y" and a: "pack (tar_content y order (lpFiles p)) = Some a"
    and data: "data = a @ lpSignature p"
    using assms(3) by (auto simp: EncodeLWPKG_def split: option.splits)
  have entries: "map (\<lambda>(n, d). (False, n, d)) (tar_content y order (lpFiles p))
      = (False, ManifestPath, y) # map (\<lambda>n. (False, FilesDir @ n, the (lpFiles p n))) ?ns"
    by (simp add: tar_content_def)
  have un: "unpack a = Some ((False, ManifestPath, y) # map (\<lambda>n. (False, FilesDir @ n, the (lpFiles p n))) ?ns, True)"
    using archive [OF a] entries by simp
  have "list_all file_name_ok ?ns" using assms(6) by (auto simp: list_all_iff)
  then have "read_entries unyaml True ((False, ManifestPath, y) # map (\<lambda>n. (False, FilesDir @ n, the (lpFiles p n))) ?ns)
      \<lparr>lpManifest = None, lpFiles = Map.empty, lpSignature = lpSignature p\<rparr> = Inr p"
    using m by (simp add: yaml [OF y] read_files restore_files [OF assms(5), simplified])
  then show ?thesis using assms(4) by (simp add: DecodeLWPKG_def data un Let_def)
qed

text \<open>A toy archiver and a YAML library for one manifest, for the witness.\<close>

definition demo_manifest :: manifest where
  "demo_manifest = \<lparr>mnName = ''app'', mnVersion = ''1'', mnDescription = [], mnAuthor = ''al'', mnHomepage = [], mnLicense = ''MIT'', mnEntry = ''main'',
     mnPlatform = None, mnDependencies = None, mnChecksums = Some [''main'' \<mapsto> ''07''], mnSize = 1, mnCreated = 5\<rparr>"

definition demo_package :: lwpkg where
  "demo_package = \<lparr>lpManifest = Some demo_manifest, lpFiles = [''main'' \<mapsto> [7]], lpSignature = replicate 64 9\<rparr>"

definition demo_entries :: "(string \<times> bytes) list" where
  "demo_entries = [(''manifest.yaml'', [1]), (''files/main'', [7])]"

definition demo_pack :: "(string \<times> bytes) list \<Rightarrow> bytes option" where
  "demo_pack es = (if es = demo_entries then Some [1, 2, 3] else None)"

definition demo_unpack :: unpacker where
  "demo_unpack a = (if a = [1, 2, 3] then Some (map (\<lambda>(n, d). (False, n, d)) demo_entries, True) else None)"

definition demo_yaml :: "manifest \<Rightarrow> bytes option" where
  "demo_yaml m = (if m = demo_manifest then Some [1] else None)"

definition demo_unyaml :: "bytes \<Rightarrow> manifest option" where
  "demo_unyaml y = (if y = [1] then Some demo_manifest else None)"

theorem registry_package_roundtrip_witness:
  "DecodeLWPKG demo_unpack demo_unyaml ([1, 2, 3] @ replicate 64 9) = Inr (demo_package, replicate 64 9)"
proof -
  have enc: "EncodeLWPKG demo_pack demo_yaml [''main''] demo_package = Inr ([1, 2, 3] @ replicate 64 9)"
    by (simp add: EncodeLWPKG_def demo_package_def demo_yaml_def demo_pack_def demo_entries_def tar_content_def ManifestPath_def FilesDir_def)
  have "DecodeLWPKG demo_unpack demo_unyaml ([1, 2, 3] @ replicate 64 9) = Inr (demo_package, lpSignature demo_package)"
    by (rule registry_package_roundtrip [OF _ _ enc])
       (auto simp: demo_pack_def demo_unpack_def demo_yaml_def demo_unyaml_def demo_package_def Ed25519SignatureSize_def file_name_ok_def split: if_splits)
  then show ?thesis by (simp add: demo_package_def)
qed

end
