(* ===== verification/Registry.thy ===== *)
theory Registry
  imports Registry_Package Dht_Client Sec_Capability
begin

text \<open>
  The package registry (\<open>pkg/services/registry/registry.go\<close>), its distribution over the DHT (\<open>distribute.go\<close>) and its HTTP
  interface (\<open>server.go\<close>). \<open>json.Unmarshal\<close>, Ed25519 and the parsing of HTTP requests are parameters; the order in which a
  map is ranged over is an argument. A slice out of range panics, which is \<open>None\<close>.
\<close>

section \<open>The registry\<close>

record package_meta =
  pmID :: string
  pmName :: string
  pmVersion :: string
  pmDescription :: string
  pmAuthor :: string
  pmPlatform :: "string list option"
  pmEntry :: string
  pmPublished :: gotime
  pmUpdated :: gotime
  pmDownloads :: int
  pmVerified :: bool
  pmPublisherID :: bytes

record search_query =
  sqQuery :: string
  sqPlatform :: string
  sqAuthor :: string
  sqVerified :: bool
  sqLimit :: int
  sqOffset :: int

record query_result =
  srPackages :: "package_meta list"
  srTotal :: nat
  srLimit :: int
  srOffset :: int

record memory_registry =
  rgPackages :: "string \<rightharpoonup> package_meta"
  rgStore :: "string \<rightharpoonup> lwpkg"
  rgDistributor :: bool

datatype registry_error = ErrManifestInvalid "validation_error option" | ErrPackageExists | ErrPackageNotFound

definition NewMemoryRegistry :: memory_registry where
  "NewMemoryRegistry = \<lparr>rgPackages = Map.empty, rgStore = Map.empty, rgDistributor = False\<rparr>"

definition RegisterDistributor :: "memory_registry \<Rightarrow> memory_registry" where
  "RegisterDistributor r = r\<lparr>rgDistributor := True\<rparr>"

definition new_meta :: "gotime \<Rightarrow> string \<Rightarrow> manifest \<Rightarrow> lwpkg \<Rightarrow> bytes \<Rightarrow> package_meta" where
  "new_meta now i m p pub =
     \<lparr>pmID = i, pmName = mnName m, pmVersion = mnVersion m, pmDescription = mnDescription m, pmAuthor = mnAuthor m, pmPlatform = mnPlatform m,
      pmEntry = mnEntry m, pmPublished = now, pmUpdated = now, pmDownloads = 0, pmVerified = (lpSignature p \<noteq> []), pmPublisherID = pub\<rparr>"

text \<open>\<open>Publish\<close>: the result, the metadata handed to the distributor, and the registry.\<close>

definition Registry_Publish ::
  "(bytes \<Rightarrow> bytes) \<Rightarrow> gotime \<Rightarrow> lwpkg option \<Rightarrow> bytes \<Rightarrow> memory_registry \<Rightarrow> (registry_error + string) \<times> package_meta list \<times> memory_registry" where
  "Registry_Publish sha256 now po pub r =
     (case po of
        None \<Rightarrow> (Inl (ErrManifestInvalid None), [], r)
      | Some p \<Rightarrow>
          (case lpManifest p of
             None \<Rightarrow> (Inl (ErrManifestInvalid None), [], r)
           | Some m \<Rightarrow>
               (case Manifest_Validate (Some m) of
                  Some e \<Rightarrow> (Inl (ErrManifestInvalid (Some e)), [], r)
                | None \<Rightarrow>
                    let i = PackageID sha256 (mnName m) (mnVersion m) (mnAuthor m)
                    in if rgPackages r i \<noteq> None then (Inl ErrPackageExists, [], r)
                       else let meta = new_meta now i m p pub
                            in (Inr i, if rgDistributor r then [meta] else [],
                                r\<lparr>rgPackages := (rgPackages r)(i \<mapsto> meta), rgStore := (rgStore r)(i \<mapsto> p)\<rparr>))))"

definition Install :: "string \<Rightarrow> memory_registry \<Rightarrow> registry_error + lwpkg" where
  "Install i r = (case rgStore r i of None \<Rightarrow> Inl ErrPackageNotFound | Some p \<Rightarrow> Inr p)"

definition Registry_List :: "string list \<Rightarrow> memory_registry \<Rightarrow> package_meta list" where
  "Registry_List order r = List.map_filter (rgPackages r) order"

definition EqualFold :: "string \<Rightarrow> string \<Rightarrow> bool" where
  "EqualFold a b \<longleftrightarrow> ToLower a = ToLower b"

definition fold_platform :: "string list \<Rightarrow> string \<Rightarrow> bool" where
  "fold_platform platforms target = list_ex (\<lambda>p. EqualFold p target \<or> p = ''any'' \<or> p = ''*'') platforms"

definition matchesQueryFilter :: "package_meta \<Rightarrow> search_query \<Rightarrow> bool" where
  "matchesQueryFilter m q =
     (if sqQuery q \<noteq> [] \<and> (let s = ToLower (sqQuery q) in \<not> Contains (ToLower (pmName m)) s
          \<and> \<not> Contains (ToLower (pmDescription m)) s \<and> \<not> Contains (ToLower (pmAuthor m)) s) then False
      else if sqPlatform q \<noteq> [] \<and> \<not> fold_platform (case pmPlatform m of None \<Rightarrow> [] | Some ps \<Rightarrow> ps) (sqPlatform q) then False
      else if sqAuthor q \<noteq> [] \<and> \<not> EqualFold (pmAuthor m) (sqAuthor q) then False
      else \<not> (sqVerified q \<and> \<not> pmVerified m))"

definition DefaultSearchLimit :: int where "DefaultSearchLimit = 50"
definition MaxSearchLimit :: int where "MaxSearchLimit = 200"

definition search_limit :: "int \<Rightarrow> int" where
  "search_limit l = min (if l \<le> 0 then DefaultSearchLimit else l) MaxSearchLimit"

definition Registry_Search :: "string list \<Rightarrow> search_query \<Rightarrow> memory_registry \<Rightarrow> query_result option" where
  "Registry_Search order q r =
     (let filtered = filter (\<lambda>m. matchesQueryFilter m q) (Registry_List order r);
          total = length filtered; limit = search_limit (sqLimit q);
          start = min (sqOffset q) (int total); stop = min (start + limit) (int total)
      in if start < 0 then None
         else Some \<lparr>srPackages = take (nat stop - nat start) (drop (nat start) filtered), srTotal = total, srLimit = limit, srOffset = start\<rparr>)"

definition Registry_Get :: "string \<Rightarrow> memory_registry \<Rightarrow> registry_error + package_meta" where
  "Registry_Get i r = (case rgPackages r i of None \<Rightarrow> Inl ErrPackageNotFound | Some m \<Rightarrow> Inr m)"

definition Registry_Delete :: "string \<Rightarrow> memory_registry \<Rightarrow> registry_error option \<times> memory_registry" where
  "Registry_Delete i r =
     (if rgPackages r i = None then (Some ErrPackageNotFound, r)
      else (None, r\<lparr>rgPackages := (rgPackages r)(i := None), rgStore := (rgStore r)(i := None)\<rparr>))"

section \<open>The HTTP interface\<close>

record publish_request =
  prPackageData :: "bytes option"
  prSignature :: bytes
  prPublisherPubKey :: bytes

text \<open>A request: the body is the decoded JSON of a publication, \<open>None\<close> when it does not decode; an absent query parameter is empty.\<close>

record http_request =
  hqMethod :: string
  hqPath :: string
  hqQuery :: "string \<Rightarrow> string"
  hqBody :: "publish_request option"

datatype http_body = Problem string | Healthy | Metas "package_meta list" | Meta package_meta | Found query_result | NewID string | NoContent

type_synonym http_response = "nat \<times> http_body"

text \<open>The libraries and the environment: archive and YAML readers, hash, signature check, clock and the orders of the maps.\<close>

record registry_env =
  reUnpack :: unpacker
  reUnyaml :: "bytes \<Rightarrow> manifest option"
  reSha256 :: "bytes \<Rightarrow> bytes"
  reVerify :: "bytes \<Rightarrow> bytes \<Rightarrow> bytes \<Rightarrow> bool"
  reNow :: gotime
  reOrder :: "string list"
  reSumOrder :: "lwpkg \<Rightarrow> string list"

definition publishPackage :: "registry_env \<Rightarrow> publish_request option \<Rightarrow> memory_registry \<Rightarrow> http_response \<times> package_meta list \<times> memory_registry" where
  "publishPackage env body r =
     (case body of
        None \<Rightarrow> ((400, Problem ''bad request''), [], r)
      | Some req \<Rightarrow>
          (case prPackageData req of
             None \<Rightarrow> ((400, Problem ''package data and signature required''), [], r)
           | Some data \<Rightarrow>
               if prSignature req = [] then ((400, Problem ''package data and signature required''), [], r)
               else if length (prPublisherPubKey req) \<noteq> 32 then ((400, Problem ''invalid publisher public key length''), [], r)
               else let combined = data @ prSignature req
                    in (case DecodeLWPKG (reUnpack env) (reUnyaml env) combined of
                          Inl _ \<Rightarrow> ((400, Problem ''invalid package''), [], r)
                        | Inr (p, _) \<Rightarrow>
                            if Package_VerifyIntegrity (reSha256 env) (reSumOrder env p) p \<noteq> None
                            then ((400, Problem ''integrity check failed''), [], r)
                            else if \<not> crypto_Verify (reVerify env) (prPublisherPubKey req)
                                   (take (length combined - Ed25519SignatureSize) combined) (prSignature req)
                            then ((401, Problem ''signature verification failed''), [], r)
                            else (case Registry_Publish (reSha256 env) (reNow env) (Some p) (prPublisherPubKey req) r of
                                    (Inr i, metas, r') \<Rightarrow> ((201, NewID i), metas, r')
                                  | (Inl ErrPackageExists, metas, r') \<Rightarrow> ((409, Problem ''package already exists''), metas, r')
                                  | (Inl _, metas, r') \<Rightarrow> ((500, Problem ''publish failed''), metas, r')))))"

definition getPackage :: "string \<Rightarrow> memory_registry \<Rightarrow> http_response" where
  "getPackage i r = (case Registry_Get i r of Inl _ \<Rightarrow> (404, Problem ''not found'') | Inr m \<Rightarrow> (200, Meta m))"

definition deletePackage :: "string \<Rightarrow> memory_registry \<Rightarrow> http_response \<times> memory_registry" where
  "deletePackage i r =
     (case Registry_Delete i r of (Some _, r') \<Rightarrow> ((404, Problem ''not found''), r') | (None, r') \<Rightarrow> ((204, NoContent), r'))"

text \<open>\<open>atoiDefault\<close>: \<open>Sscanf\<close> skips blanks and reads a sign and digits; a value beyond 64 bits is an error.\<close>

definition scan_int :: "string \<Rightarrow> int option" where
  "scan_int s =
     (let t = dropWhile (\<lambda>c. is_space c \<and> c \<noteq> CHR 0x0A) s;
          neg = (t \<noteq> [] \<and> hd t = CHR ''-'');
          u = (if t \<noteq> [] \<and> (hd t = CHR ''-'' \<or> hd t = CHR ''+'') then tl t else t);
          ds = takeWhile (\<lambda>c. 48 \<le> (of_char c :: nat) \<and> (of_char c :: nat) < 58) u;
          v = (if neg then - int (dec_val ds) else int (dec_val ds))
      in if ds = [] \<or> v < - (2 ^ 63) \<or> v \<ge> 2 ^ 63 then None else Some v)"

definition atoiDefault :: "string \<Rightarrow> int \<Rightarrow> int" where
  "atoiDefault s def = (case scan_int s of None \<Rightarrow> def | Some n \<Rightarrow> n)"

definition handleSearch :: "registry_env \<Rightarrow> http_request \<Rightarrow> memory_registry \<Rightarrow> http_response option" where
  "handleSearch env req r =
     (if hqMethod req \<noteq> ''GET'' then Some (405, Problem ''method not allowed'')
      else let l = atoiDefault (hqQuery req ''limit'') DefaultSearchLimit;
               q = \<lparr>sqQuery = hqQuery req ''q'', sqPlatform = [], sqAuthor = hqQuery req ''author'', sqVerified = False,
                    sqLimit = (if l \<le> 0 \<or> l > MaxSearchLimit then DefaultSearchLimit else l), sqOffset = atoiDefault (hqQuery req ''offset'') 0\<rparr>
           in map_option (\<lambda>res. (200, Found res)) (Registry_Search (reOrder env) q r))"

definition handlePackages :: "registry_env \<Rightarrow> http_request \<Rightarrow> memory_registry \<Rightarrow> http_response \<times> package_meta list \<times> memory_registry" where
  "handlePackages env req r =
     (if hqMethod req = ''GET'' then ((200, Metas (Registry_List (reOrder env) r)), [], r)
      else if hqMethod req = ''POST'' then publishPackage env (hqBody req) r
      else ((405, Problem ''method not allowed''), [], r))"

definition packages_prefix :: string where "packages_prefix = ''/api/v1/packages/''"

definition handlePackageByID :: "http_request \<Rightarrow> memory_registry \<Rightarrow> http_response \<times> memory_registry" where
  "handlePackageByID req r =
     (let i = drop (length packages_prefix) (hqPath req)
      in if i = [] then ((400, Problem ''missing package ID''), r)
         else if hqMethod req = ''GET'' then (getPackage i r, r)
         else if hqMethod req = ''DELETE'' then deletePackage i r
         else ((405, Problem ''method not allowed''), r))"

definition handleHealth :: "http_request \<Rightarrow> http_response" where
  "handleHealth req = (if hqMethod req \<noteq> ''GET'' then (405, Problem ''method not allowed'') else (200, Healthy))"

text \<open>The routes of \<open>NewHTTPServer\<close> for a clean path: the response, \<open>None\<close> for a panic, the metadata to distribute and the registry.\<close>

definition registry_serve :: "registry_env \<Rightarrow> http_request \<Rightarrow> memory_registry \<Rightarrow> http_response option \<times> package_meta list \<times> memory_registry" where
  "registry_serve env req r =
     (if hqPath req = ''/health'' then (Some (handleHealth req), [], r)
      else if hqPath req = ''/api/v1/packages'' then (case handlePackages env req r of (resp, metas, r') \<Rightarrow> (Some resp, metas, r'))
      else if HasPrefix (hqPath req) packages_prefix then (case handlePackageByID req r of (resp, r') \<Rightarrow> (Some resp, [], r'))
      else if hqPath req = ''/api/v1/search'' then (handleSearch env req r, [], r)
      else (Some (404, Problem ''404 page not found''), [], r))"

section \<open>Distribution over the DHT\<close>

record dht_meta_store =
  dmDht :: dht
  dmPubKey :: bytes
  dmLocal :: "string \<rightharpoonup> package_meta"
  dmAddr :: string
  dmPeersSeen :: nat

definition NewDHTDistributorAt :: "dht \<Rightarrow> bytes \<Rightarrow> string \<Rightarrow> dht_meta_store" where
  "NewDHTDistributorAt d pub addr = \<lparr>dmDht = d, dmPubKey = pub, dmLocal = Map.empty, dmAddr = addr, dmPeersSeen = 0\<rparr>"

definition NewDHTDistributor :: "dht \<Rightarrow> bytes \<Rightarrow> dht_meta_store" where
  "NewDHTDistributor d pub = NewDHTDistributorAt d pub []"

text \<open>The transported form keeps times as 64-bit nanoseconds since 1970.\<close>

record meta_alias =
  alMeta :: package_meta
  alPublished :: int64
  alUpdated :: int64

definition from_unixNano :: "int64 \<Rightarrow> gotime" where
  "from_unixNano n = sint n + 62135596800000000000"

definition alias_of :: "package_meta \<Rightarrow> meta_alias" where
  "alias_of m = \<lparr>alMeta = m, alPublished = unixNano (pmPublished m), alUpdated = unixNano (pmUpdated m)\<rparr>"

definition json_bool :: "bool \<Rightarrow> bytes" where
  "json_bool b = str_bytes (if b then ''true'' else ''false'')"

definition marshalPackageMeta :: "package_meta \<Rightarrow> bytes" where
  "marshalPackageMeta m = json_object
     [(''id'', json_string (pmID m)), (''name'', json_string (pmName m)), (''version'', json_string (pmVersion m)),
      (''description'', json_string (pmDescription m)), (''author'', json_string (pmAuthor m)),
      (''platform'', case pmPlatform m of None \<Rightarrow> str_bytes ''null'' | Some ps \<Rightarrow> json_array (map json_string ps)), (''entry'', json_string (pmEntry m)),
      (''published'', json_int (sint (unixNano (pmPublished m)))), (''updated'', json_int (sint (unixNano (pmUpdated m)))),
      (''downloads'', json_int (pmDownloads m)), (''verified'', json_bool (pmVerified m)), (''publisher_id'', json_byte_array (pmPublisherID m))]"

definition unmarshalPackageMeta :: "(bytes \<Rightarrow> meta_alias option) \<Rightarrow> bytes \<Rightarrow> package_meta option" where
  "unmarshalPackageMeta unjson data =
     map_option (\<lambda>a. (alMeta a)\<lparr>pmPublished := from_unixNano (alPublished a), pmUpdated := from_unixNano (alUpdated a)\<rparr>) (unjson data)"

definition pkg_key :: "string \<Rightarrow> string" where "pkg_key i = ''pkg:'' @ i"

text \<open>\<open>PublishMeta\<close>: what is sent to the peers, whether \<open>Store\<close> panics, and the new state.\<close>

definition PublishMeta :: "(bytes \<Rightarrow> bytes) \<Rightarrow> package_meta \<Rightarrow> dht_meta_store \<Rightarrow> (string \<times> dht_message) list \<times> bool \<times> dht_meta_store" where
  "PublishMeta sha3 m d =
     (let d' = d\<lparr>dmLocal := (dmLocal d)(pmID m \<mapsto> m)\<rparr>; (calls, err) = Dht_Store sha3 (pkg_key (pmID m)) (marshalPackageMeta m) (dmDht d)
      in (calls, err = Some IndexOutOfRange, d'))"

definition matchesQuery :: "package_meta \<Rightarrow> string \<Rightarrow> bool" where
  "matchesQuery m query \<longleftrightarrow>
     query = [] \<or> (let q = ToLower query in Contains (ToLower (pmName m)) q \<or> Contains (ToLower (pmDescription m)) q \<or> Contains (ToLower (pmAuthor m)) q)"

definition Meta_Local :: "string list \<Rightarrow> dht_meta_store \<Rightarrow> package_meta list" where
  "Meta_Local order d = List.map_filter (dmLocal d) order"

definition SearchMeta ::
  "(bytes \<Rightarrow> bytes) \<Rightarrow> network \<Rightarrow> (bytes \<Rightarrow> string + simple_peer list) \<Rightarrow> (nat \<Rightarrow> gotime) \<Rightarrow> (nat \<Rightarrow> string option) \<Rightarrow> string list \<Rightarrow> string \<Rightarrow> dht_meta_store
     \<Rightarrow> package_meta list \<times> dht_meta_store" where
  "SearchMeta sha3 net ungob clk ctxErr order query d =
     (filter (\<lambda>m. matchesQuery m query) (Meta_Local order d),
      d\<lparr>dmDht := snd (snd (Lookup net ungob clk ctxErr (sha3 (str_bytes (''search:'' @ query))) (dmDht d)))\<rparr>)"

definition AddLocal :: "package_meta \<Rightarrow> dht_meta_store \<Rightarrow> dht_meta_store" where
  "AddLocal m d = d\<lparr>dmLocal := (dmLocal d)(pmID m \<mapsto> m)\<rparr>"

definition RemoveLocal :: "string \<Rightarrow> dht_meta_store \<Rightarrow> dht_meta_store" where
  "RemoveLocal i d = d\<lparr>dmLocal := (dmLocal d)(i := None)\<rparr>"

definition ResolveMeta ::
  "(bytes \<Rightarrow> bytes) \<Rightarrow> network \<Rightarrow> (nat \<Rightarrow> string option) \<Rightarrow> (bytes \<Rightarrow> meta_alias option) \<Rightarrow> string \<Rightarrow> dht_meta_store
     \<Rightarrow> (registry_error + package_meta) \<times> dht_meta_store" where
  "ResolveMeta sha3 net ctxErr unjson i d =
     (case dmLocal d i of
        Some m \<Rightarrow> (Inr m, d)
      | None \<Rightarrow>
          (case Dht_Get sha3 net ctxErr (pkg_key i) (dmDht d) of
             Inl _ \<Rightarrow> (Inl ErrPackageNotFound, d)
           | Inr raw \<Rightarrow>
               (case unmarshalPackageMeta unjson raw of
                  None \<Rightarrow> (Inl ErrPackageNotFound, d)
                | Some m \<Rightarrow> if pmID m \<noteq> i then (Inl ErrPackageNotFound, d) else (Inr m, AddLocal m d))))"

text \<open>One round of \<open>announceAndRefresh\<close>: the calls of the announcement and of each republication.\<close>

definition announceAndRefresh ::
  "(bytes \<Rightarrow> bytes) \<Rightarrow> gotime \<Rightarrow> gotime \<Rightarrow> network \<Rightarrow> (bytes \<Rightarrow> string + simple_peer list) \<Rightarrow> (nat \<Rightarrow> gotime) \<Rightarrow> (nat \<Rightarrow> string option) \<Rightarrow> string list \<Rightarrow> dht_meta_store
     \<Rightarrow> (string \<times> dht_message) list \<times> dht_meta_store" where
  "announceAndRefresh sha3 now now' net ungob clk ctxErr order d =
     (let (calls, d1) = (if dmAddr d = [] then ([], dmDht d)
            else case RegisterNode sha3 now now' (dmPubKey d) ''localweb'' [dmAddr d] MinPoWDifficulty (dmDht d) of (_, calls, d1) \<Rightarrow> (calls, d1));
          d2 = snd (snd (Lookup net ungob clk ctxErr (sha3 (str_bytes ''localweb-refresh'')) d1));
          d' = d\<lparr>dmDht := d2, dmPeersSeen := PeerCount d2\<rparr>
      in (calls @ concat (map (\<lambda>m. fst (Dht_Store sha3 (pkg_key (pmID m)) (marshalPackageMeta m) d2)) (Meta_Local order d')), d'))"

definition memorySync :: "(bytes \<Rightarrow> bytes) \<Rightarrow> string list \<Rightarrow> dht_meta_store \<Rightarrow> (string \<times> dht_message) list \<times> dht_meta_store" where
  "memorySync sha3 order d =
     foldl (\<lambda>(calls, d) m. case PublishMeta sha3 m d of (c, _, d') \<Rightarrow> (calls @ c, d')) ([], d) (Meta_Local order d)"

definition PackageMetaKey :: "(bytes \<Rightarrow> bytes) \<Rightarrow> string \<Rightarrow> string" where
  "PackageMetaKey sha256 i = hex_encode (take 8 (sha256 (str_bytes (''lwpkg:'' @ i))))"

section \<open>Everything published is signed\<close>

text \<open>A package that a request with a valid signature brought: its archive is signed by the key, and the listed checksums are right.\<close>

definition authentic :: "registry_env \<Rightarrow> bytes \<Rightarrow> lwpkg \<Rightarrow> bool" where
  "authentic env pub p \<longleftrightarrow>
     (\<exists>archive. reVerify env pub archive (lpSignature p) \<and> DecodeLWPKG (reUnpack env) (reUnyaml env) (archive @ lpSignature p) = Inr (p, lpSignature p))
     \<and> Package_VerifyIntegrity (reSha256 env) (reSumOrder env p) p = None"

definition registry_ok :: "registry_env \<Rightarrow> memory_registry \<Rightarrow> bool" where
  "registry_ok env r \<longleftrightarrow>
     (\<forall>i. rgPackages r i = None \<longleftrightarrow> rgStore r i = None) \<and>
     (\<forall>i p m. rgStore r i = Some p \<longrightarrow> rgPackages r i = Some m \<longrightarrow> pmID m = i \<and> authentic env (pmPublisherID m) p)"

lemma read_entries_signature: "read_entries unyaml ok es p = Inr p' \<Longrightarrow> lpSignature p' = lpSignature p"
  by (induction unyaml ok es p rule: read_entries.induct) (auto simp: Let_def split: if_splits option.splits)

lemma DecodeLWPKG_signature:
  assumes "DecodeLWPKG unpack unyaml data = Inr (p, sig)"
  shows "sig = lpSignature p" "lpSignature p = drop (length data - Ed25519SignatureSize) data" "length data \<ge> Ed25519SignatureSize"
  using assms by (auto simp: DecodeLWPKG_def Let_def split: if_splits option.splits sum.splits dest!: read_entries_signature)

lemma publish_authentic:
  assumes sigs: "\<And>pub msg sig. reVerify env pub msg sig \<Longrightarrow> length sig = Ed25519SignatureSize"
    and "DecodeLWPKG (reUnpack env) (reUnyaml env) (data @ sig) = Inr (p, s)"
    and "reVerify env pub (take (length (data @ sig) - Ed25519SignatureSize) (data @ sig)) sig"
    and "Package_VerifyIntegrity (reSha256 env) (reSumOrder env p) p = None"
  shows "authentic env pub p"
proof -
  have len: "length sig = Ed25519SignatureSize" using assms(3) sigs by blast
  then have "lpSignature p = sig" using DecodeLWPKG_signature(2) [OF assms(2)] by simp
  with assms len DecodeLWPKG_signature(1) [OF assms(2)] show ?thesis by (auto simp: authentic_def)
qed

lemma registry_ok_publish:
  assumes "registry_ok env r" "authentic env pub p" "Registry_Publish sha256 now (Some p) pub r = (res, metas, r')"
  shows "registry_ok env r'"
  using assms by (auto simp: Registry_Publish_def registry_ok_def Let_def new_meta_def split: option.splits if_splits)

lemma registry_ok_post:
  assumes "registry_ok env r" "\<And>pub msg sig. reVerify env pub msg sig \<Longrightarrow> length sig = Ed25519SignatureSize"
    and post: "publishPackage env body r = (resp, metas, r')"
  shows "registry_ok env r'"
proof (cases "r' = r")
  case False
  then obtain req data p s where "body = Some req" "prPackageData req = Some data"
    and dec: "DecodeLWPKG (reUnpack env) (reUnyaml env) (data @ prSignature req) = Inr (p, s)"
    and sums: "Package_VerifyIntegrity (reSha256 env) (reSumOrder env p) p = None"
    and sig: "reVerify env (prPublisherPubKey req) (take (length (data @ prSignature req) - Ed25519SignatureSize) (data @ prSignature req)) (prSignature req)"
    and "\<exists>res. Registry_Publish (reSha256 env) (reNow env) (Some p) (prPublisherPubKey req) r = (res, metas, r')"
    using post
    by (auto simp: publishPackage_def crypto_Verify_def Let_def split: option.splits if_splits sum.splits prod.splits registry_error.splits)
  moreover have "authentic env (prPublisherPubKey req) p" by (rule publish_authentic [OF _ dec sig sums]) (rule assms(2))
  ultimately show ?thesis using registry_ok_publish [OF assms(1)] by blast
qed (use assms(1) in simp)

lemma registry_ok_serve:
  assumes "registry_ok env r" "\<And>pub msg sig. reVerify env pub msg sig \<Longrightarrow> length sig = Ed25519SignatureSize"
    and "registry_serve env req r = (resp, metas, r')"
  shows "registry_ok env r'"
proof -
  have del: "registry_ok env r'" if "deletePackage i r = (x, r')" for i x
    using that assms(1) by (auto simp: deletePackage_def Registry_Delete_def registry_ok_def split: if_splits prod.splits option.splits)
  show ?thesis
    using assms(3,1)
    by (auto simp: registry_serve_def handlePackages_def handlePackageByID_def Let_def split: if_splits prod.splits
        intro: del registry_ok_post [OF assms(1,2)])
qed

text \<open>The registries that requests lead to; the clock and the orders may change from one request to the next.\<close>

inductive registry_reach :: "registry_env \<Rightarrow> memory_registry \<Rightarrow> bool" for env where
  empty: "registry_reach env NewMemoryRegistry"
| request: "registry_reach env r \<Longrightarrow> registry_serve (env\<lparr>reNow := now, reOrder := order\<rparr>) req r = (resp, metas, r') \<Longrightarrow> registry_reach env r'"

lemma registry_reach_ok:
  assumes "registry_reach env r" "\<And>pub msg sig. reVerify env pub msg sig \<Longrightarrow> length sig = Ed25519SignatureSize"
  shows "registry_ok env r"
  using assms(1)
proof (induction rule: registry_reach.induct)
  case empty
  show ?case by (simp add: registry_ok_def NewMemoryRegistry_def)
next
  case (request r order now req resp metas r')
  let ?env = "env\<lparr>reNow := now, reOrder := order\<rparr>"
  have same: "registry_ok ?env = registry_ok env" by (simp add: registry_ok_def authentic_def fun_eq_iff)
  have "registry_ok ?env r'"
    by (rule registry_ok_serve [OF _ _ request.hyps(2)]) (use request.IH assms(2) same in auto)
  with same show ?case by simp
qed


definition demo_registry_env :: registry_env where
  "demo_registry_env = \<lparr>reUnpack = demo_unpack, reUnyaml = demo_unyaml, reSha256 = (\<lambda>b. b), reVerify = (\<lambda>_ _ sig. length sig = 64),
     reNow = 1, reOrder = [], reSumOrder = (\<lambda>_. [''main''])\<rparr>"

definition demo_publish :: http_request where
  "demo_publish = \<lparr>hqMethod = ''POST'', hqPath = ''/api/v1/packages'', hqQuery = (\<lambda>_. []),
     hqBody = Some \<lparr>prPackageData = Some [1, 2, 3], prSignature = replicate 64 9, prPublisherPubKey = replicate 32 5\<rparr>\<rparr>"


section \<open>Searching\<close>

definition search_hits :: "string list \<Rightarrow> search_query \<Rightarrow> memory_registry \<Rightarrow> package_meta list" where
  "search_hits order q r = filter (\<lambda>m. matchesQueryFilter m q) (Registry_List order r)"

lemma matchesQueryFilter_page [simp]: "matchesQueryFilter m (q\<lparr>sqLimit := l, sqOffset := f\<rparr>) = matchesQueryFilter m q"
  by (simp add: matchesQueryFilter_def)

lemma search_page:
  assumes "0 < l" "int l \<le> MaxSearchLimit"
  shows "map_option srPackages (Registry_Search order (q\<lparr>sqLimit := int l, sqOffset := int f\<rparr>) r) = Some (take l (drop f (search_hits order q r)))"
  using assms
  by (cases "f \<le> length (search_hits order q r)")
     (auto simp: Registry_Search_def search_hits_def search_limit_def Let_def min_def nat_add_distrib intro!: take_all)

text \<open>While the map is ranged over in one order, the pages of a search put together are its hits; another order for the second page loses
  some and repeats others.\<close>

lemma search_pages_complete:
  assumes "0 < l" "int l \<le> MaxSearchLimit"
  shows "concat (map (\<lambda>k. case Registry_Search order (q\<lparr>sqLimit := int l, sqOffset := int (k * l)\<rparr>) r of Some res \<Rightarrow> srPackages res) [0..<n])
     = take (n * l) (search_hits order q r)"
proof -
  have "(case Registry_Search order (q\<lparr>sqLimit := int l, sqOffset := int f\<rparr>) r of Some res \<Rightarrow> srPackages res) = take l (drop f (search_hits order q r))" for f
    using search_page [OF assms, where order = order and q = q and f = f and r = r] by (auto split: option.splits)
  moreover have "take (Suc n * l) xs = take (n * l) xs @ take l (drop (n * l) xs)" for n and xs :: "package_meta list"
    by (simp add: take_add [symmetric] add.commute)
  ultimately show ?thesis by (induction n) (simp_all del: of_nat_mult mult_Suc)
qed

lemma search_negative_offset_panics: "sqOffset q < 0 \<Longrightarrow> Registry_Search order q r = None"
  by (simp add: Registry_Search_def Let_def min_def)

lemma handleSearch_negative_offset:
  "hqMethod req = ''GET'' \<Longrightarrow> hqQuery req ''offset'' = ''-1'' \<Longrightarrow> handleSearch env req r = None"
proof -
  assume req: "hqMethod req = ''GET''" "hqQuery req ''offset'' = ''-1''"
  have "atoiDefault ''-1'' 0 = -1" by code_simp
  with req show ?thesis by (simp add: handleSearch_def Let_def search_negative_offset_panics)
qed

text \<open>A library call stores a package as verified when it has any signature bytes; only the HTTP handler checks them.\<close>

lemma publish_marks_verified:
  assumes "lpManifest p = Some m" "Manifest_Validate (Some m) = None" "lpSignature p \<noteq> []"
    and "rgPackages r (PackageID sha256 (mnName m) (mnVersion m) (mnAuthor m)) = None"
  shows "\<exists>i metas r' meta. Registry_Publish sha256 now (Some p) pub r = (Inr i, metas, r') \<and> Registry_Get i r' = Inr meta \<and> pmVerified meta"
  using assms by (simp add: Registry_Publish_def Registry_Get_def new_meta_def Let_def)

section \<open>Metadata through the DHT\<close>

definition nano_range :: "gotime \<Rightarrow> bool" where
  "nano_range t \<longleftrightarrow> - (2 ^ 63) \<le> t - 62135596800000000000 \<and> t - 62135596800000000000 < 2 ^ 63"

lemma nano_sint: "- (2 ^ 63) \<le> i \<Longrightarrow> i < 2 ^ 63 \<Longrightarrow> sint (word_of_int i :: int64) = i"
  by (simp add: signed_of_int signed_take_bit_int_eq_self)

lemma nano_roundtrip: "nano_range t \<Longrightarrow> from_unixNano (unixNano t) = t"
  using nano_sint [of "t - 62135596800000000000"] unfolding nano_range_def from_unixNano_def unixNano_def by linarith

lemma meta_roundtrip:
  assumes "unjson (marshalPackageMeta m) = Some (alias_of m)" "nano_range (pmPublished m)" "nano_range (pmUpdated m)"
  shows "unmarshalPackageMeta unjson (marshalPackageMeta m) = Some m"
  using assms by (simp add: unmarshalPackageMeta_def alias_of_def nano_roundtrip)

lemma store_loop_messages:
  "(a, msg) \<in> set (fst (store_loop l payload ps)) \<Longrightarrow> \<exists>dst. msg = \<lparr>mType = MsgStore, mSrc = l, mDst = dst, mPayload = payload\<rparr>"
  by (induction ps) (auto split: list.splits prod.splits)

lemma published_message:
  assumes "PublishMeta sha3 m d = (calls, panics, d')" "(a, msg) \<in> set calls"
  shows "\<exists>src dst. msg = \<lparr>mType = MsgStore, mSrc = src, mDst = dst, mPayload = encodeStore (pkg_key (pmID m)) (marshalPackageMeta m)\<rparr>"
proof -
  have "(a, msg) \<in> set (fst (Dht_Store sha3 (pkg_key (pmID m)) (marshalPackageMeta m) (dmDht d)))"
    using assms by (auto simp: PublishMeta_def Let_def split: prod.splits)
  then show ?thesis by (auto simp: Dht_Store_def Let_def split: if_splits dest: store_loop_messages)
qed

text \<open>Whatever peers answer, a package is resolved to metadata with the identifier that was asked for.\<close>

lemma resolve_right_id:
  assumes "\<forall>i m. dmLocal d i = Some m \<longrightarrow> pmID m = i" "ResolveMeta sha3 net ctxErr unjson i d = (res, d')"
  shows "(\<forall>m. res = Inr m \<longrightarrow> pmID m = i) \<and> (\<forall>i m. dmLocal d' i = Some m \<longrightarrow> pmID m = i)"
  using assms by (auto simp: ResolveMeta_def AddLocal_def split: option.splits sum.splits if_splits)

text \<open>
  C8: A package published on one node is found from another that has never heard of it. The publisher sends the metadata to the
  peers closest to the key; when one of them has handled that message and is the closest peer with an address that the other node knows,
  resolving the identifier there returns the published metadata and caches it, through the JSON form, the DHT client, both ends of
  the wire protocol and the DHT server.
\<close>

theorem registry_resolve_across_nodes:
  assumes pub: "PublishMeta sha3 meta A = (calls, panics, A')" "(addr, msg) \<in> set calls"
    and holder: "holder' = snd (handleMessage sha3 gob t t' holder msg)" "length (ndID holder') = 32"
    and B: "dmLocal B (pmID meta) = None" "dhRunning (dmDht B)" "ndStore (dhNode (dmDht B)) (pkg_key (pmID meta)) = None" "length (dhLocalID (dmDht B)) = 32"
    and route: "FindClosest (ndHeap (dhNode (dmDht B))) (ndTable (dhNode (dmDht B))) (sha3 (str_bytes (pkg_key (pmID meta)))) Alpha = r # rs"
      "piAddrs (ndHeap (dhNode (dmDht B)) ! r) = a # as" "length (piID (ndHeap (dhNode (dmDht B)) ! r)) = 32"
      "net 0 a = Inr (\<lambda>bs. fst (handleConn sha3 gob now now' holder' bs))" "ctxErr 0 = None"
    and size: "short16 (pkg_key (pmID meta))" "length (encodeStore (pkg_key (pmID meta)) (marshalPackageMeta meta)) \<le> 2 ^ 20"
    and json: "unjson (marshalPackageMeta meta) = Some (alias_of meta)" "nano_range (pmPublished meta)" "nano_range (pmUpdated meta)"
  shows "ResolveMeta sha3 net ctxErr unjson (pmID meta) B = (Inr meta, AddLocal meta B)"
proof -
  obtain src dst where msg: "msg = \<lparr>mType = MsgStore, mSrc = src, mDst = dst, mPayload = encodeStore (pkg_key (pmID meta)) (marshalPackageMeta meta)\<rparr>"
    using published_message [OF pub] by blast
  have "pkg_key (pmID meta) \<noteq> []" by (simp add: pkg_key_def)
  then have "ndStore holder' (pkg_key (pmID meta)) = Some (marshalPackageMeta meta)"
    using handle_store [OF size(1)] by (simp add: holder msg)
  then have "Dht_Get sha3 net ctxErr (pkg_key (pmID meta)) (dmDht B) = Inr (marshalPackageMeta meta)"
    using holder(2) B(2-4) size route
    by (intro dht_get_from_closest_peer [where ?sha3.0 = sha3 and gob = gob and now = now and now' = now' and net = net and m = holder' and ctxErr = ctxErr
          and d = "dmDht B" and key = "pkg_key (pmID meta)" and val = "marshalPackageMeta meta" and r = r and rs = rs and a = a and as = as])
       assumption+
  then show ?thesis using B(1) meta_roundtrip [of unjson meta, OF json] by (simp add: ResolveMeta_def)
qed

definition demo_meta :: package_meta where
  "demo_meta = \<lparr>pmID = ''ab'', pmName = ''app'', pmVersion = ''1'', pmDescription = [], pmAuthor = ''al'', pmPlatform = None, pmEntry = ''main'',
     pmPublished = 62135596800000000000, pmUpdated = 62135596800000000000, pmDownloads = 0, pmVerified = True, pmPublisherID = [5]\<rparr>"

definition demo_holder_store :: dht_node where
  "demo_holder_store = snd (handleMessage (\<lambda>_. replicate 32 0) (\<lambda>_. []) 1 2 demo_node (snd (hd (fst (PublishMeta (\<lambda>_. replicate 32 0) demo_meta (NewDHTDistributor demo_dht []))))))"

theorem registry_resolve_across_nodes_witness:
  "fst (ResolveMeta (\<lambda>_. replicate 32 0) (\<lambda>_ _. Inr (\<lambda>bs. fst (handleConn (\<lambda>_. replicate 32 0) (\<lambda>_. []) 1 2 demo_holder_store bs))) (\<lambda>_. None)
     (\<lambda>_. Some (alias_of demo_meta)) ''ab'' (NewDHTDistributor demo_dht [])) = Inr demo_meta"
proof -
  let ?N = "NewDHTDistributor demo_dht []"
  let ?P = "PublishMeta (\<lambda>_. replicate 32 0) demo_meta ?N"
  let ?p = "ndHeap (dhNode demo_dht) ! 0"
  have N: "dmDht ?N = demo_dht" "dmLocal ?N i = None" for i by (simp_all add: NewDHTDistributor_def NewDHTDistributorAt_def)
  have key [simp]: "pmID demo_meta = ''ab''" "pkg_key ''ab'' = ''pkg:ab''" by (simp_all add: demo_meta_def pkg_key_def)
  let ?msg = "\<lparr>mType = MsgStore, mSrc = replicate 32 1, mDst = piID ?p, mPayload = encodeStore ''pkg:ab'' (marshalPackageMeta demo_meta)\<rparr>"
  have P: "?P = ([(''10.0.0.1:9094'', ?msg)], False, AddLocal demo_meta ?N)"
    using demo_route by (simp add: PublishMeta_def Dht_Store_def N AddLocal_def detachPeers_def Let_def) (simp add: demo_dht_def)
  have holder: "demo_holder_store = snd (handleMessage (\<lambda>_. replicate 32 0) (\<lambda>_. []) 1 2 demo_node ?msg)" by (simp add: demo_holder_store_def P)
  have small: "length (encodeStore ''pkg:ab'' (marshalPackageMeta demo_meta)) \<le> 2 ^ 20" by code_simp
  have "length (ndID demo_holder_store) = 32"
    by (simp add: holder handle_store short16_def) (simp add: demo_node_def NewNode_def)
  moreover have "dhRunning demo_dht" "length (dhLocalID demo_dht) = 32" by (simp_all add: demo_dht_def)
  ultimately have "ResolveMeta (\<lambda>_. replicate 32 0) (\<lambda>_ _. Inr (\<lambda>bs. fst (handleConn (\<lambda>_. replicate 32 0) (\<lambda>_. []) 1 2 demo_holder_store bs))) (\<lambda>_. None)
     (\<lambda>_. Some (alias_of demo_meta)) (pmID demo_meta) ?N = (Inr demo_meta, AddLocal demo_meta ?N)"
    by (intro registry_resolve_across_nodes [where holder = demo_node and gob = "\<lambda>_. []" and t = 1 and t' = 2 and r = 0 and rs = "[]" and as = "[]"
          and msg = ?msg and A = ?N, OF P])
       (use demo_route demo_route_store small in \<open>simp_all add: N holder [symmetric] short16_def, simp_all add: demo_meta_def nano_range_def\<close>)
  then show ?thesis by simp
qed

end
