(* ===== verification/Secure_Channel.thy ===== *)
theory Secure_Channel
  imports LW_Prelude
begin

text \<open>
  What an encrypted session promises its users, for the sessions of \<open>pkg/crypto\<close>: two endpoints whose halves are in step carry
  messages in both directions as a pair of queues would. An endpoint seals and unseals; either may fail with an error.
\<close>

datatype 'm duplex_op = SendA 'm | SendB 'm | RecvA | RecvB

datatype ('x, 'm) duplex_out = Sent | Got 'm | Nothing | Failed 'x

text \<open>The network keeps what was sent in order; an endpoint that receives takes the oldest message for it.\<close>

fun duplex_step ::
  "('e \<Rightarrow> 'm \<Rightarrow> ('x + 'c) \<times> 'e) \<Rightarrow> ('e \<Rightarrow> 'c \<Rightarrow> ('x + 'm) \<times> 'e) \<Rightarrow> 'e \<times> 'c list \<times> 'e \<times> 'c list \<Rightarrow> 'm duplex_op
     \<Rightarrow> ('x, 'm) duplex_out \<times> 'e \<times> 'c list \<times> 'e \<times> 'c list" where
  "duplex_step enc dec (a, qab, b, qba) (SendA m) =
     (case enc a m of (Inl x, a') \<Rightarrow> (Failed x, a', qab, b, qba) | (Inr c, a') \<Rightarrow> (Sent, a', qab @ [c], b, qba))"
| "duplex_step enc dec (a, qab, b, qba) (SendB m) =
     (case enc b m of (Inl x, b') \<Rightarrow> (Failed x, a, qab, b', qba) | (Inr c, b') \<Rightarrow> (Sent, a, qab, b', qba @ [c]))"
| "duplex_step enc dec (a, qab, b, qba) RecvA =
     (case qba of [] \<Rightarrow> (Nothing, a, qab, b, qba)
      | c # q \<Rightarrow> (case dec a c of (Inl x, a') \<Rightarrow> (Failed x, a', qab, b, q) | (Inr m, a') \<Rightarrow> (Got m, a', qab, b, q)))"
| "duplex_step enc dec (a, qab, b, qba) RecvB =
     (case qab of [] \<Rightarrow> (Nothing, a, qab, b, qba)
      | c # q \<Rightarrow> (case dec b c of (Inl x, b') \<Rightarrow> (Failed x, a, q, b', qba) | (Inr m, b') \<Rightarrow> (Got m, a, q, b', qba)))"

fun duplex_run ::
  "('e \<Rightarrow> 'm \<Rightarrow> ('x + 'c) \<times> 'e) \<Rightarrow> ('e \<Rightarrow> 'c \<Rightarrow> ('x + 'm) \<times> 'e) \<Rightarrow> 'm duplex_op list \<Rightarrow> 'e \<times> 'c list \<times> 'e \<times> 'c list \<Rightarrow> ('x, 'm) duplex_out list" where
  "duplex_run enc dec [] st = []"
| "duplex_run enc dec (p # ps) st = (case duplex_step enc dec st p of (out, st') \<Rightarrow> out # duplex_run enc dec ps st')"

text \<open>The specification: two queues of plain messages.\<close>

fun queues_step :: "'m list \<times> 'm list \<Rightarrow> 'm duplex_op \<Rightarrow> ('x, 'm) duplex_out \<times> 'm list \<times> 'm list" where
  "queues_step (xs, ys) (SendA m) = (Sent, xs @ [m], ys)"
| "queues_step (xs, ys) (SendB m) = (Sent, xs, ys @ [m])"
| "queues_step (xs, ys) RecvA = (case ys of [] \<Rightarrow> (Nothing, xs, ys) | m # q \<Rightarrow> (Got m, xs, q))"
| "queues_step (xs, ys) RecvB = (case xs of [] \<Rightarrow> (Nothing, xs, ys) | m # q \<Rightarrow> (Got m, q, ys))"

fun queues_run :: "'m duplex_op list \<Rightarrow> 'm list \<times> 'm list \<Rightarrow> ('x, 'm) duplex_out list" where
  "queues_run [] st = []"
| "queues_run (p # ps) st = (case queues_step st p of (out, st') \<Rightarrow> out # queues_run ps st')"

text \<open>
  The laws. \<open>sync a b\<close> says that the sending half of \<open>a\<close> is in step with the receiving half of \<open>b\<close>; each half of an endpoint works
  without regard to the other.
\<close>

locale session_endpoint =
  fixes enc :: "'e \<Rightarrow> 'm \<Rightarrow> ('x + 'c) \<times> 'e"
    and dec :: "'e \<Rightarrow> 'c \<Rightarrow> ('x + 'm) \<times> 'e"
    and sync :: "'e \<Rightarrow> 'e \<Rightarrow> bool"
  assumes delivers: "sync a b \<Longrightarrow> \<exists>c a' b'. enc a m = (Inr c, a') \<and> dec b c = (Inr m, b') \<and> sync a' b'"
    and enc_keeps_receiver: "sync a b \<Longrightarrow> enc b m = (x, b') \<Longrightarrow> sync a b'"
    and dec_keeps_sender: "sync a b \<Longrightarrow> dec a c = (r, a') \<Longrightarrow> sync a' b"
    and halves_commute: "enc b m = (x, b') \<Longrightarrow> dec b c = (r, b1) \<Longrightarrow> \<exists>b2. dec b' c = (r, b2) \<and> enc b1 m = (x, b2)"
begin

text \<open>The messages \<open>ms\<close> are on their way from \<open>a\<close> to \<open>b\<close> as the sealed \<open>cs\<close>.\<close>

inductive in_flight :: "'e \<Rightarrow> 'c list \<Rightarrow> 'e \<Rightarrow> 'm list \<Rightarrow> bool" for a where
  none: "sync a b \<Longrightarrow> in_flight a [] b []"
| some: "dec b c = (Inr m, b') \<Longrightarrow> in_flight a cs b' ms \<Longrightarrow> in_flight a (c # cs) b (m # ms)"

inductive_cases in_flight_empty: "in_flight a [] b ms"
inductive_cases in_flight_more: "in_flight a (c # cs) b ms"

lemma in_flight_send:
  "in_flight a cs b ms \<Longrightarrow> \<exists>c a'. enc a m = (Inr c, a') \<and> in_flight a' (cs @ [c]) b (ms @ [m])"
proof (induction rule: in_flight.induct)
  case (none b)
  then obtain c a' b' where "enc a m = (Inr c, a')" "dec b c = (Inr m, b')" "sync a' b'" using delivers by blast
  then show ?case by (auto intro: in_flight.intros)
next
  case (some b c m' b' cs ms)
  then show ?case by (auto intro: in_flight.intros)
qed

lemma in_flight_sender_reads:
  "in_flight a cs b ms \<Longrightarrow> dec a c = (r, a') \<Longrightarrow> in_flight a' cs b ms"
  by (induction rule: in_flight.induct) (auto intro: in_flight.intros dec_keeps_sender)

lemma in_flight_receiver_writes:
  "in_flight a cs b ms \<Longrightarrow> enc b m = (x, b') \<Longrightarrow> in_flight a cs b' ms"
proof (induction arbitrary: b' rule: in_flight.induct)
  case (none b)
  then show ?case by (auto intro: in_flight.intros enc_keeps_receiver)
next
  case (some b c v b1 cs ms)
  obtain b2 where "dec b' c = (Inr v, b2)" "enc b1 m = (x, b2)" using halves_commute [OF some.prems some.hyps(1)] by blast
  then show ?case using some.IH by (auto intro: in_flight.intros)
qed

lemma in_flight_length: "in_flight a cs b ms \<Longrightarrow> (cs = []) = (ms = [])"
  by (induction rule: in_flight.induct) auto

lemma duplex_step_refines:
  assumes "in_flight a qab b xs" "in_flight b qba a ys"
  shows "\<exists>a' qab' b' qba' xs' ys' out. duplex_step enc dec (a, qab, b, qba) p = (out, a', qab', b', qba')
     \<and> queues_step (xs, ys) p = (out, xs', ys') \<and> in_flight a' qab' b' xs' \<and> in_flight b' qba' a' ys'"
proof (cases p)
  case (SendA m)
  obtain c a' where c: "enc a m = (Inr c, a')" "in_flight a' (qab @ [c]) b (xs @ [m])" using in_flight_send [OF assms(1)] by blast
  with SendA in_flight_receiver_writes [OF assms(2) c(1)] show ?thesis by simp
next
  case (SendB m)
  obtain c b' where c: "enc b m = (Inr c, b')" "in_flight b' (qba @ [c]) a (ys @ [m])" using in_flight_send [OF assms(2)] by blast
  with SendB in_flight_receiver_writes [OF assms(1) c(1)] show ?thesis by simp
next
  case RecvA
  show ?thesis
  proof (cases qba)
    case Nil
    then show ?thesis using RecvA assms in_flight_length [OF assms(2)] by simp
  next
    case (Cons c q)
    obtain m a' ms where d: "ys = m # ms" "dec a c = (Inr m, a')" "in_flight b q a' ms" using assms(2) Cons by (auto elim: in_flight_more)
    then show ?thesis using RecvA Cons in_flight_sender_reads [OF assms(1) d(2)] by simp
  qed
next
  case RecvB
  show ?thesis
  proof (cases qab)
    case Nil
    then show ?thesis using RecvB assms in_flight_length [OF assms(1)] by simp
  next
    case (Cons c q)
    obtain m b' ms where d: "xs = m # ms" "dec b c = (Inr m, b')" "in_flight a q b' ms" using assms(1) Cons by (auto elim: in_flight_more)
    then show ?thesis using RecvB Cons in_flight_sender_reads [OF assms(2) d(2)] by simp
  qed
qed

lemma duplex_run_in_flight:
  "in_flight a qab b xs \<Longrightarrow> in_flight b qba a ys \<Longrightarrow> duplex_run enc dec ps (a, qab, b, qba) = queues_run ps (xs, ys)"
proof (induction ps arbitrary: a qab b qba xs ys)
  case (Cons p ps)
  from duplex_step_refines [OF Cons.prems, of p] Cons.IH show ?case by fastforce
qed simp

lemma duplex_refines: "sync a b \<Longrightarrow> sync b a \<Longrightarrow> duplex_run enc dec ps (a, [], b, []) = queues_run ps ([], [])"
  by (rule duplex_run_in_flight) (auto intro: in_flight.intros)

end

end
