(* ===== verification/Crypto_Noise.thy ===== *)
theory Crypto_Noise
  imports Secure_Channel
begin

text \<open>
  The Noise XX sessions of \<open>pkg/crypto/noise.go\<close>. X25519, SHA3-256, HKDF and NaCl secretbox are a record of functions; random
  bytes are an argument. Both key lengths are 32 bytes as in the source. An operation returns its result and the session as it
  leaves it, also when it fails half-way.
\<close>

unbundle bit_operations_syntax

section \<open>Sessions\<close>

text \<open>\<open>clHkdf secret salt info n\<close> is the first \<open>n\<close> bytes of the reader that \<open>hkdf.New\<close> returns; \<open>clDH\<close> is \<open>curve25519.X25519\<close>.\<close>

record crypto_lib =
  clHash :: "bytes \<Rightarrow> bytes"
  clDH :: "bytes \<Rightarrow> bytes \<Rightarrow> bytes option"
  clHkdf :: "bytes \<Rightarrow> bytes \<Rightarrow> bytes \<Rightarrow> nat \<Rightarrow> bytes"
  clSeal :: "bytes \<Rightarrow> bytes \<Rightarrow> bytes \<Rightarrow> bytes"
  clOpen :: "bytes \<Rightarrow> bytes \<Rightarrow> bytes \<Rightarrow> bytes option"

datatype noise_error = RandomFails | BadPoint | ShortMsg1 | ShortMsg2 | DecryptStatic | BadStatic | InvalidStep nat
  | HandshakeNotComplete | NonceOverflow | CiphertextTooShort | DecryptionFailed

record noise_session =
  nsInitiator :: bool
  nsStaticPublic :: bytes
  nsStaticPrivate :: bytes
  nsEphemeralPublic :: bytes
  nsEphemeralPrivate :: bytes
  nsRemotePublic :: bytes
  nsRemoteEphemeral :: bytes
  nsH :: bytes
  nsCk :: bytes
  nsOk :: bool
  nsSendKey :: bytes
  nsRecvKey :: bytes
  nsSendCount :: u64
  nsRecvCount :: u64
  nsStep :: nat
  nsComplete :: bool

definition protocolName :: string where "protocolName = ''Noise_XX_25519_XSalsa20Poly1305_SHA3-256''"
definition MaxNonce :: u64 where "MaxNonce = NOT 0"

definition zero_key :: bytes where "zero_key = replicate 32 0"

definition initHashAndChain :: "crypto_lib \<Rightarrow> noise_session \<Rightarrow> noise_session" where
  "initHashAndChain L s = s\<lparr>nsH := clHash L (str_bytes protocolName), nsCk := clHash L (str_bytes protocolName)\<rparr>"

definition basepoint :: bytes where "basepoint = 9 # replicate 31 0"

definition x25519_clamp :: "bytes \<Rightarrow> bytes" where
  "x25519_clamp k = (let k1 = k[0 := k ! 0 AND 248]; k2 = k1[31 := k1 ! 31 AND 127] in k2[31 := k2 ! 31 OR 64])"

definition generateX25519Key :: "crypto_lib \<Rightarrow> bytes option \<Rightarrow> noise_error + bytes \<times> bytes" where
  "generateX25519Key L rnd =
     (case rnd of
        None \<Rightarrow> Inl RandomFails
      | Some k \<Rightarrow> let priv = x25519_clamp k in (case clDH L priv basepoint of None \<Rightarrow> Inl BadPoint | Some pub \<Rightarrow> Inr (pub, priv)))"

definition new_noise :: "crypto_lib \<Rightarrow> bool \<Rightarrow> bytes option \<Rightarrow> bytes \<Rightarrow> bytes \<Rightarrow> noise_error + noise_session" where
  "new_noise L initiator rnd pub priv =
     (let s = initHashAndChain L \<lparr>nsInitiator = initiator, nsStaticPublic = pub, nsStaticPrivate = priv, nsEphemeralPublic = zero_key,
            nsEphemeralPrivate = zero_key, nsRemotePublic = zero_key, nsRemoteEphemeral = zero_key, nsH = zero_key, nsCk = zero_key, nsOk = False,
            nsSendKey = zero_key, nsRecvKey = zero_key, nsSendCount = 0, nsRecvCount = 0, nsStep = 0, nsComplete = False\<rparr>
      in (case generateX25519Key L rnd of
            Inl e \<Rightarrow> Inl e
          | Inr (epub, epriv) \<Rightarrow> Inr (s\<lparr>nsEphemeralPublic := epub, nsEphemeralPrivate := epriv\<rparr>)))"

definition NewNoiseInitiator :: "crypto_lib \<Rightarrow> bytes option \<Rightarrow> bytes \<Rightarrow> bytes \<Rightarrow> noise_error + noise_session" where
  "NewNoiseInitiator L rnd pub priv = new_noise L True rnd pub priv"

definition NewNoiseResponder :: "crypto_lib \<Rightarrow> bytes option \<Rightarrow> bytes \<Rightarrow> bytes \<Rightarrow> noise_error + noise_session" where
  "NewNoiseResponder L rnd pub priv = new_noise L False rnd pub priv"

definition mixHash :: "crypto_lib \<Rightarrow> bytes \<Rightarrow> noise_session \<Rightarrow> noise_session" where
  "mixHash L data s = s\<lparr>nsH := clHash L (nsH s @ data)\<rparr>"

definition mixKey :: "crypto_lib \<Rightarrow> bytes \<Rightarrow> noise_session \<Rightarrow> noise_session" where
  "mixKey L dh s = s\<lparr>nsCk := clHkdf L dh (nsCk s) [1] 32, nsOk := True\<rparr>"

definition handshake_nonce :: bytes where "handshake_nonce = replicate 24 0"

definition encryptAndHash :: "crypto_lib \<Rightarrow> bytes \<Rightarrow> noise_session \<Rightarrow> bytes \<times> noise_session" where
  "encryptAndHash L plaintext s =
     (let out = (if nsOk s then clSeal L (nsCk s) handshake_nonce plaintext else plaintext) in (out, mixHash L out s))"

definition decryptAndHash :: "crypto_lib \<Rightarrow> bytes \<Rightarrow> noise_session \<Rightarrow> bytes option \<times> noise_session" where
  "decryptAndHash L ciphertext s =
     (if nsOk s then (case clOpen L (nsCk s) handshake_nonce ciphertext of None \<Rightarrow> (None, s) | Some out \<Rightarrow> (Some out, mixHash L ciphertext s))
      else (Some ciphertext, mixHash L ciphertext s))"

definition noise_split :: "crypto_lib \<Rightarrow> noise_session \<Rightarrow> noise_session" where
  "noise_split L s =
     (let keys = clHkdf L [] (nsCk s) [1] 64; k1 = take 32 keys; k2 = drop 32 keys
      in if nsInitiator s then s\<lparr>nsSendKey := k1, nsRecvKey := k2\<rparr> else s\<lparr>nsSendKey := k2, nsRecvKey := k1\<rparr>)"

text \<open>A step of the handshake: the message to send, whether the handshake is complete, or the error; and the session.\<close>

type_synonym noise_step = "(noise_error + bytes \<times> bool) \<times> noise_session"

definition mix_dh :: "crypto_lib \<Rightarrow> bytes \<Rightarrow> bytes \<Rightarrow> noise_session \<Rightarrow> (noise_session \<Rightarrow> noise_step) \<Rightarrow> noise_step" where
  "mix_dh L priv pub s k = (case clDH L priv pub of None \<Rightarrow> (Inl BadPoint, s) | Some dh \<Rightarrow> k (mixKey L dh s))"

definition take_static :: "crypto_lib \<Rightarrow> bytes \<Rightarrow> noise_session \<Rightarrow> (noise_session \<Rightarrow> noise_step) \<Rightarrow> noise_step" where
  "take_static L ciphertext s k =
     (case decryptAndHash L ciphertext s of
        (None, s') \<Rightarrow> (Inl DecryptStatic, s')
      | (Some out, s') \<Rightarrow> if length out \<noteq> 32 then (Inl BadStatic, s') else k (s'\<lparr>nsRemotePublic := out\<rparr>))"

definition initiatorWrite :: "crypto_lib \<Rightarrow> bytes \<Rightarrow> noise_session \<Rightarrow> noise_step" where
  "initiatorWrite L peerMsg s =
     (if nsStep s = 0 then
        let s1 = (mixHash L (nsEphemeralPublic s) s)\<lparr>nsStep := 1\<rparr> in (Inr (nsEphemeralPublic s, False), s1)
      else if nsStep s = 1 then
        if length peerMsg < 32 then (Inl ShortMsg2, s)
        else let re = take 32 peerMsg; s1 = (mixHash L re s)\<lparr>nsRemoteEphemeral := re\<rparr>
             in mix_dh L (nsEphemeralPrivate s1) re s1 (\<lambda>s2.
                take_static L (drop 32 peerMsg) s2 (\<lambda>s3.
                mix_dh L (nsEphemeralPrivate s3) (nsRemotePublic s3) s3 (\<lambda>s4.
                case encryptAndHash L (nsStaticPublic s4) s4 of (encStatic, s5) \<Rightarrow>
                mix_dh L (nsStaticPrivate s5) (nsRemoteEphemeral s5) s5 (\<lambda>s6.
                (Inr (encStatic, True), (noise_split L s6)\<lparr>nsStep := 3, nsComplete := True\<rparr>)))))
      else (Inl (InvalidStep (nsStep s)), s))"

definition responderWrite :: "crypto_lib \<Rightarrow> bytes \<Rightarrow> noise_session \<Rightarrow> noise_step" where
  "responderWrite L peerMsg s =
     (if nsStep s = 0 then
        if length peerMsg \<noteq> 32 then (Inl ShortMsg1, s)
        else let s1 = (mixHash L peerMsg s)\<lparr>nsRemoteEphemeral := peerMsg, nsStep := 1\<rparr>
             in mix_dh L (nsEphemeralPrivate s1) (nsRemoteEphemeral s1) s1 (\<lambda>s2.
                case encryptAndHash L (nsStaticPublic s2) s2 of (encStatic, s3) \<Rightarrow>
                mix_dh L (nsStaticPrivate s3) (nsRemoteEphemeral s3) s3 (\<lambda>s4.
                (Inr (nsEphemeralPublic s4 @ encStatic, False), s4\<lparr>nsStep := 2\<rparr>)))
      else if nsStep s = 2 then
        take_static L peerMsg s (\<lambda>s1.
        mix_dh L (nsEphemeralPrivate s1) (nsRemotePublic s1) s1 (\<lambda>s2.
        (Inr ([], True), (noise_split L s2)\<lparr>nsComplete := True\<rparr>)))
      else (Inl (InvalidStep (nsStep s)), s))"

definition WriteHandshake :: "crypto_lib \<Rightarrow> bytes \<Rightarrow> noise_session \<Rightarrow> noise_step" where
  "WriteHandshake L peerMsg s =
     (if nsComplete s then (Inr ([], True), s) else if nsInitiator s then initiatorWrite L peerMsg s else responderWrite L peerMsg s)"

definition count_nonce :: "u64 \<Rightarrow> bytes" where "count_nonce n = replicate 16 0 @ put_u64 n"

definition Encrypt :: "crypto_lib \<Rightarrow> noise_session \<Rightarrow> bytes \<Rightarrow> (noise_error + bytes) \<times> noise_session" where
  "Encrypt L s plaintext =
     (if \<not> nsComplete s then (Inl HandshakeNotComplete, s)
      else if nsSendCount s > MaxNonce then (Inl NonceOverflow, s)
      else (Inr (clSeal L (nsSendKey s) (count_nonce (nsSendCount s)) plaintext), s\<lparr>nsSendCount := nsSendCount s + 1\<rparr>))"

definition SecretboxOverhead :: nat where "SecretboxOverhead = 16"

definition Decrypt :: "crypto_lib \<Rightarrow> noise_session \<Rightarrow> bytes \<Rightarrow> (noise_error + bytes) \<times> noise_session" where
  "Decrypt L s ciphertext =
     (if \<not> nsComplete s then (Inl HandshakeNotComplete, s)
      else if length ciphertext < SecretboxOverhead then (Inl CiphertextTooShort, s)
      else if nsRecvCount s > MaxNonce then (Inl NonceOverflow, s)
      else let s' = s\<lparr>nsRecvCount := nsRecvCount s + 1\<rparr>
           in (case clOpen L (nsRecvKey s) (count_nonce (nsRecvCount s)) ciphertext of None \<Rightarrow> (Inl DecryptionFailed, s') | Some out \<Rightarrow> (Inr out, s')))"

section \<open>The handshake\<close>

text \<open>What the library documents: sealed boxes open under their key and nonce, and X25519 shares a secret.\<close>

definition public_of :: "crypto_lib \<Rightarrow> bytes \<Rightarrow> bytes \<Rightarrow> bool" where
  "public_of L priv pub \<longleftrightarrow> clDH L priv basepoint = Some pub"

definition crypto_ok :: "crypto_lib \<Rightarrow> bool" where
  "crypto_ok L \<longleftrightarrow>
     (\<forall>k n m. clOpen L k n (clSeal L k n m) = Some m \<and> length (clSeal L k n m) = length m + SecretboxOverhead)
     \<and> (\<forall>priv pub dh. clDH L priv pub = Some dh \<longrightarrow> length dh = 32)
     \<and> (\<forall>a b pa pb. public_of L a pa \<longrightarrow> public_of L b pb \<longrightarrow> clDH L a pb \<noteq> None \<and> clDH L a pb = clDH L b pa)"

lemma open_seal [simp]: "crypto_ok L \<Longrightarrow> clOpen L k n (clSeal L k n m) = Some m"
  and length_seal [simp]: "crypto_ok L \<Longrightarrow> length (clSeal L k n m) = length m + SecretboxOverhead"
  unfolding crypto_ok_def by blast+

lemma length_dh: "crypto_ok L \<Longrightarrow> clDH L priv pub = Some dh \<Longrightarrow> length dh = 32"
  unfolding crypto_ok_def by blast

lemma length_public: "crypto_ok L \<Longrightarrow> public_of L priv pub \<Longrightarrow> length pub = 32"
  by (auto simp: public_of_def length_dh)

lemma dh_shared:
  assumes "crypto_ok L" "public_of L a pa" "public_of L b pb"
  obtains k where "clDH L a pb = Some k" "clDH L b pa = Some k"
proof -
  have "clDH L a pb \<noteq> None" "clDH L b pa = clDH L a pb" using assms unfolding crypto_ok_def by blast+
  with that show thesis by fastforce
qed

text \<open>Three messages, as the transport exchanges them.\<close>

definition noise_exchange :: "crypto_lib \<Rightarrow> noise_session \<Rightarrow> noise_session \<Rightarrow> (noise_error + bool \<times> bool) \<times> noise_session \<times> noise_session" where
  "noise_exchange L i r =
     (case WriteHandshake L [] i of (Inl e, i1) \<Rightarrow> (Inl e, i1, r) | (Inr (m1, _), i1) \<Rightarrow>
     (case WriteHandshake L m1 r of (Inl e, r1) \<Rightarrow> (Inl e, i1, r1) | (Inr (m2, _), r1) \<Rightarrow>
     (case WriteHandshake L m2 i1 of (Inl e, i2) \<Rightarrow> (Inl e, i2, r1) | (Inr (m3, di), i2) \<Rightarrow>
     (case WriteHandshake L m3 r1 of (Inl e, r2) \<Rightarrow> (Inl e, i2, r2) | (Inr (_, dr), r2) \<Rightarrow> (Inr (di, dr), i2, r2)))))"

lemma new_noise_fields:
  assumes "new_noise L initiator rnd pub priv = Inr s"
  shows "nsInitiator s = initiator" "nsStaticPublic s = pub" "nsStaticPrivate s = priv" "\<not> nsComplete s" "nsStep s = 0" "\<not> nsOk s"
    "nsCk s = clHash L (str_bytes protocolName)" "nsH s = clHash L (str_bytes protocolName)" "nsSendCount s = 0" "nsRecvCount s = 0"
    "public_of L (nsEphemeralPrivate s) (nsEphemeralPublic s)"
  using assms by (auto simp: new_noise_def initHashAndChain_def generateX25519Key_def public_of_def Let_def split: option.splits)

definition chain_key :: "crypto_lib \<Rightarrow> bytes list \<Rightarrow> bytes" where
  "chain_key L dhs = foldl (\<lambda>ck dh. clHkdf L dh ck [1] 32) (clHash L (str_bytes protocolName)) dhs"

definition split_keys :: "crypto_lib \<Rightarrow> bytes list \<Rightarrow> bytes \<times> bytes" where
  "split_keys L dhs = (let keys = clHkdf L [] (chain_key L dhs) [1] 64 in (take 32 keys, drop 32 keys))"

lemmas noise_defs = WriteHandshake_def initiatorWrite_def responderWrite_def mix_dh_def take_static_def encryptAndHash_def decryptAndHash_def
  mixHash_def mixKey_def noise_split_def

text \<open>
  The handshake in terms of its four Diffie-Hellman results. The static key of the initiator enters only as the bytes it sends
  and through the secrets \<open>se\<close>, which each side computes for itself.
\<close>

lemma exchange_result:
  assumes L: "crypto_ok L" and i: "new_noise L True rnd v w = Inr i" and r: "new_noise L False rnd' rp rs = Inr r"
    and len: "length v = 32" "length rp = 32"
    and ee: "clDH L (nsEphemeralPrivate i) (nsEphemeralPublic r) = Some ee" "clDH L (nsEphemeralPrivate r) (nsEphemeralPublic i) = Some ee"
    and es: "clDH L (nsEphemeralPrivate i) rp = Some es" "clDH L rs (nsEphemeralPublic i) = Some es"
    and se: "clDH L w (nsEphemeralPublic r) = Some sei" "clDH L (nsEphemeralPrivate r) v = Some ser"
  shows "\<exists>i' r'. noise_exchange L i r = (Inr (True, True), i', r')
     \<and> nsComplete i' \<and> nsComplete r' \<and> nsRemotePublic i' = rp \<and> nsRemotePublic r' = v
     \<and> (nsSendKey i', nsRecvKey i') = split_keys L [ee, es, sei] \<and> (nsRecvKey r', nsSendKey r') = split_keys L [ee, es, ser]
     \<and> nsSendCount i' = 0 \<and> nsRecvCount i' = 0 \<and> nsSendCount r' = 0 \<and> nsRecvCount r' = 0"
proof -
  note fi = new_noise_fields [OF i] and fr = new_noise_fields [OF r]
  have lens: "length (nsEphemeralPublic i) = 32" "length (nsEphemeralPublic r) = 32"
    using length_public [OF L] fi(11) fr(11) by auto
  show ?thesis
    unfolding noise_exchange_def noise_defs
    by (simp add: fi(1-10) fr(1-10) lens len ee es se L Let_def split_keys_def chain_key_def)
qed

section \<open>The session as a pair of queues\<close>

definition noise_sync :: "crypto_lib \<Rightarrow> noise_session \<Rightarrow> noise_session \<Rightarrow> bool" where
  "noise_sync L a b \<longleftrightarrow> crypto_ok L \<and> nsComplete a \<and> nsComplete b \<and> nsSendKey a = nsRecvKey b \<and> nsSendCount a = nsRecvCount b"

lemma counts_in_range [simp]: "\<not> MaxNonce < n"
  by (simp add: MaxNonce_def)

interpretation noise: session_endpoint "Encrypt L" "Decrypt L" "noise_sync L" for L
proof
  fix a b m
  assume sync: "noise_sync L a b"
  let ?c = "clSeal L (nsSendKey a) (count_nonce (nsSendCount a)) m"
  have "Encrypt L a m = (Inr ?c, a\<lparr>nsSendCount := nsSendCount a + 1\<rparr>)" using sync by (simp add: Encrypt_def noise_sync_def)
  moreover have "Decrypt L b ?c = (Inr m, b\<lparr>nsRecvCount := nsRecvCount b + 1\<rparr>)" using sync by (simp add: Decrypt_def noise_sync_def)
  ultimately show "\<exists>c a' b'. Encrypt L a m = (Inr c, a') \<and> Decrypt L b c = (Inr m, b') \<and> noise_sync L a' b'"
    using sync by (simp add: noise_sync_def)
qed (auto simp: Encrypt_def Decrypt_def noise_sync_def Let_def split: if_splits option.splits)

lemma noise_session_synced:
  assumes "crypto_ok L" "public_of L is ip" "public_of L rs rp"
    and "NewNoiseInitiator L rnd ip is = Inr i" "NewNoiseResponder L rnd' rp rs = Inr r"
  shows "\<exists>i' r'. noise_exchange L i r = (Inr (True, True), i', r') \<and> nsRemotePublic i' = rp \<and> nsRemotePublic r' = ip
     \<and> nsSendKey i' = nsRecvKey r' \<and> nsSendKey r' = nsRecvKey i' \<and> noise_sync L i' r' \<and> noise_sync L r' i'"
proof -
  note new = assms(4,5) [unfolded NewNoiseInitiator_def NewNoiseResponder_def]
  note ei = new_noise_fields(11) [OF new(1)] and er = new_noise_fields(11) [OF new(2)]
  obtain ee where ee: "clDH L (nsEphemeralPrivate i) (nsEphemeralPublic r) = Some ee" "clDH L (nsEphemeralPrivate r) (nsEphemeralPublic i) = Some ee"
    using dh_shared [OF assms(1) ei er] .
  obtain es where es: "clDH L (nsEphemeralPrivate i) rp = Some es" "clDH L rs (nsEphemeralPublic i) = Some es"
    using dh_shared [OF assms(1) ei assms(3)] .
  obtain se where se: "clDH L is (nsEphemeralPublic r) = Some se" "clDH L (nsEphemeralPrivate r) ip = Some se"
    using dh_shared [OF assms(1,2) er] .
  show ?thesis
    using exchange_result [OF assms(1) new length_public [OF assms(1,2)] length_public [OF assms(1,3)] ee es se] assms(1)
    by (auto simp: noise_sync_def split_keys_def Let_def)
qed

text \<open>
  C9: A Noise session carries messages. Two sides with matching X25519 key pairs complete the three-message handshake; each learns the
  static key of the other; the sending key of one is the receiving key of the other; and from then on every interleaving of
  sending and receiving on both sides behaves as two queues of plain messages: nothing is lost, changed, reordered or refused.
\<close>

theorem noise_session_delivers:
  assumes "crypto_ok L" "public_of L is ip" "public_of L rs rp"
    and "NewNoiseInitiator L rnd ip is = Inr i" "NewNoiseResponder L rnd' rp rs = Inr r"
  shows "\<exists>i' r'. noise_exchange L i r = (Inr (True, True), i', r') \<and> nsRemotePublic i' = rp \<and> nsRemotePublic r' = ip
     \<and> nsSendKey i' = nsRecvKey r' \<and> nsSendKey r' = nsRecvKey i'
     \<and> duplex_run (Encrypt L) (Decrypt L) ps (i', [], r', []) = queues_run ps ([], [])"
  using noise_session_synced [OF assms] noise.duplex_refines by blast

section \<open>What the responder knows of the initiator\<close>

lemma responder_believes:
  assumes "crypto_ok L" "public_of L victim v" "public_of L rs rp"
    and "NewNoiseInitiator L rnd v w = Inr i" "NewNoiseResponder L rnd' rp rs = Inr r"
    and "clDH L w (nsEphemeralPublic r) \<noteq> None"
  shows "\<exists>i' r'. noise_exchange L i r = (Inr (True, True), i', r') \<and> nsComplete r' \<and> nsRemotePublic r' = v"
proof -
  note new = assms(4,5) [unfolded NewNoiseInitiator_def NewNoiseResponder_def]
  note ei = new_noise_fields(11) [OF new(1)] and er = new_noise_fields(11) [OF new(2)]
  obtain ee where ee: "clDH L (nsEphemeralPrivate i) (nsEphemeralPublic r) = Some ee" "clDH L (nsEphemeralPrivate r) (nsEphemeralPublic i) = Some ee"
    using dh_shared [OF assms(1) ei er] .
  obtain es where es: "clDH L (nsEphemeralPrivate i) rp = Some es" "clDH L rs (nsEphemeralPublic i) = Some es"
    using dh_shared [OF assms(1) ei assms(3)] .
  obtain se se' where se: "clDH L w (nsEphemeralPublic r) = Some se'" "clDH L (nsEphemeralPrivate r) v = Some se"
    using dh_shared [OF assms(1,2) er] assms(6) by blast
  from exchange_result [OF assms(1) new length_public [OF assms(1,2)] length_public [OF assms(1,3)] ee es se] show ?thesis by auto
qed

text \<open>
  The responder names a peer that proved nothing. It completes the handshake and reports the static key \<open>v\<close> as its peer whenever
  the initiator sends \<open>v\<close>, whatever private key \<open>w\<close> the initiator has: no message of the handshake is sealed under the secret that
  only the owner of \<open>v\<close> shares.
\<close>

theorem noise_responder_accepts_any_name:
  assumes "crypto_ok L" "public_of L victim v" "public_of L rs rp"
    and "NewNoiseInitiator L rnd v w = Inr i" "NewNoiseResponder L rnd' rp rs = Inr r"
    and "clDH L w (nsEphemeralPublic r) \<noteq> None"
  shows "\<exists>i' r'. noise_exchange L i r = (Inr (True, True), i', r') \<and> nsComplete r' \<and> nsRemotePublic r' = v"
  using responder_believes [OF assms] .

text \<open>
  A static public key that is not the one of the private key breaks the handshake: \<open>es\<close> differs, so the responder cannot open the
  last message. \<open>cmd/node\<close> derives the public key by \<open>Ed25519PublicToX25519\<close>.
\<close>

lemma noise_wrong_static_fails:
  assumes L: "crypto_ok L" and i: "new_noise L True rnd v w = Inr i" and r: "new_noise L False rnd' rp rs = Inr r"
    and len: "length v = 32" "length rp = 32"
    and ee: "clDH L (nsEphemeralPrivate i) (nsEphemeralPublic r) = Some ee" "clDH L (nsEphemeralPrivate r) (nsEphemeralPublic i) = Some ee"
    and es: "clDH L (nsEphemeralPrivate i) rp = Some esi" "clDH L rs (nsEphemeralPublic i) = Some esr"
    and se: "clDH L w (nsEphemeralPublic r) = Some sei"
    and wrong: "clOpen L (chain_key L [ee, esr]) handshake_nonce (clSeal L (chain_key L [ee, esi]) handshake_nonce v) = None"
  shows "\<exists>i' r'. noise_exchange L i r = (Inl DecryptStatic, i', r') \<and> \<not> nsComplete r'"
proof -
  note fi = new_noise_fields [OF i] and fr = new_noise_fields [OF r]
  have lens: "length (nsEphemeralPublic i) = 32" "length (nsEphemeralPublic r) = 32"
    using length_public [OF L] fi(11) fr(11) by auto
  show ?thesis
    using wrong unfolding noise_exchange_def noise_defs
    by (simp add: fi(1-10) fr(1-10) lens len ee es se L Let_def chain_key_def)
qed

text \<open>The transcript hash is computed and never used: no result depends on it.\<close>

definition but_hash :: "noise_step \<Rightarrow> noise_step" where
  "but_hash r = (fst r, (snd r)\<lparr>nsH := []\<rparr>)"

definition hash_blind :: "(noise_session \<Rightarrow> noise_step) \<Rightarrow> bool" where
  "hash_blind k \<longleftrightarrow> (\<forall>s x. but_hash (k (s\<lparr>nsH := x\<rparr>)) = but_hash (k s))"

lemma hash_blindD: "hash_blind k \<Longrightarrow> but_hash (k (s\<lparr>nsH := x\<rparr>)) = but_hash (k s)"
  by (simp add: hash_blind_def)

lemma hash_blind_return: "(\<And>s x. f (s\<lparr>nsH := x\<rparr>) = (f s)\<lparr>nsH := x\<rparr>) \<Longrightarrow> hash_blind (\<lambda>s. (r, f s))"
  by (simp add: hash_blind_def but_hash_def)

lemma hash_blind_mix:
  assumes "hash_blind k" "\<And>s x. p (s\<lparr>nsH := x\<rparr>) = p s" "\<And>s x. q (s\<lparr>nsH := x\<rparr>) = q s"
  shows "hash_blind (\<lambda>s. mix_dh L (p s) (q s) s k)"
proof -
  have "mixKey L dh (s\<lparr>nsH := x\<rparr>) = (mixKey L dh s)\<lparr>nsH := x\<rparr>" for dh s x by (simp add: mixKey_def)
  with assms show ?thesis by (auto simp: hash_blind_def mix_dh_def but_hash_def split: option.split)
qed

lemma hash_last:
  "s\<lparr>nsH := a, nsRemotePublic := b\<rparr> = s\<lparr>nsRemotePublic := b, nsH := a\<rparr>"
  "s\<lparr>nsH := a, nsRemoteEphemeral := b\<rparr> = s\<lparr>nsRemoteEphemeral := b, nsH := a\<rparr>"
  "s\<lparr>nsH := a, nsStep := n\<rparr> = s\<lparr>nsStep := n, nsH := a\<rparr>" for s :: noise_session
  by simp_all

lemma hash_blind_static:
  assumes "hash_blind k"
  shows "hash_blind (\<lambda>s. take_static L c s k)"
proof -
  have k: "but_hash (k (s\<lparr>nsH := h\<rparr>)) = but_hash (k s)" for s h using hash_blindD [OF assms] .
  have "but_hash (take_static L c (s\<lparr>nsH := x\<rparr>) k) = but_hash (take_static L c s k)" for s x
    by (simp add: take_static_def decryptAndHash_def mixHash_def hash_last k split: option.split) (simp add: but_hash_def)
  then show ?thesis by (simp add: hash_blind_def)
qed

lemma hash_blind_encrypt:
  assumes "\<And>e. hash_blind (k e)" "\<And>s x. p (s\<lparr>nsH := x\<rparr>) = p s"
  shows "hash_blind (\<lambda>s. case encryptAndHash L (p s) s of (e, s') \<Rightarrow> k e s')"
proof -
  have "but_hash (k e (s\<lparr>nsH := y\<rparr>)) = but_hash (k e s)" for e s y using hash_blindD [OF assms(1)] .
  then show ?thesis by (simp add: hash_blind_def encryptAndHash_def mixHash_def Let_def assms(2))
qed

lemmas hash_blind_rules = hash_blind_mix hash_blind_static hash_blind_encrypt hash_blind_return

lemma initiator_ignores_transcript: "but_hash (initiatorWrite L msg (s\<lparr>nsH := x\<rparr>)) = but_hash (initiatorWrite L msg s)"
proof -
  define F where "F = (\<lambda>s1. mix_dh L (nsEphemeralPrivate s1) (take 32 msg) s1 (\<lambda>s2. take_static L (drop 32 msg) s2 (\<lambda>s3.
      mix_dh L (nsEphemeralPrivate s3) (nsRemotePublic s3) s3 (\<lambda>s4.
      case encryptAndHash L (nsStaticPublic s4) s4 of (encStatic, s5) \<Rightarrow> mix_dh L (nsStaticPrivate s5) (nsRemoteEphemeral s5) s5 (\<lambda>s6.
      (Inr (encStatic, True), (noise_split L s6)\<lparr>nsStep := 3, nsComplete := True\<rparr>))))))"
  have F: "hash_blind F" unfolding F_def by (intro hash_blind_rules) (simp_all add: noise_split_def Let_def)
  have form: "initiatorWrite L msg t =
      (if nsStep t = 0 then (Inr (nsEphemeralPublic t, False), t\<lparr>nsStep := 1, nsH := clHash L (nsH t @ nsEphemeralPublic t)\<rparr>)
       else if nsStep t = 1 then if length msg < 32 then (Inl ShortMsg2, t)
         else F (t\<lparr>nsRemoteEphemeral := take 32 msg, nsH := clHash L (nsH t @ take 32 msg)\<rparr>)
       else (Inl (InvalidStep (nsStep t)), t))" for t
    by (simp add: initiatorWrite_def F_def mixHash_def Let_def hash_last)
  show ?thesis unfolding form by (simp add: hash_last hash_blindD [OF F]) (simp add: but_hash_def)
qed

lemma responder_ignores_transcript: "but_hash (responderWrite L msg (s\<lparr>nsH := x\<rparr>)) = but_hash (responderWrite L msg s)"
proof -
  define F where "F = (\<lambda>s1. mix_dh L (nsEphemeralPrivate s1) (nsRemoteEphemeral s1) s1 (\<lambda>s2. case encryptAndHash L (nsStaticPublic s2) s2 of (encStatic, s3) \<Rightarrow>
      mix_dh L (nsStaticPrivate s3) (nsRemoteEphemeral s3) s3 (\<lambda>s4. (Inr (nsEphemeralPublic s4 @ encStatic, False), s4\<lparr>nsStep := 2\<rparr>))))"
  define G where "G = (\<lambda>s. take_static L msg s (\<lambda>s1. mix_dh L (nsEphemeralPrivate s1) (nsRemotePublic s1) s1 (\<lambda>s2.
      (Inr ([], True), (noise_split L s2)\<lparr>nsComplete := True\<rparr>))))"
  have F: "hash_blind F" unfolding F_def by (intro hash_blind_mix hash_blind_encrypt) (simp_all add: hash_blind_def but_hash_def)
  have G: "hash_blind G" unfolding G_def by (intro hash_blind_rules) (simp_all add: noise_split_def Let_def)
  have form: "responderWrite L msg t =
      (if nsStep t = 0 then if length msg \<noteq> 32 then (Inl ShortMsg1, t)
         else F (t\<lparr>nsRemoteEphemeral := msg, nsStep := 1, nsH := clHash L (nsH t @ msg)\<rparr>)
       else if nsStep t = 2 then G t else (Inl (InvalidStep (nsStep t)), t))" for t
    by (simp add: responderWrite_def F_def G_def mixHash_def Let_def hash_last)
  show ?thesis unfolding form by (simp add: hash_last hash_blindD [OF F] hash_blindD [OF G]) (simp add: but_hash_def)
qed

lemma handshake_ignores_transcript: "but_hash (WriteHandshake L msg (s\<lparr>nsH := x\<rparr>)) = but_hash (WriteHandshake L msg s)"
  by (simp add: WriteHandshake_def initiator_ignores_transcript responder_ignores_transcript) (simp add: but_hash_def)

section \<open>Forged messages\<close>

fun sealed_from :: "crypto_lib \<Rightarrow> bytes \<Rightarrow> u64 \<Rightarrow> bytes list \<Rightarrow> bytes list" where
  "sealed_from L k j [] = []"
| "sealed_from L k j (m # ms) = clSeal L k (count_nonce j) m # sealed_from L k (j + 1) ms"

lemma sealed_from_append: "sealed_from L k j (ms @ [m]) = sealed_from L k j ms @ [clSeal L k (count_nonce (j + of_nat (length ms))) m]"
  by (induction ms arbitrary: j) (simp_all add: add.assoc)

text \<open>The receiver is \<open>d\<close> messages ahead of what the sender has on the wire.\<close>

definition off_step :: "crypto_lib \<Rightarrow> u64 \<Rightarrow> noise_session \<Rightarrow> bytes list \<Rightarrow> noise_session \<Rightarrow> bool" where
  "off_step L d a q b \<longleftrightarrow> nsComplete a \<and> nsComplete b \<and> nsSendKey a = nsRecvKey b
     \<and> (\<exists>j ms. q = sealed_from L (nsSendKey a) j ms \<and> nsSendCount a = j + of_nat (length ms) \<and> nsRecvCount b = j + d)"

definition nonce_bound :: "crypto_lib \<Rightarrow> bool" where
  "nonce_bound L \<longleftrightarrow> (\<forall>k i j m. i \<noteq> j \<longrightarrow> clOpen L k (count_nonce i) (clSeal L k (count_nonce j) m) = None)"

lemma off_step_kept:
  assumes "crypto_ok L" "nonce_bound L" "d \<noteq> 0" "off_step L d a qab b"
    and "duplex_step (Encrypt L) (Decrypt L) (a, qab, b, qba) p = (out, a', qab', b', qba')"
  shows "off_step L d a' qab' b' \<and> (p = RecvB \<longrightarrow> out \<in> {Nothing, Failed DecryptionFailed})"
proof (cases p)
  case (SendA m)
  obtain j ms where q: "qab = sealed_from L (nsSendKey a) j ms" "nsSendCount a = j + of_nat (length ms)" "nsRecvCount b = j + d"
    using assms(4) unfolding off_step_def by blast
  have "a' = a\<lparr>nsSendCount := nsSendCount a + 1\<rparr>" "b' = b" "qab' = sealed_from L (nsSendKey a) j (ms @ [m])"
    using assms(4,5) SendA q by (auto simp: Encrypt_def off_step_def sealed_from_append)
  moreover have "nsSendCount a + 1 = j + of_nat (length (ms @ [m]))" by (simp add: q(2))
  ultimately show ?thesis using assms(4) SendA q(3) unfolding off_step_def by auto
next
  case (SendB m)
  with assms(4,5) show ?thesis by (auto simp: Encrypt_def off_step_def)
next
  case RecvA
  with assms(4,5) show ?thesis by (cases qba) (auto simp: Decrypt_def off_step_def Let_def split: if_splits option.splits)
next
  case RecvB
  obtain j ms where q: "qab = sealed_from L (nsSendKey a) j ms" "nsSendCount a = j + of_nat (length ms)" "nsRecvCount b = j + d"
    using assms(4) unfolding off_step_def by blast
  show ?thesis
  proof (cases ms)
    case Nil
    with RecvB assms(4,5) q(1) show ?thesis by simp
  next
    case (Cons m ns)
    have "clOpen L (nsRecvKey b) (count_nonce (j + d)) (clSeal L (nsRecvKey b) (count_nonce j) m) = None"
      using assms(2,3) by (simp add: nonce_bound_def)
    then have "out = Failed DecryptionFailed" "a' = a" "qab' = sealed_from L (nsSendKey a) (j + 1) ns" "b' = b\<lparr>nsRecvCount := j + 1 + d\<rparr>"
      using RecvB Cons assms(1,4,5) q by (auto simp: Decrypt_def off_step_def Let_def)
    moreover have "nsSendCount a = j + 1 + of_nat (length ns)" using q(2) Cons by simp
    ultimately show ?thesis using assms(4) RecvB unfolding off_step_def by auto
  qed
qed

lemma off_step_forever:
  "crypto_ok L \<Longrightarrow> nonce_bound L \<Longrightarrow> d \<noteq> 0 \<Longrightarrow> off_step L d a qab b
   \<Longrightarrow> (RecvB, Got m) \<notin> set (zip ps (duplex_run (Encrypt L) (Decrypt L) ps (a, qab, b, qba)))"
proof (induction ps arbitrary: a qab b qba)
  case (Cons p ps)
  obtain out a' qab' b' qba' where st: "duplex_step (Encrypt L) (Decrypt L) (a, qab, b, qba) p = (out, a', qab', b', qba')" by (metis prod_cases5)
  from off_step_kept [OF Cons.prems st] Cons.IH [OF Cons.prems(1-3)] show ?case by (auto simp: st)
qed simp

text \<open>
  C25: One forged packet ends a direction of a session. \<open>Decrypt\<close> counts a message before it has verified it, so when anything that does
  not open is put before an endpoint, its counter is ahead for good and none of the genuine messages sent afterwards is ever
  accepted, whatever else the two sides send and receive.
\<close>

theorem noise_forgery_desyncs:
  assumes "crypto_ok L" "nonce_bound L" "noise_sync L a b"
    and "Decrypt L b forged = (Inl DecryptionFailed, b')"
  shows "(RecvB, Got m) \<notin> set (zip ps (duplex_run (Encrypt L) (Decrypt L) ps (a, [], b', qba)))"
proof -
  have "b' = b\<lparr>nsRecvCount := nsRecvCount b + 1\<rparr>" using assms(4) by (auto simp: Decrypt_def Let_def split: if_splits option.splits)
  then have "off_step L 1 a (sealed_from L (nsSendKey a) (nsSendCount a) []) b'"
    using assms(3) unfolding off_step_def noise_sync_def by (intro conjI exI [of _ "nsSendCount a"] exI [of _ "[]"]) simp_all
  then show ?thesis using off_step_forever [OF assms(1,2), of 1 a "[]" b' m ps qba] by simp
qed

section \<open>A library that satisfies the assumptions\<close>

definition pad32 :: "bytes \<Rightarrow> bytes" where "pad32 x = take 32 (x @ replicate 32 0)"

definition demo_tag :: "bytes \<Rightarrow> bytes \<Rightarrow> bytes" where
  "demo_tag k n = take 8 (pad32 k) @ take 8 (drop 16 n @ replicate 8 0)"

definition demo_lib :: crypto_lib where
  "demo_lib = \<lparr>clHash = (\<lambda>x. pad32 x), clDH = (\<lambda>a p. Some (map2 (XOR) (pad32 a) (pad32 p))),
     clHkdf = (\<lambda>s t i n. take n (s @ t @ replicate n 0)), clSeal = (\<lambda>k n m. demo_tag k n @ m),
     clOpen = (\<lambda>k n c. if take 16 c = demo_tag k n then Some (drop 16 c) else None)\<rparr>"

lemma length_pad32 [simp]: "length (pad32 x) = 32"
  by (simp add: pad32_def)

lemma pad32_id: "length x = 32 \<Longrightarrow> pad32 x = x"
  by (simp add: pad32_def)

lemma length_demo_tag [simp]: "length (demo_tag k n) = 16"
  by (simp add: demo_tag_def)

lemma demo_lib_ok: "crypto_ok demo_lib"
proof -
  let ?x = "\<lambda>a p. map2 (XOR) (pad32 a) (pad32 p)"
  have swap: "?x a (?x b basepoint) = ?x b (?x a basepoint)" for a b
    by (rule nth_equalityI) (simp_all add: pad32_id xor.left_commute)
  have "clDH demo_lib a pb \<noteq> None \<and> clDH demo_lib a pb = clDH demo_lib b pa" if "public_of demo_lib a pa" "public_of demo_lib b pb" for a b pa pb
    using that swap by (auto simp: demo_lib_def public_of_def)
  moreover have "clOpen demo_lib k n (clSeal demo_lib k n m) = Some m \<and> length (clSeal demo_lib k n m) = length m + SecretboxOverhead" for k n m
    by (simp add: demo_lib_def SecretboxOverhead_def)
  moreover have "length dh = 32" if "clDH demo_lib priv pub = Some dh" for priv pub dh
    using that by (auto simp: demo_lib_def)
  ultimately show ?thesis unfolding crypto_ok_def by blast
qed

lemma demo_lib_nonces: "nonce_bound demo_lib"
proof -
  have "put_u64 i = put_u64 j \<Longrightarrow> i = j" for i j by (metis get_put_u64)
  then show ?thesis by (auto simp: nonce_bound_def demo_lib_def demo_tag_def count_nonce_def put_u64_def)
qed

definition demo_public :: "bytes \<Rightarrow> bytes" where
  "demo_public k = map2 (XOR) (pad32 k) (pad32 basepoint)"

lemma demo_public_of: "public_of demo_lib k (demo_public k)"
  by (simp add: public_of_def demo_lib_def demo_public_def)

definition demo_noise :: "bool \<Rightarrow> byte \<Rightarrow> bytes \<Rightarrow> bytes \<Rightarrow> noise_session" where
  "demo_noise b x pub priv = (case new_noise demo_lib b (Some (replicate 32 x)) pub priv of Inr s \<Rightarrow> s)"

lemma demo_noise_new: "new_noise demo_lib b (Some (replicate 32 x)) pub priv = Inr (demo_noise b x pub priv)"
  by (simp add: demo_noise_def new_noise_def generateX25519Key_def demo_lib_def Let_def)

theorem noise_session_delivers_witness:
  "\<exists>i' r'. noise_exchange demo_lib (demo_noise True 1 (demo_public [3]) [3]) (demo_noise False 2 (demo_public [4]) [4]) = (Inr (True, True), i', r')
     \<and> duplex_run (Encrypt demo_lib) (Decrypt demo_lib) [SendA [7], SendB [8], RecvB, RecvA] (i', [], r', []) = [Sent, Sent, Got [7], Got [8]]"
  using noise_session_delivers [OF demo_lib_ok demo_public_of demo_public_of, of "Some (replicate 32 1)" "[3]" "demo_noise True 1 (demo_public [3]) [3]"
      "Some (replicate 32 2)" "[4]" "demo_noise False 2 (demo_public [4]) [4]" "[SendA [7], SendB [8], RecvB, RecvA]"]
  by (auto simp: NewNoiseInitiator_def NewNoiseResponder_def demo_noise_new)

theorem noise_responder_accepts_any_name_witness:
  "\<exists>i' r'. noise_exchange demo_lib (demo_noise True 1 (demo_public [3]) [99]) (demo_noise False 2 (demo_public [4]) [4]) = (Inr (True, True), i', r')
     \<and> nsComplete r' \<and> nsRemotePublic r' = demo_public [3]"
  using noise_responder_accepts_any_name [OF demo_lib_ok demo_public_of demo_public_of, of "Some (replicate 32 1)" "[3]" "[99]"
      "demo_noise True 1 (demo_public [3]) [99]" "Some (replicate 32 2)" "[4]" "demo_noise False 2 (demo_public [4]) [4]"]
  by (simp add: NewNoiseInitiator_def NewNoiseResponder_def demo_noise_new) (simp add: demo_lib_def)

definition demo_done :: noise_session where
  "demo_done = (demo_noise True 1 (demo_public [3]) [3])\<lparr>nsComplete := True\<rparr>"

theorem noise_forgery_desyncs_witness:
  "duplex_run (Encrypt demo_lib) (Decrypt demo_lib) [SendA [7], RecvB] (demo_done, [], snd (Decrypt demo_lib demo_done (replicate 16 1)), []) = [Sent, Failed DecryptionFailed]
   \<and> (RecvB, Got [7]) \<notin> set (zip [SendA [7 :: byte], RecvB, SendA [7], RecvB] (duplex_run (Encrypt demo_lib) (Decrypt demo_lib) [SendA [7], RecvB, SendA [7], RecvB]
       (demo_done, [], snd (Decrypt demo_lib demo_done (replicate 16 1)), [])))"
proof -
  have sync: "noise_sync demo_lib demo_done demo_done" using demo_lib_ok by (simp add: noise_sync_def demo_done_def demo_noise_def new_noise_def generateX25519Key_def initHashAndChain_def demo_lib_def Let_def)
  have forged: "Decrypt demo_lib demo_done (replicate 16 1) = (Inl DecryptionFailed, snd (Decrypt demo_lib demo_done (replicate 16 1)))" by code_simp
  have "duplex_run (Encrypt demo_lib) (Decrypt demo_lib) [SendA [7], RecvB] (demo_done, [], snd (Decrypt demo_lib demo_done (replicate 16 1)), []) = [Sent, Failed DecryptionFailed]"
    by code_simp
  then show ?thesis using noise_forgery_desyncs [OF demo_lib_ok demo_lib_nonces sync forged] by blast
qed

end
