(* ===== verification/Crypto_Hybrid.thy ===== *)
theory Crypto_Hybrid
  imports Crypto_Noise
begin

text \<open>
  The hybrid handshake of \<open>pkg/crypto/hybrid.go\<close>: Noise XX with a Kyber-1024 encapsulation beside it. Kyber is a record of functions;
  random bytes are arguments. A message that is \<open>nil\<close> in the source is \<open>None\<close>, because the code tells it from an empty one.
\<close>

record kyber_lib =
  kyGenerate :: "bytes \<Rightarrow> (bytes \<times> bytes) option"
  kyEncapsulate :: "bytes \<Rightarrow> bytes \<Rightarrow> bytes \<times> bytes"
  kyDecapsulate :: "bytes \<Rightarrow> bytes \<Rightarrow> bytes"

definition kyberPublicKeySize :: nat where "kyberPublicKeySize = 1568"
definition kyberSecretKeySize :: nat where "kyberSecretKeySize = 3168"
definition kyberCiphertextSize :: nat where "kyberCiphertextSize = 1568"

datatype hybrid_error = NoiseFails noise_error | KeygenFails | KyberPublicLength nat | KyberCiphertextLength nat | KyberSecretLength nat
  | KyberRandomFails | ResponderTooShort nat | InitiatorTooShort nat | HybridNotComplete

definition KyberKeygen :: "kyber_lib \<Rightarrow> bytes \<Rightarrow> hybrid_error + bytes \<times> bytes" where
  "KyberKeygen K rnd = (case kyGenerate K rnd of None \<Rightarrow> Inl KeygenFails | Some keys \<Rightarrow> Inr keys)"

definition KyberEncap :: "kyber_lib \<Rightarrow> bytes option \<Rightarrow> bytes \<Rightarrow> hybrid_error + bytes \<times> bytes" where
  "KyberEncap K seed pk =
     (if length pk \<noteq> kyberPublicKeySize then Inl (KyberPublicLength (length pk))
      else case seed of None \<Rightarrow> Inl KyberRandomFails | Some r \<Rightarrow> Inr (kyEncapsulate K pk r))"

definition KyberDecap :: "kyber_lib \<Rightarrow> bytes \<Rightarrow> bytes \<Rightarrow> hybrid_error + bytes" where
  "KyberDecap K ct sk =
     (if length ct \<noteq> kyberCiphertextSize then Inl (KyberCiphertextLength (length ct))
      else if length sk \<noteq> kyberSecretKeySize then Inl (KyberSecretLength (length sk))
      else Inr (kyDecapsulate K sk ct))"

record hybrid_session =
  hyNoise :: noise_session
  hyKyberPub :: bytes
  hyKyberSec :: bytes
  hyKyberSS :: bytes
  hyPeerKyberPub :: bytes
  hyHasKyberSS :: bool

definition new_hybrid :: "kyber_lib \<Rightarrow> noise_error + noise_session \<Rightarrow> bytes \<Rightarrow> hybrid_error + hybrid_session" where
  "new_hybrid K ns rnd =
     (case ns of
        Inl e \<Rightarrow> Inl (NoiseFails e)
      | Inr s \<Rightarrow>
          (case KyberKeygen K rnd of
             Inl e \<Rightarrow> Inl e
           | Inr (pk, sk) \<Rightarrow> Inr \<lparr>hyNoise = s, hyKyberPub = pk, hyKyberSec = sk, hyKyberSS = [], hyPeerKyberPub = [], hyHasKyberSS = False\<rparr>))"

definition NewHybridInitiator :: "crypto_lib \<Rightarrow> kyber_lib \<Rightarrow> bytes option \<Rightarrow> bytes \<Rightarrow> bytes \<Rightarrow> bytes \<Rightarrow> hybrid_error + hybrid_session" where
  "NewHybridInitiator L K rnd kr pub priv = new_hybrid K (NewNoiseInitiator L rnd pub priv) kr"

definition NewHybridResponder :: "crypto_lib \<Rightarrow> kyber_lib \<Rightarrow> bytes option \<Rightarrow> bytes \<Rightarrow> bytes \<Rightarrow> bytes \<Rightarrow> hybrid_error + hybrid_session" where
  "NewHybridResponder L K rnd kr pub priv = new_hybrid K (NewNoiseResponder L rnd pub priv) kr"

type_synonym hybrid_step = "(hybrid_error + bytes \<times> bool) \<times> hybrid_session"

text \<open>A step of the inner session, which is shared by reference.\<close>

definition inner_step :: "crypto_lib \<Rightarrow> bytes \<Rightarrow> hybrid_session \<Rightarrow> (bytes \<Rightarrow> bool \<Rightarrow> hybrid_session \<Rightarrow> hybrid_step) \<Rightarrow> hybrid_step" where
  "inner_step L msg h k =
     (case WriteHandshake L msg (hyNoise h) of
        (Inl e, s) \<Rightarrow> (Inl (NoiseFails e), h\<lparr>hyNoise := s\<rparr>)
      | (Inr (out, fin), s) \<Rightarrow> k out fin (h\<lparr>hyNoise := s\<rparr>))"

definition Hybrid_WriteHandshake :: "crypto_lib \<Rightarrow> kyber_lib \<Rightarrow> bytes option \<Rightarrow> bytes option \<Rightarrow> hybrid_session \<Rightarrow> hybrid_step" where
  "Hybrid_WriteHandshake L K seed peerMsg h =
     (let msg = (case peerMsg of None \<Rightarrow> [] | Some m \<Rightarrow> m)
      in if nsComplete (hyNoise h) then (Inr ([], True), h)
         else if nsInitiator (hyNoise h) \<and> peerMsg = None then
           inner_step L [] h (\<lambda>out fin h1. (Inr (hyKyberPub h1 @ out, fin), h1))
         else if nsInitiator (hyNoise h) \<and> msg \<noteq> [] then
           if length msg < kyberCiphertextSize then (Inl (ResponderTooShort (length msg)), h)
           else (case KyberDecap K (take kyberCiphertextSize msg) (hyKyberSec h) of
                   Inl e \<Rightarrow> (Inl e, h)
                 | Inr ss \<Rightarrow> inner_step L (drop kyberCiphertextSize msg) (h\<lparr>hyKyberSS := ss, hyHasKyberSS := True\<rparr>)
                               (\<lambda>out fin h1. (Inr (out, fin), h1)))
         else if \<not> nsInitiator (hyNoise h) then
           if nsStep (hyNoise h) < 1 then
             if length msg < kyberPublicKeySize then (Inl (InitiatorTooShort (length msg)), h)
             else let pk = take kyberPublicKeySize msg
                  in inner_step L (drop kyberPublicKeySize msg) h (\<lambda>out _ h1.
                     (case KyberEncap K seed pk of
                        Inl e \<Rightarrow> (Inl e, h1)
                      | Inr (ct, ss) \<Rightarrow> (Inr (ct @ out, False), h1\<lparr>hyKyberSS := ss, hyHasKyberSS := True, hyPeerKyberPub := pk\<rparr>)))
           else inner_step L msg h (\<lambda>out fin h1. (Inr (out, fin), h1))
         else inner_step L msg h (\<lambda>out fin h1. (Inr (out, fin), h1)))"

definition hybrid_lift :: "hybrid_session \<Rightarrow> (noise_error + bytes) \<times> noise_session \<Rightarrow> (hybrid_error + bytes) \<times> hybrid_session" where
  "hybrid_lift h r = (case r of (Inl e, s) \<Rightarrow> (Inl (NoiseFails e), h\<lparr>hyNoise := s\<rparr>) | (Inr out, s) \<Rightarrow> (Inr out, h\<lparr>hyNoise := s\<rparr>))"

definition Hybrid_Encrypt :: "crypto_lib \<Rightarrow> hybrid_session \<Rightarrow> bytes \<Rightarrow> (hybrid_error + bytes) \<times> hybrid_session" where
  "Hybrid_Encrypt L h plaintext = (if \<not> nsComplete (hyNoise h) then (Inl HybridNotComplete, h) else hybrid_lift h (Encrypt L (hyNoise h) plaintext))"

definition Hybrid_Decrypt :: "crypto_lib \<Rightarrow> hybrid_session \<Rightarrow> bytes \<Rightarrow> (hybrid_error + bytes) \<times> hybrid_session" where
  "Hybrid_Decrypt L h ciphertext = (if \<not> nsComplete (hyNoise h) then (Inl HybridNotComplete, h) else hybrid_lift h (Decrypt L (hyNoise h) ciphertext))"

definition session_info :: bytes where "session_info = str_bytes ''LocalWEB-v2-session''"

definition Hybrid_SessionKey :: "crypto_lib \<Rightarrow> hybrid_session \<Rightarrow> bytes" where
  "Hybrid_SessionKey L h = clHkdf L (nsSendKey (hyNoise h)) (hyKyberSS h) session_info 32"

definition Hybrid_RecvSessionKey :: "crypto_lib \<Rightarrow> hybrid_session \<Rightarrow> bytes" where
  "Hybrid_RecvSessionKey L h = clHkdf L (nsRecvKey (hyNoise h)) (hyKyberSS h) session_info 32"

section \<open>The exchange\<close>

definition kyber_ok :: "kyber_lib \<Rightarrow> bool" where
  "kyber_ok K \<longleftrightarrow> (\<forall>rnd pk sk. kyGenerate K rnd = Some (pk, sk) \<longrightarrow> length pk = kyberPublicKeySize \<and> length sk = kyberSecretKeySize
     \<and> (\<forall>seed ct ss. kyEncapsulate K pk seed = (ct, ss) \<longrightarrow> length ct = kyberCiphertextSize \<and> kyDecapsulate K sk ct = ss))"

definition hybrid_exchange ::
  "crypto_lib \<Rightarrow> kyber_lib \<Rightarrow> bytes option \<Rightarrow> hybrid_session \<Rightarrow> hybrid_session \<Rightarrow> (hybrid_error + bool \<times> bool) \<times> hybrid_session \<times> hybrid_session" where
  "hybrid_exchange L K seed i r =
     (case Hybrid_WriteHandshake L K seed None i of (Inl e, i1) \<Rightarrow> (Inl e, i1, r) | (Inr (m1, _), i1) \<Rightarrow>
     (case Hybrid_WriteHandshake L K seed (Some m1) r of (Inl e, r1) \<Rightarrow> (Inl e, i1, r1) | (Inr (m2, _), r1) \<Rightarrow>
     (case Hybrid_WriteHandshake L K seed (Some m2) i1 of (Inl e, i2) \<Rightarrow> (Inl e, i2, r1) | (Inr (m3, di), i2) \<Rightarrow>
     (case Hybrid_WriteHandshake L K seed (Some m3) r1 of (Inl e, r2) \<Rightarrow> (Inl e, i2, r2) | (Inr (_, dr), r2) \<Rightarrow> (Inr (di, dr), i2, r2)))))"

lemma initiator_first:
  assumes "nsInitiator s" "\<not> nsComplete s" "nsStep s = 0" "WriteHandshake L m s = (Inr (out, d), s')"
  shows "nsInitiator s' \<and> \<not> nsComplete s'"
  using assms by (auto simp: WriteHandshake_def initiatorWrite_def mixHash_def Let_def)

lemma responder_first:
  assumes "\<not> nsInitiator s" "\<not> nsComplete s" "nsStep s = 0" "WriteHandshake L m s = (Inr (out, d), s')"
  shows "\<not> nsInitiator s' \<and> \<not> nsComplete s' \<and> nsStep s' = 2"
  using assms by (auto simp: noise_defs Let_def split: if_splits option.splits)

lemma exchange_steps:
  assumes "noise_exchange L i r = (Inr (di, dr), i', r')"
  obtains m1 d1 i1 m2 d2 r1 m3 m4 where "WriteHandshake L [] i = (Inr (m1, d1), i1)" "WriteHandshake L m1 r = (Inr (m2, d2), r1)"
    "WriteHandshake L m2 i1 = (Inr (m3, di), i')" "WriteHandshake L m3 r1 = (Inr (m4, dr), r')"
  using assms by (auto simp: noise_exchange_def split: prod.splits sum.splits)

lemma hybrid_exchange_result:
  assumes K: "kyber_ok K" "kyGenerate K rnd = Some (hyKyberPub i, hyKyberSec i)"
    and i: "nsInitiator (hyNoise i)" "\<not> nsComplete (hyNoise i)" "nsStep (hyNoise i) = 0"
    and r: "\<not> nsInitiator (hyNoise r)" "\<not> nsComplete (hyNoise r)" "nsStep (hyNoise r) = 0"
    and ex: "noise_exchange L (hyNoise i) (hyNoise r) = (Inr (di, dr), ni, nr)"
  shows "\<exists>ct ss. hybrid_exchange L K (Some seed) i r
     = (Inr (di, dr), i\<lparr>hyNoise := ni, hyKyberSS := ss, hyHasKyberSS := True\<rparr>,
        r\<lparr>hyNoise := nr, hyKyberSS := ss, hyHasKyberSS := True, hyPeerKyberPub := hyKyberPub i\<rparr>) \<and> kyEncapsulate K (hyKyberPub i) seed = (ct, ss)"
proof -
  obtain ct ss where enc: "kyEncapsulate K (hyKyberPub i) seed = (ct, ss)" by fastforce
  have len: "length (hyKyberPub i) = kyberPublicKeySize" "length (hyKyberSec i) = kyberSecretKeySize" "length ct = kyberCiphertextSize"
    "kyDecapsulate K (hyKyberSec i) ct = ss"
    using K enc unfolding kyber_ok_def by blast+
  have ct: "ct \<noteq> []" using len(3) by (auto simp: kyberCiphertextSize_def)
  obtain m1 d1 i1 m2 d2 r1 m3 m4 where st: "WriteHandshake L [] (hyNoise i) = (Inr (m1, d1), i1)" "WriteHandshake L m1 (hyNoise r) = (Inr (m2, d2), r1)"
    "WriteHandshake L m2 i1 = (Inr (m3, di), ni)" "WriteHandshake L m3 r1 = (Inr (m4, dr), nr)"
    using exchange_steps [OF ex] .
  note f = initiator_first [OF i st(1)] responder_first [OF r st(2)]
  show ?thesis
    by (simp add: hybrid_exchange_def Hybrid_WriteHandshake_def inner_step_def KyberEncap_def KyberDecap_def i r st f len enc ct Let_def)
qed

definition hybrid_sync :: "crypto_lib \<Rightarrow> hybrid_session \<Rightarrow> hybrid_session \<Rightarrow> bool" where
  "hybrid_sync L a b \<longleftrightarrow> noise_sync L (hyNoise a) (hyNoise b)"

interpretation hybrid: session_endpoint "Hybrid_Encrypt L" "Hybrid_Decrypt L" "hybrid_sync L" for L
proof
  fix a b m
  assume "hybrid_sync L a b"
  then have sync: "noise_sync L (hyNoise a) (hyNoise b)" by (simp add: hybrid_sync_def)
  then obtain c s t where "Encrypt L (hyNoise a) m = (Inr c, s)" "Decrypt L (hyNoise b) c = (Inr m, t)" "noise_sync L s t"
    using noise.delivers [of L "hyNoise a" "hyNoise b" m] by blast
  then show "\<exists>c a' b'. Hybrid_Encrypt L a m = (Inr c, a') \<and> Hybrid_Decrypt L b c = (Inr m, b') \<and> hybrid_sync L a' b'"
    using sync by (auto simp: Hybrid_Encrypt_def Hybrid_Decrypt_def hybrid_lift_def hybrid_sync_def noise_sync_def)
qed (auto simp: Hybrid_Encrypt_def Hybrid_Decrypt_def hybrid_lift_def hybrid_sync_def noise_sync_def Encrypt_def Decrypt_def Let_def
      split: if_splits option.splits)

text \<open>
  C24: The hybrid handshake agrees on the combined key, and the data does not use it. Both sides end with the same Kyber secret and
  with session keys that match crosswise; but messages are sealed under the keys of the Noise session alone: the traffic
  behaves as two queues whatever secrets \<open>x\<close> and \<open>y\<close> the two sides hold afterwards, even different ones.
\<close>

theorem hybrid_traffic_ignores_kyber:
  assumes "crypto_ok L" "kyber_ok K" "public_of L is ip" "public_of L rs rp"
    and "NewHybridInitiator L K rnd kr ip is = Inr i" "NewHybridResponder L K rnd' kr' rp rs = Inr r"
  shows "\<exists>i' r'. hybrid_exchange L K (Some seed) i r = (Inr (True, True), i', r') \<and> hyKyberSS i' = hyKyberSS r'
     \<and> Hybrid_SessionKey L i' = Hybrid_RecvSessionKey L r' \<and> Hybrid_SessionKey L r' = Hybrid_RecvSessionKey L i'
     \<and> duplex_run (Hybrid_Encrypt L) (Hybrid_Decrypt L) ps (i'\<lparr>hyKyberSS := x\<rparr>, [], r'\<lparr>hyKyberSS := y\<rparr>, []) = queues_run ps ([], [])"
proof -
  have new: "NewNoiseInitiator L rnd ip is = Inr (hyNoise i)" "NewNoiseResponder L rnd' rp rs = Inr (hyNoise r)"
    and key: "kyGenerate K kr = Some (hyKyberPub i, hyKyberSec i)"
    using assms(5,6) by (auto simp: NewHybridInitiator_def NewHybridResponder_def new_hybrid_def KyberKeygen_def split: sum.splits option.splits)
  obtain ni nr where ex: "noise_exchange L (hyNoise i) (hyNoise r) = (Inr (True, True), ni, nr)"
      "nsSendKey ni = nsRecvKey nr" "nsSendKey nr = nsRecvKey ni" and sync: "noise_sync L ni nr" "noise_sync L nr ni"
    using noise_session_synced [OF assms(1,3,4) new] by blast
  note fi = new_noise_fields [OF new(1) [unfolded NewNoiseInitiator_def]] and fr = new_noise_fields [OF new(2) [unfolded NewNoiseResponder_def]]
  obtain ss where res: "hybrid_exchange L K (Some seed) i r = (Inr (True, True), i\<lparr>hyNoise := ni, hyKyberSS := ss, hyHasKyberSS := True\<rparr>,
        r\<lparr>hyNoise := nr, hyKyberSS := ss, hyHasKyberSS := True, hyPeerKyberPub := hyKyberPub i\<rparr>)"
    using hybrid_exchange_result [OF assms(2) key _ _ _ _ _ _ ex(1)] fi fr by auto
  have "duplex_run (Hybrid_Encrypt L) (Hybrid_Decrypt L) ps (a, [], b, []) = queues_run ps ([], [])" if "hyNoise a = ni" "hyNoise b = nr" for a b
    by (rule hybrid.duplex_refines) (use that sync in \<open>simp_all add: hybrid_sync_def\<close>)
  then show ?thesis using res ex(2,3) by (simp add: Hybrid_SessionKey_def Hybrid_RecvSessionKey_def)
qed

definition demo_kyber :: kyber_lib where
  "demo_kyber = \<lparr>kyGenerate = (\<lambda>_. Some (replicate 1568 1, replicate 3168 2)), kyEncapsulate = (\<lambda>_ s. (replicate 1568 3, [4])), kyDecapsulate = (\<lambda>_ _. [4])\<rparr>"

lemma demo_kyber_ok: "kyber_ok demo_kyber"
  by (simp add: kyber_ok_def demo_kyber_def kyberPublicKeySize_def kyberSecretKeySize_def kyberCiphertextSize_def)

definition demo_hybrid :: "noise_session \<Rightarrow> hybrid_session" where
  "demo_hybrid s = \<lparr>hyNoise = s, hyKyberPub = replicate 1568 1, hyKyberSec = replicate 3168 2, hyKyberSS = [], hyPeerKyberPub = [], hyHasKyberSS = False\<rparr>"

theorem hybrid_traffic_ignores_kyber_witness:
  "\<exists>i' r'. hybrid_exchange demo_lib demo_kyber (Some []) (demo_hybrid (demo_noise True 1 (demo_public [3]) [3])) (demo_hybrid (demo_noise False 2 (demo_public [4]) [4]))
       = (Inr (True, True), i', r')
     \<and> duplex_run (Hybrid_Encrypt demo_lib) (Hybrid_Decrypt demo_lib) [SendA [7], RecvB] (i'\<lparr>hyKyberSS := [1]\<rparr>, [], r'\<lparr>hyKyberSS := [2]\<rparr>, []) = [Sent, Got [7]]"
  using hybrid_traffic_ignores_kyber [OF demo_lib_ok demo_kyber_ok demo_public_of demo_public_of,
      of "Some (replicate 32 1)" "[]" "[3]" "demo_hybrid (demo_noise True 1 (demo_public [3]) [3])"
      "Some (replicate 32 2)" "[]" "[4]" "demo_hybrid (demo_noise False 2 (demo_public [4]) [4])" "[]" "[SendA [7], RecvB]" "[1]" "[2]"]
  by (auto simp: NewHybridInitiator_def NewHybridResponder_def NewNoiseInitiator_def NewNoiseResponder_def demo_noise_new new_hybrid_def
      KyberKeygen_def demo_kyber_def demo_hybrid_def)

end
