(* ===== verification/Discovery.thy ===== *)
theory Discovery
  imports LW_Prelude "HOL-Library.Multiset"
begin

text \<open>
  Discovered peers: the peer database (\<open>pkg/discovery/types.go\<close>) and the event handler of the orchestrator
  (\<open>pkg/discovery/discovery.go\<close>). Scores are reals with a rounding function \<open>fl\<close> for \<open>float64\<close>; the order in which the map is
  ranged over is an argument, and \<open>clk n\<close> is the \<open>n\<close>-th reading of the clock in a call.
\<close>

section \<open>Peers and the database\<close>

record service_info =
  siName :: string
  siPort :: int
  siTXT :: "string \<rightharpoonup> string"

record disc_peer =
  dpID :: bytes
  dpPublicKey :: bytes
  dpName :: string
  dpAddrs :: "string list"
  dpServices :: "service_info list"
  dpSource :: string
  dpRSSI :: int
  dpLatency :: duration
  dpScore :: real
  dpLastSeen :: gotime
  dpFirstSeen :: gotime
  dpVersion :: string

definition DiscFound :: nat where "DiscFound = 0"
definition DiscLost :: nat where "DiscLost = 1"
definition DiscUpdated :: nat where "DiscUpdated = 2"

record disc_event =
  deType :: nat
  dePeer :: disc_peer
  deTime :: gotime

type_synonym peer_db = "bytes \<rightharpoonup> disc_peer"

definition NewPeerDatabase :: peer_db where "NewPeerDatabase = Map.empty"

fun merge_new :: "string list \<Rightarrow> string list \<Rightarrow> string list" where
  "merge_new merged [] = merged"
| "merge_new merged (x # xs) = merge_new (if x \<in> set merged then merged else merged @ [x]) xs"

definition mergeAddrs :: "string list \<Rightarrow> string list \<Rightarrow> string list" where
  "mergeAddrs a b = merge_new a b"

definition Disc_Add :: "(nat \<Rightarrow> gotime) \<Rightarrow> disc_peer \<Rightarrow> peer_db \<Rightarrow> peer_db" where
  "Disc_Add clk peer db =
     (let p1 = (case db (dpID peer) of
                  None \<Rightarrow> peer
                | Some e \<Rightarrow> peer\<lparr>dpFirstSeen := dpFirstSeen e, dpScore := (if dpScore peer < dpScore e then dpScore e else dpScore peer),
                               dpAddrs := mergeAddrs (dpAddrs e) (dpAddrs peer)\<rparr>);
          p2 = p1\<lparr>dpLastSeen := clk 0\<rparr>;
          p3 = (if dpFirstSeen p2 = 0 then p2\<lparr>dpFirstSeen := clk 1\<rparr> else p2)
      in db(dpID peer \<mapsto> p3))"

definition Disc_Get :: "bytes \<Rightarrow> peer_db \<Rightarrow> disc_peer option" where "Disc_Get i db = db i"

definition Disc_Remove :: "bytes \<Rightarrow> peer_db \<Rightarrow> peer_db" where "Disc_Remove i db = db(i := None)"

definition Disc_All :: "bytes list \<Rightarrow> peer_db \<Rightarrow> disc_peer list" where "Disc_All order db = List.map_filter db order"

definition Disc_Count :: "bytes list \<Rightarrow> peer_db \<Rightarrow> nat" where "Disc_Count order db = length (Disc_All order db)"

definition stale_peer :: "gotime \<Rightarrow> duration \<Rightarrow> disc_peer \<Rightarrow> bool" where
  "stale_peer now timeout p \<longleftrightarrow> time_sub now (dpLastSeen p) > timeout"

definition Disc_GC :: "gotime \<Rightarrow> duration \<Rightarrow> bytes list \<Rightarrow> peer_db \<Rightarrow> nat \<times> peer_db" where
  "Disc_GC now timeout order db =
     (length (filter (\<lambda>i. case db i of None \<Rightarrow> False | Some p \<Rightarrow> stale_peer now timeout p) order),
      \<lambda>i. case db i of None \<Rightarrow> None | Some p \<Rightarrow> if stale_peer now timeout p then None else Some p)"

definition max_index :: "disc_peer list \<Rightarrow> nat \<Rightarrow> nat" where
  "max_index xs i = foldl (\<lambda>m j. if dpScore (xs ! j) > dpScore (xs ! m) then j else m) i [Suc i..<length xs]"

definition select_step :: "disc_peer list \<Rightarrow> nat \<Rightarrow> disc_peer list" where
  "select_step xs i = (let m = max_index xs i in xs[i := xs ! m, m := xs ! i])"

definition Disc_BestPeers :: "int \<Rightarrow> bytes list \<Rightarrow> peer_db \<Rightarrow> disc_peer list" where
  "Disc_BestPeers n order db =
     (if n \<le> 0 then []
      else let all = Disc_All order db in take (nat n) (foldl select_step all [0..<min (length all) (nat n)]))"

section \<open>The orchestrator\<close>

definition disc_computeScore :: "(real \<Rightarrow> real) \<Rightarrow> gotime \<Rightarrow> disc_peer \<Rightarrow> real" where
  "disc_computeScore fl now p =
     (let s0 = 1 / 2;
          s1 = (if time_sub now (dpLastSeen p) < 30 * 1000000000 then fl (s0 + fl (2 / 10)) else s0);
          s2 = (if dpLatency p < 10 * 1000000 then fl (s1 + fl (1 / 10)) else if dpLatency p < 50 * 1000000 then fl (s1 + fl (5 / 100)) else s1);
          s3 = (if dpRSSI p > -60 then fl (s2 + fl (1 / 10)) else if dpRSSI p > -80 then fl (s2 + fl (5 / 100)) else s2)
      in if s3 > 1 then 1 else s3)"

text \<open>\<open>handleEvent\<close>: the event that the handlers are given, \<open>None\<close> when they are not called, and the database. Halving a score is exact.\<close>

definition disc_handleEvent :: "(real \<Rightarrow> real) \<Rightarrow> (nat \<Rightarrow> gotime) \<Rightarrow> bytes \<Rightarrow> disc_event \<Rightarrow> peer_db \<Rightarrow> disc_event option \<times> peer_db" where
  "disc_handleEvent fl clk self evt db =
     (let p = dePeer evt
      in if deType evt = DiscFound \<or> deType evt = DiscUpdated then
           if dpID p = self then (None, db)
           else let p1 = (case Disc_Get (dpID p) db of
                            Some e \<Rightarrow> p\<lparr>dpScore := disc_computeScore fl (clk 0) p, dpFirstSeen := dpFirstSeen e, dpAddrs := mergeAddrs (dpAddrs e) (dpAddrs p)\<rparr>
                          | None \<Rightarrow> p\<lparr>dpScore := 1 / 2, dpFirstSeen := clk 0\<rparr>);
                    p2 = p1\<lparr>dpLastSeen := clk 1\<rparr>
                in (Some (evt\<lparr>dePeer := p2\<rparr>), Disc_Add (\<lambda>n. clk (n + 2)) p2 db)
         else if deType evt = DiscLost then
           (Some evt, case Disc_Get (dpID p) db of
              None \<Rightarrow> db
            | Some e \<Rightarrow> let e' = e\<lparr>dpScore := dpScore e / 2\<rparr> in if dpScore e' < 1 / 10 then Disc_Remove (dpID p) db else db(dpID p \<mapsto> e'))
         else (Some evt, db))"

definition disc_gc_tick :: "gotime \<Rightarrow> bytes list \<Rightarrow> peer_db \<Rightarrow> peer_db" where
  "disc_gc_tick now order db = snd (Disc_GC now (5 * 60 * 1000000000) order db)"

section \<open>Merging addresses\<close>

lemma merge_new_set [simp]: "set (merge_new merged xs) = set merged \<union> set xs"
  by (induction merged xs rule: merge_new.induct) auto

lemma merge_new_distinct: "distinct merged \<Longrightarrow> distinct (merge_new merged xs)"
  by (induction merged xs rule: merge_new.induct) auto

lemma merge_new_known: "set xs \<subseteq> set merged \<Longrightarrow> merge_new merged xs = merged"
  by (induction merged xs rule: merge_new.induct) auto

lemma mergeAddrs_twice: "mergeAddrs a (mergeAddrs a b) = mergeAddrs a b"
proof -
  have "merge_new m (m @ ys) = merge_new m ys" for m ys :: "string list"
  proof -
    have "merge_new m (xs @ ys) = merge_new (merge_new m xs) ys" for xs by (induction m xs rule: merge_new.induct) auto
    then show ?thesis by (simp add: merge_new_known)
  qed
  moreover have "\<exists>zs. merge_new m xs = m @ zs \<and> set zs \<subseteq> set xs \<and> merge_new m zs = m @ zs" for m xs :: "string list"
  proof (induction m xs rule: merge_new.induct)
    case (2 m x xs)
    then obtain zs where zs: "merge_new (if x \<in> set m then m else m @ [x]) xs = (if x \<in> set m then m else m @ [x]) @ zs" "set zs \<subseteq> set xs"
      "merge_new (if x \<in> set m then m else m @ [x]) zs = (if x \<in> set m then m else m @ [x]) @ zs" by blast
    then show ?case by (cases "x \<in> set m") (auto intro: exI [of _ zs] exI [of _ "x # zs"])
  qed simp
  ultimately show ?thesis unfolding mergeAddrs_def by (metis (no_types, lifting))
qed

section \<open>The best peers\<close>

lemma max_fold:
  "foldl (\<lambda>m j. if dpScore (xs ! j) > dpScore (xs ! m) then j else m) i js \<in> insert i (set js)
   \<and> (\<forall>j\<in>insert i (set js). dpScore (xs ! j) \<le> dpScore (xs ! foldl (\<lambda>m j. if dpScore (xs ! j) > dpScore (xs ! m) then j else m) i js))"
proof (induction js arbitrary: i)
  case (Cons j js)
  let ?k = "if dpScore (xs ! j) > dpScore (xs ! i) then j else i"
  have "dpScore (xs ! i) \<le> dpScore (xs ! ?k)" "dpScore (xs ! j) \<le> dpScore (xs ! ?k)" by simp_all
  with Cons [of ?k] show ?case by (auto intro: order_trans split: if_splits)
qed simp

lemma max_index_spec:
  assumes "i < length xs"
  shows "i \<le> max_index xs i" "max_index xs i < length xs" "i \<le> j \<Longrightarrow> j < length xs \<Longrightarrow> dpScore (xs ! j) \<le> dpScore (xs ! max_index xs i)"
proof -
  let ?m = "max_index xs i"
  have m: "?m \<in> insert i (set [Suc i..<length xs])" "\<forall>j\<in>insert i (set [Suc i..<length xs]). dpScore (xs ! j) \<le> dpScore (xs ! ?m)"
    using max_fold [of xs i "[Suc i..<length xs]"] by (simp_all add: max_index_def)
  show "i \<le> ?m" "?m < length xs" using m(1) assms by auto
  show "i \<le> j \<Longrightarrow> j < length xs \<Longrightarrow> dpScore (xs ! j) \<le> dpScore (xs ! ?m)" using m(2) by (cases "i = j") auto
qed

definition top_sorted :: "nat \<Rightarrow> disc_peer list \<Rightarrow> bool" where
  "top_sorted k xs \<longleftrightarrow> (\<forall>a b. a < k \<longrightarrow> a < b \<longrightarrow> b < length xs \<longrightarrow> dpScore (xs ! b) \<le> dpScore (xs ! a))"

lemma select_step_top:
  assumes "k < length xs" "top_sorted k xs"
  shows "top_sorted (Suc k) (select_step xs k)" "mset (select_step xs k) = mset xs"
proof -
  let ?m = "max_index xs k" and ?ys = "select_step xs k"
  note m = max_index_spec [OF assms(1)]
  have nth: "?ys ! j = xs ! (if j = k then ?m else if j = ?m then k else j)" if "j < length xs" for j
    using that m(1,2) assms(1) by (simp add: select_step_def Let_def nth_list_update)
  have len: "length ?ys = length xs" by (simp add: select_step_def Let_def)
  show "top_sorted (Suc k) ?ys"
    unfolding top_sorted_def len
  proof (intro allI impI)
    fix a b
    assume ab: "a < Suc k" "a < b" "b < length xs"
    show "dpScore (?ys ! b) \<le> dpScore (?ys ! a)"
    proof (cases "a = k")
      case True
      with ab m assms(1) show ?thesis by (simp add: nth)
    next
      case False
      with ab m assms have "?ys ! a = xs ! a" by (simp add: nth)
      moreover have "?ys ! b = xs ! (if b = k then ?m else if b = ?m then k else b)" using ab nth by simp
      ultimately show ?thesis using False ab m(1,2) assms unfolding top_sorted_def by simp
    qed
  qed
  show "mset ?ys = mset xs" using m(2) assms(1) mset_swap [of ?m xs k] by (simp add: select_step_def Let_def)
qed

lemma select_top:
  "k \<le> length xs \<Longrightarrow> top_sorted k (foldl select_step xs [0..<k]) \<and> mset (foldl select_step xs [0..<k]) = mset xs"
proof (induction k)
  case (Suc k)
  let ?ys = "foldl select_step xs [0..<k]"
  have ys: "top_sorted k ?ys" "mset ?ys = mset xs" using Suc by simp_all
  then have "k < length ?ys" using Suc.prems by (metis Suc_le_lessD size_mset)
  from select_step_top [OF this ys(1)] ys(2) show ?case by simp
qed (simp add: top_sorted_def)

text \<open>
  C27: The best peers are the best. For a positive number the result has that many peers, or all when there are fewer; they are listed by
  falling score; together with the rest, in which nobody has a higher score than anybody listed, they are exactly the known peers.
\<close>

theorem discovery_best_peers:
  assumes "0 < n"
  shows "\<exists>rest. length (Disc_BestPeers n order db) = min (nat n) (Disc_Count order db)
     \<and> sorted_wrt (\<lambda>p q. dpScore q \<le> dpScore p) (Disc_BestPeers n order db)
     \<and> mset (Disc_BestPeers n order db @ rest) = mset (Disc_All order db)
     \<and> (\<forall>p q. p \<in> set (Disc_BestPeers n order db) \<longrightarrow> q \<in> set rest \<longrightarrow> dpScore q \<le> dpScore p)"
proof -
  let ?all = "Disc_All order db"
  let ?k = "min (length ?all) (nat n)"
  define ys where "ys = foldl select_step ?all [0..<?k]"
  have ys: "top_sorted ?k ys" "mset ys = mset ?all" using select_top [of ?k ?all] by (simp_all add: ys_def)
  have len: "length ys = length ?all" using ys(2) by (metis size_mset)
  have best: "Disc_BestPeers n order db = take (nat n) ys" using assms by (simp add: Disc_BestPeers_def Let_def ys_def)
  have "take (nat n) ys = take ?k ys" by (simp add: len min_def)
  moreover have "sorted_wrt (\<lambda>p q. dpScore q \<le> dpScore p) (take ?k ys)"
    using ys(1) by (auto simp: sorted_wrt_iff_nth_less top_sorted_def len)
  moreover have "dpScore q \<le> dpScore p" if p: "p \<in> set (take ?k ys)" and q: "q \<in> set (drop ?k ys)" for p q
  proof -
    obtain a where a: "a < ?k" "p = ys ! a" using p by (auto simp: in_set_conv_nth)
    obtain b where b: "b < length ys - ?k" "q = ys ! (?k + b)" using q by (auto simp: in_set_conv_nth)
    have "a < ?k + b" "?k + b < length ys" using a(1) b(1) by linarith+
    then show ?thesis using ys(1) a b unfolding top_sorted_def by blast
  qed
  moreover have "mset (take ?k ys @ drop ?k ys) = mset ?all" using ys(2) by simp
  ultimately show ?thesis unfolding best by (intro exI [of _ "drop ?k ys"]) (auto simp: len Disc_Count_def)
qed

section \<open>Peers that are lost\<close>

definition kept_score :: "real \<Rightarrow> bool" where
  "kept_score x \<longleftrightarrow> 1 / 10 \<le> x \<and> x \<le> 1"

definition disc_ok :: "bytes \<Rightarrow> peer_db \<Rightarrow> bool" where
  "disc_ok self db \<longleftrightarrow> (\<forall>i p. db i = Some p \<longrightarrow> dpID p = i \<and> i \<noteq> self \<and> kept_score (dpScore p))"

inductive disc_reach :: "(real \<Rightarrow> real) \<Rightarrow> bytes \<Rightarrow> peer_db \<Rightarrow> bool" for fl self where
  start: "disc_reach fl self NewPeerDatabase"
| event: "disc_reach fl self db \<Longrightarrow> disc_handleEvent fl clk self evt db = (out, db') \<Longrightarrow> disc_reach fl self db'"
| gc: "disc_reach fl self db \<Longrightarrow> disc_reach fl self (disc_gc_tick now order db)"

definition score_rounding :: "(real \<Rightarrow> real) \<Rightarrow> bool" where
  "score_rounding fl \<longleftrightarrow> (\<forall>x. 1 / 2 \<le> x \<longrightarrow> 1 / 2 \<le> fl x) \<and> (\<forall>x. 0 \<le> x \<longrightarrow> 0 \<le> fl x)"

lemma boost_ge:
  assumes "score_rounding fl" "1 / 2 \<le> s" "0 \<le> x"
  shows "1 / 2 \<le> fl (s + fl x)"
proof -
  have "0 \<le> fl x" using assms(1,3) by (simp add: score_rounding_def)
  then have "1 / 2 \<le> s + fl x" using assms(2) by simp
  then show ?thesis using assms(1) unfolding score_rounding_def by blast
qed

lemma disc_computeScore_range:
  assumes "score_rounding fl"
  shows "1 / 2 \<le> disc_computeScore fl now p" "disc_computeScore fl now p \<le> 1"
proof -
  note up = boost_ge [OF assms]
  define s1 where "s1 = (if time_sub now (dpLastSeen p) < 30 * 1000000000 then fl (1 / 2 + fl (2 / 10)) else 1 / 2)"
  define s2 where "s2 = (if dpLatency p < 10 * 1000000 then fl (s1 + fl (1 / 10)) else if dpLatency p < 50 * 1000000 then fl (s1 + fl (5 / 100)) else s1)"
  define s3 where "s3 = (if dpRSSI p > -60 then fl (s2 + fl (1 / 10)) else if dpRSSI p > -80 then fl (s2 + fl (5 / 100)) else s2)"
  have s1: "1 / 2 \<le> s1" using up [of "1 / 2" "2 / 10"] by (simp add: s1_def)
  have s2: "1 / 2 \<le> s2" using up [of s1 "1 / 10"] up [of s1 "5 / 100"] s1 by (simp add: s2_def)
  have "1 / 2 \<le> s3" using up [of s2 "1 / 10"] up [of s2 "5 / 100"] s2 by (simp add: s3_def)
  moreover have "disc_computeScore fl now p = (if s3 > 1 then 1 else s3)"
    unfolding disc_computeScore_def Let_def s3_def s2_def s1_def by simp
  ultimately show "1 / 2 \<le> disc_computeScore fl now p" "disc_computeScore fl now p \<le> 1" by simp_all
qed

lemma disc_ok_get: "disc_ok self db \<Longrightarrow> db i = Some p \<Longrightarrow> dpID p = i \<and> i \<noteq> self \<and> kept_score (dpScore p)"
  by (simp add: disc_ok_def)

lemma disc_ok_put: "disc_ok self db \<Longrightarrow> dpID p = i \<Longrightarrow> i \<noteq> self \<Longrightarrow> kept_score (dpScore p) \<Longrightarrow> disc_ok self (db(i \<mapsto> p))"
  by (simp add: disc_ok_def)

lemma disc_ok_del: "disc_ok self db \<Longrightarrow> disc_ok self (db(i := None))"
  by (simp add: disc_ok_def)

lemma disc_ok_add:
  assumes "disc_ok self db" "dpID p \<noteq> self" "kept_score (dpScore p)"
  shows "disc_ok self (Disc_Add clk p db)"
proof (cases "db (dpID p)")
  case None
  then show ?thesis unfolding Disc_Add_def Let_def by (intro disc_ok_put) (use assms in simp_all)
next
  case (Some e)
  have "kept_score (dpScore e)" using disc_ok_get [OF assms(1) Some] by blast
  then show ?thesis unfolding Disc_Add_def Let_def Some by (intro disc_ok_put) (use assms in simp_all)
qed

lemma disc_ok_event:
  assumes "score_rounding fl" "disc_ok self db" "disc_handleEvent fl clk self evt db = (out, db')"
  shows "disc_ok self db'"
proof -
  let ?p = "dePeer evt"
  have "kept_score (disc_computeScore fl (clk 0) p)" for p
    using disc_computeScore_range [OF assms(1), of "clk 0" p] by (simp add: kept_score_def)
  moreover have "kept_score (1 / 2)" by (simp add: kept_score_def)
  ultimately have found: "disc_ok self db'" if "deType evt = DiscFound \<or> deType evt = DiscUpdated"
    using that assms(2,3) by (auto simp: disc_handleEvent_def Let_def split: if_splits option.splits intro!: disc_ok_add)
  have "kept_score (dpScore e / 2)" if "db i = Some e" "\<not> dpScore e / 2 < 1 / 10" for i e
    using disc_ok_get [OF assms(2) that(1)] that(2) by (simp add: kept_score_def)
  then have "disc_ok self (case db i of None \<Rightarrow> db | Some e \<Rightarrow> if dpScore e / 2 < 1 / 10 then db(i := None) else db(i \<mapsto> e\<lparr>dpScore := dpScore e / 2\<rparr>))" for i
    using assms(2) disc_ok_get [OF assms(2), of i] by (cases "db i") (auto intro!: disc_ok_del disc_ok_put simp del: divide_less_eq_numeral1)
  from this [of "dpID ?p"] found assms(2,3) show ?thesis
    by (cases "db (dpID ?p)") (auto simp: disc_handleEvent_def Disc_Get_def Disc_Remove_def Let_def split: if_splits)
qed

lemma disc_reach_ok: "disc_reach fl self db \<Longrightarrow> score_rounding fl \<Longrightarrow> disc_ok self db"
proof (induction rule: disc_reach.induct)
  case start
  show ?case by (simp add: disc_ok_def NewPeerDatabase_def)
next
  case (event db clk evt out db')
  then show ?case using disc_ok_event by blast
next
  case (gc db now order)
  then show ?case by (auto simp: disc_ok_def disc_gc_tick_def Disc_GC_def split: option.splits if_splits)
qed

definition lost :: "bytes \<Rightarrow> disc_event \<Rightarrow> bool" where
  "lost i evt \<longleftrightarrow> deType evt = DiscLost \<and> dpID (dePeer evt) = i"

lemma lost_event:
  assumes "lost i evt"
  shows "snd (disc_handleEvent fl clk self evt db) i =
     (case db i of None \<Rightarrow> None | Some p \<Rightarrow> if dpScore p / 2 < 1 / 10 then None else Some (p\<lparr>dpScore := dpScore p / 2\<rparr>))"
  using assms by (auto simp: lost_def disc_handleEvent_def DiscLost_def DiscFound_def DiscUpdated_def Disc_Get_def Disc_Remove_def Let_def split: option.splits)

text \<open>
  A peer that is gone is forgotten. Whatever was discovered before, after four reports in a row that a peer is lost the database
  does not hold it any more, because every score is at most one, each report halves it and a tenth is the least that is kept.
\<close>

theorem discovery_lost_peer_gone:
  assumes "score_rounding fl" "disc_reach fl self db" "length es = 4" "list_all (lost i) es"
  shows "foldl (\<lambda>db e. snd (disc_handleEvent fl clk self e db)) db es i = None"
proof -
  have "disc_ok self db" using assms(1,2) by (rule disc_reach_ok [rotated])
  then have "\<And>p. db i = Some p \<Longrightarrow> dpScore p \<le> 1" by (simp add: disc_ok_def kept_score_def)
  moreover obtain a b c d where es: "es = [a, b, c, d]" using assms(3) by (auto simp: length_Suc_conv numeral_eq_Suc)
  ultimately show ?thesis using assms(4) by (cases "db i") (simp_all add: lost_event)
qed

definition demo_disc_peer :: "bytes \<Rightarrow> disc_peer" where
  "demo_disc_peer i = \<lparr>dpID = i, dpPublicKey = [], dpName = ''n'', dpAddrs = [''10.0.0.1:1''], dpServices = [], dpSource = [], dpRSSI = 0, dpLatency = 0,
     dpScore = 0, dpLastSeen = 0, dpFirstSeen = 0, dpVersion = []\<rparr>"

definition demo_found :: peer_db where
  "demo_found = snd (disc_handleEvent id (\<lambda>_. 7) [0] \<lparr>deType = DiscFound, dePeer = demo_disc_peer [1], deTime = 7\<rparr> NewPeerDatabase)"

theorem discovery_lost_peer_gone_witness:
  "demo_found [1] \<noteq> None \<and>
   foldl (\<lambda>db e. snd (disc_handleEvent id (\<lambda>_. 8) [0] e db)) demo_found (replicate 4 \<lparr>deType = DiscLost, dePeer = demo_disc_peer [1], deTime = 8\<rparr>) [1] = None"
proof -
  have "disc_reach id [0] demo_found"
    unfolding demo_found_def by (rule disc_reach.event [OF disc_reach.start]) (rule prod.collapse [symmetric])
  moreover have "score_rounding id" by (simp add: score_rounding_def)
  moreover have "list_all (lost [1]) (replicate 4 \<lparr>deType = DiscLost, dePeer = demo_disc_peer [1], deTime = 8\<rparr>)"
    by (simp add: lost_def demo_disc_peer_def list_all_iff)
  ultimately have "foldl (\<lambda>db e. snd (disc_handleEvent id (\<lambda>_. 8) [0] e db)) demo_found (replicate 4 \<lparr>deType = DiscLost, dePeer = demo_disc_peer [1], deTime = 8\<rparr>) [1] = None"
    by (intro discovery_lost_peer_gone) simp_all
  moreover have "demo_found [1] \<noteq> None"
    by (simp add: demo_found_def disc_handleEvent_def demo_disc_peer_def NewPeerDatabase_def Disc_Add_def Disc_Get_def Let_def)
  ultimately show ?thesis by blast
qed

theorem discovery_best_peers_witness:
  "length (Disc_BestPeers 1 [[1], [2]] [[1] \<mapsto> demo_disc_peer [1], [2] \<mapsto> demo_disc_peer [2]]) = 1"
proof -
  have "Disc_Count [[1], [2]] [[1] \<mapsto> demo_disc_peer [1], [2] \<mapsto> demo_disc_peer [2]] = 2"
    by (simp add: Disc_Count_def Disc_All_def)
  then show ?thesis using discovery_best_peers [of 1 "[[1], [2]]" "[[1] \<mapsto> demo_disc_peer [1], [2] \<mapsto> demo_disc_peer [2]]"] by auto
qed

end
