(* ===== verification/Federation.thy ===== *)
theory Federation
  imports Discovery Dht_Wire Go_Text
begin

text \<open>
  The rendezvous service (\<open>pkg/federation\<close>): the store and the HTTP handlers of the server, the limits on what a client may write, the
  client, and the polling of the discovery mode. The JSON library is a record of functions; the network is a function from a request and
  a state to a response and a state, so that client and server compose. Bodies of error responses are left out.
\<close>

section \<open>Limits\<close>

definition maxRegisterBody :: nat where "maxRegisterBody = 65536"
definition maxAddrsPerPeer :: nat where "maxAddrsPerPeer = 16"
definition maxAddrLen :: nat where "maxAddrLen = 256"
definition maxNameLen :: nat where "maxNameLen = 64"
definition maxServicesPerPeer :: nat where "maxServicesPerPeer = 32"

text \<open>\<open>net.SplitHostPort\<close>: the last colon separates the port; a host in brackets may contain colons.\<close>

fun index_char :: "char \<Rightarrow> string \<Rightarrow> nat option" where
  "index_char c [] = None"
| "index_char c (x # xs) = (if x = c then Some 0 else map_option Suc (index_char c xs))"

definition last_index :: "char \<Rightarrow> string \<Rightarrow> nat option" where
  "last_index c s = map_option (\<lambda>k. length s - 1 - k) (index_char c (rev s))"

definition SplitHostPort :: "string \<Rightarrow> (string \<times> string) option" where
  "SplitHostPort s =
     (case last_index (CHR '':'') s of
        None \<Rightarrow> None
      | Some i \<Rightarrow>
          (let res = (if hd s = CHR ''['' then
                        case index_char (CHR '']'') s of
                          None \<Rightarrow> None
                        | Some e \<Rightarrow> if e + 1 \<noteq> length s \<and> e + 1 = i then Some (take (e - 1) (drop 1 s), 1, e + 1) else None
                      else if CHR '':'' \<in> set (take i s) then None else Some (take i s, 0, 0))
           in case res of
                None \<Rightarrow> None
              | Some (host, j, k) \<Rightarrow>
                  if CHR ''['' \<in> set (drop j s) \<or> CHR '']'' \<in> set (drop k s) then None else Some (host, drop (i + 1) s)))"

datatype malformed = NameRequired | NameTooLong | AddressRequired | TooManyAddresses | AddressEmpty | AddressTooLong | NotHostPort string | TooManyServices

fun check_addrs :: "string list \<Rightarrow> malformed option" where
  "check_addrs [] = None"
| "check_addrs (a # as) =
     (if a = [] then Some AddressEmpty
      else if length a > maxAddrLen then Some AddressTooLong
      else if SplitHostPort a = None then Some (NotHostPort a)
      else check_addrs as)"

definition validatePeerPeer :: "string list \<Rightarrow> string \<Rightarrow> nat \<Rightarrow> malformed option" where
  "validatePeerPeer addrs name services =
     (if name = [] then Some NameRequired
      else if length name > maxNameLen then Some NameTooLong
      else if addrs = [] then Some AddressRequired
      else if length addrs > maxAddrsPerPeer then Some TooManyAddresses
      else case check_addrs addrs of
             Some e \<Rightarrow> Some e
           | None \<Rightarrow> if services > maxServicesPerPeer then Some TooManyServices else None)"

definition hexVal :: "char \<Rightarrow> byte option" where
  "hexVal c =
     (let n = (of_char c :: nat)
      in if 48 \<le> n \<and> n \<le> 57 then Some (of_nat (n - 48))
         else if 97 \<le> n \<and> n \<le> 102 then Some (of_nat (n - 97 + 10))
         else if 65 \<le> n \<and> n \<le> 70 then Some (of_nat (n - 65 + 10))
         else None)"

fun parse_pairs :: "string \<Rightarrow> bytes option" where
  "parse_pairs (a # b # s) =
     (case (hexVal a, hexVal b) of
        (Some hi, Some lo) \<Rightarrow> map_option ((#) (or (push_bit 4 hi) lo)) (parse_pairs s)
      | _ \<Rightarrow> None)"
| "parse_pairs _ = Some []"

datatype id_error = IdLength nat | IdNotHex

definition parseNodeID :: "string \<Rightarrow> id_error + bytes" where
  "parseNodeID s = (if length s \<noteq> 64 then Inl (IdLength (length s)) else case parse_pairs s of None \<Rightarrow> Inl IdNotHex | Some bs \<Rightarrow> Inr bs)"

definition hexd :: string where "hexd = ''0123456789abcdef''"

definition fmtHex :: "bytes \<Rightarrow> string" where
  "fmtHex data = concat (map (\<lambda>b. [hexd ! unat (drop_bit 4 b), hexd ! unat (and b 15)]) data)"

function itoa_loop :: "nat \<Rightarrow> string \<Rightarrow> string" where
  "itoa_loop n b = (if n = 0 then b else itoa_loop (n div 10) (char_of (48 + n mod 10) # b))"
  by auto
termination by (relation "measure fst") auto

declare itoa_loop.simps [simp del]

definition itoa :: "int \<Rightarrow> string" where
  "itoa n = (if n = 0 then ''0'' else if n < 0 then ''-'' @ itoa_loop (nat (- n)) [] else itoa_loop (nat n) [])"

definition Atoi :: "string \<Rightarrow> int option" where
  "Atoi s =
     (let neg = (s \<noteq> [] \<and> hd s = CHR ''-''); ds = (if s \<noteq> [] \<and> (hd s = CHR ''-'' \<or> hd s = CHR ''+'') then tl s else s);
          v = (if neg then - int (dec_val ds) else int (dec_val ds))
      in if ds = [] \<or> \<not> list_all (\<lambda>c. 48 \<le> (of_char c :: nat) \<and> (of_char c :: nat) < 58) ds \<or> v < - (2 ^ 63) \<or> v \<ge> 2 ^ 63 then None else Some v)"

section \<open>The server\<close>

record fed_entry =
  enPeer :: disc_peer
  enExpires :: gotime

type_synonym fed_store = "bytes \<rightharpoonup> fed_entry"

definition EntryTTL :: duration where "EntryTTL = 5 * 60 * 1000000000"
definition MinRegisterInterval :: duration where "MinRegisterInterval = 10 * 1000000000"

definition NewFedStore :: fed_store where "NewFedStore = Map.empty"

definition Fed_Get :: "gotime \<Rightarrow> bytes \<Rightarrow> fed_store \<Rightarrow> disc_peer option" where
  "Fed_Get now i st = (case st i of None \<Rightarrow> None | Some e \<Rightarrow> if now > enExpires e then None else Some (enPeer e))"

definition Fed_Put :: "gotime \<Rightarrow> disc_peer \<Rightarrow> duration \<Rightarrow> fed_store \<Rightarrow> fed_store" where
  "Fed_Put now p ttl st = st(dpID p \<mapsto> \<lparr>enPeer = p, enExpires = now + ttl\<rparr>)"

definition Fed_GC :: "gotime \<Rightarrow> bytes list \<Rightarrow> fed_store \<Rightarrow> nat \<times> fed_store" where
  "Fed_GC now order st =
     (length (filter (\<lambda>i. case st i of None \<Rightarrow> False | Some e \<Rightarrow> now > enExpires e) order),
      \<lambda>i. case st i of None \<Rightarrow> None | Some e \<Rightarrow> if now > enExpires e then None else Some e)"

definition Fed_All :: "bytes list \<Rightarrow> fed_store \<Rightarrow> disc_peer list" where
  "Fed_All order st = map enPeer (List.map_filter st order)"

record fed_handler =
  fhStore :: fed_store
  fhDifficulty :: int
  fhLastRegister :: "bytes \<rightharpoonup> gotime"

definition WithDifficulty :: "int \<Rightarrow> fed_handler \<Rightarrow> fed_handler" where
  "WithDifficulty d h =
     (let d1 = (if d < MinPoWDifficulty then MinPoWDifficulty else d); d2 = (if d1 > MaxPoWDifficulty then MaxPoWDifficulty else d1)
      in h\<lparr>fhDifficulty := d2\<rparr>)"

definition NewHTTPHandler :: "fed_store \<Rightarrow> (fed_handler \<Rightarrow> fed_handler) list \<Rightarrow> fed_handler" where
  "NewHTTPHandler st opts = foldl (\<lambda>h opt. opt h) \<lparr>fhStore = st, fhDifficulty = MinPoWDifficulty, fhLastRegister = Map.empty\<rparr> opts"

text \<open>The JSON library, SHA3-256 and \<open>float64\<close> rounding; the encoder of a peer can fail on a score that is not a number.\<close>

record fed_env =
  feSha3 :: "bytes \<Rightarrow> bytes"
  feMarshalPeer :: "disc_peer \<Rightarrow> bytes option"
  feUnmarshalPeer :: "bytes \<Rightarrow> disc_peer option"
  feMarshalPeers :: "disc_peer list \<Rightarrow> bytes option"
  feUnmarshalPeers :: "bytes \<Rightarrow> disc_peer list option"
  feMarshalReg :: "disc_peer \<Rightarrow> bytes \<Rightarrow> bytes option"
  feUnmarshalReg :: "bytes \<Rightarrow> (disc_peer \<times> bytes) option"
  feRound :: "real \<Rightarrow> real"

record fed_request =
  fqMethod :: string
  fqPath :: string
  fqNodeID :: string
  fqBody :: bytes

text \<open>A response: status, the headers \<open>X-PoW-Difficulty\<close> and \<open>Retry-After\<close>, empty when absent, and the JSON body.\<close>

record fed_response =
  frStatus :: nat
  frHint :: string
  frRetry :: string
  frBody :: bytes

definition status_only :: "nat \<Rightarrow> fed_response" where
  "status_only n = \<lparr>frStatus = n, frHint = [], frRetry = [], frBody = []\<rparr>"

definition retry_after :: "fed_env \<Rightarrow> duration \<Rightarrow> int" where
  "retry_after env since =
     (let fl = feRound env; r = trunc (fl (seconds fl MinRegisterInterval - seconds fl since)) in if r < 1 then 1 else r)"

definition fed_admit :: "gotime \<Rightarrow> gotime \<Rightarrow> disc_peer \<Rightarrow> fed_handler \<Rightarrow> fed_handler" where
  "fed_admit now now' peer h =
     h\<lparr>fhLastRegister := (fhLastRegister h)(dpID peer \<mapsto> now),
       fhStore := Fed_Put now' (peer\<lparr>dpSource := ''rendezvous'', dpLastSeen := now\<rparr>) EntryTTL (fhStore h)\<rparr>"

definition too_soon :: "gotime \<Rightarrow> bytes \<Rightarrow> fed_handler \<Rightarrow> bool" where
  "too_soon now i h \<longleftrightarrow> (case fhLastRegister h i of None \<Rightarrow> False | Some prev \<Rightarrow> time_sub now prev < MinRegisterInterval)"

definition handleRegister :: "fed_env \<Rightarrow> gotime \<Rightarrow> gotime \<Rightarrow> fed_request \<Rightarrow> fed_handler \<Rightarrow> fed_response \<times> fed_handler" where
  "handleRegister env now now' req h =
     (if fqMethod req \<noteq> ''POST'' then (status_only 405, h)
      else if length (fqBody req) > maxRegisterBody then (status_only 400, h)
      else (case feUnmarshalReg env (fqBody req) of
              None \<Rightarrow> (status_only 400, h)
            | Some (peer, nonce) \<Rightarrow>
                (case feMarshalPeer env peer of
                   None \<Rightarrow> (status_only 400, h)
                 | Some payload \<Rightarrow>
                     if \<not> Dht_VerifyPoW (feSha3 env) payload nonce (fhDifficulty h)
                     then ((status_only 403)\<lparr>frHint := itoa (fhDifficulty h)\<rparr>, h)
                     else if validatePeerPeer (dpAddrs peer) (dpName peer) (length (dpServices peer)) \<noteq> None then (status_only 400, h)
                     else if too_soon now (dpID peer) h
                     then ((status_only 429)\<lparr>frRetry := itoa (retry_after env (time_sub now (the (fhLastRegister h (dpID peer)))))\<rparr>, h)
                     else (status_only 200, fed_admit now now' peer h))))"

definition fed_handleHealth :: "bytes list \<Rightarrow> fed_request \<Rightarrow> fed_handler \<Rightarrow> fed_response" where
  "fed_handleHealth order req h =
     (if fqMethod req \<noteq> ''GET'' then status_only 405
      else (status_only 200)\<lparr>frBody := str_bytes (''{\"peers\":'' @ int_dec (int (length (Fed_All order (fhStore h)))) @ '',\"difficulty\":''
             @ int_dec (fhDifficulty h) @ ''}'')\<rparr>)"

definition handleLookup :: "fed_env \<Rightarrow> gotime \<Rightarrow> fed_request \<Rightarrow> fed_handler \<Rightarrow> fed_response" where
  "handleLookup env now req h =
     (if fqMethod req \<noteq> ''GET'' then status_only 405
      else case parseNodeID (fqNodeID req) of
             Inl _ \<Rightarrow> status_only 400
           | Inr i \<Rightarrow> (case Fed_Get now i (fhStore h) of
                        None \<Rightarrow> status_only 404
                      | Some p \<Rightarrow> (case feMarshalPeer env p of None \<Rightarrow> status_only 500 | Some data \<Rightarrow> (status_only 200)\<lparr>frBody := data\<rparr>)))"

definition handleListPeers :: "fed_env \<Rightarrow> gotime \<Rightarrow> bytes list \<Rightarrow> fed_request \<Rightarrow> fed_handler \<Rightarrow> fed_response \<times> fed_handler" where
  "handleListPeers env now order req h =
     (if fqMethod req \<noteq> ''GET'' then (status_only 405, h)
      else let h' = h\<lparr>fhStore := snd (Fed_GC now order (fhStore h))\<rparr>
           in (case feMarshalPeers env (Fed_All order (fhStore h')) of
                 None \<Rightarrow> (status_only 500, h')
               | Some data \<Rightarrow> ((status_only 200)\<lparr>frBody := data\<rparr>, h')))"

definition fed_serve :: "fed_env \<Rightarrow> (nat \<Rightarrow> gotime) \<Rightarrow> bytes list \<Rightarrow> fed_request \<Rightarrow> fed_handler \<Rightarrow> fed_response \<times> fed_handler" where
  "fed_serve env clk order req h =
     (if fqPath req = ''/register'' then handleRegister env (clk 0) (clk 1) req h
      else if fqPath req = ''/lookup'' then (handleLookup env (clk 0) req h, h)
      else if fqPath req = ''/peers'' then handleListPeers env (clk 0) order req h
      else if fqPath req = ''/health'' then (fed_handleHealth order req h, h)
      else (status_only 404, h))"

section \<open>The client\<close>

record fed_client =
  fcDifficulty :: int

definition NewRendezvousClient :: fed_client where "NewRendezvousClient = \<lparr>fcDifficulty = MinPoWDifficulty\<rparr>"

datatype fed_error = MarshalPeerFails | SolveFails dht_pow_error | MarshalRegFails | RequestFails | Refused nat | KeptRefusing | PeerNotFound | DecodeFails

type_synonym 's transport = "fed_request \<Rightarrow> 's \<Rightarrow> fed_response option \<times> 's"

fun register_loop :: "fed_env \<Rightarrow> 's transport \<Rightarrow> disc_peer \<Rightarrow> bytes \<Rightarrow> nat \<Rightarrow> int \<Rightarrow> fed_client \<Rightarrow> 's \<Rightarrow> fed_error option \<times> fed_client \<times> 's" where
  "register_loop env net peer payload 0 difficulty c s = (Some KeptRefusing, c, s)"
| "register_loop env net peer payload (Suc left) difficulty c s =
     (case Dht_SolvePoW (feSha3 env) payload difficulty of
        Inl e \<Rightarrow> (Some (SolveFails e), c, s)
      | Inr nonce \<Rightarrow>
          (case feMarshalReg env peer nonce of
             None \<Rightarrow> (Some MarshalRegFails, c, s)
           | Some body \<Rightarrow>
               (case net \<lparr>fqMethod = ''POST'', fqPath = ''/register'', fqNodeID = [], fqBody = body\<rparr> s of
                  (None, s') \<Rightarrow> (Some RequestFails, c, s')
                | (Some resp, s') \<Rightarrow>
                    if frStatus resp = 200 then (None, c, s')
                    else if frStatus resp = 403 \<and> frHint resp \<noteq> [] \<and> left = 1 then
                      (case Atoi (frHint resp) of
                         Some d \<Rightarrow> if d \<noteq> difficulty then register_loop env net peer payload left d (c\<lparr>fcDifficulty := d\<rparr>) s'
                                   else (Some (Refused (frStatus resp)), c, s')
                       | None \<Rightarrow> (Some (Refused (frStatus resp)), c, s'))
                    else (Some (Refused (frStatus resp)), c, s'))))"

definition Fed_Register :: "fed_env \<Rightarrow> 's transport \<Rightarrow> disc_peer \<Rightarrow> fed_client \<Rightarrow> 's \<Rightarrow> fed_error option \<times> fed_client \<times> 's" where
  "Fed_Register env net peer c s =
     (case feMarshalPeer env peer of
        None \<Rightarrow> (Some MarshalPeerFails, c, s)
      | Some payload \<Rightarrow> register_loop env net peer payload 2 (fcDifficulty c) c s)"

definition Fed_Lookup :: "fed_env \<Rightarrow> 's transport \<Rightarrow> bytes \<Rightarrow> 's \<Rightarrow> (fed_error + disc_peer) \<times> 's" where
  "Fed_Lookup env net i s =
     (case net \<lparr>fqMethod = ''GET'', fqPath = ''/lookup'', fqNodeID = fmtHex i, fqBody = []\<rparr> s of
        (None, s') \<Rightarrow> (Inl RequestFails, s')
      | (Some resp, s') \<Rightarrow>
          if frStatus resp = 404 then (Inl PeerNotFound, s')
          else if frStatus resp \<noteq> 200 then (Inl (Refused (frStatus resp)), s')
          else (case feUnmarshalPeer env (frBody resp) of None \<Rightarrow> (Inl DecodeFails, s') | Some p \<Rightarrow> (Inr p, s')))"

definition maxPeerListBytes :: nat where "maxPeerListBytes = 4 * 1024 * 1024"

definition ListPeers :: "fed_env \<Rightarrow> 's transport \<Rightarrow> 's \<Rightarrow> (fed_error + disc_peer list) \<times> 's" where
  "ListPeers env net s =
     (case net \<lparr>fqMethod = ''GET'', fqPath = ''/peers'', fqNodeID = [], fqBody = []\<rparr> s of
        (None, s') \<Rightarrow> (Inl RequestFails, s')
      | (Some resp, s') \<Rightarrow>
          if frStatus resp \<noteq> 200 then (Inl (Refused (frStatus resp)), s')
          else (case feUnmarshalPeers env (take maxPeerListBytes (frBody resp)) of None \<Rightarrow> (Inl DecodeFails, s') | Some ps \<Rightarrow> (Inr ps, s')))"

section \<open>Polling\<close>

record peer_state =
  psAdvertised :: gotime
  psObserved :: gotime

definition pollExpiry :: duration where "pollExpiry = 3 * 60 * 1000000000"
definition eventCapacity :: nat where "eventCapacity = 32"

text \<open>\<open>emit\<close> on a channel of 32 events; \<open>fin\<close> says that the select takes the branch of the finished context.\<close>

definition fed_emit :: "bool \<Rightarrow> disc_event \<Rightarrow> disc_event list \<Rightarrow> bool \<times> disc_event list" where
  "fed_emit fin evt ch = (if fin then (False, ch) else if length ch < eventCapacity then (True, ch @ [evt]) else (False, ch))"

definition eventTypeFor :: "bool \<Rightarrow> nat" where "eventTypeFor known = (if known then DiscUpdated else DiscFound)"

fun poll_peers :: "bool \<Rightarrow> gotime \<Rightarrow> bytes \<Rightarrow> disc_peer list \<Rightarrow> (bytes \<rightharpoonup> peer_state) \<Rightarrow> bytes list \<Rightarrow> disc_event list
    \<Rightarrow> bool \<times> (bytes \<rightharpoonup> peer_state) \<times> bytes list \<times> disc_event list" where
  "poll_peers fin now self [] seen present ch = (True, seen, present, ch)"
| "poll_peers fin now self (p # ps) seen present ch =
     (if dpID p = self \<or> dpAddrs p = [] then poll_peers fin now self ps seen present ch
      else let seen' = seen(dpID p \<mapsto> \<lparr>psAdvertised = dpLastSeen p, psObserved = now\<rparr>); present' = dpID p # present
           in if (case seen (dpID p) of None \<Rightarrow> False | Some st \<Rightarrow> psAdvertised st = dpLastSeen p)
              then poll_peers fin now self ps seen' present' ch
              else (case fed_emit fin \<lparr>deType = eventTypeFor (seen (dpID p) \<noteq> None), dePeer = p, deTime = now\<rparr> ch of
                      (False, ch') \<Rightarrow> (False, seen', present', ch')
                    | (True, ch') \<Rightarrow> poll_peers fin now self ps seen' present' ch'))"

definition gone_peer :: "bytes \<Rightarrow> disc_peer" where
  "gone_peer i = \<lparr>dpID = i, dpPublicKey = replicate 32 0, dpName = [], dpAddrs = [], dpServices = [], dpSource = [], dpRSSI = 0, dpLatency = 0, dpScore = 0,
     dpLastSeen = 0, dpFirstSeen = 0, dpVersion = []\<rparr>"

fun poll_expire :: "bool \<Rightarrow> gotime \<Rightarrow> bytes list \<Rightarrow> bytes list \<Rightarrow> (bytes \<rightharpoonup> peer_state) \<Rightarrow> disc_event list \<Rightarrow> (bytes \<rightharpoonup> peer_state) \<times> disc_event list" where
  "poll_expire fin now present [] seen ch = (seen, ch)"
| "poll_expire fin now present (i # is) seen ch =
     (case seen i of
        None \<Rightarrow> poll_expire fin now present is seen ch
      | Some st \<Rightarrow>
          if i \<in> set present \<or> time_sub now (psObserved st) < pollExpiry then poll_expire fin now present is seen ch
          else poll_expire fin now present is (seen(i := None)) (snd (fed_emit fin \<lparr>deType = DiscLost, dePeer = gone_peer i, deTime = now\<rparr> ch)))"

datatype poll_error = ListFails fed_error | ChannelClosed

definition pollOnce ::
  "fed_env \<Rightarrow> 's transport \<Rightarrow> bool \<Rightarrow> gotime \<Rightarrow> bytes list \<Rightarrow> disc_peer \<Rightarrow> (bytes \<rightharpoonup> peer_state) \<Rightarrow> disc_event list \<Rightarrow> 's
     \<Rightarrow> poll_error option \<times> (bytes \<rightharpoonup> peer_state) \<times> disc_event list \<times> 's" where
  "pollOnce env net fin now order self seen ch s =
     (case ListPeers env net s of
        (Inl e, s') \<Rightarrow> (Some (ListFails e), seen, ch, s')
      | (Inr peers, s') \<Rightarrow>
          (case poll_peers fin now (dpID self) peers seen [] ch of
             (False, seen', _, ch') \<Rightarrow> (Some ChannelClosed, seen', ch', s')
           | (True, seen', present, ch') \<Rightarrow> (case poll_expire fin now present order seen' ch' of (seen'', ch'') \<Rightarrow> (None, seen'', ch'', s'))))"

section \<open>The discovery mode\<close>

text \<open>The client is nil before \<open>Start\<close>, which sets it before any use; here it starts as a new one.\<close>

record rendezvous_mode =
  rmRegisterSelf :: bool
  rmClient :: fed_client
  rmLocalAddrs :: "string list"
  rmPublicKey :: bytes
  rmNodeID :: bytes
  rmNodeName :: string

definition NewRendezvousDiscoveryMode :: "bool \<Rightarrow> rendezvous_mode" where
  "NewRendezvousDiscoveryMode registerSelf =
     \<lparr>rmRegisterSelf = registerSelf, rmClient = NewRendezvousClient, rmLocalAddrs = [], rmPublicKey = replicate 32 0, rmNodeID = replicate 32 0, rmNodeName = []\<rparr>"

definition SetLocalAddrs :: "string list \<Rightarrow> rendezvous_mode \<Rightarrow> rendezvous_mode" where "SetLocalAddrs addrs m = m\<lparr>rmLocalAddrs := addrs\<rparr>"
definition SetPublicKey :: "bytes \<Rightarrow> rendezvous_mode \<Rightarrow> rendezvous_mode" where "SetPublicKey key m = m\<lparr>rmPublicKey := key\<rparr>"

definition Mode_Advertise :: "disc_peer \<Rightarrow> rendezvous_mode \<Rightarrow> rendezvous_mode" where
  "Mode_Advertise info m = m\<lparr>rmLocalAddrs := dpAddrs info, rmPublicKey := dpPublicKey info\<rparr>"

text \<open>Registering the node; a failure is logged and forgotten.\<close>

definition register_self :: "fed_env \<Rightarrow> 's transport \<Rightarrow> disc_peer \<Rightarrow> rendezvous_mode \<Rightarrow> 's \<Rightarrow> rendezvous_mode \<times> 's" where
  "register_self env net peer m s =
     (if rmRegisterSelf m \<and> rmLocalAddrs m \<noteq> [] then (case Fed_Register env net peer (rmClient m) s of (_, c, s') \<Rightarrow> (m\<lparr>rmClient := c\<rparr>, s'))
      else (m, s))"

text \<open>\<open>Start\<close> returns the record of the node, which the loop keeps.\<close>

definition Mode_Start :: "fed_env \<Rightarrow> 's transport \<Rightarrow> gotime \<Rightarrow> bytes \<Rightarrow> string \<Rightarrow> rendezvous_mode \<Rightarrow> 's \<Rightarrow> disc_peer \<times> rendezvous_mode \<times> 's" where
  "Mode_Start env net now nodeID name m s =
     (let m1 = m\<lparr>rmNodeID := nodeID, rmNodeName := name, rmClient := NewRendezvousClient\<rparr>;
          peer = \<lparr>dpID = nodeID, dpPublicKey = rmPublicKey m1, dpName = name, dpAddrs = rmLocalAddrs m1, dpServices = [], dpSource = ''rendezvous'',
                  dpRSSI = 0, dpLatency = 0, dpScore = 0, dpLastSeen = now, dpFirstSeen = 0, dpVersion = []\<rparr>
      in (peer, register_self env net peer m1 s))"

text \<open>One tick of \<open>discoveryLoop\<close>; the error of the poll is logged only.\<close>

definition discovery_tick ::
  "fed_env \<Rightarrow> 's transport \<Rightarrow> bool \<Rightarrow> gotime \<Rightarrow> bytes list \<Rightarrow> disc_peer \<Rightarrow> rendezvous_mode \<Rightarrow> (bytes \<rightharpoonup> peer_state) \<Rightarrow> disc_event list \<Rightarrow> 's
     \<Rightarrow> rendezvous_mode \<times> (bytes \<rightharpoonup> peer_state) \<times> disc_event list \<times> 's" where
  "discovery_tick env net fin now order peer m seen ch s =
     (case register_self env net peer m s of
        (m', s1) \<Rightarrow> (case pollOnce env net fin now order peer seen ch s1 of (_, seen', ch', s2) \<Rightarrow> (m', seen', ch', s2)))"

text \<open>Addresses that are advertised after the start never reach the server: the loop registers the record it was started with.\<close>

lemma advertised_addresses_unused:
  assumes "rmLocalAddrs m \<noteq> []" "dpAddrs info \<noteq> []"
  shows "snd (discovery_tick env net fin now order peer (Mode_Advertise info m) seen ch s) = snd (discovery_tick env net fin now order peer m seen ch s)"
  using assms by (auto simp: discovery_tick_def register_self_def Mode_Advertise_def split: prod.splits)

section \<open>Identifiers and numbers\<close>

lemma hexVal_hexd: "n < 16 \<Longrightarrow> hexVal (hexd ! n) = Some (of_nat n)"
  by (simp add: hexd_def less_Suc_eq numeral_eq_Suc) (elim disjE; simp add: hexVal_def)

lemma nibbles: "or (push_bit 4 (drop_bit 4 b)) (and b 15) = (b :: byte)"
proof -
  have mask: "(15 :: byte) = mask 4" by (simp add: mask_eq_exp_minus_1)
  show ?thesis unfolding mask by (intro bit_word_eqI) (auto simp: bit_simps)
qed

lemma nibble_less: "unat (drop_bit 4 (b :: byte)) < 16" "unat (and b 15) < (16 :: nat)" for b :: byte
proof -
  show "unat (drop_bit 4 b) < 16" using unat_byte_less [of b] by (simp add: drop_bit_eq_div unat_div less_mult_imp_div_less)
  have "and b 15 \<le> 15" by (rule word_and_le1)
  then have "unat (and b 15) \<le> unat (15 :: byte)" by (simp only: word_le_nat_alt)
  then show "unat (and b 15) < (16 :: nat)" by simp
qed

lemma parse_fmtHex: "parse_pairs (fmtHex bs) = Some bs"
  by (induction bs) (simp_all add: fmtHex_def hexVal_hexd nibble_less nibbles)

lemma length_fmtHex: "length (fmtHex bs) = 2 * length bs"
  by (induction bs) (simp_all add: fmtHex_def)

lemma parseNodeID_fmtHex: "length i = 32 \<Longrightarrow> parseNodeID (fmtHex i) = Inr i"
  by (simp add: parseNodeID_def length_fmtHex parse_fmtHex)

lemma itoa_loop_nat_dec: "0 < n \<Longrightarrow> itoa_loop n b = nat_dec n @ b"
proof (induction n b rule: itoa_loop.induct)
  case (1 n b)
  show ?case
  proof (cases "n < 10")
    case True
    with "1.prems" show ?thesis by (simp add: itoa_loop.simps [of n] itoa_loop.simps [of 0] nat_dec.simps [of n])
  next
    case False
    then show ?thesis using 1 by (simp add: itoa_loop.simps [of n] nat_dec.simps [of n])
  qed
qed

lemma itoa_int_dec: "itoa n = int_dec n"
proof (cases "n = 0")
  case True
  have "nat_dec 0 = ''0''" by code_simp
  with True show ?thesis by (simp add: itoa_def int_dec_def)
qed (simp add: itoa_def int_dec_def itoa_loop_nat_dec)

lemma Atoi_itoa:
  assumes "0 \<le> n" "n < 2 ^ 63"
  shows "Atoi (itoa n) = Some n"
proof -
  have dig: "list_all (\<lambda>c. 48 \<le> (of_char c :: nat) \<and> (of_char c :: nat) < 58) (nat_dec (nat n))" by (auto simp: list_all_iff dest: nat_dec_digits)
  have ne: "nat_dec (nat n) \<noteq> []" by (subst nat_dec.simps) simp
  have "hd (nat_dec (nat n)) \<in> set (nat_dec (nat n))" using ne by simp
  from nat_dec_digits [OF this] have "hd (nat_dec (nat n)) \<noteq> CHR ''-''" "hd (nat_dec (nat n)) \<noteq> CHR ''+''" by auto
  with assms dig ne show ?thesis by (simp add: itoa_int_dec int_dec_def Atoi_def Let_def dec_val_nat_dec)
qed

section \<open>A node that registers is found\<close>

text \<open>A server behind the network: the state counts the requests, and \<open>clk k\<close> is the clock during request \<open>k\<close>.\<close>

definition server_net :: "fed_env \<Rightarrow> (nat \<Rightarrow> nat \<Rightarrow> gotime) \<Rightarrow> bytes list \<Rightarrow> (nat \<times> fed_handler) transport" where
  "server_net env clk order req st = (case st of (k, h) \<Rightarrow> case fed_serve env (clk k) order req h of (r, h') \<Rightarrow> (Some r, Suc k, h'))"

definition listed_as :: "gotime \<Rightarrow> disc_peer \<Rightarrow> disc_peer" where
  "listed_as t p = p\<lparr>dpSource := ''rendezvous'', dpLastSeen := t\<rparr>"

lemma server_register:
  "server_net env clk order \<lparr>fqMethod = ''POST'', fqPath = ''/register'', fqNodeID = [], fqBody = body\<rparr> (k, h)
     = (case handleRegister env (clk k 0) (clk k 1) \<lparr>fqMethod = ''POST'', fqPath = ''/register'', fqNodeID = [], fqBody = body\<rparr> h of (r, h') \<Rightarrow> (Some r, Suc k, h'))"
  by (simp add: server_net_def fed_serve_def)

lemma register_accepted:
  assumes "fqMethod req = ''POST''" "length (fqBody req) \<le> maxRegisterBody" "feUnmarshalReg env (fqBody req) = Some (peer, nonce)"
    and "feMarshalPeer env peer = Some payload" "Dht_VerifyPoW (feSha3 env) payload nonce (fhDifficulty h)"
    and "validatePeerPeer (dpAddrs peer) (dpName peer) (length (dpServices peer)) = None" "\<not> too_soon now (dpID peer) h"
  shows "handleRegister env now now' req h = (status_only 200, fed_admit now now' peer h)"
  using assms by (simp add: handleRegister_def)

lemma register_refused:
  assumes "fqMethod req = ''POST''" "length (fqBody req) \<le> maxRegisterBody" "feUnmarshalReg env (fqBody req) = Some (peer, nonce)"
    and "feMarshalPeer env peer = Some payload" "\<not> Dht_VerifyPoW (feSha3 env) payload nonce (fhDifficulty h)"
  shows "handleRegister env now now' req h = ((status_only 403)\<lparr>frHint := itoa (fhDifficulty h)\<rparr>, h)"
  using assms by (simp add: handleRegister_def)

definition reg_json_ok :: "fed_env \<Rightarrow> disc_peer \<Rightarrow> bytes \<Rightarrow> bool" where
  "reg_json_ok env p nonce \<longleftrightarrow> (case feMarshalReg env p nonce of None \<Rightarrow> False
     | Some body \<Rightarrow> length body \<le> maxRegisterBody \<and> feUnmarshalReg env body = Some (p, nonce))"

lemma register_loop_admits:
  assumes "feMarshalPeer env peer = Some payload" "Dht_SolvePoW (feSha3 env) payload e = Inr n" "reg_json_ok env peer n"
    and "Dht_VerifyPoW (feSha3 env) payload n (fhDifficulty h)"
    and "validatePeerPeer (dpAddrs peer) (dpName peer) (length (dpServices peer)) = None" "\<not> too_soon (clk k 0) (dpID peer) h"
  shows "register_loop env (server_net env clk order) peer payload (Suc left) e c (k, h) = (None, c, Suc k, fed_admit (clk k 0) (clk k 1) peer h)"
proof -
  obtain body where body: "feMarshalReg env peer n = Some body" "length body \<le> maxRegisterBody" "feUnmarshalReg env body = Some (peer, n)"
    using assms(3) by (auto simp: reg_json_ok_def split: option.splits)
  let ?req = "\<lparr>fqMethod = ''POST'', fqPath = ''/register'', fqNodeID = [], fqBody = body\<rparr>"
  have "handleRegister env (clk k 0) (clk k 1) ?req h = (status_only 200, fed_admit (clk k 0) (clk k 1) peer h)"
    by (rule register_accepted) (use body assms in simp_all)
  then show ?thesis using assms(2) body(1) by (simp add: server_register status_only_def)
qed

lemma lookup_admitted:
  assumes "length (dpID peer) = 32" "clk k 0 \<le> t' + EntryTTL"
    and "feMarshalPeer env (listed_as t peer) = Some data" "feUnmarshalPeer env data = Some (listed_as t peer)"
  shows "Fed_Lookup env (server_net env clk order) (dpID peer) (k, fed_admit t t' peer h) = (Inr (listed_as t peer), Suc k, fed_admit t t' peer h)"
  using assms
  by (simp add: Fed_Lookup_def server_net_def fed_serve_def handleLookup_def parseNodeID_fmtHex Fed_Get_def fed_admit_def Fed_Put_def
      listed_as_def status_only_def)


section \<open>What the server lists\<close>

definition fed_valid :: "disc_peer \<Rightarrow> bool" where
  "fed_valid p \<longleftrightarrow> validatePeerPeer (dpAddrs p) (dpName p) (length (dpServices p)) = None"

definition worked :: "fed_env \<Rightarrow> int \<Rightarrow> disc_peer \<Rightarrow> bool" where
  "worked env d p \<longleftrightarrow> (\<exists>p0 t payload nonce. p = listed_as t p0 \<and> feMarshalPeer env p0 = Some payload \<and> Dht_VerifyPoW (feSha3 env) payload nonce d)"

definition fed_ok :: "fed_env \<Rightarrow> int \<Rightarrow> fed_handler \<Rightarrow> bool" where
  "fed_ok env d h \<longleftrightarrow> fhDifficulty h = d
     \<and> (\<forall>i e. fhStore h i = Some e \<longrightarrow> dpID (enPeer e) = i \<and> fed_valid (enPeer e) \<and> worked env d (enPeer e))"

inductive fed_reach :: "fed_env \<Rightarrow> int \<Rightarrow> fed_handler \<Rightarrow> bool" for env d where
  start: "fed_reach env d (NewHTTPHandler NewFedStore [WithDifficulty d])"
| request: "fed_reach env d h \<Longrightarrow> fed_serve env clk order req h = (resp, h') \<Longrightarrow> fed_reach env d h'"

lemma fed_ok_register:
  assumes "fed_ok env d h" "handleRegister env now now' req h = (resp, h')"
  shows "fed_ok env d h'"
proof -
  have "fed_ok env d (fed_admit now now' p h)" if "fed_valid p" "feMarshalPeer env p = Some payload" "Dht_VerifyPoW (feSha3 env) payload nonce d" for p payload nonce
  proof -
    have "worked env d (listed_as now p)" unfolding worked_def using that(2,3) by blast
    moreover have "fed_valid (listed_as now p)" "dpID (listed_as now p) = dpID p" using that(1) by (simp_all add: fed_valid_def listed_as_def)
    ultimately show ?thesis using assms(1) by (auto simp: fed_ok_def fed_admit_def Fed_Put_def listed_as_def [symmetric])
  qed
  with assms show ?thesis by (auto simp: handleRegister_def fed_valid_def fed_ok_def split: if_splits option.splits)
qed

lemma fed_reach_ok: "fed_reach env d h \<Longrightarrow> fed_ok env (fhDifficulty (WithDifficulty d h)) h"
proof (induction rule: fed_reach.induct)
  case start
  show ?case by (simp add: fed_ok_def NewHTTPHandler_def NewFedStore_def WithDifficulty_def)
next
  case (request h clk order req resp h')
  have same: "fhDifficulty (WithDifficulty d h') = fhDifficulty (WithDifficulty d h)" by (simp add: WithDifficulty_def)
  show ?case
    unfolding same using request
    by (auto simp: fed_serve_def handleListPeers_def fed_ok_def Fed_GC_def Let_def dest!: fed_ok_register [rotated] split: if_splits option.splits)
qed

text \<open>
  C26: Every peer that a rendezvous server hands out has paid and keeps the limits. After any sequence of requests, each peer it lists has a short
  name and between one and sixteen addresses of the form host:port, and a nonce of the server's difficulty was presented for exactly the record
  that is listed, up to the two fields the server sets.
\<close>

theorem federation_lists_worked_peers:
  assumes "fed_reach env d h" "p \<in> set (Fed_All order (fhStore h))"
  shows "0 < length (dpName p) \<and> length (dpName p) \<le> 64 \<and> 0 < length (dpAddrs p) \<and> length (dpAddrs p) \<le> 16 \<and> length (dpServices p) \<le> 32
     \<and> list_all (\<lambda>a. length a \<le> 256 \<and> SplitHostPort a \<noteq> None) (dpAddrs p)
     \<and> (\<exists>p0 t payload nonce. p = p0\<lparr>dpSource := ''rendezvous'', dpLastSeen := t\<rparr> \<and> feMarshalPeer env p0 = Some payload
          \<and> Dht_VerifyPoW (feSha3 env) payload nonce (max MinPoWDifficulty (min MaxPoWDifficulty d)))"
proof -
  have d: "fhDifficulty (WithDifficulty d h) = max MinPoWDifficulty (min MaxPoWDifficulty d)"
    by (simp add: WithDifficulty_def MinPoWDifficulty_def MaxPoWDifficulty_def)
  obtain i e where "fhStore h i = Some e" "p = enPeer e" using assms(2) by (auto simp: Fed_All_def List.map_filter_def)
  with fed_reach_ok [OF assms(1)] have p: "fed_valid p" "worked env (max MinPoWDifficulty (min MaxPoWDifficulty d)) p" by (auto simp: fed_ok_def d)
  have "check_addrs as = None \<longleftrightarrow> list_all (\<lambda>a. a \<noteq> [] \<and> length a \<le> maxAddrLen \<and> SplitHostPort a \<noteq> None) as" for as
    by (induction as) auto
  with p show ?thesis
    by (auto simp: fed_valid_def validatePeerPeer_def worked_def listed_as_def maxNameLen_def maxAddrsPerPeer_def maxAddrLen_def maxServicesPerPeer_def list_all_iff
        split: if_splits option.splits)
qed

section \<open>A dropped event is not reported again\<close>

lemma poll_event_lost:
  assumes "dpID p \<noteq> self" "dpAddrs p \<noteq> []" "length ch = eventCapacity"
    and first: "poll_peers False now self [p] Map.empty [] ch = (done1, seen', present, ch')"
    and again: "poll_peers False later self [p] seen' [] [] = (done2, seen'', present', ch'')"
  shows "ch' = ch \<and> \<not> done1 \<and> ch'' = [] \<and> done2"
proof -
  have "ch' = ch \<and> \<not> done1 \<and> seen' (dpID p) = Some \<lparr>psAdvertised = dpLastSeen p, psObserved = now\<rparr>"
    using assms(1-3) first by (auto simp: fed_emit_def Let_def)
  with assms(1,2) again show ?thesis by (auto simp: Let_def)
qed

section \<open>Concrete runs\<close>

text \<open>An environment in which a record is written as the time it was last seen, every hash is zero, and one node registers.\<close>

definition demo_fed_node :: disc_peer where "demo_fed_node = demo_disc_peer (replicate 32 1)"

definition unary_time :: "gotime \<Rightarrow> bytes" where
  "unary_time t = (if t < 0 then 1 else 0) # replicate (nat \<bar>t\<bar>) 0"

definition time_unary :: "bytes \<Rightarrow> gotime" where
  "time_unary bs = (if hd bs = 1 then - int (length (tl bs)) else int (length (tl bs)))"

definition demo_fed_env :: fed_env where
  "demo_fed_env = \<lparr>feSha3 = (\<lambda>_. replicate 32 0), feMarshalPeer = (\<lambda>p. Some (unary_time (dpLastSeen p))),
     feUnmarshalPeer = (\<lambda>bs. Some (listed_as (time_unary bs) demo_fed_node)), feMarshalPeers = (\<lambda>_. Some []), feUnmarshalPeers = (\<lambda>_. Some []),
     feMarshalReg = (\<lambda>_ nonce. Some nonce), feUnmarshalReg = (\<lambda>b. Some (demo_fed_node, b)), feRound = id\<rparr>"

definition demo_server :: fed_handler where "demo_server = NewHTTPHandler NewFedStore [WithDifficulty 9]"

lemma demo_solves:
  assumes "8 \<le> d" "d \<le> 24"
  shows "Dht_SolvePoW (feSha3 demo_fed_env) payload d = Inr (be_bytes 8 0)"
proof -
  have "be_val (replicate 32 0) = 0" by code_simp
  then have "below_target (feSha3 demo_fed_env) payload d (be_bytes 8 0)" by (simp add: below_target_def demo_fed_env_def)
  then show ?thesis using assms by (simp add: Dht_SolvePoW_def MinPoWDifficulty_def MaxPoWDifficulty_def powNonceCeiling_def) (subst nonce_search.simps, simp)
qed

lemma demo_valid: "validatePeerPeer (dpAddrs demo_fed_node) (dpName demo_fed_node) (length (dpServices demo_fed_node)) = None"
  by (simp add: demo_fed_node_def demo_disc_peer_def) code_simp

lemma demo_json: "reg_json_ok demo_fed_env demo_fed_node (be_bytes 8 0)"
  by (simp add: reg_json_ok_def demo_fed_env_def maxRegisterBody_def)


definition demo_listed :: fed_handler where
  "demo_listed = snd (fed_serve demo_fed_env (\<lambda>_. 7) [] \<lparr>fqMethod = ''POST'', fqPath = ''/register'', fqNodeID = [], fqBody = be_bytes 8 0\<rparr> demo_server)"

theorem federation_lists_worked_peers_witness:
  "listed_as 7 demo_fed_node \<in> set (Fed_All [replicate 32 1] (fhStore demo_listed))
     \<and> (\<exists>p0 t payload nonce. listed_as 7 demo_fed_node = p0\<lparr>dpSource := ''rendezvous'', dpLastSeen := t\<rparr> \<and> feMarshalPeer demo_fed_env p0 = Some payload
          \<and> Dht_VerifyPoW (feSha3 demo_fed_env) payload nonce 9)"
proof -
  have reach: "fed_reach demo_fed_env 9 demo_listed"
    unfolding demo_listed_def demo_server_def by (rule fed_reach.request [OF fed_reach.start]) (rule prod.collapse [symmetric])
  have "fhDifficulty demo_server = 9"
    by (simp add: demo_server_def NewHTTPHandler_def WithDifficulty_def MinPoWDifficulty_def MaxPoWDifficulty_def)
  moreover have "\<not> too_soon 7 (dpID demo_fed_node) demo_server" by (simp add: too_soon_def demo_server_def NewHTTPHandler_def WithDifficulty_def Let_def)
  ultimately have admitted: "demo_listed = fed_admit 7 7 demo_fed_node demo_server"
    unfolding demo_listed_def fed_serve_def using solved_nonce [OF demo_solves [of 9 "unary_time (dpLastSeen demo_fed_node)"]]
    by (simp, subst register_accepted [of _ demo_fed_env demo_fed_node "be_bytes 8 0" "unary_time (dpLastSeen demo_fed_node)"])
      (simp_all add: demo_fed_env_def demo_valid maxRegisterBody_def)
  have listed: "listed_as 7 demo_fed_node \<in> set (Fed_All [replicate 32 1] (fhStore demo_listed))"
    unfolding admitted by (simp add: fed_admit_def Fed_Put_def Fed_All_def listed_as_def demo_fed_node_def demo_disc_peer_def List.map_filter_def)
  from federation_lists_worked_peers [OF reach this] listed show ?thesis by (simp add: MinPoWDifficulty_def MaxPoWDifficulty_def)
qed

end
