(* ===== verification/Transport.thy ===== *)
theory Transport
  imports Crypto_Noise Go_Format
begin

text \<open>
  The transport (\<open>pkg/transport/quic.go\<close>, \<open>types.go\<close>): frames, the handshake over the first stream of a connection, the table of
  connections, the dispatch of streams to services and sending. QUIC is a parameter: a connection is a number, opening and writing succeed
  or fail as the environment says, and the bytes a peer sends are a function of what it has been sent. A \<open>Connection\<close> is shared through
  pointers, so connections live in a heap and the table maps identifiers to positions in it. Logging is left out.
\<close>

section \<open>Frames and services\<close>

definition MaxFrameSize :: nat where "MaxFrameSize = 2 ^ 20"

record transport_frame =
  tfType :: byte
  tfLength :: u32
  tfPayload :: bytes

datatype frame_error = FrameTooShort | FrameTooLarge nat | FrameIncomplete

definition EncodeFrameBare :: "byte \<Rightarrow> bytes \<Rightarrow> bytes" where
  "EncodeFrameBare t payload = t # put_u32 (word_of_nat (length payload)) @ payload"

definition DecodeFrameBare :: "bytes \<Rightarrow> frame_error + transport_frame" where
  "DecodeFrameBare data =
     (if length data < 5 then Inl FrameTooShort
      else let t = data ! 0; n = unat (get_u32 (take 4 (drop 1 data)))
           in if n > MaxFrameSize then Inl (FrameTooLarge n)
              else if length data < 5 + n then Inl FrameIncomplete
              else Inr \<lparr>tfType = t, tfLength = word_of_nat n, tfPayload = take n (drop 5 data)\<rparr>)"

definition ServiceControl :: byte where "ServiceControl = 67"
definition ServiceDNS :: byte where "ServiceDNS = 68"
definition ServiceHTTP :: byte where "ServiceHTTP = 72"
definition ServiceMsg :: byte where "ServiceMsg = 77"
definition ServiceFS :: byte where "ServiceFS = 70"
definition ServiceRelay :: byte where "ServiceRelay = 82"
definition ServiceVoice :: byte where "ServiceVoice = 86"
definition ServiceVPN :: byte where "ServiceVPN = 87"
definition ServiceDocs :: byte where "ServiceDocs = 79"
definition ServiceReg :: byte where "ServiceReg = 71"

text \<open>The verb \<open>%c\<close> writes the code point in UTF-8.\<close>

definition utf8_byte :: "byte \<Rightarrow> string" where
  "utf8_byte b = (if b < 128 then [char_of (unat b)] else [char_of (192 + unat b div 64), char_of (128 + unat b mod 64)])"

definition serviceName :: "byte \<Rightarrow> string" where
  "serviceName svc =
     (if svc = ServiceControl then ''control''
      else if svc = ServiceDNS then ''dns''
      else if svc = ServiceHTTP then ''http''
      else if svc = ServiceMsg then ''messaging''
      else if svc = ServiceFS then ''files''
      else if svc = ServiceRelay then ''relay''
      else if svc = ServiceVoice then ''voice''
      else if svc = ServiceVPN then ''vpn''
      else if svc = ServiceDocs then ''docs''
      else if svc = ServiceReg then ''registry''
      else ''svc-'' @ utf8_byte svc)"

section \<open>The handshake over a stream\<close>

text \<open>
  \<open>peer ws\<close> are all bytes that have arrived when \<open>ws\<close> has been written and nothing more will arrive; \<open>sioOpen\<close> and \<open>sioWrite\<close> say whether
  opening or accepting the stream and its writes succeed, \<open>sioEOF\<close> whether the peer closes the stream cleanly.
\<close>

record stream_io =
  sioOpen :: bool
  sioWrite :: "nat \<Rightarrow> bool"
  sioEOF :: bool

datatype handshake_error = SessionFails noise_error | AcceptFails | ReadFirst | WriteResponse | ReadFinal
  | OpenFails | WriteInit | ReadResponse | WriteFinal | WaitClose

record handshake_result =
  hrPeerID :: bytes
  hrSendKey :: bytes
  hrRecvKey :: bytes

definition crypto_NodeID :: "crypto_lib \<Rightarrow> bytes \<Rightarrow> bytes" where
  "crypto_NodeID L pub = clHash L pub"

definition handshakeResult :: "crypto_lib \<Rightarrow> noise_session \<Rightarrow> handshake_result" where
  "handshakeResult L s = \<lparr>hrPeerID = crypto_NodeID L (nsRemotePublic s), hrSendKey = nsSendKey s, hrRecvKey = nsRecvKey s\<rparr>"

definition stream_readFull :: "bytes \<Rightarrow> nat \<Rightarrow> nat \<Rightarrow> bytes option" where
  "stream_readFull arrived off n = (if length arrived < off + n then None else Some (take n (drop off arrived)))"

definition noiseHandshake ::
  "crypto_lib \<Rightarrow> bytes option \<Rightarrow> bytes \<Rightarrow> bytes \<Rightarrow> stream_io \<Rightarrow> (bytes list \<Rightarrow> bytes) \<Rightarrow> (handshake_error + handshake_result) \<times> bytes list" where
  "noiseHandshake L rnd pub priv io peer =
     (case NewNoiseResponder L rnd pub priv of
        Inl e \<Rightarrow> (Inl (SessionFails e), [])
      | Inr s \<Rightarrow>
          if \<not> sioOpen io then (Inl AcceptFails, [])
          else (case stream_readFull (peer []) 0 32 of
                  None \<Rightarrow> (Inl ReadFirst, [])
                | Some first \<Rightarrow>
                    (case WriteHandshake L first s of
                       (Inl e, _) \<Rightarrow> (Inl (SessionFails e), [])
                     | (Inr (msg, _), s1) \<Rightarrow>
                         if msg \<noteq> [] \<and> \<not> sioWrite io 0 then (Inl WriteResponse, [])
                         else let out = (if msg \<noteq> [] then [msg] else [])
                              in (case stream_readFull (peer out) 32 48 of
                                    None \<Rightarrow> (Inl ReadFinal, out)
                                  | Some final \<Rightarrow>
                                      (case WriteHandshake L final s1 of
                                         (Inl e, _) \<Rightarrow> (Inl (SessionFails e), out)
                                       | (Inr _, s2) \<Rightarrow> (Inr (handshakeResult L s2), out))))))"

definition dialNoise ::
  "crypto_lib \<Rightarrow> bytes option \<Rightarrow> bytes \<Rightarrow> bytes \<Rightarrow> stream_io \<Rightarrow> (bytes list \<Rightarrow> bytes) \<Rightarrow> (handshake_error + handshake_result) \<times> bytes list" where
  "dialNoise L rnd pub priv io peer =
     (case NewNoiseInitiator L rnd pub priv of
        Inl e \<Rightarrow> (Inl (SessionFails e), [])
      | Inr s \<Rightarrow>
          if \<not> sioOpen io then (Inl OpenFails, [])
          else (case WriteHandshake L [] s of
                  (Inl e, _) \<Rightarrow> (Inl (SessionFails e), [])
                | (Inr (first, _), s1) \<Rightarrow>
                    if \<not> sioWrite io 0 then (Inl WriteInit, [])
                    else (case stream_readFull (peer [first]) 0 80 of
                            None \<Rightarrow> (Inl ReadResponse, [first])
                          | Some resp \<Rightarrow>
                              (case WriteHandshake L resp s1 of
                                 (Inl e, _) \<Rightarrow> (Inl (SessionFails e), [first])
                               | (Inr (msg, _), s2) \<Rightarrow>
                                   if msg \<noteq> [] \<and> \<not> sioWrite io 1 then (Inl WriteFinal, [first])
                                   else let out = (if msg \<noteq> [] then [first, msg] else [first])
                                        in if \<not> sioEOF io then (Inl WaitClose, out) else (Inr (handshakeResult L s2), out)))))"

section \<open>The server\<close>

datatype conn_state = StateConnecting | StateConnected | StateHandshaking | StateReady | StateDraining | StateClosed

record transport_conn =
  tcHandle :: nat
  tcPeerID :: bytes
  tcSendKey :: bytes
  tcRecvKey :: bytes
  tcAddr :: string
  tcState :: conn_state
  tcServices :: "byte set"
  tcLastSeen :: gotime
  tcAllowed :: "(byte \<times> bool) list"

record server_stats =
  stTotalConns :: u64
  stActiveConns :: u64
  stTotalStreams :: u64

type_synonym shaper = "string \<Rightarrow> string \<Rightarrow> bytes \<Rightarrow> string option"

record 'h transport_server =
  tsConns :: "bytes \<rightharpoonup> nat"
  tsHeap :: "transport_conn list"
  tsHandlers :: "byte \<rightharpoonup> 'h"
  tsPubKey :: bytes
  tsPrivKey :: bytes
  tsStats :: server_stats
  tsShaper :: "shaper option"
  tsAllowed :: "(byte \<times> bool) list"

definition WithAllowedServices :: "(byte \<times> bool) list \<Rightarrow> 'h transport_server \<Rightarrow> 'h transport_server" where
  "WithAllowedServices svcs s = s\<lparr>tsAllowed := svcs\<rparr>"

definition WithTrafficShaper :: "shaper \<Rightarrow> 'h transport_server \<Rightarrow> 'h transport_server" where
  "WithTrafficShaper sh s = s\<lparr>tsShaper := Some sh\<rparr>"

definition NewTransport :: "bytes \<Rightarrow> bytes \<Rightarrow> ('h transport_server \<Rightarrow> 'h transport_server) list \<Rightarrow> 'h transport_server" where
  "NewTransport pub priv opts =
     foldl (\<lambda>s opt. opt s) \<lparr>tsConns = Map.empty, tsHeap = [], tsHandlers = Map.empty, tsPubKey = pub, tsPrivKey = priv,
       tsStats = \<lparr>stTotalConns = 0, stActiveConns = 0, stTotalStreams = 0\<rparr>, tsShaper = None, tsAllowed = []\<rparr> opts"

definition RegisterHandler :: "byte \<Rightarrow> 'h \<Rightarrow> 'h transport_server \<Rightarrow> 'h transport_server" where
  "RegisterHandler svc h s = s\<lparr>tsHandlers := (tsHandlers s)(svc \<mapsto> h)\<rparr>"

definition count_streams :: "'h transport_server \<Rightarrow> 'h transport_server" where
  "count_streams s = s\<lparr>tsStats := (tsStats s)\<lparr>stTotalStreams := stTotalStreams (tsStats s) + 1\<rparr>\<rparr>"

definition enter_conn :: "transport_conn \<Rightarrow> 'h transport_server \<Rightarrow> nat \<times> 'h transport_server" where
  "enter_conn c s =
     (length (tsHeap s),
      s\<lparr>tsHeap := tsHeap s @ [c], tsConns := (tsConns s)(tcPeerID c \<mapsto> length (tsHeap s)),
        tsStats := (tsStats s)\<lparr>stActiveConns := stActiveConns (tsStats s) + 1\<rparr>\<rparr>)"

text \<open>\<open>handleConn\<close> up to the loop over the streams: the position of the new connection.\<close>

definition accept_conn ::
  "crypto_lib \<Rightarrow> bytes option \<Rightarrow> stream_io \<Rightarrow> (bytes list \<Rightarrow> bytes) \<Rightarrow> nat \<Rightarrow> string \<Rightarrow> gotime \<Rightarrow> 'h transport_server
     \<Rightarrow> (handshake_error + nat) \<times> 'h transport_server" where
  "accept_conn L rnd io peer qc addr now s =
     (case fst (noiseHandshake L rnd (tsPubKey s) (tsPrivKey s) io peer) of
        Inl e \<Rightarrow> (Inl e, s)
      | Inr hs \<Rightarrow>
          (case enter_conn \<lparr>tcHandle = qc, tcPeerID = hrPeerID hs, tcSendKey = hrSendKey hs, tcRecvKey = hrRecvKey hs, tcAddr = addr, tcState = StateReady,
                  tcServices = {}, tcLastSeen = now, tcAllowed = tsAllowed s\<rparr> s of
             (r, s') \<Rightarrow> (Inr r, s')))"

text \<open>One turn of \<open>serveStreams\<close>: the first byte of the stream, if it could be read; the handler that gets the stream.\<close>

definition serve_stream :: "nat \<Rightarrow> byte option \<Rightarrow> 'h transport_server \<Rightarrow> ('h \<times> byte \<times> bytes) option \<times> 'h transport_server" where
  "serve_stream r first s =
     (let conn = tsHeap s ! r
      in case first of
           None \<Rightarrow> (None, s)
         | Some svcID \<Rightarrow>
             (case tsHandlers s svcID of
                None \<Rightarrow> (None, s)
              | Some handler \<Rightarrow>
                  if tcAllowed conn \<noteq> [] \<and> map_of (tcAllowed conn) svcID \<noteq> Some True then (None, s)
                  else (Some (handler, svcID, tcPeerID conn), count_streams s)))"

text \<open>The end of \<open>serveStreams\<close>.\<close>

definition serve_end :: "nat \<Rightarrow> 'h transport_server \<Rightarrow> 'h transport_server" where
  "serve_end r s =
     s\<lparr>tsStats := (tsStats s)\<lparr>stActiveConns := stActiveConns (tsStats s) - 1\<rparr>, tsConns := (tsConns s)(tcPeerID (tsHeap s ! r) := None)\<rparr>"

record dial_io =
  dlResolve :: bool
  dlCert :: bool
  dlConn :: "nat option"
  dlStream :: stream_io

datatype connect_error = ResolveFails | CertFails | DialFails | HandshakeFails handshake_error | IdentityMismatch bytes

text \<open>\<open>Connect\<close>: the position of the connection, and whether it is new, so that its loop starts.\<close>

definition Connect ::
  "crypto_lib \<Rightarrow> bytes option \<Rightarrow> dial_io \<Rightarrow> (bytes list \<Rightarrow> bytes) \<Rightarrow> string \<Rightarrow> bytes \<Rightarrow> gotime \<Rightarrow> 'h transport_server
     \<Rightarrow> (connect_error + nat \<times> bool) \<times> 'h transport_server" where
  "Connect L rnd io peer addr peerID now s =
     (case (case tsConns s peerID of None \<Rightarrow> None | Some r \<Rightarrow> if tcState (tsHeap s ! r) \<noteq> StateClosed then Some r else None) of
        Some r \<Rightarrow> (Inr (r, False), s)
      | None \<Rightarrow>
          if \<not> dlResolve io then (Inl ResolveFails, s)
          else if \<not> dlCert io then (Inl CertFails, s)
          else (case dlConn io of
                  None \<Rightarrow> (Inl DialFails, s)
                | Some qc \<Rightarrow>
                    (case fst (dialNoise L rnd (tsPubKey s) (tsPrivKey s) (dlStream io) peer) of
                       Inl e \<Rightarrow> (Inl (HandshakeFails e), s)
                     | Inr hs \<Rightarrow>
                         if hrPeerID hs \<noteq> peerID then (Inl (IdentityMismatch (hrPeerID hs)), s)
                         else (case enter_conn \<lparr>tcHandle = qc, tcPeerID = peerID, tcSendKey = hrSendKey hs, tcRecvKey = hrRecvKey hs, tcAddr = addr,
                                      tcState = StateReady, tcServices = {}, tcLastSeen = now, tcAllowed = []\<rparr> s of
                                 (r, s') \<Rightarrow> (Inr (r, True), s'\<lparr>tsStats := (tsStats s')\<lparr>stTotalConns := stTotalConns (tsStats s') + 1\<rparr>\<rparr>)))))"

definition Conn_Close :: "nat \<Rightarrow> 'h transport_server \<Rightarrow> 'h transport_server" where
  "Conn_Close r s = s\<lparr>tsHeap := (tsHeap s)[r := (tsHeap s ! r)\<lparr>tcState := StateClosed\<rparr>]\<rparr>"

datatype send_error = ShaperRefuses string | NoConnection | ConnNotReady conn_state | StreamOpenFails | ServiceWriteFails | FrameWriteFails

text \<open>Opening a stream: the connection it is opened on and the bytes written so far.\<close>

definition Conn_OpenStream :: "bool \<Rightarrow> bool \<Rightarrow> nat \<Rightarrow> byte \<Rightarrow> 'h transport_server \<Rightarrow> (send_error + nat \<times> bytes) \<times> 'h transport_server" where
  "Conn_OpenStream opens writes r svc s =
     (let c = tsHeap s ! r
      in if tcState c \<noteq> StateReady then (Inl (ConnNotReady (tcState c)), s)
         else if \<not> opens then (Inl StreamOpenFails, s)
         else if \<not> writes then (Inl ServiceWriteFails, s)
         else (Inr (tcHandle c, [svc]), count_streams (s\<lparr>tsHeap := (tsHeap s)[r := c\<lparr>tcServices := insert svc (tcServices c)\<rparr>]\<rparr>)))"

definition Transport_OpenStream :: "bool \<Rightarrow> bool \<Rightarrow> bytes \<Rightarrow> byte \<Rightarrow> 'h transport_server \<Rightarrow> (send_error + nat \<times> bytes) \<times> 'h transport_server" where
  "Transport_OpenStream opens writes peerID svc s =
     (case tsConns s peerID of None \<Rightarrow> (Inl NoConnection, s) | Some r \<Rightarrow> Conn_OpenStream opens writes r svc s)"

definition SendTo :: "(nat \<Rightarrow> bool) \<Rightarrow> bytes \<Rightarrow> byte \<Rightarrow> byte \<Rightarrow> bytes \<Rightarrow> 'h transport_server \<Rightarrow> (send_error + nat \<times> bytes) \<times> 'h transport_server" where
  "SendTo ok peerID svc msgType payload s =
     (let frame = EncodeFrameBare msgType payload; refused = (case tsShaper s of None \<Rightarrow> None | Some sh \<Rightarrow> sh (serviceName svc) (hex_encode (take 8 peerID)) frame)
      in case refused of
           Some e \<Rightarrow> (Inl (ShaperRefuses e), s)
         | None \<Rightarrow>
             (case Transport_OpenStream (ok 0) (ok 1) peerID svc s of
                (Inl e, s') \<Rightarrow> (Inl e, s')
              | (Inr (qc, out), s') \<Rightarrow> if \<not> ok 2 then (Inl FrameWriteFails, s') else (Inr (qc, out @ frame), s')))"

definition Transport_Peers :: "bytes list \<Rightarrow> 'h transport_server \<Rightarrow> (bytes \<times> string \<times> conn_state \<times> gotime) list" where
  "Transport_Peers order s =
     map (\<lambda>r. let c = tsHeap s ! r in (tcPeerID c, tcAddr c, tcState c, tcLastSeen c)) (List.map_filter (tsConns s) order)"

section \<open>Frames survive the wire\<close>

lemma DecodeFrameBare_append:
  assumes "length payload < 2 ^ 32"
  shows "DecodeFrameBare (EncodeFrameBare t payload @ rest) =
     (if length payload > MaxFrameSize then Inl (FrameTooLarge (length payload))
      else Inr \<lparr>tfType = t, tfLength = word_of_nat (length payload), tfPayload = payload\<rparr>)"
proof -
  have n: "unat (word_of_nat (length payload) :: u32) = length payload" using assms by (simp add: take_bit_nat_eq_self unsigned_of_nat)
  have "take 4 (drop 1 (EncodeFrameBare t payload @ rest)) = put_u32 (word_of_nat (length payload))" by (simp add: EncodeFrameBare_def)
  moreover have "drop 5 (EncodeFrameBare t payload @ rest) = payload @ rest" by (simp add: EncodeFrameBare_def eval_nat_numeral)
  ultimately show ?thesis by (auto simp: DecodeFrameBare_def n Let_def) (simp_all add: EncodeFrameBare_def)
qed

section \<open>The handshake of two nodes\<close>

text \<open>What one end has sent when the other has written \<open>ws\<close>.\<close>

definition wire_of :: "((bytes list \<Rightarrow> bytes) \<Rightarrow> 'r \<times> bytes list) \<Rightarrow> bytes list \<Rightarrow> bytes" where
  "wire_of node ws = concat (snd (node (\<lambda>_. concat ws)))"

definition io_works :: "stream_io \<Rightarrow> bool" where
  "io_works io \<longleftrightarrow> sioOpen io \<and> sioWrite io 0 \<and> sioWrite io 1 \<and> sioEOF io"

lemma exchange_messages:
  assumes "noise_exchange L i r = (Inr d, i', r')"
  obtains m1 d1 i1 m2 d2 r1 m3 d3 m4 d4 where "WriteHandshake L [] i = (Inr (m1, d1), i1)" "WriteHandshake L m1 r = (Inr (m2, d2), r1)"
    "WriteHandshake L m2 i1 = (Inr (m3, d3), i')" "WriteHandshake L m3 r1 = (Inr (m4, d4), r')"
  using assms by (fastforce simp: noise_exchange_def split: prod.splits sum.splits)

lemma first_message:
  assumes "new_noise L True rnd v w = Inr i" "WriteHandshake L m i = (Inr (m1, d1), i1)"
  shows "m1 = nsEphemeralPublic i \<and> nsStaticPublic i1 = v \<and> nsStep i1 = 1 \<and> nsInitiator i1 \<and> \<not> nsComplete i1"
  using new_noise_fields [OF assms(1)] assms(2) by (auto simp: WriteHandshake_def initiatorWrite_def mixHash_def Let_def)

lemma second_message:
  assumes "crypto_ok L" "new_noise L False rnd v w = Inr r" "WriteHandshake L m r = (Inr (m2, d2), r1)"
  shows "length m2 = length (nsEphemeralPublic r) + length v + SecretboxOverhead"
  using new_noise_fields [OF assms(2)] assms(1,3) by (auto simp: noise_defs Let_def split: if_splits option.splits)

lemma third_message:
  assumes "crypto_ok L" "nsStep i = 1" "nsInitiator i" "\<not> nsComplete i" "WriteHandshake L m i = (Inr (m3, d3), i')"
  shows "length m3 = length (nsStaticPublic i) + SecretboxOverhead"
  using assms by (auto simp: noise_defs Let_def split: if_splits option.splits)

text \<open>Both ends of a handshake, in terms of the sessions.\<close>

lemma handshake_runs:
  assumes "crypto_ok L" "new_noise L True rnd v w = Inr i" "new_noise L False rnd' rp rs = Inr r" "length v = 32" "length rp = 32"
    and ex: "noise_exchange L i r = (Inr d, i', r')" and io: "io_works ia" "io_works ib"
  shows "fst (dialNoise L rnd v w ia (wire_of (noiseHandshake L rnd' rp rs ib))) = Inr (handshakeResult L i')
    \<and> fst (noiseHandshake L rnd' rp rs ib (wire_of (dialNoise L rnd v w ia))) = Inr (handshakeResult L r')"
proof -
  obtain m1 d1 i1 m2 d2 r1 m3 d3 m4 d4 where m: "WriteHandshake L [] i = (Inr (m1, d1), i1)" "WriteHandshake L m1 r = (Inr (m2, d2), r1)"
    "WriteHandshake L m2 i1 = (Inr (m3, d3), i')" "WriteHandshake L m3 r1 = (Inr (m4, d4), r')"
    using exchange_messages [OF ex] .
  note one = first_message [OF assms(2) m(1)]
  have len: "length m1 = 32" "length m2 = 80" "length m3 = 48"
    using one second_message [OF assms(1,3) m(2)] third_message [OF assms(1) _ _ _ m(3)] length_public [OF assms(1) new_noise_fields(11) [OF assms(2)]]
      length_public [OF assms(1) new_noise_fields(11) [OF assms(3)]] assms(4,5) by (auto simp: SecretboxOverhead_def)
  then have ne: "m2 \<noteq> []" "m3 \<noteq> []" by auto
  note sides = NewNoiseInitiator_def NewNoiseResponder_def assms(2,3)
  have b: "snd (noiseHandshake L rnd' rp rs ib (\<lambda>_. m1)) = [m2]"
    using io len ne by (simp add: noiseHandshake_def sides io_works_def stream_readFull_def m)
  have a: "snd (dialNoise L rnd v w ia (\<lambda>_. m2)) = [m1, m3]" "snd (dialNoise L rnd v w ia (\<lambda>_. [])) = [m1]"
    using io len ne by (simp_all add: dialNoise_def sides io_works_def stream_readFull_def m)
  have "fst (dialNoise L rnd v w ia (wire_of (noiseHandshake L rnd' rp rs ib))) = Inr (handshakeResult L i')"
    using io len ne b by (simp add: dialNoise_def [of _ _ _ _ _ "wire_of _"] sides io_works_def stream_readFull_def m wire_of_def)
  moreover have "fst (noiseHandshake L rnd' rp rs ib (wire_of (dialNoise L rnd v w ia))) = Inr (handshakeResult L r')"
    using io len ne a by (simp add: noiseHandshake_def [of _ _ _ _ _ "wire_of _"] sides io_works_def stream_readFull_def m wire_of_def)
  ultimately show ?thesis ..
qed


section \<open>Sending\<close>

lemma SendTo_ready:
  assumes "tsConns s peer = Some r" "tcState (tsHeap s ! r) = StateReady" "ok 0 \<and> ok 1 \<and> ok 2"
    and "case tsShaper s of None \<Rightarrow> True | Some sh \<Rightarrow> sh (serviceName svc) (hex_encode (take 8 peer)) (EncodeFrameBare t payload) = None"
  shows "\<exists>s'. SendTo ok peer svc t payload s = (Inr (tcHandle (tsHeap s ! r), svc # EncodeFrameBare t payload), s')"
  using assms by (auto simp: SendTo_def Transport_OpenStream_def Conn_OpenStream_def Let_def split: option.splits)

text \<open>
  C13: What is sent to a peer reaches the handler of the service. When the sender has a ready connection and its shaper lets the frame pass, the bytes it
  writes on the new stream make the receiver call the handler that is registered for the service, provided it does not forbid the service on that
  connection, and the handler decodes from the stream exactly the message type and the payload, if the payload has at most one megabyte.
\<close>

theorem transport_send_delivers:
  assumes "tsConns a peer = Some r" "tcState (tsHeap a ! r) = StateReady" "ok 0 \<and> ok 1 \<and> ok 2"
    and "case tsShaper a of None \<Rightarrow> True | Some sh \<Rightarrow> sh (serviceName svc) (hex_encode (take 8 peer)) (EncodeFrameBare t payload) = None"
    and "tsHandlers b svc = Some h" "tcAllowed (tsHeap b ! q) = [] \<or> map_of (tcAllowed (tsHeap b ! q)) svc = Some True" "length payload \<le> MaxFrameSize"
  shows "\<exists>a' bytes b'. SendTo ok peer svc t payload a = (Inr (tcHandle (tsHeap a ! r), bytes), a') \<and> bytes \<noteq> []
     \<and> serve_stream q (Some (hd bytes)) b = (Some (h, svc, tcPeerID (tsHeap b ! q)), b')
     \<and> DecodeFrameBare (tl bytes) = Inr \<lparr>tfType = t, tfLength = word_of_nat (length payload), tfPayload = payload\<rparr>"
proof -
  obtain a' where "SendTo ok peer svc t payload a = (Inr (tcHandle (tsHeap a ! r), svc # EncodeFrameBare t payload), a')"
    using SendTo_ready [OF assms(1-4)] by blast
  moreover have "DecodeFrameBare (EncodeFrameBare t payload) = Inr \<lparr>tfType = t, tfLength = word_of_nat (length payload), tfPayload = payload\<rparr>"
    using DecodeFrameBare_append [of payload t "[]"] assms(7) by (simp add: MaxFrameSize_def)
  ultimately show ?thesis using assms(5,6) by (auto simp: serve_stream_def)
qed

section \<open>The identity of an inbound connection\<close>

lemma enter_conn_lookup:
  "enter_conn c s = (r, s') \<Longrightarrow> tsConns s' (tcPeerID c) = Some r \<and> tsHeap s' ! r = c \<and> tsShaper s' = tsShaper s"
  by (auto simp: enter_conn_def)

text \<open>
  C12: Anyone can take over the traffic for a node. An attacker who knows only the public key \<open>v\<close> of the victim runs the code's own
  dialler with it and some other private key \<open>w\<close>; the server accepts the connection under the victim's identifier, in place of the
  victim's own connection, and the next message it sends to the victim is written, unprotected by the handshake, to the attacker.
\<close>

theorem transport_inbound_hijack:
  assumes "crypto_ok L" "public_of L victim v" "public_of L (tsPrivKey s) (tsPubKey s)"
    and "NewNoiseInitiator L rnd v w = Inr i" "NewNoiseResponder L rnd' (tsPubKey s) (tsPrivKey s) = Inr r" "clDH L w (nsEphemeralPublic r) \<noteq> None"
    and "io_works ia" "io_works ib" "tsShaper s = None"
  shows "\<exists>q s' s''. accept_conn L rnd' ib (wire_of (dialNoise L rnd v w ia)) attacker addr now s = (Inr q, s')
     \<and> SendTo (\<lambda>_. True) (crypto_NodeID L v) svc t payload s' = (Inr (attacker, svc # EncodeFrameBare t payload), s'')"
proof -
  note new = assms(4,5) [unfolded NewNoiseInitiator_def NewNoiseResponder_def]
  obtain i' r' where ex: "noise_exchange L i r = (Inr (True, True), i', r')" "nsRemotePublic r' = v"
    using responder_believes [OF assms(1-6)] by blast
  have "fst (noiseHandshake L rnd' (tsPubKey s) (tsPrivKey s) ib (wire_of (dialNoise L rnd v w ia))) = Inr (handshakeResult L r')"
    using handshake_runs [OF assms(1) new length_public [OF assms(1,2)] length_public [OF assms(1,3)] ex(1) assms(7,8)] by blast
  moreover obtain q s' where en: "enter_conn \<lparr>tcHandle = attacker, tcPeerID = crypto_NodeID L v, tcSendKey = nsSendKey r', tcRecvKey = nsRecvKey r', tcAddr = addr,
      tcState = StateReady, tcServices = {}, tcLastSeen = now, tcAllowed = tsAllowed s\<rparr> s = (q, s')" by (meson surj_pair)
  ultimately have "accept_conn L rnd' ib (wire_of (dialNoise L rnd v w ia)) attacker addr now s = (Inr q, s')"
    by (simp add: accept_conn_def handshakeResult_def ex(2))
  moreover have "\<exists>s''. SendTo (\<lambda>_. True) (crypto_NodeID L v) svc t payload s' = (Inr (attacker, svc # EncodeFrameBare t payload), s'')"
    using SendTo_ready [of s' "crypto_NodeID L v" q "\<lambda>_. True" svc t payload] enter_conn_lookup [OF en] assms(9) by auto
  ultimately show ?thesis by blast
qed

section \<open>The table of connections\<close>

text \<open>A server and the connections whose loops run, with whether the peer opened them.\<close>

inductive transport_reach :: "'h transport_server \<Rightarrow> (nat \<times> bool) list \<Rightarrow> bool" where
  start: "transport_reach (NewTransport pub priv opts) []" if "set opts \<subseteq> range WithAllowedServices \<union> range WithTrafficShaper"
| handler: "transport_reach s live \<Longrightarrow> transport_reach (RegisterHandler svc h s) live"
| inbound: "transport_reach s live \<Longrightarrow> accept_conn L rnd io peer qc addr now s = (Inr r, s') \<Longrightarrow> transport_reach s' ((r, True) # live)"
| outbound: "transport_reach s live \<Longrightarrow> Connect L rnd io' peer addr i now s = (res, s')
    \<Longrightarrow> transport_reach s' (case res of Inr (r, True) \<Rightarrow> (r, False) # live | _ \<Rightarrow> live)"
| stream: "transport_reach s live \<Longrightarrow> (r, b) \<in> set live \<Longrightarrow> serve_stream r first s = (res', s') \<Longrightarrow> transport_reach s' live"
| fin: "transport_reach s live \<Longrightarrow> (r, b) \<in> set live \<Longrightarrow> transport_reach (serve_end r s) (filter (\<lambda>x. fst x \<noteq> r) live)"
| close_conn: "transport_reach s live \<Longrightarrow> r < length (tsHeap s) \<Longrightarrow> transport_reach (Conn_Close r s) live"
| send: "transport_reach s live \<Longrightarrow> SendTo ok i svc t payload s = (res'', s') \<Longrightarrow> transport_reach s' live"

definition transport_ok :: "'h transport_server \<Rightarrow> (nat \<times> bool) list \<Rightarrow> bool" where
  "transport_ok s live \<longleftrightarrow> distinct (map fst live) \<and> (\<forall>x \<in> set live. fst x < length (tsHeap s))
     \<and> stActiveConns (tsStats s) = of_nat (length live)
     \<and> (\<forall>x \<in> set live. tcAllowed (tsHeap s ! fst x) = (if snd x then tsAllowed s else []))
     \<and> (\<forall>i r. tsConns s i = Some r \<longrightarrow> r \<in> fst ` set live \<and> tcPeerID (tsHeap s ! r) = i)"

lemma transport_ok_enter:
  assumes "transport_ok s live" "enter_conn c s = (r, s')" "tcAllowed c = (if b then tsAllowed s else [])"
  shows "transport_ok s' ((r, b) # live)"
proof -
  have s': "r = length (tsHeap s)" "tsHeap s' = tsHeap s @ [c]" "tsConns s' = (tsConns s)(tcPeerID c \<mapsto> r)" "tsAllowed s' = tsAllowed s"
    "stActiveConns (tsStats s') = stActiveConns (tsStats s) + 1" using assms(2) by (auto simp: enter_conn_def)
  have less: "x < length (tsHeap s)" if "x \<in> fst ` set live" for x using assms(1) that by (auto simp: transport_ok_def)
  have keep: "tsHeap s' ! x = tsHeap s ! x" "x \<noteq> r" if "x \<in> fst ` set live" for x using less [OF that] s'(1,2) by (simp_all add: nth_append)
  have "distinct (map fst ((r, b) # live))" using assms(1) keep(2) by (auto simp: transport_ok_def)
  moreover have "\<forall>x \<in> set ((r, b) # live). fst x < length (tsHeap s')" using less s'(1,2) by (simp add: less_SucI)
  moreover have "stActiveConns (tsStats s') = of_nat (length ((r, b) # live))" using assms(1) s'(5) by (simp add: transport_ok_def)
  moreover have "\<forall>x \<in> set ((r, b) # live). tcAllowed (tsHeap s' ! fst x) = (if snd x then tsAllowed s' else [])"
    using assms(1,3) keep(1) s'(1,2,4) by (simp add: transport_ok_def)
  moreover have "q \<in> fst ` set ((r, b) # live) \<and> tcPeerID (tsHeap s' ! q) = i" if "tsConns s' i = Some q" for i q
  proof (cases "i = tcPeerID c")
    case True
    with that s'(1-3) show ?thesis by (auto simp: nth_append)
  next
    case False
    with that s'(3) assms(1) have "q \<in> fst ` set live" "tcPeerID (tsHeap s ! q) = i" unfolding transport_ok_def by auto
    then show ?thesis using keep(1) by simp
  qed
  ultimately show ?thesis unfolding transport_ok_def by blast
qed

lemma transport_ok_same:
  assumes "transport_ok s live" "tsConns s' = tsConns s" "stActiveConns (tsStats s') = stActiveConns (tsStats s)" "tsAllowed s' = tsAllowed s"
    and "map (\<lambda>c. (tcPeerID c, tcAllowed c)) (tsHeap s') = map (\<lambda>c. (tcPeerID c, tcAllowed c)) (tsHeap s)"
  shows "transport_ok s' live"
proof -
  have len: "length (tsHeap s') = length (tsHeap s)" using assms(5) by (rule map_eq_imp_length_eq)
  have same: "tcPeerID (tsHeap s' ! x) = tcPeerID (tsHeap s ! x) \<and> tcAllowed (tsHeap s' ! x) = tcAllowed (tsHeap s ! x)" if "x < length (tsHeap s)" for x
    using arg_cong [OF assms(5), of "\<lambda>xs. xs ! x"] that len by simp
  have "x < length (tsHeap s)" if "x \<in> fst ` set live" for x using assms(1) that by (auto simp: transport_ok_def)
  with assms(1-4) len same show ?thesis by (auto simp: transport_ok_def image_iff Ball_def)
qed

lemma transport_ok_end:
  assumes "transport_ok s live" "(r, b) \<in> set live"
  shows "transport_ok (serve_end r s) (filter (\<lambda>x. fst x \<noteq> r) live)"
proof -
  have dist: "distinct (map fst live)" using assms(1) by (simp add: transport_ok_def)
  have "length (filter (\<lambda>x. fst x \<noteq> r) live) + 1 = length live"
    using dist assms(2)
  proof (induction live)
    case (Cons x live)
    have "filter (\<lambda>x. fst x \<noteq> r) live = live" if "fst x = r"
    proof (rule filter_True, rule ballI, rule notI)
      fix y
      assume "y \<in> set live" "fst y = r"
      with that Cons.prems(1) show False by (auto simp: image_iff)
    qed
    with Cons show ?case by (cases "fst x = r") auto
  qed simp
  then have "of_nat (length live) - 1 = (of_nat (length (filter (\<lambda>x. fst x \<noteq> r) live)) :: u64)" by (metis add_diff_cancel_right' of_nat_1 of_nat_add)
  moreover have "distinct (map fst (filter (\<lambda>x. fst x \<noteq> r) live))" using dist by (simp add: distinct_map_filter)
  moreover have "q \<in> fst ` set (filter (\<lambda>x. fst x \<noteq> r) live)" if "tsConns s i = Some q" "i \<noteq> tcPeerID (tsHeap s ! r)" for i q
  proof -
    have "q \<in> fst ` set live" "tcPeerID (tsHeap s ! q) = i" using assms(1) that(1) unfolding transport_ok_def by blast+
    with that(2) show ?thesis by auto
  qed
  ultimately show ?thesis using assms(1) unfolding transport_ok_def serve_end_def by (simp split: if_splits)
qed

lemma Connect_cases:
  assumes "Connect L rnd io peer addr i now s = (res, s')"
  obtains (old) "s' = s" "\<forall>r. res \<noteq> Inr (r, True)"
  | (new) r c t where "res = Inr (r, True)" "enter_conn c s = (r, t)" "tcAllowed c = []"
      "s' = t\<lparr>tsStats := (tsStats t)\<lparr>stTotalConns := stTotalConns (tsStats t) + 1\<rparr>\<rparr>"
  using assms unfolding Connect_def by (fastforce split: option.splits if_splits sum.splits prod.splits)

lemma SendTo_keeps:
  assumes "SendTo ok i svc t payload s = (res, s')"
  shows "tsConns s' = tsConns s \<and> stActiveConns (tsStats s') = stActiveConns (tsStats s) \<and> tsAllowed s' = tsAllowed s
    \<and> map (\<lambda>c. (tcPeerID c, tcAllowed c)) (tsHeap s') = map (\<lambda>c. (tcPeerID c, tcAllowed c)) (tsHeap s)"
  using assms by (auto simp: SendTo_def Transport_OpenStream_def Conn_OpenStream_def count_streams_def Let_def map_update_same
      split: option.splits sum.splits prod.splits if_splits)

lemma transport_reach_ok: "transport_reach s live \<Longrightarrow> transport_ok s live"
proof (induction rule: transport_reach.induct)
  case (start opts pub priv)
  have "set opts \<subseteq> range WithAllowedServices \<union> range WithTrafficShaper \<Longrightarrow> transport_ok s [] \<Longrightarrow> transport_ok (foldl (\<lambda>s opt. opt s) s opts) []" for s
    by (induction opts arbitrary: s) (auto simp: transport_ok_def WithAllowedServices_def WithTrafficShaper_def)
  with start show ?case by (simp add: NewTransport_def transport_ok_def)
next
  case (handler s live svc h)
  show ?case by (rule transport_ok_same [OF handler.IH]) (simp_all add: RegisterHandler_def)
next
  case (inbound s live L rnd io peer qc addr now r s')
  then show ?case by (auto simp: accept_conn_def split: sum.splits prod.splits intro: transport_ok_enter)
next
  case (outbound s live L rnd io' peer addr i now res s')
  from outbound.hyps(2) show ?case
  proof (cases rule: Connect_cases)
    case old
    with outbound.IH show ?thesis by (auto split: sum.splits bool.splits)
  next
    case (new r c t)
    from transport_ok_enter [OF outbound.IH new(2), of False] new(3) have "transport_ok t ((r, False) # live)" by simp
    then have "transport_ok s' ((r, False) # live)" by (rule transport_ok_same) (simp_all add: new(4))
    with new(1) show ?thesis by simp
  qed
next
  case (stream s live r b first res' s')
  show ?case by (rule transport_ok_same [OF stream.IH]) (use stream.hyps(3) in \<open>auto simp: serve_stream_def count_streams_def Let_def split: option.splits if_splits\<close>)
next
  case (fin s live r b)
  then show ?case by (simp add: transport_ok_end)
next
  case (close_conn s live r)
  show ?case by (rule transport_ok_same [OF close_conn.IH]) (use close_conn.hyps(2) in \<open>simp_all add: Conn_Close_def map_update list_update_same_conv\<close>)
next
  case (send s live ok i svc t payload res'' s')
  show ?case by (rule transport_ok_same [OF send.IH]) (use SendTo_keeps [OF send.hyps(2)] in simp_all)
qed

text \<open>
  C14: The table of connections is right. In every reachable state each entry is the connection of a peer with that identifier whose loop is still
  running, and \<open>ActiveConns\<close> is the number of running loops.
\<close>

theorem transport_table_live:
  assumes "transport_reach s live"
  shows "stActiveConns (tsStats s) = of_nat (length live)
     \<and> (\<forall>i r. tsConns s i = Some r \<longrightarrow> (\<exists>b. (r, b) \<in> set live) \<and> r < length (tsHeap s) \<and> tcPeerID (tsHeap s ! r) = i)"
  using transport_reach_ok [OF assms] unfolding transport_ok_def by fastforce

text \<open>
  C15: Exactly which services a peer reaches. A stream for a registered service is dispatched if and only if the server dialled the peer itself, or has no list
  of allowed services, or the list allows the service: the list does not bind peers that the server connected to.
\<close>

theorem transport_acl_exact:
  assumes "transport_reach s live" "(r, b) \<in> set live" "tsHandlers s svc = Some h"
  shows "fst (serve_stream r (Some svc) s) = Some (h, svc, tcPeerID (tsHeap s ! r)) \<longleftrightarrow> \<not> b \<or> tsAllowed s = [] \<or> map_of (tsAllowed s) svc = Some True"
proof -
  have "tcAllowed (tsHeap s ! r) = (if b then tsAllowed s else [])" using transport_reach_ok [OF assms(1)] assms(2) unfolding transport_ok_def by fastforce
  with assms(3) show ?thesis by (simp add: serve_stream_def Let_def)
qed

text \<open>
  C28: Reconnecting can cost the connection. When a known peer connects again and its earlier connection ends afterwards, the entry of the new connection
  is deleted with it: nothing can be sent to the peer although the loop of the new connection runs.
\<close>

theorem transport_reconnect_lost:
  assumes "transport_reach s live" "tsConns s i = Some r"
    and "accept_conn L rnd io peer qc addr now s = (Inr r', s')" "tcPeerID (tsHeap s' ! r') = i"
  shows "fst (SendTo ok i svc t payload (serve_end r s')) \<in> {Inl NoConnection} \<union> range (Inl \<circ> ShaperRefuses)
     \<and> transport_reach (serve_end r s') (filter (\<lambda>x. fst x \<noteq> r) ((r', True) # live)) \<and> (r', True) \<in> set (filter (\<lambda>x. fst x \<noteq> r) ((r', True) # live))"
proof -
  note ok = transport_reach_ok [OF assms(1)]
  have "r \<in> fst ` set live \<and> tcPeerID (tsHeap s ! r) = i" using ok assms(2) unfolding transport_ok_def by blast
  moreover from this have "r < length (tsHeap s)" using ok unfolding transport_ok_def by fastforce
  ultimately have live: "r \<in> fst ` set live" "r < length (tsHeap s)" "tcPeerID (tsHeap s ! r) = i" by simp_all
  obtain c where c: "enter_conn c s = (r', s')" using assms(3) by (auto simp: accept_conn_def split: sum.splits prod.splits)
  then have new: "r' \<noteq> r" "tcPeerID (tsHeap s' ! r) = i" using live(2,3) by (auto simp: enter_conn_def nth_append)
  obtain b where "(r, b) \<in> set live" using live(1) by auto
  then have "transport_reach (serve_end r s') (filter (\<lambda>x. fst x \<noteq> r) ((r', True) # live))"
    by (intro transport_reach.fin [OF transport_reach.inbound [OF assms(1,3)], of r b]) simp
  moreover have "tsConns (serve_end r s') i = None" using new(2) by (simp add: serve_end_def)
  then have "fst (SendTo ok i svc t payload (serve_end r s')) \<in> {Inl NoConnection} \<union> range (Inl \<circ> ShaperRefuses)"
    by (auto simp: SendTo_def Transport_OpenStream_def Let_def split: option.splits)
  ultimately show ?thesis using new(1) by simp
qed

section \<open>Concrete connections\<close>

definition demo_io :: stream_io where "demo_io = \<lparr>sioOpen = True, sioWrite = (\<lambda>_. True), sioEOF = True\<rparr>"

definition demo_dial :: "bytes \<Rightarrow> (bytes list \<Rightarrow> bytes) \<Rightarrow> (handshake_error + handshake_result) \<times> bytes list" where
  "demo_dial priv = dialNoise demo_lib (Some (replicate 32 1)) (demo_public [3]) priv demo_io"

definition demo_transport :: "nat transport_server" where
  "demo_transport = RegisterHandler 67 0 (NewTransport (demo_public [4]) [4] [WithAllowedServices [(67, True)]])"

definition demo_linked :: "nat \<Rightarrow> nat transport_server \<Rightarrow> nat transport_server" where
  "demo_linked qc s = snd (accept_conn demo_lib (Some (replicate 32 2)) demo_io (wire_of (demo_dial [3])) qc ''a'' 0 s)"

lemma demo_io_works: "io_works demo_io" by (simp add: io_works_def demo_io_def)

lemma demo_keys: "tsPubKey demo_transport = demo_public [4]" "tsPrivKey demo_transport = [4]" "tsShaper demo_transport = None"
  by (simp_all add: demo_transport_def RegisterHandler_def NewTransport_def WithAllowedServices_def)

lemma demo_reach: "transport_reach demo_transport []"
  unfolding demo_transport_def by (intro transport_reach.handler transport_reach.start) auto


theorem transport_inbound_hijack_witness:
  "\<exists>q s' s''. accept_conn demo_lib (Some (replicate 32 2)) demo_io (wire_of (demo_dial [99])) 7 ''a'' 0 demo_transport = (Inr q, s')
     \<and> SendTo (\<lambda>_. True) (crypto_NodeID demo_lib (demo_public [3])) 67 1 [9] s' = (Inr (7, 67 # EncodeFrameBare 1 [9]), s'')"
  unfolding demo_dial_def
  using transport_inbound_hijack [OF demo_lib_ok demo_public_of, of demo_transport "Some (replicate 32 1)" "[3]" "[99]" "demo_noise True 1 (demo_public [3]) [99]"
      "Some (replicate 32 2)" "demo_noise False 2 (demo_public [4]) [4]" demo_io demo_io 7 "''a''" 0 67 1 "[9]"] demo_io_works demo_public_of [of "[4]"]
  by (simp add: NewNoiseInitiator_def NewNoiseResponder_def demo_noise_new demo_keys) (simp add: demo_lib_def)

lemma demo_accepts:
  assumes "tsPubKey s = demo_public [4]" "tsPrivKey s = [4]"
  shows "accept_conn demo_lib (Some (replicate 32 2)) demo_io (wire_of (demo_dial [3])) qc ''a'' 0 s = (Inr (length (tsHeap s)), demo_linked qc s)
     \<and> tcPeerID (tsHeap (demo_linked qc s) ! length (tsHeap s)) = crypto_NodeID demo_lib (demo_public [3])
     \<and> tsConns (demo_linked qc s) (crypto_NodeID demo_lib (demo_public [3])) = Some (length (tsHeap s))
     \<and> tcState (tsHeap (demo_linked qc s) ! length (tsHeap s)) = StateReady \<and> tcHandle (tsHeap (demo_linked qc s) ! length (tsHeap s)) = qc
     \<and> tcAllowed (tsHeap (demo_linked qc s) ! length (tsHeap s)) = tsAllowed s
     \<and> tsPubKey (demo_linked qc s) = demo_public [4] \<and> tsPrivKey (demo_linked qc s) = [4] \<and> tsHeap (demo_linked qc s) \<noteq> []
     \<and> tsShaper (demo_linked qc s) = tsShaper s \<and> tsHandlers (demo_linked qc s) = tsHandlers s \<and> tsAllowed (demo_linked qc s) = tsAllowed s"
proof -
  let ?i = "demo_noise True 1 (demo_public [3]) [3]" and ?r = "demo_noise False 2 (demo_public [4]) [4]"
  obtain i' r' where "noise_exchange demo_lib ?i ?r = (Inr (True, True), i', r')" "nsRemotePublic r' = demo_public [3]"
    using noise_session_synced [OF demo_lib_ok demo_public_of demo_public_of, of "Some (replicate 32 1)" "[3]" ?i "Some (replicate 32 2)" "[4]" ?r]
    by (auto simp: NewNoiseInitiator_def NewNoiseResponder_def demo_noise_new)
  with handshake_runs [OF demo_lib_ok demo_noise_new demo_noise_new length_public [OF demo_lib_ok demo_public_of] length_public [OF demo_lib_ok demo_public_of]
      this(1) demo_io_works demo_io_works] assms
  show ?thesis by (simp add: demo_linked_def accept_conn_def demo_dial_def handshakeResult_def enter_conn_def)
qed

lemmas demo_first = demo_accepts [OF demo_keys(1,2)]

lemma demo_linked_reach: "transport_reach (demo_linked 7 demo_transport) [(0, True)]"
proof -
  have "length (tsHeap demo_transport) = 0" by (simp add: demo_transport_def RegisterHandler_def NewTransport_def WithAllowedServices_def)
  with transport_reach.inbound [OF demo_reach conjunct1 [OF demo_first]] show ?thesis by simp
qed

theorem transport_table_live_witness: "stActiveConns (tsStats (demo_linked 7 demo_transport)) = 1"
  using transport_table_live [OF demo_linked_reach] by simp

theorem transport_acl_exact_witness:
  "fst (serve_stream 0 (Some 67) (demo_linked 7 demo_transport)) = Some (0, 67, tcPeerID (tsHeap (demo_linked 7 demo_transport) ! 0))"
proof -
  have "tsHandlers demo_transport 67 = Some 0" "tsAllowed demo_transport = [(67, True)]"
    by (simp_all add: demo_transport_def RegisterHandler_def NewTransport_def WithAllowedServices_def)
  then show ?thesis using transport_acl_exact [OF demo_linked_reach, of 0 True 67 0] demo_first [of 7] by simp
qed

theorem transport_reconnect_lost_witness:
  "fst (SendTo (\<lambda>_. True) (crypto_NodeID demo_lib (demo_public [3])) 67 1 [9] (serve_end 0 (demo_linked 8 (demo_linked 7 demo_transport)))) \<in> {Inl NoConnection} \<union> range (Inl \<circ> ShaperRefuses)"
proof -
  have zero: "length (tsHeap demo_transport) = 0" by (simp add: demo_transport_def RegisterHandler_def NewTransport_def WithAllowedServices_def)
  note two = demo_first [of 7, unfolded zero]
  show ?thesis
    using transport_reconnect_lost [OF demo_linked_reach, of "crypto_NodeID demo_lib (demo_public [3])" 0] demo_accepts [of "demo_linked 7 demo_transport" 8] two by blast
qed

theorem transport_send_delivers_witness:
  "\<exists>a' bytes. SendTo (\<lambda>_. True) (crypto_NodeID demo_lib (demo_public [3])) 67 1 [9] (demo_linked 7 demo_transport) = (Inr (7, bytes), a')
     \<and> DecodeFrameBare (tl bytes) = Inr \<lparr>tfType = 1, tfLength = 1, tfPayload = [9]\<rparr>"
proof -
  have zero: "length (tsHeap demo_transport) = 0" "tsHandlers demo_transport 67 = Some 0" "tsAllowed demo_transport = [(67, True)]"
    by (simp_all add: demo_transport_def RegisterHandler_def NewTransport_def WithAllowedServices_def)
  note one = demo_first [of 7, unfolded zero(1)]
  show ?thesis
    using transport_send_delivers [of "demo_linked 7 demo_transport" "crypto_NodeID demo_lib (demo_public [3])" 0 "\<lambda>_. True" 67 1 "[9]" "demo_linked 7 demo_transport" 0 0]
      one zero demo_keys(3) by (auto simp: MaxFrameSize_def)
qed

end
