(* ===== verification/Transport_Relay.thy ===== *)
theory Transport_Relay
  imports Transport "HOL-Library.AList"
begin

text \<open>
  The circuit relay (\<open>pkg/transport/relay.go\<close>). The table of circuits is an association list with distinct keys; streams are numbers, and the relay
  records which of them it has closed. \<open>fl\<close> rounds to \<open>float64\<close>. A reading of a stream is the bytes it returns and whether it returns an
  error; the two copying goroutines of a circuit are sequences of turns, so that they interleave freely. The mutex appears only in \<open>Stop\<close>,
  where the code takes it twice.
\<close>

record circuit =
  ciID :: string
  ciInitiator :: bytes
  ciTarget :: bytes
  ciCreatedAt :: gotime
  ciBytesIn :: u64
  ciBytesOut :: u64
  ciInStream :: "nat option"
  ciOutStream :: "nat option"

record relay =
  rlCircuits :: "(string \<times> circuit) list"
  rlLoad :: real
  rlCapacity :: nat
  rlClosed :: "nat set"

definition relayMaxStreams :: nat where "relayMaxStreams = 100"

definition NewRelay :: relay where
  "NewRelay = \<lparr>rlCircuits = [], rlLoad = 0, rlCapacity = relayMaxStreams, rlClosed = {}\<rparr>"

definition relay_load :: "(real \<Rightarrow> real) \<Rightarrow> relay \<Rightarrow> relay" where
  "relay_load fl r = r\<lparr>rlLoad := fl (real (length (rlCircuits r)) / real (rlCapacity r))\<rparr>"

datatype relay_error = RelayAtCapacity

definition AcceptCircuit :: "(real \<Rightarrow> real) \<Rightarrow> gotime \<Rightarrow> string \<Rightarrow> bytes \<Rightarrow> bytes \<Rightarrow> nat option \<Rightarrow> nat option \<Rightarrow> relay \<Rightarrow> relay_error option \<times> relay" where
  "AcceptCircuit fl now i initiator target ins outs r =
     (if length (rlCircuits r) \<ge> rlCapacity r then (Some RelayAtCapacity, r)
      else (None, relay_load fl (r\<lparr>rlCircuits := AList.update i
              \<lparr>ciID = i, ciInitiator = initiator, ciTarget = target, ciCreatedAt = now, ciBytesIn = 0, ciBytesOut = 0, ciInStream = ins, ciOutStream = outs\<rparr>
              (rlCircuits r)\<rparr>)))"

definition recordBytes :: "string \<Rightarrow> u64 \<Rightarrow> relay \<Rightarrow> relay" where
  "recordBytes i n r =
     (case map_of (rlCircuits r) i of
        None \<Rightarrow> r
      | Some c \<Rightarrow> r\<lparr>rlCircuits := AList.update i (c\<lparr>ciBytesIn := ciBytesIn c + n\<rparr>) (rlCircuits r)\<rparr>)"

definition CloseCircuit :: "(real \<Rightarrow> real) \<Rightarrow> string \<Rightarrow> relay \<Rightarrow> relay" where
  "CloseCircuit fl i r =
     relay_load fl
       (case map_of (rlCircuits r) i of
          None \<Rightarrow> r
        | Some c \<Rightarrow> r\<lparr>rlCircuits := AList.delete i (rlCircuits r), rlClosed := rlClosed r \<union> set_option (ciInStream c) \<union> set_option (ciOutStream c)\<rparr>)"

text \<open>A turn of \<open>pump\<close> or \<open>pumpID\<close>, which are the same code: what is written, and whether the loop goes on.\<close>

definition pump_turn :: "(real \<Rightarrow> real) \<Rightarrow> string \<Rightarrow> bytes \<times> bool \<Rightarrow> bool \<Rightarrow> relay \<Rightarrow> bytes \<times> bool \<times> relay" where
  "pump_turn fl i reading writes r =
     (case reading of (buf, err) \<Rightarrow>
        if buf \<noteq> [] \<and> \<not> writes then ([], False, CloseCircuit fl i r)
        else let r' = (if buf \<noteq> [] then recordBytes i (word_of_nat (length buf)) r else r)
             in if err then (buf, False, CloseCircuit fl i r') else (buf, True, r'))"

text \<open>\<open>pump\<close> alone, over the readings of the source; the last component says whether it has returned.\<close>

fun pump :: "(real \<Rightarrow> real) \<Rightarrow> string \<Rightarrow> ((bytes \<times> bool) \<times> bool) list \<Rightarrow> relay \<Rightarrow> bytes \<times> bool \<times> relay" where
  "pump fl i [] r = ([], False, r)"
| "pump fl i ((reading, writes) # rest) r =
     (case pump_turn fl i reading writes r of
        (out, False, r') \<Rightarrow> (out, True, r')
      | (out, True, r') \<Rightarrow> (case pump fl i rest r' of (out', fin, r'') \<Rightarrow> (out @ out', fin, r'')))"

definition Circuits :: "relay \<Rightarrow> circuit list" where "Circuits r = map snd (rlCircuits r)"

definition Relay_Info :: "relay \<Rightarrow> nat \<times> real" where "Relay_Info r = (rlCapacity r, rlLoad r)"

text \<open>\<open>Stop\<close> with its mutex: \<open>CloseCircuit\<close> locks it again, and blocks for ever (\<open>None\<close>) when it is held.\<close>

definition locked_CloseCircuit :: "(real \<Rightarrow> real) \<Rightarrow> bool \<Rightarrow> string \<Rightarrow> relay \<Rightarrow> relay option" where
  "locked_CloseCircuit fl held i r = (if held then None else Some (CloseCircuit fl i r))"

definition Relay_Stop :: "(real \<Rightarrow> real) \<Rightarrow> relay \<Rightarrow> relay option" where
  "Relay_Stop fl r = foldl (\<lambda>st i. Option.bind st (locked_CloseCircuit fl True i)) (Some r) (map fst (rlCircuits r))"

lemma relay_stop_blocks: "Relay_Stop fl r = (if rlCircuits r = [] then Some r else None)"
proof -
  have "foldl (\<lambda>st i. Option.bind st (locked_CloseCircuit fl True i)) None is = None" for "is" by (induction "is") simp_all
  then show ?thesis by (cases "rlCircuits r") (simp_all add: Relay_Stop_def locked_CloseCircuit_def)
qed

section \<open>Extending a circuit\<close>

definition MsgRelay :: byte where "MsgRelay = 10"

datatype extend_error = ExtendTooShort | ExtendInvalid

definition EncodeRelayExtend :: "bytes \<Rightarrow> bytes \<Rightarrow> bytes" where
  "EncodeRelayExtend circuitID target = MsgRelay # put_u32 (word_of_nat (length circuitID)) @ circuitID @ target"

definition DecodeRelayExtend :: "bytes \<Rightarrow> extend_error + bytes \<times> bytes" where
  "DecodeRelayExtend data =
     (if length data < 5 then Inl ExtendTooShort
      else if data ! 0 \<noteq> MsgRelay then Inl ExtendInvalid
      else let idLen = unat (get_u32 (take 4 (drop 1 data)))
           in if length data < 5 + idLen + 32 then Inl ExtendInvalid
              else Inr (take idLen (drop 5 data), take 32 (drop (5 + idLen) data)))"

lemma relay_extend_roundtrip:
  assumes "length i < 2 ^ 32" "length target = 32"
  shows "DecodeRelayExtend (EncodeRelayExtend i target @ rest) = Inr (i, target)"
proof -
  have n: "unat (word_of_nat (length i) :: u32) = length i" using assms(1) by (simp add: take_bit_nat_eq_self unsigned_of_nat)
  let ?d = "EncodeRelayExtend i target @ rest"
  have five: "drop 5 ?d = i @ target @ rest" by (simp add: EncodeRelayExtend_def eval_nat_numeral)
  have "drop (5 + length i) ?d = drop (length i) (drop 5 ?d)" by (simp only: drop_drop add.commute)
  then have rest: "drop (5 + length i) ?d = target @ rest" unfolding five by simp
  have "take 4 (drop 1 ?d) = put_u32 (word_of_nat (length i))" "?d ! 0 = MsgRelay" "length ?d = 5 + length i + 32 + length rest"
    using assms(2) by (simp_all add: EncodeRelayExtend_def)
  then show ?thesis unfolding DecodeRelayExtend_def by (simp add: n five rest assms(2) Let_def del: drop_append)
qed

section \<open>Copying\<close>

lemma map_of_recordBytes:
  "map_of (rlCircuits (recordBytes i n r)) = (map_of (rlCircuits r))(i := map_option (\<lambda>c. c\<lparr>ciBytesIn := ciBytesIn c + n\<rparr>) (map_of (rlCircuits r) i))"
  by (auto simp: recordBytes_def update_conv' split: option.splits)

text \<open>
  A relay passes a stream on unchanged. While nothing fails, the bytes that \<open>pump\<close> has written are the bytes it has read, in order,
  however the reads cut them; the circuit stays open and its counter has grown by their number.
\<close>

theorem relay_forwards:
  assumes "map_of (rlCircuits r) i = Some c"
  shows "\<exists>r'. pump fl i (map (\<lambda>buf. ((buf, False), True)) bufs) r = (concat bufs, False, r') \<and> rlClosed r' = rlClosed r
     \<and> map_of (rlCircuits r') i = Some (c\<lparr>ciBytesIn := ciBytesIn c + word_of_nat (length (concat bufs))\<rparr>)"
  using assms
proof (induction bufs arbitrary: r c)
  case (Cons buf bufs)
  let ?r = "if buf \<noteq> [] then recordBytes i (word_of_nat (length buf)) r else r" and ?c = "c\<lparr>ciBytesIn := ciBytesIn c + word_of_nat (length buf)\<rparr>"
  have turn: "pump_turn fl i (buf, False) True r = (buf, True, ?r)" by (simp add: pump_turn_def)
  have "map_of (rlCircuits ?r) i = Some ?c" using Cons.prems by (simp add: map_of_recordBytes)
  moreover have "rlClosed ?r = rlClosed r" using Cons.prems by (simp add: recordBytes_def)
  ultimately show ?case using Cons.IH [of ?r ?c] turn by (auto simp: add.assoc)
qed simp

section \<open>The table\<close>

inductive relay_reach :: "(real \<Rightarrow> real) \<Rightarrow> relay \<Rightarrow> bool" for fl where
  start: "relay_reach fl NewRelay"
| accept: "relay_reach fl r \<Longrightarrow> relay_reach fl (snd (AcceptCircuit fl now i ini target ins outs r))"
| turn: "relay_reach fl r \<Longrightarrow> relay_reach fl (snd (snd (pump_turn fl i reading writes r)))"
| close_circuit: "relay_reach fl r \<Longrightarrow> relay_reach fl (CloseCircuit fl i r)"

definition relay_ok :: "(real \<Rightarrow> real) \<Rightarrow> relay \<Rightarrow> bool" where
  "relay_ok fl r \<longleftrightarrow> rlCapacity r = 100 \<and> length (rlCircuits r) \<le> 100 \<and> distinct (map fst (rlCircuits r))
     \<and> rlLoad r = fl (real (length (rlCircuits r)) / 100) \<and> (\<forall>i c. (i, c) \<in> set (rlCircuits r) \<longrightarrow> ciID c = i \<and> ciBytesOut c = 0)"

lemma length_alist_update: "length (AList.update k v al) = (if k \<in> fst ` set al then length al else Suc (length al))"
  by (induction al) auto

lemma length_alist_delete: "length (AList.delete k al) \<le> length al"
  by (simp add: AList.delete_eq)

lemma alist_update_mem: "distinct (map fst al) \<Longrightarrow> (i, c) \<in> set (AList.update k v al) \<Longrightarrow> (i = k \<and> c = v) \<or> (i, c) \<in> set al"
  by (induction al) (auto split: if_splits)

lemma relay_ok_update:
  assumes "relay_ok fl r" "ciID c = i" "ciBytesOut c = 0" "length (rlCircuits r) < 100 \<or> i \<in> fst ` set (rlCircuits r)"
  shows "relay_ok fl (relay_load fl (r\<lparr>rlCircuits := AList.update i c (rlCircuits r)\<rparr>))"
proof -
  have dist: "distinct (map fst (rlCircuits r))" using assms(1) by (simp add: relay_ok_def)
  have "ciID x = k \<and> ciBytesOut x = 0" if "(k, x) \<in> set (AList.update i c (rlCircuits r))" for k x
    using alist_update_mem [OF dist that] assms(1-3) by (auto simp: relay_ok_def)
  moreover have "length (AList.update i c (rlCircuits r)) \<le> 100" using assms(1,4) by (auto simp: length_alist_update relay_ok_def)
  ultimately show ?thesis using assms(1) distinct_update [OF dist] by (simp add: relay_ok_def relay_load_def)
qed

lemma relay_ok_record: "relay_ok fl r \<Longrightarrow> relay_ok fl (recordBytes i n r)"
proof (cases "map_of (rlCircuits r) i")
  case (Some c)
  assume ok: "relay_ok fl r"
  from Some have mem: "(i, c) \<in> set (rlCircuits r)" by (rule map_of_SomeD)
  then have known: "i \<in> fst ` set (rlCircuits r)" by force
  have "relay_ok fl (relay_load fl (r\<lparr>rlCircuits := AList.update i (c\<lparr>ciBytesIn := ciBytesIn c + n\<rparr>) (rlCircuits r)\<rparr>))"
    using ok mem known by (intro relay_ok_update) (auto simp: relay_ok_def)
  then show ?thesis using Some ok known by (simp add: recordBytes_def relay_ok_def relay_load_def length_alist_update)
qed (simp add: recordBytes_def)

lemma relay_ok_close:
  assumes "relay_ok fl r"
  shows "relay_ok fl (CloseCircuit fl i r)"
proof -
  have "length (AList.delete i (rlCircuits r)) \<le> 100" using length_alist_delete [of i "rlCircuits r"] assms unfolding relay_ok_def by linarith
  moreover have "distinct (map fst (AList.delete i (rlCircuits r)))" using assms distinct_delete by (auto simp: relay_ok_def)
  moreover have "set (AList.delete i (rlCircuits r)) \<subseteq> set (rlCircuits r)" by (auto simp: AList.delete_eq)
  ultimately show ?thesis using assms by (auto simp: relay_ok_def CloseCircuit_def relay_load_def split: option.splits)
qed

lemma relay_reach_ok:
  assumes "fl 0 = 0"
  shows "relay_reach fl r \<Longrightarrow> relay_ok fl r"
proof (induction rule: relay_reach.induct)
  case start
  show ?case using assms by (simp add: relay_ok_def NewRelay_def relayMaxStreams_def)
next
  case (accept r now i ini target ins outs)
  have "rlCapacity r = 100" using accept.IH by (simp add: relay_ok_def)
  then show ?case using accept.IH by (auto simp: AcceptCircuit_def intro!: relay_ok_update)
next
  case (turn r i reading writes)
  then show ?case by (auto simp: pump_turn_def Let_def relay_ok_record relay_ok_close split: prod.splits)
next
  case (close_circuit r i)
  then show ?case by (simp add: relay_ok_close)
qed

text \<open>
  C29: The relay never exceeds its capacity and reports its load truly: in every reachable state it has at most a hundred circuits, each under its own
  identifier, and the load is their share of the capacity; \<open>BytesOut\<close> is never counted.
\<close>

theorem relay_load_bounded:
  assumes "fl 0 = 0" "relay_reach fl r"
  shows "length (Circuits r) \<le> 100 \<and> distinct (map ciID (Circuits r)) \<and> Relay_Info r = (100, fl (real (length (Circuits r)) / 100))
     \<and> list_all (\<lambda>c. ciBytesOut c = 0) (Circuits r)"
proof -
  have ok: "relay_ok fl r" using relay_reach_ok assms by blast
  then have "map (ciID \<circ> snd) (rlCircuits r) = map fst (rlCircuits r)" by (auto simp: relay_ok_def)
  then have "distinct (map (ciID \<circ> snd) (rlCircuits r))" using ok by (metis relay_ok_def)
  with ok show ?thesis by (auto simp: relay_ok_def Circuits_def Relay_Info_def list_all_iff)
qed

text \<open>
  Two circuits with one identifier destroy each other. \<open>AcceptCircuit\<close> replaces a circuit whose identifier is in use; when the stream of the first one ends, its
  copying loop closes the streams of the second, and its own output stream stays open.
\<close>

theorem relay_identifier_reuse:
  assumes "b \<notin> rlClosed r" "b \<notin> {c, d}"
    and "AcceptCircuit fl now i ini target (Some a) (Some b) r = (None, r1)" "AcceptCircuit fl now' i ini' target' (Some c) (Some d) r1 = (None, r2)"
    and "pump_turn fl i ([], True) True r2 = (out, go, r3)"
  shows "c \<in> rlClosed r3 \<and> d \<in> rlClosed r3 \<and> b \<notin> rlClosed r3 \<and> i \<notin> fst ` set (rlCircuits r3)"
proof -
  have "r3 = CloseCircuit fl i r2" using assms(5) by (simp add: pump_turn_def)
  moreover have "rlClosed r2 = rlClosed r" using assms(3,4) by (auto simp: AcceptCircuit_def relay_load_def split: if_splits)
  moreover obtain x where "map_of (rlCircuits r2) i = Some x" "ciInStream x = Some c" "ciOutStream x = Some d"
    using assms(4) by (auto simp: AcceptCircuit_def relay_load_def update_conv' split: if_splits)
  ultimately show ?thesis using assms(1,2) by (auto simp: CloseCircuit_def relay_load_def AList.delete_eq)
qed

section \<open>Concrete circuits\<close>

definition demo_circuit :: relay where
  "demo_circuit = snd (AcceptCircuit id 0 ''x'' [] [] (Some 1) (Some 2) NewRelay)"

lemma demo_circuit_table: "rlCircuits demo_circuit = [(''x'', \<lparr>ciID = ''x'', ciInitiator = [], ciTarget = [], ciCreatedAt = 0, ciBytesIn = 0, ciBytesOut = 0,
     ciInStream = Some 1, ciOutStream = Some 2\<rparr>)]"
  by (simp add: demo_circuit_def AcceptCircuit_def NewRelay_def relay_load_def relayMaxStreams_def)

theorem relay_forwards_witness: "fst (pump id ''x'' [(([1, 2], False), True), (([], False), True), (([3], False), True)] demo_circuit) = [1, 2, 3]"
  using relay_forwards [of demo_circuit "''x''" "snd (hd (rlCircuits demo_circuit))" id "[[1, 2], [], [3]]"] by (auto simp: demo_circuit_table)

theorem relay_load_bounded_witness: "length (Circuits demo_circuit) \<le> 100 \<and> Relay_Info demo_circuit = (100, 1 / 100)"
proof -
  have "relay_reach id demo_circuit" unfolding demo_circuit_def by (rule relay_reach.accept [OF relay_reach.start])
  from relay_load_bounded [OF _ this] show ?thesis by (simp add: Circuits_def demo_circuit_table)
qed

theorem relay_identifier_reuse_witness:
  "2 \<notin> rlClosed (snd (snd (pump_turn id ''x'' ([], True) True (snd (AcceptCircuit id 0 ''x'' [] [] (Some 3) (Some 4) demo_circuit)))))"
proof -
  have "AcceptCircuit id 0 ''x'' [] [] (Some 1) (Some 2) NewRelay = (None, demo_circuit)"
    by (simp add: demo_circuit_def AcceptCircuit_def NewRelay_def relayMaxStreams_def)
  moreover have "rlCapacity demo_circuit = 100" by (simp add: demo_circuit_def AcceptCircuit_def NewRelay_def relay_load_def relayMaxStreams_def)
  then have "AcceptCircuit id 0 ''x'' [] [] (Some 3) (Some 4) demo_circuit = (None, snd (AcceptCircuit id 0 ''x'' [] [] (Some 3) (Some 4) demo_circuit))"
    by (simp add: AcceptCircuit_def demo_circuit_table)
  ultimately show ?thesis
    using relay_identifier_reuse [of 2 NewRelay 3 4 id 0 "''x''" "[]" "[]" 1 demo_circuit 0 "[]" "[]" _ _ _ "snd (snd (pump_turn id ''x'' ([], True) True _))"]
    by (metis (no_types, lifting) NewRelay_def empty_iff insertE numeral_eq_iff prod.collapse relay.select_convs(4) semiring_norm(85) semiring_norm(87) semiring_norm(89))
qed

end
