(* ===== verification/Spec2Isabelle.thy ===== *)
theory Spec2Isabelle
  imports State_Crdt Crdt_ORSet Crdt_LWW Crdt_Merkle Crdt_RGA_Merge Crdt_RGA_Wire
    Sec_PoW Sec_Capability Sec_Audit Qos Dht_Raft Link_MultiPath Dns_Server Docs_Export Files_Transfer
    Files_Node Vpn_Tunnel Messaging Email_Delivery Email_Imap Registry
    Crypto_Hybrid Federation Transport_Relay
begin

text \<open>
  A verification library for Local-WEB, a peer-to-peer stack in Go (\<open>src/\<close>). It covers the parts that
  hold the program's own logic and on whose guarantees the services build: the replicated data
  types of \<open>pkg/crdt\<close>, the security subsystems of \<open>pkg/security\<close>, traffic shaping in \<open>pkg/qos\<close>, the
  distributed hash table of \<open>pkg/dht\<close>, the link managers of \<open>pkg/link\<close>, and of the services under
  \<open>pkg/services\<close> name resolution, collaborative documents, files, tunnels, messaging,
  email and the package registry. Beside them stand the secure sessions of \<open>pkg/crypto\<close>, the connections of \<open>pkg/transport\<close>, the peer database of
  \<open>pkg/discovery\<close> and the rendezvous service of \<open>pkg/federation\<close>.

  \<^bold>\<open>How the parts interact.\<close> A node joins the network through the DHT: \<open>Bootstrap\<close> asks known
  addresses for peers, \<open>RegisterNode\<close> pays a proof of work and announces the node, \<open>handleMessage\<close>
  checks the work and enters the peer in the routing table, \<open>Lookup\<close>, \<open>Store\<close> and \<open>Get\<close> use the table.
  The services exchange replicated state (OR-Sets, registers and RGA documents, compared by Merkle
  trees), accept requests under capability tokens and memory-hard proofs of work, record security
  events in a hash-chained log and send through rate-limited QoS classes. Below them the link managers
  collect sightings of peers from the drivers and choose the link that carries a write. The DNS
  service answers from a signed zone; a document keeps its lines beside an RGA and exchanges
  operations, presence and snapshots; a file is cut into content-addressed blocks that are stored
  with reference counts and sent to a peer that announces which blocks it holds, and a sync engine
  fetches the blocks that other nodes advertise. Tunnels carry IP packets over a stream, channels keep
  signed messages, and the mail servers share a store of mailboxes: SMTP delivers into it, IMAP reads it.
  The registry takes signed packages over HTTP and announces their metadata through the DHT. Nodes that share no
  network meet at a rendezvous server, which takes registrations for a proof of work; what it lists becomes events
  for the peer database. Two nodes that connect run the handshake of a secure session
  over the first stream; later streams carry frames to the handlers of the services, and a relay copies streams between peers.

  \<^bold>\<open>Theories.\<close>
  \<^item> \<open>LW_Prelude\<close>: bytes, strings, fixed-width integers, clock values, readers over byte buffers; the
    locale \<open>wire_codec\<close> (an encoder and a reader that inverts it) and the locales \<open>operations\<close> and
    \<open>absorbing_operations\<close> (an invariant, or a property that is never lost, over call sequences).
  \<^item> \<open>Go_Format\<close>: decimal, hexadecimal and JSON output as the Go library produces them.
  \<^item> \<open>State_Crdt\<close>: the locale \<open>state_crdt\<close> and strong eventual consistency from its laws.
  \<^item> \<open>Crdt_ORSet\<close>, \<open>Crdt_LWW\<close>, \<open>Crdt_Merkle\<close> (\<open>crdt/crdt.go\<close>, \<open>dht/server.go\<close>): the OR-Set refines the
    join of tag sets and converges; adds win; the register keeps the last write; Merkle proofs are
    complete and \<open>DiffMerkle\<close> is exact; both wire formats.
  \<^item> \<open>Crdt_RGA\<close>, \<open>Crdt_RGA_Merge\<close>, \<open>Crdt_RGA_Wire\<close> (\<open>crdt/crdt.go\<close>): the document type. The linked list is
    a list of nodes and a pointer is a position. Edits splice and tombstone, the invariant is kept,
    a merge takes over every node and tombstone and is idempotent; it does not converge in general.
  \<^item> \<open>Sec_PoW\<close> (\<open>security/pow.go\<close>): clamped cost, exact search, difficulty adjustment in range, replay
    cache bounded and effective.
  \<^item> \<open>Sec_Capability\<close> (\<open>security/capability.go\<close>, Ed25519 wrappers of \<open>crypto/crypto.go\<close>): access is exactly
    what the history of calls grants; issued tokens verify; revocation is permanent.
  \<^item> \<open>Sec_Audit\<close> (\<open>security/audit.go\<close>): logging keeps the chain intact, the chain is tamper evident up to
    hash collisions, transport round trips.
  \<^item> \<open>Qos\<close> (\<open>qos/qos.go\<close>): the rate limit of the token bucket under \<open>float64\<close> rounding; requests that can
    never be served; configuration of unknown classes.
  \<^item> \<open>Dht_Routing\<close>, \<open>Dht_Wire\<close>, \<open>Dht_Node\<close>, \<open>Dht_Client\<close>, \<open>Dht_Raft\<close> (\<open>dht/dht.go\<close>, \<open>dht/server.go\<close>, \<open>dht/raft.go\<close>):
    peers live in a heap because the table and the peer map share them. The table invariant, closest
    peers, pruning, framing and payload round trips, the registration gate, values through both ends
    of the wire, bounded lookups, and the replica with its mutex.
  \<^item> \<open>Link_Manager\<close>, \<open>Link_MultiPath\<close> (\<open>link/types.go\<close>, \<open>link/manager.go\<close>, \<open>link/multipath.go\<close>): the peer table
    refines the best sighting of each peer; the link sets of the multi-path manager keep their
    invariant in every reachable state, a write travels over one link, fail-over tries them all.
  \<^item> \<open>Dns_Wire\<close>, \<open>Dns_Server\<close> (\<open>services/dns/dns.go\<close>): messages round trip; when reading a compressed name
    ends; the signed form does not depend on map order; signed zones resolve and queries are answered.
  \<^item> \<open>Docs_Wire\<close>, \<open>Docs_Document\<close>, \<open>Docs_Sync\<close>, \<open>Docs_Presence\<close>, \<open>Docs_Service\<close>, \<open>Docs_Export\<close> (\<open>services/docs\<close>): the
    document refines an editor on a list of lines and never panics; undo, redo and state transfer;
    what reaches a peer of edits and cursors; the books of the service; exported text stays text.
  \<^item> \<open>Files_Wire\<close>, \<open>Files_Store\<close>, \<open>Files_Transfer\<close> (\<open>services/files\<close>): chunking is exact and bounded, frames and
    want lists, the store refines a bag of blocks, and a transfer delivers the file whatever blocks
    the receiver already holds.
  \<^item> \<open>Files_Exchange\<close>, \<open>Files_Sync\<close>, \<open>Files_Node\<close> (\<open>services/files/exchange.go\<close>, \<open>services/files/sync.go\<close>): the message handlers,
    the sync engine, and both with the store as one node. A round of advertising and asking copies every
    block; a request that is lost is never repeated.
  \<^item> \<open>Vpn_Tunnel\<close> (\<open>services/vpn\<close>): packets cross the carrier unchanged and in order however the stream cuts
    them; the table of tunnels, and the loops that attaching twice leaks.
  \<^item> \<open>Messaging\<close> (\<open>services/messaging\<close>): only members write, and what they write is signed; reading page by page
    ends with the whole history when identifiers differ, and never ends when a message is repeated.
  \<^item> \<open>Go_Text\<close>: the functions of \<open>strings\<close>, \<open>bufio\<close> and \<open>filepath\<close> that the text protocols use.
  \<^item> \<open>Email_Mailbox\<close>, \<open>Email_Smtp\<close>, \<open>Email_Delivery\<close>, \<open>Email_Imap\<close> (\<open>services/email\<close>): UIDs ascend and stay unique; a mail transaction
    delivers what was sent, and only to users the client named; the rate limit holds in every window; an
    IMAP connection is confined to the users whose passwords it knows; sequence sets are read as meant; and
    exactly which commands crash the server.
  \<^item> \<open>Registry_Package\<close>, \<open>Registry\<close> (\<open>services/registry\<close>): packages survive their archive; over HTTP the registry holds
    only packages that their publisher signed; metadata published on one node resolves on another.
  \<^item> \<open>Secure_Channel\<close>: the locale \<open>session_endpoint\<close> and, from its laws, that a run of two endpoints is a run of two queues.
  \<^item> \<open>Crypto_Noise\<close>, \<open>Crypto_Hybrid\<close> (\<open>crypto/noise.go\<close>, \<open>crypto/hybrid.go\<close>): after the handshake packets are delivered in order in both
    directions; whom the responder believes, what a forged packet does, and which keys protect the traffic.
  \<^item> \<open>Transport\<close>, \<open>Transport_Relay\<close> (\<open>transport/quic.go\<close>, \<open>transport/types.go\<close>, \<open>transport/relay.go\<close>): two nodes agree on identities and keys; sent frames reach
    the handler; the table of connections and the access list, exactly; who can take over an identity, and how a reconnect is lost;
    circuits are copied unchanged within the capacity.
  \<^item> \<open>Discovery\<close> (\<open>discovery/types.go\<close>, \<open>discovery/discovery.go\<close>): the best peers are exactly the best; a lost peer disappears.
  \<^item> \<open>Federation\<close> (\<open>federation\<close>): a node that registers is found; everything listed has paid and keeps the limits; polling.

  \<^bold>\<open>Conventions.\<close> An operation returns its new state; errors are values of a datatype per component. A
  \<open>time.Time\<close> is an integer number of nanoseconds since Go's zero time, a reading of the clock is an
  argument, and so are random bytes, answers of \<open>ctx.Err()\<close>, the order in which a map is ranged over
  and the network. SHA3-256, Argon2id, Ed25519, X25519, HKDF, the secretbox, Kyber-1024, \<open>encoding/gob\<close> and \<open>json.Unmarshal\<close> are parameters; what a
  theorem needs of them is a hypothesis of it. Operations run one at a time: each takes its lock for
  its whole body, so their interleavings are call sequences; only the Raft mutex is modelled, where
  the code takes it twice.

  \<^bold>\<open>Bounds.\<close> Loops are structural or have a measure. The nonce searches stop at \<open>2 ^ 32\<close> as in the
  source; \<open>evict\<close> gets as many rounds as there are entries and each removes one; a lookup has \<open>MaxHops\<close>
  rounds; \<open>Wait\<close> is driven by the list of its polls, so a call that has not returned is \<open>Blocked\<close>.
  \<open>readName\<close> follows compression pointers without a bound; it is a partial function whose result is
  \<open>None\<close> where the code does not return, and the inputs on which it returns are characterised.

  The connection loops of the mail servers consume the list of lines the client sends; the search of
  \<open>GeneratePoW\<close> takes a bound, as the source has none.

  \<^bold>\<open>Not modelled.\<close> Link drivers, the QUIC library with its listener, NAT traversal, mDNS, TUN devices, FUSE, WebRTC, the GUI and the commands
  are I/O or glue; generated protobuf code is left out. The protocol marshallers, voice, the
  stores, the plugin host, and the identity files and backups of \<open>crypto/crypto.go\<close> are not modelled. In the modelled
  files the JSON transport of proof-of-work solutions, the QoS context helpers, the DHT accept loop, the
  Raft timers, the goroutines that forward discovery events, the UDP read loop of the DNS server, the QUIC
  broadcast of the document service, word counting, the Zstandard helpers, the ticker of the sync
  engine, the ticker of the registry's distributor and the listeners of the mail and registry servers are left out.

  This theory adds what spans the DHT's client, wire format and server.
\<close>

section \<open>Joining the network\<close>

text \<open>What a registration announces of a node.\<close>

definition announced :: "peer_info \<Rightarrow> bytes \<times> bytes \<times> string \<times> string list" where
  "announced p = (piID p, piPublicKey p, piName p, piAddrs p)"

lemma KBucket_Add_announced: "KBucket_Add now h b p = (ok, h', b') \<Longrightarrow> map announced h' = map announced h"
  by (auto simp: KBucket_Add_def map_update_same announced_def split: option.splits if_splits)

lemma RoutingTable_Add_announced:
  "RoutingTable_Add now h rt p = (ok, h', rt') \<Longrightarrow> map announced h' = map announced h"
  by (auto simp: RoutingTable_Add_def Let_def KBucket_Add_announced split: prod.splits)

lemma put_peer_announced:
  assumes "node_ok n"
  shows "\<exists>r. ndPeers (put_peer now p n) (piID p) = Some r \<and> r < length (ndHeap (put_peer now p n))
     \<and> announced (ndHeap (put_peer now p n) ! r) = announced p"
proof (cases "ndPeers n (piID p)")
  case (Some r)
  with assms have "r < length (ndHeap n)" by (auto simp: node_ok_def)
  with Some show ?thesis by (simp add: put_peer_def)
next
  case None
  let ?r = "length (ndHeap n)"
  obtain ok h rt where add: "RoutingTable_Add now (ndHeap n @ [p]) (ndTable n) ?r = (ok, h, rt)" by (metis prod_cases3)
  then have same: "map announced h = map announced (ndHeap n @ [p])" by (rule RoutingTable_Add_announced)
  then have len: "?r < length h" by (metis length_map length_append_singleton lessI)
  then have "announced (h ! ?r) = map announced h ! ?r" by simp
  also have "\<dots> = announced p" unfolding same by (simp add: nth_append)
  finally show ?thesis using None add len by (simp add: put_peer_def)
qed

text \<open>
  C38: a node that registers is admitted. If \<open>RegisterNode\<close> succeeds for a node that advertises one
  address, then whichever announcement it sends, a well-formed peer that receives its bytes
  accepts the work and records the node under its identifier, with the public key, name and
  address it announced.
\<close>

theorem registration_admits_node:
  assumes "RegisterNode sha3 t0 t1 pub name [a] difficulty d = (None, calls, d')" "(addr, msg) \<in> set calls"
    and "dhLocalID d = NodeIDFromPub sha3 pub" "\<And>x. length (sha3 x) = 32"
    and "length pub = 32" "short16 name" "a \<noteq> []" "length a < 65534" "node_ok m"
    and "handleConn sha3 gob t2 t3 m (write_message msg) = (reply, m')"
  shows "\<exists>r. ndPeers m' (NodeIDFromPub sha3 pub) = Some r \<and> piPublicKey (ndHeap m' ! r) = pub
    \<and> piName (ndHeap m' ! r) = name \<and> piAddrs (ndHeap m' ! r) = [a]"
proof -
  let ?i = "NodeIDFromPub sha3 pub"
  let ?p = "\<lambda>t. \<lparr>piID = ?i, piPublicKey = pub, piName = name, piAddrs = [a], piServices = [], piScore = half_score,
                 piLastSeen = 0, piFirstSeen = t, piVersion = []\<rparr>"
  obtain nonce where nonce: "Dht_SolvePoW sha3 (registrationChallenge pub name [a]) difficulty = Inr nonce"
    using assms(1) by (auto simp: RegisterNode_def split: sum.splits)
  have pl: "msg = \<lparr>mType = MsgRegisterNode, mSrc = ?i, mDst = ?i, mPayload = encodeRegister (?p t0) nonce difficulty\<rparr>"
    using assms(1,2,3) nonce by (auto simp: RegisterNode_def Let_def)
  note work = solved_nonce [OF nonce]
  have dec: "decodeRegister (mPayload msg) = Some \<lparr>rrPubKey = pub, rrNonce = nonce, rrDifficulty = difficulty,
      rrName = name, rrAddrs = [a]\<rparr>"
    using register_roundtrip [of "?p t0" nonce difficulty] work assms(5-8) by (simp add: pl registrable_def)
  have "length (mPayload msg) \<le> 2 ^ 20"
    using assms(5,6,8) by (simp add: pl encodeRegister_def addr_block_def Let_def short16_def)
  moreover have "message_ok msg" using calculation assms(4) by (simp add: pl message_ok_def NodeIDFromPub_def)
  ultimately have "server_read (write_message msg) = Some msg" using server_read_write [of msg "[]"] by simp
  then have "m' = snd (handleMessage sha3 gob t2 t3 m msg)"
    using assms(10) by (simp add: handleConn_def split: prod.splits)
  also have "\<dots> = put_peer t3 (?p t2) m"
    using handleMessage_register [OF _ dec, of sha3 gob t2 t3 m] work by (simp add: pl)
  finally show ?thesis using put_peer_announced [OF assms(9), of t3 "?p t2"] by (auto simp: announced_def)
qed

definition demo_join :: "dht_error option \<times> (string \<times> dht_message) list \<times> dht" where
  "demo_join = RegisterNode (\<lambda>_. replicate 32 0) 5 6 (replicate 32 7) ''new'' [''10.0.0.2:9094''] 8
     \<lparr>dhLocalID = replicate 32 0, dhNode = demo_joined, dhRunning = True\<rparr>"

theorem registration_admits_node_witness:
  "\<exists>r. piAddrs (ndHeap (snd (handleConn (\<lambda>_. replicate 32 0) (\<lambda>_. []) 7 8 demo_node
     (write_message (snd (hd (fst (snd demo_join))))))) ! r) = [''10.0.0.2:9094'']"
proof -
  have ok: "fst demo_join = None \<and> fst (snd demo_join) \<noteq> []" by code_simp
  then have call: "(fst (hd (fst (snd demo_join))), snd (hd (fst (snd demo_join)))) \<in> set (fst (snd demo_join))" by simp
  have join: "RegisterNode (\<lambda>_. replicate 32 0) 5 6 (replicate 32 7) ''new'' [''10.0.0.2:9094''] 8
     \<lparr>dhLocalID = replicate 32 0, dhNode = demo_joined, dhRunning = True\<rparr> = (None, fst (snd demo_join), snd (snd demo_join))"
    using ok unfolding demo_join_def by (metis prod.collapse)
  have "node_ok demo_node" by (simp add: demo_node_def node_ok_New)
  from registration_admits_node [OF join call _ _ _ _ _ _ this prod.collapse [symmetric], of "\<lambda>_. []" 7 8]
  show ?thesis by (auto simp: NodeIDFromPub_def short16_def)
qed

end
